(* ===== verification/Sched_Prelude.thy ===== *)
theory Sched_Prelude
  imports Main "HOL-Library.Word"
begin

text \<open>
  What the component theories share: names for the machine integers of the 32-bit ARM build
  (\<^verbatim>\<open>unsigned long\<close> is 32 bits wide), the error numbers, the list operations of
  \<^verbatim>\<open><linux/list.h>\<close> on the list of the queued nodes, and the lemmas and
  \<^theory_text>\<open>named_theorems\<close> collections that carry the component proofs.
\<close>

unbundle bit_operations_syntax

named_theorems list_ops \<open>definitions of the kernel list operations\<close>
named_theorems wrr_defs \<open>definitions of the WRR scheduling class\<close>
named_theorems rt_defs \<open>definitions of the real-time scheduling class\<close>
named_theorems core_defs \<open>definitions of the core scheduler\<close>
named_theorems load_defs \<open>definitions of the load-average code\<close>
named_theorems cputime_defs \<open>definitions of the cpu time accounting\<close>

section \<open>Machine integers and identifiers\<close>

type_synonym u32 = "32 word"
type_synonym u64 = "64 word"
type_synonym ulong = "32 word"

text \<open>
  A task is named by a number, a task group by the path from it up to the root group (the
  root is \<open>[]\<close>): \<^verbatim>\<open>tg->parent\<close> never changes after
  \<^verbatim>\<open>sched_create_group()\<close>, so the path determines it.
\<close>

type_synonym tid = nat
type_synonym tgid = "nat list"

fun path_parent :: "nat list \<Rightarrow> nat list option" where
  "path_parent [] = None"
| "path_parent (_ # p) = Some p"

text \<open>A group and its ancestors, the order in which a loop along \<^verbatim>\<open>parent\<close> meets them.\<close>

fun path_chain :: "nat list \<Rightarrow> nat list list" where
  "path_chain [] = [[]]"
| "path_chain (x # p) = (x # p) # path_chain p"

lemma path_chain_Cons_tl: "path_chain p = p # (case path_parent p of None \<Rightarrow> [] | Some q \<Rightarrow> path_chain q)"
  by (cases p) auto

lemma distinct_path_chain [simp]: "distinct (path_chain p)"
proof (induction p)
  case Nil
  then show ?case by simp
next
  case (Cons x p)
  have "q \<in> set (path_chain p) \<Longrightarrow> length q \<le> length p" for q
    by (induction p) auto
  then have "x # p \<notin> set (path_chain p)" by fastforce
  with Cons show ?case by simp
qed

lemma Nil_in_path_chain [simp]: "[] \<in> set (path_chain p)"
  by (induction p) auto

lemma self_in_path_chain [simp]: "p \<in> set (path_chain p)"
  by (cases p) auto

section \<open>Error numbers\<close>

datatype errno = EPERM | ESRCH | EACCES | EFAULT | EAGAIN | EBUSY | EINVAL | ENOMEM | ERESTARTSYS | ELSM nat

text \<open>\<^verbatim>\<open>ELSM\<close> stands for an error number chosen by a security module.\<close>

section \<open>Kernel lists\<close>

text \<open>
  A \<^verbatim>\<open>struct list_head\<close> queue is represented by the list of its nodes, first to last.
  A node whose \<^verbatim>\<open>list_head\<close> is linked to itself is in no list.
\<close>

definition list_add :: "'a \<Rightarrow> 'a list \<Rightarrow> 'a list" where
  [list_ops]: "list_add x q = x # q"

definition list_add_tail :: "'a \<Rightarrow> 'a list \<Rightarrow> 'a list" where
  [list_ops]: "list_add_tail x q = q @ [x]"

definition list_del_init :: "'a \<Rightarrow> 'a list \<Rightarrow> 'a list" where
  [list_ops]: "list_del_init x q = remove1 x q"

definition list_move :: "'a \<Rightarrow> 'a list \<Rightarrow> 'a list" where
  [list_ops]: "list_move x q = x # remove1 x q"

definition list_move_tail :: "'a \<Rightarrow> 'a list \<Rightarrow> 'a list" where
  [list_ops]: "list_move_tail x q = remove1 x q @ [x]"

text \<open>
  The neighbours of a node in the circular list: the head of the queue, another node, or the
  node itself when it is in no list.
\<close>

datatype 'a neighbour = Queue_Head | Node 'a

fun node_next :: "'a \<Rightarrow> 'a list \<Rightarrow> 'a neighbour" where
  "node_next x [] = Node x"
| "node_next x [y] = (if x = y then Queue_Head else Node x)"
| "node_next x (y # z # q) = (if x = y then Node z else node_next x (z # q))"

definition node_prev :: "'a \<Rightarrow> 'a list \<Rightarrow> 'a neighbour" where
  "node_prev x q = node_next x (rev q)"

lemma node_next_notin: "x \<notin> set q \<Longrightarrow> node_next x q = Node x"
  by (induction x q rule: node_next.induct) auto

lemma node_prev_notin: "x \<notin> set q \<Longrightarrow> node_prev x q = Node x"
  by (simp add: node_prev_def node_next_notin)

lemma node_next_split:
  "x \<notin> set as \<Longrightarrow> node_next x (as @ x # bs) = (case bs of [] \<Rightarrow> Queue_Head | b # _ \<Rightarrow> Node b)"
proof (induction as)
  case Nil
  then show ?case by (cases bs) auto
next
  case (Cons a as)
  then show ?case by (cases as) auto
qed

text \<open>
  The test \<^verbatim>\<open>run_list.prev != run_list.next\<close> of the tick handlers: in a list
  without repetition it says that the node is queued and is not the only one.
\<close>

lemma neighbours_differ:
  assumes "distinct q"
  shows "node_prev x q \<noteq> node_next x q \<longleftrightarrow> x \<in> set q \<and> length q \<ge> 2"
proof (cases "x \<in> set q")
  case False
  then show ?thesis by (simp add: node_next_notin node_prev_notin)
next
  case True
  then obtain as bs where q: "q = as @ x # bs" and nin: "x \<notin> set as"
    by (meson split_list_first)
  from assms q have ninb: "x \<notin> set (rev bs)" and dis: "set as \<inter> set bs = {}" by auto
  have nxt: "node_next x q = (case bs of [] \<Rightarrow> Queue_Head | b # _ \<Rightarrow> Node b)"
    using node_next_split [OF nin] q by simp
  have prv: "node_prev x q = (case rev as of [] \<Rightarrow> Queue_Head | a # _ \<Rightarrow> Node a)"
    using node_next_split [OF ninb, of "rev as"] q by (simp add: node_prev_def)
  show ?thesis
  proof (cases "as = [] \<and> bs = []")
    case True
    then show ?thesis using nxt prv q by simp
  next
    case False
    have "node_prev x q \<noteq> node_next x q"
      using False nxt prv dis by (cases bs; cases as rule: rev_cases) auto
    moreover have "length q \<ge> 2" using False q by (cases as; cases bs) auto
    ultimately show ?thesis using True by simp
  qed
qed

section \<open>Counting and summing over a queue\<close>

lemma remove1_notin [simp]: "x \<notin> set q \<Longrightarrow> remove1 x q = q"
  by (simp add: remove1_idem)

lemma sum_list_remove1:
  fixes f :: "'a \<Rightarrow> 'b::ab_group_add"
  assumes "x \<in> set q"
  shows "sum_list (map f (remove1 x q)) = sum_list (map f q) - f x"
  using assms by (induction q) (auto simp: algebra_simps)

lemma of_nat_length_remove1:
  "x \<in> set q \<Longrightarrow> (of_nat (length (remove1 x q)) :: 'b::ring_1) = of_nat (length q) - 1"
  by (induction q) (auto simp: length_remove1 split: if_splits)

lemma sum_list_map_cong: "(\<And>y. y \<in> set q \<Longrightarrow> f y = g y) \<Longrightarrow> sum_list (map f q) = sum_list (map g q)"
  by (metis map_cong)

lemma find_SomeD: "find P xs = Some x \<Longrightarrow> P x \<and> x \<in> set xs"
  by (induction xs) (auto split: if_splits)

section \<open>Words\<close>

lemma of_nat_word32_inj:
  assumes "a < 2 ^ 32" and "b < 2 ^ 32" and "(of_nat a :: 32 word) = of_nat b"
  shows "a = b"
proof -
  have "unat (of_nat b :: 32 word) = a" using assms(1,3) by (intro of_nat_inverse) simp_all
  moreover have "unat (of_nat b :: 32 word) = b" using assms(2) by (intro of_nat_inverse) simp_all
  ultimately show ?thesis by simp
qed

lemma word_dec_le: "x \<noteq> 0 \<Longrightarrow> x - 1 \<le> (x :: 'a::len word)"
  by (simp add: word_le_nat_alt unat_minus_one)

lemma unat_dec: "x \<noteq> 0 \<Longrightarrow> unat (x - 1 :: 'a::len word) = unat x - 1"
  by (simp add: unat_minus_one)

lemma unat_ucast_u64: "unat (ucast (x :: ulong) :: u64) = unat x"
proof -
  have "unat x < 2 ^ 64" using unsigned_less [of x, where 'a = nat] by simp
  then show ?thesis by (simp add: unsigned_ucast_eq take_bit_nat_eq_self)
qed

text \<open>Signed and unsigned reading agree on the lower half.\<close>

lemma uint_eq_sint: "0 \<le> sint w \<Longrightarrow> uint w = sint w" for w :: "'a::len word"
proof -
  assume "0 \<le> sint w"
  moreover have "sint w < 2 ^ LENGTH('a)" by (rule less_le_trans [OF sint_less]) simp
  ultimately have "take_bit LENGTH('a) (sint w) = sint w" by (rule take_bit_int_eq_self)
  then show ?thesis by (simp only: uint_sint)
qed

lemma sint_pos_u64: "0 < sint (w :: u64) \<longleftrightarrow> w \<noteq> 0 \<and> unat w < 2 ^ 63"
proof
  assume "0 < sint w"
  moreover from this have "uint w = sint w" by (intro uint_eq_sint) simp
  ultimately show "w \<noteq> 0 \<and> unat w < 2 ^ 63" using sint_less [of w] by (auto simp: unat_eq_nat_uint nat_less_iff)
next
  assume w: "w \<noteq> 0 \<and> unat w < 2 ^ 63"
  then have "0 < unat w" by (simp add: unat_gt_0)
  moreover have u: "uint w = int (unat w)" by simp
  moreover have "int (unat w) < int (2 ^ 63)" using w by (simp only: of_nat_less_iff)
  ultimately have "0 < uint w" "uint w < 2 ^ 63" unfolding u by (simp_all only: of_nat_0_less_iff of_nat_power of_nat_numeral)
  moreover from this have "sint w = uint w" by (simp add: sint_uint signed_take_bit_int_eq_self)
  ultimately show "0 < sint w" by simp
qed

lemma sint_small: "unat w < 2 ^ 63 \<Longrightarrow> sint w = int (unat w)" for w :: u64
  using sint_pos_u64 [of w] uint_eq_sint [of w] by (cases "w = 0") simp_all

lemma unat_le_1_iff: "unat (x :: 'a::len word) \<le> Suc 0 \<longleftrightarrow> x = 0 \<or> x = 1"
  by (auto simp: le_Suc_eq word_unat_eq_iff)

end
