(* ===== verification/Kernel_State.thy ===== *)
theory Kernel_State
  imports Sched_Prelude
begin

text \<open>
  The data the scheduler works on, for the build the repository configures
  (\<^verbatim>\<open>goldfish_armv7_defconfig\<close>: one processor, \<^verbatim>\<open>CONFIG_CGROUP_SCHED\<close>,
  \<^verbatim>\<open>CONFIG_RT_GROUP_SCHED\<close>, \<^verbatim>\<open>CONFIG_WRR_GROUP_SCHED\<close>,
  \<^verbatim>\<open>CONFIG_SCHEDSTATS\<close>): tasks, the run queue and the kernel state that the
  scheduling classes and the core share. Counters are words of their C width; \<^verbatim>\<open>int\<close>
  fields that only ever hold priorities and policies are \<^typ>\<open>int\<close>.
\<close>

section \<open>Constants of \<^verbatim>\<open>include/linux/sched.h\<close> and \<^verbatim>\<open>kernel/sched/sched.h\<close>\<close>

definition SCHED_NORMAL :: int where "SCHED_NORMAL = 0"
definition SCHED_FIFO :: int where "SCHED_FIFO = 1"
definition SCHED_RR :: int where "SCHED_RR = 2"
definition SCHED_BATCH :: int where "SCHED_BATCH = 3"
definition SCHED_IDLE :: int where "SCHED_IDLE = 5"
definition SCHED_WRR :: int where "SCHED_WRR = 6"
definition SCHED_RESET_ON_FORK :: int where "SCHED_RESET_ON_FORK = 0x40000000"

lemmas policy_defs = SCHED_NORMAL_def SCHED_FIFO_def SCHED_RR_def SCHED_BATCH_def SCHED_IDLE_def
  SCHED_WRR_def

definition TASK_RUNNING :: ulong where "TASK_RUNNING = 0"
definition TASK_INTERRUPTIBLE :: ulong where "TASK_INTERRUPTIBLE = 1"
definition TASK_UNINTERRUPTIBLE :: ulong where "TASK_UNINTERRUPTIBLE = 2"
definition TASK_DEAD :: ulong where "TASK_DEAD = 64"
definition TASK_WAKEKILL :: ulong where "TASK_WAKEKILL = 128"
definition TASK_KILLABLE :: ulong where "TASK_KILLABLE = TASK_WAKEKILL OR TASK_UNINTERRUPTIBLE"
definition TASK_NORMAL :: ulong where "TASK_NORMAL = TASK_INTERRUPTIBLE OR TASK_UNINTERRUPTIBLE"

lemmas task_state_defs = TASK_RUNNING_def TASK_INTERRUPTIBLE_def TASK_UNINTERRUPTIBLE_def
  TASK_DEAD_def TASK_WAKEKILL_def TASK_KILLABLE_def TASK_NORMAL_def

definition MAX_USER_RT_PRIO :: int where "MAX_USER_RT_PRIO = 100"
definition MAX_RT_PRIO :: int where "MAX_RT_PRIO = MAX_USER_RT_PRIO"
definition MAX_PRIO :: int where "MAX_PRIO = MAX_RT_PRIO + 40"

lemmas prio_consts = MAX_USER_RT_PRIO_def MAX_RT_PRIO_def MAX_PRIO_def

definition WF_SYNC :: u32 where "WF_SYNC = 1"
definition WF_FORK :: u32 where "WF_FORK = 2"
definition ENQUEUE_WAKEUP :: u32 where "ENQUEUE_WAKEUP = 1"
definition ENQUEUE_HEAD :: u32 where "ENQUEUE_HEAD = 2"
definition ENQUEUE_WAKING :: u32 where "ENQUEUE_WAKING = 0"
definition DEQUEUE_SLEEP :: u32 where "DEQUEUE_SLEEP = 1"

lemmas flag_defs = WF_SYNC_def WF_FORK_def ENQUEUE_WAKEUP_def ENQUEUE_HEAD_def ENQUEUE_WAKING_def
  DEQUEUE_SLEEP_def

definition PF_WQ_WORKER :: u32 where "PF_WQ_WORKER = 0x20"
definition PF_FROZEN :: u32 where "PF_FROZEN = 0x10000"
definition PF_EXITING :: u32 where "PF_EXITING = 0x4"

text \<open>\<^verbatim>\<open>HZ\<close> comes from \<^verbatim>\<open><asm/param.h>\<close>; the ARM default is 100, a tick of 10 ms.\<close>

definition HZ :: u32 where "HZ = 100"
definition RR_TIMESLICE :: u32 where "RR_TIMESLICE = 100 * HZ div 1000"
definition WRR_WEIGHT_UNIT :: u32 where "WRR_WEIGHT_UNIT = 10 * HZ div 1000"
definition WRR_FG_WEIGHT :: u32 where "WRR_FG_WEIGHT = 10"
definition WRR_BG_WEIGHT :: u32 where "WRR_BG_WEIGHT = 1"

lemma WRR_WEIGHT_UNIT_eq [simp]: "WRR_WEIGHT_UNIT = 1"
  by (simp add: WRR_WEIGHT_UNIT_def HZ_def)

lemma RR_TIMESLICE_eq [simp]: "RR_TIMESLICE = 10"
  by (simp add: RR_TIMESLICE_def HZ_def)

definition RUNTIME_INF :: u64 where "RUNTIME_INF = - 1"

section \<open>Tasks\<close>

text \<open>
  The scheduling classes, highest first. Of their operations \<^verbatim>\<open>rt.c\<close> and
  \<^verbatim>\<open>wrr.c\<close> are in the repository.
\<close>

datatype class_id = Stop_Class | Rt_Class | Wrr_Class | Fair_Class | Idle_Class

record load_weight =
  lw_weight :: ulong
  lw_inv_weight :: ulong

record sched_entity =
  load :: load_weight
  se_on_rq :: bool
  exec_start :: u64
  sum_exec_runtime :: u64
  vruntime :: u64
  prev_sum_exec_runtime :: u64
  nr_migrations :: u64
  exec_max :: u64
  nr_wakeups :: u64
  nr_wakeups_sync :: u64

text \<open>
  \<^verbatim>\<open>run_list\<close> is not a field: whether an entity is linked, and to what, is read off
  the queue that holds it.
\<close>

record sched_rt_entity =
  timeout :: ulong
  rt_time_slice :: u32

record sched_wrr_entity =
  time_slice :: u32
  weight :: u32
  custom_weight :: u32

record task_struct =
  tsk_state :: ulong
  tsk_flags :: u32
  on_rq :: bool
  prio :: int
  static_prio :: int
  normal_prio :: int
  rt_priority :: int
  sched_class :: class_id
  p_se :: sched_entity
  p_rt :: sched_rt_entity
  p_wrr :: sched_wrr_entity
  sched_task_group :: tgid
  policy :: int
  has_mm :: bool
  in_iowait :: bool
  sched_reset_on_fork :: bool
  nvcsw :: ulong
  nivcsw :: ulong
  need_resched :: bool
  preempt_count :: u32
  signal_pending :: bool
  fatal_signal_pending :: bool
  sched_exp :: u64

section \<open>Run queues\<close>

record wrr_rq =
  active :: "tid list"
  wrr_nr_running :: ulong
  total_weight :: ulong

text \<open>An entity of the real-time class is a task or the entity of a task group.\<close>

datatype rt_entity = Rt_Task tid | Rt_Group tgid

record rt_prio_array =
  bitmap :: "nat \<Rightarrow> bool"
  queue :: "nat \<Rightarrow> rt_entity list"

record rt_rq =
  rt_active :: rt_prio_array
  rt_nr_running :: ulong
  highest_prio :: int
  rt_throttled :: bool
  rt_time :: u64
  rt_runtime :: u64
  rt_nr_boosted :: ulong

record rt_bandwidth =
  rt_period :: u64
  bw_rt_runtime :: u64
  rt_period_timer_active :: bool

text \<open>The load statistics of a run queue; \<^verbatim>\<open>load.weight\<close> is kept by the fair class.\<close>

record rq_loads =
  cpu_load :: "ulong list"
  rq_load_weight :: ulong
  nr_load_updates :: ulong
  last_load_update_tick :: ulong
  calc_load_active :: ulong
  rq_calc_load_update :: ulong

record rq =
  nr_running :: ulong
  skip_clock_update :: int
  nr_switches :: u64
  h_nr_running :: ulong
  wrr :: wrr_rq
  nr_uninterruptible :: ulong
  curr :: tid
  idle :: tid
  stop :: "tid option"
  clock :: u64
  clock_task :: u64
  nr_iowait :: int
  yld_count :: u32
  sched_count :: u32
  ttwu_count :: u32
  loads :: rq_loads

section \<open>The kernel state\<close>

text \<open>
  The global variables of the load average; an \<^verbatim>\<open>atomic_long_t\<close> is the word of its bits.
\<close>

record load_avg =
  calc_load_tasks :: ulong
  calc_load_update :: ulong
  avenrun :: "ulong list"
  calc_load_idle :: "nat \<Rightarrow> ulong"
  calc_load_idx :: u32

text \<open>
  Calls of code outside the repository that changes nothing modelled here are recorded, with
  their arguments and in order.
\<close>

datatype ext_call =
    Account_Group_Exec_Runtime tid u64
  | Wq_Worker_Waking_Up tid
  | Rt_Mutex_Adjust_Pi tid
  | Start_Bandwidth_Timer tgid
  | Context_Switch tid tid
  | Blk_Schedule_Flush_Plug tid
  | Sched_Info_Queued tid
  | Sched_Info_Dequeued tid

text \<open>
  \<open>cfs\<close> is the state of the fair class, which is not in the repository, of any type. \<open>rt_rqs\<close>
  and \<open>rt_bandwidths\<close> are \<^verbatim>\<open>tg->rt_rq[0]\<close> and \<^verbatim>\<open>tg->rt_bandwidth\<close> of each
  task group, where \<^verbatim>\<open>rq->rt\<close> is the queue of the root group; \<open>tg_cgroup\<close> is the path of
  \<^verbatim>\<open>tg->css.cgroup\<close>, \<open>None\<close> when that is \<^verbatim>\<open>NULL\<close>. The two
  \<^verbatim>\<open>group_path\<close> buffers are the static arrays of \<^verbatim>\<open>wrr.c\<close> and
  \<^verbatim>\<open>core.c\<close>. \<open>sched_clock_now\<close> and \<open>xtime_nsec\<close> are what
  \<^verbatim>\<open>sched_clock_cpu()\<close> and \<^verbatim>\<open>CURRENT_TIME.tv_nsec\<close> read. \<open>panicked\<close> is
  set by \<^verbatim>\<open>BUG()\<close> and never cleared. \<open>task_groups\<close> is the list of all task groups, newest
  first, and \<open>threads\<close> the tasks \<^verbatim>\<open>do_each_thread()\<close> visits.
\<close>

record 'f kernel =
  tasks :: "tid \<Rightarrow> task_struct"
  rq :: rq
  rt_rqs :: "tgid \<Rightarrow> rt_rq"
  rt_bandwidths :: "tgid \<Rightarrow> rt_bandwidth"
  def_rt_bandwidth :: rt_bandwidth
  task_groups :: "tgid list"
  threads :: "tid list"
  leaf_rt_rq_list :: "tgid list"
  tg_cgroup :: "tgid \<Rightarrow> string option"
  wrr_group_path :: "nat \<Rightarrow> char"
  core_group_path :: "nat \<Rightarrow> char"
  cpuacct_active :: bool
  task_ca :: "tid \<Rightarrow> nat list"
  cpuusage :: "nat list \<Rightarrow> u64"
  sched_clock_now :: u64
  xtime_nsec :: u32
  jiffies :: ulong
  lavg :: load_avg
  sysctl_sched_rt_period :: u32
  sysctl_sched_rt_runtime :: int
  calls :: "ext_call list"
  panicked :: bool
  cfs :: 'f

abbreviation upd_task :: "tid \<Rightarrow> (task_struct \<Rightarrow> task_struct) \<Rightarrow> 'f kernel \<Rightarrow> 'f kernel" where
  "upd_task p f \<equiv> tasks_update (\<lambda>ts. ts(p := f (ts p)))"

abbreviation upd_wrr :: "(wrr_rq \<Rightarrow> wrr_rq) \<Rightarrow> 'f kernel \<Rightarrow> 'f kernel" where
  "upd_wrr f \<equiv> rq_update (wrr_update f)"

abbreviation curr_task :: "'f kernel \<Rightarrow> task_struct" where
  "curr_task k \<equiv> tasks k (curr (rq k))"

definition BUG :: "'f kernel \<Rightarrow> 'f kernel" where
  "BUG k = k\<lparr>panicked := True\<rparr>"

definition ext_call :: "ext_call \<Rightarrow> 'f kernel \<Rightarrow> 'f kernel" where
  "ext_call c = calls_update (\<lambda>cs. cs @ [c])"

section \<open>Small operations of \<^verbatim>\<open>sched.h\<close>\<close>

definition rt_policy :: "int \<Rightarrow> bool" where
  "rt_policy pol = (pol = SCHED_FIFO \<or> pol = SCHED_RR)"

definition task_has_rt_policy :: "task_struct \<Rightarrow> bool" where
  "task_has_rt_policy p = rt_policy (policy p)"

definition rt_prio :: "int \<Rightarrow> bool" where
  "rt_prio pr = (pr < MAX_RT_PRIO)"

definition rt_task :: "task_struct \<Rightarrow> bool" where
  "rt_task p = rt_prio (prio p)"

definition task_contributes_to_load :: "task_struct \<Rightarrow> bool" where
  "task_contributes_to_load p =
     (tsk_state p AND TASK_UNINTERRUPTIBLE \<noteq> 0 \<and> tsk_flags p AND PF_FROZEN = 0)"

definition signal_pending_state :: "ulong \<Rightarrow> task_struct \<Rightarrow> bool" where
  "signal_pending_state st p =
     (if st AND (TASK_INTERRUPTIBLE OR TASK_WAKEKILL) = 0 then False
      else if \<not> signal_pending p then False
      else st AND TASK_INTERRUPTIBLE \<noteq> 0 \<or> fatal_signal_pending p)"

definition task_current :: "'f kernel \<Rightarrow> tid \<Rightarrow> bool" where
  "task_current k p = (curr (rq k) = p)"

text \<open>On one processor \<^verbatim>\<open>task_running()\<close> is \<^verbatim>\<open>task_current()\<close>.\<close>

definition task_running :: "'f kernel \<Rightarrow> tid \<Rightarrow> bool" where
  "task_running k p = task_current k p"

definition set_tsk_need_resched :: "tid \<Rightarrow> 'f kernel \<Rightarrow> 'f kernel" where
  "set_tsk_need_resched p = upd_task p (need_resched_update (\<lambda>_. True))"

definition clear_tsk_need_resched :: "tid \<Rightarrow> 'f kernel \<Rightarrow> 'f kernel" where
  "clear_tsk_need_resched p = upd_task p (need_resched_update (\<lambda>_. False))"

definition resched_task :: "tid \<Rightarrow> 'f kernel \<Rightarrow> 'f kernel" where
  "resched_task p = set_tsk_need_resched p"

definition inc_nr_running :: "'f kernel \<Rightarrow> 'f kernel" where
  "inc_nr_running = rq_update (nr_running_update (\<lambda>n. n + 1))"

definition dec_nr_running :: "'f kernel \<Rightarrow> 'f kernel" where
  "dec_nr_running = rq_update (nr_running_update (\<lambda>n. n - 1))"

lemmas small_defs = BUG_def ext_call_def set_tsk_need_resched_def clear_tsk_need_resched_def
  resched_task_def inc_nr_running_def dec_nr_running_def task_current_def task_running_def

section \<open>Execution time of the cpu accounting groups\<close>

text \<open>
  \<^verbatim>\<open>cpuacct_charge()\<close>: the loop over \<^verbatim>\<open>parent_ca()\<close> from the group of the
  task to the root.
\<close>

definition parent_ca :: "nat list \<Rightarrow> nat list option" where
  "parent_ca ca = path_parent ca"

function charge_ca :: "nat list option \<Rightarrow> u64 \<Rightarrow> (nat list \<Rightarrow> u64) \<Rightarrow> (nat list \<Rightarrow> u64)" where
  "charge_ca None t u = u"
| "charge_ca (Some ca) t u = charge_ca (parent_ca ca) t (u(ca := u ca + t))"
  by pat_completeness auto
termination
  by (relation "measure (\<lambda>(c, t, u). case c of None \<Rightarrow> 0 | Some p \<Rightarrow> Suc (length p))")
     (auto simp: parent_ca_def split: option.splits elim: path_parent.elims)

definition cpuacct_charge :: "tid \<Rightarrow> u64 \<Rightarrow> 'f kernel \<Rightarrow> 'f kernel" where
  "cpuacct_charge p t k =
     (if \<not> cpuacct_active k then k
      else k\<lparr>cpuusage := charge_ca (Some (task_ca k p)) t (cpuusage k)\<rparr>)"

lemma charge_ca_chain:
  "charge_ca (Some ca) t u g = (if g \<in> set (path_chain ca) then u g + t else u g)"
proof (induction ca arbitrary: u)
  case Nil
  then show ?case by (simp add: parent_ca_def)
next
  case (Cons x ca)
  have step: "charge_ca (Some (x # ca)) t u = charge_ca (Some ca) t (u(x # ca := u (x # ca) + t))"
    by (subst charge_ca.simps(2)) (simp add: parent_ca_def)
  have "x # ca \<notin> set (path_chain ca)" using distinct_path_chain [of "x # ca"] by simp
  then show ?case using Cons.IH by (auto simp: step simp del: charge_ca.simps)
qed

text \<open>The fields a class operation never touches through \<^verbatim>\<open>cpuacct_charge\<close>.\<close>

lemma cpuacct_charge_frame [simp]:
  "tasks (cpuacct_charge p t k) = tasks k" "rq (cpuacct_charge p t k) = rq k"
  "rt_rqs (cpuacct_charge p t k) = rt_rqs k" "rt_bandwidths (cpuacct_charge p t k) = rt_bandwidths k"
  "leaf_rt_rq_list (cpuacct_charge p t k) = leaf_rt_rq_list k"
  "panicked (cpuacct_charge p t k) = panicked k" "cfs (cpuacct_charge p t k) = cfs k"
  "tg_cgroup (cpuacct_charge p t k) = tg_cgroup k" "calls (cpuacct_charge p t k) = calls k"
  "wrr_group_path (cpuacct_charge p t k) = wrr_group_path k"
  "core_group_path (cpuacct_charge p t k) = core_group_path k"
  "xtime_nsec (cpuacct_charge p t k) = xtime_nsec k"
  "sched_clock_now (cpuacct_charge p t k) = sched_clock_now k"
  "task_ca (cpuacct_charge p t k) = task_ca k" "cpuacct_active (cpuacct_charge p t k) = cpuacct_active k"
  "sysctl_sched_rt_runtime (cpuacct_charge p t k) = sysctl_sched_rt_runtime k"
  "sysctl_sched_rt_period (cpuacct_charge p t k) = sysctl_sched_rt_period k"
  "def_rt_bandwidth (cpuacct_charge p t k) = def_rt_bandwidth k"
  "task_groups (cpuacct_charge p t k) = task_groups k" "threads (cpuacct_charge p t k) = threads k"
  "jiffies (cpuacct_charge p t k) = jiffies k" "lavg (cpuacct_charge p t k) = lavg k"
  by (simp_all add: cpuacct_charge_def)

section \<open>Scheduling classes and the code outside the repository\<close>

text \<open>
  \<^verbatim>\<open>struct sched_class\<close>, its operations as functions on the kernel state; an operation
  that a class may leave \<^verbatim>\<open>NULL\<close> is an option.
\<close>

record 'f sched_class_ops =
  next_class :: "class_id option"
  enqueue_task_op :: "tid \<Rightarrow> u32 \<Rightarrow> 'f kernel \<Rightarrow> 'f kernel"
  dequeue_task_op :: "tid \<Rightarrow> u32 \<Rightarrow> 'f kernel \<Rightarrow> 'f kernel"
  yield_task_op :: "'f kernel \<Rightarrow> 'f kernel"
  yield_to_task_op :: "(tid \<Rightarrow> bool \<Rightarrow> 'f kernel \<Rightarrow> bool \<times> 'f kernel) option"
  check_preempt_curr_op :: "tid \<Rightarrow> u32 \<Rightarrow> 'f kernel \<Rightarrow> 'f kernel"
  pick_next_task_op :: "'f kernel \<Rightarrow> tid option \<times> 'f kernel"
  put_prev_task_op :: "tid \<Rightarrow> 'f kernel \<Rightarrow> 'f kernel"
  set_curr_task_op :: "'f kernel \<Rightarrow> 'f kernel"
  task_tick_op :: "tid \<Rightarrow> bool \<Rightarrow> 'f kernel \<Rightarrow> 'f kernel"
  task_fork_op :: "(tid \<Rightarrow> 'f kernel \<Rightarrow> 'f kernel) option"
  switched_from_op :: "(tid \<Rightarrow> 'f kernel \<Rightarrow> 'f kernel) option"
  switched_to_op :: "tid \<Rightarrow> 'f kernel \<Rightarrow> 'f kernel"
  prio_changed_op :: "tid \<Rightarrow> int \<Rightarrow> 'f kernel \<Rightarrow> 'f kernel"
  get_rr_interval_op :: "'f kernel \<Rightarrow> tid \<Rightarrow> u32"
  task_move_group_op :: "(tid \<Rightarrow> bool \<Rightarrow> 'f kernel \<Rightarrow> 'f kernel) option"

text \<open>
  What the scheduler calls and the repository does not contain: the stop, fair and idle
  classes, priority inheritance, workqueues, credentials and security hooks, autogroups, and
  whether the build has \<^verbatim>\<open>CONFIG_SCHED_DEBUG\<close> (the two configurations differ in it).
\<close>

record cred =
  user_ns :: nat
  uid :: nat
  euid :: nat
  suid :: nat

record 'f env =
  CONFIG_SCHED_DEBUG :: bool
  autogroup_path :: "tgid \<Rightarrow> string option"
  stop_class :: "'f sched_class_ops"
  fair_class :: "'f sched_class_ops"
  idle_class :: "'f sched_class_ops"
  rt_mutex_getprio :: "'f kernel \<Rightarrow> tid \<Rightarrow> int"
  wq_worker_sleeping :: "'f kernel \<Rightarrow> tid \<Rightarrow> tid option"
  in_interrupt :: "'f kernel \<Rightarrow> bool"
  capable_sys_nice :: bool
  task_cred :: "tid \<Rightarrow> cred"
  rlimit_rtprio :: "tid \<Rightarrow> ulong"
  rlimit_nice :: "tid \<Rightarrow> ulong"
  rlimit_rttime :: "tid \<Rightarrow> ulong \<times> ulong"
  security_task_setscheduler :: "tid \<Rightarrow> errno option"
  security_task_getscheduler :: "tid \<Rightarrow> errno option"
  security_task_setnice :: "tid \<Rightarrow> int \<Rightarrow> errno option"
  find_task_by_vpid :: "int \<Rightarrow> tid option"
  task_group_is_autogroup :: "tgid \<Rightarrow> bool"
  autogroup_task_group :: "tid \<Rightarrow> tgid \<Rightarrow> tgid"
  cgroup_task_group :: "tid \<Rightarrow> tgid"

section \<open>The first task and a state after boot\<close>

text \<open>
  \<^verbatim>\<open>INIT_TASK\<close>: fields the initialiser does not name are zero.
\<close>

definition PF_KTHREAD :: u32 where "PF_KTHREAD = 0x00200000"

definition zero_se :: sched_entity where
  "zero_se = \<lparr>load = \<lparr>lw_weight = 0, lw_inv_weight = 0\<rparr>, se_on_rq = False, exec_start = 0,
     sum_exec_runtime = 0, vruntime = 0, prev_sum_exec_runtime = 0, nr_migrations = 0, exec_max = 0,
     nr_wakeups = 0, nr_wakeups_sync = 0\<rparr>"

definition INIT_TASK :: task_struct where
  "INIT_TASK =
     \<lparr>tsk_state = 0, tsk_flags = PF_KTHREAD, on_rq = False,
      prio = MAX_PRIO - 20, static_prio = MAX_PRIO - 20, normal_prio = MAX_PRIO - 20,
      rt_priority = 0, sched_class = Fair_Class, p_se = zero_se,
      p_rt = \<lparr>timeout = 0, rt_time_slice = RR_TIMESLICE\<rparr>,
      p_wrr = \<lparr>time_slice = RR_TIMESLICE, weight = 0, custom_weight = 0\<rparr>,
      sched_task_group = [], policy = SCHED_NORMAL, has_mm = False, in_iowait = False,
      sched_reset_on_fork = False, nvcsw = 0, nivcsw = 0, need_resched = False,
      preempt_count = 0, signal_pending = False, fatal_signal_pending = False,
      sched_exp = 0\<rparr>"

text \<open>
  The run queue after \<^verbatim>\<open>sched_init()\<close>: empty queues, zero counters, the boot task as
  current and idle task.
\<close>

definition boot_rt_rq :: rt_rq where
  "boot_rt_rq =
     \<lparr>rt_active = \<lparr>bitmap = (\<lambda>i. i = 100), queue = (\<lambda>_. [])\<rparr>, rt_nr_running = 0,
      highest_prio = MAX_RT_PRIO, rt_throttled = False, rt_time = 0, rt_runtime = 950000000,
      rt_nr_boosted = 0\<rparr>"

definition boot_rq :: rq where
  "boot_rq =
     \<lparr>nr_running = 0, skip_clock_update = 0, nr_switches = 0, h_nr_running = 0,
      wrr = \<lparr>active = [], wrr_nr_running = 0, total_weight = 0\<rparr>,
      nr_uninterruptible = 0, curr = 0, idle = 0, stop = None, clock = 0, clock_task = 0,
      nr_iowait = 0, yld_count = 0, sched_count = 0, ttwu_count = 0,
      loads = \<lparr>cpu_load = [0, 0, 0, 0, 0], rq_load_weight = 0, nr_load_updates = 0,
        last_load_update_tick = 0, calc_load_active = 0, rq_calc_load_update = 501\<rparr>\<rparr>"

definition boot_kernel :: "unit kernel" where
  "boot_kernel =
     \<lparr>tasks = (\<lambda>p. if p = 0 then INIT_TASK\<lparr>sched_class := Idle_Class\<rparr> else INIT_TASK\<lparr>has_mm := True\<rparr>),
      rq = boot_rq, rt_rqs = (\<lambda>_. boot_rt_rq),
      rt_bandwidths = (\<lambda>_. \<lparr>rt_period = 1000000000, bw_rt_runtime = 950000000,
                              rt_period_timer_active = False\<rparr>),
      def_rt_bandwidth = \<lparr>rt_period = 1000000000, bw_rt_runtime = 950000000,
                              rt_period_timer_active = False\<rparr>,
      task_groups = [[]], threads = [0],
      leaf_rt_rq_list = [], tg_cgroup = (\<lambda>tg. if tg = [] then Some ''/'' else Some ''/bg_non_interactive''),
      wrr_group_path = (\<lambda>_. CHR 0x00), core_group_path = (\<lambda>_. CHR 0x00),
      cpuacct_active = True, task_ca = (\<lambda>_. []), cpuusage = (\<lambda>_. 0),
      sched_clock_now = 0, xtime_nsec = 99, jiffies = 0,
      lavg = \<lparr>calc_load_tasks = 0, calc_load_update = 501, avenrun = [0, 0, 0],
        calc_load_idle = (\<lambda>_. 0), calc_load_idx = 0\<rparr>, sysctl_sched_rt_period = 1000000,
      sysctl_sched_rt_runtime = 950000, calls = [], panicked = False, cfs = ()\<rparr>"

text \<open>
  An instance of the code outside the repository, for concrete runs: classes without tasks,
  except that the idle class offers the idle task.
\<close>

definition empty_class :: "'f sched_class_ops" where
  "empty_class =
     \<lparr>next_class = None, enqueue_task_op = (\<lambda>p fl k. k), dequeue_task_op = (\<lambda>p fl k. k),
      yield_task_op = id, yield_to_task_op = None, check_preempt_curr_op = (\<lambda>p fl k. k),
      pick_next_task_op = (\<lambda>k. (None, k)), put_prev_task_op = (\<lambda>p k. k), set_curr_task_op = id,
      task_tick_op = (\<lambda>p b k. k), task_fork_op = None, switched_from_op = None,
      switched_to_op = (\<lambda>p k. k), prio_changed_op = (\<lambda>p pr k. k),
      get_rr_interval_op = (\<lambda>k p. 0), task_move_group_op = None\<rparr>"

definition plain_env :: "'f env" where
  "plain_env =
     \<lparr>CONFIG_SCHED_DEBUG = True, autogroup_path = (\<lambda>_. None),
      stop_class = empty_class\<lparr>next_class := Some Rt_Class\<rparr>,
      fair_class = empty_class\<lparr>next_class := Some Idle_Class\<rparr>,
      idle_class = empty_class\<lparr>pick_next_task_op := (\<lambda>k. (Some (idle (rq k)), k))\<rparr>,
      rt_mutex_getprio = (\<lambda>k p. normal_prio (tasks k p)), wq_worker_sleeping = (\<lambda>k p. None),
      in_interrupt = (\<lambda>k. False), capable_sys_nice = True, task_cred = (\<lambda>p. \<lparr>user_ns = 0, uid = 0, euid = 0, suid = 0\<rparr>),
      rlimit_rtprio = (\<lambda>p. 0), rlimit_nice = (\<lambda>p. 0), rlimit_rttime = (\<lambda>p. (- 1, - 1)),
      security_task_setscheduler = (\<lambda>p. None), security_task_getscheduler = (\<lambda>p. None),
      security_task_setnice = (\<lambda>p n. None),
      find_task_by_vpid = (\<lambda>pid. if 0 < pid then Some (nat pid) else None),
      task_group_is_autogroup = (\<lambda>tg. False), autogroup_task_group = (\<lambda>p tg. tg),
      cgroup_task_group = (\<lambda>p. [])\<rparr>"

lemmas boot_defs = boot_kernel_def boot_rq_def boot_rt_rq_def INIT_TASK_def zero_se_def
  plain_env_def empty_class_def

end
