(* ===== verification/Wrr.thy ===== *)
theory Wrr
  imports Kernel_State
begin

text \<open>
  The weighted round-robin scheduling class, \<^verbatim>\<open>kernel/sched/wrr.c\<close>, one definition per
  function in the order of the file. \<^verbatim>\<open>rq->wrr\<close> is \<open>wrr (rq k)\<close>; with
  \<^verbatim>\<open>for_each_sched_wrr_entity\<close> a loop of one round, an entity is the task that holds it.
\<close>

section \<open>The class\<close>

definition wrr_entity_is_task :: "tid \<Rightarrow> bool" where
  "wrr_entity_is_task wrr_se = True"

definition wrr_rq_of_se :: "'f kernel \<Rightarrow> tid \<Rightarrow> wrr_rq" where
  "wrr_rq_of_se k wrr_se = wrr (rq k)"

definition group_wrr_rq :: "tid \<Rightarrow> wrr_rq option" where
  [wrr_defs]: "group_wrr_rq wrr_se = None"

definition list_add_leaf_wrr_rq :: "'f kernel \<Rightarrow> 'f kernel" where
  [wrr_defs]: "list_add_leaf_wrr_rq k = k"

definition on_wrr_rq :: "'f kernel \<Rightarrow> tid \<Rightarrow> bool" where
  "on_wrr_rq k wrr_se = (wrr_se \<in> set (active (wrr (rq k))))"

text \<open>
  \<^verbatim>\<open>task_group_path()\<close> fills the static buffer \<^verbatim>\<open>group_path\<close> and returns it: a
  string and its terminating NUL; what was behind it stays. Without
  \<^verbatim>\<open>CONFIG_SCHED_DEBUG\<close> the file has an \<^verbatim>\<open>autogroup_path()\<close> of its own that
  returns 0.
\<close>

definition write_path :: "string \<Rightarrow> (nat \<Rightarrow> char) \<Rightarrow> (nat \<Rightarrow> char)" where
  "write_path s b = (\<lambda>i. if i < length s then s ! i else if i = length s then CHR 0x00 else b i)"

definition task_group_path :: "'f env \<Rightarrow> tgid \<Rightarrow> 'f kernel \<Rightarrow> 'f kernel" where
  "task_group_path e tg k =
     (case (if CONFIG_SCHED_DEBUG e then autogroup_path e tg else None) of
        Some s \<Rightarrow> wrr_group_path_update (write_path s) k
      | None \<Rightarrow>
         (case tg_cgroup k tg of
            None \<Rightarrow> wrr_group_path_update (\<lambda>b. b(0 := CHR 0x00, 1 := CHR 0x00)) k
          | Some s \<Rightarrow> wrr_group_path_update (write_path s) k))"

section \<open>Weights and queues\<close>

definition wrr_throttled :: "'f kernel \<Rightarrow> bool" where
  "wrr_throttled k = (let r = xtime_nsec k mod 100 in r \<le> 71)"

definition requeue_wrr_entity :: "tid \<Rightarrow> bool \<Rightarrow> 'f kernel \<Rightarrow> 'f kernel" where
  [wrr_defs]: "requeue_wrr_entity wrr_se head k =
     (if head then upd_wrr (active_update (list_move wrr_se)) k
      else upd_wrr (active_update (list_move_tail wrr_se)) k)"

definition requeue_task_wrr :: "tid \<Rightarrow> bool \<Rightarrow> 'f kernel \<Rightarrow> 'f kernel" where
  [wrr_defs]: "requeue_task_wrr p head k = requeue_wrr_entity p head k"

definition set_weight :: "tid \<Rightarrow> u32 \<Rightarrow> 'f kernel \<Rightarrow> 'f kernel" where
  "set_weight p w = upd_task p (p_wrr_update (weight_update (\<lambda>_. w)))"

definition set_time_slice :: "tid \<Rightarrow> u32 \<Rightarrow> 'f kernel \<Rightarrow> 'f kernel" where
  "set_time_slice p n = upd_task p (p_wrr_update (time_slice_update (\<lambda>_. n)))"

definition update_weight :: "'f env \<Rightarrow> tid \<Rightarrow> 'f kernel \<Rightarrow> 'f kernel" where
  "update_weight e p k =
     (let k1 = task_group_path e (sched_task_group (tasks k p)) k;
          path1 = wrr_group_path k1 1
      in if custom_weight (p_wrr (tasks k1 p)) = 0 then
           let k2 = (if path1 = CHR ''b'' \<and> weight (p_wrr (tasks k1 p)) \<noteq> WRR_BG_WEIGHT
                     then set_weight p WRR_BG_WEIGHT k1 else k1)
           in (if path1 \<noteq> CHR ''b'' \<and> weight (p_wrr (tasks k2 p)) \<noteq> WRR_FG_WEIGHT
               then set_weight p WRR_FG_WEIGHT k2 else k2)
         else k1)"

definition inc_wrr_tasks :: "tid \<Rightarrow> 'f kernel \<Rightarrow> 'f kernel" where
  [wrr_defs]: "inc_wrr_tasks p k =
     upd_wrr (\<lambda>w. w\<lparr>total_weight := total_weight w + weight (p_wrr (tasks k p)),
                    wrr_nr_running := wrr_nr_running w + 1\<rparr>) k"

definition dec_wrr_tasks :: "tid \<Rightarrow> 'f kernel \<Rightarrow> 'f kernel" where
  [wrr_defs]: "dec_wrr_tasks p k =
     upd_wrr (\<lambda>w. w\<lparr>total_weight := total_weight w - weight (p_wrr (tasks k p)),
                    wrr_nr_running := wrr_nr_running w - 1\<rparr>) k"

definition enqueue_wrr_entity :: "'f env \<Rightarrow> tid \<Rightarrow> bool \<Rightarrow> 'f kernel \<Rightarrow> 'f kernel" where
  "enqueue_wrr_entity e p head k =
     (if (case group_wrr_rq p of Some g \<Rightarrow> wrr_nr_running g = 0 | None \<Rightarrow> False) then k
      else
        let k1 = (if wrr_nr_running (wrr (rq k)) = 0 then list_add_leaf_wrr_rq k else k);
            k2 = update_weight e p k1;
            k3 = set_time_slice p (weight (p_wrr (tasks k2 p)) * WRR_WEIGHT_UNIT) k2;
            k4 = requeue_wrr_entity p head k3
        in inc_wrr_tasks p k4)"

definition dequeue_wrr_entity :: "tid \<Rightarrow> 'f kernel \<Rightarrow> 'f kernel" where
  [wrr_defs]: "dequeue_wrr_entity p k = dec_wrr_tasks p (upd_wrr (active_update (list_del_init p)) k)"

text \<open>
  \<^verbatim>\<open>delta_exec\<close> as \<^verbatim>\<open>update_curr_wrr()\<close> and \<^verbatim>\<open>update_curr_rt()\<close> compute it:
  a difference that is negative as an \<^verbatim>\<open>s64\<close> counts as zero.
\<close>

definition delta_exec :: "'f kernel \<Rightarrow> u64" where
  "delta_exec k =
     (let d = clock_task (rq k) - exec_start (p_se (curr_task k))
      in if sint d < 0 then 0 else d)"

definition charge_curr :: "u64 \<Rightarrow> 'f kernel \<Rightarrow> 'f kernel" where
  "charge_curr d k =
     (let c = curr (rq k);
          k1 = upd_task c (p_se_update (\<lambda>se. se\<lparr>exec_max := max (exec_max se) d,
                  sum_exec_runtime := sum_exec_runtime se + d\<rparr>)) k;
          k2 = ext_call (Account_Group_Exec_Runtime c d) k1;
          k3 = upd_task c (p_se_update (exec_start_update (\<lambda>_. clock_task (rq k)))) k2
      in cpuacct_charge c d k3)"

definition update_curr_wrr :: "'f kernel \<Rightarrow> 'f kernel" where
  "update_curr_wrr k =
     (if sched_class (curr_task k) \<noteq> Wrr_Class then k else charge_curr (delta_exec k) k)"

section \<open>Operations of the class\<close>

definition enqueue_task_wrr :: "'f env \<Rightarrow> tid \<Rightarrow> u32 \<Rightarrow> 'f kernel \<Rightarrow> 'f kernel" where
  "enqueue_task_wrr e p flags k =
     inc_nr_running (enqueue_wrr_entity e p (flags AND ENQUEUE_HEAD \<noteq> 0) k)"

definition dequeue_task_wrr :: "tid \<Rightarrow> u32 \<Rightarrow> 'f kernel \<Rightarrow> 'f kernel" where
  "dequeue_task_wrr p flags k = dec_nr_running (dequeue_wrr_entity p (update_curr_wrr k))"

definition yield_task_wrr :: "'f kernel \<Rightarrow> 'f kernel" where
  "yield_task_wrr k = requeue_task_wrr (curr (rq k)) False k"

definition check_preempt_curr_wrr :: "tid \<Rightarrow> u32 \<Rightarrow> 'f kernel \<Rightarrow> 'f kernel" where
  "check_preempt_curr_wrr p flags k = k"

text \<open>
  \<^verbatim>\<open>list_first_entry()\<close> of an empty list is a pointer into the run queue itself, not a
  task; it is \<open>None\<close> here.
\<close>

definition pick_next_wrr_entity :: "wrr_rq \<Rightarrow> tid option" where
  "pick_next_wrr_entity w = (case active w of [] \<Rightarrow> None | p # _ \<Rightarrow> Some p)"

definition set_exec_start :: "tid \<Rightarrow> 'f kernel \<Rightarrow> 'f kernel" where
  "set_exec_start p k = upd_task p (p_se_update (exec_start_update (\<lambda>_. clock_task (rq k)))) k"

definition pick_next_task_wrr :: "'f kernel \<Rightarrow> tid option \<times> 'f kernel" where
  "pick_next_task_wrr k =
     (let w = wrr (rq k)
      in if wrr_nr_running w = 0 then (None, k)
         else if wrr_throttled k then (None, k)
         else case pick_next_wrr_entity w of
                None \<Rightarrow> (None, BUG k)
              | Some p \<Rightarrow> (Some p, set_exec_start p k))"

definition put_prev_task_wrr :: "tid \<Rightarrow> 'f kernel \<Rightarrow> 'f kernel" where
  "put_prev_task_wrr p k = update_curr_wrr k"

definition set_curr_task_wrr :: "'f kernel \<Rightarrow> 'f kernel" where
  "set_curr_task_wrr k = set_exec_start (curr (rq k)) k"

definition watchdog_wrr :: "tid \<Rightarrow> 'f kernel \<Rightarrow> 'f kernel" where
  "watchdog_wrr p k = k"

text \<open>The debugging output of the tick handler evaluates \<^verbatim>\<open>task_group_path()\<close>.\<close>

definition debug_group_path :: "'f env \<Rightarrow> tid \<Rightarrow> 'f kernel \<Rightarrow> 'f kernel" where
  "debug_group_path e p k =
     (if CONFIG_SCHED_DEBUG e then task_group_path e (sched_task_group (tasks k p)) k else k)"

definition task_tick_wrr :: "'f env \<Rightarrow> tid \<Rightarrow> bool \<Rightarrow> 'f kernel \<Rightarrow> 'f kernel" where
  "task_tick_wrr e p queued k =
     (let k1 = debug_group_path e p (watchdog_wrr p (update_curr_wrr k));
          k2 = (if time_slice (p_wrr (tasks k1 p)) \<le> 0
                then set_time_slice p 1 (if CONFIG_SCHED_DEBUG e then BUG k1 else k1)
                else k1);
          n = time_slice (p_wrr (tasks k2 p)) - 1;
          k3 = set_time_slice p n k2
      in if n \<noteq> 0 then k3
         else
           let k4 = set_time_slice p (weight (p_wrr (tasks k3 p)) * WRR_WEIGHT_UNIT) k3;
               k5 = debug_group_path e p k4;
               q = active (wrr (rq k5))
           in if node_prev p q \<noteq> node_next p q \<or> wrr_throttled k5
              then set_tsk_need_resched p (requeue_task_wrr p False k5)
              else k5)"

definition get_rr_interval_wrr :: "'f kernel \<Rightarrow> tid \<Rightarrow> u32" where
  "get_rr_interval_wrr k p = weight (p_wrr (tasks k p)) * WRR_WEIGHT_UNIT"

definition init_wrr_rq :: "'f kernel \<Rightarrow> 'f kernel" where
  "init_wrr_rq k = upd_wrr (active_update (\<lambda>_. [])) k"

definition prio_changed_wrr :: "tid \<Rightarrow> int \<Rightarrow> 'f kernel \<Rightarrow> 'f kernel" where
  "prio_changed_wrr p oldprio k = k"

definition switched_to_wrr :: "tid \<Rightarrow> 'f kernel \<Rightarrow> 'f kernel" where
  "switched_to_wrr p k = k"

definition wrr_sched_class :: "'f env \<Rightarrow> 'f sched_class_ops" where
  "wrr_sched_class e =
     \<lparr>next_class = Some Fair_Class,
      enqueue_task_op = enqueue_task_wrr e,
      dequeue_task_op = dequeue_task_wrr,
      yield_task_op = yield_task_wrr,
      yield_to_task_op = None,
      check_preempt_curr_op = check_preempt_curr_wrr,
      pick_next_task_op = pick_next_task_wrr,
      put_prev_task_op = put_prev_task_wrr,
      set_curr_task_op = set_curr_task_wrr,
      task_tick_op = task_tick_wrr e,
      task_fork_op = None,
      switched_from_op = None,
      switched_to_op = switched_to_wrr,
      prio_changed_op = prio_changed_wrr,
      get_rr_interval_op = get_rr_interval_wrr,
      task_move_group_op = None\<rparr>"

end
