(* ===== verification/Wrr_Inv.thy ===== *)
theory Wrr_Inv
  imports Wrr
begin

text \<open>
  The invariant of the WRR class and what each operation does to the queue, to the counters
  and to the task it is called for.
\<close>

section \<open>Frames\<close>

lemma task_group_path_frame [simp]:
  "tasks (task_group_path e tg k) = tasks k" "rq (task_group_path e tg k) = rq k"
  "rt_rqs (task_group_path e tg k) = rt_rqs k" "panicked (task_group_path e tg k) = panicked k"
  "xtime_nsec (task_group_path e tg k) = xtime_nsec k" "cfs (task_group_path e tg k) = cfs k"
  "tg_cgroup (task_group_path e tg k) = tg_cgroup k" "cpuusage (task_group_path e tg k) = cpuusage k"
  "rt_bandwidths (task_group_path e tg k) = rt_bandwidths k"
  "leaf_rt_rq_list (task_group_path e tg k) = leaf_rt_rq_list k"
  "sched_clock_now (task_group_path e tg k) = sched_clock_now k"
  by (simp_all add: task_group_path_def split: option.splits)

lemma debug_group_path_frame [simp]:
  "tasks (debug_group_path e p k) = tasks k" "rq (debug_group_path e p k) = rq k"
  "rt_rqs (debug_group_path e p k) = rt_rqs k" "panicked (debug_group_path e p k) = panicked k"
  "xtime_nsec (debug_group_path e p k) = xtime_nsec k" "cfs (debug_group_path e p k) = cfs k"
  by (simp_all add: debug_group_path_def)

text \<open>\<^verbatim>\<open>path[1]\<close> of the group, as \<^verbatim>\<open>update_weight()\<close> reads it.\<close>

definition is_background :: "'f env \<Rightarrow> 'f kernel \<Rightarrow> tgid \<Rightarrow> bool" where
  "is_background e k tg \<longleftrightarrow> wrr_group_path (task_group_path e tg k) 1 = CHR ''b''"

text \<open>The weight a task has after \<^verbatim>\<open>update_weight()\<close>.\<close>

definition wrr_weight :: "'f env \<Rightarrow> 'f kernel \<Rightarrow> tid \<Rightarrow> u32" where
  "wrr_weight e k p =
     (if custom_weight (p_wrr (tasks k p)) \<noteq> 0 then weight (p_wrr (tasks k p))
      else if is_background e k (sched_task_group (tasks k p)) then WRR_BG_WEIGHT
      else WRR_FG_WEIGHT)"

lemma tasks_update_weight:
  "tasks (update_weight e p k) =
     (tasks k)(p := (tasks k p)\<lparr>p_wrr := (p_wrr (tasks k p))\<lparr>weight := wrr_weight e k p\<rparr>\<rparr>)"
  by (rule ext) (auto simp: update_weight_def set_weight_def Let_def wrr_weight_def is_background_def
      WRR_BG_WEIGHT_def WRR_FG_WEIGHT_def)

lemma update_weight_frame [simp]:
  "rq (update_weight e p k) = rq k" "rt_rqs (update_weight e p k) = rt_rqs k"
  "panicked (update_weight e p k) = panicked k" "xtime_nsec (update_weight e p k) = xtime_nsec k"
  "cfs (update_weight e p k) = cfs k"
  by (simp_all add: update_weight_def Let_def set_weight_def)

lemma charge_curr_frame [simp]:
  "rq (charge_curr d k) = rq k" "rt_rqs (charge_curr d k) = rt_rqs k"
  "panicked (charge_curr d k) = panicked k" "xtime_nsec (charge_curr d k) = xtime_nsec k"
  "cfs (charge_curr d k) = cfs k" "tg_cgroup (charge_curr d k) = tg_cgroup k"
  "wrr_group_path (charge_curr d k) = wrr_group_path k"
  "rt_bandwidths (charge_curr d k) = rt_bandwidths k"
  "leaf_rt_rq_list (charge_curr d k) = leaf_rt_rq_list k"
  "sysctl_sched_rt_runtime (charge_curr d k) = sysctl_sched_rt_runtime k"
  "sched_clock_now (charge_curr d k) = sched_clock_now k"
  by (simp_all add: charge_curr_def Let_def ext_call_def)

lemma charge_curr_tasks [simp]:
  "p_wrr (tasks (charge_curr d k) p) = p_wrr (tasks k p)"
  "p_rt (tasks (charge_curr d k) p) = p_rt (tasks k p)"
  "sched_class (tasks (charge_curr d k) p) = sched_class (tasks k p)"
  "sched_task_group (tasks (charge_curr d k) p) = sched_task_group (tasks k p)"
  "need_resched (tasks (charge_curr d k) p) = need_resched (tasks k p)"
  "prio (tasks (charge_curr d k) p) = prio (tasks k p)"
  "normal_prio (tasks (charge_curr d k) p) = normal_prio (tasks k p)"
  "static_prio (tasks (charge_curr d k) p) = static_prio (tasks k p)"
  "policy (tasks (charge_curr d k) p) = policy (tasks k p)"
  "on_rq (tasks (charge_curr d k) p) = on_rq (tasks k p)"
  "tsk_state (tasks (charge_curr d k) p) = tsk_state (tasks k p)"
  by (simp_all add: charge_curr_def Let_def ext_call_def)

lemma update_curr_wrr_frame [simp]:
  "rq (update_curr_wrr k) = rq k" "rt_rqs (update_curr_wrr k) = rt_rqs k"
  "panicked (update_curr_wrr k) = panicked k" "xtime_nsec (update_curr_wrr k) = xtime_nsec k"
  "cfs (update_curr_wrr k) = cfs k" "tg_cgroup (update_curr_wrr k) = tg_cgroup k"
  "p_wrr (tasks (update_curr_wrr k) p) = p_wrr (tasks k p)"
  "p_rt (tasks (update_curr_wrr k) p) = p_rt (tasks k p)"
  "sched_class (tasks (update_curr_wrr k) p) = sched_class (tasks k p)"
  "sched_task_group (tasks (update_curr_wrr k) p) = sched_task_group (tasks k p)"
  "need_resched (tasks (update_curr_wrr k) p) = need_resched (tasks k p)"
  "prio (tasks (update_curr_wrr k) p) = prio (tasks k p)"
  "policy (tasks (update_curr_wrr k) p) = policy (tasks k p)"
  "on_rq (tasks (update_curr_wrr k) p) = on_rq (tasks k p)"
  by (simp_all add: update_curr_wrr_def)

lemma is_background_update_curr_wrr [simp]:
  "is_background e (update_curr_wrr k) tg = is_background e k tg"
proof -
  have "tg_cgroup (update_curr_wrr k) = tg_cgroup k"
    and "wrr_group_path (update_curr_wrr k) = wrr_group_path k"
    by (simp_all add: update_curr_wrr_def)
  then show ?thesis
    by (simp add: is_background_def task_group_path_def split: option.splits)
qed

section \<open>The invariant\<close>

text \<open>The bound on process identifiers; it keeps the 32-bit counters from wrapping.\<close>

definition PID_MAX_LIMIT :: nat where "PID_MAX_LIMIT = 2 ^ 22"

definition max_weight :: u32 where "max_weight = 99"

text \<open>
  A weight set with \<^verbatim>\<open>sched_setscheduler()\<close> is a priority of 1 to 99. A queued task has a
  weight in that range and a time slice of at most its weight that has not run out.
\<close>

definition wrr_task_ok :: "sched_wrr_entity \<Rightarrow> bool" where
  "wrr_task_ok s \<longleftrightarrow> (custom_weight s \<noteq> 0 \<longrightarrow> 0 < weight s \<and> weight s \<le> max_weight)"

definition wrr_slice_ok :: "sched_wrr_entity \<Rightarrow> bool" where
  "wrr_slice_ok s \<longleftrightarrow> 0 < weight s \<and> weight s \<le> max_weight \<and>
     0 < time_slice s \<and> time_slice s \<le> weight s * WRR_WEIGHT_UNIT"

definition wrr_inv :: "'f kernel \<Rightarrow> bool" where
  "wrr_inv k \<longleftrightarrow>
     (let w = wrr (rq k) in
       distinct (active w) \<and> set (active w) \<subseteq> {..<PID_MAX_LIMIT} \<and>
       wrr_nr_running w = of_nat (length (active w)) \<and>
       total_weight w = (\<Sum>p\<leftarrow>active w. weight (p_wrr (tasks k p))) \<and>
       (\<forall>p\<in>set (active w). wrr_slice_ok (p_wrr (tasks k p))) \<and>
       (\<forall>p. wrr_task_ok (p_wrr (tasks k p))))"

lemma wrr_invI:
  assumes "distinct (active (wrr (rq k)))" "set (active (wrr (rq k))) \<subseteq> {..<PID_MAX_LIMIT}"
    "wrr_nr_running (wrr (rq k)) = of_nat (length (active (wrr (rq k))))"
    "total_weight (wrr (rq k)) = (\<Sum>p\<leftarrow>active (wrr (rq k)). weight (p_wrr (tasks k p)))"
    "\<And>p. p \<in> set (active (wrr (rq k))) \<Longrightarrow> wrr_slice_ok (p_wrr (tasks k p))"
    "\<And>p. wrr_task_ok (p_wrr (tasks k p))"
  shows "wrr_inv k"
  using assms by (simp add: wrr_inv_def Let_def)

lemma wrr_invD:
  assumes "wrr_inv k"
  shows "distinct (active (wrr (rq k)))" "set (active (wrr (rq k))) \<subseteq> {..<PID_MAX_LIMIT}"
    "wrr_nr_running (wrr (rq k)) = of_nat (length (active (wrr (rq k))))"
    "total_weight (wrr (rq k)) = (\<Sum>p\<leftarrow>active (wrr (rq k)). weight (p_wrr (tasks k p)))"
    "p \<in> set (active (wrr (rq k))) \<Longrightarrow> wrr_slice_ok (p_wrr (tasks k p))"
    "wrr_task_ok (p_wrr (tasks k q))"
  using assms by (simp_all add: wrr_inv_def Let_def)

text \<open>The invariant reads the queue and the WRR entities of the tasks only.\<close>

lemma wrr_inv_cong:
  assumes "wrr (rq k') = wrr (rq k)" and "\<And>p. p_wrr (tasks k' p) = p_wrr (tasks k p)"
  shows "wrr_inv k' \<longleftrightarrow> wrr_inv k"
  by (simp add: wrr_inv_def assms)

lemma queue_length_bound:
  assumes "wrr_inv k"
  shows "length (active (wrr (rq k))) \<le> PID_MAX_LIMIT"
proof -
  have "card (set (active (wrr (rq k)))) \<le> card {..<PID_MAX_LIMIT}"
    using wrr_invD(2) [OF assms] by (intro card_mono) auto
  then show ?thesis using wrr_invD(1) [OF assms] by (simp add: distinct_card)
qed

lemma wrr_nr_running_0_iff:
  assumes "wrr_inv k"
  shows "wrr_nr_running (wrr (rq k)) = 0 \<longleftrightarrow> active (wrr (rq k)) = []"
proof -
  have "length (active (wrr (rq k))) < 2 ^ 32"
    using queue_length_bound [OF assms] by (simp add: PID_MAX_LIMIT_def)
  then show ?thesis
    using of_nat_word32_inj [of "length (active (wrr (rq k)))" 0] wrr_invD(3) [OF assms] by auto
qed

lemma wrr_weight_ok:
  assumes "wrr_task_ok (p_wrr (tasks k p))"
  shows "0 < wrr_weight e k p \<and> wrr_weight e k p \<le> max_weight"
  using assms
  by (auto simp: wrr_weight_def wrr_task_ok_def max_weight_def WRR_FG_WEIGHT_def WRR_BG_WEIGHT_def)

section \<open>Closed forms\<close>

lemma rq_enqueue_task_wrr:
  "rq (enqueue_task_wrr e p fl k) =
     (rq k)\<lparr>nr_running := nr_running (rq k) + 1,
       wrr := \<lparr>active = (if fl AND ENQUEUE_HEAD \<noteq> 0 then list_move p (active (wrr (rq k)))
                        else list_move_tail p (active (wrr (rq k)))),
              wrr_nr_running = wrr_nr_running (wrr (rq k)) + 1,
              total_weight = total_weight (wrr (rq k)) + wrr_weight e k p\<rparr>\<rparr>"
  by (cases "rq k") (simp add: enqueue_task_wrr_def enqueue_wrr_entity_def wrr_defs Let_def
      inc_nr_running_def tasks_update_weight set_time_slice_def)

lemma tasks_enqueue_task_wrr:
  "tasks (enqueue_task_wrr e p fl k) =
     (tasks k)(p := (tasks k p)\<lparr>p_wrr := (p_wrr (tasks k p))
        \<lparr>weight := wrr_weight e k p, time_slice := wrr_weight e k p * WRR_WEIGHT_UNIT\<rparr>\<rparr>)"
  by (rule ext) (simp add: enqueue_task_wrr_def enqueue_wrr_entity_def wrr_defs Let_def
      inc_nr_running_def tasks_update_weight set_time_slice_def)

lemma enqueue_task_wrr_frame [simp]:
  "panicked (enqueue_task_wrr e p fl k) = panicked k"
  "xtime_nsec (enqueue_task_wrr e p fl k) = xtime_nsec k"
  "rt_rqs (enqueue_task_wrr e p fl k) = rt_rqs k"
  "cfs (enqueue_task_wrr e p fl k) = cfs k"
  by (simp_all add: enqueue_task_wrr_def enqueue_wrr_entity_def wrr_defs Let_def inc_nr_running_def
      set_time_slice_def)

lemma rq_dequeue_task_wrr:
  "rq (dequeue_task_wrr p fl k) =
     (rq k)\<lparr>nr_running := nr_running (rq k) - 1,
       wrr := \<lparr>active = remove1 p (active (wrr (rq k))),
              wrr_nr_running = wrr_nr_running (wrr (rq k)) - 1,
              total_weight = total_weight (wrr (rq k)) - weight (p_wrr (tasks k p))\<rparr>\<rparr>"
  by (cases "rq k") (simp add: dequeue_task_wrr_def wrr_defs dec_nr_running_def list_ops)

lemma tasks_dequeue_task_wrr: "tasks (dequeue_task_wrr p fl k) = tasks (update_curr_wrr k)"
  by (simp add: dequeue_task_wrr_def wrr_defs dec_nr_running_def)

lemma dequeue_task_wrr_frame [simp]:
  "panicked (dequeue_task_wrr p fl k) = panicked k"
  "xtime_nsec (dequeue_task_wrr p fl k) = xtime_nsec k"
  "rt_rqs (dequeue_task_wrr p fl k) = rt_rqs k"
  "cfs (dequeue_task_wrr p fl k) = cfs k"
  "p_wrr (tasks (dequeue_task_wrr p fl k) q) = p_wrr (tasks k q)"
  by (simp_all add: dequeue_task_wrr_def wrr_defs dec_nr_running_def)

text \<open>
  The tick: the slice counts down; on its last tick it is refilled and, unless the task is
  alone and not throttled, the task goes to the tail and is asked to reschedule.
\<close>

definition slice_left :: "sched_wrr_entity \<Rightarrow> u32" where
  "slice_left s = (if time_slice s = 0 then 0 else time_slice s - 1)"

definition wrr_expires :: "'f kernel \<Rightarrow> tid \<Rightarrow> bool" where
  "wrr_expires k p \<longleftrightarrow> slice_left (p_wrr (tasks k p)) = 0"

definition wrr_rotates :: "'f kernel \<Rightarrow> tid \<Rightarrow> bool" where
  "wrr_rotates k p \<longleftrightarrow> wrr_expires k p \<and>
     (node_prev p (active (wrr (rq k))) \<noteq> node_next p (active (wrr (rq k))) \<or> wrr_throttled k)"

lemma task_tick_wrr_queue:
  "rq (task_tick_wrr e p b k) =
     (if wrr_rotates k p
      then (rq k)\<lparr>wrr := (wrr (rq k))\<lparr>active := list_move_tail p (active (wrr (rq k)))\<rparr>\<rparr>
      else rq k)"
  by (cases "rq k") (auto simp: task_tick_wrr_def Let_def watchdog_wrr_def set_time_slice_def BUG_def
      wrr_rotates_def wrr_expires_def slice_left_def wrr_throttled_def wrr_defs
      set_tsk_need_resched_def)

lemma task_tick_wrr_slice:
  "p_wrr (tasks (task_tick_wrr e p b k) q) =
     (if q = p then (p_wrr (tasks k p))\<lparr>time_slice :=
        (if wrr_expires k p then weight (p_wrr (tasks k p)) * WRR_WEIGHT_UNIT
         else slice_left (p_wrr (tasks k p)))\<rparr>
      else p_wrr (tasks k q))"
  by (auto simp: task_tick_wrr_def Let_def watchdog_wrr_def set_time_slice_def BUG_def
      wrr_expires_def slice_left_def wrr_defs set_tsk_need_resched_def)

lemma task_tick_wrr_need_resched:
  "need_resched (tasks (task_tick_wrr e p b k) q) =
     (need_resched (tasks k q) \<or> (q = p \<and> wrr_rotates k p))"
  by (auto simp: task_tick_wrr_def Let_def watchdog_wrr_def set_time_slice_def BUG_def
      wrr_rotates_def wrr_expires_def slice_left_def wrr_throttled_def wrr_defs
      set_tsk_need_resched_def)

lemma task_tick_wrr_panicked:
  "panicked (task_tick_wrr e p b k) =
     (panicked k \<or> (CONFIG_SCHED_DEBUG e \<and> time_slice (p_wrr (tasks k p)) = 0))"
  by (auto simp: task_tick_wrr_def Let_def watchdog_wrr_def set_time_slice_def BUG_def wrr_defs
      set_tsk_need_resched_def)

lemma task_tick_wrr_frame [simp]:
  "xtime_nsec (task_tick_wrr e p b k) = xtime_nsec k"
  "rt_rqs (task_tick_wrr e p b k) = rt_rqs k"
  "cfs (task_tick_wrr e p b k) = cfs k"
  "sched_class (tasks (task_tick_wrr e p b k) q) = sched_class (tasks k q)"
  by (simp_all add: task_tick_wrr_def Let_def watchdog_wrr_def set_time_slice_def BUG_def wrr_defs
      set_tsk_need_resched_def)

end
