(* ===== verification/Class_Contract.thy ===== *)
theory Class_Contract
  imports Kernel_State
begin

text \<open>
  What the core scheduler relies on when it takes a task off its queue, changes it and puts it
  back (\<^verbatim>\<open>set_user_nice()\<close>, \<^verbatim>\<open>rt_mutex_setprio()\<close>,
  \<^verbatim>\<open>__sched_setscheduler()\<close>, \<^verbatim>\<open>sched_move_task()\<close>): the contract of a queueing
  class over its \<^verbatim>\<open>enqueue_task\<close> and \<^verbatim>\<open>dequeue_task\<close>. \<open>queued\<close> are the tasks the
  class holds, \<open>admissible\<close> what it asks of a task before it is enqueued.
\<close>

locale queue_class =
  fixes inv :: "'f kernel \<Rightarrow> bool"
    and queued :: "'f kernel \<Rightarrow> tid set"
    and admissible :: "'f kernel \<Rightarrow> tid \<Rightarrow> bool"
    and enq :: "tid \<Rightarrow> u32 \<Rightarrow> 'f kernel \<Rightarrow> 'f kernel"
    and deq :: "tid \<Rightarrow> u32 \<Rightarrow> 'f kernel \<Rightarrow> 'f kernel"
  assumes enq_inv: "inv k \<Longrightarrow> admissible k p \<Longrightarrow> p \<notin> queued k \<Longrightarrow> inv (enq p fl k)"
    and enq_queued: "inv k \<Longrightarrow> admissible k p \<Longrightarrow> p \<notin> queued k \<Longrightarrow> queued (enq p fl k) = insert p (queued k)"
    and enq_nr_running: "inv k \<Longrightarrow> admissible k p \<Longrightarrow> p \<notin> queued k \<Longrightarrow> nr_running (rq (enq p fl k)) = nr_running (rq k) + 1"
    and deq_inv: "inv k \<Longrightarrow> p \<in> queued k \<Longrightarrow> inv (deq p fl k)"
    and deq_queued: "inv k \<Longrightarrow> p \<in> queued k \<Longrightarrow> queued (deq p fl k) = queued k - {p}"
    and deq_nr_running: "inv k \<Longrightarrow> p \<in> queued k \<Longrightarrow> nr_running (rq (deq p fl k)) = nr_running (rq k) - 1"
begin

text \<open>Enqueue, then dequeue: the same tasks and the same count.\<close>

lemma enq_deq:
  assumes "inv k" "admissible k p" "p \<notin> queued k"
  shows "inv (deq p fl' (enq p fl k))" "queued (deq p fl' (enq p fl k)) = queued k"
    "nr_running (rq (deq p fl' (enq p fl k))) = nr_running (rq k)"
  using assms by (simp_all add: enq_inv enq_queued enq_nr_running deq_inv deq_queued deq_nr_running)

text \<open>
  Dequeue, change the task, enqueue: the change may be anything that keeps the invariant, the
  queue and the count, and leaves the task admissible.
\<close>

lemma deq_change_enq:
  assumes "inv k" "p \<in> queued k"
    and "inv (f (deq p fl k))" "queued (f (deq p fl k)) = queued (deq p fl k)"
    and "nr_running (rq (f (deq p fl k))) = nr_running (rq (deq p fl k))"
    and "admissible (f (deq p fl k)) p"
  shows "inv (enq p fl' (f (deq p fl k)))" "queued (enq p fl' (f (deq p fl k))) = queued k"
    "nr_running (rq (enq p fl' (f (deq p fl k)))) = nr_running (rq k)"
proof -
  have nin: "p \<notin> queued (f (deq p fl k))" using assms by (simp add: deq_queued)
  show "inv (enq p fl' (f (deq p fl k)))" using assms nin by (simp add: enq_inv)
  show "queued (enq p fl' (f (deq p fl k))) = queued k"
    using assms nin by (auto simp: enq_queued deq_queued)
  show "nr_running (rq (enq p fl' (f (deq p fl k)))) = nr_running (rq k)"
    using assms nin by (simp add: enq_nr_running deq_nr_running)
qed

text \<open>A whole sequence of wake-ups and sleeps, each legal where it happens.\<close>

fun run_ops :: "(bool \<times> tid \<times> u32) list \<Rightarrow> 'f kernel \<Rightarrow> 'f kernel" where
  "run_ops [] k = k"
| "run_ops ((True, p, fl) # ops) k = run_ops ops (enq p fl k)"
| "run_ops ((False, p, fl) # ops) k = run_ops ops (deq p fl k)"

fun legal_ops :: "(bool \<times> tid \<times> u32) list \<Rightarrow> 'f kernel \<Rightarrow> bool" where
  "legal_ops [] k = True"
| "legal_ops ((True, p, fl) # ops) k = (admissible k p \<and> p \<notin> queued k \<and> legal_ops ops (enq p fl k))"
| "legal_ops ((False, p, fl) # ops) k = (p \<in> queued k \<and> legal_ops ops (deq p fl k))"

lemma run_ops_inv: "inv k \<Longrightarrow> legal_ops ops k \<Longrightarrow> inv (run_ops ops k)"
  by (induction ops k rule: run_ops.induct) (auto simp: enq_inv deq_inv)

end

end
