(* ===== verification/Wrr_Props.thy ===== *)
theory Wrr_Props
  imports Wrr_Inv Class_Contract
begin

text \<open>
  The operations of the WRR class keep its invariant; the class as a queueing class; ticks,
  rotation and fairness of the round robin.
\<close>

section \<open>Every operation keeps the invariant\<close>

lemma wrr_slice_ok_fresh:
  assumes "wrr_task_ok (p_wrr (tasks k p))"
  shows "wrr_slice_ok (p_wrr (tasks k p)\<lparr>weight := wrr_weight e k p,
            time_slice := wrr_weight e k p * WRR_WEIGHT_UNIT\<rparr>)"
  using wrr_weight_ok [OF assms, of e] by (simp add: wrr_slice_ok_def)

lemma wrr_inv_enqueue:
  assumes inv: "wrr_inv k" and p: "p < PID_MAX_LIMIT" and nin: "p \<notin> set (active (wrr (rq k)))"
  shows "wrr_inv (enqueue_task_wrr e p fl k)"
proof (rule wrr_invI)
  let ?q = "active (wrr (rq k))"
  let ?k = "enqueue_task_wrr e p fl k"
  have q': "active (wrr (rq ?k)) = (if fl AND ENQUEUE_HEAD \<noteq> 0 then p # ?q else ?q @ [p])"
    using nin by (simp add: rq_enqueue_task_wrr list_ops)
  have sum: "(\<Sum>y\<leftarrow>?q. weight (p_wrr (tasks ?k y))) = (\<Sum>y\<leftarrow>?q. weight (p_wrr (tasks k y)))"
    using nin by (intro sum_list_map_cong) (auto simp: tasks_enqueue_task_wrr)
  note D = wrr_invD [OF inv]
  show "distinct (active (wrr (rq ?k)))" using D(1) nin by (simp add: q')
  show "set (active (wrr (rq ?k))) \<subseteq> {..<PID_MAX_LIMIT}" using D(2) p by (simp add: q')
  show "wrr_nr_running (wrr (rq ?k)) = of_nat (length (active (wrr (rq ?k))))"
    unfolding q' using D(3) by (simp add: rq_enqueue_task_wrr)
  show "total_weight (wrr (rq ?k)) = (\<Sum>y\<leftarrow>active (wrr (rq ?k)). weight (p_wrr (tasks ?k y)))"
    unfolding q' using D(4) sum by (simp add: rq_enqueue_task_wrr) (simp add: tasks_enqueue_task_wrr)
  show "wrr_slice_ok (p_wrr (tasks ?k y))" if "y \<in> set (active (wrr (rq ?k)))" for y
    using that D(5) [of y] wrr_slice_ok_fresh [OF D(6)]
    by (auto simp: q' tasks_enqueue_task_wrr split: if_splits)
  show "wrr_task_ok (p_wrr (tasks ?k y))" for y
    using D(6) [of y] wrr_weight_ok [OF D(6) [of p], of e]
    by (simp add: tasks_enqueue_task_wrr wrr_task_ok_def)
qed

lemma wrr_inv_dequeue:
  assumes inv: "wrr_inv k" and p: "p \<in> set (active (wrr (rq k)))"
  shows "wrr_inv (dequeue_task_wrr p fl k)"
proof -
  note D = wrr_invD [OF inv]
  have "set (remove1 p (active (wrr (rq k)))) = set (active (wrr (rq k))) - {p}"
    using D(1) by (rule set_remove1_eq)
  then show ?thesis
    using D p
    by (intro wrr_invI)
      (auto simp: rq_dequeue_task_wrr of_nat_length_remove1 sum_list_remove1 distinct_remove1
        dest: notin_set_remove1)
qed

text \<open>Moving a queued task keeps everything the invariant says.\<close>

lemma wrr_inv_requeue:
  assumes inv: "wrr_inv k" and p: "p \<in> set (active (wrr (rq k)))"
  shows "wrr_inv (requeue_task_wrr p head k)"
proof -
  note D = wrr_invD [OF inv]
  have s: "set (remove1 p (active (wrr (rq k)))) = set (active (wrr (rq k))) - {p}"
    using D(1) by (rule set_remove1_eq)
  have l: "Suc (length (remove1 p (active (wrr (rq k))))) = length (active (wrr (rq k)))"
    using p by (simp add: length_remove1) (metis Suc_pred length_pos_if_in_set)
  have n: "(of_nat (length (active (wrr (rq k)))) :: ulong) = 1 + of_nat (length (remove1 p (active (wrr (rq k)))))"
    using arg_cong [OF l, of "of_nat :: nat \<Rightarrow> ulong"] by simp
  show ?thesis
    using D p
    by (intro wrr_invI)
      (auto simp: wrr_defs list_ops s n sum_list_remove1 distinct_remove1 split: if_splits)
qed

lemma wrr_inv_yield:
  "wrr_inv k \<Longrightarrow> curr (rq k) \<in> set (active (wrr (rq k))) \<Longrightarrow> wrr_inv (yield_task_wrr k)"
  by (simp add: yield_task_wrr_def wrr_inv_requeue)

lemma wrr_inv_put_prev: "wrr_inv k \<Longrightarrow> wrr_inv (put_prev_task_wrr p k)"
  by (subst wrr_inv_cong [of _ k]) (simp_all add: put_prev_task_wrr_def)

lemma wrr_inv_set_curr: "wrr_inv k \<Longrightarrow> wrr_inv (set_curr_task_wrr k)"
  by (subst wrr_inv_cong [of _ k]) (simp_all add: set_curr_task_wrr_def set_exec_start_def)

lemma wrr_inv_pick: "wrr_inv k \<Longrightarrow> wrr_inv (snd (pick_next_task_wrr k))"
  by (subst wrr_inv_cong [of _ k])
    (simp_all add: pick_next_task_wrr_def Let_def set_exec_start_def BUG_def split: option.splits)

lemma wrr_inv_tick:
  assumes inv: "wrr_inv k" and p: "p \<in> set (active (wrr (rq k)))"
  shows "wrr_inv (task_tick_wrr e p b k)"
proof (rule wrr_invI)
  let ?k = "task_tick_wrr e p b k" and ?r = "requeue_task_wrr p False k"
  note D = wrr_invD [OF inv]
  note R = wrr_invD [OF wrr_inv_requeue [OF inv p, of False]]
  have rq: "wrr (rq ?k) = (if wrr_rotates k p then wrr (rq ?r) else wrr (rq k))"
    by (simp add: task_tick_wrr_queue wrr_defs)
  have w: "weight (p_wrr (tasks ?k y)) = weight (p_wrr (tasks k y))" for y
    by (simp add: task_tick_wrr_slice)
  have tasks_r: "tasks ?r = tasks k" by (simp add: wrr_defs)
  show "distinct (active (wrr (rq ?k)))" using D(1) R(1) by (simp add: rq)
  show "set (active (wrr (rq ?k))) \<subseteq> {..<PID_MAX_LIMIT}" using D(2) R(2) by (simp add: rq)
  show "wrr_nr_running (wrr (rq ?k)) = of_nat (length (active (wrr (rq ?k))))"
    using D(3) R(3) by (simp add: rq)
  show "total_weight (wrr (rq ?k)) = (\<Sum>y\<leftarrow>active (wrr (rq ?k)). weight (p_wrr (tasks ?k y)))"
    using D(4) R(4) by (simp add: rq w tasks_r)
  have set: "set (active (wrr (rq ?r))) = set (active (wrr (rq k)))"
    using p D(1) by (auto simp: wrr_defs list_ops set_remove1_eq)
  show "wrr_slice_ok (p_wrr (tasks ?k y))" if "y \<in> set (active (wrr (rq ?k)))" for y
  proof -
    have y: "wrr_slice_ok (p_wrr (tasks k y))" using that set D(5) by (auto simp: rq split: if_splits)
    then show ?thesis
      by (auto simp: task_tick_wrr_slice wrr_slice_ok_def wrr_expires_def slice_left_def
          word_gt_0 intro: order_trans [OF word_dec_le])
  qed
  show "wrr_task_ok (p_wrr (tasks ?k y))" for y
    using D(6) [of y] by (cases "y = p") (simp_all add: task_tick_wrr_slice wrr_task_ok_def)
qed

section \<open>WRR as a queueing class\<close>

definition wrr_queued :: "'f kernel \<Rightarrow> tid set" where
  "wrr_queued k = set (active (wrr (rq k)))"

definition wrr_admissible :: "'f kernel \<Rightarrow> tid \<Rightarrow> bool" where
  "wrr_admissible k p \<longleftrightarrow> p < PID_MAX_LIMIT"

lemma wrr_queued_enqueue: "wrr_queued (enqueue_task_wrr e p fl k) = insert p (wrr_queued k)"
proof -
  have "insert p (set (remove1 p q)) = insert p (set q)" for q
    by (induction q) auto
  then show ?thesis by (simp add: wrr_queued_def rq_enqueue_task_wrr list_ops)
qed

interpretation wrr_class: queue_class wrr_inv wrr_queued wrr_admissible "enqueue_task_wrr e" dequeue_task_wrr
  for e :: "'f env"
proof unfold_locales
  fix k :: "'f kernel" and p fl
  assume inv: "wrr_inv k"
  show "wrr_inv (enqueue_task_wrr e p fl k)" if "wrr_admissible k p" "p \<notin> wrr_queued k"
    using that inv by (simp add: wrr_inv_enqueue wrr_admissible_def wrr_queued_def)
  show "wrr_queued (enqueue_task_wrr e p fl k) = insert p (wrr_queued k)"
    by (rule wrr_queued_enqueue)
  show "nr_running (rq (enqueue_task_wrr e p fl k)) = nr_running (rq k) + 1"
    by (simp add: rq_enqueue_task_wrr)
  assume p: "p \<in> wrr_queued k"
  show "wrr_inv (dequeue_task_wrr p fl k)" using inv p by (simp add: wrr_inv_dequeue wrr_queued_def)
  show "wrr_queued (dequeue_task_wrr p fl k) = wrr_queued k - {p}"
    using wrr_invD(1) [OF inv] by (simp add: wrr_queued_def rq_dequeue_task_wrr set_remove1_eq)
  show "nr_running (rq (dequeue_task_wrr p fl k)) = nr_running (rq k) - 1"
    by (simp add: rq_dequeue_task_wrr)
qed

section \<open>The round robin\<close>

text \<open>
  The abstract machine: a queue of tasks, each with the ticks it has left and its weight. A
  tick is taken by the first; when it was its last, the task goes to the end with a new slice.
\<close>

type_synonym rr_task = "tid \<times> nat \<times> nat"

fun rr_tick :: "rr_task list \<Rightarrow> rr_task list" where
  "rr_tick [] = []"
| "rr_tick ((p, n, w) # q) = (if n \<le> 1 then q @ [(p, w, w)] else (p, n - 1, w) # q)"

fun rr_ran :: "nat \<Rightarrow> rr_task list \<Rightarrow> tid list" where
  "rr_ran 0 q = []"
| "rr_ran (Suc n) q = (case q of [] \<Rightarrow> [] | (p, _) # _ \<Rightarrow> p # rr_ran n (rr_tick q))"

definition refill :: "rr_task \<Rightarrow> rr_task" where
  "refill = (\<lambda>(p, n, w). (p, w, w))"

definition ticks_left :: "rr_task list \<Rightarrow> nat" where
  "ticks_left q = (\<Sum>(p, n, w)\<leftarrow>q. n)"

definition rr_schedule :: "rr_task list \<Rightarrow> tid list" where
  "rr_schedule q = concat (map (\<lambda>(p, n, w). replicate n p) q)"

lemma rr_slice:
  "0 < n \<Longrightarrow> (rr_tick ^^ n) ((p, n, w) # q) = q @ [(p, w, w)]"
  "0 < n \<Longrightarrow> rr_ran (n + m) ((p, n, w) # q) = replicate n p @ rr_ran m (q @ [(p, w, w)])"
proof (induction n)
  case (Suc n)
  { case 1
    then show ?case using Suc(1) by (cases n) (auto simp: funpow_swap1 [symmetric] simp del: funpow.simps simp add: funpow_Suc_right)
  next
    case 2
    then show ?case using Suc(2) by (cases n) auto
  }
qed auto

lemma rr_round_gen:
  "(\<forall>(p, n, w)\<in>set xs. 0 < n) \<Longrightarrow>
   (rr_tick ^^ ticks_left xs) (xs @ ys) = ys @ map refill xs \<and>
   rr_ran (ticks_left xs + m) (xs @ ys) = rr_schedule xs @ rr_ran m (ys @ map refill xs)"
proof (induction xs arbitrary: ys)
  case Nil
  then show ?case by (simp add: ticks_left_def rr_schedule_def)
next
  case (Cons x xs)
  obtain p n w where x: "x = (p, n, w)" by (cases x)
  have n: "0 < n" using Cons.prems x by simp
  have IH: "(rr_tick ^^ ticks_left xs) (xs @ (ys @ [(p, w, w)])) = (ys @ [(p, w, w)]) @ map refill xs"
    "rr_ran (ticks_left xs + m) (xs @ (ys @ [(p, w, w)])) = rr_schedule xs @ rr_ran m ((ys @ [(p, w, w)]) @ map refill xs)"
    using Cons by auto
  have tl: "ticks_left (x # xs) = n + ticks_left xs" by (simp add: ticks_left_def x)
  have "(rr_tick ^^ (ticks_left xs + n)) ((x # xs) @ ys) = ys @ map refill (x # xs)"
    using rr_slice(1) [OF n, of p w "xs @ ys"] IH(1) by (simp only: funpow_add o_apply x) (simp add: refill_def)
  moreover have "rr_ran (n + (ticks_left xs + m)) ((x # xs) @ ys) =
      rr_schedule (x # xs) @ rr_ran m (ys @ map refill (x # xs))"
    using rr_slice(2) [OF n, of "ticks_left xs + m" p w "xs @ ys"] IH(2)
    by (simp add: x refill_def rr_schedule_def)
  ultimately show ?case by (simp add: tl add.commute add.left_commute)
qed

section \<open>The class implements the round robin\<close>

text \<open>
  A timer tick at time \<open>t\<close> and, when it asks for it, the choice of the next task: what
  \<^verbatim>\<open>scheduler_tick()\<close> and \<^verbatim>\<open>__schedule()\<close> do with the class while only WRR tasks
  are runnable.
\<close>

definition wrr_resched :: "tid \<Rightarrow> 'f kernel \<Rightarrow> 'f kernel" where
  "wrr_resched c k =
     (case pick_next_task_wrr (put_prev_task_wrr c k) of
        (None, k') \<Rightarrow> k'
      | (Some n, k') \<Rightarrow> rq_update (curr_update (\<lambda>_. n)) (clear_tsk_need_resched c k'))"

definition wrr_tick_at :: "'f env \<Rightarrow> u32 \<Rightarrow> 'f kernel \<Rightarrow> 'f kernel" where
  "wrr_tick_at e t k =
     (let k0 = k\<lparr>xtime_nsec := t\<rparr>; c = curr (rq k0); k1 = task_tick_wrr e c False k0
      in if need_resched (tasks k1 c) then wrr_resched c k1 else k1)"

fun wrr_ticks :: "'f env \<Rightarrow> u32 list \<Rightarrow> 'f kernel \<Rightarrow> 'f kernel" where
  "wrr_ticks e [] k = k"
| "wrr_ticks e (t # ts) k = wrr_ticks e ts (wrr_tick_at e t k)"

text \<open>The task that has the processor during each tick.\<close>

fun wrr_ran :: "'f env \<Rightarrow> u32 list \<Rightarrow> 'f kernel \<Rightarrow> tid list" where
  "wrr_ran e [] k = []"
| "wrr_ran e (t # ts) k = curr (rq k) # wrr_ran e ts (wrr_tick_at e t k)"

definition rr_abs :: "'f kernel \<Rightarrow> rr_task list" where
  "rr_abs k = map (\<lambda>p. (p, unat (time_slice (p_wrr (tasks k p))),
                          unat (weight (p_wrr (tasks k p)) * WRR_WEIGHT_UNIT))) (active (wrr (rq k)))"

text \<open>The first queued WRR task has the processor and nobody has asked it to give it up.\<close>

definition rr_ready :: "'f kernel \<Rightarrow> bool" where
  "rr_ready k \<longleftrightarrow> wrr_inv k \<and> active (wrr (rq k)) \<noteq> [] \<and> curr (rq k) = hd (active (wrr (rq k))) \<and>
     (\<forall>p\<in>set (active (wrr (rq k))). \<not> need_resched (tasks k p))"

definition unthrottled :: "u32 \<Rightarrow> bool" where
  "unthrottled t \<longleftrightarrow> 71 < t mod 100"

lemma wrr_throttled_iff: "wrr_throttled k \<longleftrightarrow> \<not> unthrottled (xtime_nsec k)"
  by (simp add: wrr_throttled_def unthrottled_def Let_def not_less)

lemma wrr_resched_runs_head:
  assumes "wrr_inv k" "active (wrr (rq k)) = n # q" "unthrottled (xtime_nsec k)"
  shows "rq (wrr_resched c k) = (rq k)\<lparr>curr := n\<rparr>"
    "p_wrr (tasks (wrr_resched c k) p) = p_wrr (tasks k p)"
    "need_resched (tasks (wrr_resched c k) p) = (p \<noteq> c \<and> need_resched (tasks k p))"
proof -
  have "wrr_nr_running (wrr (rq k)) \<noteq> 0" using wrr_nr_running_0_iff [OF assms(1)] assms(2) by simp
  then have "pick_next_task_wrr (put_prev_task_wrr c k) = (Some n, set_exec_start n (put_prev_task_wrr c k))"
    using assms(2,3)
    by (simp add: pick_next_task_wrr_def put_prev_task_wrr_def wrr_throttled_iff
        pick_next_wrr_entity_def)
  then have eq: "wrr_resched c k = rq_update (curr_update (\<lambda>_. n))
      (clear_tsk_need_resched c (set_exec_start n (put_prev_task_wrr c k)))"
    by (simp add: wrr_resched_def)
  show "rq (wrr_resched c k) = (rq k)\<lparr>curr := n\<rparr>"
    by (cases "rq k") (simp add: eq clear_tsk_need_resched_def set_exec_start_def put_prev_task_wrr_def)
  show "p_wrr (tasks (wrr_resched c k) p) = p_wrr (tasks k p)"
    by (simp add: eq clear_tsk_need_resched_def set_exec_start_def put_prev_task_wrr_def)
  show "need_resched (tasks (wrr_resched c k) p) = (p \<noteq> c \<and> need_resched (tasks k p))"
    by (simp add: eq clear_tsk_need_resched_def set_exec_start_def put_prev_task_wrr_def)
qed

lemma wrr_rotates_iff:
  assumes "wrr_inv k" "p \<in> set (active (wrr (rq k)))" "unthrottled (xtime_nsec k)"
  shows "wrr_rotates k p \<longleftrightarrow> wrr_expires k p \<and> 2 \<le> length (active (wrr (rq k)))"
  using neighbours_differ [OF wrr_invD(1) [OF assms(1)], of p] assms
  by (simp add: wrr_rotates_def wrr_throttled_iff)

text \<open>One tick of the kernel is one tick of the abstract machine.\<close>

lemma wrr_inv_xtime [simp]: "wrr_inv (k\<lparr>xtime_nsec := t\<rparr>) = wrr_inv k"
  by (rule wrr_inv_cong) simp_all

lemma rr_abs_tick_rotates:
  assumes inv: "wrr_inv k" and q: "active (wrr (rq k)) = c # d # q" and rot: "wrr_rotates k c"
    and k': "active (wrr (rq k')) = d # q @ [c]" "\<And>p. p_wrr (tasks k' p) = p_wrr (tasks (task_tick_wrr e c b k) p)"
  shows "rr_abs k' = rr_tick (rr_abs k)"
proof -
  have "distinct (c # d # q)" using wrr_invD(1) [OF inv] q by simp
  moreover have "wrr_expires k c" using rot by (simp add: wrr_rotates_def)
  moreover from this have "unat (time_slice (p_wrr (tasks k c))) \<le> 1"
    by (auto simp: wrr_expires_def slice_left_def unat_le_1_iff split: if_splits)
  ultimately show ?thesis
    by (auto simp: rr_abs_def k' q task_tick_wrr_slice)
qed

lemma rr_abs_tick_stays:
  assumes inv: "wrr_inv k" and q: "active (wrr (rq k)) = c # q" and len: "wrr_expires k c \<Longrightarrow> q = []"
    and k': "active (wrr (rq k')) = c # q" "\<And>p. p_wrr (tasks k' p) = p_wrr (tasks (task_tick_wrr e c b k) p)"
  shows "rr_abs k' = rr_tick (rr_abs k)"
proof (cases "wrr_expires k c")
  case True
  then have "unat (time_slice (p_wrr (tasks k c))) \<le> 1"
    by (auto simp: wrr_expires_def slice_left_def unat_le_1_iff split: if_splits)
  then show ?thesis using True len by (simp add: rr_abs_def k' q task_tick_wrr_slice)
next
  case False
  then have nz: "time_slice (p_wrr (tasks k c)) \<noteq> 0" and n1: "time_slice (p_wrr (tasks k c)) \<noteq> 1"
    by (auto simp: wrr_expires_def slice_left_def split: if_splits)
  then have "\<not> unat (time_slice (p_wrr (tasks k c))) \<le> 1"
    by (simp add: unat_le_1_iff)
  moreover have "distinct (c # q)" using wrr_invD(1) [OF inv] q by simp
  ultimately show ?thesis
    using False nz by (auto simp: rr_abs_def k' q task_tick_wrr_slice slice_left_def unat_dec)
qed

lemma wrr_tick_refines:
  assumes ready: "rr_ready k" and t: "unthrottled t"
  shows "rr_abs (wrr_tick_at e t k) = rr_tick (rr_abs k) \<and> rr_ready (wrr_tick_at e t k)"
proof -
  define k0 where "k0 = k\<lparr>xtime_nsec := t\<rparr>"
  define c where "c = curr (rq k)"
  define k1 where "k1 = task_tick_wrr e c False k0"
  obtain q where q: "active (wrr (rq k)) = c # q"
    using ready by (cases "active (wrr (rq k))") (auto simp: rr_ready_def c_def)
  have inv: "wrr_inv k" and nr: "\<And>p. p \<in> set (c # q) \<Longrightarrow> \<not> need_resched (tasks k p)"
    using ready q by (auto simp: rr_ready_def)
  have inv0: "wrr_inv k0" using inv by (simp add: k0_def)
  have q0: "active (wrr (rq k0)) = c # q" and t0: "unthrottled (xtime_nsec k0)"
    and abs0: "rr_abs k0 = rr_abs k" and nr0: "need_resched (tasks k0 c) = False"
    using q t nr by (simp_all add: k0_def rr_abs_def)
  have inv1: "wrr_inv k1" using wrr_inv_tick [OF inv0] q0 by (simp add: k1_def)
  have rot: "wrr_rotates k0 c \<longleftrightarrow> wrr_expires k0 c \<and> q \<noteq> []"
    using wrr_rotates_iff [OF inv0 _ t0, of c] q0 by (cases q) simp_all
  have step: "wrr_tick_at e t k = (if wrr_rotates k0 c then wrr_resched c k1 else k1)"
    using nr0 by (simp add: wrr_tick_at_def Let_def k0_def c_def k1_def task_tick_wrr_need_resched)
  show ?thesis
  proof (cases "wrr_rotates k0 c")
    case True
    then obtain d q' where qd: "q = d # q'" using rot by (cases q) auto
    have q1: "active (wrr (rq k1)) = d # q' @ [c]" and t1: "unthrottled (xtime_nsec k1)"
      using True q0 qd t0 wrr_invD(1) [OF inv0]
      by (auto simp: k1_def task_tick_wrr_queue list_ops)
    note R = wrr_resched_runs_head [OF inv1 q1 t1, of c]
    have qa: "active (wrr (rq (wrr_resched c k1))) = d # q' @ [c]" using q1 by (simp add: R)
    have "rr_abs (wrr_resched c k1) = rr_tick (rr_abs k0)"
      by (rule rr_abs_tick_rotates [where e = e and b = False, OF inv0 _ True qa])
        (simp_all add: q0 qd R, simp add: k1_def)
    moreover have "wrr_inv (wrr_resched c k1)"
      using inv1 by (subst wrr_inv_cong [of _ k1]) (simp_all add: R)
    moreover have "need_resched (tasks k1 p) \<Longrightarrow> p \<in> set (c # q) \<Longrightarrow> p = c" for p
      using nr by (auto simp: k1_def task_tick_wrr_need_resched k0_def)
    ultimately show ?thesis
      using True step abs0 qd q1 by (auto simp: rr_ready_def R)
  next
    case False
    have qa: "active (wrr (rq k1)) = c # q" using False q0 by (simp add: k1_def task_tick_wrr_queue)
    have "rr_abs k1 = rr_tick (rr_abs k0)"
      by (rule rr_abs_tick_stays [where e = e and b = False, OF inv0 q0 _ qa])
        (use False rot k1_def in auto)
    moreover have "curr (rq k1) = c" using False by (simp add: k1_def task_tick_wrr_queue k0_def c_def)
    moreover have "\<not> need_resched (tasks k1 p)" if "p \<in> set (c # q)" for p
      using nr [OF that] False by (simp add: k1_def task_tick_wrr_need_resched k0_def)
    ultimately show ?thesis using False step abs0 inv1 by (simp add: rr_ready_def qa)
  qed
qed

lemma wrr_run_refines:
  assumes "rr_ready k" and "\<forall>t\<in>set ts. unthrottled t"
  shows "rr_abs (wrr_ticks e ts k) = (rr_tick ^^ length ts) (rr_abs k)"
    "wrr_ran e ts k = rr_ran (length ts) (rr_abs k)" "rr_ready (wrr_ticks e ts k)"
  using assms
proof (induction ts arbitrary: k)
  case Nil
  { case 1 show ?case by simp next case 2 show ?case by simp next case 3 then show ?case by simp }
next
  case (Cons t ts)
  { case 1
    then have "rr_ready (wrr_tick_at e t k)" "rr_abs (wrr_tick_at e t k) = rr_tick (rr_abs k)"
      using wrr_tick_refines [of k t e] by auto
    then show ?case using Cons.IH(1) 1 by (simp add: funpow_swap1)
  next
    case 2
    then have r: "rr_ready (wrr_tick_at e t k)" "rr_abs (wrr_tick_at e t k) = rr_tick (rr_abs k)"
      using wrr_tick_refines [of k t e] by auto
    obtain q where q: "active (wrr (rq k)) = curr (rq k) # q"
      using 2(1) by (cases "active (wrr (rq k))") (auto simp: rr_ready_def)
    have "\<exists>x. rr_abs k = (curr (rq k), x) # tl (rr_abs k)" by (simp add: rr_abs_def q)
    then show ?case using Cons.IH(2) [OF r(1)] 2 r(2) by (auto split: list.splits)
  next
    case 3
    then show ?case using Cons.IH(3) wrr_tick_refines [of k t e] by simp
  }
qed

lemma rr_abs_slices: "wrr_inv k \<Longrightarrow> \<forall>(p, n, w)\<in>set (rr_abs k). 0 < n"
  using wrr_invD(5) [of k] by (auto simp: rr_abs_def wrr_slice_ok_def unat_gt_0 word_gt_0)

section \<open>Runs of the class\<close>

text \<open>
  Any use of the class that respects its preconditions, interleaved with steps of the rest of
  the kernel, which may change everything but the queue and the WRR entities of queued tasks.
\<close>

inductive wrr_step :: "'f env \<Rightarrow> 'f kernel \<Rightarrow> 'f kernel \<Rightarrow> bool" for e where
  enqueue: "p < PID_MAX_LIMIT \<Longrightarrow> p \<notin> set (active (wrr (rq k))) \<Longrightarrow> wrr_step e k (enqueue_task_wrr e p fl k)"
| dequeue: "p \<in> set (active (wrr (rq k))) \<Longrightarrow> wrr_step e k (dequeue_task_wrr p fl k)"
| yield: "curr (rq k) \<in> set (active (wrr (rq k))) \<Longrightarrow> wrr_step e k (yield_task_wrr k)"
| tick: "p \<in> set (active (wrr (rq k))) \<Longrightarrow> wrr_step e k (task_tick_wrr e p b k)"
| pick: "wrr_step e k (snd (pick_next_task_wrr k))"
| put_prev: "wrr_step e k (put_prev_task_wrr p k)"
| set_curr: "wrr_step e k (set_curr_task_wrr k)"
| kernel: "wrr (rq k') = wrr (rq k) \<Longrightarrow>
    (\<And>p. p \<in> set (active (wrr (rq k))) \<Longrightarrow> p_wrr (tasks k' p) = p_wrr (tasks k p)) \<Longrightarrow>
    (\<And>p. wrr_task_ok (p_wrr (tasks k' p))) \<Longrightarrow> panicked k' = panicked k \<Longrightarrow> wrr_step e k k'"

lemma wrr_inv_kernel_step:
  assumes "wrr_inv k" "wrr (rq k') = wrr (rq k)"
    "\<And>p. p \<in> set (active (wrr (rq k))) \<Longrightarrow> p_wrr (tasks k' p) = p_wrr (tasks k p)"
    "\<And>p. wrr_task_ok (p_wrr (tasks k' p))"
  shows "wrr_inv k'"
proof (rule wrr_invI)
  note D = wrr_invD [OF assms(1)]
  have "(\<Sum>y\<leftarrow>active (wrr (rq k)). weight (p_wrr (tasks k' y))) = (\<Sum>y\<leftarrow>active (wrr (rq k)). weight (p_wrr (tasks k y)))"
    using assms(3) by (intro sum_list_map_cong) auto
  then show "total_weight (wrr (rq k')) = (\<Sum>p\<leftarrow>active (wrr (rq k')). weight (p_wrr (tasks k' p)))"
    using D(4) assms(2) by simp
qed (use wrr_invD [OF assms(1)] assms in auto)

lemma pick_next_task_wrr_no_bug:
  "wrr_inv k \<Longrightarrow> panicked (snd (pick_next_task_wrr k)) = panicked k"
  using wrr_nr_running_0_iff [of k]
  by (auto simp: pick_next_task_wrr_def pick_next_wrr_entity_def set_exec_start_def Let_def
      split: list.splits)

lemma wrr_step_inv:
  assumes "wrr_step e k k'" and "wrr_inv k"
  shows "wrr_inv k' \<and> (panicked k' \<longrightarrow> panicked k)"
  using assms
proof cases
  case (tick p b)
  moreover have "time_slice (p_wrr (tasks k p)) \<noteq> 0"
    using wrr_invD(5) [OF assms(2), of p] tick by (force simp: wrr_slice_ok_def)
  ultimately show ?thesis using assms(2) by (simp add: wrr_inv_tick task_tick_wrr_panicked)
next
  case kernel
  then show ?thesis using wrr_inv_kernel_step [OF assms(2)] by blast
next
  case yield
  then show ?thesis using assms(2) by (simp add: wrr_inv_yield) (simp add: yield_task_wrr_def wrr_defs)
next
  case put_prev
  then show ?thesis using assms(2) by (simp add: wrr_inv_put_prev) (simp add: put_prev_task_wrr_def)
next
  case set_curr
  then show ?thesis
    using assms(2) by (simp add: wrr_inv_set_curr) (simp add: set_curr_task_wrr_def set_exec_start_def)
qed (use assms(2) in \<open>simp_all add: wrr_inv_enqueue wrr_inv_dequeue wrr_inv_pick
  pick_next_task_wrr_no_bug\<close>)

section \<open>Fairness\<close>

text \<open>The sum of the weights does not wrap: at most \<open>2\<^sup>2\<^sup>2\<close> tasks of weight at most 99.\<close>

lemma unat_sum_list_bound:
  assumes "\<And>x. x \<in> set xs \<Longrightarrow> unat (f x :: u32) \<le> b" and "length xs * b < 2 ^ 32"
  shows "unat (\<Sum>x\<leftarrow>xs. f x) = (\<Sum>x\<leftarrow>xs. unat (f x)) \<and> (\<Sum>x\<leftarrow>xs. unat (f x)) \<le> length xs * b"
  using assms
proof (induction xs)
  case (Cons x xs)
  then have IH: "unat (\<Sum>x\<leftarrow>xs. f x) = (\<Sum>x\<leftarrow>xs. unat (f x))" "(\<Sum>x\<leftarrow>xs. unat (f x)) \<le> length xs * b"
    and x: "unat (f x) \<le> b" by auto
  then have "unat (f x) + unat (\<Sum>x\<leftarrow>xs. f x) < 2 ^ 32" using Cons.prems(2) by simp
  then have "unat (f x + (\<Sum>x\<leftarrow>xs. f x)) = unat (f x) + unat (\<Sum>x\<leftarrow>xs. f x)"
    using unat_add_lem [of "f x" "\<Sum>x\<leftarrow>xs. f x"] by simp
  then show ?case using IH x by simp
qed simp

lemma unat_total_weight:
  assumes inv: "wrr_inv k"
  shows "unat (total_weight (wrr (rq k))) = (\<Sum>p\<leftarrow>active (wrr (rq k)). unat (weight (p_wrr (tasks k p))))"
proof -
  have "unat (weight (p_wrr (tasks k p))) \<le> 99" if "p \<in> set (active (wrr (rq k)))" for p
    using wrr_invD(5) [OF inv that] by (simp add: wrr_slice_ok_def max_weight_def word_le_nat_alt)
  moreover have "length (active (wrr (rq k))) * 99 < 2 ^ 32"
    using queue_length_bound [OF inv] by (simp add: PID_MAX_LIMIT_def)
  ultimately show ?thesis
    using unat_sum_list_bound [of "active (wrr (rq k))" "\<lambda>p. weight (p_wrr (tasks k p))" 99]
      wrr_invD(4) [OF inv] by simp
qed

text \<open>Every queued task has its whole slice, as after a round.\<close>

definition fresh_slices :: "'f kernel \<Rightarrow> bool" where
  "fresh_slices k \<longleftrightarrow> (\<forall>p\<in>set (active (wrr (rq k))). time_slice (p_wrr (tasks k p)) = weight (p_wrr (tasks k p)) * WRR_WEIGHT_UNIT)"

lemma ticks_left_fresh:
  "wrr_inv k \<Longrightarrow> fresh_slices k \<Longrightarrow> ticks_left (rr_abs k) = unat (total_weight (wrr (rq k)))"
  unfolding unat_total_weight ticks_left_def rr_abs_def fresh_slices_def
  by (simp add: o_def split_def cong: map_cong)

lemma count_rr_schedule_notin: "p \<notin> fst ` set q \<Longrightarrow> count_list (rr_schedule q) p = 0"
  by (induction q) (auto simp: rr_schedule_def count_list_0_iff)

lemma count_list_replicate_eq: "count_list (replicate m a) b = (if a = b then m else 0)"
  by (induction m) auto

lemma count_rr_schedule:
  "distinct (map fst q) \<Longrightarrow> (p, n, w) \<in> set q \<Longrightarrow> count_list (rr_schedule q) p = n"
proof (induction q)
  case (Cons x q)
  obtain a m v where x: "x = (a, m, v)" by (cases x)
  have eq: "count_list (rr_schedule (x # q)) p = (if a = p then m else 0) + count_list (rr_schedule q) p"
    by (simp add: rr_schedule_def x count_list_replicate_eq)
  have nin: "a \<notin> fst ` set q" using Cons.prems(1) x by simp
  show ?case
  proof (cases "a = p")
    case True
    then have "(p, n, w) \<notin> set q" using nin by force
    then show ?thesis using eq True Cons.prems(2) x count_rr_schedule_notin nin by simp
  next
    case False
    then show ?thesis using eq Cons x by simp
  qed
qed simp

lemma rr_round:
  assumes "rr_ready k" "\<forall>t\<in>set ts. unthrottled t" "length ts = ticks_left (rr_abs k)"
  shows "wrr_ran e ts k = rr_schedule (rr_abs k)" "rr_abs (wrr_ticks e ts k) = map refill (rr_abs k)"
    "rr_ready (wrr_ticks e ts k)"
proof -
  have pos: "\<forall>(p, n, w)\<in>set (rr_abs k). 0 < n" using assms(1) by (intro rr_abs_slices) (simp add: rr_ready_def)
  show "wrr_ran e ts k = rr_schedule (rr_abs k)"
    using wrr_run_refines(2) [OF assms(1,2)] rr_round_gen [OF pos, of "[]" 0] assms(3) by simp
  show "rr_abs (wrr_ticks e ts k) = map refill (rr_abs k)"
    using wrr_run_refines(1) [OF assms(1,2)] rr_round_gen [OF pos, of "[]" 0] assms(3) by simp
  show "rr_ready (wrr_ticks e ts k)" using wrr_run_refines(3) [OF assms(1,2)] .
qed

lemma fst_rr_abs: "map fst (rr_abs k) = active (wrr (rq k))"
  by (simp add: rr_abs_def o_def)

lemma fresh_after_round:
  assumes "rr_abs k' = map refill (rr_abs k)"
  shows "active (wrr (rq k')) = active (wrr (rq k))" "fresh_slices k'"
proof -
  have "map fst (rr_abs k') = map fst (rr_abs k)" by (simp add: assms refill_def split_def)
  then show act: "active (wrr (rq k')) = active (wrr (rq k))" by (simp add: fst_rr_abs)
  have "\<forall>x\<in>set (rr_abs k'). fst (snd x) = snd (snd x)" by (simp add: assms refill_def split_def)
  then show "fresh_slices k'" by (auto simp: rr_abs_def fresh_slices_def word_unat_eq_iff)
qed

end
