(* ===== verification/Wrr_Claims.thy ===== *)
theory Wrr_Claims
  imports Wrr_Props
begin

text \<open>
  The properties of the WRR class, and a concrete state they apply to.
\<close>

section \<open>A run queue with a foreground and a background task\<close>

definition demo_base :: "unit kernel" where
  "demo_base = boot_kernel\<lparr>tasks := (tasks boot_kernel)
     (2 := INIT_TASK\<lparr>policy := SCHED_WRR, sched_class := Wrr_Class\<rparr>,
      3 := INIT_TASK\<lparr>policy := SCHED_WRR, sched_class := Wrr_Class, sched_task_group := [7]\<rparr>)\<rparr>"

definition demo_kernel :: "unit kernel" where
  "demo_kernel = rq_update (curr_update (\<lambda>_. 2))
     (enqueue_task_wrr plain_env 3 0 (enqueue_task_wrr plain_env 2 0 demo_base))"

lemma boot_wrr_ok: "p_wrr (tasks demo_base p) = \<lparr>time_slice = 10, weight = 0, custom_weight = 0\<rparr>"
  by (simp add: demo_base_def boot_defs)

lemma wrr_inv_demo_base: "wrr_inv demo_base"
  by (simp add: wrr_inv_def boot_wrr_ok wrr_task_ok_def) (simp add: demo_base_def boot_defs)

lemma rq_demo_base: "rq demo_base = boot_rq"
  by (simp add: demo_base_def boot_kernel_def)

lemma demo_weight_fg: "wrr_weight plain_env demo_base 2 = 10"
  by (simp add: wrr_weight_def boot_wrr_ok is_background_def task_group_path_def)
    (simp add: demo_base_def boot_defs write_path_def WRR_FG_WEIGHT_def)

lemma demo_weight_bg: "wrr_weight plain_env (enqueue_task_wrr plain_env 2 0 demo_base) 3 = 1"
proof -
  let ?k = "enqueue_task_wrr plain_env 2 0 demo_base"
  have "tasks ?k 3 = tasks demo_base 3" by (simp add: tasks_enqueue_task_wrr)
  moreover have "tg_cgroup ?k = tg_cgroup demo_base"
    by (simp add: enqueue_task_wrr_def enqueue_wrr_entity_def wrr_defs Let_def inc_nr_running_def
        set_time_slice_def update_weight_def set_weight_def)
  ultimately have "is_background plain_env ?k (sched_task_group (tasks ?k 3))"
    by (simp add: is_background_def task_group_path_def)
      (simp add: demo_base_def boot_defs write_path_def)
  then show ?thesis
    using \<open>tasks ?k 3 = tasks demo_base 3\<close>
    by (simp add: wrr_weight_def boot_wrr_ok) (simp add: WRR_BG_WEIGHT_def)
qed

lemma wrr_inv_demo: "wrr_inv demo_kernel"
proof -
  have "wrr_inv (enqueue_task_wrr plain_env 3 0 (enqueue_task_wrr plain_env 2 0 demo_base))"
    by (intro wrr_inv_enqueue wrr_inv_demo_base)
      (simp_all add: PID_MAX_LIMIT_def rq_enqueue_task_wrr list_ops rq_demo_base boot_rq_def)
  then show ?thesis unfolding demo_kernel_def by (subst wrr_inv_cong) simp_all
qed

lemma demo_queue:
  "wrr (rq demo_kernel) = \<lparr>active = [2, 3], wrr_nr_running = 2, total_weight = 11\<rparr>"
  "curr (rq demo_kernel) = 2"
  by (simp_all add: demo_kernel_def rq_enqueue_task_wrr demo_weight_fg demo_weight_bg list_ops
      rq_demo_base boot_rq_def)

lemma demo_entities:
  "p_wrr (tasks demo_kernel 2) = \<lparr>time_slice = 10, weight = 10, custom_weight = 0\<rparr>"
  "p_wrr (tasks demo_kernel 3) = \<lparr>time_slice = 1, weight = 1, custom_weight = 0\<rparr>"
  by (simp_all add: demo_kernel_def tasks_enqueue_task_wrr demo_weight_fg demo_weight_bg boot_wrr_ok)

lemma demo_misc:
  "need_resched (tasks demo_kernel p) = False" "panicked demo_kernel = False"
  "xtime_nsec demo_kernel = 99"
  by (simp_all add: demo_kernel_def tasks_enqueue_task_wrr) (simp_all add: demo_base_def boot_defs)

lemmas demo_facts = demo_queue demo_entities demo_misc wrr_inv_demo

lemma demo_ready: "rr_ready demo_kernel" "fresh_slices demo_kernel"
  by (simp_all add: rr_ready_def fresh_slices_def demo_facts)

section \<open>Safety\<close>

text \<open>
  C3. However the core and the rest of the kernel drive the WRR class (any interleaving of its
  operations on queued tasks with steps that leave the queue alone), the queue stays
  consistent: no task twice, the count and the 32-bit weight sum exact, every queued task with
  a weight of 1 to 99 and an unexpired slice; and no \<^verbatim>\<open>BUG()\<close> is reached.
\<close>

theorem wrr_runs_safe:
  assumes "(wrr_step e)\<^sup>*\<^sup>* k k'" and "wrr_inv k" and "\<not> panicked k"
  shows "wrr_inv k' \<and> \<not> panicked k'"
  using assms by (induction rule: rtranclp_induct) (auto dest: wrr_step_inv)

theorem wrr_runs_safe_witness:
  "wrr_inv (yield_task_wrr (dequeue_task_wrr 3 0 demo_kernel)) \<and>
   \<not> panicked (yield_task_wrr (dequeue_task_wrr 3 0 demo_kernel))"
proof -
  let ?d = "dequeue_task_wrr 3 0 demo_kernel"
  have "wrr_step plain_env demo_kernel ?d" by (rule wrr_step.dequeue) (simp add: demo_facts)
  moreover have "wrr_step plain_env ?d (yield_task_wrr ?d)"
    by (rule wrr_step.yield) (simp add: rq_dequeue_task_wrr demo_facts)
  ultimately have "(wrr_step plain_env)\<^sup>*\<^sup>* demo_kernel (yield_task_wrr ?d)"
    by (meson converse_rtranclp_into_rtranclp r_into_rtranclp)
  then show ?thesis by (rule wrr_runs_safe) (simp_all add: demo_facts)
qed

section \<open>The round robin\<close>

text \<open>
  C2. Weighted fairness: from a state in which the first WRR task runs and all slices are
  full, over \<^verbatim>\<open>total_weight\<close> unthrottled ticks every queued task has the processor for
  exactly its weight in ticks; then the queue is the same again, with full slices, so that
  the next round is as fair. In particular no queued task starves.
\<close>

theorem wrr_round_fair:
  assumes "rr_ready k" and "fresh_slices k" and "\<forall>t\<in>set ts. unthrottled t"
    and "length ts = unat (total_weight (wrr (rq k)))"
  shows "(\<forall>p\<in>set (active (wrr (rq k))). count_list (wrr_ran e ts k) p = unat (weight (p_wrr (tasks k p)))) \<and>
    set (wrr_ran e ts k) \<subseteq> set (active (wrr (rq k))) \<and>
    active (wrr (rq (wrr_ticks e ts k))) = active (wrr (rq k)) \<and>
    rr_ready (wrr_ticks e ts k) \<and> fresh_slices (wrr_ticks e ts k)"
proof -
  have inv: "wrr_inv k" using assms(1) by (simp add: rr_ready_def)
  have "length ts = ticks_left (rr_abs k)" using ticks_left_fresh [OF inv assms(2)] assms(4) by simp
  note round = rr_round [OF assms(1,3) this, of e]
  have "count_list (wrr_ran e ts k) p = unat (weight (p_wrr (tasks k p)))"
    if "p \<in> set (active (wrr (rq k)))" for p
  proof -
    have "(p, unat (weight (p_wrr (tasks k p))), unat (weight (p_wrr (tasks k p)))) \<in> set (rr_abs k)"
      using that assms(2) by (auto simp: rr_abs_def fresh_slices_def)
    then show ?thesis
      using count_rr_schedule wrr_invD(1) [OF inv] by (simp add: round(1) fst_rr_abs)
  qed
  moreover have "set (wrr_ran e ts k) \<subseteq> set (active (wrr (rq k)))"
    by (auto simp: round(1) rr_schedule_def rr_abs_def)
  ultimately show ?thesis using fresh_after_round [OF round(2)] round(3) by blast
qed

theorem wrr_round_fair_witness:
  "count_list (wrr_ran plain_env (replicate 11 99) demo_kernel) 2 = 10 \<and>
   count_list (wrr_ran plain_env (replicate 11 99) demo_kernel) 3 = 1 \<and>
   fresh_slices (wrr_ticks plain_env (replicate 11 99) demo_kernel)"
proof -
  have len: "length (replicate 11 (99::u32)) = unat (total_weight (wrr (rq demo_kernel)))"
    by (simp add: demo_facts)
  have "\<forall>t\<in>set (replicate 11 99). unthrottled t" by (simp add: unthrottled_def)
  from wrr_round_fair [OF demo_ready this len, of plain_env] show ?thesis
    by (simp add: demo_facts)
qed

text \<open>
  The exact order: over as many unthrottled ticks as the queued tasks have left, the tasks
  run one after the other in queue order, each for the rest of its slice.
\<close>

theorem wrr_round_order:
  assumes "rr_ready k" and "\<forall>t\<in>set ts. unthrottled t"
    and "length ts = (\<Sum>p\<leftarrow>active (wrr (rq k)). unat (time_slice (p_wrr (tasks k p))))"
  shows "wrr_ran e ts k =
    concat (map (\<lambda>p. replicate (unat (time_slice (p_wrr (tasks k p)))) p) (active (wrr (rq k))))"
proof -
  have "length ts = ticks_left (rr_abs k)"
    using assms(3) by (simp add: ticks_left_def rr_abs_def o_def split_def)
  from rr_round(1) [OF assms(1,2) this] show ?thesis
    by (simp add: rr_schedule_def rr_abs_def o_def split_def)
qed

theorem wrr_round_order_witness:
  "wrr_ran plain_env (replicate 11 99) demo_kernel = replicate 10 2 @ [3]"
proof -
  have "\<forall>t\<in>set (replicate 11 99). unthrottled t" by (simp add: unthrottled_def)
  from wrr_round_order [OF demo_ready(1) this, of plain_env] show ?thesis
    by (simp add: demo_facts)
qed

section \<open>Operations\<close>

text \<open>
  Putting a task on the WRR queue and taking it off again leaves the class with the same
  tasks, the same count and the same weight sum, and the run queue with the same
  \<^verbatim>\<open>nr_running\<close>.
\<close>

theorem wrr_enqueue_dequeue:
  assumes "wrr_inv k" and "p < PID_MAX_LIMIT" and "p \<notin> set (active (wrr (rq k)))"
  shows "wrr_inv (dequeue_task_wrr p fl' (enqueue_task_wrr e p fl k)) \<and>
    wrr (rq (dequeue_task_wrr p fl' (enqueue_task_wrr e p fl k))) = wrr (rq k) \<and>
    nr_running (rq (dequeue_task_wrr p fl' (enqueue_task_wrr e p fl k))) = nr_running (rq k)"
proof -
  have adm: "wrr_admissible k p" "p \<notin> wrr_queued k"
    using assms by (simp_all add: wrr_admissible_def wrr_queued_def)
  have "wrr (rq (dequeue_task_wrr p fl' (enqueue_task_wrr e p fl k))) = wrr (rq k)"
    using assms(3)
    by (simp add: rq_dequeue_task_wrr rq_enqueue_task_wrr tasks_enqueue_task_wrr list_ops
        remove1_append)
  then show ?thesis using wrr_class.enq_deq(1,3) [OF assms(1) adm] by blast
qed

theorem wrr_enqueue_dequeue_witness:
  "wrr (rq (dequeue_task_wrr 5 0 (enqueue_task_wrr plain_env 5 0 demo_kernel))) = wrr (rq demo_kernel)"
  using wrr_enqueue_dequeue [of demo_kernel 5 0 plain_env 0] by (simp add: demo_facts PID_MAX_LIMIT_def)

text \<open>
  What enqueueing does: a task that has no custom weight gets weight 1 if the second
  character of its group's path is \<^verbatim>\<open>b\<close> and 10 otherwise, a custom weight is kept; the
  slice is refilled to the weight; the task goes to the tail, or to the head with
  \<^verbatim>\<open>ENQUEUE_HEAD\<close>; the counters grow by one and by the weight; nothing else of the task
  and no other task changes.
\<close>

theorem enqueue_task_wrr_effect:
  assumes "p \<notin> set (active (wrr (rq k)))"
  shows "let k' = enqueue_task_wrr e p fl k; q = active (wrr (rq k)); s = p_wrr (tasks k p);
      w = (if custom_weight s \<noteq> 0 then weight s
           else if wrr_group_path (task_group_path e (sched_task_group (tasks k p)) k) 1 = CHR ''b''
           then 1 else 10)
    in active (wrr (rq k')) = (if fl AND ENQUEUE_HEAD \<noteq> 0 then p # q else q @ [p]) \<and>
       tasks k' = (tasks k)(p := (tasks k p)\<lparr>p_wrr := s\<lparr>weight := w, time_slice := w\<rparr>\<rparr>) \<and>
       wrr_nr_running (wrr (rq k')) = wrr_nr_running (wrr (rq k)) + 1 \<and>
       total_weight (wrr (rq k')) = total_weight (wrr (rq k)) + w \<and>
       nr_running (rq k') = nr_running (rq k) + 1"
  using assms
  by (simp add: Let_def rq_enqueue_task_wrr tasks_enqueue_task_wrr list_ops wrr_weight_def
      is_background_def WRR_BG_WEIGHT_def WRR_FG_WEIGHT_def)

theorem enqueue_task_wrr_effect_witness:
  "active (wrr (rq (enqueue_task_wrr plain_env 5 ENQUEUE_HEAD demo_kernel))) = [5, 2, 3]"
  using enqueue_task_wrr_effect [of 5 demo_kernel plain_env ENQUEUE_HEAD]
  by (simp add: demo_facts Let_def ENQUEUE_HEAD_def)

text \<open>
  \<^verbatim>\<open>pick_next_task_wrr()\<close> on every branch: nothing when the queue is empty or the class
  is throttled; otherwise the first task of the queue, whose accounting period starts at the
  current time. It never reaches its \<^verbatim>\<open>BUG_ON\<close> and leaves the run queue as it was.
\<close>

theorem pick_next_task_wrr_spec:
  assumes "wrr_inv k"
  shows "pick_next_task_wrr k =
    (if active (wrr (rq k)) = [] \<or> wrr_throttled k then (None, k)
     else let p = hd (active (wrr (rq k)));
              t = tasks k p
          in (Some p, k\<lparr>tasks := (tasks k)(p := t\<lparr>p_se := (p_se t)\<lparr>exec_start := clock_task (rq k)\<rparr>\<rparr>)\<rparr>))"
proof -
  have "set_exec_start p k = k\<lparr>tasks := (tasks k)(p := (tasks k p)
      \<lparr>p_se := (p_se (tasks k p))\<lparr>exec_start := clock_task (rq k)\<rparr>\<rparr>)\<rparr>" for p
    by (cases k, cases "tasks k p") (simp add: set_exec_start_def)
  then show ?thesis
    using wrr_nr_running_0_iff [OF assms]
    by (cases "active (wrr (rq k))")
      (simp_all add: pick_next_task_wrr_def Let_def pick_next_wrr_entity_def)
qed

theorem pick_next_task_wrr_spec_witness: "fst (pick_next_task_wrr demo_kernel) = Some 2"
  using pick_next_task_wrr_spec [OF wrr_inv_demo] by (simp add: demo_facts wrr_throttled_def Let_def)

lemma length_filter_rotate: "length (filter P (rotate c xs)) = length (filter P xs)"
proof -
  have "length (filter P (take n xs)) + length (filter P (drop n xs)) = length (filter P xs)" for n
    by (metis append_take_drop_id filter_append length_append)
  then show ?thesis by (simp add: rotate_drop_take add.commute)
qed

lemma count_unthrottled_residues:
  "length (filter (\<lambda>i. 71 < (c + i) mod 100) [0..<100]) = 28"
proof -
  have "map (\<lambda>i. (c + i) mod 100) [0..<100] = rotate c [0..<100]"
    by (rule nth_equalityI) (simp_all add: nth_rotate)
  then have "length (filter (\<lambda>j. 71 < j) (map (\<lambda>i. (c + i) mod 100) [0..<100])) = length (filter (\<lambda>j. 71 < j) [0..<100])"
    by (simp only: length_filter_rotate)
  also have "\<dots> = 28" by code_simp
  finally show ?thesis by (simp add: filter_map o_def)
qed

text \<open>
  The share of the class: of any hundred consecutive nanosecond readings of the clock
  inside a second, 28 let WRR tasks be picked and 72 throttle the class.
\<close>

theorem wrr_throttle_share:
  assumes "b + 100 \<le> 1000000000"
  shows "length (filter (\<lambda>i. \<not> wrr_throttled (k\<lparr>xtime_nsec := of_nat (b + i)\<rparr>)) [0..<100]) = 28"
proof -
  have "\<not> wrr_throttled (k\<lparr>xtime_nsec := of_nat (b + i)\<rparr>) \<longleftrightarrow> 71 < (b mod 100 + i) mod 100" if "i < 100" for i
  proof -
    have "unat (of_nat (b + i) :: u32) = b + i" using assms that by (intro of_nat_inverse) simp_all
    then have "unat ((of_nat (b + i) :: u32) mod 100) = (b + i) mod 100" by (simp add: unat_mod)
    then show ?thesis
      by (simp add: wrr_throttled_def Let_def not_le word_less_nat_alt mod_add_left_eq)
  qed
  then have "filter (\<lambda>i. \<not> wrr_throttled (k\<lparr>xtime_nsec := of_nat (b + i)\<rparr>)) [0..<100] =
      filter (\<lambda>i. 71 < (b mod 100 + i) mod 100) [0..<100]"
    by (intro filter_cong) auto
  then show ?thesis using count_unthrottled_residues by simp
qed

theorem wrr_throttle_share_witness:
  "length (filter (\<lambda>i. \<not> wrr_throttled (boot_kernel\<lparr>xtime_nsec := of_nat (40 + i)\<rparr>)) [0..<100]) = 28"
  using wrr_throttle_share [of 40 boot_kernel] by simp

end
