(* ===== verification/Rt.thy ===== *)
theory Rt
  imports Wrr
begin

text \<open>
  The real-time scheduling class, \<^verbatim>\<open>kernel/sched/rt.c\<close>, for one processor and with
  group scheduling. \<^verbatim>\<open>tg->rt_rq[0]\<close> is \<open>rt_rqs k tg\<close>, of which \<^verbatim>\<open>rq->rt\<close> is the
  one of the root group; the entity of a group other than the root is queued on its parent
  group. Kernel warnings (\<^verbatim>\<open>WARN_ON\<close>) change nothing and are left out.
\<close>

section \<open>Entities and their queues\<close>

abbreviation upd_rt :: "tgid \<Rightarrow> (rt_rq \<Rightarrow> rt_rq) \<Rightarrow> 'f kernel \<Rightarrow> 'f kernel" where
  "upd_rt g f \<equiv> rt_rqs_update (\<lambda>rs. rs(g := f (rs g)))"

definition rt_bandwidth_enabled :: "'f kernel \<Rightarrow> bool" where
  "rt_bandwidth_enabled k = (sysctl_sched_rt_runtime k \<ge> 0)"

text \<open>\<^verbatim>\<open>tg->rt_se[0]\<close>: the root group has none.\<close>

definition tg_rt_se :: "tgid \<Rightarrow> rt_entity option" where
  "tg_rt_se tg = (case tg of [] \<Rightarrow> None | _ # _ \<Rightarrow> Some (Rt_Group tg))"

definition rt_rq_of_se :: "'f kernel \<Rightarrow> rt_entity \<Rightarrow> tgid" where
  "rt_rq_of_se k se = (case se of Rt_Task p \<Rightarrow> sched_task_group (tasks k p) | Rt_Group g \<Rightarrow> tl g)"

definition group_rt_rq :: "rt_entity \<Rightarrow> tgid option" where
  "group_rt_rq se = (case se of Rt_Task p \<Rightarrow> None | Rt_Group g \<Rightarrow> Some g)"

text \<open>The entities \<^verbatim>\<open>for_each_sched_rt_entity\<close> visits, following \<^verbatim>\<open>parent\<close>.\<close>

fun group_chain :: "tgid \<Rightarrow> rt_entity list" where
  "group_chain [] = []"
| "group_chain (x # g) = Rt_Group (x # g) # group_chain g"

definition rt_se_chain :: "'f kernel \<Rightarrow> rt_entity \<Rightarrow> rt_entity list" where
  "rt_se_chain k se =
     (case se of Rt_Task p \<Rightarrow> Rt_Task p # group_chain (sched_task_group (tasks k p))
      | Rt_Group g \<Rightarrow> group_chain g)"

definition on_rt_rq :: "'f kernel \<Rightarrow> rt_entity \<Rightarrow> bool" where
  "on_rt_rq k se =
     list_ex (\<lambda>i. se \<in> set (queue (rt_active (rt_rqs k (rt_rq_of_se k se))) i)) [0..<100]"

definition rt_se_prio :: "'f kernel \<Rightarrow> rt_entity \<Rightarrow> int" where
  "rt_se_prio k se =
     (case group_rt_rq se of Some g \<Rightarrow> highest_prio (rt_rqs k g)
      | None \<Rightarrow> (case se of Rt_Task p \<Rightarrow> prio (tasks k p) | Rt_Group g \<Rightarrow> highest_prio (rt_rqs k g)))"

text \<open>
  \<^verbatim>\<open>sched_find_first_bit()\<close> searches the bitmap, of \<^verbatim>\<open>MAX_RT_PRIO + 1\<close> bits with a
  delimiter at the end; without any bit set it would run past it.
\<close>

definition sched_find_first_bit :: "(nat \<Rightarrow> bool) \<Rightarrow> int" where
  "sched_find_first_bit b = (case find b [0..<101] of Some i \<Rightarrow> int i | None \<Rightarrow> 128)"

definition rt_rq_throttled :: "rt_rq \<Rightarrow> bool" where
  "rt_rq_throttled r = (rt_throttled r \<and> rt_nr_boosted r = 0)"

definition rt_se_boosted :: "'f kernel \<Rightarrow> rt_entity \<Rightarrow> bool" where
  "rt_se_boosted k se =
     (case se of Rt_Group g \<Rightarrow> rt_nr_boosted (rt_rqs k g) \<noteq> 0
      | Rt_Task p \<Rightarrow> prio (tasks k p) \<noteq> normal_prio (tasks k p))"

definition list_add_leaf_rt_rq :: "tgid \<Rightarrow> 'f kernel \<Rightarrow> 'f kernel" where
  "list_add_leaf_rt_rq g = leaf_rt_rq_list_update (list_add g)"

definition list_del_leaf_rt_rq :: "tgid \<Rightarrow> 'f kernel \<Rightarrow> 'f kernel" where
  "list_del_leaf_rt_rq g = leaf_rt_rq_list_update (list_del_init g)"

text \<open>
  \<^verbatim>\<open>start_bandwidth_timer()\<close> arms the timer of the high-resolution timer code, after which
  it is active.
\<close>

definition start_bandwidth_timer :: "tgid \<Rightarrow> 'f kernel \<Rightarrow> 'f kernel" where
  "start_bandwidth_timer g k =
     (if rt_period_timer_active (rt_bandwidths k g) then k
      else ext_call (Start_Bandwidth_Timer g)
        (rt_bandwidths_update (\<lambda>b. b(g := (b g)\<lparr>rt_period_timer_active := True\<rparr>)) k))"

definition start_rt_bandwidth :: "tgid \<Rightarrow> 'f kernel \<Rightarrow> 'f kernel" where
  "start_rt_bandwidth g k =
     (if \<not> rt_bandwidth_enabled k \<or> bw_rt_runtime (rt_bandwidths k g) = RUNTIME_INF then k
      else if rt_period_timer_active (rt_bandwidths k g) then k
      else start_bandwidth_timer g k)"

definition init_rt_bandwidth :: "u64 \<Rightarrow> u64 \<Rightarrow> rt_bandwidth" where
  "init_rt_bandwidth period runtime =
     \<lparr>rt_period = period, bw_rt_runtime = runtime, rt_period_timer_active = False\<rparr>"

text \<open>
  \<^verbatim>\<open>init_rt_rq()\<close>: the loop over the priorities, then the delimiter. On one processor it
  leaves \<^verbatim>\<open>highest_prio\<close> and the counters to \<^verbatim>\<open>init_tg_rt_entry()\<close> and to the zeroed
  allocation.
\<close>

definition init_rt_rq :: "rt_rq \<Rightarrow> rt_rq" where
  "init_rt_rq r =
     r\<lparr>rt_active :=
         (let a = foldl (\<lambda>a i. a\<lparr>queue := (queue a)(i := []), bitmap := (bitmap a)(i := False)\<rparr>)
                    (rt_active r) [0..<100]
          in a\<lparr>bitmap := (bitmap a)(100 := True)\<rparr>),
       rt_time := 0, rt_throttled := False, rt_runtime := 0\<rparr>"

definition init_tg_rt_entry :: "tgid \<Rightarrow> rt_rq \<Rightarrow> 'f kernel \<Rightarrow> 'f kernel" where
  "init_tg_rt_entry g r = upd_rt g (\<lambda>_. r\<lparr>highest_prio := MAX_RT_PRIO, rt_nr_boosted := 0\<rparr>)"

definition zero_rt_rq :: rt_rq where
  "zero_rt_rq =
     \<lparr>rt_active = \<lparr>bitmap = (\<lambda>_. False), queue = (\<lambda>_. [])\<rparr>, rt_nr_running = 0,
      highest_prio = 0, rt_throttled = False, rt_time = 0, rt_runtime = 0, rt_nr_boosted = 0\<rparr>"

text \<open>
  \<^verbatim>\<open>alloc_rt_sched_group()\<close>, which fails when one of the four allocations does
  (\<open>oom\<close> is the number of the first that does, if any). The bandwidth is initialised before the
  third.
\<close>

definition alloc_rt_sched_group :: "nat option \<Rightarrow> tgid \<Rightarrow> 'f kernel \<Rightarrow> bool \<times> 'f kernel" where
  "alloc_rt_sched_group oom g k =
     (if oom = Some 1 \<or> oom = Some 2 then (False, k)
      else
        let k1 = rt_bandwidths_update
                   (\<lambda>b. b(g := init_rt_bandwidth (rt_period (def_rt_bandwidth k)) 0)) k
        in if oom = Some 3 \<or> oom = Some 4 then (False, k1)
           else (True, init_tg_rt_entry g
                   ((init_rt_rq zero_rt_rq)\<lparr>rt_runtime := bw_rt_runtime (rt_bandwidths k1 g)\<rparr>) k1))"

section \<open>Putting entities on and off their queues\<close>

definition inc_rt_prio :: "int \<Rightarrow> rt_rq \<Rightarrow> rt_rq" where
  "inc_rt_prio pr r = (if pr < highest_prio r then r\<lparr>highest_prio := pr\<rparr> else r)"

definition dec_rt_prio :: "int \<Rightarrow> rt_rq \<Rightarrow> rt_rq" where
  "dec_rt_prio pr r =
     (if rt_nr_running r \<noteq> 0
      then (if pr = highest_prio r
            then r\<lparr>highest_prio := sched_find_first_bit (bitmap (rt_active r))\<rparr> else r)
      else r\<lparr>highest_prio := MAX_RT_PRIO\<rparr>)"

definition inc_rt_group :: "rt_entity \<Rightarrow> tgid \<Rightarrow> 'f kernel \<Rightarrow> 'f kernel" where
  "inc_rt_group se g k =
     start_rt_bandwidth g
       (if rt_se_boosted k se then upd_rt g (rt_nr_boosted_update (\<lambda>n. n + 1)) k else k)"

definition dec_rt_group :: "rt_entity \<Rightarrow> tgid \<Rightarrow> 'f kernel \<Rightarrow> 'f kernel" where
  "dec_rt_group se g k =
     (if rt_se_boosted k se then upd_rt g (rt_nr_boosted_update (\<lambda>n. n - 1)) k else k)"

definition inc_rt_tasks :: "rt_entity \<Rightarrow> tgid \<Rightarrow> 'f kernel \<Rightarrow> 'f kernel" where
  "inc_rt_tasks se g k =
     (let pr = rt_se_prio k se;
          k1 = upd_rt g (rt_nr_running_update (\<lambda>n. n + 1)) k;
          k2 = upd_rt g (inc_rt_prio pr) k1
      in inc_rt_group se g k2)"

definition dec_rt_tasks :: "rt_entity \<Rightarrow> tgid \<Rightarrow> 'f kernel \<Rightarrow> 'f kernel" where
  "dec_rt_tasks se g k =
     (let k1 = upd_rt g (rt_nr_running_update (\<lambda>n. n - 1)) k;
          k2 = upd_rt g (dec_rt_prio (rt_se_prio k1 se)) k1
      in dec_rt_group se g k2)"

text \<open>
  \<^verbatim>\<open>__enqueue_rt_entity()\<close> and \<^verbatim>\<open>__dequeue_rt_entity()\<close>; unlinking takes the
  entity out of whatever queue of its run queue it is in.
\<close>

definition upd_queue :: "tgid \<Rightarrow> nat \<Rightarrow> (rt_entity list \<Rightarrow> rt_entity list) \<Rightarrow> 'f kernel \<Rightarrow> 'f kernel" where
  "upd_queue g i f = upd_rt g (rt_active_update (queue_update (\<lambda>qs. qs(i := f (qs i)))))"

definition upd_bit :: "tgid \<Rightarrow> nat \<Rightarrow> bool \<Rightarrow> 'f kernel \<Rightarrow> 'f kernel" where
  "upd_bit g i b = upd_rt g (rt_active_update (bitmap_update (\<lambda>bs. bs(i := b))))"

definition unlink_rt :: "rt_entity \<Rightarrow> tgid \<Rightarrow> 'f kernel \<Rightarrow> 'f kernel" where
  "unlink_rt se g = upd_rt g (rt_active_update (queue_update (\<lambda>qs i. list_del_init se (qs i))))"

definition enqueue_rt_entity1 :: "rt_entity \<Rightarrow> bool \<Rightarrow> 'f kernel \<Rightarrow> 'f kernel" where
  "enqueue_rt_entity1 se head k =
     (let g = rt_rq_of_se k se;
          i = nat (rt_se_prio k se)
      in if (case group_rt_rq se of
               Some h \<Rightarrow> rt_rq_throttled (rt_rqs k h) \<or> rt_nr_running (rt_rqs k h) = 0
             | None \<Rightarrow> False)
         then k
         else
           let k1 = (if rt_nr_running (rt_rqs k g) = 0 then list_add_leaf_rt_rq g k else k);
               k2 = upd_queue g i (if head then list_add se else list_add_tail se) k1;
               k3 = upd_bit g i True k2
           in inc_rt_tasks se g k3)"

definition dequeue_rt_entity1 :: "rt_entity \<Rightarrow> 'f kernel \<Rightarrow> 'f kernel" where
  "dequeue_rt_entity1 se k =
     (let g = rt_rq_of_se k se;
          k1 = unlink_rt se g k;
          i = nat (rt_se_prio k1 se);
          k2 = (if queue (rt_active (rt_rqs k1 g)) i = [] then upd_bit g i False k1 else k1);
          k3 = dec_rt_tasks se g k2
      in if rt_nr_running (rt_rqs k3 g) = 0 then list_del_leaf_rt_rq g k3 else k3)"

text \<open>
  \<^verbatim>\<open>dequeue_rt_stack()\<close> links the chain backwards and walks it from the top.
\<close>

definition dequeue_rt_stack :: "rt_entity \<Rightarrow> 'f kernel \<Rightarrow> 'f kernel" where
  "dequeue_rt_stack se k =
     fold (\<lambda>s k. if on_rt_rq k s then dequeue_rt_entity1 s k else k) (rev (rt_se_chain k se)) k"

definition enqueue_rt_entity :: "rt_entity \<Rightarrow> bool \<Rightarrow> 'f kernel \<Rightarrow> 'f kernel" where
  "enqueue_rt_entity se head k =
     fold (\<lambda>s. enqueue_rt_entity1 s head) (rt_se_chain k se) (dequeue_rt_stack se k)"

definition dequeue_rt_entity :: "rt_entity \<Rightarrow> 'f kernel \<Rightarrow> 'f kernel" where
  "dequeue_rt_entity se k =
     fold (\<lambda>s k. case group_rt_rq s of
              Some g \<Rightarrow> if rt_nr_running (rt_rqs k g) \<noteq> 0 then enqueue_rt_entity1 s False k else k
            | None \<Rightarrow> k)
       (rt_se_chain k se) (dequeue_rt_stack se k)"

definition sched_rt_rq_enqueue :: "tgid \<Rightarrow> 'f kernel \<Rightarrow> 'f kernel" where
  "sched_rt_rq_enqueue g k =
     (if rt_nr_running (rt_rqs k g) \<noteq> 0 then
        let k1 = (case tg_rt_se g of
                    Some se \<Rightarrow> if \<not> on_rt_rq k se then enqueue_rt_entity se False k else k
                  | None \<Rightarrow> k)
        in if highest_prio (rt_rqs k1 g) < prio (curr_task k1)
           then resched_task (curr (rq k1)) k1 else k1
      else k)"

definition sched_rt_rq_dequeue :: "tgid \<Rightarrow> 'f kernel \<Rightarrow> 'f kernel" where
  "sched_rt_rq_dequeue g k =
     (case tg_rt_se g of
        Some se \<Rightarrow> if on_rt_rq k se then dequeue_rt_entity se k else k
      | None \<Rightarrow> k)"

section \<open>Run time and throttling\<close>

text \<open>On one processor \<^verbatim>\<open>balance_runtime()\<close> does nothing.\<close>

definition sched_rt_runtime :: "'f kernel \<Rightarrow> tgid \<Rightarrow> u64" where
  "sched_rt_runtime k g = rt_runtime (rt_rqs k g)"

definition sched_rt_period :: "'f kernel \<Rightarrow> tgid \<Rightarrow> u64" where
  "sched_rt_period k g = rt_period (rt_bandwidths k g)"

definition balance_runtime_up :: "tgid \<Rightarrow> 'f kernel \<Rightarrow> 'f kernel" where
  "balance_runtime_up g k = k"

definition sched_rt_runtime_exceeded :: "tgid \<Rightarrow> 'f kernel \<Rightarrow> bool \<times> 'f kernel" where
  "sched_rt_runtime_exceeded g k =
     (let runtime = sched_rt_runtime k g
      in if rt_throttled (rt_rqs k g) then (rt_rq_throttled (rt_rqs k g), k)
         else if runtime \<ge> sched_rt_period k g then (False, k)
         else
           let k1 = balance_runtime_up g k;
               runtime = sched_rt_runtime k1 g
           in if runtime = RUNTIME_INF then (False, k1)
              else if rt_time (rt_rqs k1 g) > runtime then
                let k2 = (if bw_rt_runtime (rt_bandwidths k1 g) \<noteq> 0
                          then upd_rt g (rt_throttled_update (\<lambda>_. True)) k1
                          else upd_rt g (rt_time_update (\<lambda>_. 0)) k1)
                in if rt_rq_throttled (rt_rqs k2 g) then (True, sched_rt_rq_dequeue g k2)
                   else (False, k2)
              else (False, k1))"

definition charge_rt_rq :: "u64 \<Rightarrow> tgid \<Rightarrow> 'f kernel \<Rightarrow> 'f kernel" where
  "charge_rt_rq d g k =
     (if sched_rt_runtime k g \<noteq> RUNTIME_INF then
        let k1 = upd_rt g (rt_time_update (\<lambda>t. t + d)) k;
            (exceeded, k2) = sched_rt_runtime_exceeded g k1
        in if exceeded then resched_task (curr (rq k2)) k2 else k2
      else k)"

definition update_curr_rt :: "'f kernel \<Rightarrow> 'f kernel" where
  "update_curr_rt k =
     (if sched_class (curr_task k) \<noteq> Rt_Class then k
      else
        let d = delta_exec k;
            k1 = charge_curr d k
        in if \<not> rt_bandwidth_enabled k1 then k1
           else fold (\<lambda>s k. charge_rt_rq d (rt_rq_of_se k s) k) (rt_se_chain k1 (Rt_Task (curr (rq k1)))) k1)"

text \<open>
  \<^verbatim>\<open>do_sched_rt_period_timer()\<close> for the bandwidth of group \<open>g\<close>, on the one processor;
  \<^verbatim>\<open>overrun*runtime\<close> wraps at 64 bits. First what it does when the group has used run time,
  with the flag \<^verbatim>\<open>enqueue\<close>; then the whole, which returns whether the timer may go idle.
\<close>

definition rt_period_replenish :: "tgid \<Rightarrow> u64 \<Rightarrow> 'f kernel \<Rightarrow> bool \<times> 'f kernel" where
  "rt_period_replenish g overrun k =
     (let k1 = (if rt_throttled (rt_rqs k g) then balance_runtime_up g k else k);
          runtime = rt_runtime (rt_rqs k1 g);
          k2 = upd_rt g (rt_time_update (\<lambda>t. t - min t (overrun * runtime))) k1
      in if rt_throttled (rt_rqs k2 g) \<and> rt_time (rt_rqs k2 g) < runtime then
           let k3 = upd_rt g (rt_throttled_update (\<lambda>_. False)) k2
           in (True, if rt_nr_running (rt_rqs k3 g) \<noteq> 0 \<and> curr (rq k3) = idle (rq k3)
                     then rq_update (skip_clock_update_update (\<lambda>_. - 1)) k3 else k3)
         else (False, k2))"

definition do_sched_rt_period_timer :: "tgid \<Rightarrow> u64 \<Rightarrow> 'f kernel \<Rightarrow> bool \<times> 'f kernel" where
  "do_sched_rt_period_timer g overrun k =
     (let (enqueue, k1) =
            (if rt_time (rt_rqs k g) \<noteq> 0 then rt_period_replenish g overrun k
             else (rt_nr_running (rt_rqs k g) \<noteq> 0 \<and> \<not> rt_rq_throttled (rt_rqs k g), k));
          idl = (rt_time (rt_rqs k1 g) = 0 \<and> rt_nr_running (rt_rqs k1 g) = 0);
          throttled = rt_throttled (rt_rqs k1 g);
          k2 = (if enqueue then sched_rt_rq_enqueue g k1 else k1)
      in if \<not> throttled \<and> (\<not> rt_bandwidth_enabled k2 \<or> bw_rt_runtime (rt_bandwidths k2 g) = RUNTIME_INF)
         then (True, k2) else (idl, k2))"

text \<open>
  \<^verbatim>\<open>sched_rt_period_timer()\<close>: \<open>overruns\<close> are the values \<^verbatim>\<open>hrtimer_forward()\<close>
  returns, up to the first zero. The result says whether the timer is restarted.
\<close>

fun sched_rt_period_timer :: "tgid \<Rightarrow> u64 list \<Rightarrow> bool \<Rightarrow> 'f kernel \<Rightarrow> bool \<times> 'f kernel" where
  "sched_rt_period_timer g [] idl k =
     (\<not> idl, rt_bandwidths_update (\<lambda>b. b(g := (b g)\<lparr>rt_period_timer_active := \<not> idl\<rparr>)) k)"
| "sched_rt_period_timer g (n # ns) idl k =
     (if n = 0 then sched_rt_period_timer g [] idl k
      else let (idl', k') = do_sched_rt_period_timer g n k in sched_rt_period_timer g ns idl' k')"

section \<open>Operations of the class\<close>

definition enqueue_task_rt :: "tid \<Rightarrow> u32 \<Rightarrow> 'f kernel \<Rightarrow> 'f kernel" where
  "enqueue_task_rt p flags k =
     (let k1 = (if flags AND ENQUEUE_WAKEUP \<noteq> 0
                then upd_task p (p_rt_update (timeout_update (\<lambda>_. 0))) k else k)
      in inc_nr_running (enqueue_rt_entity (Rt_Task p) (flags AND ENQUEUE_HEAD \<noteq> 0) k1))"

definition dequeue_task_rt :: "tid \<Rightarrow> u32 \<Rightarrow> 'f kernel \<Rightarrow> 'f kernel" where
  "dequeue_task_rt p flags k = dec_nr_running (dequeue_rt_entity (Rt_Task p) (update_curr_rt k))"

definition requeue_rt_entity :: "tgid \<Rightarrow> rt_entity \<Rightarrow> bool \<Rightarrow> 'f kernel \<Rightarrow> 'f kernel" where
  "requeue_rt_entity g se head k =
     (if on_rt_rq k se then
        upd_queue g (nat (rt_se_prio k se)) (if head then list_add se else list_add_tail se)
          (unlink_rt se g k)
      else k)"

definition requeue_task_rt :: "tid \<Rightarrow> bool \<Rightarrow> 'f kernel \<Rightarrow> 'f kernel" where
  "requeue_task_rt p head k =
     fold (\<lambda>s k. requeue_rt_entity (rt_rq_of_se k s) s head k) (rt_se_chain k (Rt_Task p)) k"

definition yield_task_rt :: "'f kernel \<Rightarrow> 'f kernel" where
  "yield_task_rt k = requeue_task_rt (curr (rq k)) False k"

definition check_preempt_curr_rt :: "tid \<Rightarrow> u32 \<Rightarrow> 'f kernel \<Rightarrow> 'f kernel" where
  "check_preempt_curr_rt p flags k =
     (if prio (tasks k p) < prio (curr_task k) then resched_task (curr (rq k)) k else k)"

text \<open>
  \<^verbatim>\<open>pick_next_rt_entity()\<close> is \<open>None\<close> where \<^verbatim>\<open>BUG_ON\<close> stops it or the queue of the
  marked priority is empty and its first node is no entity. The descent through the groups
  ends at a task; \<open>None\<close> of the outer option is a descent that never ends.
\<close>

definition pick_next_rt_entity :: "rt_rq \<Rightarrow> rt_entity option" where
  "pick_next_rt_entity r =
     (let idx = sched_find_first_bit (bitmap (rt_active r))
      in if idx \<ge> MAX_RT_PRIO then None
         else case queue (rt_active r) (nat idx) of [] \<Rightarrow> None | se # _ \<Rightarrow> Some se)"

partial_function (option) pick_rt_descend :: "(tgid \<Rightarrow> rt_rq) \<Rightarrow> tgid \<Rightarrow> tid option option" where
  "pick_rt_descend rs g =
     (case pick_next_rt_entity (rs g) of
        None \<Rightarrow> Some None
      | Some (Rt_Task p) \<Rightarrow> Some (Some p)
      | Some (Rt_Group h) \<Rightarrow> pick_rt_descend rs h)"

declare pick_rt_descend.simps [code]

definition pick_next_task_rt :: "'f kernel \<Rightarrow> tid option \<times> 'f kernel" where
  "pick_next_task_rt k =
     (if rt_nr_running (rt_rqs k []) = 0 then (None, k)
      else if rt_rq_throttled (rt_rqs k []) then (None, k)
      else case pick_rt_descend (rt_rqs k) [] of
             Some (Some p) \<Rightarrow> (Some p, set_exec_start p k)
           | _ \<Rightarrow> (None, BUG k))"

definition put_prev_task_rt :: "tid \<Rightarrow> 'f kernel \<Rightarrow> 'f kernel" where
  "put_prev_task_rt p k = update_curr_rt k"

definition switched_to_rt :: "tid \<Rightarrow> 'f kernel \<Rightarrow> 'f kernel" where
  "switched_to_rt p k =
     (if on_rq (tasks k p) \<and> curr (rq k) \<noteq> p then
        if prio (tasks k p) < prio (curr_task k) then resched_task (curr (rq k)) k else k
      else k)"

definition prio_changed_rt :: "tid \<Rightarrow> int \<Rightarrow> 'f kernel \<Rightarrow> 'f kernel" where
  "prio_changed_rt p oldprio k =
     (if \<not> on_rq (tasks k p) then k
      else if curr (rq k) = p then
        if oldprio < prio (tasks k p) then resched_task p k else k
      else if prio (tasks k p) < prio (curr_task k) then resched_task (curr (rq k)) k else k)"

definition watchdog_rt :: "'f env \<Rightarrow> tid \<Rightarrow> 'f kernel \<Rightarrow> 'f kernel" where
  "watchdog_rt e p k =
     (let (soft, hard) = rlimit_rttime e p
      in if soft \<noteq> - 1 then
           let k1 = upd_task p (p_rt_update (timeout_update (\<lambda>t. t + 1))) k;
               usecs = (1000000 div HZ :: ulong);
               nxt = (min soft hard + usecs - 1) div usecs
           in if timeout (p_rt (tasks k1 p)) > nxt
              then upd_task p (\<lambda>t. t\<lparr>sched_exp := sum_exec_runtime (p_se t)\<rparr>) k1 else k1
         else k)"

text \<open>Whether \<^verbatim>\<open>run_list.prev != run_list.next\<close> for an entity of the real-time class.\<close>

definition rt_not_alone :: "'f kernel \<Rightarrow> rt_entity \<Rightarrow> bool" where
  "rt_not_alone k se =
     list_ex (\<lambda>i. let q = queue (rt_active (rt_rqs k (rt_rq_of_se k se))) i
                  in se \<in> set q \<and> node_prev se q \<noteq> node_next se q) [0..<100]"

definition task_tick_rt :: "'f env \<Rightarrow> tid \<Rightarrow> bool \<Rightarrow> 'f kernel \<Rightarrow> 'f kernel" where
  "task_tick_rt e p queued k =
     (let k1 = watchdog_rt e p (update_curr_rt k)
      in if policy (tasks k1 p) \<noteq> SCHED_RR then k1
         else
           let n = rt_time_slice (p_rt (tasks k1 p)) - 1;
               k2 = upd_task p (p_rt_update (rt_time_slice_update (\<lambda>_. n))) k1
           in if n \<noteq> 0 then k2
              else
                let k3 = upd_task p (p_rt_update (rt_time_slice_update (\<lambda>_. RR_TIMESLICE))) k2
                in if list_ex (rt_not_alone k3) (rt_se_chain k3 (Rt_Task p))
                   then set_tsk_need_resched p (requeue_task_rt p False k3)
                   else k3)"

definition set_curr_task_rt :: "'f kernel \<Rightarrow> 'f kernel" where
  "set_curr_task_rt k = set_exec_start (curr (rq k)) k"

definition get_rr_interval_rt :: "'f kernel \<Rightarrow> tid \<Rightarrow> u32" where
  "get_rr_interval_rt k p = (if policy (tasks k p) = SCHED_RR then RR_TIMESLICE else 0)"

definition rt_sched_class :: "'f env \<Rightarrow> 'f sched_class_ops" where
  "rt_sched_class e =
     \<lparr>next_class = Some Wrr_Class,
      enqueue_task_op = enqueue_task_rt,
      dequeue_task_op = dequeue_task_rt,
      yield_task_op = yield_task_rt,
      yield_to_task_op = None,
      check_preempt_curr_op = check_preempt_curr_rt,
      pick_next_task_op = pick_next_task_rt,
      put_prev_task_op = put_prev_task_rt,
      set_curr_task_op = set_curr_task_rt,
      task_tick_op = task_tick_rt e,
      task_fork_op = None,
      switched_from_op = None,
      switched_to_op = switched_to_rt,
      prio_changed_op = prio_changed_rt,
      get_rr_interval_op = get_rr_interval_rt,
      task_move_group_op = None\<rparr>"

end
