(* ===== verification/Rt_Inv.thy ===== *)
theory Rt_Inv
  imports Rt Wrr_Inv
begin

text \<open>
  The invariant of the real-time class: every run queue of every group is a correct priority
  array, and the entity of a group is queued on its parent exactly when the group has work and
  is not throttled.
\<close>

section \<open>One priority array\<close>

definition rt_count :: "rt_rq \<Rightarrow> nat" where
  "rt_count r = (\<Sum>i<100. length (queue (rt_active r) i))"

definition rt_ents :: "rt_rq \<Rightarrow> rt_entity set" where
  "rt_ents r = (\<Union>i<100. set (queue (rt_active r) i))"

text \<open>
  \<open>pr\<close> is the priority of an entity and \<open>ok\<close> says which entities belong on this queue.
\<close>

definition rq_wf :: "(rt_entity \<Rightarrow> int) \<Rightarrow> (rt_entity \<Rightarrow> bool) \<Rightarrow> rt_rq \<Rightarrow> bool" where
  "rq_wf pr ok r \<longleftrightarrow>
     bitmap (rt_active r) 100 \<and>
     (\<forall>i<100. bitmap (rt_active r) i = (queue (rt_active r) i \<noteq> [])) \<and>
     (\<forall>i<100. distinct (queue (rt_active r) i)) \<and>
     (\<forall>i<100. \<forall>s\<in>set (queue (rt_active r) i). pr s = int i \<and> ok s) \<and>
     rt_nr_running r = of_nat (rt_count r) \<and>
     highest_prio r = sched_find_first_bit (bitmap (rt_active r))"

lemma rq_wfD:
  assumes "rq_wf pr ok r"
  shows "bitmap (rt_active r) 100"
    "i < 100 \<Longrightarrow> bitmap (rt_active r) i = (queue (rt_active r) i \<noteq> [])"
    "i < 100 \<Longrightarrow> distinct (queue (rt_active r) i)"
    "i < 100 \<Longrightarrow> s \<in> set (queue (rt_active r) i) \<Longrightarrow> pr s = int i"
    "i < 100 \<Longrightarrow> s \<in> set (queue (rt_active r) i) \<Longrightarrow> ok s"
    "rt_nr_running r = of_nat (rt_count r)"
    "highest_prio r = sched_find_first_bit (bitmap (rt_active r))"
  using assms by (auto simp: rq_wf_def)

lemma rq_wfI:
  assumes "bitmap (rt_active r) 100"
    "\<And>i. i < 100 \<Longrightarrow> bitmap (rt_active r) i = (queue (rt_active r) i \<noteq> [])"
    "\<And>i. i < 100 \<Longrightarrow> distinct (queue (rt_active r) i)"
    "\<And>i s. i < 100 \<Longrightarrow> s \<in> set (queue (rt_active r) i) \<Longrightarrow> pr s = int i \<and> ok s"
    "rt_nr_running r = of_nat (rt_count r)"
    "highest_prio r = sched_find_first_bit (bitmap (rt_active r))"
  shows "rq_wf pr ok r"
  using assms by (simp add: rq_wf_def)

lemma sched_find_first_bit_eq:
  assumes "b 100"
  shows "sched_find_first_bit b = int n \<longleftrightarrow> n \<le> 100 \<and> b n \<and> (\<forall>j<n. \<not> b j)"
proof -
  obtain m where m: "find b [0..<101] = Some m"
    using assms by (cases "find b [0..<101]") (auto simp: find_None_iff)
  then have "m < 101 \<and> b m \<and> (\<forall>j<m. \<not> b j)"
    by (auto simp: find_Some_iff simp del: upt_Suc)
  moreover from this have "n \<le> 100 \<and> b n \<and> (\<forall>j<n. \<not> b j) \<longleftrightarrow> m = n"
    by (metis linorder_neqE_nat less_Suc_eq_le eval_nat_numeral(3) One_nat_def numeral_2_eq_2)
  ultimately show ?thesis by (simp add: sched_find_first_bit_def m)
qed

lemma first_bit_exists: "b 100 \<Longrightarrow> \<exists>n\<le>100. sched_find_first_bit b = int n \<and> b n \<and> (\<forall>j<n. \<not> b j)"
proof -
  assume b: "b 100"
  then obtain m where "find b [0..<101] = Some m"
    by (cases "find b [0..<101]") (auto simp: find_None_iff)
  then have "sched_find_first_bit b = int m" by (simp add: sched_find_first_bit_def)
  then show ?thesis using sched_find_first_bit_eq [of b, OF b, of m] by blast
qed

lemma rt_ents_iff:
  assumes "rq_wf pr ok r"
  shows "s \<in> rt_ents r \<longleftrightarrow> 0 \<le> pr s \<and> pr s < 100 \<and> s \<in> set (queue (rt_active r) (nat (pr s)))"
  using rq_wfD(4) [OF assms] by (force simp: rt_ents_def)

lemma rt_count_card:
  assumes "rq_wf pr ok r"
  shows "rt_count r = card (rt_ents r)"
proof -
  have "card (rt_ents r) = (\<Sum>i<100. card (set (queue (rt_active r) i)))"
    unfolding rt_ents_def
  proof (rule card_UN_disjoint)
    show "\<forall>i\<in>{..<100}. \<forall>j\<in>{..<100}. i \<noteq> j \<longrightarrow> set (queue (rt_active r) i) \<inter> set (queue (rt_active r) j) = {}"
      using rq_wfD(4) [OF assms] by (metis disjoint_iff lessThan_iff of_nat_eq_iff)
  qed auto
  also have "\<dots> = rt_count r"
    unfolding rt_count_def using rq_wfD(3) [OF assms] by (intro sum.cong) (auto simp: distinct_card)
  finally show ?thesis by simp
qed

lemma finite_rt_ents [simp]: "finite (rt_ents r)"
  by (simp add: rt_ents_def)

text \<open>The counter does not wrap when fewer than \<open>2\<^sup>3\<^sup>2\<close> entities belong on the queue.\<close>

definition few :: "(rt_entity \<Rightarrow> bool) \<Rightarrow> bool" where
  "few ok \<longleftrightarrow> finite {s. ok s} \<and> card {s. ok s} < 2 ^ 32"

lemma nr_running_0_iff:
  assumes wf: "rq_wf pr ok r" and few: "few ok"
  shows "rt_nr_running r = 0 \<longleftrightarrow> rt_ents r = {}"
proof -
  have "rt_ents r \<subseteq> {s. ok s}" using rq_wfD(5) [OF wf] by (auto simp: rt_ents_def)
  then have "card (rt_ents r) < 2 ^ 32"
    using few card_mono [of "{s. ok s}" "rt_ents r"] by (simp add: few_def)
  moreover have "rt_nr_running r = of_nat (card (rt_ents r))"
    using rq_wfD(6) [OF wf] rt_count_card [OF wf] by simp
  ultimately have "rt_nr_running r = 0 \<longleftrightarrow> card (rt_ents r) = 0"
    using of_nat_word32_inj [of "card (rt_ents r)" 0] by auto
  then show ?thesis by (simp add: card_eq_0_iff)
qed

lemma highest_prio_range:
  assumes wf: "rq_wf pr ok r"
  shows "0 \<le> highest_prio r" "highest_prio r \<le> 100" "highest_prio r = 100 \<longleftrightarrow> rt_ents r = {}"
    "s \<in> rt_ents r \<Longrightarrow> highest_prio r \<le> pr s"
proof -
  obtain n where n: "n \<le> 100" "highest_prio r = int n" "bitmap (rt_active r) n" "\<forall>j<n. \<not> bitmap (rt_active r) j"
    using first_bit_exists [of "bitmap (rt_active r)", OF rq_wfD(1) [OF wf]] rq_wfD(7) [OF wf] by auto
  show "0 \<le> highest_prio r" "highest_prio r \<le> 100" using n by auto
  have j: "j < n \<Longrightarrow> queue (rt_active r) j = []" for j using n rq_wfD(2) [OF wf, of j] by auto
  show "highest_prio r = 100 \<longleftrightarrow> rt_ents r = {}"
  proof (cases "n = 100")
    case True
    then show ?thesis using j n by (auto simp: rt_ents_def)
  next
    case False
    then have "queue (rt_active r) n \<noteq> []" using n rq_wfD(2) [OF wf, of n] by auto
    then show ?thesis using False n by (auto simp: rt_ents_def)
  qed
  show "highest_prio r \<le> pr s" if s: "s \<in> rt_ents r"
  proof -
    have "s \<in> set (queue (rt_active r) (nat (pr s)))" "0 \<le> pr s" using rt_ents_iff [OF wf] s by auto
    then show ?thesis using j [of "nat (pr s)"] n by (cases "nat (pr s) < n") auto
  qed
qed

section \<open>Adding and removing an entity\<close>

definition rq_add :: "rt_entity \<Rightarrow> nat \<Rightarrow> bool \<Rightarrow> bool \<Rightarrow> rt_rq \<Rightarrow> rt_rq" where
  "rq_add s i head b r =
     r\<lparr>rt_active := \<lparr>bitmap = (bitmap (rt_active r))(i := True),
          queue = (queue (rt_active r))(i := (if head then s # queue (rt_active r) i
                                             else queue (rt_active r) i @ [s]))\<rparr>,
       rt_nr_running := rt_nr_running r + 1,
       highest_prio := min (highest_prio r) (int i),
       rt_nr_boosted := rt_nr_boosted r + (if b then 1 else 0)\<rparr>"

definition rq_del :: "rt_entity \<Rightarrow> nat \<Rightarrow> bool \<Rightarrow> rt_rq \<Rightarrow> rt_rq" where
  "rq_del s i b r =
     (let a = \<lparr>bitmap = (if remove1 s (queue (rt_active r) i) = [] then (bitmap (rt_active r))(i := False)
                        else bitmap (rt_active r)),
               queue = (\<lambda>j. remove1 s (queue (rt_active r) j))\<rparr>
      in r\<lparr>rt_active := a, rt_nr_running := rt_nr_running r - 1,
           highest_prio := (if rt_nr_running r - 1 = 0 then MAX_RT_PRIO
                            else if int i = highest_prio r then sched_find_first_bit (bitmap a)
                            else highest_prio r),
           rt_nr_boosted := rt_nr_boosted r - (if b then 1 else 0)\<rparr>)"

lemma rt_count_upd:
  assumes "i < 100" and "\<And>j. j < 100 \<Longrightarrow> j \<noteq> i \<Longrightarrow> length (queue (rt_active r') j) = length (queue (rt_active r) j)"
  shows "int (rt_count r') = int (rt_count r) - int (length (queue (rt_active r) i)) + int (length (queue (rt_active r') i))"
proof -
  have "rt_count x = length (queue (rt_active x) i) + (\<Sum>j\<in>{..<100} - {i}. length (queue (rt_active x) j))" for x
    unfolding rt_count_def using assms(1) by (intro sum.remove) auto
  moreover have "(\<Sum>j\<in>{..<100} - {i}. length (queue (rt_active r') j)) = (\<Sum>j\<in>{..<100} - {i}. length (queue (rt_active r) j))"
    using assms(2) by (intro sum.cong) auto
  ultimately show ?thesis by simp
qed

lemma rt_ents_add: "i < 100 \<Longrightarrow> rt_ents (rq_add s i head b r) = insert s (rt_ents r)"
  by (auto simp: rt_ents_def rq_add_def split: if_splits)

lemma first_bit_set:
  assumes "b 100" and "i < 100"
  shows "sched_find_first_bit (b(i := True)) = min (sched_find_first_bit b) (int i)"
proof -
  obtain n where n: "n \<le> 100" "sched_find_first_bit b = int n" "b n" "\<forall>j<n. \<not> b j"
    using first_bit_exists [of b, OF assms(1)] by auto
  have "sched_find_first_bit (b(i := True)) = int (min n i)"
    using n assms by (subst sched_find_first_bit_eq) (auto simp: min_def)
  then show ?thesis using n by simp
qed

lemma rq_wf_add:
  assumes wf: "rq_wf pr ok r" and s: "s \<notin> rt_ents r" and i: "pr s = int i" "i < 100" and ok: "ok s"
  shows "rq_wf pr ok (rq_add s i head b r)"
proof -
  let ?r = "rq_add s i head b r"
  have q: "queue (rt_active ?r) j = (if j = i then (if head then s # queue (rt_active r) i
      else queue (rt_active r) i @ [s]) else queue (rt_active r) j)" for j
    by (simp add: rq_add_def)
  have bm: "bitmap (rt_active ?r) = (bitmap (rt_active r))(i := True)" by (simp add: rq_add_def)
  have "int (rt_count ?r) = int (rt_count r) + 1"
    using rt_count_upd [OF i(2), of ?r r] by (simp add: q)
  then have "rt_count ?r = Suc (rt_count r)" by linarith
  moreover have "s \<notin> set (queue (rt_active r) i)" using s i by (auto simp: rt_ents_def)
  ultimately show ?thesis
    unfolding rq_wf_def bm q first_bit_set [of "bitmap (rt_active r)", OF rq_wfD(1) [OF wf] i(2)]
    using rq_wfD [OF wf] i ok by (auto simp: rq_add_def split: if_splits)
qed

lemma rt_ents_del:
  assumes "rq_wf pr ok r"
  shows "rt_ents (rq_del s i b r) = rt_ents r - {s}"
proof -
  have "set (remove1 s (queue (rt_active r) j)) = set (queue (rt_active r) j) - {s}" if "j < 100" for j
    using rq_wfD(3) [OF assms that] by (rule set_remove1_eq)
  then show ?thesis by (auto simp: rt_ents_def rq_del_def Let_def)
qed

lemma first_bit_clear:
  assumes "b 100" and "int i \<noteq> sched_find_first_bit b"
  shows "i < 100 \<Longrightarrow> sched_find_first_bit (b(i := False)) = sched_find_first_bit b"
proof -
  assume "i < 100"
  obtain n where n: "n \<le> 100" "sched_find_first_bit b = int n" "b n" "\<forall>j<n. \<not> b j"
    using first_bit_exists [of b, OF assms(1)] by auto
  have "sched_find_first_bit (b(i := False)) = int n"
    using n assms \<open>i < 100\<close> by (subst sched_find_first_bit_eq) auto
  then show ?thesis using n by simp
qed

lemma rq_wf_del:
  assumes wf: "rq_wf pr ok r" and few: "few ok" and s: "s \<in> set (queue (rt_active r) i)" "i < 100"
  shows "rq_wf pr ok (rq_del s i b r)"
proof -
  let ?r = "rq_del s i b r" and ?a = "rt_active (rq_del s i b r)"
  note D = rq_wfD [OF wf]
  have q: "queue ?a j = remove1 s (queue (rt_active r) j)" for j
    by (simp add: rq_del_def Let_def)
  have other: "s \<notin> set (queue (rt_active r) j)" if "j < 100" "j \<noteq> i" for j
    using D(4) [OF s(2,1)] D(4) [OF that(1)] that(2) by auto
  have len: "0 < length (queue (rt_active r) i)" using s(1) by (metis length_pos_if_in_set)
  have "int (rt_count ?r) = int (rt_count r) - 1"
    using rt_count_upd [OF s(2), of ?r r] other len s(1)
    by (simp add: q length_remove1 of_nat_diff)
  then have cnt: "rt_count r = Suc (rt_count ?r)" by linarith
  have nr: "rt_nr_running r - 1 = of_nat (rt_count ?r)" using D(6) cnt by simp
  have bits: "bitmap ?a j = (queue ?a j \<noteq> [])" if "j < 100" for j
    using D(2) [OF that] other [OF that] by (auto simp: rq_del_def Let_def)
  have b100: "bitmap ?a 100" using D(1) s(2) by (simp add: rq_del_def Let_def)
  have "rt_count ?r < 2 ^ 32"
  proof -
    have "rt_ents r \<subseteq> {s. ok s}" using D(5) by (auto simp: rt_ents_def)
    then have "card (rt_ents r) < 2 ^ 32"
      using few card_mono [of "{s. ok s}" "rt_ents r"] by (simp add: few_def)
    then show ?thesis using cnt rt_count_card [OF wf] by simp
  qed
  then have zero: "rt_nr_running r - 1 = 0 \<longleftrightarrow> rt_count ?r = 0"
    using of_nat_word32_inj [of "rt_count ?r" 0] nr by auto
  have hp: "highest_prio ?r = sched_find_first_bit (bitmap ?a)"
  proof (cases "rt_count ?r = 0")
    case True
    then have "\<not> bitmap ?a j" if "j < 100" for j using that bits by (simp add: rt_count_def)
    then have "sched_find_first_bit (bitmap ?a) = int 100"
      using b100 by (subst sched_find_first_bit_eq) auto
    then show ?thesis using True zero by (simp add: rq_del_def Let_def prio_consts)
  next
    case False
    then show ?thesis
      using zero D(1,7) first_bit_clear [of "bitmap (rt_active r)" i] s(2)
      by (auto simp: rq_del_def Let_def)
  qed
  show ?thesis
  proof (rule rq_wfI [OF b100 bits _ _ _ hp])
    show "distinct (queue ?a j)" if "j < 100" for j using D(3) [OF that] by (simp add: q)
    show "pr x = int j \<and> ok x" if "j < 100" "x \<in> set (queue ?a j)" for j x
      using D(4,5) [OF that(1)] notin_set_remove1 that(2) by (metis q)
    show "rt_nr_running ?r = of_nat (rt_count ?r)" using nr by (simp add: rq_del_def Let_def)
  qed
qed

end
