(* ===== verification/Rt_Tree.thy ===== *)
theory Rt_Tree
  imports Rt_Inv Class_Contract
begin

text \<open>
  The hierarchy of real-time run queues: enqueueing and dequeueing along a chain of groups
  keeps the invariant of the class.
\<close>

section \<open>The invariant\<close>

text \<open>
  Bounds that keep the 32-bit counters from wrapping: identifiers of tasks are below
  \<^verbatim>\<open>PID_MAX_LIMIT\<close>, a group has fewer than \<open>2\<^sup>2\<^sup>2\<close> children (each takes more than a kilobyte of
  a 32-bit address space), and the path of a group fits into 4096 characters.
\<close>

definition GROUP_MAX :: nat where "GROUP_MAX = 2 ^ 22"

definition valid_tg :: "tgid \<Rightarrow> bool" where
  "valid_tg g \<longleftrightarrow> length g \<le> 2048 \<and> (\<forall>x\<in>set g. x < GROUP_MAX)"

definition belongs :: "'f kernel \<Rightarrow> tgid \<Rightarrow> rt_entity \<Rightarrow> bool" where
  "belongs k g s \<longleftrightarrow> rt_rq_of_se k s = g \<and>
     (case s of Rt_Task p \<Rightarrow> p < PID_MAX_LIMIT | Rt_Group h \<Rightarrow> h \<noteq> [] \<and> hd h < GROUP_MAX)"

definition rt_wf :: "'f kernel \<Rightarrow> bool" where
  "rt_wf k \<longleftrightarrow> (\<forall>g. rq_wf (rt_se_prio k) (belongs k g) (rt_rqs k g)) \<and>
     (\<forall>g. rt_nr_running (rt_rqs k g) \<noteq> 0 \<longrightarrow> valid_tg g)"

definition group_ok :: "'f kernel \<Rightarrow> tgid \<Rightarrow> bool" where
  "group_ok k h \<longleftrightarrow> (on_rt_rq k (Rt_Group h) \<longleftrightarrow>
     \<not> rt_rq_throttled (rt_rqs k h) \<and> rt_nr_running (rt_rqs k h) \<noteq> 0)"

definition rt_inv :: "'f kernel \<Rightarrow> bool" where
  "rt_inv k \<longleftrightarrow> rt_wf k \<and> (\<forall>h. h \<noteq> [] \<longrightarrow> group_ok k h)"

lemma on_rt_rq_iff: "on_rt_rq k s \<longleftrightarrow> s \<in> rt_ents (rt_rqs k (rt_rq_of_se k s))"
  by (auto simp: on_rt_rq_def rt_ents_def list_ex_iff)

lemma few_belongs [simp]: "few (belongs k g)"
proof -
  let ?S = "Rt_Task ` {..<PID_MAX_LIMIT} \<union> (\<lambda>x. Rt_Group (x # g)) ` {..<GROUP_MAX}"
  have sub: "{s. belongs k g s} \<subseteq> ?S"
  proof
    fix s assume "s \<in> {s. belongs k g s}"
    then show "s \<in> ?S"
      by (cases s) (auto simp: belongs_def rt_rq_of_se_def image_iff intro!: bexI [where x = "hd _"])
  qed
  have "card ?S \<le> PID_MAX_LIMIT + GROUP_MAX"
    using card_Un_le [of "Rt_Task ` {..<PID_MAX_LIMIT}" "(\<lambda>x. Rt_Group (x # g)) ` {..<GROUP_MAX}"]
      card_image_le [of "{..<PID_MAX_LIMIT}" Rt_Task]
      card_image_le [of "{..<GROUP_MAX}" "\<lambda>x. Rt_Group (x # g)"] by simp
  also have "\<dots> < 2 ^ 32" by (simp add: PID_MAX_LIMIT_def GROUP_MAX_def)
  finally have "card {s. belongs k g s} < 2 ^ 32"
    using card_mono [OF _ sub] by (simp add: le_less_trans)
  then show ?thesis using finite_subset [OF sub] by (simp add: few_def)
qed

lemma rt_wfD:
  assumes "rt_wf k"
  shows "rq_wf (rt_se_prio k) (belongs k g) (rt_rqs k g)"
    "rt_nr_running (rt_rqs k g) = 0 \<longleftrightarrow> rt_ents (rt_rqs k g) = {}"
    "s \<in> rt_ents (rt_rqs k g) \<Longrightarrow> belongs k g s"
    "rt_nr_running (rt_rqs k g) \<noteq> 0 \<Longrightarrow> valid_tg g"
proof -
  show 1: "rq_wf (rt_se_prio k) (belongs k g) (rt_rqs k g)" for g using assms by (simp add: rt_wf_def)
  show "rt_nr_running (rt_rqs k g) = 0 \<longleftrightarrow> rt_ents (rt_rqs k g) = {}"
    by (rule nr_running_0_iff [OF 1]) simp
  show "s \<in> rt_ents (rt_rqs k g) \<Longrightarrow> belongs k g s" using rq_wfD(5) [OF 1] by (auto simp: rt_ents_def)
  show "rt_nr_running (rt_rqs k g) \<noteq> 0 \<Longrightarrow> valid_tg g" using assms by (simp add: rt_wf_def)
qed

lemma valid_tg_chain: "valid_tg g \<Longrightarrow> h \<in> set (path_chain g) \<Longrightarrow> valid_tg h"
  by (induction g) (auto simp: valid_tg_def)

text \<open>
  What an operation on the run queues leaves alone: the tasks (up to fields the class does not
  read), the run queue of the processor and everything else.
\<close>

definition rt_frame :: "'f kernel \<Rightarrow> 'f kernel \<Rightarrow> bool" where
  "rt_frame k k' \<longleftrightarrow> rq k' = rq k \<and> tasks k' = tasks k \<and> panicked k' = panicked k \<and> cfs k' = cfs k \<and>
     xtime_nsec k' = xtime_nsec k \<and> sysctl_sched_rt_runtime k' = sysctl_sched_rt_runtime k"

lemma rt_frame_refl [simp]: "rt_frame k k"
  by (simp add: rt_frame_def)

lemma rt_frame_trans: "rt_frame k k' \<Longrightarrow> rt_frame k' k'' \<Longrightarrow> rt_frame k k''"
  by (simp add: rt_frame_def)

lemma rt_frame_tasks: "rt_frame k k' \<Longrightarrow> tasks k' = tasks k"
  by (simp add: rt_frame_def)

lemma rt_rq_of_se_frame: "rt_frame k k' \<Longrightarrow> rt_rq_of_se k' s = rt_rq_of_se k s"
  by (simp add: rt_frame_def rt_rq_of_se_def split: rt_entity.splits)

lemma rt_se_chain_frame: "rt_frame k k' \<Longrightarrow> rt_se_chain k' s = rt_se_chain k s"
  by (simp add: rt_frame_def rt_se_chain_def split: rt_entity.splits)

lemma belongs_frame: "rt_frame k k' \<Longrightarrow> belongs k' g s = belongs k g s"
  by (simp add: belongs_def rt_rq_of_se_frame)

text \<open>Replacing one run queue whose own entity is not queued.\<close>

lemma rt_se_prio_upd:
  assumes "rt_frame k k'" "rt_rqs k' = (rt_rqs k)(g := r)" "s \<noteq> Rt_Group g"
  shows "rt_se_prio k' s = rt_se_prio k s"
  using assms by (auto simp: rt_se_prio_def group_rt_rq_def rt_frame_def split: rt_entity.splits)

lemma rt_wf_upd:
  assumes wf: "rt_wf k" and fr: "rt_frame k k'" and eq: "rt_rqs k' = (rt_rqs k)(g := r)"
    and r: "rq_wf (rt_se_prio k) (belongs k g) r" "rt_nr_running r \<noteq> 0 \<longrightarrow> valid_tg g"
    and off: "g \<noteq> [] \<Longrightarrow> \<not> on_rt_rq k (Rt_Group g)"
  shows "rt_wf k'"
proof -
  have "rq_wf (rt_se_prio k') (belongs k' h) (rt_rqs k' h)" for h
  proof -
    have q: "rq_wf (rt_se_prio k) (belongs k h) (rt_rqs k' h)"
      using r(1) rt_wfD(1) [OF wf] by (simp add: eq)
    have same: "rt_se_prio k' s = rt_se_prio k s"
      if "i < 100" "s \<in> set (queue (rt_active (rt_rqs k' h)) i)" for i s
    proof (rule rt_se_prio_upd [OF fr eq])
      have b: "belongs k h s" using rq_wfD(5) [OF q that] .
      show "s \<noteq> Rt_Group g"
      proof
        assume s: "s = Rt_Group g"
        then have g: "g \<noteq> []" "tl g = h" using b by (auto simp: belongs_def rt_rq_of_se_def)
        then have "h \<noteq> g" by (metis length_tl diff_Suc_1 length_greater_0_conv less_not_refl Suc_pred n_not_Suc_n)
        then have "s \<in> rt_ents (rt_rqs k (rt_rq_of_se k s))"
          using that s g by (auto simp: eq rt_ents_def rt_rq_of_se_def)
        then show False using off g s by (simp add: on_rt_rq_iff)
      qed
    qed
    show ?thesis
      by (rule rq_wfI) (use rq_wfD [OF q] same in \<open>simp_all add: belongs_frame [OF fr]\<close>)
  qed
  then show ?thesis using rt_wfD(4) [OF wf] r(2) by (auto simp: rt_wf_def eq)
qed

section \<open>One entity\<close>

lemma start_rt_bandwidth_frame [simp]:
  "rt_frame k (start_rt_bandwidth g k)" "rt_rqs (start_rt_bandwidth g k) = rt_rqs k"
  by (simp_all add: start_rt_bandwidth_def start_bandwidth_timer_def ext_call_def rt_frame_def)

lemma inc_rt_group_eq:
  "rt_frame k (inc_rt_group s g k)"
  "rt_rqs (inc_rt_group s g k) = (rt_rqs k)(g := (rt_rqs k g)\<lparr>rt_nr_boosted :=
     rt_nr_boosted (rt_rqs k g) + (if rt_se_boosted k s then 1 else 0)\<rparr>)"
proof -
  let ?k = "if rt_se_boosted k s then upd_rt g (rt_nr_boosted_update (\<lambda>n. n + 1)) k else k"
  have "rt_frame k ?k" by (simp add: rt_frame_def)
  then show "rt_frame k (inc_rt_group s g k)"
    unfolding inc_rt_group_def using start_rt_bandwidth_frame(1) rt_frame_trans by blast
qed (simp add: inc_rt_group_def fun_eq_iff)

lemmas rt_se_defs = rt_se_prio_def group_rt_rq_def rt_se_boosted_def

lemma not_own_group: "belongs k g s \<Longrightarrow> s \<noteq> Rt_Group g"
  by (cases g) (auto simp: belongs_def rt_rq_of_se_def)

text \<open>A group that is throttled or empty is not enqueued.\<close>

definition rt_skip :: "'f kernel \<Rightarrow> rt_entity \<Rightarrow> bool" where
  "rt_skip k s \<longleftrightarrow> (case s of Rt_Group h \<Rightarrow> rt_rq_throttled (rt_rqs k h) \<or> rt_nr_running (rt_rqs k h) = 0
     | Rt_Task p \<Rightarrow> False)"

lemma enqueue_rt_entity1_eq:
  assumes b: "belongs k g s" and pr: "rt_se_prio k s = int i"
  shows "rt_frame k (enqueue_rt_entity1 s head k)"
    "rt_rqs (enqueue_rt_entity1 s head k) = (if rt_skip k s then rt_rqs k
      else (rt_rqs k)(g := rq_add s i head (rt_se_boosted k s) (rt_rqs k g)))"
proof -
  have g: "rt_rq_of_se k s = g" using b by (simp add: belongs_def)
  have ne: "s \<noteq> Rt_Group g" using not_own_group [OF b] .
  let ?skip = "case group_rt_rq s of Some h \<Rightarrow> rt_rq_throttled (rt_rqs k h) \<or> rt_nr_running (rt_rqs k h) = 0 | None \<Rightarrow> False"
  have skip: "?skip = rt_skip k s" by (simp add: group_rt_rq_def rt_skip_def split: rt_entity.splits)
  define k1 where "k1 = (if rt_nr_running (rt_rqs k g) = 0 then list_add_leaf_rt_rq g k else k)"
  define k3 where "k3 = upd_bit g i True (upd_queue g i (if head then list_add s else list_add_tail s) k1)"
  have k1: "rt_rqs k1 = rt_rqs k" "rt_frame k k1" by (auto simp: k1_def list_add_leaf_rt_rq_def rt_frame_def)
  have k3: "rt_frame k k3" "rt_se_prio k3 s = int i" "rt_se_boosted k3 s = rt_se_boosted k s"
    using k1 ne pr
    by (auto simp: k3_def upd_bit_def upd_queue_def rt_frame_def rt_se_prio_def rt_se_boosted_def
        group_rt_rq_def split: rt_entity.splits)
  have e: "enqueue_rt_entity1 s head k = (if rt_skip k s then k else inc_rt_tasks s g k3)"
    using pr by (simp add: enqueue_rt_entity1_def Let_def g skip k3_def k1_def)
  let ?k5 = "upd_rt g (inc_rt_prio (int i)) (upd_rt g (rt_nr_running_update (\<lambda>n. n + 1)) k3)"
  have b5: "rt_se_boosted ?k5 s = rt_se_boosted k s" using k3(3) ne by (auto simp: rt_se_defs split: rt_entity.splits)
  have it: "inc_rt_tasks s g k3 = inc_rt_group s g ?k5" by (simp add: inc_rt_tasks_def Let_def k3)
  have "rt_frame k ?k5" using k3(1) by (simp add: rt_frame_def)
  then have "rt_frame k (inc_rt_tasks s g k3)" unfolding it using inc_rt_group_eq(1) rt_frame_trans by blast
  then show "rt_frame k (enqueue_rt_entity1 s head k)" by (simp add: e)
  have "rt_rqs (inc_rt_tasks s g k3) = (rt_rqs k)(g := rq_add s i head (rt_se_boosted k s) (rt_rqs k g))"
    unfolding it inc_rt_group_eq(2) b5
    using k1(1) by (auto simp: fun_eq_iff k3_def upd_bit_def upd_queue_def inc_rt_prio_def rq_add_def
        list_ops min_def)
  then show "rt_rqs (enqueue_rt_entity1 s head k) = (if rt_skip k s then rt_rqs k
      else (rt_rqs k)(g := rq_add s i head (rt_se_boosted k s) (rt_rqs k g)))"
    by (simp add: e)
qed

lemma dequeue_rt_entity1_eq:
  assumes b: "belongs k g s" and pr: "rt_se_prio k s = int i"
  shows "rt_frame k (dequeue_rt_entity1 s k)"
    "rt_rqs (dequeue_rt_entity1 s k) = (rt_rqs k)(g := rq_del s i (rt_se_boosted k s) (rt_rqs k g))"
proof -
  have g: "rt_rq_of_se k s = g" using b by (simp add: belongs_def)
  have ne: "s \<noteq> Rt_Group g" using not_own_group [OF b] .
  define k2 where "k2 = (if queue (rt_active (rt_rqs (unlink_rt s g k) g)) i = []
    then upd_bit g i False (unlink_rt s g k) else unlink_rt s g k)"
  have k2: "rt_frame k k2" by (simp add: k2_def upd_bit_def unlink_rt_def rt_frame_def)
  let ?k3 = "upd_rt g (rt_nr_running_update (\<lambda>n. n - 1)) k2"
  have p1: "rt_se_prio (unlink_rt s g k) s = int i" and p3: "rt_se_prio ?k3 s = int i"
    using ne pr by (auto simp: k2_def unlink_rt_def upd_bit_def rt_se_defs split: rt_entity.splits)
  let ?k4 = "upd_rt g (dec_rt_prio (int i)) ?k3"
  have b4: "rt_se_boosted ?k4 s = rt_se_boosted k s"
    using ne by (auto simp: k2_def unlink_rt_def upd_bit_def rt_se_defs split: rt_entity.splits)
  have d: "dec_rt_tasks s g k2 = dec_rt_group s g ?k4" by (simp only: dec_rt_tasks_def Let_def p3)
  have e: "dequeue_rt_entity1 s k = (if rt_nr_running (rt_rqs (dec_rt_group s g ?k4) g) = 0
      then list_del_leaf_rt_rq g (dec_rt_group s g ?k4) else dec_rt_group s g ?k4)"
    unfolding d [symmetric] by (simp only: dequeue_rt_entity1_def Let_def g p1 nat_int k2_def)
  show "rt_frame k (dequeue_rt_entity1 s k)"
    using k2 by (simp add: e dec_rt_group_def list_del_leaf_rt_rq_def rt_frame_def)
  have "rt_rqs (dec_rt_group s g ?k4) = (rt_rqs k)(g := rq_del s i (rt_se_boosted k s) (rt_rqs k g))"
    unfolding dec_rt_group_def b4
    by (auto simp: fun_eq_iff k2_def upd_bit_def unlink_rt_def dec_rt_prio_def rq_del_def list_ops
        Let_def)
  then show "rt_rqs (dequeue_rt_entity1 s k) = (rt_rqs k)(g := rq_del s i (rt_se_boosted k s) (rt_rqs k g))"
    by (simp add: e list_del_leaf_rt_rq_def)
qed

text \<open>How a step changes what is queued: \<open>on_rt_rq\<close> after replacing one run queue.\<close>

lemma on_rt_rq_upd:
  assumes "rt_frame k k'" and "rt_rqs k' = (rt_rqs k)(g := r)"
  shows "on_rt_rq k' t = (if rt_rq_of_se k t = g then t \<in> rt_ents r else on_rt_rq k t)"
  using assms by (simp add: on_rt_rq_iff rt_rq_of_se_frame)

lemma dequeue1_step:
  assumes wf: "rt_wf k" and on: "on_rt_rq k s" and g: "rt_rq_of_se k s = g"
    and off: "g \<noteq> [] \<Longrightarrow> \<not> on_rt_rq k (Rt_Group g)"
  shows "rt_wf (dequeue_rt_entity1 s k)" "rt_frame k (dequeue_rt_entity1 s k)"
    "on_rt_rq (dequeue_rt_entity1 s k) t \<longleftrightarrow> on_rt_rq k t \<and> t \<noteq> s"
    "h \<noteq> g \<Longrightarrow> rt_rqs (dequeue_rt_entity1 s k) h = rt_rqs k h"
proof -
  note q = rt_wfD(1) [OF wf, of g]
  have ent: "s \<in> rt_ents (rt_rqs k g)" using on g by (simp add: on_rt_rq_iff)
  have b: "belongs k g s" using rt_wfD(3) [OF wf ent] .
  obtain i where i: "rt_se_prio k s = int i" "i < 100" "s \<in> set (queue (rt_active (rt_rqs k g)) i)"
    using ent rt_ents_iff [OF q, of s] that [of "nat (rt_se_prio k s)"] by auto
  note e = dequeue_rt_entity1_eq [OF b i(1)]
  let ?r = "rq_del s i (rt_se_boosted k s) (rt_rqs k g)"
  have "valid_tg g" using rt_wfD(2,4) [OF wf, of g] ent by auto
  then show "rt_wf (dequeue_rt_entity1 s k)"
    using rt_wf_upd [OF wf e rq_wf_del [OF q _ i(3,2)]] off by simp
  show "rt_frame k (dequeue_rt_entity1 s k)" by (rule e)
  show "on_rt_rq (dequeue_rt_entity1 s k) t \<longleftrightarrow> on_rt_rq k t \<and> t \<noteq> s"
    using g by (auto simp: on_rt_rq_upd [OF e] rt_ents_del [OF q]) (auto simp: on_rt_rq_iff)
  show "h \<noteq> g \<Longrightarrow> rt_rqs (dequeue_rt_entity1 s k) h = rt_rqs k h" by (simp add: e)
qed

lemma enqueue1_step:
  assumes wf: "rt_wf k" and noton: "\<not> on_rt_rq k s" and b: "belongs k g s"
    and off: "g \<noteq> [] \<Longrightarrow> \<not> on_rt_rq k (Rt_Group g)" and v: "valid_tg g"
    and pr: "\<And>p. s = Rt_Task p \<Longrightarrow> 0 \<le> prio (tasks k p) \<and> prio (tasks k p) < MAX_RT_PRIO"
  shows "rt_wf (enqueue_rt_entity1 s head k)" "rt_frame k (enqueue_rt_entity1 s head k)"
    "on_rt_rq (enqueue_rt_entity1 s head k) t \<longleftrightarrow> on_rt_rq k t \<or> t = s \<and> \<not> rt_skip k s"
    "h \<noteq> g \<Longrightarrow> rt_rqs (enqueue_rt_entity1 s head k) h = rt_rqs k h"
proof -
  note q = rt_wfD(1) [OF wf, of g]
  have g: "rt_rq_of_se k s = g" using b by (simp add: belongs_def)
  have nin: "s \<notin> rt_ents (rt_rqs k g)" using noton g by (simp add: on_rt_rq_iff)
  have "0 \<le> rt_se_prio k s \<and> (\<not> rt_skip k s \<longrightarrow> rt_se_prio k s < 100)"
  proof (cases s)
    case (Rt_Task p)
    then show ?thesis using pr by (simp add: rt_se_defs prio_consts)
  next
    case (Rt_Group j)
    note r = highest_prio_range [OF rt_wfD(1) [OF wf, of j]]
    show ?thesis using Rt_Group r(1-3) rt_wfD(2) [OF wf, of j] by (auto simp: rt_se_defs rt_skip_def)
  qed
  then obtain i where i: "rt_se_prio k s = int i" "\<not> rt_skip k s \<Longrightarrow> i < 100"
    by (metis nonneg_int_cases of_nat_less_iff of_nat_numeral)
  note e = enqueue_rt_entity1_eq [OF b i(1), of head]
  show fr: "rt_frame k (enqueue_rt_entity1 s head k)" by (rule e)
  show "h \<noteq> g \<Longrightarrow> rt_rqs (enqueue_rt_entity1 s head k) h = rt_rqs k h" by (simp add: e)
  have upd: "rt_rqs (enqueue_rt_entity1 s head k) = (rt_rqs k)(g := if rt_skip k s then rt_rqs k g
      else rq_add s i head (rt_se_boosted k s) (rt_rqs k g))"
    by (simp add: e)
  show "rt_wf (enqueue_rt_entity1 s head k)"
    by (rule rt_wf_upd [OF wf fr upd])
      (use q rq_wf_add [OF q nin i(1) _ b] i(2) off v in auto)
  show "on_rt_rq (enqueue_rt_entity1 s head k) t \<longleftrightarrow> on_rt_rq k t \<or> t = s \<and> \<not> rt_skip k s"
    using g i(2) by (auto simp: on_rt_rq_upd [OF fr upd] rt_ents_add) (auto simp: on_rt_rq_iff)
qed

section \<open>Chains of groups\<close>

abbreviation deq_step :: "rt_entity \<Rightarrow> 'f kernel \<Rightarrow> 'f kernel" where
  "deq_step s k \<equiv> if on_rt_rq k s then dequeue_rt_entity1 s k else k"

definition deq_groups :: "tgid \<Rightarrow> 'f kernel \<Rightarrow> 'f kernel" where
  "deq_groups g k = fold deq_step (rev (group_chain g)) k"

definition enq_groups :: "tgid \<Rightarrow> bool \<Rightarrow> 'f kernel \<Rightarrow> 'f kernel" where
  "enq_groups g head k = fold (\<lambda>s. enqueue_rt_entity1 s head) (group_chain g) k"

lemma set_group_chain: "set (group_chain g) = Rt_Group ` (set (path_chain g) - {[]})"
  by (induction g) auto

lemma chain_shorter: "h \<in> set (path_chain g) \<Longrightarrow> length h \<le> length g"
  by (induction g) auto

lemma not_in_shorter_chain: "length g < length h \<Longrightarrow> h \<notin> set (path_chain g)"
  using chain_shorter [of h g] by auto

lemma deq_groups_spec:
  assumes wf: "rt_wf k"
  shows "rt_wf (deq_groups g k) \<and> rt_frame k (deq_groups g k) \<and>
    (\<forall>t. on_rt_rq (deq_groups g k) t \<longleftrightarrow> on_rt_rq k t \<and> t \<notin> set (group_chain g)) \<and>
    (\<forall>h. h \<notin> set (path_chain (tl g)) \<longrightarrow> rt_rqs (deq_groups g k) h = rt_rqs k h)"
proof (induction g)
  case Nil
  then show ?case using wf by (simp add: deq_groups_def)
next
  case (Cons x g)
  let ?k = "deq_groups g k" and ?s = "Rt_Group (x # g)"
  have eq: "deq_groups (x # g) k = deq_step ?s ?k" by (simp add: deq_groups_def)
  have tl: "h \<in> set (path_chain (tl g)) \<Longrightarrow> h \<in> set (path_chain g)" for h by (cases g) auto
  have off: "g \<noteq> [] \<Longrightarrow> \<not> on_rt_rq ?k (Rt_Group g)"
    using Cons by (auto simp: set_group_chain)
  have rqs: "rt_rq_of_se ?k ?s = g" by (simp add: rt_rq_of_se_def)
  have IH: "rt_wf ?k" "rt_frame k ?k" "\<And>t. on_rt_rq ?k t \<longleftrightarrow> on_rt_rq k t \<and> t \<notin> set (group_chain g)"
    "\<And>h. h \<notin> set (path_chain (tl g)) \<Longrightarrow> rt_rqs ?k h = rt_rqs k h"
    using Cons by blast+
  show ?case
  proof (cases "on_rt_rq ?k ?s")
    case True
    note d = dequeue1_step [OF IH(1) True rqs off]
    have "rt_rqs (dequeue_rt_entity1 ?s ?k) h = rt_rqs k h" if "h \<notin> set (path_chain g)" for h
      using that tl d(4) [of h] IH(4) [of h] by (metis self_in_path_chain)
    moreover have "rt_frame k (dequeue_rt_entity1 ?s ?k)" using IH(2) d(2) rt_frame_trans by blast
    ultimately show ?thesis using True d(1,3) IH(3) by (simp add: eq) blast
  next
    case False
    have "rt_rqs ?k h = rt_rqs k h" if "h \<notin> set (path_chain g)" for h using that tl IH(4) by blast
    then show ?thesis using False IH by (simp add: eq) blast
  qed
qed

lemma enq_groups_spec:
  assumes "rt_wf k" and "valid_tg g" and "\<And>h. h \<in> set (path_chain g) \<Longrightarrow> h \<noteq> [] \<Longrightarrow> \<not> on_rt_rq k (Rt_Group h)"
  shows "rt_wf (enq_groups g head k) \<and> rt_frame k (enq_groups g head k) \<and>
    (\<forall>h\<in>set (path_chain g). h \<noteq> [] \<longrightarrow> group_ok (enq_groups g head k) h) \<and>
    (\<forall>t. t \<notin> set (group_chain g) \<longrightarrow> on_rt_rq (enq_groups g head k) t = on_rt_rq k t) \<and>
    (\<forall>h. h \<notin> set (path_chain (tl g)) \<longrightarrow> rt_rqs (enq_groups g head k) h = rt_rqs k h)"
  using assms
proof (induction g arbitrary: k)
  case Nil
  then show ?case by (simp add: enq_groups_def)
next
  case (Cons x g)
  let ?s = "Rt_Group (x # g)"
  let ?k1 = "enqueue_rt_entity1 ?s head k" and ?k2 = "enq_groups (x # g) head k"
  have eq: "?k2 = enq_groups g head ?k1" by (simp add: enq_groups_def)
  have b: "belongs k g ?s" using Cons.prems(2) by (simp add: belongs_def rt_rq_of_se_def valid_tg_def)
  have v: "valid_tg g" using valid_tg_chain [OF Cons.prems(2), of g] by simp
  have off: "\<not> on_rt_rq k ?s" "g \<noteq> [] \<Longrightarrow> \<not> on_rt_rq k (Rt_Group g)" using Cons.prems(3) by simp_all
  have tl: "h \<in> set (path_chain (tl g)) \<Longrightarrow> h \<in> set (path_chain g)" for h by (cases g) auto
  have notin: "x # g \<notin> set (path_chain g)" by (simp add: not_in_shorter_chain)
  note e = enqueue1_step [where head = head, OF Cons.prems(1) off(1) b off(2) v, simplified]
  have "\<not> on_rt_rq ?k1 (Rt_Group h)" if "h \<in> set (path_chain g)" "h \<noteq> []" for h
    using Cons.prems(3) [of h] that notin e(3) by auto
  from Cons.IH [OF e(1) v this]
  have IH: "rt_wf ?k2" "rt_frame ?k1 ?k2" "\<And>h. h \<in> set (path_chain g) \<Longrightarrow> h \<noteq> [] \<Longrightarrow> group_ok ?k2 h"
    "\<And>t. t \<notin> set (group_chain g) \<Longrightarrow> on_rt_rq ?k2 t = on_rt_rq ?k1 t"
    "\<And>h. h \<notin> set (path_chain (tl g)) \<Longrightarrow> rt_rqs ?k2 h = rt_rqs ?k1 h"
    unfolding eq by blast+
  have "rt_rqs ?k2 (x # g) = rt_rqs k (x # g)" using IH(5) [of "x # g"] e(4) [of "x # g"] notin tl by auto
  then have "group_ok ?k2 (x # g)"
    using IH(4) [of ?s] e(3) off(1) notin
    by (auto simp: group_ok_def set_group_chain rt_skip_def)
  moreover have "rt_rqs ?k2 h = rt_rqs k h" if "h \<notin> set (path_chain g)" for h
    using that tl e(4) [of h] IH(5) [of h] by (metis self_in_path_chain)
  moreover have "rt_frame k ?k2" using e(2) IH(2) rt_frame_trans by blast
  ultimately show ?case using IH e(3) by auto
qed

end
