(* ===== verification/Rt_Props.thy ===== *)
theory Rt_Props
  imports Rt_Tree
begin

text \<open>
  Every operation of the real-time class keeps its invariant; the class as a queueing class;
  which task it picks.
\<close>

section \<open>Enqueueing and dequeueing entities\<close>

lemma group_ok_cong:
  "on_rt_rq k' (Rt_Group h) = on_rt_rq k (Rt_Group h) \<Longrightarrow> rt_rqs k' h = rt_rqs k h \<Longrightarrow> group_ok k' h = group_ok k h"
  by (simp add: group_ok_def)

lemma in_chain_tl: "h \<in> set (path_chain (tl g)) \<Longrightarrow> h \<in> set (path_chain g)"
  by (cases g) auto

lemma enq_groups_inv:
  assumes "rt_wf k" and "valid_tg g"
    and "\<And>h. h \<in> set (path_chain g) \<Longrightarrow> h \<noteq> [] \<Longrightarrow> \<not> on_rt_rq k (Rt_Group h)"
    and "\<And>h. h \<notin> set (path_chain g) \<Longrightarrow> group_ok k h"
  shows "rt_inv (enq_groups g head k)" "rt_frame k (enq_groups g head k)"
    "on_rt_rq (enq_groups g head k) (Rt_Task p) = on_rt_rq k (Rt_Task p)"
proof -
  let ?k = "enq_groups g head k"
  have S: "rt_wf ?k" "rt_frame k ?k" "\<And>h. h \<in> set (path_chain g) \<Longrightarrow> h \<noteq> [] \<Longrightarrow> group_ok ?k h"
    "\<And>t. t \<notin> set (group_chain g) \<Longrightarrow> on_rt_rq ?k t = on_rt_rq k t"
    "\<And>h. h \<notin> set (path_chain (tl g)) \<Longrightarrow> rt_rqs ?k h = rt_rqs k h"
    using enq_groups_spec [OF assms(1-3), of head] by blast+
  have "group_ok ?k h" if "h \<noteq> []" "h \<notin> set (path_chain g)" for h
  proof -
    have "rt_rqs ?k h = rt_rqs k h" using that in_chain_tl S(5) by blast
    moreover have "on_rt_rq ?k (Rt_Group h) = on_rt_rq k (Rt_Group h)"
      using that S(4) by (auto simp: set_group_chain)
    ultimately show ?thesis using assms(4) [OF that(2)] by (simp add: group_ok_def)
  qed
  then show "rt_inv ?k" using S(1,3) by (auto simp: rt_inv_def)
  show "rt_frame k ?k" by (rule S)
  show "on_rt_rq ?k (Rt_Task p) = on_rt_rq k (Rt_Task p)" using S(4) by (auto simp: set_group_chain)
qed

lemma deq_groups_ok:
  assumes "rt_wf k" and "h \<notin> set (path_chain g)" and "group_ok k h"
  shows "group_ok (deq_groups g k) h"
proof -
  have "rt_rqs (deq_groups g k) h = rt_rqs k h"
    using deq_groups_spec [OF assms(1), of g] assms(2) in_chain_tl by blast
  moreover have "on_rt_rq (deq_groups g k) (Rt_Group h) = on_rt_rq k (Rt_Group h)"
    using deq_groups_spec [OF assms(1), of g] assms(2) by (auto simp: set_group_chain)
  ultimately show ?thesis using assms(3) by (simp add: group_ok_def)
qed

text \<open>The chain of a group entity, all groups but one known to be consistent.\<close>

definition rt_inv_but :: "tgid \<Rightarrow> 'f kernel \<Rightarrow> bool" where
  "rt_inv_but g k \<longleftrightarrow> rt_wf k \<and> (\<forall>h. h \<noteq> [] \<longrightarrow> h \<noteq> g \<longrightarrow> group_ok k h)"

lemma rt_inv_but_root [simp]: "rt_inv_but [] k = rt_inv k"
  by (auto simp: rt_inv_but_def rt_inv_def)

lemma fold_enqueue_groups:
  "fold (\<lambda>s k. case group_rt_rq s of
        Some g \<Rightarrow> if rt_nr_running (rt_rqs k g) \<noteq> 0 then enqueue_rt_entity1 s False k else k
      | None \<Rightarrow> k) (group_chain g) k = enq_groups g False k"
proof -
  have "(if rt_nr_running (rt_rqs k h) \<noteq> 0 then enqueue_rt_entity1 (Rt_Group h) False k else k) =
      enqueue_rt_entity1 (Rt_Group h) False k" for h and k :: "'a kernel"
    by (simp add: enqueue_rt_entity1_def Let_def group_rt_rq_def)
  then show ?thesis
    by (induction g arbitrary: k) (simp_all add: enq_groups_def group_rt_rq_def)
qed

lemma rt_entity_group_eq:
  "enqueue_rt_entity (Rt_Group g) head k = enq_groups g head (deq_groups g k)"
  "dequeue_rt_entity (Rt_Group g) k = enq_groups g False (deq_groups g k)"
  by (simp_all add: enqueue_rt_entity_def dequeue_rt_entity_def dequeue_rt_stack_def rt_se_chain_def
      deq_groups_def [symmetric] enq_groups_def [symmetric] fold_enqueue_groups)

lemma regroup_inv:
  assumes "rt_inv_but g k" and "valid_tg g"
  shows "rt_inv (enq_groups g head (deq_groups g k))" "rt_frame k (enq_groups g head (deq_groups g k))"
    "on_rt_rq (enq_groups g head (deq_groups g k)) (Rt_Task p) = on_rt_rq k (Rt_Task p)"
proof -
  have wf: "rt_wf k" using assms by (simp add: rt_inv_but_def)
  have D: "rt_wf (deq_groups g k)" "rt_frame k (deq_groups g k)"
    "\<And>t. on_rt_rq (deq_groups g k) t \<longleftrightarrow> on_rt_rq k t \<and> t \<notin> set (group_chain g)"
    using deq_groups_spec [OF wf, of g] by blast+
  have off: "\<not> on_rt_rq (deq_groups g k) (Rt_Group h)" if "h \<in> set (path_chain g)" "h \<noteq> []" for h
    using that D(3) by (auto simp: set_group_chain)
  have ok: "group_ok (deq_groups g k) h" if "h \<notin> set (path_chain g)" for h
    using that assms(1) deq_groups_ok [OF wf] by (metis Nil_in_path_chain rt_inv_but_def self_in_path_chain)
  note E = enq_groups_inv [OF D(1) assms(2) off ok, of head]
  show "rt_inv (enq_groups g head (deq_groups g k))" by (rule E)
  show "rt_frame k (enq_groups g head (deq_groups g k))" using D(2) E(2) rt_frame_trans by blast
  show "on_rt_rq (enq_groups g head (deq_groups g k)) (Rt_Task p) = on_rt_rq k (Rt_Task p)"
    using E(3) D(3) by (auto simp: set_group_chain)
qed

text \<open>Requeueing the entities of a group and its ancestors leaves the queue of the group alone.\<close>

lemma regroup_same:
  assumes wf: "rt_wf k" and v: "valid_tg g" and "g \<noteq> []"
  shows "rt_rqs (enq_groups g head (deq_groups g k)) g = rt_rqs k g"
proof -
  have D: "rt_wf (deq_groups g k)" "\<And>t. on_rt_rq (deq_groups g k) t \<longleftrightarrow> on_rt_rq k t \<and> t \<notin> set (group_chain g)"
    "\<And>h. h \<notin> set (path_chain (tl g)) \<Longrightarrow> rt_rqs (deq_groups g k) h = rt_rqs k h"
    using deq_groups_spec [OF wf, of g] by blast+
  have off: "\<not> on_rt_rq (deq_groups g k) (Rt_Group h)" if "h \<in> set (path_chain g)" "h \<noteq> []" for h
    using that D(2) by (auto simp: set_group_chain)
  have "g \<notin> set (path_chain (tl g))" using assms(3) by (simp add: not_in_shorter_chain)
  then show ?thesis using enq_groups_spec [OF D(1) v off, of head] D(3) by simp
qed

section \<open>Enqueueing and dequeueing tasks\<close>

text \<open>The state after the task and its groups have been taken off their queues.\<close>

definition off_stack :: "tid \<Rightarrow> 'f kernel \<Rightarrow> 'f kernel" where
  "off_stack p k = deq_step (Rt_Task p) (deq_groups (sched_task_group (tasks k p)) k)"

lemma rt_entity_task_eq:
  "enqueue_rt_entity (Rt_Task p) head k =
     enq_groups (sched_task_group (tasks k p)) head (enqueue_rt_entity1 (Rt_Task p) head (off_stack p k))"
  "dequeue_rt_entity (Rt_Task p) k = enq_groups (sched_task_group (tasks k p)) False (off_stack p k)"
  by (simp_all add: enqueue_rt_entity_def dequeue_rt_entity_def dequeue_rt_stack_def rt_se_chain_def
      deq_groups_def [symmetric] enq_groups_def [symmetric] off_stack_def fold_enqueue_groups)
    (simp add: group_rt_rq_def fold_enqueue_groups [unfolded group_rt_rq_def] deq_groups_def)

lemma off_stack_spec:
  assumes inv: "rt_inv k"
  shows "rt_wf (off_stack p k)" "rt_frame k (off_stack p k)"
    "on_rt_rq (off_stack p k) t \<longleftrightarrow> on_rt_rq k t \<and> t \<noteq> Rt_Task p \<and> t \<notin> set (group_chain (sched_task_group (tasks k p)))"
    "h \<notin> set (path_chain (sched_task_group (tasks k p))) \<Longrightarrow> group_ok (off_stack p k) h"
proof -
  let ?g = "sched_task_group (tasks k p)" and ?s = "Rt_Task p"
  let ?k = "deq_groups ?g k"
  have wf: "rt_wf k" using inv by (simp add: rt_inv_def)
  have D: "rt_wf ?k" "rt_frame k ?k"
    "\<And>t. on_rt_rq ?k t \<longleftrightarrow> on_rt_rq k t \<and> t \<notin> set (group_chain ?g)"
    using deq_groups_spec [OF wf, of ?g] by blast+
  have rq: "rt_rq_of_se ?k ?s = ?g" using D(2) by (simp add: rt_rq_of_se_def rt_frame_def)
  have off: "?g \<noteq> [] \<Longrightarrow> \<not> on_rt_rq ?k (Rt_Group ?g)" using D(3) by (auto simp: set_group_chain)
  note d = dequeue1_step [OF D(1) _ rq off]
  show "rt_wf (off_stack p k)" using D(1) d(1) by (simp add: off_stack_def)
  show fr: "rt_frame k (off_stack p k)" using D(2) d(2) rt_frame_trans by (auto simp: off_stack_def)
  show on: "on_rt_rq (off_stack p k) t \<longleftrightarrow> on_rt_rq k t \<and> t \<noteq> ?s \<and> t \<notin> set (group_chain ?g)" for t
    using D(3) d(3) by (auto simp: off_stack_def)
  show "group_ok (off_stack p k) h" if h: "h \<notin> set (path_chain ?g)" for h
  proof -
    have "h \<noteq> []" "h \<noteq> ?g" using h by auto
    then have "group_ok k h" using inv by (simp add: rt_inv_def)
    then have "group_ok ?k h" using deq_groups_ok [OF wf h] by simp
    moreover have "rt_rqs (off_stack p k) h = rt_rqs ?k h" using d(4) \<open>h \<noteq> ?g\<close> by (simp add: off_stack_def)
    moreover have "on_rt_rq (off_stack p k) (Rt_Group h) = on_rt_rq ?k (Rt_Group h)" using on D(3) by simp
    ultimately show ?thesis by (simp add: group_ok_def)
  qed
qed

lemma dequeue_rt_entity_task:
  assumes inv: "rt_inv k" and v: "valid_tg (sched_task_group (tasks k p))"
  shows "rt_inv (dequeue_rt_entity (Rt_Task p) k)" "rt_frame k (dequeue_rt_entity (Rt_Task p) k)"
    "on_rt_rq (dequeue_rt_entity (Rt_Task p) k) (Rt_Task q) \<longleftrightarrow> on_rt_rq k (Rt_Task q) \<and> q \<noteq> p"
proof -
  note O = off_stack_spec [where p = p, OF inv]
  have off: "\<not> on_rt_rq (off_stack p k) (Rt_Group h)"
    if "h \<in> set (path_chain (sched_task_group (tasks k p)))" "h \<noteq> []" for h
    using that by (auto simp: O(3) set_group_chain)
  note E = enq_groups_inv [OF O(1) v off O(4), of False]
  show "rt_inv (dequeue_rt_entity (Rt_Task p) k)" using E(1) by (simp add: rt_entity_task_eq)
  show "rt_frame k (dequeue_rt_entity (Rt_Task p) k)"
    using O(2) E(2) rt_frame_trans by (auto simp: rt_entity_task_eq)
  show "on_rt_rq (dequeue_rt_entity (Rt_Task p) k) (Rt_Task q) \<longleftrightarrow> on_rt_rq k (Rt_Task q) \<and> q \<noteq> p"
    using E(3) by (auto simp: rt_entity_task_eq O(3) set_group_chain)
qed

text \<open>What the class asks of a task: a real-time priority, and identifiers within bounds.\<close>

definition rt_admissible :: "'f kernel \<Rightarrow> tid \<Rightarrow> bool" where
  "rt_admissible k p \<longleftrightarrow> 0 \<le> prio (tasks k p) \<and> prio (tasks k p) < MAX_RT_PRIO \<and> p < PID_MAX_LIMIT \<and>
     valid_tg (sched_task_group (tasks k p))"

lemma enqueue_rt_entity_task:
  assumes inv: "rt_inv k" and adm: "rt_admissible k p"
  shows "rt_inv (enqueue_rt_entity (Rt_Task p) head k)" "rt_frame k (enqueue_rt_entity (Rt_Task p) head k)"
    "on_rt_rq (enqueue_rt_entity (Rt_Task p) head k) (Rt_Task q) \<longleftrightarrow> on_rt_rq k (Rt_Task q) \<or> q = p"
proof -
  let ?g = "sched_task_group (tasks k p)" and ?k = "off_stack p k" and ?s = "Rt_Task p"
  let ?k1 = "enqueue_rt_entity1 ?s head ?k"
  note O = off_stack_spec [where p = p, OF inv]
  have v: "valid_tg ?g" using adm by (simp add: rt_admissible_def)
  have b: "belongs ?k ?g ?s"
    using adm rt_frame_tasks [OF O(2)] by (simp add: belongs_def rt_rq_of_se_def rt_admissible_def)
  have noton: "\<not> on_rt_rq ?k ?s" and off: "?g \<noteq> [] \<Longrightarrow> \<not> on_rt_rq ?k (Rt_Group ?g)"
    by (auto simp: O(3) set_group_chain)
  have pr: "0 \<le> prio (tasks ?k q) \<and> prio (tasks ?k q) < MAX_RT_PRIO" if "?s = Rt_Task q" for q
    using adm that rt_frame_tasks [OF O(2)] by (simp add: rt_admissible_def)
  note e = enqueue1_step [where head = head, OF O(1) noton b off v pr]
  have off1: "\<not> on_rt_rq ?k1 (Rt_Group h)" if "h \<in> set (path_chain ?g)" "h \<noteq> []" for h
    using that by (auto simp: e(3) O(3) set_group_chain)
  have ok1: "group_ok ?k1 h" if h: "h \<notin> set (path_chain ?g)" for h
  proof -
    have "h \<noteq> ?g" using h by auto
    then show ?thesis using O(4) [OF h] e(4) [of h] by (simp add: group_ok_def e(3))
  qed
  note E = enq_groups_inv [OF e(1) v off1 ok1, of head]
  show "rt_inv (enqueue_rt_entity (Rt_Task p) head k)" using E(1) by (simp add: rt_entity_task_eq)
  show "rt_frame k (enqueue_rt_entity (Rt_Task p) head k)"
    using O(2) e(2) E(2) rt_frame_trans unfolding rt_entity_task_eq by blast
  show "on_rt_rq (enqueue_rt_entity (Rt_Task p) head k) (Rt_Task q) \<longleftrightarrow> on_rt_rq k (Rt_Task q) \<or> q = p"
    using E(3) by (auto simp: rt_entity_task_eq e(3) O(3) set_group_chain rt_skip_def)
qed

section \<open>Steps that do not move entities\<close>

text \<open>
  What operations of the class keep of a task: everything the queues depend on. Run-time
  statistics and the request to reschedule may change.
\<close>

definition rt_sim :: "'f kernel \<Rightarrow> 'f kernel \<Rightarrow> bool" where
  "rt_sim k k' \<longleftrightarrow> rq k' = rq k \<and> panicked k' = panicked k \<and> cfs k' = cfs k \<and> xtime_nsec k' = xtime_nsec k \<and>
     (\<forall>p. prio (tasks k' p) = prio (tasks k p) \<and> normal_prio (tasks k' p) = normal_prio (tasks k p) \<and>
       sched_task_group (tasks k' p) = sched_task_group (tasks k p) \<and>
       sched_class (tasks k' p) = sched_class (tasks k p) \<and> policy (tasks k' p) = policy (tasks k p) \<and>
       p_rt (tasks k' p) = p_rt (tasks k p) \<and> p_wrr (tasks k' p) = p_wrr (tasks k p) \<and>
       on_rq (tasks k' p) = on_rq (tasks k p) \<and> tsk_state (tasks k' p) = tsk_state (tasks k p))"

lemma rt_sim_refl [simp]: "rt_sim k k"
  by (simp add: rt_sim_def)

lemma rt_sim_trans: "rt_sim k k' \<Longrightarrow> rt_sim k' k'' \<Longrightarrow> rt_sim k k''"
  by (simp add: rt_sim_def)

lemma rt_frame_sim: "rt_frame k k' \<Longrightarrow> rt_sim k k'"
  by (simp add: rt_sim_def rt_frame_def)

lemma rt_sim_resched: "rt_sim k (resched_task p k)"
  by (simp add: rt_sim_def resched_task_def set_tsk_need_resched_def)

lemma rt_sim_charge_curr: "rt_sim k (charge_curr d k)"
  by (simp add: rt_sim_def)

text \<open>The same queues and priorities: the same invariant.\<close>

lemma rt_inv_cong:
  assumes "rt_rqs k' = rt_rqs k" and "\<And>p. prio (tasks k' p) = prio (tasks k p)"
    and "\<And>p. sched_task_group (tasks k' p) = sched_task_group (tasks k p)"
  shows "rt_inv k' = rt_inv k" "on_rt_rq k' s = on_rt_rq k s"
proof -
  have rq: "rt_rq_of_se k' s = rt_rq_of_se k s" and pr: "rt_se_prio k' s = rt_se_prio k s" for s
    using assms by (simp_all add: rt_rq_of_se_def rt_se_defs split: rt_entity.splits)
  show on: "on_rt_rq k' s = on_rt_rq k s" for s using assms(1) by (simp add: on_rt_rq_iff rq)
  have "belongs k' g = belongs k g" for g by (rule ext) (simp add: belongs_def rq)
  moreover have "rt_se_prio k' = rt_se_prio k" using pr by blast
  ultimately show "rt_inv k' = rt_inv k"
    using assms(1) by (simp add: rt_inv_def rt_wf_def group_ok_def on)
qed

lemma rt_inv_sim:
  "rt_sim k k' \<Longrightarrow> rt_rqs k' = rt_rqs k \<Longrightarrow> rt_inv k' = rt_inv k"
  "rt_sim k k' \<Longrightarrow> rt_rqs k' = rt_rqs k \<Longrightarrow> on_rt_rq k' s = on_rt_rq k s"
  using rt_inv_cong [of k' k] by (auto simp: rt_sim_def)

text \<open>Changing only run time and throttling of one group.\<close>

definition same_array :: "rt_rq \<Rightarrow> rt_rq \<Rightarrow> bool" where
  "same_array r r' \<longleftrightarrow> rt_active r' = rt_active r \<and> rt_nr_running r' = rt_nr_running r \<and>
     highest_prio r' = highest_prio r \<and> rt_nr_boosted r' = rt_nr_boosted r"

lemma rt_inv_but_misc:
  assumes inv: "rt_inv k" and fr: "rt_frame k k'" and eq: "rt_rqs k' = (rt_rqs k)(g := r)"
    and r: "same_array (rt_rqs k g) r"
  shows "rt_inv_but g k'" "on_rt_rq k' s = on_rt_rq k s"
    "rt_throttled r = rt_throttled (rt_rqs k g) \<Longrightarrow> rt_inv k'"
proof -
  have pr: "rt_se_prio k' = rt_se_prio k"
    using eq r fr by (auto simp: rt_se_defs rt_frame_def same_array_def split: rt_entity.splits)
  have b: "belongs k' h = belongs k h" for h using belongs_frame [OF fr] by blast
  have on: "on_rt_rq k' s = on_rt_rq k s" for s
    using r by (simp add: on_rt_rq_iff rt_rq_of_se_frame [OF fr] eq same_array_def rt_ents_def)
  have "rq_wf (rt_se_prio k) (belongs k h) (rt_rqs k' h)" for h
  proof -
    have "same_array (rt_rqs k h) (rt_rqs k' h)" using r by (simp add: eq) (simp add: same_array_def)
    moreover have "rq_wf (rt_se_prio k) (belongs k h) (rt_rqs k h)"
      using inv by (intro rt_wfD(1)) (simp add: rt_inv_def)
    ultimately show ?thesis unfolding rq_wf_def same_array_def rt_count_def by simp
  qed
  then have wf: "rt_wf k'"
    using inv r unfolding rt_wf_def pr b by (auto simp: eq rt_inv_def rt_wf_def same_array_def)
  show "on_rt_rq k' s = on_rt_rq k s" by (rule on)
  show "rt_inv_but g k'" using wf inv by (auto simp: rt_inv_but_def rt_inv_def group_ok_def on eq)
  show "rt_inv k'" if "rt_throttled r = rt_throttled (rt_rqs k g)"
    using wf inv r that
    by (auto simp: rt_inv_def group_ok_def on eq same_array_def rt_rq_throttled_def)
qed

lemma rt_inv_upd_misc:
  assumes inv: "rt_inv k" and r: "same_array (rt_rqs k g) (f (rt_rqs k g))"
  shows "rt_inv_but g (upd_rt g f k)" "on_rt_rq (upd_rt g f k) s = on_rt_rq k s"
    "rt_throttled (f (rt_rqs k g)) = rt_throttled (rt_rqs k g) \<Longrightarrow> rt_inv (upd_rt g f k)"
    "rt_frame k (upd_rt g f k)"
proof -
  show fr: "rt_frame k (upd_rt g f k)" by (simp add: rt_frame_def)
  have "rt_rqs (upd_rt g f k) = (rt_rqs k)(g := f (rt_rqs k g))" by simp
  note m = rt_inv_but_misc [OF inv fr this r]
  show "rt_inv_but g (upd_rt g f k)" "on_rt_rq (upd_rt g f k) s = on_rt_rq k s"
    "rt_throttled (f (rt_rqs k g)) = rt_throttled (rt_rqs k g) \<Longrightarrow> rt_inv (upd_rt g f k)"
    using m by auto
qed

section \<open>Throttling\<close>

lemma sched_rt_rq_dequeue_inv:
  assumes but: "rt_inv_but g k" and thr: "rt_rq_throttled (rt_rqs k g)"
    and v: "on_rt_rq k (Rt_Group g) \<Longrightarrow> valid_tg g"
  shows "rt_inv (sched_rt_rq_dequeue g k)" "rt_frame k (sched_rt_rq_dequeue g k)"
    "on_rt_rq (sched_rt_rq_dequeue g k) (Rt_Task p) = on_rt_rq k (Rt_Task p)"
    "rt_rqs (sched_rt_rq_dequeue g k) g = rt_rqs k g"
proof -
  note R = regroup_inv [OF but v, of False]
  show "rt_rqs (sched_rt_rq_dequeue g k) g = rt_rqs k g"
    using regroup_same [of k g False] but v
    by (cases g) (simp_all add: sched_rt_rq_dequeue_def tg_rt_se_def rt_entity_group_eq rt_inv_but_def)
  show "rt_inv (sched_rt_rq_dequeue g k)"
  proof (cases "on_rt_rq k (Rt_Group g)")
    case True
    then show ?thesis
      using R(1) but by (cases g) (simp_all add: sched_rt_rq_dequeue_def tg_rt_se_def rt_entity_group_eq)
  next
    case False
    then have "g \<noteq> [] \<Longrightarrow> group_ok k g" using thr by (simp add: group_ok_def)
    then have "rt_inv k" using but by (auto simp: rt_inv_but_def rt_inv_def)
    then show ?thesis using False by (cases g) (simp_all add: sched_rt_rq_dequeue_def tg_rt_se_def)
  qed
  show "rt_frame k (sched_rt_rq_dequeue g k)"
    using R(2) by (cases g) (simp_all add: sched_rt_rq_dequeue_def tg_rt_se_def rt_entity_group_eq)
  show "on_rt_rq (sched_rt_rq_dequeue g k) (Rt_Task p) = on_rt_rq k (Rt_Task p)"
    using R(3) by (cases g) (simp_all add: sched_rt_rq_dequeue_def tg_rt_se_def rt_entity_group_eq)
qed

lemma valid_of_queued_group: "rt_inv k \<Longrightarrow> on_rt_rq k (Rt_Group g) \<Longrightarrow> valid_tg g"
proof (cases g)
  case (Cons x h)
  assume "rt_inv k" "on_rt_rq k (Rt_Group g)"
  then have "rt_nr_running (rt_rqs k g) \<noteq> 0" "rt_wf k" using Cons by (auto simp: rt_inv_def group_ok_def)
  then show ?thesis using rt_wfD(4) by blast
qed (simp add: valid_tg_def)

lemma sched_rt_runtime_exceeded_inv:
  assumes inv: "rt_inv k"
  shows "rt_inv (snd (sched_rt_runtime_exceeded g k)) \<and> rt_frame k (snd (sched_rt_runtime_exceeded g k)) \<and>
    on_rt_rq (snd (sched_rt_runtime_exceeded g k)) (Rt_Task p) = on_rt_rq k (Rt_Task p)"
proof -
  let ?t = "upd_rt g (rt_throttled_update (\<lambda>_. True)) k" and ?z = "upd_rt g (rt_time_update (\<lambda>_. 0)) k"
  have t: "rt_inv_but g ?t" "on_rt_rq ?t s = on_rt_rq k s" for s
    using rt_inv_upd_misc [OF inv, of g "rt_throttled_update (\<lambda>_. True)"] by (simp_all add: same_array_def)
  have z: "rt_inv ?z" "on_rt_rq ?z s = on_rt_rq k s" for s
    using rt_inv_upd_misc [OF inv, of g "rt_time_update (\<lambda>_. 0)"] by (simp_all add: same_array_def)
  have tt: "rt_inv ?t" if "\<not> rt_rq_throttled (rt_rqs ?t g)"
    using t(1) inv that t(2) by (auto simp: rt_inv_def rt_inv_but_def group_ok_def rt_rq_throttled_def)
  have v: "on_rt_rq ?t (Rt_Group g) \<Longrightarrow> valid_tg g" using valid_of_queued_group [OF inv] t(2) by simp
  note d = sched_rt_rq_dequeue_inv(1-3) [OF t(1) _ v]
  have zz: "rt_rq_throttled (rt_rqs ?z g) \<Longrightarrow> rt_throttled (rt_rqs k g)" by (simp add: rt_rq_throttled_def)
  have fr: "rt_frame k ?t" "rt_frame k ?z" by (simp_all add: rt_frame_def)
  show ?thesis
    unfolding sched_rt_runtime_exceeded_def Let_def balance_runtime_up_def
    using inv d tt z t(2) zz fr rt_frame_trans by auto
qed

lemma charge_rt_rq_inv:
  assumes inv: "rt_inv k"
  shows "rt_inv (charge_rt_rq d g k) \<and> rt_sim k (charge_rt_rq d g k) \<and>
    on_rt_rq (charge_rt_rq d g k) (Rt_Task p) = on_rt_rq k (Rt_Task p)"
proof -
  let ?k = "upd_rt g (rt_time_update (\<lambda>t. t + d)) k"
  let ?x = "sched_rt_runtime_exceeded g ?k"
  have k: "rt_inv ?k" "on_rt_rq ?k s = on_rt_rq k s" "rt_frame k ?k" for s
    using rt_inv_upd_misc [OF inv, of g "rt_time_update (\<lambda>t. t + d)"] by (simp_all add: same_array_def)
  note x = sched_rt_runtime_exceeded_inv [OF k(1), of g p]
  have fr: "rt_frame k (snd ?x)" using x k(3) rt_frame_trans by blast
  let ?r = "resched_task (curr (rq (snd ?x))) (snd ?x)"
  have "rt_inv ?r = rt_inv (snd ?x)" "on_rt_rq ?r s = on_rt_rq (snd ?x) s" for s
    using rt_inv_sim [OF rt_sim_resched] by (simp_all add: resched_task_def set_tsk_need_resched_def)
  moreover have "rt_sim k ?r" using rt_frame_sim [OF fr] rt_sim_resched rt_sim_trans by blast
  ultimately show ?thesis
    using inv x k(2) rt_frame_sim [OF fr] by (simp add: charge_rt_rq_def split_def Let_def)
qed

lemma fold_charge_inv:
  assumes "rt_inv k"
  shows "rt_inv (fold (\<lambda>s k. charge_rt_rq d (rt_rq_of_se k s) k) ss k) \<and>
    rt_sim k (fold (\<lambda>s k. charge_rt_rq d (rt_rq_of_se k s) k) ss k) \<and>
    on_rt_rq (fold (\<lambda>s k. charge_rt_rq d (rt_rq_of_se k s) k) ss k) (Rt_Task p) = on_rt_rq k (Rt_Task p)"
  using assms
proof (induction ss arbitrary: k)
  case (Cons s ss)
  let ?k = "charge_rt_rq d (rt_rq_of_se k s) k"
  have c: "rt_inv ?k" "rt_sim k ?k" "on_rt_rq ?k (Rt_Task p) = on_rt_rq k (Rt_Task p)"
    using charge_rt_rq_inv [OF Cons.prems] by blast+
  show ?case using Cons.IH [OF c(1)] c(2,3) rt_sim_trans by (simp) blast
qed simp

lemma update_curr_rt_inv:
  assumes inv: "rt_inv k"
  shows "rt_inv (update_curr_rt k)" "rt_sim k (update_curr_rt k)"
    "on_rt_rq (update_curr_rt k) (Rt_Task p) = on_rt_rq k (Rt_Task p)"
proof -
  let ?k = "charge_curr (delta_exec k) k"
  have k: "rt_inv ?k" "on_rt_rq ?k s = on_rt_rq k s" for s
    using rt_inv_sim [OF rt_sim_charge_curr [of k "delta_exec k"]] inv by simp_all
  note f = fold_charge_inv [OF k(1), where p = p]
  show "rt_inv (update_curr_rt k)" using inv k f by (simp add: update_curr_rt_def Let_def)
  show "rt_sim k (update_curr_rt k)"
    using rt_sim_charge_curr [of k] f rt_sim_trans by (simp add: update_curr_rt_def Let_def) blast
  show "on_rt_rq (update_curr_rt k) (Rt_Task p) = on_rt_rq k (Rt_Task p)"
    using k f by (simp add: update_curr_rt_def Let_def)
qed

end
