(* ===== verification/Rt_Class.thy ===== *)
theory Rt_Class
  imports Rt_Props
begin

text \<open>
  The operations of the real-time class as a whole: they keep the invariant, the class is a
  queueing class, it picks a task of the highest priority, and throttling ends.
\<close>

section \<open>Enqueue and dequeue\<close>

definition rt_queued :: "'f kernel \<Rightarrow> tid set" where
  "rt_queued k = {p. on_rt_rq k (Rt_Task p)}"

lemma rt_queued_valid: "rt_inv k \<Longrightarrow> on_rt_rq k (Rt_Task p) \<Longrightarrow> valid_tg (sched_task_group (tasks k p))"
  using rt_wfD(2,4) [of k "sched_task_group (tasks k p)"]
  by (auto simp: rt_inv_def on_rt_rq_iff rt_rq_of_se_def)

lemma enqueue_task_rt_spec:
  assumes inv: "rt_inv k" and adm: "rt_admissible k p"
  shows "rt_inv (enqueue_task_rt p fl k)" "rt_queued (enqueue_task_rt p fl k) = insert p (rt_queued k)"
    "rq (enqueue_task_rt p fl k) = (rq k)\<lparr>nr_running := nr_running (rq k) + 1\<rparr>"
    "panicked (enqueue_task_rt p fl k) = panicked k"
proof -
  let ?k = "if fl AND ENQUEUE_WAKEUP \<noteq> 0 then upd_task p (p_rt_update (timeout_update (\<lambda>_. 0))) k else k"
  let ?e = "enqueue_rt_entity (Rt_Task p) (fl AND ENQUEUE_HEAD \<noteq> 0) ?k"
  have eq: "enqueue_task_rt p fl k = inc_nr_running ?e" by (simp add: enqueue_task_rt_def Let_def)
  have k: "rt_inv ?k = rt_inv k" "on_rt_rq ?k s = on_rt_rq k s" for s by (rule rt_inv_cong; simp)+
  have "rt_admissible ?k p" using adm by (simp add: rt_admissible_def)
  note e = enqueue_rt_entity_task [OF iffD2 [OF k(1) inv] this, where head = "fl AND ENQUEUE_HEAD \<noteq> 0"]
  have i: "rt_inv (inc_nr_running ?e) = rt_inv ?e" "on_rt_rq (inc_nr_running ?e) s = on_rt_rq ?e s" for s
    by (rule rt_inv_cong; simp add: inc_nr_running_def)+
  show "rt_inv (enqueue_task_rt p fl k)" unfolding eq i(1) by (rule e)
  show "rt_queued (enqueue_task_rt p fl k) = insert p (rt_queued k)"
    unfolding eq rt_queued_def i(2) e(3) k(2) by auto
  show "rq (enqueue_task_rt p fl k) = (rq k)\<lparr>nr_running := nr_running (rq k) + 1\<rparr>"
    using e(2) by (cases "rq k") (simp add: eq inc_nr_running_def rt_frame_def)
  show "panicked (enqueue_task_rt p fl k) = panicked k"
    using e(2) by (simp add: eq inc_nr_running_def rt_frame_def)
qed

lemma dequeue_task_rt_spec:
  assumes inv: "rt_inv k" and p: "p \<in> rt_queued k"
  shows "rt_inv (dequeue_task_rt p fl k)" "rt_queued (dequeue_task_rt p fl k) = rt_queued k - {p}"
    "rq (dequeue_task_rt p fl k) = (rq k)\<lparr>nr_running := nr_running (rq k) - 1\<rparr>"
    "panicked (dequeue_task_rt p fl k) = panicked k"
proof -
  let ?u = "update_curr_rt k"
  let ?d = "dequeue_rt_entity (Rt_Task p) ?u"
  have eq: "dequeue_task_rt p fl k = dec_nr_running ?d" by (simp add: dequeue_task_rt_def)
  note u = update_curr_rt_inv [OF inv]
  have "valid_tg (sched_task_group (tasks ?u p))"
    using rt_queued_valid [OF inv] p u(2) by (simp add: rt_queued_def rt_sim_def)
  note d = dequeue_rt_entity_task [OF u(1) this]
  have i: "rt_inv (dec_nr_running ?d) = rt_inv ?d" "on_rt_rq (dec_nr_running ?d) s = on_rt_rq ?d s" for s
    by (rule rt_inv_cong; simp add: dec_nr_running_def)+
  show "rt_inv (dequeue_task_rt p fl k)" unfolding eq i(1) by (rule d)
  show "rt_queued (dequeue_task_rt p fl k) = rt_queued k - {p}"
    unfolding eq rt_queued_def i(2) d(3) u(3) by auto
  show "rq (dequeue_task_rt p fl k) = (rq k)\<lparr>nr_running := nr_running (rq k) - 1\<rparr>"
    using d(2) u(2) by (cases "rq k") (simp add: eq dec_nr_running_def rt_frame_def rt_sim_def)
  show "panicked (dequeue_task_rt p fl k) = panicked k"
    using d(2) u(2) by (simp add: eq dec_nr_running_def rt_frame_def rt_sim_def)
qed

interpretation rt_class: queue_class rt_inv rt_queued rt_admissible enqueue_task_rt dequeue_task_rt
  by unfold_locales (simp_all add: enqueue_task_rt_spec dequeue_task_rt_spec)

section \<open>Moving a queued entity\<close>

lemma rt_inv_same_ents:
  assumes inv: "rt_inv k" and fr: "rt_frame k k'" and eq: "rt_rqs k' = (rt_rqs k)(g := r)"
    and r: "rq_wf (rt_se_prio k) (belongs k g) r" "rt_ents r = rt_ents (rt_rqs k g)"
      "highest_prio r = highest_prio (rt_rqs k g)" "rt_nr_running r = rt_nr_running (rt_rqs k g)"
      "rt_throttled r = rt_throttled (rt_rqs k g)" "rt_nr_boosted r = rt_nr_boosted (rt_rqs k g)"
  shows "rt_inv k'" "on_rt_rq k' s = on_rt_rq k s"
proof -
  have pr: "rt_se_prio k' = rt_se_prio k"
    using eq r(3) fr by (auto simp: rt_se_defs rt_frame_def split: rt_entity.splits)
  have b: "belongs k' h = belongs k h" for h using belongs_frame [OF fr] by blast
  show on: "on_rt_rq k' s = on_rt_rq k s" for s
    using r(2) by (simp add: on_rt_rq_iff rt_rq_of_se_frame [OF fr] eq)
  have wf: "rt_wf k" and ok: "h \<noteq> [] \<Longrightarrow> group_ok k h" for h using inv by (auto simp: rt_inv_def)
  have "rt_wf k'" unfolding rt_wf_def pr b using r(1,4) rt_wfD(1,4) [OF wf] by (auto simp: eq)
  moreover have "group_ok k' h" if "h \<noteq> []" for h
    using ok [OF that] r(4-6) by (simp add: group_ok_def on eq rt_rq_throttled_def)
  ultimately show "rt_inv k'" by (simp add: rt_inv_def)
qed

definition rq_move :: "rt_entity \<Rightarrow> nat \<Rightarrow> bool \<Rightarrow> rt_rq \<Rightarrow> rt_rq" where
  "rq_move s i head r = r\<lparr>rt_active := (rt_active r)\<lparr>queue := (\<lambda>j. remove1 s (queue (rt_active r) j))
     (i := (if head then s # remove1 s (queue (rt_active r) i) else remove1 s (queue (rt_active r) i) @ [s]))\<rparr>\<rparr>"

lemma rq_wf_move:
  assumes wf: "rq_wf pr ok r" and s: "s \<in> set (queue (rt_active r) i)" "i < 100"
  shows "rq_wf pr ok (rq_move s i head r)" "rt_ents (rq_move s i head r) = rt_ents r"
proof -
  note D = rq_wfD [OF wf]
  let ?q = "queue (rt_active r)" and ?r = "rq_move s i head r"
  have other: "j < 100 \<Longrightarrow> j \<noteq> i \<Longrightarrow> s \<notin> set (?q j)" for j using D(4) [of j s] D(4) [OF s(2,1)] by auto
  have q: "queue (rt_active ?r) j = (if j = i then (if head then s # remove1 s (?q i) else remove1 s (?q i) @ [s])
      else ?q j)" if "j < 100" for j
    using other [OF that] by (simp add: rq_move_def)
  have set: "set (queue (rt_active ?r) j) = set (?q j)" if "j < 100" for j
    using D(3) [OF s(2)] s(1) by (auto simp: q [OF that] set_remove1_eq)
  have len: "length (queue (rt_active ?r) j) = length (?q j)" if "j < 100" for j
    using length_pos_if_in_set [OF s(1)] s(1) by (auto simp: q [OF that] length_remove1)
  have cnt: "rt_count ?r = rt_count r" using len by (simp add: rt_count_def)
  show "rt_ents ?r = rt_ents r" using set by (simp add: rt_ents_def)
  have same: "bitmap (rt_active ?r) = bitmap (rt_active r)" "rt_nr_running ?r = rt_nr_running r"
    "highest_prio ?r = highest_prio r" by (simp_all add: rq_move_def)
  have ne: "queue (rt_active ?r) j \<noteq> [] \<longleftrightarrow> ?q j \<noteq> []" if "j < 100" for j
    using len [OF that] by (metis length_0_conv)
  have dist: "distinct (queue (rt_active ?r) j)" if "j < 100" for j
    using D(3) that s(2) by (auto simp: q [OF that] set_remove1_eq distinct_remove1)
  show "rq_wf pr ok ?r"
  proof (rule rq_wfI [OF _ _ dist])
    show "pr t = int j \<and> ok t" if "j < 100" "t \<in> set (queue (rt_active ?r) j)" for j t
      using D(4,5) [OF that(1)] that set by simp
  qed (use D ne in \<open>simp_all add: same cnt\<close>)
qed

lemma requeue_rt_entity_inv:
  assumes inv: "rt_inv k" and g: "g = rt_rq_of_se k s"
  shows "rt_inv (requeue_rt_entity g s head k) \<and> rt_frame k (requeue_rt_entity g s head k) \<and>
    on_rt_rq (requeue_rt_entity g s head k) t = on_rt_rq k t"
proof (cases "on_rt_rq k s")
  case True
  have wf: "rq_wf (rt_se_prio k) (belongs k g) (rt_rqs k g)" using inv by (intro rt_wfD(1)) (simp add: rt_inv_def)
  have ent: "s \<in> rt_ents (rt_rqs k g)" using True g by (simp add: on_rt_rq_iff)
  obtain i where i: "rt_se_prio k s = int i" "i < 100" "s \<in> set (queue (rt_active (rt_rqs k g)) i)"
    using ent rt_ents_iff [OF wf, of s] that [of "nat (rt_se_prio k s)"] by auto
  let ?k = "requeue_rt_entity g s head k"
  have eq: "rt_rqs ?k = (rt_rqs k)(g := rq_move s i head (rt_rqs k g))"
    using True i(1) by (simp add: requeue_rt_entity_def upd_queue_def unlink_rt_def rq_move_def list_ops fun_eq_iff)
  have fr: "rt_frame k ?k" by (simp add: requeue_rt_entity_def upd_queue_def unlink_rt_def rt_frame_def)
  have "rt_inv ?k" "on_rt_rq ?k t = on_rt_rq k t"
    using rt_inv_same_ents [OF inv fr eq] rq_wf_move [OF wf i(3,2)] by (simp_all add: rq_move_def)
  then show ?thesis using fr by blast
qed (simp add: requeue_rt_entity_def inv)

lemma requeue_task_rt_inv:
  assumes "rt_inv k"
  shows "rt_inv (requeue_task_rt p head k) \<and> rt_frame k (requeue_task_rt p head k) \<and>
    rt_queued (requeue_task_rt p head k) = rt_queued k"
proof -
  have "rt_inv (fold (\<lambda>s k. requeue_rt_entity (rt_rq_of_se k s) s head k) ss k) \<and>
    rt_frame k (fold (\<lambda>s k. requeue_rt_entity (rt_rq_of_se k s) s head k) ss k) \<and>
    (\<forall>t. on_rt_rq (fold (\<lambda>s k. requeue_rt_entity (rt_rq_of_se k s) s head k) ss k) t = on_rt_rq k t)" for ss
    using assms
  proof (induction ss arbitrary: k)
    case (Cons s ss)
    let ?k = "requeue_rt_entity (rt_rq_of_se k s) s head k"
    note r = requeue_rt_entity_inv [OF Cons.prems refl, of s head]
    show ?case using Cons.IH [of ?k] r rt_frame_trans by (simp) blast
  qed simp
  then show ?thesis by (auto simp: requeue_task_rt_def rt_queued_def)
qed

section \<open>The tick\<close>

lemma watchdog_rt_keeps:
  "rt_rqs (watchdog_rt e p k) = rt_rqs k" "rq (watchdog_rt e p k) = rq k"
  "panicked (watchdog_rt e p k) = panicked k"
  "prio (tasks (watchdog_rt e p k) q) = prio (tasks k q)"
  "sched_task_group (tasks (watchdog_rt e p k) q) = sched_task_group (tasks k q)"
  "policy (tasks (watchdog_rt e p k) q) = policy (tasks k q)"
  "rt_time_slice (p_rt (tasks (watchdog_rt e p k) q)) = rt_time_slice (p_rt (tasks k q))"
  by (simp_all add: watchdog_rt_def Let_def split_def)

lemma task_tick_rt_inv:
  assumes inv: "rt_inv k"
  shows "rt_inv (task_tick_rt e p b k) \<and> rt_queued (task_tick_rt e p b k) = rt_queued k \<and>
    rq (task_tick_rt e p b k) = rq k \<and> panicked (task_tick_rt e p b k) = panicked k"
proof -
  define k1 where "k1 = watchdog_rt e p (update_curr_rt k)"
  define k2 where "k2 = upd_task p (p_rt_update (rt_time_slice_update (\<lambda>_. rt_time_slice (p_rt (tasks k1 p)) - 1))) k1"
  define k3 where "k3 = upd_task p (p_rt_update (rt_time_slice_update (\<lambda>_. RR_TIMESLICE))) k2"
  define k4 where "k4 = requeue_task_rt p False k3"
  note u = update_curr_rt_inv [OF inv]
  have k1: "rt_inv k1" "on_rt_rq k1 (Rt_Task q) = on_rt_rq k (Rt_Task q)" "rq k1 = rq k" "panicked k1 = panicked k" for q
    using rt_inv_cong [of k1 "update_curr_rt k"] u
    by (simp_all add: k1_def watchdog_rt_keeps rt_sim_def)
  have k2: "rt_inv k2" "on_rt_rq k2 s = on_rt_rq k1 s" "rq k2 = rq k1" "panicked k2 = panicked k1" for s
    using rt_inv_cong [of k2 k1] k1(1) by (simp_all add: k2_def)
  have k3: "rt_inv k3" "on_rt_rq k3 s = on_rt_rq k2 s" "rq k3 = rq k2" "panicked k3 = panicked k2" for s
    using rt_inv_cong [of k3 k2] k2(1) by (simp_all add: k3_def)
  note r = requeue_task_rt_inv [OF k3(1), of p False]
  let ?k5 = "set_tsk_need_resched p k4"
  have k5: "rt_inv ?k5 = rt_inv k4" "on_rt_rq ?k5 s = on_rt_rq k4 s" for s
    by (rule rt_inv_cong; simp add: set_tsk_need_resched_def)+
  have "task_tick_rt e p b k = k1 \<or> task_tick_rt e p b k = k2 \<or> task_tick_rt e p b k = k3 \<or> task_tick_rt e p b k = ?k5"
    by (simp add: task_tick_rt_def Let_def k1_def k2_def k3_def k4_def)
  moreover have "rq ?k5 = rq k4" "panicked ?k5 = panicked k4" by (simp_all add: set_tsk_need_resched_def)
  ultimately show ?thesis
    using k1 k2 k3 r k5 by (auto simp: rt_queued_def k4_def [symmetric] rt_frame_def)
qed

section \<open>The period timer\<close>

text \<open>The run queue of the group after the first half of the handler.\<close>

definition replenish :: "u64 \<Rightarrow> rt_rq \<Rightarrow> rt_rq" where
  "replenish n r =
     (if rt_time r = 0 then r
      else let t = rt_time r - min (rt_time r) (n * rt_runtime r)
           in r\<lparr>rt_time := t, rt_throttled := rt_throttled r \<and> \<not> t < rt_runtime r\<rparr>)"

definition timer_enqueues :: "u64 \<Rightarrow> rt_rq \<Rightarrow> bool" where
  "timer_enqueues n r \<longleftrightarrow>
     (if rt_time r \<noteq> 0 then rt_throttled r \<and> \<not> rt_throttled (replenish n r)
      else rt_nr_running r \<noteq> 0 \<and> \<not> rt_rq_throttled r)"

text \<open>What the first half leaves alone.\<close>

definition rt_frame_clock :: "'f kernel \<Rightarrow> 'f kernel \<Rightarrow> bool" where
  "rt_frame_clock k k' \<longleftrightarrow> tasks k' = tasks k \<and> panicked k' = panicked k \<and> cfs k' = cfs k \<and>
     rt_bandwidths k' = rt_bandwidths k \<and> (\<exists>c. rq k' = (rq k)\<lparr>skip_clock_update := c\<rparr>)"

lemma rt_frame_clock_same:
  assumes "tasks k' = tasks k" "panicked k' = panicked k" "cfs k' = cfs k" "rt_bandwidths k' = rt_bandwidths k"
    "rq k' = rq k"
  shows "rt_frame_clock k k'"
proof -
  have "rq k' = (rq k)\<lparr>skip_clock_update := skip_clock_update (rq k)\<rparr>" using assms(5) by simp
  then show ?thesis using assms unfolding rt_frame_clock_def by blast
qed

lemma rt_frame_clockI:
  "rt_frame_clock k k" "rt_frame_clock k (upd_rt g f k)"
  "rt_frame_clock k (rq_update (skip_clock_update_update (\<lambda>_. c)) (upd_rt g f k))"
  by (simp_all add: rt_frame_clock_same) (auto simp: rt_frame_clock_def intro!: exI [of _ c])

lemma rt_period_replenish_eq:
  assumes nz: "rt_time (rt_rqs k g) \<noteq> 0"
  shows "fst (rt_period_replenish g n k) = timer_enqueues n (rt_rqs k g)"
    "rt_rqs (snd (rt_period_replenish g n k)) = (rt_rqs k)(g := replenish n (rt_rqs k g))"
    "rt_frame_clock k (snd (rt_period_replenish g n k))"
proof -
  let ?r = "rt_rqs k g"
  let ?u = "rt_throttled ?r \<and> rt_time ?r - min (rt_time ?r) (n * rt_runtime ?r) < rt_runtime ?r"
  let ?f = "rt_time_update (\<lambda>t. t - min t (n * rt_runtime ?r))"
  have u: "timer_enqueues n ?r = ?u" using nz by (auto simp: timer_enqueues_def replenish_def Let_def)
  have e: "rt_period_replenish g n k = (if ?u then
      (True, let k3 = upd_rt g (rt_throttled_update (\<lambda>_. False)) (upd_rt g ?f k)
             in if rt_nr_running ?r \<noteq> 0 \<and> curr (rq k) = idle (rq k)
                then rq_update (skip_clock_update_update (\<lambda>_. - 1)) k3 else k3)
      else (False, upd_rt g ?f k))"
    by (simp add: rt_period_replenish_def Let_def balance_runtime_up_def)
  show "fst (rt_period_replenish g n k) = timer_enqueues n ?r" by (simp add: e u)
  show "rt_rqs (snd (rt_period_replenish g n k)) = (rt_rqs k)(g := replenish n ?r)"
  proof (cases ?u)
    case True
    then show ?thesis using nz unfolding e by (simp add: replenish_def Let_def fun_eq_iff)
  next
    case False
    then show ?thesis
      using nz unfolding e by (cases "rt_rqs k g") (auto simp: replenish_def Let_def fun_eq_iff)
  qed
  show "rt_frame_clock k (snd (rt_period_replenish g n k))"
    unfolding e Let_def
    by (simp add: rt_frame_clock_same) (auto simp: rt_frame_clock_def intro!: exI [of _ "- 1"])
qed

lemma do_sched_rt_period_timer_half:
  "\<exists>k1. snd (do_sched_rt_period_timer g n k) =
       (if timer_enqueues n (rt_rqs k g) then sched_rt_rq_enqueue g k1 else k1) \<and>
     rt_rqs k1 = (rt_rqs k)(g := replenish n (rt_rqs k g)) \<and> rt_frame_clock k k1"
proof (cases "rt_time (rt_rqs k g) = 0")
  case True
  then show ?thesis
    by (intro exI [of _ k])
      (simp add: do_sched_rt_period_timer_def Let_def timer_enqueues_def split_def replenish_def fun_upd_idem
        rt_frame_clockI)
next
  case False
  then show ?thesis
    using rt_period_replenish_eq [OF False, of n]
    by (intro exI [of _ "snd (rt_period_replenish g n k)"])
      (simp add: do_sched_rt_period_timer_def Let_def split_def)
qed

lemma replenish_keeps:
  "rt_active (replenish n r) = rt_active r" "rt_nr_running (replenish n r) = rt_nr_running r"
  "highest_prio (replenish n r) = highest_prio r" "rt_nr_boosted (replenish n r) = rt_nr_boosted r"
  "rt_runtime (replenish n r) = rt_runtime r"
  by (simp_all add: replenish_def Let_def)

lemma sched_rt_rq_enqueue_inv:
  assumes but: "rt_inv_but g k" and ok: "g \<noteq> [] \<Longrightarrow> on_rt_rq k (Rt_Group g) \<Longrightarrow> group_ok k g"
    and thr: "\<not> rt_rq_throttled (rt_rqs k g)"
  shows "rt_inv (sched_rt_rq_enqueue g k)" "rt_sim k (sched_rt_rq_enqueue g k)"
    "rt_rqs (sched_rt_rq_enqueue g k) g = rt_rqs k g"
    "on_rt_rq (sched_rt_rq_enqueue g k) (Rt_Task p) = on_rt_rq k (Rt_Task p)"
proof -
  define k1 where "k1 = (if g \<noteq> [] \<and> \<not> on_rt_rq k (Rt_Group g) then enq_groups g False (deq_groups g k) else k)"
  have wf: "rt_wf k" using but by (simp add: rt_inv_but_def)
  have e: "sched_rt_rq_enqueue g k = (if rt_nr_running (rt_rqs k g) = 0 then k
      else if highest_prio (rt_rqs k1 g) < prio (curr_task k1) then resched_task (curr (rq k1)) k1 else k1)"
    by (cases g) (simp_all add: sched_rt_rq_enqueue_def tg_rt_se_def Let_def k1_def rt_entity_group_eq)
  have K: "rt_inv k1 \<and> rt_frame k k1 \<and> rt_rqs k1 g = rt_rqs k g \<and> on_rt_rq k1 (Rt_Task p) = on_rt_rq k (Rt_Task p)"
    if nr: "rt_nr_running (rt_rqs k g) \<noteq> 0" for p
  proof (cases "g \<noteq> [] \<and> \<not> on_rt_rq k (Rt_Group g)")
    case True
    have v: "valid_tg g" using rt_wfD(4) [OF wf nr] .
    note R = regroup_inv [OF but v, of False]
    have "rt_rqs (enq_groups g False (deq_groups g k)) g = rt_rqs k g"
      using regroup_same [OF wf v] True by simp
    then show ?thesis using True R by (simp add: k1_def)
  next
    case False
    then have "k1 = k" unfolding k1_def by (simp only: if_False)
    moreover have "rt_inv k" using False ok but by (auto simp: rt_inv_but_def rt_inv_def)
    ultimately show ?thesis by simp
  qed
  have z: "rt_inv k" if "rt_nr_running (rt_rqs k g) = 0"
    using but ok that by (auto simp: rt_inv_but_def rt_inv_def group_ok_def)
  let ?r = "resched_task (curr (rq k1)) k1"
  have r: "rt_inv ?r = rt_inv k1" "on_rt_rq ?r s = on_rt_rq k1 s" "rt_rqs ?r = rt_rqs k1" for s
    using rt_inv_sim [OF rt_sim_resched [of k1 "curr (rq k1)"]]
    by (simp_all add: resched_task_def set_tsk_need_resched_def)
  show "rt_inv (sched_rt_rq_enqueue g k)" using K z r by (simp add: e)
  show "rt_sim k (sched_rt_rq_enqueue g k)"
    using K rt_frame_sim rt_sim_trans [OF _ rt_sim_resched] by (simp add: e) blast
  show "rt_rqs (sched_rt_rq_enqueue g k) g = rt_rqs k g" using K r by (simp add: e)
  show "on_rt_rq (sched_rt_rq_enqueue g k) (Rt_Task p) = on_rt_rq k (Rt_Task p)" using K r by (simp add: e)
qed

lemma do_sched_rt_period_timer_inv:
  assumes inv: "rt_inv k"
  shows "rt_inv (snd (do_sched_rt_period_timer g n k))"
    "rt_rqs (snd (do_sched_rt_period_timer g n k)) g = replenish n (rt_rqs k g)"
    "rt_queued (snd (do_sched_rt_period_timer g n k)) = rt_queued k"
    "panicked (snd (do_sched_rt_period_timer g n k)) = panicked k"
proof -
  let ?t = "snd (do_sched_rt_period_timer g n k)"
  obtain k1 where t: "?t = (if timer_enqueues n (rt_rqs k g) then sched_rt_rq_enqueue g k1 else k1)"
    and rqs: "rt_rqs k1 = (rt_rqs k)(g := replenish n (rt_rqs k g))" and fr: "rt_frame_clock k k1"
    using do_sched_rt_period_timer_half by blast
  define k0 where "k0 = upd_rt g (replenish n) k"
  have sa: "same_array (rt_rqs k g) (replenish n (rt_rqs k g))" by (simp add: same_array_def replenish_keeps)
  have k0: "rt_inv_but g k0" "on_rt_rq k0 s = on_rt_rq k s"
    "rt_throttled (replenish n (rt_rqs k g)) = rt_throttled (rt_rqs k g) \<Longrightarrow> rt_inv k0" for s
    using rt_inv_upd_misc [where f = "replenish n", OF inv sa] by (auto simp: k0_def)
  have eq: "rt_rqs k1 = rt_rqs k0" "tasks k1 = tasks k0" using rqs fr by (simp_all add: k0_def rt_frame_clock_def)
  have c: "rt_inv k1 = rt_inv k0" "on_rt_rq k1 s = on_rt_rq k0 s" for s by (rule rt_inv_cong; simp add: eq)+
  have but: "rt_inv_but g k1"
  proof -
    have "rt_se_prio k1 = rt_se_prio k0" "belongs k1 = belongs k0"
      using eq by (auto simp: rt_se_defs belongs_def rt_rq_of_se_def fun_eq_iff split: rt_entity.splits)
    then show ?thesis using k0(1) by (simp add: rt_inv_but_def rt_wf_def group_ok_def eq c(2))
  qed
  have pan: "panicked k1 = panicked k" using fr by (simp add: rt_frame_clock_def)
  have all: "rt_inv ?t \<and> rt_rqs ?t g = replenish n (rt_rqs k g) \<and> (\<forall>p. on_rt_rq ?t (Rt_Task p) = on_rt_rq k (Rt_Task p)) \<and>
      panicked ?t = panicked k"
  proof (cases "timer_enqueues n (rt_rqs k g)")
    case True
    have thr: "\<not> rt_rq_throttled (rt_rqs k1 g)"
      using True by (auto simp: timer_enqueues_def rqs rt_rq_throttled_def replenish_def split: if_splits)
    have "group_ok k1 g" if "g \<noteq> []" "on_rt_rq k1 (Rt_Group g)"
    proof -
      have "rt_nr_running (rt_rqs k g) \<noteq> 0" using that inv k0(2) c(2) by (simp add: rt_inv_def group_ok_def)
      then show ?thesis using that(2) thr by (simp add: group_ok_def rqs replenish_keeps)
    qed
    note s = sched_rt_rq_enqueue_inv [OF but this thr]
    show ?thesis using True t s k0(2) c(2) pan rqs by (simp add: rt_sim_def)
  next
    case False
    then have "rt_throttled (replenish n (rt_rqs k g)) = rt_throttled (rt_rqs k g)"
      by (auto simp: timer_enqueues_def replenish_def Let_def split: if_splits)
    then show ?thesis using False t k0 c pan rqs by simp
  qed
  then show "rt_inv ?t" "rt_rqs ?t g = replenish n (rt_rqs k g)" "rt_queued ?t = rt_queued k"
    "panicked ?t = panicked k" by (auto simp: rt_queued_def)
qed

section \<open>The choice of the next task\<close>

lemma first_entity:
  assumes wf: "rt_wf k" and nr: "rt_nr_running (rt_rqs k g) \<noteq> 0"
  shows "\<exists>s. pick_next_rt_entity (rt_rqs k g) = Some s \<and> s \<in> rt_ents (rt_rqs k g) \<and>
    rt_se_prio k s = highest_prio (rt_rqs k g)"
proof -
  let ?r = "rt_rqs k g"
  note q = rt_wfD(1) [OF wf, of g]
  have lt: "highest_prio ?r < 100"
    using highest_prio_range [OF q] nr rt_wfD(2) [OF wf, of g] by force
  obtain n where n: "highest_prio ?r = int n" "bitmap (rt_active ?r) n"
    using first_bit_exists [of "bitmap (rt_active ?r)", OF rq_wfD(1) [OF q]] rq_wfD(7) [OF q] by auto
  then have n100: "n < 100" using lt by simp
  then have "queue (rt_active ?r) n \<noteq> []" using rq_wfD(2) [OF q] n(2) by blast
  then obtain s t where st: "queue (rt_active ?r) n = s # t" by (meson list.exhaust)
  then have "rt_se_prio k s = int n" using rq_wfD(4) [OF q n100, of s] by simp
  then show ?thesis
    using st n n100 rq_wfD(7) [OF q]
    by (auto simp: pick_next_rt_entity_def Let_def prio_consts rt_ents_def intro!: bexI [of _ n])
qed

lemma pick_rt_descend_ends:
  assumes "rt_inv k" and "rt_nr_running (rt_rqs k g) \<noteq> 0"
  shows "\<exists>p. pick_rt_descend (rt_rqs k) g = Some (Some p) \<and> on_rt_rq k (Rt_Task p) \<and>
    prio (tasks k p) = highest_prio (rt_rqs k g)"
  using assms(2)
proof (induction "2048 - length g" arbitrary: g rule: less_induct)
  case less
  have wf: "rt_wf k" using assms(1) by (simp add: rt_inv_def)
  obtain s where s: "pick_next_rt_entity (rt_rqs k g) = Some s" "s \<in> rt_ents (rt_rqs k g)"
    "rt_se_prio k s = highest_prio (rt_rqs k g)"
    using first_entity [OF wf less.prems] by blast
  have b: "belongs k g s" using rt_wfD(3) [OF wf s(2)] .
  then have on: "on_rt_rq k s" using s(2) by (simp add: on_rt_rq_iff belongs_def)
  show ?case
  proof (cases s)
    case (Rt_Task p)
    then show ?thesis using s on by (subst pick_rt_descend.simps) (simp add: rt_se_defs)
  next
    case (Rt_Group h)
    then have h: "h \<noteq> []" "tl h = g" using b by (auto simp: belongs_def rt_rq_of_se_def)
    then have nr: "rt_nr_running (rt_rqs k h) \<noteq> 0"
      using on Rt_Group assms(1) by (simp add: rt_inv_def group_ok_def)
    then have "length h \<le> 2048" using rt_wfD(4) [OF wf] by (simp add: valid_tg_def)
    then have "2048 - length h < 2048 - length g" using h by (cases h) auto
    from less.hyps [OF this nr] show ?thesis
      using s Rt_Group by (subst pick_rt_descend.simps) (simp add: rt_se_defs)
  qed
qed

text \<open>A queued task all of whose groups may run.\<close>

definition rt_runnable :: "'f kernel \<Rightarrow> tid \<Rightarrow> bool" where
  "rt_runnable k p \<longleftrightarrow> on_rt_rq k (Rt_Task p) \<and>
     (\<forall>h\<in>set (path_chain (sched_task_group (tasks k p))). \<not> rt_rq_throttled (rt_rqs k h))"

lemma highest_prio_chain:
  assumes "rt_inv k" and "rt_nr_running (rt_rqs k g) \<noteq> 0"
    and "\<forall>h\<in>set (path_chain g). \<not> rt_rq_throttled (rt_rqs k h)"
  shows "rt_nr_running (rt_rqs k []) \<noteq> 0 \<and> highest_prio (rt_rqs k []) \<le> highest_prio (rt_rqs k g)"
  using assms(2,3)
proof (induction g)
  case (Cons x g)
  have wf: "rt_wf k" using assms(1) by (simp add: rt_inv_def)
  have "group_ok k (x # g)" using assms(1) by (simp add: rt_inv_def)
  then have "Rt_Group (x # g) \<in> rt_ents (rt_rqs k g)"
    using Cons.prems by (simp add: group_ok_def on_rt_rq_iff rt_rq_of_se_def)
  then have "rt_nr_running (rt_rqs k g) \<noteq> 0" "highest_prio (rt_rqs k g) \<le> highest_prio (rt_rqs k (x # g))"
    using rt_wfD(2) [OF wf, of g] highest_prio_range(4) [OF rt_wfD(1) [OF wf, of g]]
    by (force simp: rt_se_defs)+
  then show ?case using Cons by force
qed simp

lemma runnable_prio:
  assumes inv: "rt_inv k" and q: "rt_runnable k q"
  shows "rt_nr_running (rt_rqs k []) \<noteq> 0" "highest_prio (rt_rqs k []) \<le> prio (tasks k q)"
proof -
  let ?g = "sched_task_group (tasks k q)"
  have wf: "rt_wf k" using inv by (simp add: rt_inv_def)
  have "Rt_Task q \<in> rt_ents (rt_rqs k ?g)"
    using q by (simp add: rt_runnable_def on_rt_rq_iff rt_rq_of_se_def)
  then have nr: "rt_nr_running (rt_rqs k ?g) \<noteq> 0" and hp: "highest_prio (rt_rqs k ?g) \<le> prio (tasks k q)"
    using rt_wfD(2) [OF wf, of ?g] highest_prio_range(4) [OF rt_wfD(1) [OF wf, of ?g]]
    by (force simp: rt_se_defs)+
  show "rt_nr_running (rt_rqs k []) \<noteq> 0" "highest_prio (rt_rqs k []) \<le> prio (tasks k q)"
    using highest_prio_chain [OF inv nr] q hp by (auto simp: rt_runnable_def)
qed

lemma pick_next_task_rt_cases:
  assumes inv: "rt_inv k"
  shows "if rt_nr_running (rt_rqs k []) = 0 \<or> rt_rq_throttled (rt_rqs k []) then pick_next_task_rt k = (None, k)
    else \<exists>p. pick_next_task_rt k = (Some p, set_exec_start p k) \<and> on_rt_rq k (Rt_Task p) \<and>
      prio (tasks k p) = highest_prio (rt_rqs k [])"
proof (cases "rt_nr_running (rt_rqs k []) = 0")
  case False
  then obtain p where "pick_rt_descend (rt_rqs k) [] = Some (Some p)" "on_rt_rq k (Rt_Task p)"
    "prio (tasks k p) = highest_prio (rt_rqs k [])"
    using pick_rt_descend_ends [OF inv] by blast
  then show ?thesis using False by (simp add: pick_next_task_rt_def)
qed (simp add: pick_next_task_rt_def)

text \<open>Only the priorities and groups of queued tasks matter.\<close>

lemma rt_inv_cong_queued:
  assumes inv: "rt_inv k" and rqs: "rt_rqs k' = rt_rqs k"
    and same: "\<And>p. p \<in> rt_queued k \<Longrightarrow> prio (tasks k' p) = prio (tasks k p) \<and>
      sched_task_group (tasks k' p) = sched_task_group (tasks k p)"
  shows "rt_inv k'" "rt_queued k' = rt_queued k"
proof -
  have wf: "rt_wf k" using inv by (simp add: rt_inv_def)
  have q: "p \<in> rt_queued k" if "Rt_Task p \<in> rt_ents (rt_rqs k g)" for p g
    using rt_wfD(3) [OF wf that] that by (simp add: rt_queued_def on_rt_rq_iff belongs_def)
  have ent: "rt_se_prio k' s = rt_se_prio k s \<and> belongs k' g s" if "s \<in> rt_ents (rt_rqs k g)" for s g
  proof (cases s)
    case (Rt_Task p)
    then show ?thesis
      using q same that rt_wfD(3) [OF wf that] by (auto simp: rt_se_defs belongs_def rt_rq_of_se_def)
  next
    case (Rt_Group h)
    then show ?thesis using rqs rt_wfD(3) [OF wf that] by (simp add: rt_se_defs belongs_def rt_rq_of_se_def)
  qed
  have "rq_wf (rt_se_prio k') (belongs k' g) (rt_rqs k' g)" for g
  proof -
    note D = rq_wfD [OF rt_wfD(1) [OF wf, of g]]
    show ?thesis
      unfolding rqs
    proof (rule rq_wfI)
      fix i s assume i: "i < 100" and s: "s \<in> set (queue (rt_active (rt_rqs k g)) i)"
      then have "s \<in> rt_ents (rt_rqs k g)" by (auto simp: rt_ents_def)
      then show "rt_se_prio k' s = int i \<and> belongs k' g s" using ent D(4) [OF i s] by simp
    qed (use D in simp_all)
  qed
  then have "rt_wf k'" using wf by (simp add: rt_wf_def rqs)
  moreover have "on_rt_rq k' (Rt_Group h) = on_rt_rq k (Rt_Group h)" for h
    by (simp add: on_rt_rq_iff rqs rt_rq_of_se_def)
  ultimately show "rt_inv k'" using inv by (simp add: rt_inv_def group_ok_def rqs)
  show "rt_queued k' = rt_queued k"
    using q same by (auto simp: rt_queued_def on_rt_rq_iff rt_rq_of_se_def rqs)
qed

section \<open>After boot\<close>

lemma rt_inv_boot:
  assumes r: "rt_rqs k = (\<lambda>_. boot_rt_rq)"
  shows "rt_inv k" "rt_queued k = {}"
proof -
  have ents: "rt_ents boot_rt_rq = {}" by (simp add: rt_ents_def boot_rt_rq_def)
  have fb: "sched_find_first_bit (\<lambda>i. i = 100) = int 100" by (subst sched_find_first_bit_eq) auto
  have "rq_wf pr ok boot_rt_rq" for pr ok
    using fb by (intro rq_wfI) (simp_all add: boot_rt_rq_def rt_count_def prio_consts)
  then show "rt_inv k"
    using ents by (simp add: rt_inv_def rt_wf_def r group_ok_def on_rt_rq_iff) (simp add: boot_rt_rq_def)
  show "rt_queued k = {}" using ents by (simp add: rt_queued_def on_rt_rq_iff r)
qed

end
