(* ===== verification/Rt_Claims.thy ===== *)
theory Rt_Claims
  imports Rt_Class
begin

text \<open>
  The properties of the real-time class, and a concrete state they apply to.
\<close>

section \<open>Runs of the class\<close>

inductive rt_step :: "'f env \<Rightarrow> 'f kernel \<Rightarrow> 'f kernel \<Rightarrow> bool" for e where
  enqueue: "rt_admissible k p \<Longrightarrow> p \<notin> rt_queued k \<Longrightarrow> rt_step e k (enqueue_task_rt p fl k)"
| dequeue: "p \<in> rt_queued k \<Longrightarrow> rt_step e k (dequeue_task_rt p fl k)"
| yield: "rt_step e k (yield_task_rt k)"
| tick: "rt_step e k (task_tick_rt e p b k)"
| pick: "rt_step e k (snd (pick_next_task_rt k))"
| put_prev: "rt_step e k (put_prev_task_rt p k)"
| timer: "rt_step e k (snd (do_sched_rt_period_timer g n k))"
| kernel: "rt_rqs k' = rt_rqs k \<Longrightarrow> panicked k' = panicked k \<Longrightarrow>
    (\<And>p. p \<in> rt_queued k \<Longrightarrow> prio (tasks k' p) = prio (tasks k p) \<and>
      sched_task_group (tasks k' p) = sched_task_group (tasks k p)) \<Longrightarrow> rt_step e k k'"

lemma rt_step_inv:
  assumes "rt_step e k k'" and "rt_inv k"
  shows "rt_inv k' \<and> panicked k' = panicked k"
  using assms
proof cases
  case (enqueue p fl)
  then show ?thesis using assms(2) by (simp add: enqueue_task_rt_spec)
next
  case (dequeue p fl)
  then show ?thesis using assms(2) by (simp add: dequeue_task_rt_spec)
next
  case yield
  then show ?thesis
    using requeue_task_rt_inv [OF assms(2)] by (simp add: yield_task_rt_def rt_frame_def)
next
  case (tick p b)
  then show ?thesis using task_tick_rt_inv [OF assms(2)] by simp
next
  case pick
  have "rt_inv (set_exec_start p k) = rt_inv k" for p
    by (rule rt_inv_cong) (simp_all add: set_exec_start_def)
  moreover have "panicked (set_exec_start p k) = panicked k" for p by (simp add: set_exec_start_def)
  ultimately show ?thesis
    using pick pick_next_task_rt_cases [OF assms(2)] assms(2) by (auto split: if_splits)
next
  case (put_prev p)
  then show ?thesis using update_curr_rt_inv [OF assms(2)] by (simp add: put_prev_task_rt_def rt_sim_def)
next
  case (timer g n)
  then show ?thesis using do_sched_rt_period_timer_inv [OF assms(2)] by simp
next
  case kernel
  then show ?thesis using rt_inv_cong_queued(1) [OF assms(2)] by blast
qed

section \<open>Replenishment\<close>

fun rt_periods :: "tgid \<Rightarrow> nat \<Rightarrow> 'f kernel \<Rightarrow> 'f kernel" where
  "rt_periods g 0 k = k"
| "rt_periods g (Suc n) k = snd (do_sched_rt_period_timer g 1 (rt_periods g n k))"

lemma rt_periods_replenish:
  "rt_inv k \<Longrightarrow> rt_inv (rt_periods g n k) \<and> rt_rqs (rt_periods g n k) g = (replenish 1 ^^ n) (rt_rqs k g) \<and>
    rt_queued (rt_periods g n k) = rt_queued k"
  by (induction n) (simp_all add: do_sched_rt_period_timer_inv)

lemma replenish_once:
  "rt_throttled (replenish n r) \<Longrightarrow> rt_throttled r"
  "rt_time r \<noteq> 0 \<Longrightarrow> rt_time (replenish n r) = rt_time r - min (rt_time r) (n * rt_runtime r)"
  "rt_time r \<noteq> 0 \<Longrightarrow> rt_throttled (replenish n r) \<Longrightarrow> \<not> rt_time (replenish n r) < rt_runtime r"
  by (auto simp: replenish_def Let_def split: if_splits)

lemma replenish_countdown:
  assumes "0 < rt_runtime r" and "rt_throttled r \<longrightarrow> 0 < rt_time r"
    and "rt_throttled ((replenish 1 ^^ n) r)"
  shows "unat (rt_time ((replenish 1 ^^ n) r)) + n * unat (rt_runtime r) = unat (rt_time r) \<and>
    0 < rt_time ((replenish 1 ^^ n) r) \<and> rt_runtime ((replenish 1 ^^ n) r) = rt_runtime r"
  using assms(3)
proof (induction n)
  case 0
  then show ?case using assms(1,2) by simp
next
  case (Suc n)
  let ?s = "(replenish 1 ^^ n) r"
  have thr: "rt_throttled ?s" using Suc.prems replenish_once(1) by simp
  then have IH: "unat (rt_time ?s) + n * unat (rt_runtime r) = unat (rt_time r)" "0 < rt_time ?s"
    "rt_runtime ?s = rt_runtime r" using Suc.IH by auto
  let ?t = "rt_time ?s - min (rt_time ?s) (rt_runtime r)"
  have ge: "\<not> ?t < rt_runtime r" and s: "rt_time (replenish 1 ?s) = ?t" "rt_runtime (replenish 1 ?s) = rt_runtime r"
    using Suc.prems IH replenish_once(2,3) [of ?s 1] by (simp_all add: replenish_keeps word_gt_0)
  have "rt_runtime r \<le> rt_time ?s" using ge assms(1) by (auto simp: min_def split: if_splits)
  then have "unat ?t = unat (rt_time ?s) - unat (rt_runtime r)" "unat (rt_runtime r) \<le> unat (rt_time ?s)"
    by (simp_all add: unat_sub word_le_nat_alt min_absorb2)
  moreover have "0 < ?t" using ge assms(1) by (meson less_le_trans linorder_not_less)
  ultimately show ?case using IH s by simp
qed

text \<open>Enqueueing does not throttle.\<close>

lemma rt_throttled_entity1:
  "rt_throttled (rt_rqs (enqueue_rt_entity1 s h k) g) = rt_throttled (rt_rqs k g)"
  "rt_throttled (rt_rqs (dequeue_rt_entity1 s k) g) = rt_throttled (rt_rqs k g)"
  by (simp_all add: enqueue_rt_entity1_def dequeue_rt_entity1_def Let_def inc_rt_tasks_def dec_rt_tasks_def
      inc_rt_group_eq dec_rt_group_def upd_bit_def upd_queue_def unlink_rt_def inc_rt_prio_def dec_rt_prio_def
      list_add_leaf_rt_rq_def list_del_leaf_rt_rq_def)

lemma fold_rt_throttled:
  assumes "\<And>s k. rt_throttled (rt_rqs (f s k) g) = rt_throttled (rt_rqs k g)"
  shows "rt_throttled (rt_rqs (fold f ss k) g) = rt_throttled (rt_rqs k g)"
  using assms by (induction ss arbitrary: k) simp_all

lemma enqueue_task_rt_throttled: "rt_throttled (rt_rqs (enqueue_task_rt p fl k) g) = rt_throttled (rt_rqs k g)"
  by (simp add: enqueue_task_rt_def enqueue_rt_entity_def dequeue_rt_stack_def inc_nr_running_def Let_def
      fold_rt_throttled rt_throttled_entity1)

lemma rt_runtime_exceeded_branches:
  "sched_rt_runtime_exceeded g k =
     (let r = rt_rqs k g; k1 = upd_rt g (rt_throttled_update (\<lambda>_. True)) k
      in if rt_throttled r then (rt_rq_throttled r, k)
         else if rt_runtime r \<ge> rt_period (rt_bandwidths k g) \<or> rt_runtime r = RUNTIME_INF \<or> rt_time r \<le> rt_runtime r
         then (False, k)
         else if bw_rt_runtime (rt_bandwidths k g) \<noteq> 0 then
           (if rt_nr_boosted r = 0 then (True, sched_rt_rq_dequeue g k1) else (False, k1))
         else (False, upd_rt g (rt_time_update (\<lambda>_. 0)) k))"
  by (simp add: sched_rt_runtime_exceeded_def Let_def balance_runtime_up_def sched_rt_runtime_def
      sched_rt_period_def rt_rq_throttled_def linorder_not_less [symmetric])

section \<open>A run queue with two real-time tasks\<close>

definition rt_base :: "unit kernel" where
  "rt_base = boot_kernel\<lparr>tasks := (tasks boot_kernel)
     (2 := INIT_TASK\<lparr>policy := SCHED_FIFO, sched_class := Rt_Class, prio := 50, normal_prio := 50\<rparr>,
      3 := INIT_TASK\<lparr>policy := SCHED_RR, sched_class := Rt_Class, prio := 90, normal_prio := 90,
        sched_task_group := [7]\<rparr>)\<rparr>"

definition rt_demo :: "unit kernel" where
  "rt_demo = enqueue_task_rt 2 0 (enqueue_task_rt 3 0 rt_base)"

lemma rt_base_inv: "rt_inv rt_base" "rt_queued rt_base = {}"
  by (rule rt_inv_boot; simp add: rt_base_def boot_kernel_def)+

lemma rt_base_admissible: "rt_admissible rt_base 3" "rt_admissible rt_base 2"
  by (simp_all add: rt_admissible_def rt_base_def boot_defs prio_consts PID_MAX_LIMIT_def valid_tg_def GROUP_MAX_def)

lemma rt_demo_facts:
  "rt_inv rt_demo" "rt_queued rt_demo = {2, 3}" "panicked rt_demo = False"
  "tasks rt_demo = tasks rt_base"
proof -
  let ?k = "enqueue_task_rt 3 0 rt_base"
  note e = enqueue_task_rt_spec [OF rt_base_inv(1) rt_base_admissible(1), of 0]
  have fr: "rt_frame k (enqueue_rt_entity (Rt_Task p) h k)" if "rt_inv k" "rt_admissible k p" for k :: "unit kernel" and p h
    using enqueue_rt_entity_task(2) [OF that] .
  have t: "tasks ?k = tasks rt_base"
    using fr [OF rt_base_inv(1) rt_base_admissible(1)] by (simp add: enqueue_task_rt_def inc_nr_running_def rt_frame_def)
  then have adm: "rt_admissible ?k 2" using rt_base_admissible(2) by (simp add: rt_admissible_def)
  note f = enqueue_task_rt_spec [OF e(1) adm, of 0]
  show "rt_inv rt_demo" "rt_queued rt_demo = {2, 3}" using f e rt_base_inv by (auto simp: rt_demo_def)
  show "panicked rt_demo = False" using f(4) e(4) by (simp add: rt_demo_def rt_base_def boot_kernel_def)
  show "tasks rt_demo = tasks rt_base"
    using fr [OF e(1) adm] t by (simp add: rt_demo_def enqueue_task_rt_def inc_nr_running_def rt_frame_def)
qed

section \<open>Properties\<close>

text \<open>
  C4. However the real-time class is driven, its queues stay consistent at every level of the
  group hierarchy: the bitmap, the counters and the cached highest priority of every run queue
  agree with its lists, every entity is in the list of its priority, and a group is queued on
  its parent exactly when it has tasks and is not throttled; and no \<^verbatim>\<open>BUG()\<close> is reached.
\<close>

theorem rt_runs_safe:
  assumes "(rt_step e)\<^sup>*\<^sup>* k k'" and "rt_inv k" and "\<not> panicked k"
  shows "rt_inv k' \<and> \<not> panicked k'"
  using assms by (induction rule: rtranclp_induct) (auto dest: rt_step_inv)

theorem rt_runs_safe_witness: "rt_inv (dequeue_task_rt 3 0 rt_demo) \<and> \<not> panicked (dequeue_task_rt 3 0 rt_demo)"
proof -
  have "rt_step plain_env rt_demo (dequeue_task_rt 3 0 rt_demo)"
    by (rule rt_step.dequeue) (simp add: rt_demo_facts)
  from rt_runs_safe [OF r_into_rtranclp [of "rt_step plain_env", OF this] rt_demo_facts(1)] show ?thesis
    by (simp add: rt_demo_facts(3))
qed

text \<open>
  C16. Strict priority: when some queued task may run (no group above it is throttled),
  \<^verbatim>\<open>pick_next_task_rt()\<close> returns a queued task whose priority is at least as high as that of
  every such task, whatever groups they are in; its descent through the groups always ends.
\<close>

theorem pick_next_task_rt_highest:
  assumes "rt_inv k" and "rt_runnable k q"
  shows "\<exists>p. pick_next_task_rt k = (Some p, set_exec_start p k) \<and> p \<in> rt_queued k \<and>
    (\<forall>r. rt_runnable k r \<longrightarrow> prio (tasks k p) \<le> prio (tasks k r))"
proof -
  have "\<not> rt_rq_throttled (rt_rqs k [])" using assms(2) by (simp add: rt_runnable_def)
  then obtain p where "pick_next_task_rt k = (Some p, set_exec_start p k)" "on_rt_rq k (Rt_Task p)"
    "prio (tasks k p) = highest_prio (rt_rqs k [])"
    using pick_next_task_rt_cases [OF assms(1)] runnable_prio(1) [OF assms] by auto
  then show ?thesis using runnable_prio(2) [OF assms(1)] by (auto simp: rt_queued_def)
qed

theorem pick_next_task_rt_highest_witness:
  "\<exists>p. pick_next_task_rt rt_demo = (Some p, set_exec_start p rt_demo) \<and> p \<in> {2, 3} \<and>
    (\<forall>r. rt_runnable rt_demo r \<longrightarrow> prio (tasks rt_demo p) \<le> prio (tasks rt_demo r))"
proof -
  have "\<not> rt_throttled (rt_rqs rt_demo [])"
    by (simp add: rt_demo_def enqueue_task_rt_throttled) (simp add: rt_base_def boot_defs)
  then have "rt_runnable rt_demo 2"
    using rt_demo_facts(2)
    by (auto simp: rt_runnable_def rt_queued_def rt_rq_throttled_def rt_demo_facts(4))
      (simp add: rt_base_def boot_defs)
  then show ?thesis using pick_next_task_rt_highest [OF rt_demo_facts(1)] rt_demo_facts(2) by simp
qed

text \<open>
  C12. Throttling ends: a throttled group with a positive run time per period is no longer
  throttled after as many period timers as its used time has run times in it, and if it has
  tasks it is then queued on its parent again. The queued tasks stay the same meanwhile.
\<close>

theorem rt_throttling_ends:
  assumes "rt_inv k" and "0 < rt_runtime (rt_rqs k g)" and "rt_throttled (rt_rqs k g) \<longrightarrow> 0 < rt_time (rt_rqs k g)"
    and "unat (rt_time (rt_rqs k g)) < n * unat (rt_runtime (rt_rqs k g))"
  shows "\<not> rt_throttled (rt_rqs (rt_periods g n k) g) \<and> rt_queued (rt_periods g n k) = rt_queued k \<and>
    (g \<noteq> [] \<longrightarrow> rt_nr_running (rt_rqs (rt_periods g n k) g) \<noteq> 0 \<longrightarrow> on_rt_rq (rt_periods g n k) (Rt_Group g))"
proof -
  let ?k = "rt_periods g n k"
  note P = rt_periods_replenish [OF assms(1), of g n]
  have "\<not> rt_throttled (rt_rqs ?k g)"
  proof
    assume "rt_throttled (rt_rqs ?k g)"
    then show False using replenish_countdown [OF assms(2,3)] P assms(4) by fastforce
  qed
  then show ?thesis using P by (auto simp: rt_inv_def group_ok_def rt_rq_throttled_def)
qed

theorem rt_throttling_ends_witness:
  "\<not> rt_throttled (rt_rqs (rt_periods [7] 3 (upd_rt [7] (\<lambda>r. r\<lparr>rt_throttled := True, rt_time := 2000000000\<rparr>) rt_base)) [7])"
proof -
  let ?f = "\<lambda>r. r\<lparr>rt_throttled := True, rt_time := 2000000000 :: u64\<rparr>"
  let ?k = "upd_rt [7] ?f rt_base"
  have sa: "same_array (rt_rqs rt_base [7]) (?f (rt_rqs rt_base [7]))" by (simp add: same_array_def)
  have "rt_inv_but [7] ?k" using rt_inv_upd_misc(1) [where f = ?f, OF rt_base_inv(1) sa] by simp
  moreover have "group_ok ?k [7]" by (simp add: group_ok_def on_rt_rq_iff rt_rq_of_se_def)
      (simp add: rt_base_def boot_kernel_def boot_rt_rq_def rt_ents_def)
  ultimately have inv: "rt_inv ?k" by (auto simp: rt_inv_def rt_inv_but_def)
  have "rt_runtime (rt_rqs ?k [7]) = 950000000" "rt_time (rt_rqs ?k [7]) = 2000000000"
    by (simp_all add: rt_base_def boot_kernel_def boot_rt_rq_def)
  then show ?thesis using rt_throttling_ends [OF inv, of "[7]" 3] by simp
qed

text \<open>
  C17. Bandwidth is enforced when time is charged to a group that has a limit. The group is throttled
  exactly when it was so before, or the time now exceeds a run time that is less than the period and
  the limit is not 0; the time charged is kept, except that a group with limit 0 has its time reset
  to 0 instead of being throttled. Once throttled, and unless it is kept running for a boosted task,
  the group is not queued on its parent and the running task is told to give way; otherwise nothing changes
  on any queue and nobody is interrupted. The tasks of the group stay on its own queue.
\<close>

theorem rt_runtime_enforced:
  assumes inv: "rt_inv k" and limit: "rt_runtime (rt_rqs k g) \<noteq> RUNTIME_INF"
  shows "let r = rt_rqs k g; k' = charge_rt_rq d g k;
      over = (\<not> rt_throttled r \<and> rt_runtime r < rt_period (rt_bandwidths k g) \<and> rt_runtime r < rt_time r + d);
      throttle = (over \<and> bw_rt_runtime (rt_bandwidths k g) \<noteq> 0);
      forgive = (over \<and> bw_rt_runtime (rt_bandwidths k g) = 0)
    in rt_inv k' \<and>
      rt_rqs k' g = r\<lparr>rt_throttled := rt_throttled r \<or> throttle, rt_time := (if forgive then 0 else rt_time r + d)\<rparr> \<and>
      (if (rt_throttled r \<or> throttle) \<and> rt_nr_boosted r = 0
       then (g \<noteq> [] \<longrightarrow> \<not> on_rt_rq k' (Rt_Group g)) \<and> need_resched (tasks k' (curr (rq k)))
       else (\<forall>s. on_rt_rq k' s = on_rt_rq k s) \<and> tasks k' = tasks k) \<and>
      (\<forall>p. on_rt_rq k' (Rt_Task p) = on_rt_rq k (Rt_Task p))"
proof -
  let ?r = "rt_rqs k g" and ?b = "rt_bandwidths k g" and ?k' = "charge_rt_rq d g k"
  define k1 where "k1 = upd_rt g (rt_time_update (\<lambda>t. t + d)) k"
  define kt where "kt = upd_rt g (rt_throttled_update (\<lambda>_. True)) k1"
  define kz where "kz = upd_rt g (rt_time_update (\<lambda>_. 0)) k1"
  have sel: "rt_rqs k1 g = ?r\<lparr>rt_time := rt_time ?r + d\<rparr>" "rt_bandwidths k1 = rt_bandwidths k" "tasks k1 = tasks k" "rq k1 = rq k"
    "rt_rqs kt g = ?r\<lparr>rt_throttled := True, rt_time := rt_time ?r + d\<rparr>" "tasks kt = tasks k" "rq kt = rq k"
    "rt_rqs kz g = ?r\<lparr>rt_time := 0\<rparr>" "tasks kz = tasks k"
    by (simp_all add: k1_def kt_def kz_def)
  have k1: "rt_inv k1" "on_rt_rq k1 s = on_rt_rq k s" for s
    using rt_inv_upd_misc(2,3) [OF inv, of g "rt_time_update (\<lambda>t. t + d)"] by (simp_all add: k1_def same_array_def)
  note t = rt_inv_upd_misc [OF k1(1), of g "rt_throttled_update (\<lambda>_. True)", folded kt_def]
  have t2: "on_rt_rq kt s = on_rt_rq k s" "on_rt_rq kz s = on_rt_rq k s" for s
    using t(2) rt_inv_upd_misc(2) [OF k1(1), of g "rt_time_update (\<lambda>_. 0)", folded kz_def] k1(2) by (simp_all add: same_array_def)
  have inv': "rt_inv ?k'" "on_rt_rq ?k' (Rt_Task p) = on_rt_rq k (Rt_Task p)" for p
    using charge_rt_rq_inv [OF inv, of d g p] by simp_all
  have off: "\<not> on_rt_rq ?k' (Rt_Group g)" if "g \<noteq> []" "rt_throttled (rt_rqs ?k' g)" "rt_nr_boosted (rt_rqs ?k' g) = 0"
    using that inv'(1) by (simp add: rt_inv_def group_ok_def rt_rq_throttled_def)
  have "on_rt_rq kt (Rt_Group g) \<Longrightarrow> valid_tg g" using valid_of_queued_group [OF k1(1)] t2 k1(2) by simp
  note deq = sched_rt_rq_dequeue_inv(2,4) [OF t(1) _ this]
  have run: "?k' = (let (exceeded, k2) = sched_rt_runtime_exceeded g k1 in if exceeded then resched_task (curr (rq k2)) k2 else k2)"
    using limit by (simp add: charge_rt_rq_def sched_rt_runtime_def k1_def)
  note branches = run [unfolded rt_runtime_exceeded_branches Let_def sel kt_def [symmetric] kz_def [symmetric]]
  let ?over = "\<not> rt_throttled ?r \<and> rt_runtime ?r < rt_period ?b \<and> rt_runtime ?r < rt_time ?r + d"
  consider "rt_throttled ?r" "rt_nr_boosted ?r = 0" | "rt_throttled ?r" "rt_nr_boosted ?r \<noteq> 0"
    | "?over" "bw_rt_runtime ?b \<noteq> 0" "rt_nr_boosted ?r = 0" | "?over" "bw_rt_runtime ?b \<noteq> 0" "rt_nr_boosted ?r \<noteq> 0"
    | "?over" "bw_rt_runtime ?b = 0" | "\<not> rt_throttled ?r" "\<not> ?over"
    by blast
  then show ?thesis
  proof cases
    case 1
    then have "?k' = resched_task (curr (rq k)) k1" using branches by (simp add: rt_rq_throttled_def sel)
    then show ?thesis using 1 inv' off by (simp add: Let_def sel resched_task_def set_tsk_need_resched_def)
  next
    case 2
    then have "?k' = k1" using branches by (simp add: rt_rq_throttled_def)
    then show ?thesis using 2 inv' k1 by (simp add: Let_def sel)
  next
    case 3
    then have "?k' = resched_task (curr (rq (sched_rt_rq_dequeue g kt))) (sched_rt_rq_dequeue g kt)"
      using branches limit by (simp add: linorder_not_less [symmetric])
    moreover have "rt_rq_throttled (rt_rqs kt g)" "same_array (rt_rqs k1 g) (rt_rqs kt g)"
      using 3 by (simp_all add: rt_rq_throttled_def same_array_def sel)
    ultimately show ?thesis
      using 3 inv' off deq by (simp add: Let_def sel same_array_def rt_frame_def resched_task_def set_tsk_need_resched_def)
  next
    case 4
    then have "?k' = kt" using branches limit by (simp add: linorder_not_less [symmetric])
    then show ?thesis using 4 inv' t2 by (simp add: Let_def sel)
  next
    case 5
    then have "?k' = kz" using branches limit by (simp add: linorder_not_less [symmetric])
    then show ?thesis using 5 inv' t2 by (simp add: Let_def sel)
  next
    case 6
    then have "?k' = k1" using branches limit by (auto simp: linorder_not_less [symmetric])
    then show ?thesis
      using 6 inv' k1 by (cases "rt_runtime ?r < rt_period ?b") (simp_all add: Let_def sel)
  qed
qed

theorem rt_runtime_enforced_witness:
  "let k' = charge_rt_rq 960000000 [7] rt_base
   in rt_throttled (rt_rqs k' [7]) \<and> rt_time (rt_rqs k' [7]) = 960000000 \<and> need_resched (tasks k' (curr (rq rt_base)))"
proof -
  have r: "rt_runtime (rt_rqs rt_base [7]) = 950000000" "rt_period (rt_bandwidths rt_base [7]) = 1000000000"
    "bw_rt_runtime (rt_bandwidths rt_base [7]) = 950000000" "\<not> rt_throttled (rt_rqs rt_base [7])"
    "rt_time (rt_rqs rt_base [7]) = 0" "rt_nr_boosted (rt_rqs rt_base [7]) = 0"
    by (simp_all add: rt_base_def boot_kernel_def boot_rt_rq_def)
  then have "rt_runtime (rt_rqs rt_base [7]) \<noteq> RUNTIME_INF" by (simp add: RUNTIME_INF_def)
  from rt_runtime_enforced [OF rt_base_inv(1) this, of 960000000] show ?thesis by (simp add: Let_def r)
qed

end
