(* ===== verification/Load_Avg.thy ===== *)
theory Load_Avg
  imports Kernel_State
begin

text \<open>
  The load average and the per-processor load (\<^verbatim>\<open>kernel/sched/core.c\<close>, from
  \<^verbatim>\<open>calc_load_fold_active()\<close> to \<^verbatim>\<open>update_cpu_load_active()\<close>). \<^verbatim>\<open>long\<close> and
  \<^verbatim>\<open>unsigned long\<close> are 32-bit words; signed comparisons read them with \<^const>\<open>sint\<close>.
\<close>

section \<open>Definitions\<close>

definition FSHIFT :: nat where "FSHIFT = 11"
definition FIXED_1 :: ulong where "FIXED_1 = push_bit FSHIFT 1"
definition LOAD_FREQ :: ulong where "LOAD_FREQ = 5 * HZ + 1"
definition EXP_1 :: ulong where "EXP_1 = 1884"
definition EXP_5 :: ulong where "EXP_5 = 2014"
definition EXP_15 :: ulong where "EXP_15 = 2037"

lemmas load_consts = FSHIFT_def FIXED_1_def LOAD_FREQ_def EXP_1_def EXP_5_def EXP_15_def HZ_def

text \<open>\<^verbatim>\<open>time_before(a, b)\<close>: the difference is negative as a \<^verbatim>\<open>long\<close>.\<close>

definition time_before :: "ulong \<Rightarrow> ulong \<Rightarrow> bool" where
  "time_before a b = (sint (a - b) < 0)"

abbreviation upd_loads :: "(rq_loads \<Rightarrow> rq_loads) \<Rightarrow> 'f kernel \<Rightarrow> 'f kernel" where
  "upd_loads f \<equiv> rq_update (loads_update f)"

definition get_avenrun :: "'f kernel \<Rightarrow> ulong \<Rightarrow> nat \<Rightarrow> ulong list" where
  "get_avenrun k offset shift =
     map (\<lambda>i. push_bit shift (avenrun (lavg k) ! i + offset)) [0, 1, 2]"

definition calc_load_fold_active :: "'f kernel \<Rightarrow> ulong \<times> 'f kernel" where
  "calc_load_fold_active k =
     (let nr_active = nr_running (rq k) + nr_uninterruptible (rq k);
          old = calc_load_active (loads (rq k))
      in if nr_active \<noteq> old
         then (nr_active - old, upd_loads (calc_load_active_update (\<lambda>_. nr_active)) k)
         else (0, k))"

definition calc_load :: "ulong \<Rightarrow> ulong \<Rightarrow> ulong \<Rightarrow> ulong" where
  "calc_load ld exp act =
     drop_bit FSHIFT (ld * exp + act * (FIXED_1 - exp) + push_bit (FSHIFT - 1) 1)"

definition calc_load_write_idx :: "'f kernel \<Rightarrow> nat" where
  "calc_load_write_idx k =
     unat ((calc_load_idx (lavg k) +
        (if \<not> time_before (jiffies k) (calc_load_update (lavg k)) then 1 else 0)) AND 1)"

definition calc_load_read_idx :: "'f kernel \<Rightarrow> nat" where
  "calc_load_read_idx k = unat (calc_load_idx (lavg k) AND 1)"

definition calc_load_enter_idle :: "'f kernel \<Rightarrow> 'f kernel" where
  "calc_load_enter_idle k =
     (let (delta, k1) = calc_load_fold_active k
      in if delta \<noteq> 0 then
           let idx = calc_load_write_idx k1
           in lavg_update (calc_load_idle_update (\<lambda>c. c(idx := c idx + delta))) k1
         else k1)"

definition calc_load_exit_idle :: "'f kernel \<Rightarrow> 'f kernel" where
  "calc_load_exit_idle k =
     (if time_before (jiffies k) (rq_calc_load_update (loads (rq k))) then k
      else
        let k1 = upd_loads (rq_calc_load_update_update (\<lambda>_. calc_load_update (lavg k))) k
        in if time_before (jiffies k1) (rq_calc_load_update (loads (rq k1)) + 10)
           then upd_loads (rq_calc_load_update_update (\<lambda>t. t + LOAD_FREQ)) k1 else k1)"

definition calc_load_fold_idle :: "'f kernel \<Rightarrow> ulong \<times> 'f kernel" where
  "calc_load_fold_idle k =
     (let idx = calc_load_read_idx k
      in if calc_load_idle (lavg k) idx \<noteq> 0
         then (calc_load_idle (lavg k) idx, lavg_update (calc_load_idle_update (\<lambda>c. c(idx := 0))) k)
         else (0, k))"

text \<open>
  \<^verbatim>\<open>fixed_power_int()\<close>: the loop over the bits of \<open>n\<close>, entered with a non-zero \<open>n\<close>. The
  arithmetic is that of \<^verbatim>\<open>unsigned long\<close>.
\<close>

definition fixed_mult :: "nat \<Rightarrow> ulong \<Rightarrow> ulong \<Rightarrow> ulong" where
  "fixed_mult frac_bits a b = drop_bit frac_bits (a * b + push_bit (frac_bits - 1) 1)"

function fixed_power_loop :: "nat \<Rightarrow> ulong \<Rightarrow> ulong \<Rightarrow> nat \<Rightarrow> ulong" where
  "fixed_power_loop frac_bits result x n =
     (let result = (if odd n then fixed_mult frac_bits result x else result);
          n = n div 2
      in if n = 0 then result else fixed_power_loop frac_bits result (fixed_mult frac_bits x x) n)"
  by pat_completeness auto
termination by (relation "measure (\<lambda>(f, r, x, n). n)") auto

declare fixed_power_loop.simps [simp del]

definition fixed_power_int :: "ulong \<Rightarrow> nat \<Rightarrow> u32 \<Rightarrow> ulong" where
  "fixed_power_int x frac_bits n =
     (let result = push_bit frac_bits 1
      in if n \<noteq> 0 then fixed_power_loop frac_bits result x (unat n) else result)"

definition calc_load_n :: "ulong \<Rightarrow> ulong \<Rightarrow> ulong \<Rightarrow> u32 \<Rightarrow> ulong" where
  "calc_load_n ld exp act n = calc_load ld (fixed_power_int exp FSHIFT n) act"

text \<open>
  \<^verbatim>\<open>active > 0 ? active * FIXED_1 : 0\<close> for the signed task count.
\<close>

definition active_load :: "'f kernel \<Rightarrow> ulong" where
  "active_load k =
     (let act = calc_load_tasks (lavg k) in if 0 < sint act then act * FIXED_1 else 0)"

definition calc_global_nohz :: "'f kernel \<Rightarrow> 'f kernel" where
  "calc_global_nohz k =
     (let k1 =
        (if \<not> time_before (jiffies k) (calc_load_update (lavg k) + 10) then
           let delta = jiffies k - calc_load_update (lavg k) - 10;
               n = 1 + delta div LOAD_FREQ;
               act = active_load k
           in lavg_update (\<lambda>l. l\<lparr>avenrun :=
                 [calc_load_n (avenrun l ! 0) EXP_1 act n,
                  calc_load_n (avenrun l ! 1) EXP_5 act n,
                  calc_load_n (avenrun l ! 2) EXP_15 act n],
                calc_load_update := calc_load_update l + n * LOAD_FREQ\<rparr>) k
         else k)
      in lavg_update (calc_load_idx_update (\<lambda>i. i + 1)) k1)"

definition calc_global_load :: "'f kernel \<Rightarrow> 'f kernel" where
  "calc_global_load k =
     (if time_before (jiffies k) (calc_load_update (lavg k) + 10) then k
      else
        let (delta, k1) = calc_load_fold_idle k;
            k2 = (if delta \<noteq> 0 then lavg_update (calc_load_tasks_update (\<lambda>t. t + delta)) k1 else k1);
            act = active_load k2;
            k3 = lavg_update (\<lambda>l. l\<lparr>avenrun :=
                   [calc_load (avenrun l ! 0) EXP_1 act,
                    calc_load (avenrun l ! 1) EXP_5 act,
                    calc_load (avenrun l ! 2) EXP_15 act],
                  calc_load_update := calc_load_update l + LOAD_FREQ\<rparr>) k2
        in calc_global_nohz k3)"

definition calc_load_account_active :: "'f kernel \<Rightarrow> 'f kernel" where
  "calc_load_account_active k =
     (if time_before (jiffies k) (rq_calc_load_update (loads (rq k))) then k
      else
        let (delta, k1) = calc_load_fold_active k;
            k2 = (if delta \<noteq> 0 then lavg_update (calc_load_tasks_update (\<lambda>t. t + delta)) k1 else k1)
        in upd_loads (rq_calc_load_update_update (\<lambda>t. t + LOAD_FREQ)) k2)"

definition degrade_zero_ticks :: "ulong list" where
  "degrade_zero_ticks = [0, 8, 32, 64, 128]"

text \<open>Columns the initialiser does not give are zero.\<close>

definition degrade_factor :: "ulong list list" where
  "degrade_factor =
     [[0, 0, 0, 0, 0, 0, 0, 0],
      [64, 32, 8, 0, 0, 0, 0, 0],
      [96, 72, 40, 12, 1, 0, 0, 0],
      [112, 98, 75, 43, 15, 1, 0, 0],
      [120, 112, 98, 76, 45, 16, 2, 0]]"

fun decay_loop :: "ulong \<Rightarrow> nat \<Rightarrow> nat \<Rightarrow> nat \<Rightarrow> ulong" where
  "decay_loop ld missed idx j =
     (if missed = 0 then ld
      else decay_loop
        (if odd missed then drop_bit 7 (ld * (degrade_factor ! idx ! j)) else ld)
        (missed div 2) idx (Suc j))"

declare decay_loop.simps [simp del]

definition decay_load_missed :: "ulong \<Rightarrow> ulong \<Rightarrow> nat \<Rightarrow> ulong" where
  "decay_load_missed ld missed idx =
     (if missed = 0 then ld
      else if missed \<ge> degrade_zero_ticks ! idx then 0
      else if idx = 1 then drop_bit (unat missed) ld
      else decay_loop ld (unat missed) idx 0)"

text \<open>
  \<^verbatim>\<open>update_cpu_load()\<close>: the loop over the indices 1 to 4, with \<^verbatim>\<open>scale\<close> twice as large
  each time.
\<close>

definition new_cpu_load :: "ulong \<Rightarrow> ulong \<Rightarrow> ulong \<Rightarrow> nat \<Rightarrow> ulong \<Rightarrow> ulong" where
  "new_cpu_load this_load pending old_load i scale =
     (let old_load = decay_load_missed old_load (pending - 1) i;
          new_load = (if this_load > old_load then this_load + (scale - 1) else this_load)
      in drop_bit i (old_load * (scale - 1) + new_load))"

fun update_cpu_load_loop :: "ulong \<Rightarrow> ulong \<Rightarrow> nat \<Rightarrow> ulong \<Rightarrow> ulong list \<Rightarrow> ulong list" where
  "update_cpu_load_loop this_load pending i scale [] = []"
| "update_cpu_load_loop this_load pending i scale (l # ls) =
     new_cpu_load this_load pending l i scale #
     update_cpu_load_loop this_load pending (Suc i) (scale + scale) ls"

definition update_cpu_load :: "'f kernel \<Rightarrow> 'f kernel" where
  "update_cpu_load k =
     (let k1 = upd_loads (nr_load_updates_update (\<lambda>n. n + 1)) k;
          l = loads (rq k1)
      in if jiffies k1 = last_load_update_tick l then k1
         else
           let pending = jiffies k1 - last_load_update_tick l;
               this_load = rq_load_weight l
           in upd_loads (\<lambda>l. l\<lparr>last_load_update_tick := jiffies k1,
                cpu_load := this_load # update_cpu_load_loop this_load pending 1 2 (tl (cpu_load l))\<rparr>) k1)"

definition update_cpu_load_active :: "'f kernel \<Rightarrow> 'f kernel" where
  "update_cpu_load_active k = calc_load_account_active (update_cpu_load k)"

end
