(* ===== verification/Load_Props.thy ===== *)
theory Load_Props
  imports Load_Avg
begin

text \<open>
  The load average: the folding of the task count loses nothing, the averages stay between the
  old value and the current load, powers of the decay factors stay below one, and the
  per-processor load moves towards the current load on every tick.
\<close>

section \<open>Exact values of the fixed-point arithmetic\<close>

lemma unat_of_nat_bound: "n < 2 ^ 32 \<Longrightarrow> unat (of_nat n :: u32) = n"
  by (intro of_nat_inverse) simp_all

lemma unat_drop_bit_div: "unat (drop_bit i (w :: u32)) = unat w div 2 ^ i"
  unfolding unat_drop_bit_eq by (simp add: drop_bit_eq_div)

lemma FIXED_1_eq [simp]: "FIXED_1 = 2048"
  by (simp add: FIXED_1_def FSHIFT_def push_bit_eq_mult)

lemma unat_calc_load:
  assumes "unat ld \<le> A" "unat act \<le> A" "unat e \<le> 2048" "A < 2 ^ 21 - 1"
  shows "unat (calc_load ld e act) = (unat ld * unat e + unat act * (2048 - unat e) + 1024) div 2048"
proof -
  let ?n = "unat ld * unat e + unat act * (2048 - unat e) + 1024"
  have "FIXED_1 - e = of_nat (2048 - unat e)"
    using assms(3) by (simp add: of_nat_diff)
  then have w: "ld * e + act * (FIXED_1 - e) + push_bit (FSHIFT - 1) 1 = of_nat ?n"
    by (simp add: FSHIFT_def push_bit_eq_mult)
  have "unat ld * unat e + unat act * (2048 - unat e) \<le> A * unat e + A * (2048 - unat e)"
    using assms(1,2) by (intro add_mono mult_le_mono) auto
  also have "\<dots> = A * 2048" using assms(3) by (simp add: algebra_simps)
  finally have "?n < 2 ^ 32" using assms(4) by simp
  then have "unat (of_nat ?n :: u32) = ?n" by (rule unat_of_nat_bound)
  then show ?thesis unfolding calc_load_def w by (simp add: unat_drop_bit_div FSHIFT_def)
qed

text \<open>A weighted mean, rounded to the nearest, lies between the two values.\<close>

lemma weighted_mean_bounds:
  fixes a b e :: nat
  assumes "e \<le> 2048"
  shows "min a b \<le> (a * e + b * (2048 - e) + 1024) div 2048" "(a * e + b * (2048 - e) + 1024) div 2048 \<le> max a b"
proof -
  have "min a b * e + min a b * (2048 - e) \<le> a * e + b * (2048 - e)"
    by (intro add_mono mult_le_mono) auto
  then have "min a b * 2048 \<le> a * e + b * (2048 - e)" using assms by (simp add: algebra_simps)
  then show "min a b \<le> (a * e + b * (2048 - e) + 1024) div 2048" by linarith
  have "a * e + b * (2048 - e) \<le> max a b * e + max a b * (2048 - e)"
    by (intro add_mono mult_le_mono) auto
  then have "a * e + b * (2048 - e) \<le> max a b * 2048" using assms by (simp add: algebra_simps)
  then show "(a * e + b * (2048 - e) + 1024) div 2048 \<le> max a b" by linarith
qed

lemma calc_load_between:
  assumes "unat ld \<le> A" "unat act \<le> A" "unat e \<le> 2048" "A < 2 ^ 21 - 1"
  shows "min (unat ld) (unat act) \<le> unat (calc_load ld e act)" "unat (calc_load ld e act) \<le> max (unat ld) (unat act)"
  using weighted_mean_bounds [OF assms(3)] by (simp_all add: unat_calc_load [OF assms])

section \<open>Powers\<close>

lemma unat_fixed_mult:
  assumes "unat a \<le> 2048" "unat b \<le> 2048"
  shows "unat (fixed_mult 11 a b) = (unat a * unat b + 1024) div 2048"
proof -
  have "a * b + push_bit (11 - 1) 1 = of_nat (unat a * unat b + 1024)" by (simp add: push_bit_eq_mult)
  moreover have "unat a * unat b \<le> 2048 * 2048" using assms by (intro mult_le_mono)
  ultimately show ?thesis
    unfolding fixed_mult_def using unat_of_nat_bound [of "unat a * unat b + 1024"]
    by (simp add: unat_drop_bit_div)
qed

lemma fixed_mult_le:
  assumes "unat a \<le> 2048" "unat b \<le> 2048"
  shows "unat (fixed_mult 11 a b) \<le> unat a" "unat (fixed_mult 11 a b) \<le> 2048"
proof -
  have "unat a * unat b \<le> unat a * 2048" using assms(2) by simp
  then show "unat (fixed_mult 11 a b) \<le> unat a" unfolding unat_fixed_mult [OF assms] by linarith
  then show "unat (fixed_mult 11 a b) \<le> 2048" using assms(1) by simp
qed

lemma fixed_power_loop_le:
  "unat r \<le> 2048 \<Longrightarrow> unat x \<le> 2048 \<Longrightarrow> unat (fixed_power_loop 11 r x n) \<le> unat r"
proof (induction n arbitrary: r x rule: less_induct)
  case (less n)
  let ?r = "if odd n then fixed_mult 11 r x else r"
  have r: "unat ?r \<le> unat r" "unat ?r \<le> 2048"
    using less.prems fixed_mult_le [OF less.prems] by auto
  show ?case
  proof (cases "n div 2 = 0")
    case True
    then show ?thesis using r(1) by (subst fixed_power_loop.simps) (simp add: Let_def)
  next
    case False
    then have "n div 2 < n" by simp
    from less.IH [OF this r(2) fixed_mult_le(2) [OF less.prems(2) less.prems(2)]]
    show ?thesis using False r(1) by (subst fixed_power_loop.simps) (auto simp: Let_def)
  qed
qed

lemma fixed_power_int_le: "unat x \<le> 2048 \<Longrightarrow> unat (fixed_power_int x FSHIFT n) \<le> 2048"
  using fixed_power_loop_le [of 2048 x "unat n"]
  by (simp add: fixed_power_int_def FSHIFT_def Let_def push_bit_eq_mult)

lemma unat_EXP: "unat EXP_1 \<le> 2048" "unat EXP_5 \<le> 2048" "unat EXP_15 \<le> 2048"
  by (simp_all add: load_consts)

section \<open>Folding\<close>

text \<open>
  What the processor has contributed (\<^verbatim>\<open>calc_load_active\<close>) is in the global count or in one of
  the two idle counters.
\<close>

definition folded :: "'f kernel \<Rightarrow> bool" where
  "folded k \<longleftrightarrow> calc_load_tasks (lavg k) + calc_load_idle (lavg k) 0 + calc_load_idle (lavg k) 1 =
     calc_load_active (loads (rq k))"

lemma idx_cases: "unat (w AND 1 :: u32) = 0 \<or> unat (w AND 1 :: u32) = 1"
  by (simp add: and_one_eq) (metis One_nat_def mod2_eq_if unat_0 unat_1)

lemma folded_account: "folded k \<Longrightarrow> folded (calc_load_account_active k)"
  by (simp add: folded_def calc_load_account_active_def calc_load_fold_active_def Let_def algebra_simps)

lemma folded_add_idle:
  assumes "i = 0 \<or> i = 1" and "calc_load_idle (lavg k') = (calc_load_idle (lavg k))(i := calc_load_idle (lavg k) i + d)"
    and "calc_load_tasks (lavg k') = calc_load_tasks (lavg k) + e"
    and "calc_load_active (loads (rq k')) = calc_load_active (loads (rq k)) + d + e"
  shows "folded k' = folded k"
  using assms by (auto simp: folded_def algebra_simps)

lemma folded_enter_idle:
  assumes "folded k"
  shows "folded (calc_load_enter_idle k)"
proof (cases "nr_running (rq k) + nr_uninterruptible (rq k) = calc_load_active (loads (rq k))")
  case True
  then show ?thesis using assms by (simp add: calc_load_enter_idle_def calc_load_fold_active_def Let_def)
next
  case False
  let ?k = "upd_loads (calc_load_active_update (\<lambda>_. nr_running (rq k) + nr_uninterruptible (rq k))) k"
  have "calc_load_write_idx ?k = 0 \<or> calc_load_write_idx ?k = 1"
    unfolding calc_load_write_idx_def by (rule idx_cases)
  then have "folded (calc_load_enter_idle k) = folded k"
    by (rule folded_add_idle [where d = "nr_running (rq k) + nr_uninterruptible (rq k) - calc_load_active (loads (rq k))"
          and e = 0]) (use False in \<open>simp_all add: calc_load_enter_idle_def calc_load_fold_active_def Let_def\<close>)
  then show ?thesis using assms by simp
qed

lemma folded_exit_idle: "folded (calc_load_exit_idle k) = folded k"
  by (simp add: folded_def calc_load_exit_idle_def Let_def)

lemma folded_global_nohz: "folded (calc_global_nohz k) = folded k"
  by (simp add: folded_def calc_global_nohz_def Let_def)

lemma folded_global_load:
  assumes "folded k"
  shows "folded (calc_global_load k)"
proof (cases "time_before (jiffies k) (calc_load_update (lavg k) + 10)")
  case False
  let ?i = "calc_load_read_idx k"
  let ?d = "calc_load_idle (lavg k) ?i"
  let ?k1 = "snd (calc_load_fold_idle k)"
  let ?k2 = "if fst (calc_load_fold_idle k) \<noteq> 0
    then lavg_update (calc_load_tasks_update (\<lambda>t. t + fst (calc_load_fold_idle k))) ?k1 else ?k1"
  have i: "?i = 0 \<or> ?i = 1" unfolding calc_load_read_idx_def by (rule idx_cases)
  have "folded ?k2 = folded k"
    by (rule folded_add_idle [OF i, where d = "- ?d" and e = ?d])
      (simp_all add: calc_load_fold_idle_def Let_def fun_upd_idem)
  moreover have "folded (calc_global_load k) = folded ?k2"
    using False by (simp add: calc_global_load_def split_def Let_def folded_global_nohz) (simp add: folded_def)
  ultimately show ?thesis using assms by simp
qed (use assms in \<open>simp add: calc_global_load_def\<close>)

section \<open>The load of a processor\<close>

lemma degrade_factor_le:
  assumes "idx < 5" and "j < 8"
  shows "unat (degrade_factor ! idx ! j) \<le> 128"
proof -
  have "\<forall>i\<in>{..<5}. \<forall>j\<in>{..<8}. unat (degrade_factor ! i ! j) \<le> 128" by code_simp
  then show ?thesis using assms by simp
qed

lemma unat_scaled_le:
  fixes ld f :: ulong
  assumes "unat ld < 2 ^ 25" and "unat f \<le> 128"
  shows "unat (drop_bit 7 (ld * f)) \<le> unat ld"
proof -
  have "unat ld * unat f \<le> unat ld * 128" by (rule mult_le_mono2 [OF assms(2)])
  moreover have "unat ld * 128 < 2 ^ 32" using assms(1) by simp
  ultimately have "unat ld * unat f < 2 ^ 32" by (rule order_le_less_trans)
  then have "unat (ld * f) = unat ld * unat f" using unat_mult_lem [of ld f] by simp
  moreover have "unat ld * unat f div 2 ^ 7 \<le> unat ld * 128 div 2 ^ 7"
    by (rule div_le_mono [OF mult_le_mono2 [OF assms(2)]])
  ultimately show ?thesis unfolding unat_drop_bit_div by simp
qed

lemma decay_loop_le:
  "idx < 5 \<Longrightarrow> missed < 2 ^ (8 - j) \<Longrightarrow> j \<le> 8 \<Longrightarrow> unat ld < 2 ^ 25 \<Longrightarrow> unat (decay_loop ld missed idx j) \<le> unat ld"
proof (induction ld missed idx j rule: decay_loop.induct)
  case (1 ld missed idx j)
  show ?case
  proof (cases "missed = 0")
    case True
    then show ?thesis by (subst decay_loop.simps) simp
  next
    case False
    let ?l = "if odd missed then drop_bit 7 (ld * (degrade_factor ! idx ! j)) else ld"
    have j: "j < 8" using False 1(3,4) by (cases "j = 8") auto
    then have "(2 :: nat) ^ (8 - j) = 2 * 2 ^ (8 - Suc j)" by (simp add: Suc_diff_Suc power_Suc [symmetric] del: power_Suc)
    then have m: "missed div 2 < 2 ^ (8 - Suc j)" using 1(3) by linarith
    have l: "unat ?l \<le> unat ld" using unat_scaled_le [OF 1(5) degrade_factor_le [OF 1(2) j]] by simp
    then have "unat (decay_loop ?l (missed div 2) idx (Suc j)) \<le> unat ?l"
      using 1(1) [OF False 1(2) m] j 1(5) by simp
    then show ?thesis using l False by (subst decay_loop.simps) simp
  qed
qed

lemma decay_load_missed_le:
  assumes idx: "1 \<le> idx" "idx < 5" and ld: "unat ld < 2 ^ 25"
  shows "unat (decay_load_missed ld missed idx) \<le> unat ld"
proof (cases "missed = 0 \<or> missed \<ge> degrade_zero_ticks ! idx \<or> idx = 1")
  case True
  then show ?thesis
    by (auto simp: decay_load_missed_def unat_drop_bit_div)
next
  case False
  have "\<forall>i\<in>{..<5}. degrade_zero_ticks ! i \<le> 128" by code_simp
  then have "degrade_zero_ticks ! idx \<le> 128" using idx by simp
  then have "missed < 128" using False by (meson less_le_trans not_le)
  then have "unat missed < 2 ^ (8 - 0)" by (simp add: word_less_nat_alt)
  then show ?thesis using False decay_loop_le [OF idx(2) _ _ ld] by (simp add: decay_load_missed_def)
qed

text \<open>One step of the average: rounded towards the new load, and never past it.\<close>

lemma mean_step:
  fixes o' n s :: nat
  assumes "2 \<le> s"
  shows "o' < n \<Longrightarrow> o' < (o' * (s - 1) + (n + (s - 1))) div s \<and> (o' * (s - 1) + (n + (s - 1))) div s \<le> n"
    "n \<le> o' \<Longrightarrow> n \<le> (o' * (s - 1) + n) div s \<and> (o' * (s - 1) + n) div s \<le> o'"
proof -
  have s: "o' * (s - 1) = o' * s - o'" "o' \<le> o' * s" "n \<le> n * s"
    using assms by (simp_all add: diff_mult_distrib2)
  show "o' < (o' * (s - 1) + (n + (s - 1))) div s \<and> (o' * (s - 1) + (n + (s - 1))) div s \<le> n" if "o' < n"
  proof
    have "(o' + 1) * s \<le> o' * (s - 1) + (n + (s - 1))" using s that assms by (simp add: algebra_simps)
    then have "o' + 1 \<le> (o' * (s - 1) + (n + (s - 1))) div s" using assms by (simp add: less_eq_div_iff_mult_less_eq)
    then show "o' < (o' * (s - 1) + (n + (s - 1))) div s" by simp
    have "o' * (s - 1) \<le> (n - 1) * (s - 1)" using that by (intro mult_le_mono) auto
    also have "\<dots> + (n + (s - 1)) = n * s" using that assms by (cases n; cases s) (auto simp: algebra_simps)
    finally have "o' * (s - 1) + (n + (s - 1)) \<le> n * s" by simp
    then show "(o' * (s - 1) + (n + (s - 1))) div s \<le> n"
      by (metis assms div_le_mono nonzero_mult_div_cancel_right not_numeral_le_zero)
  qed
  show "n \<le> (o' * (s - 1) + n) div s \<and> (o' * (s - 1) + n) div s \<le> o'" if "n \<le> o'"
  proof
    have "n * (s - 1) \<le> o' * (s - 1)" using that by simp
    then have "n * s \<le> o' * (s - 1) + n" using assms by (cases s) (auto simp: algebra_simps)
    then show "n \<le> (o' * (s - 1) + n) div s" using assms by (simp add: less_eq_div_iff_mult_less_eq)
    have "o' * (s - 1) + n \<le> o' * s" using s that by linarith
    then show "(o' * (s - 1) + n) div s \<le> o'"
      by (metis assms div_le_mono nonzero_mult_div_cancel_right not_numeral_le_zero)
  qed
qed

lemma unat_new_cpu_load:
  fixes pending :: ulong
  assumes i: "1 \<le> i" "i \<le> 4" and b: "unat old < 2 ^ 25" "unat this < 2 ^ 25"
  defines "d \<equiv> decay_load_missed old (pending - 1) i"
  shows "unat (new_cpu_load this pending old i (2 ^ i)) =
    (unat d * (2 ^ i - 1) + (if unat d < unat this then unat this + (2 ^ i - 1) else unat this)) div 2 ^ i"
proof -
  have d: "unat d \<le> unat old" unfolding d_def using i b by (intro decay_load_missed_le) auto
  have p: "(2::nat) ^ i \<le> 16" using power_increasing [OF i(2), of "2::nat"] by simp
  let ?n = "unat d * (2 ^ i - 1) + (if unat d < unat this then unat this + (2 ^ i - 1) else unat this)"
  have w: "(2 ^ i - 1 :: u32) = of_nat (2 ^ i - 1)" by (simp add: of_nat_diff)
  have "unat d * (2 ^ i - 1) \<le> 2 ^ 25 * 15" using d b(1) p by (intro mult_le_mono) auto
  then have "?n < 2 ^ 32" using b(2) p by (auto split: if_splits)
  then have "unat (of_nat ?n :: u32) = ?n" by (rule unat_of_nat_bound)
  moreover have "d * (2 ^ i - 1) + (if this > d then this + (2 ^ i - 1) else this) = of_nat ?n"
    unfolding w by (simp add: word_less_nat_alt)
  ultimately show ?thesis unfolding new_cpu_load_def Let_def d_def [symmetric] by (simp only: unat_drop_bit_div)
qed

lemma nth_update_cpu_load_loop:
  "j < length ls \<Longrightarrow> update_cpu_load_loop this pending i s ls ! j = new_cpu_load this pending (ls ! j) (i + j) (s * 2 ^ j)"
proof (induction this pending i s ls arbitrary: j rule: update_cpu_load_loop.induct)
  case (2 this pending i s l ls)
  then show ?case by (cases j) (simp_all add: mult.assoc [symmetric] mult_2_right)
qed simp

lemma length_update_cpu_load_loop [simp]: "length (update_cpu_load_loop this pending i s ls) = length ls"
  by (induction this pending i s ls rule: update_cpu_load_loop.induct) simp_all

section \<open>Properties\<close>

text \<open>
  Any sequence of the operations of the load average, with arbitrary changes of the task counts
  and of the time in between.
\<close>

inductive load_step :: "'f kernel \<Rightarrow> 'f kernel \<Rightarrow> bool" where
  account: "load_step k (calc_load_account_active k)"
| enter_idle: "load_step k (calc_load_enter_idle k)"
| exit_idle: "load_step k (calc_load_exit_idle k)"
| global: "load_step k (calc_global_load k)"
| other: "lavg k' = lavg k \<Longrightarrow> calc_load_active (loads (rq k')) = calc_load_active (loads (rq k)) \<Longrightarrow> load_step k k'"

lemma folded_step: "load_step k k' \<Longrightarrow> folded k \<Longrightarrow> folded k'"
  by (induction rule: load_step.induct)
    (simp_all add: folded_account folded_enter_idle folded_exit_idle folded_global_load, simp add: folded_def)

text \<open>
  C14. The load average loses no task: through any sequence of ticks, idle entries and exits and
  global updates, the global count and the two idle counters add up to what the processor has
  contributed; so when the tick of a sampling window folds the processor's count, the three add
  up to the number of running and uninterruptible tasks.
\<close>

theorem load_fold_exact:
  assumes "load_step\<^sup>*\<^sup>* k k'" and "folded k"
    and "\<not> time_before (jiffies k') (rq_calc_load_update (loads (rq k')))"
  shows "let l = lavg (calc_load_account_active k')
    in calc_load_tasks l + calc_load_idle l 0 + calc_load_idle l 1 =
       nr_running (rq k') + nr_uninterruptible (rq k')"
proof -
  have "folded k'" using assms(1,2) by (induction rule: rtranclp_induct) (auto dest: folded_step)
  then have "folded (calc_load_account_active k')" by (rule folded_account)
  moreover have "calc_load_active (loads (rq (calc_load_account_active k'))) =
      nr_running (rq k') + nr_uninterruptible (rq k')"
    using assms(3) by (simp add: calc_load_account_active_def calc_load_fold_active_def Let_def)
  ultimately show ?thesis by (simp add: folded_def Let_def)
qed

theorem load_fold_exact_witness:
  "let k' = calc_load_enter_idle (boot_kernel\<lparr>rq := boot_rq\<lparr>nr_running := 3\<rparr>, jiffies := 600\<rparr>);
       l = lavg (calc_load_account_active k')
   in calc_load_tasks l + calc_load_idle l 0 + calc_load_idle l 1 = nr_running (rq k') + nr_uninterruptible (rq k')"
proof -
  let ?k = "boot_kernel\<lparr>rq := boot_rq\<lparr>nr_running := 3\<rparr>, jiffies := 600\<rparr>"
  have "load_step\<^sup>*\<^sup>* ?k (calc_load_enter_idle ?k)" by (intro r_into_rtranclp load_step.enter_idle)
  moreover have "folded ?k" by (simp add: folded_def boot_defs)
  moreover have "\<not> time_before (jiffies (calc_load_enter_idle ?k)) (rq_calc_load_update (loads (rq (calc_load_enter_idle ?k))))"
    by (simp add: calc_load_enter_idle_def calc_load_fold_active_def Let_def boot_defs time_before_def)
  ultimately show ?thesis using load_fold_exact unfolding Let_def by blast
qed

text \<open>The state in which the global update has folded in the old idle count.\<close>

definition with_idle_count :: "'f kernel \<Rightarrow> 'f kernel" where
  "with_idle_count k =
     (let (delta, k1) = calc_load_fold_idle k
      in if delta \<noteq> 0 then lavg_update (calc_load_tasks_update (\<lambda>t. t + delta)) k1 else k1)"

text \<open>The intervals that \<^verbatim>\<open>calc_global_nohz()\<close> makes up for after the regular update.\<close>

definition missed_intervals :: "'f kernel \<Rightarrow> u32" where
  "missed_intervals k =
     (let late = lavg_update (calc_load_update_update (\<lambda>t. t + LOAD_FREQ)) k
      in if time_before (jiffies late) (calc_load_update (lavg late) + 10) then 0
         else 1 + (jiffies late - calc_load_update (lavg late) - 10) div LOAD_FREQ)"

definition mean_load :: "nat \<Rightarrow> nat \<Rightarrow> nat \<Rightarrow> nat" where
  "mean_load e old act = (old * e + act * (2048 - e) + 1024) div 2048"

lemma mean_load_between: "e \<le> 2048 \<Longrightarrow> min old act \<le> mean_load e old act \<and> mean_load e old act \<le> max old act"
  using weighted_mean_bounds by (simp add: mean_load_def)

lemma calc_load_mean:
  assumes "unat ld \<le> A" "unat act \<le> A" "A < 2 ^ 21 - 1" "unat e \<le> 2048"
  shows "unat (calc_load ld e act) = mean_load (unat e) (unat ld) (unat act)"
    and "unat (calc_load_n ld e act n) = mean_load (unat (fixed_power_int e FSHIFT n)) (unat ld) (unat act)"
  using unat_calc_load [OF assms(1,2) _ assms(3)] assms(4) fixed_power_int_le by (simp_all add: calc_load_n_def mean_load_def)

lemma succ_div_not_0: "1 + d div LOAD_FREQ \<noteq> (0 :: u32)"
proof
  assume "1 + d div LOAD_FREQ = (0 :: u32)"
  then have "unat (d div LOAD_FREQ) = unat (- 1 :: u32)" by (metis add.inverse_unique)
  moreover have "unat (d div LOAD_FREQ) = unat d div 501" by (simp add: unat_div load_consts)
  moreover have "unat d < 2 ^ LENGTH(32)" by (rule unsigned_less)
  then have "unat d div 501 \<le> 4294967295 div 501" by (intro div_le_mono) simp
  moreover have "unat (- 1 :: u32) = 4294967295" by (simp add: unsigned_minus_1_eq_mask mask_eq_exp_minus_1)
  ultimately show False by simp
qed

lemma avenrun_global_load:
  assumes "\<not> time_before (jiffies k) (calc_load_update (lavg k) + 10)" and "i < 3"
  shows "avenrun (lavg (calc_global_load k)) ! i =
    (let e = [EXP_1, EXP_5, EXP_15] ! i; act = active_load (with_idle_count k); m = calc_load (avenrun (lavg k) ! i) e act
     in if missed_intervals k = 0 then m else calc_load_n m e act (missed_intervals k))"
proof -
  define k2 where "k2 = with_idle_count k"
  define k3 where "k3 = lavg_update (\<lambda>l. l\<lparr>avenrun := [calc_load (avenrun l ! 0) EXP_1 (active_load k2),
      calc_load (avenrun l ! 1) EXP_5 (active_load k2), calc_load (avenrun l ! 2) EXP_15 (active_load k2)],
      calc_load_update := calc_load_update l + LOAD_FREQ\<rparr>) k2"
  have g: "calc_global_load k = calc_global_nohz k3"
    using assms(1) by (simp add: calc_global_load_def k3_def k2_def with_idle_count_def split_def Let_def)
  have k2: "avenrun (lavg k2) = avenrun (lavg k)" "jiffies k2 = jiffies k" "calc_load_update (lavg k2) = calc_load_update (lavg k)"
    by (simp_all add: k2_def with_idle_count_def calc_load_fold_idle_def Let_def)
  then have k3: "avenrun (lavg k3) = [calc_load (avenrun (lavg k) ! 0) EXP_1 (active_load k2),
      calc_load (avenrun (lavg k) ! 1) EXP_5 (active_load k2), calc_load (avenrun (lavg k) ! 2) EXP_15 (active_load k2)]"
    "jiffies k3 = jiffies k" "calc_load_update (lavg k3) = calc_load_update (lavg k) + LOAD_FREQ" "active_load k3 = active_load k2"
    by (simp_all add: k3_def active_load_def)
  have n: "missed_intervals k = (if time_before (jiffies k3) (calc_load_update (lavg k3) + 10) then 0
      else 1 + (jiffies k3 - calc_load_update (lavg k3) - 10) div LOAD_FREQ)"
    by (simp add: missed_intervals_def k3 Let_def)
  have "i = 0 \<or> i = 1 \<or> i = 2" using assms(2) by linarith
  then show ?thesis
    using succ_div_not_0 [of "jiffies k3 - calc_load_update (lavg k3) - 10"]
    by (auto simp: g calc_global_nohz_def n Let_def k3 k2_def [symmetric])
qed

text \<open>
  C19. The averages are the weighted means they should be, in spite of the 32-bit arithmetic, while fewer
  than 1023 tasks are active: a global update replaces each average by the mean of its old value and
  the current load with the weight of the average, rounded to the nearest, and once more with the power of that
  weight if intervals were missed. So it stays between the old value and the load, for any number of
  missed intervals; and before the update is due nothing changes.
\<close>

theorem avenrun_bounded:
  assumes i: "i < 3" and A: "unat (avenrun (lavg k) ! i) \<le> A" "unat (active_load (with_idle_count k)) \<le> A" "A < 2 ^ 21 - 1"
  shows "let due = (\<not> time_before (jiffies k) (calc_load_update (lavg k) + 10)); n = missed_intervals k;
      e = [EXP_1, EXP_5, EXP_15] ! i; old = unat (avenrun (lavg k) ! i); act = unat (active_load (with_idle_count k));
      new = unat (avenrun (lavg (calc_global_load k)) ! i)
    in new = (if \<not> due then old
              else if n = 0 then mean_load (unat e) old act
              else mean_load (unat (fixed_power_int e FSHIFT n)) (mean_load (unat e) old act) act) \<and>
      min old act \<le> new \<and> new \<le> max old act"
proof (cases "time_before (jiffies k) (calc_load_update (lavg k) + 10)")
  case True
  then show ?thesis by (simp add: calc_global_load_def Let_def)
next
  case False
  let ?e = "[EXP_1, EXP_5, EXP_15] ! i" and ?old = "avenrun (lavg k) ! i" and ?act = "active_load (with_idle_count k)"
  have "i = 0 \<or> i = 1 \<or> i = 2" using i by linarith
  then have e: "unat ?e \<le> 2048" using unat_EXP by auto
  note m = calc_load_mean(1) [OF A e]
  have between: "min (unat ?old) (unat ?act) \<le> unat (calc_load ?old ?e ?act)" "unat (calc_load ?old ?e ?act) \<le> max (unat ?old) (unat ?act)"
    using mean_load_between [OF e] by (simp_all add: m)
  then have "unat (calc_load ?old ?e ?act) \<le> A" using A(1,2) by linarith
  note n = calc_load_mean(2) [OF this A(2,3) e, of "missed_intervals k"]
  have p: "unat (fixed_power_int ?e FSHIFT (missed_intervals k)) \<le> 2048" by (rule fixed_power_int_le [OF e])
  show ?thesis
  proof (cases "missed_intervals k = 0")
    case True
    then show ?thesis using False between by (simp add: Let_def avenrun_global_load [OF False i] m)
  next
    case missed: False
    have "min (unat ?old) (unat ?act) \<le> mean_load (unat (fixed_power_int ?e FSHIFT (missed_intervals k))) (mean_load (unat ?e) (unat ?old) (unat ?act)) (unat ?act)"
      "mean_load (unat (fixed_power_int ?e FSHIFT (missed_intervals k))) (mean_load (unat ?e) (unat ?old) (unat ?act)) (unat ?act) \<le> max (unat ?old) (unat ?act)"
      using mean_load_between [OF p, of "mean_load (unat ?e) (unat ?old) (unat ?act)" "unat ?act"] between m by linarith+
    then show ?thesis using False missed by (simp add: Let_def avenrun_global_load [OF False i] m n)
  qed
qed

theorem avenrun_bounded_witness:
  "avenrun (lavg (calc_global_load (boot_kernel\<lparr>jiffies := 600, lavg := (lavg boot_kernel)\<lparr>calc_load_tasks := 2\<rparr>\<rparr>))) ! 0 = 328"
proof -
  let ?k = "boot_kernel\<lparr>jiffies := 600, lavg := (lavg boot_kernel)\<lparr>calc_load_tasks := 2\<rparr>\<rparr>"
  have k: "avenrun (lavg ?k) ! 0 = 0" "active_load (with_idle_count ?k) = 4096" "missed_intervals ?k = 0"
      "\<not> time_before (jiffies ?k) (calc_load_update (lavg ?k) + 10)"
    by (simp_all add: boot_defs active_load_def with_idle_count_def calc_load_fold_idle_def missed_intervals_def
        time_before_def load_consts Let_def)
  have "unat (avenrun (lavg (calc_global_load ?k)) ! 0) = 328"
    using avenrun_bounded [of 0 ?k 4096] k by (simp add: Let_def mean_load_def load_consts)
  then show ?thesis by (simp add: word_unat_eq_iff)
qed

text \<open>A tick of the processor with its load unchanged.\<close>

definition load_tick :: "'f kernel \<Rightarrow> 'f kernel" where
  "load_tick k = update_cpu_load (k\<lparr>jiffies := jiffies k + 1\<rparr>)"

lemma load_tick_effect:
  assumes "length (cpu_load (loads (rq k))) = 5" and "last_load_update_tick (loads (rq k)) = jiffies k"
    and "unat (rq_load_weight (loads (rq k))) < 2 ^ 25" and "unat (cpu_load (loads (rq k)) ! i) < 2 ^ 25"
    and "1 \<le> i" and "i \<le> 4"
  shows "length (cpu_load (loads (rq (load_tick k)))) = 5" and "last_load_update_tick (loads (rq (load_tick k))) = jiffies (load_tick k)"
    and "rq_load_weight (loads (rq (load_tick k))) = rq_load_weight (loads (rq k))"
    and "unat (cpu_load (loads (rq (load_tick k))) ! i) =
      (let old = unat (cpu_load (loads (rq k)) ! i); this = unat (rq_load_weight (loads (rq k)))
       in (old * (2 ^ i - 1) + this + (if old < this then 2 ^ i - 1 else 0)) div 2 ^ i)"
proof -
  let ?o = "cpu_load (loads (rq k)) ! i" and ?t = "rq_load_weight (loads (rq k))"
  obtain a ls where ls: "cpu_load (loads (rq k)) = a # ls" using assms(1) by (metis Zero_not_Suc length_0_conv numeral_eq_Suc neq_Nil_conv)
  have tick: "jiffies k + 1 \<noteq> last_load_update_tick (loads (rq k))" "jiffies k + 1 - last_load_update_tick (loads (rq k)) = 1"
    by (simp_all add: assms(2))
  show "length (cpu_load (loads (rq (load_tick k)))) = 5" "last_load_update_tick (loads (rq (load_tick k))) = jiffies (load_tick k)"
    "rq_load_weight (loads (rq (load_tick k))) = ?t"
    using ls assms(1) tick by (simp_all add: load_tick_def update_cpu_load_def Let_def)
  have "i - 1 < length ls" using ls assms(1,5,6) by simp
  moreover obtain j where j: "i = Suc j" using assms(5) by (metis Suc_le_D One_nat_def)
  ultimately have "cpu_load (loads (rq (load_tick k))) ! i = new_cpu_load ?t 1 ?o i (2 ^ i)"
    using ls tick by (simp add: load_tick_def update_cpu_load_def Let_def nth_update_cpu_load_loop)
  then show "unat (cpu_load (loads (rq (load_tick k))) ! i) =
      (let old = unat ?o; this = unat ?t in (old * (2 ^ i - 1) + this + (if old < this then 2 ^ i - 1 else 0)) div 2 ^ i)"
    using unat_new_cpu_load [OF assms(5,6,4,3), of 1] by (simp add: decay_load_missed_def Let_def add.assoc)
qed

lemma mean_step_down:
  fixes o' n s :: nat
  assumes "n < o'" and "2 \<le> s"
  shows "(o' * (s - 1) + n) div s < o'"
proof -
  have "o' * (s - 1) + n < o' * s" using assms by (cases s) (simp_all add: algebra_simps)
  then show ?thesis using assms(2) by (simp add: div_less_iff_less_mult)
qed

text \<open>How far the average is from the load.\<close>

definition load_gap :: "nat \<Rightarrow> 'f kernel \<Rightarrow> nat" where
  "load_gap i k =
     (let old = unat (cpu_load (loads (rq k)) ! i); this = unat (rq_load_weight (loads (rq k)))
      in (this - old) + (old - this))"

lemma load_tick_closer:
  assumes "length (cpu_load (loads (rq k))) = 5" and "last_load_update_tick (loads (rq k)) = jiffies k"
    and "unat (rq_load_weight (loads (rq k))) < 2 ^ 25" and "unat (cpu_load (loads (rq k)) ! i) < 2 ^ 25"
    and "1 \<le> i" and "i \<le> 4"
  shows "let old = unat (cpu_load (loads (rq k)) ! i); this = unat (rq_load_weight (loads (rq k)));
      new = unat (cpu_load (loads (rq (load_tick k))) ! i)
    in (if old < this then old < new \<and> new \<le> this else if this < old then this \<le> new \<and> new < old else new = old)"
proof -
  let ?o = "unat (cpu_load (loads (rq k)) ! i)" and ?t = "unat (rq_load_weight (loads (rq k)))"
  have two: "(2::nat) \<le> 2 ^ i" using assms(5) power_increasing [of 1 i "2::nat"] by simp
  note new = load_tick_effect(4) [OF assms, unfolded Let_def]
  have "?o < ?t \<or> ?t < ?o \<or> ?o = ?t" by linarith
  then show ?thesis
    unfolding Let_def new using mean_step [OF two, of ?o ?t] mean_step(2) [OF two, of ?t ?o] mean_step_down [OF _ two, of ?t ?o]
    by (auto simp: add.assoc)
qed

lemma load_ticks_reach:
  assumes "length (cpu_load (loads (rq k))) = 5" and "last_load_update_tick (loads (rq k)) = jiffies k"
    and "unat (rq_load_weight (loads (rq k))) < 2 ^ 25" and "unat (cpu_load (loads (rq k)) ! i) < 2 ^ 25"
    and "1 \<le> i" and "i \<le> 4" and "load_gap i k \<le> n"
  shows "cpu_load (loads (rq ((load_tick ^^ n) k))) ! i = rq_load_weight (loads (rq k))"
  using assms
proof (induction n arbitrary: k)
  case 0
  then show ?case by (simp add: load_gap_def Let_def word_unat_eq_iff)
next
  case (Suc n)
  note effect = load_tick_effect [OF Suc.prems(1-6)]
  note closer = load_tick_closer [OF Suc.prems(1-6), unfolded Let_def]
  have "unat (cpu_load (loads (rq (load_tick k))) ! i) < 2 ^ 25"
    using closer Suc.prems(3,4) by (auto split: if_splits)
  moreover have "load_gap i (load_tick k) \<le> n"
    using closer Suc.prems(7) by (auto simp: load_gap_def Let_def effect(3) split: if_splits)
  ultimately have "cpu_load (loads (rq ((load_tick ^^ n) (load_tick k)))) ! i = rq_load_weight (loads (rq (load_tick k)))"
    using Suc.IH [OF effect(1,2) _ _ Suc.prems(5,6)] Suc.prems(3) effect(3) by simp
  then show ?case by (simp add: funpow_swap1 effect(3))
qed

text \<open>
  C20. The load of a processor follows its current load: at each tick the new average is the mean of the old
  one with weight $2^i - 1$ and the current load with weight 1, rounded towards the current load. So it comes
  strictly closer while it differs, never passes the current load, and reaches it after as many
  ticks as the two differ by, and then stays.
\<close>

theorem update_cpu_load_converges:
  assumes "length (cpu_load (loads (rq k))) = 5" and "last_load_update_tick (loads (rq k)) = jiffies k"
    and "unat (rq_load_weight (loads (rq k))) < 2 ^ 25" and "unat (cpu_load (loads (rq k)) ! i) < 2 ^ 25"
    and "1 \<le> i" and "i \<le> 4"
  shows "let old = unat (cpu_load (loads (rq k)) ! i); this = unat (rq_load_weight (loads (rq k)));
      new = unat (cpu_load (loads (rq (load_tick k))) ! i)
    in new = (old * (2 ^ i - 1) + this + (if old < this then 2 ^ i - 1 else 0)) div 2 ^ i \<and>
      (if old < this then old < new \<and> new \<le> this else if this < old then this \<le> new \<and> new < old else new = old) \<and>
      (\<forall>n \<ge> load_gap i k. cpu_load (loads (rq ((load_tick ^^ n) k))) ! i = rq_load_weight (loads (rq k)))"
  using load_tick_effect(4) [OF assms] load_tick_closer [OF assms] load_ticks_reach [OF assms] by (simp only: Let_def) blast

theorem update_cpu_load_converges_witness:
  "let k = boot_kernel\<lparr>rq := boot_rq\<lparr>loads := (loads boot_rq)\<lparr>rq_load_weight := 10, cpu_load := [13, 13, 13, 13, 13]\<rparr>\<rparr>\<rparr>
   in cpu_load (loads (rq ((load_tick ^^ 3) k))) ! 4 = 10 \<and> unat (cpu_load (loads (rq (load_tick k))) ! 4) = 12"
proof -
  let ?k = "boot_kernel\<lparr>rq := boot_rq\<lparr>loads := (loads boot_rq)\<lparr>rq_load_weight := 10, cpu_load := [13, 13, 13, 13, 13]\<rparr>\<rparr>\<rparr>"
  have "load_gap 4 ?k = 3" by (simp add: load_gap_def)
  then show ?thesis using update_cpu_load_converges [of ?k 4] by (simp add: boot_defs Let_def)
qed

end
