(* ===== verification/Core.thy ===== *)
theory Core
  imports Rt Load_Avg
begin

text \<open>
  The core of the scheduler, \<^verbatim>\<open>kernel/sched/core.c\<close>: priorities, the run queue, waking up,
  forking and the main scheduling function. Locks, memory barriers and trace points are left
  out: on one processor with the run queue lock held the functions run to completion.
\<close>

section \<open>Clock\<close>

definition update_rq_clock_task :: "u64 \<Rightarrow> 'f kernel \<Rightarrow> 'f kernel" where
  "update_rq_clock_task delta = rq_update (clock_task_update (\<lambda>c. c + delta))"

definition update_rq_clock :: "'f kernel \<Rightarrow> 'f kernel" where
  "update_rq_clock k =
     (if skip_clock_update (rq k) > 0 then k
      else let delta = sched_clock_now k - clock (rq k)
           in update_rq_clock_task delta (rq_update (clock_update (\<lambda>c. c + delta)) k))"

section \<open>Priorities\<close>

definition NICE_TO_PRIO :: "int \<Rightarrow> int" where
  "NICE_TO_PRIO nice = MAX_RT_PRIO + nice + 20"

definition PRIO_TO_NICE :: "int \<Rightarrow> int" where
  "PRIO_TO_NICE pr = pr - MAX_RT_PRIO - 20"

definition TASK_NICE :: "task_struct \<Rightarrow> int" where
  "TASK_NICE p = PRIO_TO_NICE (static_prio p)"

definition prio_to_weight :: "ulong list" where
  "prio_to_weight =
     [88761, 71755, 56483, 46273, 36291, 29154, 23254, 18705, 14949, 11916,
      9548, 7620, 6100, 4904, 3906, 3121, 2501, 1991, 1586, 1277,
      1024, 820, 655, 526, 423, 335, 272, 215, 172, 137,
      110, 87, 70, 56, 45, 36, 29, 23, 18, 15]"

definition prio_to_wmult :: "ulong list" where
  "prio_to_wmult =
     [48388, 59856, 76040, 92818, 118348, 147320, 184698, 229616, 287308, 360437,
      449829, 563644, 704093, 875809, 1099582, 1376151, 1717300, 2157191, 2708050, 3363326,
      4194304, 5237765, 6557202, 8165337, 10153587, 12820798, 15790321, 19976592, 24970740, 31350126,
      39045157, 49367440, 61356676, 76695844, 95443717, 119304647, 148102320, 186737708, 238609294, 286331153]"

definition WEIGHT_IDLEPRIO :: ulong where "WEIGHT_IDLEPRIO = 3"
definition WMULT_IDLEPRIO :: ulong where "WMULT_IDLEPRIO = 1431655765"

text \<open>On a 32-bit machine \<^verbatim>\<open>scale_load()\<close> is the identity.\<close>

definition set_load_weight :: "tid \<Rightarrow> 'f kernel \<Rightarrow> 'f kernel" where
  "set_load_weight p k =
     (let i = nat (static_prio (tasks k p) - MAX_RT_PRIO);
          lw = (if policy (tasks k p) = SCHED_IDLE
                then \<lparr>lw_weight = WEIGHT_IDLEPRIO, lw_inv_weight = WMULT_IDLEPRIO\<rparr>
                else \<lparr>lw_weight = prio_to_weight ! i, lw_inv_weight = prio_to_wmult ! i\<rparr>)
      in upd_task p (p_se_update (load_update (\<lambda>_. lw))) k)"

definition normal_prio_of :: "task_struct \<Rightarrow> int" where
  "normal_prio_of p =
     (if task_has_rt_policy p then MAX_RT_PRIO - 1 - rt_priority p else static_prio p)"

definition effective_prio :: "tid \<Rightarrow> 'f kernel \<Rightarrow> int \<times> 'f kernel" where
  "effective_prio p k =
     (let k1 = upd_task p (\<lambda>t. t\<lparr>normal_prio := normal_prio_of t\<rparr>) k
      in if \<not> rt_prio (prio (tasks k1 p)) then (normal_prio (tasks k1 p), k1)
         else (prio (tasks k1 p), k1))"

definition task_curr :: "'f kernel \<Rightarrow> tid \<Rightarrow> bool" where
  "task_curr k p = (curr (rq k) = p)"

section \<open>Classes\<close>

definition class_ops :: "'f env \<Rightarrow> class_id \<Rightarrow> 'f sched_class_ops" where
  "class_ops e c =
     (case c of Stop_Class \<Rightarrow> stop_class e | Rt_Class \<Rightarrow> rt_sched_class e
      | Wrr_Class \<Rightarrow> wrr_sched_class e | Fair_Class \<Rightarrow> fair_class e | Idle_Class \<Rightarrow> idle_class e)"

abbreviation ops :: "'f env \<Rightarrow> 'f kernel \<Rightarrow> tid \<Rightarrow> 'f sched_class_ops" where
  "ops e k p \<equiv> class_ops e (sched_class (tasks k p))"

text \<open>
  \<^verbatim>\<open>for_each_class\<close>: from the highest class along \<^verbatim>\<open>next\<close>. There are five classes, so
  that following five links visits all of them.
\<close>

fun class_chain :: "'f env \<Rightarrow> nat \<Rightarrow> class_id option \<Rightarrow> class_id list" where
  "class_chain e n None = []"
| "class_chain e 0 (Some c) = []"
| "class_chain e (Suc n) (Some c) = c # class_chain e n (next_class (class_ops e c))"

definition all_classes :: "'f env \<Rightarrow> class_id list" where
  "all_classes e = class_chain e 5 (Some Stop_Class)"

definition check_class_changed :: "'f env \<Rightarrow> tid \<Rightarrow> class_id \<Rightarrow> int \<Rightarrow> 'f kernel \<Rightarrow> 'f kernel" where
  "check_class_changed e p prev_class oldprio k =
     (if prev_class \<noteq> sched_class (tasks k p) then
        let k1 = (case switched_from_op (class_ops e prev_class) of Some f \<Rightarrow> f p k | None \<Rightarrow> k)
        in switched_to_op (ops e k1 p) p k1
      else if oldprio \<noteq> prio (tasks k p) then prio_changed_op (ops e k p) p oldprio k
      else k)"

fun preempt_by_class :: "class_id list \<Rightarrow> tid \<Rightarrow> 'f kernel \<Rightarrow> 'f kernel" where
  "preempt_by_class [] p k = k"
| "preempt_by_class (c # cs) p k =
     (if c = sched_class (curr_task k) then k
      else if c = sched_class (tasks k p) then resched_task (curr (rq k)) k
      else preempt_by_class cs p k)"

definition check_preempt_curr :: "'f env \<Rightarrow> tid \<Rightarrow> u32 \<Rightarrow> 'f kernel \<Rightarrow> 'f kernel" where
  "check_preempt_curr e p flags k =
     (let k1 = (if sched_class (tasks k p) = sched_class (curr_task k)
                then check_preempt_curr_op (ops e k (curr (rq k))) p flags k
                else preempt_by_class (all_classes e) p k)
      in if on_rq (curr_task k1) \<and> need_resched (curr_task k1)
         then rq_update (skip_clock_update_update (\<lambda>_. 1)) k1 else k1)"

section \<open>On and off the run queue\<close>

definition enqueue_task :: "'f env \<Rightarrow> tid \<Rightarrow> u32 \<Rightarrow> 'f kernel \<Rightarrow> 'f kernel" where
  "enqueue_task e p flags k =
     (let k1 = ext_call (Sched_Info_Queued p) (update_rq_clock k)
      in enqueue_task_op (ops e k1 p) p flags k1)"

definition dequeue_task :: "'f env \<Rightarrow> tid \<Rightarrow> u32 \<Rightarrow> 'f kernel \<Rightarrow> 'f kernel" where
  "dequeue_task e p flags k =
     (let k1 = ext_call (Sched_Info_Dequeued p) (update_rq_clock k)
      in dequeue_task_op (ops e k1 p) p flags k1)"

definition activate_task :: "'f env \<Rightarrow> tid \<Rightarrow> u32 \<Rightarrow> 'f kernel \<Rightarrow> 'f kernel" where
  "activate_task e p flags k =
     enqueue_task e p flags
       (if task_contributes_to_load (tasks k p)
        then rq_update (nr_uninterruptible_update (\<lambda>n. n - 1)) k else k)"

definition deactivate_task :: "'f env \<Rightarrow> tid \<Rightarrow> u32 \<Rightarrow> 'f kernel \<Rightarrow> 'f kernel" where
  "deactivate_task e p flags k =
     dequeue_task e p flags
       (if task_contributes_to_load (tasks k p)
        then rq_update (nr_uninterruptible_update (\<lambda>n. n + 1)) k else k)"

section \<open>Waking up\<close>

definition ttwu_stat :: "tid \<Rightarrow> u32 \<Rightarrow> 'f kernel \<Rightarrow> 'f kernel" where
  "ttwu_stat p wake_flags k =
     (let k1 = rq_update (ttwu_count_update (\<lambda>n. n + 1)) k;
          k2 = upd_task p (p_se_update (nr_wakeups_update (\<lambda>n. n + 1))) k1
      in if wake_flags AND WF_SYNC \<noteq> 0
         then upd_task p (p_se_update (nr_wakeups_sync_update (\<lambda>n. n + 1))) k2 else k2)"

definition ttwu_activate :: "'f env \<Rightarrow> tid \<Rightarrow> u32 \<Rightarrow> 'f kernel \<Rightarrow> 'f kernel" where
  "ttwu_activate e p en_flags k =
     (let k1 = upd_task p (on_rq_update (\<lambda>_. True)) (activate_task e p en_flags k)
      in if tsk_flags (tasks k1 p) AND PF_WQ_WORKER \<noteq> 0 then ext_call (Wq_Worker_Waking_Up p) k1
         else k1)"

definition ttwu_do_wakeup :: "'f env \<Rightarrow> tid \<Rightarrow> u32 \<Rightarrow> 'f kernel \<Rightarrow> 'f kernel" where
  "ttwu_do_wakeup e p wake_flags k =
     upd_task p (tsk_state_update (\<lambda>_. TASK_RUNNING)) (check_preempt_curr e p wake_flags k)"

definition ttwu_do_activate :: "'f env \<Rightarrow> tid \<Rightarrow> u32 \<Rightarrow> 'f kernel \<Rightarrow> 'f kernel" where
  "ttwu_do_activate e p wake_flags k =
     ttwu_do_wakeup e p wake_flags (ttwu_activate e p (ENQUEUE_WAKEUP OR ENQUEUE_WAKING) k)"

definition ttwu_remote :: "'f env \<Rightarrow> tid \<Rightarrow> u32 \<Rightarrow> 'f kernel \<Rightarrow> bool \<times> 'f kernel" where
  "ttwu_remote e p wake_flags k =
     (if on_rq (tasks k p) then (True, ttwu_do_wakeup e p wake_flags k) else (False, k))"

definition ttwu_queue :: "'f env \<Rightarrow> tid \<Rightarrow> 'f kernel \<Rightarrow> 'f kernel" where
  "ttwu_queue e p k = ttwu_do_activate e p 0 k"

definition try_to_wake_up :: "'f env \<Rightarrow> tid \<Rightarrow> ulong \<Rightarrow> u32 \<Rightarrow> 'f kernel \<Rightarrow> bool \<times> 'f kernel" where
  "try_to_wake_up e p state wake_flags k =
     (if tsk_state (tasks k p) AND state = 0 then (False, k)
      else
        let (remote, k1) = (if on_rq (tasks k p) then ttwu_remote e p wake_flags k else (False, k));
            k2 = (if remote then k1 else ttwu_queue e p k1)
        in (True, ttwu_stat p wake_flags k2))"

definition try_to_wake_up_local :: "'f env \<Rightarrow> tid \<Rightarrow> 'f kernel \<Rightarrow> 'f kernel" where
  "try_to_wake_up_local e p k =
     (if p = curr (rq k) then k
      else if tsk_state (tasks k p) AND TASK_NORMAL = 0 then k
      else
        let k1 = (if \<not> on_rq (tasks k p) then ttwu_activate e p ENQUEUE_WAKEUP k else k)
        in ttwu_stat p 0 (ttwu_do_wakeup e p 0 k1))"

definition wake_up_process :: "'f env \<Rightarrow> tid \<Rightarrow> 'f kernel \<Rightarrow> bool \<times> 'f kernel" where
  "wake_up_process e p k = try_to_wake_up e p TASK_NORMAL 0 k"

definition wake_up_state :: "'f env \<Rightarrow> tid \<Rightarrow> ulong \<Rightarrow> 'f kernel \<Rightarrow> bool \<times> 'f kernel" where
  "wake_up_state e p state k = try_to_wake_up e p state 0 k"

section \<open>Weights of new WRR tasks\<close>

text \<open>
  \<^verbatim>\<open>core.c\<close> has its own \<^verbatim>\<open>task_group_path()\<close> and buffer; for a group without a cgroup it
  clears only the first character.
\<close>

definition core_task_group_path :: "'f env \<Rightarrow> tgid \<Rightarrow> 'f kernel \<Rightarrow> 'f kernel" where
  "core_task_group_path e tg k =
     (case (if CONFIG_SCHED_DEBUG e then autogroup_path e tg else None) of
        Some s \<Rightarrow> core_group_path_update (write_path s) k
      | None \<Rightarrow>
         (case tg_cgroup k tg of
            None \<Rightarrow> core_group_path_update (\<lambda>b. b(0 := CHR 0x00)) k
          | Some s \<Rightarrow> core_group_path_update (write_path s) k))"

definition wrr_if_fg :: "'f env \<Rightarrow> tid \<Rightarrow> 'f kernel \<Rightarrow> bool \<times> 'f kernel" where
  "wrr_if_fg e p k =
     (let k1 = core_task_group_path e (sched_task_group (tasks k p)) k
      in (core_group_path k1 1 \<noteq> CHR ''b'', k1))"

definition wrr_set_weight :: "'f env \<Rightarrow> tid \<Rightarrow> 'f kernel \<Rightarrow> 'f kernel" where
  "wrr_set_weight e p k =
     (let k1 = (if custom_weight (p_wrr (tasks k p)) = 0 then
                  let (fg, k1) = wrr_if_fg e p k
                  in if \<not> fg then set_weight p WRR_BG_WEIGHT k1 else set_weight p WRR_FG_WEIGHT k1
                else k)
      in if policy (tasks k1 p) = SCHED_WRR
         then set_time_slice p (weight (p_wrr (tasks k1 p)) * WRR_WEIGHT_UNIT) k1 else k1)"

section \<open>Forking\<close>

text \<open>
  The list heads \<^verbatim>\<open>__sched_fork()\<close> initialises belong to a new task, which is in no queue.
\<close>

definition sched_fork_init :: "tid \<Rightarrow> 'f kernel \<Rightarrow> 'f kernel" where
  "sched_fork_init p =
     upd_task p (\<lambda>t. t\<lparr>on_rq := False,
       p_se := (p_se t)\<lparr>se_on_rq := False, exec_start := 0, sum_exec_runtime := 0,
         prev_sum_exec_runtime := 0, nr_migrations := 0, vruntime := 0,
         exec_max := 0, nr_wakeups := 0, nr_wakeups_sync := 0\<rparr>\<rparr>)"

definition reset_on_fork :: "tid \<Rightarrow> 'f kernel \<Rightarrow> 'f kernel" where
  "reset_on_fork p k =
     (let k1 = (if task_has_rt_policy (tasks k p)
                then upd_task p (\<lambda>t. t\<lparr>policy := SCHED_NORMAL, static_prio := NICE_TO_PRIO 0,
                       rt_priority := 0\<rparr>) k
                else if PRIO_TO_NICE (static_prio (tasks k p)) < 0
                then upd_task p (static_prio_update (\<lambda>_. NICE_TO_PRIO 0)) k else k);
          k2 = upd_task p (\<lambda>t. t\<lparr>prio := static_prio t, normal_prio := static_prio t\<rparr>) k1;
          k3 = set_load_weight p k2
      in upd_task p (sched_reset_on_fork_update (\<lambda>_. False)) k3)"

definition sched_fork :: "'f env \<Rightarrow> tid \<Rightarrow> 'f kernel \<Rightarrow> 'f kernel" where
  "sched_fork e p k =
     (let k1 = upd_task p (tsk_state_update (\<lambda>_. TASK_RUNNING)) (sched_fork_init p k);
          k2 = upd_task p (prio_update (\<lambda>_. normal_prio (curr_task k1))) k1;
          k3 = (if sched_reset_on_fork (tasks k2 p) then reset_on_fork p k2 else k2);
          k4 = (if \<not> rt_prio (prio (tasks k3 p))
                then upd_task p (sched_class_update (\<lambda>_.
                       if policy (tasks k3 p) = SCHED_WRR then Wrr_Class else Fair_Class)) k3
                else k3);
          k5 = (case task_fork_op (ops e k4 p) of Some f \<Rightarrow> f p k4 | None \<Rightarrow> k4)
      in upd_task p (preempt_count_update (\<lambda>_. 1)) k5)"

definition wake_up_new_task :: "'f env \<Rightarrow> tid \<Rightarrow> 'f kernel \<Rightarrow> 'f kernel" where
  "wake_up_new_task e p k =
     (let k1 = wrr_set_weight e p k;
          k2 = upd_task p (on_rq_update (\<lambda>_. True)) (activate_task e p 0 k1)
      in check_preempt_curr e p WF_FORK k2)"

section \<open>The tick\<close>

definition scheduler_tick :: "'f env \<Rightarrow> 'f kernel \<Rightarrow> 'f kernel" where
  "scheduler_tick e k =
     (let c = curr (rq k);
          k1 = update_cpu_load_active (update_rq_clock k)
      in task_tick_op (ops e k1 c) c False k1)"

section \<open>The main scheduling function\<close>

definition put_prev_task :: "'f env \<Rightarrow> tid \<Rightarrow> 'f kernel \<Rightarrow> 'f kernel" where
  "put_prev_task e prev k =
     (let k1 = (if on_rq (tasks k prev) \<or> skip_clock_update (rq k) < 0 then update_rq_clock k else k)
      in put_prev_task_op (ops e k1 prev) prev k1)"

fun pick_first :: "'f env \<Rightarrow> class_id list \<Rightarrow> 'f kernel \<Rightarrow> tid option \<times> 'f kernel" where
  "pick_first e [] k = (None, BUG k)"
| "pick_first e (c # cs) k =
     (case pick_next_task_op (class_ops e c) k of
        (Some p, k') \<Rightarrow> (Some p, k') | (None, k') \<Rightarrow> pick_first e cs k')"

definition pick_next_task :: "'f env \<Rightarrow> 'f kernel \<Rightarrow> tid option \<times> 'f kernel" where
  "pick_next_task e k =
     (if nr_running (rq k) = h_nr_running (rq k) then
        (case pick_next_task_op (fair_class e) k of
           (Some p, k') \<Rightarrow> (Some p, k') | (None, k') \<Rightarrow> pick_first e (all_classes e) k')
      else pick_first e (all_classes e) k)"

text \<open>
  \<^verbatim>\<open>PREEMPT_ACTIVE\<close> comes from \<^verbatim>\<open><asm/thread_info.h>\<close>. The preemption count belongs to
  a thread: the one that enters the function disables preemption, the one that leaves it
  enables it again.
\<close>

definition PREEMPT_ACTIVE :: u32 where "PREEMPT_ACTIVE = 0x40000000"

definition preempt_disable :: "'f kernel \<Rightarrow> 'f kernel" where
  "preempt_disable k = upd_task (curr (rq k)) (preempt_count_update (\<lambda>n. n + 1)) k"

definition preempt_enable_no_resched :: "'f kernel \<Rightarrow> 'f kernel" where
  "preempt_enable_no_resched k = upd_task (curr (rq k)) (preempt_count_update (\<lambda>n. n - 1)) k"

definition schedule_debug :: "'f kernel \<Rightarrow> 'f kernel" where
  "schedule_debug = rq_update (sched_count_update (\<lambda>n. n + 1))"

text \<open>A task that gives up the processor to sleep is taken off the run queue.\<close>

definition deactivate_prev :: "'f env \<Rightarrow> tid \<Rightarrow> 'f kernel \<Rightarrow> 'f kernel" where
  "deactivate_prev e prev k =
     (if signal_pending_state (tsk_state (tasks k prev)) (tasks k prev)
      then upd_task prev (tsk_state_update (\<lambda>_. TASK_RUNNING)) k
      else
        let k1 = upd_task prev (on_rq_update (\<lambda>_. False)) (deactivate_task e prev DEQUEUE_SLEEP k)
        in if tsk_flags (tasks k1 prev) AND PF_WQ_WORKER \<noteq> 0 then
             (case wq_worker_sleeping e k1 prev of
                Some p \<Rightarrow> try_to_wake_up_local e p k1 | None \<Rightarrow> k1)
           else k1)"

text \<open>One pass of \<^verbatim>\<open>__schedule()\<close>, from the label to the test that may jump back to it.\<close>

definition schedule_pass :: "'f env \<Rightarrow> 'f kernel \<Rightarrow> 'f kernel" where
  "schedule_pass e k =
     (let k1 = schedule_debug (preempt_disable k);
          prev = curr (rq k1);
          voluntary = (tsk_state (tasks k1 prev) \<noteq> 0 \<and> preempt_count (tasks k1 prev) AND PREEMPT_ACTIVE = 0);
          k2 = (if voluntary then deactivate_prev e prev k1 else k1);
          k3 = put_prev_task e prev k2
      in case pick_next_task e k3 of
           (None, k4) \<Rightarrow> k4
         | (Some nxt, k4) \<Rightarrow>
             let k5 = rq_update (skip_clock_update_update (\<lambda>_. 0)) (clear_tsk_need_resched prev k4);
                 k6 = (if prev \<noteq> nxt then
                         let ka = rq_update (\<lambda>r. r\<lparr>nr_switches := nr_switches r + 1, curr := nxt\<rparr>) k5;
                             kb = (if voluntary then upd_task prev (nvcsw_update (\<lambda>n. n + 1)) ka
                                   else upd_task prev (nivcsw_update (\<lambda>n. n + 1)) ka)
                         in ext_call (Context_Switch prev nxt) kb
                       else k5)
             in preempt_enable_no_resched k6)"

text \<open>
  \<^verbatim>\<open>__schedule()\<close> repeats while the task it returns to has to reschedule: \<open>None\<close> when that
  never ends.
\<close>

partial_function (option) schedule_loop :: "'f env \<Rightarrow> 'f kernel \<Rightarrow> 'f kernel option" where
  "schedule_loop e k =
     (let k1 = schedule_pass e k
      in if need_resched (curr_task k1) \<and> \<not> panicked k1 then schedule_loop e k1 else Some k1)"

declare schedule_loop.simps [code]

definition sched_submit_work :: "(tid \<Rightarrow> bool) \<Rightarrow> (tid \<Rightarrow> bool) \<Rightarrow> tid \<Rightarrow> 'f kernel \<Rightarrow> 'f kernel" where
  "sched_submit_work pi_blocked needs_flush tsk k =
     (if tsk_state (tasks k tsk) = 0 \<or> pi_blocked tsk then k
      else if needs_flush tsk then ext_call (Blk_Schedule_Flush_Plug tsk) k else k)"

definition schedule :: "'f env \<Rightarrow> (tid \<Rightarrow> bool) \<Rightarrow> (tid \<Rightarrow> bool) \<Rightarrow> 'f kernel \<Rightarrow> 'f kernel option" where
  "schedule e pi_blocked needs_flush k =
     schedule_loop e (sched_submit_work pi_blocked needs_flush (curr (rq k)) k)"

end
