(* ===== verification/Setsched.thy ===== *)
theory Setsched
  imports Core
begin

text \<open>
  Changing and reading scheduling parameters, \<^verbatim>\<open>kernel/sched/core.c\<close>: nice values, priority
  inheritance, \<^verbatim>\<open>sched_setscheduler()\<close> and the system calls around it, yielding, and the
  moves of tasks between task groups. A return value of 0 is \<open>None\<close>, an error \<open>Some\<close> of its
  number.
\<close>

section \<open>Priority inheritance and nice values\<close>

text \<open>The assignment of the class by priority and policy, the same in both places of the source.\<close>

definition set_class :: "tid \<Rightarrow> 'f kernel \<Rightarrow> 'f kernel" where
  "set_class p =
     upd_task p (\<lambda>t. t\<lparr>sched_class :=
       (if rt_prio (prio t) then Rt_Class
        else if policy t = SCHED_WRR then Wrr_Class else Fair_Class)\<rparr>)"

definition rt_mutex_setprio :: "'f env \<Rightarrow> tid \<Rightarrow> int \<Rightarrow> 'f kernel \<Rightarrow> 'f kernel" where
  "rt_mutex_setprio e p newprio k =
     (if newprio < 0 \<or> newprio > MAX_PRIO then BUG k
      else if p = idle (rq k) then k
      else
        let oldprio = prio (tasks k p);
            prev_class = sched_class (tasks k p);
            was_on_rq = on_rq (tasks k p);
            running = task_current k p;
            k1 = (if was_on_rq then dequeue_task e p 0 k else k);
            k2 = (if running then put_prev_task_op (ops e k1 p) p k1 else k1);
            k3 = set_class p (upd_task p (prio_update (\<lambda>_. newprio)) k2);
            k4 = (if running then set_curr_task_op (ops e k3 p) k3 else k3);
            k5 = (if was_on_rq
                  then enqueue_task e p (if oldprio < newprio then ENQUEUE_HEAD else 0) k4 else k4)
        in check_class_changed e p prev_class oldprio k5)"

definition set_user_nice :: "'f env \<Rightarrow> tid \<Rightarrow> int \<Rightarrow> 'f kernel \<Rightarrow> 'f kernel" where
  "set_user_nice e p nice k =
     (if TASK_NICE (tasks k p) = nice \<or> nice < - 20 \<or> nice > 19 then k
      else if task_has_rt_policy (tasks k p)
      then upd_task p (static_prio_update (\<lambda>_. NICE_TO_PRIO nice)) k
      else
        let was_on_rq = on_rq (tasks k p);
            k1 = (if was_on_rq then dequeue_task e p 0 k else k);
            k2 = set_load_weight p (upd_task p (static_prio_update (\<lambda>_. NICE_TO_PRIO nice)) k1);
            old_prio = prio (tasks k2 p);
            (pr, k3) = effective_prio p k2;
            k4 = upd_task p (prio_update (\<lambda>_. pr)) k3;
            delta = pr - old_prio
        in if was_on_rq then
             let k5 = enqueue_task e p 0 k4
             in if delta < 0 \<or> delta > 0 \<and> task_running k5 p
                then resched_task (curr (rq k5)) k5 else k5
           else k4)"

text \<open>\<^verbatim>\<open>nice_rlim <= task_rlimit()\<close> compares as \<^verbatim>\<open>unsigned long\<close>.\<close>

definition can_nice :: "'f env \<Rightarrow> tid \<Rightarrow> int \<Rightarrow> bool" where
  "can_nice e p nice = ((word_of_int (20 - nice) :: ulong) \<le> rlimit_nice e p \<or> capable_sys_nice e)"

definition sys_nice :: "'f env \<Rightarrow> int \<Rightarrow> 'f kernel \<Rightarrow> errno option \<times> 'f kernel" where
  "sys_nice e increment k =
     (let c = curr (rq k);
          inc = (if increment < - 40 then - 40 else increment);
          inc = (if inc > 40 then 40 else inc);
          nice = TASK_NICE (tasks k c) + inc;
          nice = (if nice < - 20 then - 20 else nice);
          nice = (if nice > 19 then 19 else nice)
      in if inc < 0 \<and> \<not> can_nice e c nice then (Some EPERM, k)
         else case security_task_setnice e c nice of
                Some err \<Rightarrow> (Some err, k)
              | None \<Rightarrow> (None, set_user_nice e c nice k))"

section \<open>Reading\<close>

definition task_prio :: "task_struct \<Rightarrow> int" where
  "task_prio p = prio p - MAX_RT_PRIO"

definition task_nice :: "task_struct \<Rightarrow> int" where
  "task_nice p = TASK_NICE p"

definition idle_cpu :: "'f kernel \<Rightarrow> bool" where
  "idle_cpu k =
     (if curr (rq k) \<noteq> idle (rq k) then False else if nr_running (rq k) \<noteq> 0 then False else True)"

definition idle_task :: "'f kernel \<Rightarrow> tid" where
  "idle_task k = idle (rq k)"

definition find_process_by_pid :: "'f env \<Rightarrow> int \<Rightarrow> 'f kernel \<Rightarrow> tid option" where
  "find_process_by_pid e pid k = (if pid \<noteq> 0 then find_task_by_vpid e pid else Some (curr (rq k)))"

section \<open>Setting the scheduler\<close>

text \<open>\<^verbatim>\<open>__setscheduler()\<close>; the weight of a WRR task travels in \<^verbatim>\<open>sched_priority\<close>.\<close>

definition setscheduler_wrr_weight :: "int \<Rightarrow> task_struct \<Rightarrow> task_struct" where
  "setscheduler_wrr_weight pr t =
     (if pr \<noteq> 0
      then t\<lparr>rt_priority := 0, p_wrr := (p_wrr t)\<lparr>weight := word_of_int pr, custom_weight := 1\<rparr>\<rparr>
      else t\<lparr>rt_priority := 0, p_wrr := (p_wrr t)\<lparr>weight := 1, custom_weight := 0\<rparr>\<rparr>)"

definition setscheduler :: "'f env \<Rightarrow> tid \<Rightarrow> int \<Rightarrow> int \<Rightarrow> 'f kernel \<Rightarrow> 'f kernel" where
  "setscheduler e p pol pr k =
     (let k1 = upd_task p (policy_update (\<lambda>_. pol)) k;
          k2 = (if pol \<noteq> SCHED_WRR then upd_task p (rt_priority_update (\<lambda>_. pr)) k1
                else upd_task p (setscheduler_wrr_weight pr) k1);
          k3 = upd_task p (\<lambda>t. t\<lparr>normal_prio := normal_prio_of t\<rparr>) k2;
          k4 = upd_task p (prio_update (\<lambda>_. rt_mutex_getprio e k3 p)) k3
      in set_load_weight p (set_class p k4))"

definition check_same_owner :: "'f env \<Rightarrow> tid \<Rightarrow> 'f kernel \<Rightarrow> bool" where
  "check_same_owner e p k =
     (let cred = task_cred e (curr (rq k));
          pcred = task_cred e p
      in if user_ns cred = user_ns pcred
         then euid cred = euid pcred \<or> euid cred = uid pcred else False)"

text \<open>
  The parts of \<^verbatim>\<open>__sched_setscheduler()\<close>. Decoding the requested policy; a negative one
  stands for the present policy of the task.
\<close>

definition decode_policy :: "int \<Rightarrow> task_struct \<Rightarrow> (bool \<times> int) option" where
  "decode_policy pol t =
     (if pol < 0 then Some (sched_reset_on_fork t, policy t)
      else
        let pol' = pol AND NOT SCHED_RESET_ON_FORK
        in if pol' \<noteq> SCHED_FIFO \<and> pol' \<noteq> SCHED_RR \<and> pol' \<noteq> SCHED_WRR \<and> pol' \<noteq> SCHED_NORMAL
              \<and> pol' \<noteq> SCHED_BATCH \<and> pol' \<noteq> SCHED_IDLE
           then None else Some (pol AND SCHED_RESET_ON_FORK \<noteq> 0, pol'))"

definition valid_sched_priority :: "int \<Rightarrow> int \<Rightarrow> task_struct \<Rightarrow> bool" where
  "valid_sched_priority pol sched_priority t =
     (if sched_priority < 0 \<or> (has_mm t \<and> sched_priority > MAX_USER_RT_PRIO - 1)
         \<or> (\<not> has_mm t \<and> sched_priority > MAX_RT_PRIO - 1)
      then False
      else if rt_policy pol \<noteq> (sched_priority \<noteq> 0) \<and> \<not> (pol = SCHED_WRR \<and> sched_priority > 0)
      then False else True)"

text \<open>What a caller without \<^verbatim>\<open>CAP_SYS_NICE\<close> may do.\<close>

definition unprivileged_may :: "'f env \<Rightarrow> tid \<Rightarrow> int \<Rightarrow> int \<Rightarrow> bool \<Rightarrow> 'f kernel \<Rightarrow> bool" where
  "unprivileged_may e p pol sched_priority reset k =
     (let t = tasks k p
      in if rt_policy pol \<and>
            (pol \<noteq> policy t \<and> rlimit_rtprio e p = 0 \<or>
             sched_priority > rt_priority t \<and> (word_of_int sched_priority :: ulong) > rlimit_rtprio e p)
         then False
         else if policy t = SCHED_IDLE \<and> pol \<noteq> SCHED_IDLE \<and> \<not> can_nice e p (TASK_NICE t) then False
         else if \<not> check_same_owner e p k then False
         else if sched_reset_on_fork t \<and> \<not> reset then False else True)"

text \<open>Off the queue, the change, back on the queue.\<close>

definition change_scheduler :: "'f env \<Rightarrow> tid \<Rightarrow> int \<Rightarrow> int \<Rightarrow> bool \<Rightarrow> 'f kernel \<Rightarrow> 'f kernel" where
  "change_scheduler e p pol sched_priority reset k =
     (let was_on_rq = on_rq (tasks k p);
          running = task_current k p;
          k1 = (if was_on_rq then dequeue_task e p 0 k else k);
          k2 = (if running then put_prev_task_op (ops e k1 p) p k1 else k1);
          k3 = upd_task p (sched_reset_on_fork_update (\<lambda>_. reset)) k2;
          oldprio = prio (tasks k3 p);
          prev_class = sched_class (tasks k3 p);
          k4 = setscheduler e p pol sched_priority k3;
          k5 = (if running then set_curr_task_op (ops e k4 p) k4 else k4);
          k6 = (if was_on_rq then enqueue_task e p 0 k5 else k5);
          k7 = check_class_changed e p prev_class oldprio k6
      in ext_call (Rt_Mutex_Adjust_Pi p) k7)"

text \<open>
  \<^verbatim>\<open>__sched_setscheduler()\<close>. The jump back to \<^verbatim>\<open>recheck\<close> is for a policy that changed
  while the locks were not held, which the model, where a call is one step, does not have.
\<close>

definition sched_setscheduler_common ::
  "'f env \<Rightarrow> tid \<Rightarrow> int \<Rightarrow> int \<Rightarrow> bool \<Rightarrow> 'f kernel \<Rightarrow> errno option \<times> 'f kernel" where
  "sched_setscheduler_common e p pol sched_priority user k =
     (if in_interrupt e k then (None, BUG k)
      else case decode_policy pol (tasks k p) of
        None \<Rightarrow> (Some EINVAL, k)
      | Some (reset, pol') \<Rightarrow>
          if \<not> valid_sched_priority pol' sched_priority (tasks k p) then (Some EINVAL, k)
          else if user \<and> \<not> capable_sys_nice e \<and> \<not> unprivileged_may e p pol' sched_priority reset k
          then (Some EPERM, k)
          else case (if user then security_task_setscheduler e p else None) of
            Some err \<Rightarrow> (Some err, k)
          | None \<Rightarrow>
              if stop (rq k) = Some p then (Some EINVAL, k)
              else if pol' = policy (tasks k p) \<and>
                      (\<not> rt_policy pol' \<or> sched_priority = rt_priority (tasks k p)) then (None, k)
              else if user \<and> rt_bandwidth_enabled k \<and> rt_policy pol' \<and>
                      bw_rt_runtime (rt_bandwidths k (sched_task_group (tasks k p))) = 0 \<and>
                      \<not> task_group_is_autogroup e (sched_task_group (tasks k p))
              then (Some EPERM, k)
              else (None, change_scheduler e p pol' sched_priority reset k))"

definition sched_setscheduler :: "'f env \<Rightarrow> tid \<Rightarrow> int \<Rightarrow> int \<Rightarrow> 'f kernel \<Rightarrow> errno option \<times> 'f kernel" where
  "sched_setscheduler e p pol sched_priority k = sched_setscheduler_common e p pol sched_priority True k"

definition sched_setscheduler_nocheck ::
  "'f env \<Rightarrow> tid \<Rightarrow> int \<Rightarrow> int \<Rightarrow> 'f kernel \<Rightarrow> errno option \<times> 'f kernel" where
  "sched_setscheduler_nocheck e p pol sched_priority k =
     sched_setscheduler_common e p pol sched_priority False k"

section \<open>System calls\<close>

text \<open>A user pointer: null, one whose access faults, or one to a value.\<close>

datatype 'a user_ptr = Null | Fault | User 'a

definition do_sched_setscheduler ::
  "'f env \<Rightarrow> int \<Rightarrow> int \<Rightarrow> int user_ptr \<Rightarrow> 'f kernel \<Rightarrow> errno option \<times> 'f kernel" where
  "do_sched_setscheduler e pid pol param k =
     (if param = Null \<or> pid < 0 then (Some EINVAL, k)
      else case param of
        User lparam \<Rightarrow>
          (case find_process_by_pid e pid k of
             None \<Rightarrow> (Some ESRCH, k) | Some p \<Rightarrow> sched_setscheduler e p pol lparam k)
      | _ \<Rightarrow> (Some EFAULT, k))"

definition sys_sched_setscheduler ::
  "'f env \<Rightarrow> int \<Rightarrow> int \<Rightarrow> int user_ptr \<Rightarrow> 'f kernel \<Rightarrow> errno option \<times> 'f kernel" where
  "sys_sched_setscheduler e pid pol param k =
     (if pol < 0 then (Some EINVAL, k) else do_sched_setscheduler e pid pol param k)"

definition sys_sched_setparam ::
  "'f env \<Rightarrow> int \<Rightarrow> int user_ptr \<Rightarrow> 'f kernel \<Rightarrow> errno option \<times> 'f kernel" where
  "sys_sched_setparam e pid param k = do_sched_setscheduler e pid (- 1) param k"

definition sys_sched_getscheduler :: "'f env \<Rightarrow> int \<Rightarrow> 'f kernel \<Rightarrow> errno + int" where
  "sys_sched_getscheduler e pid k =
     (if pid < 0 then Inl EINVAL
      else case find_process_by_pid e pid k of
        None \<Rightarrow> Inl ESRCH
      | Some p \<Rightarrow>
          (case security_task_getscheduler e p of
             Some err \<Rightarrow> Inl err
           | None \<Rightarrow> Inr (policy (tasks k p) OR
               (if sched_reset_on_fork (tasks k p) then SCHED_RESET_ON_FORK else 0))))"

text \<open>The value is what the call stores through its pointer.\<close>

definition sys_sched_getparam :: "'f env \<Rightarrow> int \<Rightarrow> unit user_ptr \<Rightarrow> 'f kernel \<Rightarrow> errno + int" where
  "sys_sched_getparam e pid param k =
     (if param = Null \<or> pid < 0 then Inl EINVAL
      else case find_process_by_pid e pid k of
        None \<Rightarrow> Inl ESRCH
      | Some p \<Rightarrow>
          (case security_task_getscheduler e p of
             Some err \<Rightarrow> Inl err
           | None \<Rightarrow> (case param of User _ \<Rightarrow> Inr (rt_priority (tasks k p)) | _ \<Rightarrow> Inl EFAULT)))"

definition sys_sched_get_priority_max :: "int \<Rightarrow> errno + int" where
  "sys_sched_get_priority_max pol =
     (if pol = SCHED_FIFO \<or> pol = SCHED_RR then Inr (MAX_USER_RT_PRIO - 1)
      else if pol = SCHED_NORMAL \<or> pol = SCHED_BATCH \<or> pol = SCHED_IDLE then Inr 0
      else Inl EINVAL)"

definition sys_sched_get_priority_min :: "int \<Rightarrow> errno + int" where
  "sys_sched_get_priority_min pol =
     (if pol = SCHED_FIFO \<or> pol = SCHED_RR then Inr 1
      else if pol = SCHED_NORMAL \<or> pol = SCHED_BATCH \<or> pol = SCHED_IDLE then Inr 0
      else Inl EINVAL)"

text \<open>
  The interval in ticks is converted by \<^verbatim>\<open>jiffies_to_timespec()\<close>, which is in
  \<^verbatim>\<open>kernel/time.c\<close>.
\<close>

definition sys_sched_rr_get_interval ::
  "'f env \<Rightarrow> (u32 \<Rightarrow> 'ts) \<Rightarrow> int \<Rightarrow> unit user_ptr \<Rightarrow> 'f kernel \<Rightarrow> errno + 'ts" where
  "sys_sched_rr_get_interval e jiffies_to_timespec pid interval k =
     (if pid < 0 then Inl EINVAL
      else case find_process_by_pid e pid k of
        None \<Rightarrow> Inl ESRCH
      | Some p \<Rightarrow>
          (case security_task_getscheduler e p of
             Some err \<Rightarrow> Inl err
           | None \<Rightarrow>
               let ticks = get_rr_interval_op (ops e k p) k p
               in (case interval of User _ \<Rightarrow> Inr (jiffies_to_timespec ticks) | _ \<Rightarrow> Inl EFAULT)))"

section \<open>Yielding\<close>

text \<open>
  The lock the call takes disables preemption, \<^verbatim>\<open>sched_preempt_enable_no_resched()\<close> ends
  that before \<^verbatim>\<open>schedule()\<close>.
\<close>

definition sys_sched_yield ::
  "'f env \<Rightarrow> (tid \<Rightarrow> bool) \<Rightarrow> (tid \<Rightarrow> bool) \<Rightarrow> 'f kernel \<Rightarrow> 'f kernel option" where
  "sys_sched_yield e pi_blocked needs_flush k =
     (let k1 = rq_update (yld_count_update (\<lambda>n. n + 1)) k;
          k2 = yield_task_op (ops e k1 (curr (rq k1))) k1
      in schedule e pi_blocked needs_flush k2)"

definition yield ::
  "'f env \<Rightarrow> (tid \<Rightarrow> bool) \<Rightarrow> (tid \<Rightarrow> bool) \<Rightarrow> 'f kernel \<Rightarrow> 'f kernel option" where
  "yield e pi_blocked needs_flush k =
     sys_sched_yield e pi_blocked needs_flush
       (upd_task (curr (rq k)) (tsk_state_update (\<lambda>_. TASK_RUNNING)) k)"

text \<open>With one run queue the target never runs on another processor.\<close>

definition yield_to_task :: "'f env \<Rightarrow> tid \<Rightarrow> bool \<Rightarrow> 'f kernel \<Rightarrow> bool \<times> 'f kernel" where
  "yield_to_task e p preempt k =
     (case yield_to_task_op (ops e k (curr (rq k))) of
        None \<Rightarrow> (False, k)
      | Some f \<Rightarrow>
          if sched_class (curr_task k) \<noteq> sched_class (tasks k p) then (False, k)
          else if task_running k p \<or> tsk_state (tasks k p) \<noteq> 0 then (False, k)
          else case f p preempt k of
            (True, k1) \<Rightarrow> (True, rq_update (yld_count_update (\<lambda>n. n + 1)) k1)
          | (False, k1) \<Rightarrow> (False, rq_update (skip_clock_update_update (\<lambda>_. 0)) k1))"

definition yield_to ::
  "'f env \<Rightarrow> (tid \<Rightarrow> bool) \<Rightarrow> (tid \<Rightarrow> bool) \<Rightarrow> tid \<Rightarrow> bool \<Rightarrow> 'f kernel \<Rightarrow> (bool \<times> 'f kernel) option" where
  "yield_to e pi_blocked needs_flush p preempt k =
     (case yield_to_task e p preempt k of
        (False, k1) \<Rightarrow> Some (False, k1)
      | (True, k1) \<Rightarrow> map_option (\<lambda>k2. (True, k2)) (schedule e pi_blocked needs_flush k1))"

section \<open>Special tasks\<close>

definition sched_set_stop_task :: "'f env \<Rightarrow> tid option \<Rightarrow> 'f kernel \<Rightarrow> 'f kernel" where
  "sched_set_stop_task e stp k =
     (let old_stop = stop (rq k);
          k1 = (case stp of
                  Some p \<Rightarrow> upd_task p (sched_class_update (\<lambda>_. Stop_Class))
                              (snd (sched_setscheduler_nocheck e p SCHED_FIFO (MAX_RT_PRIO - 1) k))
                | None \<Rightarrow> k);
          k2 = rq_update (stop_update (\<lambda>_. stp)) k1
      in case old_stop of
           Some p \<Rightarrow> upd_task p (sched_class_update (\<lambda>_. Rt_Class)) k2 | None \<Rightarrow> k2)"

definition init_idle :: "tid \<Rightarrow> 'f kernel \<Rightarrow> 'f kernel" where
  "init_idle p k =
     (let k1 = sched_fork_init p k;
          k2 = upd_task p (\<lambda>t. t\<lparr>tsk_state := TASK_RUNNING,
                 p_se := (p_se t)\<lparr>exec_start := sched_clock_now k1\<rparr>\<rparr>) k1;
          k3 = rq_update (\<lambda>r. r\<lparr>curr := p, idle := p\<rparr>) k2
      in upd_task p (\<lambda>t. t\<lparr>preempt_count := 0, sched_class := Idle_Class\<rparr>) k3)"

section \<open>Back to normal\<close>

definition normalize_task :: "'f env \<Rightarrow> tid \<Rightarrow> 'f kernel \<Rightarrow> 'f kernel" where
  "normalize_task e p k =
     (let prev_class = sched_class (tasks k p);
          old_prio = prio (tasks k p);
          was_on_rq = on_rq (tasks k p);
          k1 = (if was_on_rq then dequeue_task e p 0 k else k);
          k2 = setscheduler e p SCHED_NORMAL 0 k1;
          k3 = (if was_on_rq then let k' = enqueue_task e p 0 k2 in resched_task (curr (rq k')) k' else k2)
      in check_class_changed e p prev_class old_prio k3)"

definition normalize_one :: "'f env \<Rightarrow> tid \<Rightarrow> 'f kernel \<Rightarrow> 'f kernel" where
  "normalize_one e p k =
     (if \<not> has_mm (tasks k p) then k
      else
        let k1 = upd_task p (p_se_update (exec_start_update (\<lambda>_. 0))) k
        in if \<not> rt_task (tasks k1 p) then
             if TASK_NICE (tasks k1 p) < 0 \<and> has_mm (tasks k1 p) then set_user_nice e p 0 k1 else k1
           else normalize_task e p k1)"

definition normalize_rt_tasks :: "'f env \<Rightarrow> 'f kernel \<Rightarrow> 'f kernel" where
  "normalize_rt_tasks e k = fold (normalize_one e) (threads k) k"

section \<open>Task groups\<close>

text \<open>
  \<^verbatim>\<open>set_task_rq()\<close> sets pointers that follow from the group of the task. \<open>cgroup_task_group\<close>
  is the group of the cgroup the task has been put in.
\<close>

definition sched_move_task :: "'f env \<Rightarrow> tid \<Rightarrow> 'f kernel \<Rightarrow> 'f kernel" where
  "sched_move_task e tsk k =
     (let running = task_current k tsk;
          was_on_rq = on_rq (tasks k tsk);
          k1 = (if was_on_rq then dequeue_task e tsk 0 k else k);
          k2 = (if running then put_prev_task_op (ops e k1 tsk) tsk k1 else k1);
          tg = autogroup_task_group e tsk (cgroup_task_group e tsk);
          k3 = upd_task tsk (sched_task_group_update (\<lambda>_. tg)) k2;
          k4 = (case task_move_group_op (ops e k3 tsk) of Some f \<Rightarrow> f tsk was_on_rq k3 | None \<Rightarrow> k3);
          k5 = (if running then set_curr_task_op (ops e k4 tsk) k4 else k4)
      in if was_on_rq then enqueue_task e tsk 0 k5 else k5)"

text \<open>
  \<^verbatim>\<open>sched_create_group()\<close> under the name \<open>g\<close>, a fresh child of its parent; \<open>oom\<close> are the
  failing allocations: of the group itself, of the fair class (a parameter, with its effect on
  the state of that class) or of the real-time class.
\<close>

definition sched_create_group ::
  "bool \<Rightarrow> ('f kernel \<Rightarrow> bool \<times> 'f kernel) \<Rightarrow> nat option \<Rightarrow> tgid \<Rightarrow> 'f kernel \<Rightarrow> (errno + tgid) \<times> 'f kernel" where
  "sched_create_group oom alloc_fair oom_rt g k =
     (if oom then (Inl ENOMEM, k)
      else
        let (fair_ok, k1) = alloc_fair k
        in if \<not> fair_ok then (Inl ENOMEM, k1)
           else
             let (rt_ok, k2) = alloc_rt_sched_group oom_rt g k1
             in if \<not> rt_ok then (Inl ENOMEM, k2)
                else (Inr g, task_groups_update (list_add g) k2))"

definition sched_destroy_group :: "('f kernel \<Rightarrow> 'f kernel) \<Rightarrow> tgid \<Rightarrow> 'f kernel \<Rightarrow> 'f kernel" where
  "sched_destroy_group unregister_fair g k = task_groups_update (list_del_init g) (unregister_fair k)"

section \<open>The cpu controller\<close>

definition sched_rt_can_attach :: "tgid \<Rightarrow> tid \<Rightarrow> 'f kernel \<Rightarrow> bool" where
  "sched_rt_can_attach tg tsk k =
     (if rt_task (tasks k tsk) \<and> bw_rt_runtime (rt_bandwidths k tg) = 0 then False else True)"

definition cpu_cgroup_create ::
  "bool \<Rightarrow> ('f kernel \<Rightarrow> bool \<times> 'f kernel) \<Rightarrow> nat option \<Rightarrow> tgid \<Rightarrow> 'f kernel \<Rightarrow> (errno + tgid) \<times> 'f kernel" where
  "cpu_cgroup_create oom alloc_fair oom_rt cgrp k =
     (case cgrp of
        [] \<Rightarrow> (Inr [], k)
      | _ # parent \<Rightarrow>
          (case sched_create_group oom alloc_fair oom_rt cgrp k of
             (Inl err, k1) \<Rightarrow> (Inl ENOMEM, k1) | (Inr tg, k1) \<Rightarrow> (Inr tg, k1)))"

definition cpu_cgroup_destroy :: "('f kernel \<Rightarrow> 'f kernel) \<Rightarrow> tgid \<Rightarrow> 'f kernel \<Rightarrow> 'f kernel" where
  "cpu_cgroup_destroy unregister_fair cgrp k = sched_destroy_group unregister_fair cgrp k"

fun cpu_cgroup_allow_attach :: "'f env \<Rightarrow> tid list \<Rightarrow> 'f kernel \<Rightarrow> errno option" where
  "cpu_cgroup_allow_attach e [] k = None"
| "cpu_cgroup_allow_attach e (p # ps) k =
     (let cred = task_cred e (curr (rq k));
          tcred = task_cred e p
      in if curr (rq k) \<noteq> p \<and> \<not> capable_sys_nice e \<and> euid cred \<noteq> uid tcred \<and> euid cred \<noteq> suid tcred
         then Some EACCES else cpu_cgroup_allow_attach e ps k)"

fun cpu_cgroup_can_attach :: "tgid \<Rightarrow> tid list \<Rightarrow> 'f kernel \<Rightarrow> errno option" where
  "cpu_cgroup_can_attach cgrp [] k = None"
| "cpu_cgroup_can_attach cgrp (p # ps) k =
     (if \<not> sched_rt_can_attach cgrp p k then Some EINVAL else cpu_cgroup_can_attach cgrp ps k)"

definition cpu_cgroup_attach :: "'f env \<Rightarrow> tid list \<Rightarrow> 'f kernel \<Rightarrow> 'f kernel" where
  "cpu_cgroup_attach e ps k = fold (sched_move_task e) ps k"

definition cpu_cgroup_exit :: "'f env \<Rightarrow> tid \<Rightarrow> 'f kernel \<Rightarrow> 'f kernel" where
  "cpu_cgroup_exit e p k =
     (if tsk_flags (tasks k p) AND PF_EXITING = 0 then k else sched_move_task e p k)"

end
