(* ===== verification/Core_Inv.thy ===== *)
theory Core_Inv
  imports Setsched Rt_Class Wrr_Props
begin

text \<open>
  The invariant of the whole scheduler, across the core and the two classes of the repository,
  and the relation \<open>sched_keep\<close> of state changes that cannot disturb it: clock and statistics
  updates, requests to reschedule, and everything the operations of a class do besides
  enqueueing and dequeueing.
\<close>

section \<open>What operations of the real-time class leave alone\<close>

lemma inc_dec_rt_tasks_frame [simp]:
  "tasks (inc_rt_tasks s g k) = tasks k" "rq (inc_rt_tasks s g k) = rq k" "panicked (inc_rt_tasks s g k) = panicked k"
  "tasks (dec_rt_tasks s g k) = tasks k" "rq (dec_rt_tasks s g k) = rq k" "panicked (dec_rt_tasks s g k) = panicked k"
  by (simp_all add: inc_rt_tasks_def dec_rt_tasks_def inc_rt_group_def dec_rt_group_def start_rt_bandwidth_def
      start_bandwidth_timer_def ext_call_def Let_def)

lemma list_leaf_frame [simp]:
  "tasks (list_add_leaf_rt_rq g k) = tasks k" "rq (list_add_leaf_rt_rq g k) = rq k"
  "panicked (list_add_leaf_rt_rq g k) = panicked k" "tasks (list_del_leaf_rt_rq g k) = tasks k"
  "rq (list_del_leaf_rt_rq g k) = rq k" "panicked (list_del_leaf_rt_rq g k) = panicked k"
  by (simp_all add: list_add_leaf_rt_rq_def list_del_leaf_rt_rq_def)

lemma upd_array_frame [simp]:
  "tasks (upd_queue g i f k) = tasks k" "rq (upd_queue g i f k) = rq k" "panicked (upd_queue g i f k) = panicked k"
  "tasks (upd_bit g i b k) = tasks k" "rq (upd_bit g i b k) = rq k" "panicked (upd_bit g i b k) = panicked k"
  "tasks (unlink_rt s g k) = tasks k" "rq (unlink_rt s g k) = rq k" "panicked (unlink_rt s g k) = panicked k"
  by (simp_all add: upd_queue_def upd_bit_def unlink_rt_def)

lemma rt_entity1_frame [simp]:
  "tasks (enqueue_rt_entity1 s h k) = tasks k" "tasks (dequeue_rt_entity1 s k) = tasks k"
  "rq (enqueue_rt_entity1 s h k) = rq k" "rq (dequeue_rt_entity1 s k) = rq k"
  "panicked (enqueue_rt_entity1 s h k) = panicked k" "panicked (dequeue_rt_entity1 s k) = panicked k"
  by (simp_all only: enqueue_rt_entity1_def dequeue_rt_entity1_def Let_def if_distrib [of tasks] if_distrib [of rq]
      if_distrib [of panicked] inc_dec_rt_tasks_frame list_leaf_frame upd_array_frame if_cancel)

lemma fold_keeps: "(\<And>s k. g (f s k) = g k) \<Longrightarrow> g (fold f ss k) = g k"
  by (induction ss arbitrary: k) auto

lemma rt_entity_frame [simp]:
  "tasks (dequeue_rt_stack s k) = tasks k" "rq (dequeue_rt_stack s k) = rq k"
  "panicked (dequeue_rt_stack s k) = panicked k"
  "tasks (enqueue_rt_entity s h k) = tasks k" "rq (enqueue_rt_entity s h k) = rq k"
  "panicked (enqueue_rt_entity s h k) = panicked k"
  "tasks (dequeue_rt_entity s k) = tasks k" "rq (dequeue_rt_entity s k) = rq k"
  "panicked (dequeue_rt_entity s k) = panicked k"
proof -
  have st: "tasks (dequeue_rt_stack s k) = tasks k" "rq (dequeue_rt_stack s k) = rq k"
    "panicked (dequeue_rt_stack s k) = panicked k" for k
    by (simp_all add: dequeue_rt_stack_def fold_keeps [of tasks] fold_keeps [of rq] fold_keeps [of panicked])
  have en: "tasks (fold (\<lambda>s. enqueue_rt_entity1 s h) ss k) = tasks k"
    "rq (fold (\<lambda>s. enqueue_rt_entity1 s h) ss k) = rq k"
    "panicked (fold (\<lambda>s. enqueue_rt_entity1 s h) ss k) = panicked k" for ss k
    by (simp_all add: fold_keeps [of tasks] fold_keeps [of rq] fold_keeps [of panicked])
  let ?f = "\<lambda>s k. case group_rt_rq s of
      Some g \<Rightarrow> if rt_nr_running (rt_rqs k g) \<noteq> 0 then enqueue_rt_entity1 s False k else k | None \<Rightarrow> k"
  have de: "tasks (fold ?f ss k) = tasks k" "rq (fold ?f ss k) = rq k" "panicked (fold ?f ss k) = panicked k" for ss k
    by (rule fold_keeps [of tasks] fold_keeps [of rq] fold_keeps [of panicked]; simp split: option.split)+
  show "tasks (dequeue_rt_stack s k) = tasks k" "rq (dequeue_rt_stack s k) = rq k"
    "panicked (dequeue_rt_stack s k) = panicked k"
    "tasks (enqueue_rt_entity s h k) = tasks k" "rq (enqueue_rt_entity s h k) = rq k"
    "panicked (enqueue_rt_entity s h k) = panicked k"
    "tasks (dequeue_rt_entity s k) = tasks k" "rq (dequeue_rt_entity s k) = rq k"
    "panicked (dequeue_rt_entity s k) = panicked k"
    by (simp_all only: st en de enqueue_rt_entity_def dequeue_rt_entity_def)
qed

section \<open>Small changes\<close>

text \<open>The fields of a task that decide about queues, and those that an operation may change freely.\<close>

definition task_static :: "task_struct \<Rightarrow> bool \<times> int \<times> int \<times> int \<times> int \<times> int \<times> class_id \<times> tgid \<times> bool" where
  "task_static t = (on_rq t, prio t, normal_prio t, static_prio t, rt_priority t, policy t, sched_class t,
     sched_task_group t, has_mm t)"

lemma task_staticD:
  assumes "task_static t' = task_static t"
  shows "on_rq t' = on_rq t" "prio t' = prio t" "normal_prio t' = normal_prio t" "static_prio t' = static_prio t"
    "rt_priority t' = rt_priority t" "policy t' = policy t" "sched_class t' = sched_class t"
    "sched_task_group t' = sched_task_group t" "has_mm t' = has_mm t"
  using assms by (simp_all add: task_static_def)

definition excess :: "'f kernel \<Rightarrow> ulong" where
  "excess k = nr_running (rq k) - h_nr_running (rq k)"

definition sched_keep :: "'f kernel \<Rightarrow> 'f kernel \<Rightarrow> bool" where
  "sched_keep k k' \<longleftrightarrow>
     (\<forall>p. task_static (tasks k' p) = task_static (tasks k p) \<and>
        (need_resched (tasks k' p) \<longrightarrow> need_resched (tasks k p) \<or> p = curr (rq k)) \<and>
        (tsk_state (tasks k' p) = tsk_state (tasks k p) \<or> tsk_state (tasks k' p) = TASK_RUNNING)) \<and>
     curr (rq k') = curr (rq k) \<and> idle (rq k') = idle (rq k) \<and> stop (rq k') = stop (rq k) \<and>
     panicked k' = panicked k \<and> excess k' = excess k \<and>
     wrr_queued k' = wrr_queued k \<and> (wrr_inv k \<longrightarrow> wrr_inv k') \<and>
     (rt_inv k \<longrightarrow> rt_inv k' \<and> rt_queued k' = rt_queued k)"

lemma sched_keep_refl [simp]: "sched_keep k k"
  by (simp add: sched_keep_def)

lemma sched_keep_trans: "sched_keep k k' \<Longrightarrow> sched_keep k' k'' \<Longrightarrow> sched_keep k k''"
  unfolding sched_keep_def by metis

lemma sched_keepD:
  assumes "sched_keep k k'"
  shows "task_static (tasks k' p) = task_static (tasks k p)"
    "curr (rq k') = curr (rq k)" "idle (rq k') = idle (rq k)" "stop (rq k') = stop (rq k)"
    "panicked k' = panicked k" "excess k' = excess k" "wrr_queued k' = wrr_queued k"
    "wrr_inv k \<Longrightarrow> wrr_inv k'" "rt_inv k \<Longrightarrow> rt_inv k'" "rt_inv k \<Longrightarrow> rt_queued k' = rt_queued k"
    "need_resched (tasks k' q) \<Longrightarrow> need_resched (tasks k q) \<or> q = curr (rq k)"
    "tsk_state (tasks k' q) = tsk_state (tasks k q) \<or> tsk_state (tasks k' q) = TASK_RUNNING"
  using assms by (auto simp: sched_keep_def)

text \<open>A change that touches neither queue nor the WRR entities keeps everything.\<close>

lemma sched_keepI:
  assumes "\<And>p. task_static (tasks k' p) = task_static (tasks k p)"
    and "\<And>p. need_resched (tasks k' p) \<Longrightarrow> need_resched (tasks k p) \<or> p = curr (rq k)"
    and "\<And>p. tsk_state (tasks k' p) = tsk_state (tasks k p) \<or> tsk_state (tasks k' p) = TASK_RUNNING"
    and "\<And>p. p_wrr (tasks k' p) = p_wrr (tasks k p)"
    and "curr (rq k') = curr (rq k)" "idle (rq k') = idle (rq k)" "stop (rq k') = stop (rq k)"
    and "panicked k' = panicked k" "excess k' = excess k" "wrr (rq k') = wrr (rq k)" "rt_rqs k' = rt_rqs k"
  shows "sched_keep k k'"
proof -
  have "wrr_inv k' = wrr_inv k" by (rule wrr_inv_cong) (simp_all add: assms)
  moreover have "rt_inv k' = rt_inv k" "on_rt_rq k' s = on_rt_rq k s" for s
    using rt_inv_cong [of k' k] assms(11) task_staticD [OF assms(1)] by auto
  ultimately show ?thesis
    using assms by (simp add: sched_keep_def rt_queued_def wrr_queued_def)
qed

lemma sched_keep_rt:
  assumes sim: "rt_inv k \<Longrightarrow> rt_inv k' \<and> rt_queued k' = rt_queued k"
    and "\<And>p. task_static (tasks k' p) = task_static (tasks k p)"
    and "\<And>p. need_resched (tasks k' p) \<Longrightarrow> need_resched (tasks k p) \<or> p = curr (rq k)"
    and "\<And>p. tsk_state (tasks k' p) = tsk_state (tasks k p) \<or> tsk_state (tasks k' p) = TASK_RUNNING"
    and "\<And>p. p_wrr (tasks k' p) = p_wrr (tasks k p)"
    and "rq k' = rq k" "panicked k' = panicked k"
  shows "sched_keep k k'"
proof -
  have "wrr_inv k' = wrr_inv k" by (rule wrr_inv_cong) (simp_all add: assms)
  then show ?thesis using assms by (simp add: sched_keep_def wrr_queued_def excess_def)
qed

lemma keep_ext_call [simp]: "sched_keep k (ext_call c k)"
  by (rule sched_keepI) (simp_all add: ext_call_def excess_def)

lemma keep_update_rq_clock [simp]: "sched_keep k (update_rq_clock k)"
  by (rule sched_keepI)
    (simp_all add: update_rq_clock_def update_rq_clock_task_def Let_def excess_def split: if_splits)

lemma keep_resched [simp]: "p = curr (rq k) \<Longrightarrow> sched_keep k (resched_task p k)"
  by (rule sched_keepI)
    (auto simp: resched_task_def set_tsk_need_resched_def excess_def task_static_def split: if_splits)

lemma keep_exec_start [simp]: "sched_keep k (set_exec_start p k)"
  by (rule sched_keepI) (auto simp: set_exec_start_def excess_def task_static_def split: if_splits)

lemma keep_charge_curr [simp]: "sched_keep k (charge_curr d k)"
proof (rule sched_keepI)
  show "task_static (tasks (charge_curr d k) p) = task_static (tasks k p)" for p
    by (simp add: charge_curr_def Let_def ext_call_def task_static_def)
  show "need_resched (tasks k p) \<or> p = curr (rq k)" if "need_resched (tasks (charge_curr d k) p)" for p
    using that by (auto simp: charge_curr_def Let_def ext_call_def split: if_splits)
  show "tsk_state (tasks (charge_curr d k) p) = tsk_state (tasks k p) \<or> tsk_state (tasks (charge_curr d k) p) = TASK_RUNNING" for p
    by (simp add: charge_curr_def Let_def ext_call_def)
qed (simp_all add: excess_def)

lemma keep_update_curr_wrr [simp]: "sched_keep k (update_curr_wrr k)"
  by (simp add: update_curr_wrr_def)

lemma update_cpu_load_active_frame [simp]:
  "tasks (update_cpu_load_active k) = tasks k" "rt_rqs (update_cpu_load_active k) = rt_rqs k"
  "panicked (update_cpu_load_active k) = panicked k" "curr (rq (update_cpu_load_active k)) = curr (rq k)"
  "idle (rq (update_cpu_load_active k)) = idle (rq k)" "stop (rq (update_cpu_load_active k)) = stop (rq k)"
  "wrr (rq (update_cpu_load_active k)) = wrr (rq k)" "nr_running (rq (update_cpu_load_active k)) = nr_running (rq k)"
  "h_nr_running (rq (update_cpu_load_active k)) = h_nr_running (rq k)"
  by (simp_all add: update_cpu_load_active_def update_cpu_load_def calc_load_account_active_def
      calc_load_fold_active_def Let_def split_def)

lemma keep_update_cpu_load_active [simp]: "sched_keep k (update_cpu_load_active k)"
  by (rule sched_keepI) (simp_all add: excess_def)

text \<open>\<^verbatim>\<open>update_curr_rt()\<close> may throttle groups and asks only the current task to reschedule.\<close>

lemma exceeded_frame [simp]:
  "tasks (snd (sched_rt_runtime_exceeded g k)) = tasks k" "rq (snd (sched_rt_runtime_exceeded g k)) = rq k"
  "panicked (snd (sched_rt_runtime_exceeded g k)) = panicked k"
  by (simp_all add: sched_rt_runtime_exceeded_def Let_def balance_runtime_up_def sched_rt_rq_dequeue_def
      split: option.split)

lemma keep_charge_rt_rq: "sched_keep k (charge_rt_rq d g k)"
proof (rule sched_keep_rt)
  show "rt_inv (charge_rt_rq d g k) \<and> rt_queued (charge_rt_rq d g k) = rt_queued k" if "rt_inv k"
    using charge_rt_rq_inv [OF that] by (simp add: rt_queued_def)
qed (auto simp: charge_rt_rq_def Let_def split_def resched_task_def set_tsk_need_resched_def task_static_def
    split: if_splits)

lemma keep_update_curr_rt [simp]: "sched_keep k (update_curr_rt k)"
proof -
  have f: "sched_keep k (fold (\<lambda>s k. charge_rt_rq d (rt_rq_of_se k s) k) ss k)" for d ss and k :: "'a kernel"
    by (induction ss arbitrary: k) (auto intro: sched_keep_trans keep_charge_rt_rq)
  show ?thesis by (simp add: update_curr_rt_def Let_def sched_keep_trans [OF keep_charge_curr f])
qed

section \<open>The invariant\<close>

text \<open>
  What is asked of a task, whatever it does: priorities in range, the static one that of a nice
  value, a real-time one in the real-time class, a group that exists. The stop class has no task on one processor.
\<close>

definition task_ok :: "task_struct \<Rightarrow> bool" where
  "task_ok t \<longleftrightarrow> sched_class t \<noteq> Stop_Class \<and> 0 \<le> prio t \<and> 0 \<le> normal_prio t \<and> MAX_RT_PRIO \<le> static_prio t \<and>
     static_prio t < MAX_PRIO \<and> (sched_class t = Rt_Class \<longrightarrow> prio t < MAX_RT_PRIO) \<and> valid_tg (sched_task_group t)"

text \<open>
  \<open>Q\<close> are the tasks that are on the run queue. A class holds exactly those of them that are of
  the class, and the tasks not counted by the fair class are counted once.
\<close>

definition sched_inv_q :: "(tid \<Rightarrow> bool) \<Rightarrow> 'f kernel \<Rightarrow> bool" where
  "sched_inv_q Q k \<longleftrightarrow> wrr_inv k \<and> rt_inv k \<and>
     (\<forall>p. p \<in> wrr_queued k \<longleftrightarrow> Q p \<and> sched_class (tasks k p) = Wrr_Class) \<and>
     (\<forall>p. p \<in> rt_queued k \<longleftrightarrow> Q p \<and> sched_class (tasks k p) = Rt_Class) \<and>
     (\<forall>p. task_ok (tasks k p)) \<and> stop (rq k) = None \<and> sched_class (tasks k (idle (rq k))) = Idle_Class \<and>
     excess k = of_nat (card (rt_queued k)) + of_nat (card (wrr_queued k))"

text \<open>
  Between operations \<^verbatim>\<open>p->on_rq\<close> says who is queued, the current task is on the run queue or
  the idle task, and the idle task does not sleep.
\<close>

definition curr_ok :: "'f kernel \<Rightarrow> bool" where
  "curr_ok k \<longleftrightarrow> (on_rq (curr_task k) \<or> curr (rq k) = idle (rq k)) \<and>
     tsk_state (tasks k (idle (rq k))) = TASK_RUNNING"

definition run_inv :: "'f kernel \<Rightarrow> bool" where
  "run_inv k \<longleftrightarrow> sched_inv_q (\<lambda>p. on_rq (tasks k p)) k"

definition sched_inv :: "'f kernel \<Rightarrow> bool" where
  "sched_inv k \<longleftrightarrow> run_inv k \<and> curr_ok k"

lemma task_ok_static: "task_static t' = task_static t \<Longrightarrow> task_ok t' = task_ok t"
  by (simp add: task_static_def task_ok_def)

lemma sched_inv_q_keep:
  assumes "sched_inv_q Q k" and "sched_keep k k'"
  shows "sched_inv_q Q k'"
proof -
  note K = sched_keepD [OF assms(2)]
  have inv: "rt_inv k" "wrr_inv k" using assms(1) by (simp_all add: sched_inv_q_def)
  have cl: "sched_class (tasks k' p) = sched_class (tasks k p)" "task_ok (tasks k' p) = task_ok (tasks k p)" for p
    using task_ok_static [OF K(1)] task_staticD(7) [OF K(1)] by auto
  show ?thesis
    using assms(1) K(8) [OF inv(2)] K(9,10) [OF inv(1)]
    by (simp only: sched_inv_q_def K(3-7) cl) blast
qed

lemma curr_ok_keep: "sched_keep k k' \<Longrightarrow> curr_ok k \<Longrightarrow> curr_ok k'"
proof -
  assume keep: "sched_keep k k'" and ok: "curr_ok k"
  note st = task_staticD [OF sched_keepD(1) [OF keep, of "curr (rq k)"]]
  show ?thesis using ok sched_keepD(12) [OF keep, of "idle (rq k)"] by (auto simp: curr_ok_def sched_keepD(2,3) [OF keep] st)
qed

lemma run_inv_keep: "run_inv k \<Longrightarrow> sched_keep k k' \<Longrightarrow> run_inv k'"
proof -
  assume inv: "run_inv k" and keep: "sched_keep k k'"
  have "on_rq (tasks k' p) = on_rq (tasks k p)" for p by (rule task_staticD [OF sched_keepD(1) [OF keep]])
  then show ?thesis
    using sched_inv_q_keep [OF _ keep, of "\<lambda>p. on_rq (tasks k p)"] inv by (simp add: run_inv_def)
qed

lemma sched_inv_keep: "sched_inv k \<Longrightarrow> sched_keep k k' \<Longrightarrow> sched_inv k'"
  using run_inv_keep curr_ok_keep by (auto simp: sched_inv_def)

lemma sched_inv_qD:
  assumes "sched_inv_q Q k"
  shows "wrr_inv k" "rt_inv k" "p \<in> wrr_queued k \<longleftrightarrow> Q p \<and> sched_class (tasks k p) = Wrr_Class"
    "p \<in> rt_queued k \<longleftrightarrow> Q p \<and> sched_class (tasks k p) = Rt_Class" "task_ok (tasks k p)" "stop (rq k) = None"
    "sched_class (tasks k (idle (rq k))) = Idle_Class"
    "excess k = of_nat (card (rt_queued k)) + of_nat (card (wrr_queued k))"
  using assms by (auto simp: sched_inv_q_def)

lemma finite_rt_queued: "rt_inv k \<Longrightarrow> finite (rt_queued k)"
proof -
  assume "rt_inv k"
  then have "rt_queued k \<subseteq> {..<PID_MAX_LIMIT}"
    using rt_wfD(3) [of k] by (fastforce simp: rt_inv_def rt_queued_def on_rt_rq_iff belongs_def)
  then show ?thesis by (rule finite_subset) simp
qed

lemma finite_wrr_queued [simp]: "finite (wrr_queued k)"
  by (simp add: wrr_queued_def)

end
