(* ===== verification/Core_Class.thy ===== *)
theory Core_Class
  imports Core_Inv
begin

text \<open>
  The contract between the core and a scheduling class, as a locale over the operations of
  \<^verbatim>\<open>struct sched_class\<close>: what the core relies on when it calls through
  \<^verbatim>\<open>p->sched_class\<close>. It is proved for the WRR and the real-time class, and derived for a class
  outside the repository from the assumption that it touches only its own data.
\<close>

text \<open>What every operation keeps, queues apart.\<close>

definition sched_frame :: "'f kernel \<Rightarrow> 'f kernel \<Rightarrow> bool" where
  "sched_frame k k' \<longleftrightarrow>
     (\<forall>p. task_static (tasks k' p) = task_static (tasks k p) \<and>
        (need_resched (tasks k' p) \<longrightarrow> need_resched (tasks k p) \<or> p = curr (rq k)) \<and>
        (tsk_state (tasks k' p) = tsk_state (tasks k p) \<or> tsk_state (tasks k' p) = TASK_RUNNING)) \<and>
     curr (rq k') = curr (rq k) \<and> idle (rq k') = idle (rq k) \<and> panicked k' = panicked k"

lemma sched_frame_refl [simp]: "sched_frame k k"
  by (simp add: sched_frame_def)

lemma sched_frame_trans: "sched_frame k k' \<Longrightarrow> sched_frame k' k'' \<Longrightarrow> sched_frame k k''"
  unfolding sched_frame_def by metis

lemma sched_keep_frame: "sched_keep k k' \<Longrightarrow> sched_frame k k'"
  by (simp add: sched_keep_def sched_frame_def)

lemma sched_frameD:
  assumes "sched_frame k k'"
  shows "task_static (tasks k' p) = task_static (tasks k p)" "curr (rq k') = curr (rq k)" "idle (rq k') = idle (rq k)"
    "panicked k' = panicked k" "need_resched (tasks k' q) \<Longrightarrow> need_resched (tasks k q) \<or> q = curr (rq k)"
    "tsk_state (tasks k' q) = tsk_state (tasks k q) \<or> tsk_state (tasks k' q) = TASK_RUNNING"
  using assms by (auto simp: sched_frame_def)

locale class_contract =
  fixes c :: "'f sched_class_ops" and cid :: class_id
  assumes enq: "sched_inv_q Q k \<Longrightarrow> sched_class (tasks k p) = cid \<Longrightarrow> \<not> Q p \<Longrightarrow> p < PID_MAX_LIMIT \<Longrightarrow>
      sched_inv_q (Q(p := True)) (enqueue_task_op c p fl k) \<and> sched_frame k (enqueue_task_op c p fl k)"
    and deq: "sched_inv_q Q k \<Longrightarrow> sched_class (tasks k p) = cid \<Longrightarrow> Q p \<Longrightarrow>
      sched_inv_q (Q(p := False)) (dequeue_task_op c p fl k) \<and> sched_frame k (dequeue_task_op c p fl k)"
    and yield: "sched_inv k \<Longrightarrow> sched_class (curr_task k) = cid \<Longrightarrow> sched_keep k (yield_task_op c k)"
    and tick: "sched_inv k \<Longrightarrow> sched_class (curr_task k) = cid \<Longrightarrow> sched_keep k (task_tick_op c (curr (rq k)) b k)"
    and preempt: "sched_keep k (check_preempt_curr_op c p fl k)"
    and put_prev: "sched_keep k (put_prev_task_op c p k)"
    and set_curr: "sched_keep k (set_curr_task_op c k)"
    and task_fork: "task_fork_op c = Some f \<Longrightarrow> sched_keep k (f p k)"
    and switched_from: "switched_from_op c = Some f \<Longrightarrow> sched_keep k (f p k)"
    and switched_to: "sched_keep k (switched_to_op c p k)"
    and prio_changed: "sched_keep k (prio_changed_op c p pr k)"
    and move_group: "task_move_group_op c = Some h \<Longrightarrow> sched_keep k (h p b k)"
begin

text \<open>A task taken off and put back, with nothing in between that the queues depend on.\<close>

lemma deq_enq:
  assumes "sched_inv_q Q k" "sched_class (tasks k p) = cid" "Q p" "p < PID_MAX_LIMIT"
    and "sched_keep (dequeue_task_op c p fl k) k'"
  shows "sched_inv_q Q (enqueue_task_op c p fl' k') \<and> sched_frame k (enqueue_task_op c p fl' k')"
proof -
  note d = deq [OF assms(1-3), of fl]
  have k': "sched_inv_q (Q(p := False)) k'" using sched_inv_q_keep d assms(5) by blast
  have fr: "sched_frame k k'" using d sched_keep_frame [OF assms(5)] sched_frame_trans by blast
  have "sched_class (tasks k' p) = cid" using task_staticD(7) [OF sched_frameD(1) [OF fr]] assms(2) by simp
  from enq [OF k' this _ assms(4), of fl'] show ?thesis
    using assms(3) fr sched_frame_trans by (auto simp: fun_upd_idem)
qed

end

section \<open>Classes outside the repository\<close>

text \<open>
  A class outside the repository works on its own entities, on the counter of its tasks and, when
  it wants the current task to go, on that task's request to reschedule.
\<close>

definition ext_keep :: "'f kernel \<Rightarrow> 'f kernel \<Rightarrow> bool" where
  "ext_keep k k' \<longleftrightarrow>
     (\<forall>p. tasks k' p = (tasks k p)\<lparr>p_se := p_se (tasks k' p), need_resched := need_resched (tasks k' p)\<rparr> \<and>
        (need_resched (tasks k' p) \<longrightarrow> need_resched (tasks k p) \<or> p = curr (rq k))) \<and>
     wrr (rq k') = wrr (rq k) \<and> curr (rq k') = curr (rq k) \<and> idle (rq k') = idle (rq k) \<and>
     stop (rq k') = stop (rq k) \<and> excess k' = excess k \<and> rt_rqs k' = rt_rqs k \<and> panicked k' = panicked k"

definition ext_class :: "'f sched_class_ops \<Rightarrow> bool" where
  "ext_class c \<longleftrightarrow>
     (\<forall>k p fl b pr.
        ext_keep k (enqueue_task_op c p fl k) \<and> ext_keep k (dequeue_task_op c p fl k) \<and>
        ext_keep k (yield_task_op c k) \<and> ext_keep k (task_tick_op c p b k) \<and>
        ext_keep k (check_preempt_curr_op c p fl k) \<and> ext_keep k (snd (pick_next_task_op c k)) \<and>
        ext_keep k (put_prev_task_op c p k) \<and> ext_keep k (set_curr_task_op c k) \<and>
        ext_keep k (switched_to_op c p k) \<and> ext_keep k (prio_changed_op c p pr k) \<and>
        pred_option (\<lambda>f. ext_keep k (f p k)) (task_fork_op c) \<and>
        pred_option (\<lambda>f. ext_keep k (f p k)) (switched_from_op c) \<and>
        pred_option (\<lambda>f. ext_keep k (f p b k)) (task_move_group_op c))"

lemma ext_keep_sched_keep:
  assumes "ext_keep k k'"
  shows "sched_keep k k'"
proof (rule sched_keepI)
  have t: "tasks k' p = (tasks k p)\<lparr>p_se := p_se (tasks k' p), need_resched := need_resched (tasks k' p)\<rparr>" for p
    using assms by (simp add: ext_keep_def)
  show "task_static (tasks k' p) = task_static (tasks k p)" for p by (subst t) (simp add: task_static_def)
  show "p_wrr (tasks k' p) = p_wrr (tasks k p)" for p by (subst t) simp
  show "tsk_state (tasks k' p) = tsk_state (tasks k p) \<or> tsk_state (tasks k' p) = TASK_RUNNING" for p by (subst t) simp
qed (use assms in \<open>auto simp: ext_keep_def\<close>)

lemma ext_class_contract:
  assumes "ext_class c" and cid: "cid = Fair_Class \<or> cid = Idle_Class"
  shows "class_contract c cid"
proof -
  have K: "sched_keep k (enqueue_task_op c p fl k)" "sched_keep k (dequeue_task_op c p fl k)"
    "sched_keep k (yield_task_op c k)" "sched_keep k (task_tick_op c p b k)" "sched_keep k (check_preempt_curr_op c p fl k)"
    "sched_keep k (put_prev_task_op c p k)" "sched_keep k (set_curr_task_op c k)" "sched_keep k (switched_to_op c p k)"
    "sched_keep k (prio_changed_op c p pr k)" for k p fl b pr
    using assms(1) by (simp_all add: ext_class_def ext_keep_sched_keep)
  have O: "task_fork_op c = Some f \<Longrightarrow> sched_keep k (f p k)" "switched_from_op c = Some f \<Longrightarrow> sched_keep k (f p k)"
    "task_move_group_op c = Some h \<Longrightarrow> sched_keep k (h p b k)" for f h k p b
    using assms(1) by (auto simp: ext_class_def option.pred_set intro: ext_keep_sched_keep)
  have Q: "sched_inv_q (Q(p := x)) k" if "sched_inv_q Q k" "sched_class (tasks k p) = cid" for Q k p x
    using that cid by (auto simp: sched_inv_q_def)
  show ?thesis
    by (unfold_locales; (rule K | erule O | intro conjI sched_inv_q_keep [OF Q K(1)] sched_inv_q_keep [OF Q K(2)]
          sched_keep_frame [OF K(1)] sched_keep_frame [OF K(2)])?)
qed

section \<open>The WRR class\<close>

lemma card_insert_of_nat: "finite A \<Longrightarrow> p \<notin> A \<Longrightarrow> (of_nat (card (insert p A)) :: ulong) = of_nat (card A) + 1"
  by simp

lemma card_remove_of_nat: "finite A \<Longrightarrow> p \<in> A \<Longrightarrow> (of_nat (card (A - {p})) :: ulong) = of_nat (card A) - 1"
  by (metis add_diff_cancel_right' card_Suc_Diff1 of_nat_Suc add.commute)

lemma task_tick_wrr_static:
  "task_static (tasks (task_tick_wrr e p b k) q) = task_static (tasks k q)"
proof -
  have "task_static (tasks (update_curr_wrr k) q) = task_static (tasks k q)"
    using sched_keepD(1) [OF keep_update_curr_wrr] .
  then show ?thesis
    by (auto simp: task_tick_wrr_def Let_def watchdog_wrr_def set_time_slice_def BUG_def wrr_defs
        set_tsk_need_resched_def task_static_def)
qed

lemma wrr_queued_move_tail [simp]: "p \<in> wrr_queued k \<Longrightarrow> insert p (wrr_queued k) = wrr_queued k"
  by auto

lemma wrr_enq_inv:
  assumes inv: "sched_inv_q Q k" and cl: "sched_class (tasks k p) = Wrr_Class" and p: "\<not> Q p" "p < PID_MAX_LIMIT"
  shows "sched_inv_q (Q(p := True)) (enqueue_task_wrr e p fl k) \<and> sched_frame k (enqueue_task_wrr e p fl k)"
proof -
  let ?k = "enqueue_task_wrr e p fl k"
  note D = sched_inv_qD [OF inv]
  have nin: "p \<notin> wrr_queued k" using D(3) p by simp
  have st: "task_static (tasks ?k q) = task_static (tasks k q)" "need_resched (tasks ?k q) = need_resched (tasks k q)"
    "tsk_state (tasks ?k q) = tsk_state (tasks k q)" for q
    by (simp_all add: tasks_enqueue_task_wrr task_static_def)
  have rt: "rt_inv ?k" "rt_queued ?k = rt_queued k"
    using rt_inv_cong_queued [OF D(2), of ?k] task_staticD [OF st(1)] by auto
  have w: "wrr_inv ?k" "wrr_queued ?k = insert p (wrr_queued k)"
    using wrr_inv_enqueue [OF D(1) p(2)] nin by (simp_all add: wrr_queued_enqueue) (simp add: wrr_queued_def)
  have ex: "excess ?k = excess k + 1" by (simp add: excess_def rq_enqueue_task_wrr)
  have "sched_inv_q (Q(p := True)) ?k"
    unfolding sched_inv_q_def rt w(2)
    using w(1) rt(1) ex D cl nin task_staticD(7) [OF st(1)] task_ok_static [OF st(1)]
    by (simp add: card_insert_of_nat rq_enqueue_task_wrr algebra_simps)
  then show ?thesis using st by (simp add: sched_frame_def rq_enqueue_task_wrr)
qed

lemma wrr_deq_inv:
  assumes inv: "sched_inv_q Q k" and cl: "sched_class (tasks k p) = Wrr_Class" and p: "Q p"
  shows "sched_inv_q (Q(p := False)) (dequeue_task_wrr p fl k) \<and> sched_frame k (dequeue_task_wrr p fl k)"
proof -
  let ?k = "dequeue_task_wrr p fl k"
  note D = sched_inv_qD [OF inv]
  have pin: "p \<in> wrr_queued k" using D(3) p cl by simp
  note U = sched_keepD [OF keep_update_curr_wrr [of k]]
  have st: "task_static (tasks ?k q) = task_static (tasks k q)" for q by (simp add: tasks_dequeue_task_wrr U(1))
  have rt: "rt_inv ?k" "rt_queued ?k = rt_queued k"
    using rt_inv_cong_queued [OF D(2), of ?k] task_staticD [OF st(1)] by auto
  have w: "wrr_inv ?k" "wrr_queued ?k = wrr_queued k - {p}"
    using wrr_class.deq_inv [OF D(1) pin] wrr_class.deq_queued [OF D(1) pin] by auto
  have ex: "excess ?k = excess k - 1" by (simp add: excess_def rq_dequeue_task_wrr)
  have "sched_inv_q (Q(p := False)) ?k"
    unfolding sched_inv_q_def rt w(2)
    using w(1) rt(1) ex D cl pin task_staticD(7) [OF st(1)] task_ok_static [OF st(1)]
    by (simp add: card_remove_of_nat rq_dequeue_task_wrr algebra_simps del: card_Diff_singleton card_Diff_insert)
  moreover have "need_resched (tasks k q) \<or> q = curr (rq k)" if "need_resched (tasks ?k q)" for q
    using that U(11) by (simp add: tasks_dequeue_task_wrr)
  ultimately show ?thesis
    using st U(12) by (auto simp: sched_frame_def rq_dequeue_task_wrr tasks_dequeue_task_wrr)
qed

lemma curr_queued_wrr:
  assumes "sched_inv k" "sched_class (curr_task k) = Wrr_Class"
  shows "curr (rq k) \<in> set (active (wrr (rq k)))"
  using assms sched_inv_qD(3) [of _ k "curr (rq k)"] sched_inv_qD(7) [of _ k]
  by (auto simp: sched_inv_def run_inv_def curr_ok_def wrr_queued_def)

lemma wrr_keep_requeue:
  assumes "wrr_inv k \<Longrightarrow> wrr_inv k'" and "\<And>p. task_static (tasks k' p) = task_static (tasks k p)"
    and "\<And>p. need_resched (tasks k' p) \<Longrightarrow> need_resched (tasks k p) \<or> p = curr (rq k)"
    and "\<And>p. tsk_state (tasks k' p) = tsk_state (tasks k p) \<or> tsk_state (tasks k' p) = TASK_RUNNING"
    and "rq k' = (rq k)\<lparr>wrr := wrr (rq k')\<rparr>" "wrr_queued k' = wrr_queued k" "rt_rqs k' = rt_rqs k" "panicked k' = panicked k"
  shows "sched_keep k k'"
proof -
  have rt: "rt_inv k' = rt_inv k" "on_rt_rq k' s = on_rt_rq k s" for s
    using rt_inv_cong [of k' k] assms(7) task_staticD [OF assms(2)] by auto
  have r: "curr (rq k') = curr (rq k)" "idle (rq k') = idle (rq k)" "stop (rq k') = stop (rq k)" "excess k' = excess k"
    by (subst (1) assms(5) excess_def; simp add: excess_def)+
  show ?thesis using assms(1,2,3,4,6,8) rt r by (simp add: sched_keep_def rt_queued_def)
qed

lemma wrr_yield_keep:
  assumes "sched_inv k" "sched_class (curr_task k) = Wrr_Class"
  shows "sched_keep k (yield_task_wrr k)"
proof (rule wrr_keep_requeue)
  note c = curr_queued_wrr [OF assms]
  show "wrr_inv (yield_task_wrr k)" if "wrr_inv k" using wrr_inv_yield that c by blast
  show "wrr_queued (yield_task_wrr k) = wrr_queued k"
    using c sched_inv_qD(1) [of "\<lambda>p. on_rq (tasks k p)" k] assms(1)
    by (auto simp: yield_task_wrr_def wrr_defs wrr_queued_def list_ops sched_inv_def run_inv_def set_remove1_eq wrr_invD(1))
qed (auto simp: yield_task_wrr_def wrr_defs task_static_def)

lemma wrr_tick_keep:
  assumes "sched_inv k" "sched_class (curr_task k) = Wrr_Class"
  shows "sched_keep k (task_tick_wrr e (curr (rq k)) b k)"
proof (rule wrr_keep_requeue)
  note c = curr_queued_wrr [OF assms]
  have inv: "wrr_inv k" using assms(1) sched_inv_qD(1) by (auto simp: sched_inv_def run_inv_def)
  let ?k = "task_tick_wrr e (curr (rq k)) b k"
  show "wrr_inv ?k" using wrr_inv_tick [OF inv c] .
  show "task_static (tasks ?k p) = task_static (tasks k p)" for p by (rule task_tick_wrr_static)
  show "need_resched (tasks k p) \<or> p = curr (rq k)" if "need_resched (tasks ?k p)" for p
    using that by (auto simp: task_tick_wrr_need_resched)
  show "tsk_state (tasks ?k p) = tsk_state (tasks k p) \<or> tsk_state (tasks ?k p) = TASK_RUNNING" for p
    using sched_keepD(12) [OF keep_update_curr_wrr [of k], of p]
    by (auto simp: task_tick_wrr_def Let_def watchdog_wrr_def set_time_slice_def BUG_def wrr_defs set_tsk_need_resched_def)
  show "rq ?k = (rq k)\<lparr>wrr := wrr (rq ?k)\<rparr>" by (simp add: task_tick_wrr_queue)
  show "wrr_queued ?k = wrr_queued k"
    using c wrr_invD(1) [OF inv] by (auto simp: wrr_queued_def task_tick_wrr_queue list_ops set_remove1_eq)
  show "panicked ?k = panicked k"
    using wrr_invD(5) [OF inv c] by (auto simp: task_tick_wrr_panicked wrr_slice_ok_def)
qed simp

interpretation wrr_ops: class_contract "wrr_sched_class e" Wrr_Class for e :: "'f env"
  by (unfold_locales; (simp only: wrr_sched_class_def sched_class_ops.simps)?)
    (simp_all add: wrr_enq_inv wrr_deq_inv wrr_yield_keep wrr_tick_keep check_preempt_curr_wrr_def
      put_prev_task_wrr_def set_curr_task_wrr_def switched_to_wrr_def prio_changed_wrr_def)

section \<open>The real-time class\<close>

lemma rt_enq_inv:
  assumes inv: "sched_inv_q Q k" and cl: "sched_class (tasks k p) = Rt_Class" and p: "\<not> Q p" "p < PID_MAX_LIMIT"
  shows "sched_inv_q (Q(p := True)) (enqueue_task_rt p fl k) \<and> sched_frame k (enqueue_task_rt p fl k)"
proof -
  let ?k = "enqueue_task_rt p fl k"
  note D = sched_inv_qD [OF inv]
  have nin: "p \<notin> rt_queued k" using D(4) p by simp
  have adm: "rt_admissible k p" using D(5) [of p] cl p by (simp add: rt_admissible_def task_ok_def)
  note e = enqueue_task_rt_spec [OF D(2) adm, of fl]
  have st: "task_static (tasks ?k q) = task_static (tasks k q)" "need_resched (tasks ?k q) = need_resched (tasks k q)"
    "p_wrr (tasks ?k q) = p_wrr (tasks k q)" "tsk_state (tasks ?k q) = tsk_state (tasks k q)" for q
    by (simp_all add: enqueue_task_rt_def Let_def inc_nr_running_def task_static_def)
  have w: "wrr_inv ?k" "wrr_queued ?k = wrr_queued k"
    using wrr_inv_cong [of ?k k] D(1) st(3) e(3) by (auto simp: wrr_queued_def)
  have ex: "excess ?k = excess k + 1" by (simp add: excess_def e(3))
  have "sched_inv_q (Q(p := True)) ?k"
    unfolding sched_inv_q_def w(2) e(2)
    using w(1) e(1,3) ex D cl nin finite_rt_queued [OF D(2)] task_staticD(7) [OF st(1)] task_ok_static [OF st(1)]
    by (simp add: card_insert_of_nat algebra_simps)
  then show ?thesis using st e by (simp add: sched_frame_def)
qed

lemma rt_deq_inv:
  assumes inv: "sched_inv_q Q k" and cl: "sched_class (tasks k p) = Rt_Class" and p: "Q p"
  shows "sched_inv_q (Q(p := False)) (dequeue_task_rt p fl k) \<and> sched_frame k (dequeue_task_rt p fl k)"
proof -
  let ?k = "dequeue_task_rt p fl k"
  note D = sched_inv_qD [OF inv]
  have pin: "p \<in> rt_queued k" using D(4) p cl by simp
  note e = dequeue_task_rt_spec [OF D(2) pin, of fl]
  note U = sched_keepD [OF keep_update_curr_rt [of k]]
  have st: "tasks ?k = tasks (update_curr_rt k)" by (simp add: dequeue_task_rt_def dec_nr_running_def)
  have sim: "rt_sim k (update_curr_rt k)" using update_curr_rt_inv(2) [OF D(2)] .
  have w: "wrr_inv ?k" "wrr_queued ?k = wrr_queued k"
    using wrr_inv_cong [of ?k k] D(1) e(3) st sim by (auto simp: wrr_queued_def rt_sim_def)
  have ex: "excess ?k = excess k - 1" by (simp add: excess_def e(3))
  have "sched_inv_q (Q(p := False)) ?k"
    unfolding sched_inv_q_def w(2) e(2) st
    using w(1) e(1,3) ex D cl pin finite_rt_queued [OF D(2)] task_staticD(7) [OF U(1)] task_ok_static [OF U(1)]
    by (simp add: card_remove_of_nat algebra_simps del: card_Diff_singleton card_Diff_insert)
  then show ?thesis using U(1,11,12) e(3,4) by (auto simp: sched_frame_def st)
qed

lemma requeue_task_rt_frame [simp]:
  "tasks (requeue_task_rt p h k) = tasks k" "rq (requeue_task_rt p h k) = rq k"
  "panicked (requeue_task_rt p h k) = panicked k"
proof -
  have f: "tasks (requeue_rt_entity g s h k) = tasks k" "rq (requeue_rt_entity g s h k) = rq k"
    "panicked (requeue_rt_entity g s h k) = panicked k" for g s h and k :: "'a kernel"
    by (simp_all add: requeue_rt_entity_def)
  show "tasks (requeue_task_rt p h k) = tasks k" "rq (requeue_task_rt p h k) = rq k"
    "panicked (requeue_task_rt p h k) = panicked k"
    unfolding requeue_task_rt_def by (rule fold_keeps [of tasks] fold_keeps [of rq] fold_keeps [of panicked]; simp add: f)+
qed

lemma keep_requeue_task_rt: "sched_keep k (requeue_task_rt p h k)"
  using requeue_task_rt_inv by (intro sched_keep_rt) auto

lemma rt_yield_keep: "sched_keep k (yield_task_rt k)"
  by (simp add: yield_task_rt_def keep_requeue_task_rt)

lemma keep_p_rt: "sched_keep k (upd_task p (p_rt_update f) k)"
  by (rule sched_keepI) (auto simp: task_static_def excess_def split: if_splits)

lemma keep_watchdog_rt: "sched_keep k (watchdog_rt e p k)"
  by (rule sched_keepI) (auto simp: watchdog_rt_def Let_def split_def task_static_def excess_def split: if_splits)

lemma keep_need_resched_curr: "p = curr (rq k) \<Longrightarrow> sched_keep k (set_tsk_need_resched p k)"
  using keep_resched [of p k] by (simp add: resched_task_def)

lemma rt_tick_keep: "sched_keep k (task_tick_rt e (curr (rq k)) b k)"
proof -
  let ?c = "curr (rq k)"
  define k1 where "k1 = watchdog_rt e ?c (update_curr_rt k)"
  define k2 where "k2 = upd_task ?c (p_rt_update (rt_time_slice_update (\<lambda>_. rt_time_slice (p_rt (tasks k1 ?c)) - 1))) k1"
  define k3 where "k3 = upd_task ?c (p_rt_update (rt_time_slice_update (\<lambda>_. RR_TIMESLICE))) k2"
  define k4 where "k4 = requeue_task_rt ?c False k3"
  have k1: "sched_keep k k1" unfolding k1_def by (rule sched_keep_trans [OF keep_update_curr_rt keep_watchdog_rt])
  have k2: "sched_keep k k2" unfolding k2_def by (rule sched_keep_trans [OF k1 keep_p_rt])
  have k3: "sched_keep k k3" unfolding k3_def by (rule sched_keep_trans [OF k2 keep_p_rt])
  have k4: "sched_keep k k4" unfolding k4_def by (rule sched_keep_trans [OF k3 keep_requeue_task_rt])
  have "sched_keep k (set_tsk_need_resched ?c k4)"
    by (rule sched_keep_trans [OF k4 keep_need_resched_curr]) (simp add: sched_keepD(2) [OF k4])
  moreover have "task_tick_rt e ?c b k \<in> {k1, k2, k3, set_tsk_need_resched ?c k4}"
    by (simp add: task_tick_rt_def Let_def k1_def k2_def k3_def k4_def)
  ultimately show ?thesis using k1 k2 k3 by auto
qed

interpretation rt_ops: class_contract "rt_sched_class e" Rt_Class for e :: "'f env"
  by (unfold_locales; (simp only: rt_sched_class_def sched_class_ops.simps)?)
    (simp_all add: rt_enq_inv rt_deq_inv rt_yield_keep rt_tick_keep check_preempt_curr_rt_def
      put_prev_task_rt_def set_curr_task_rt_def switched_to_rt_def prio_changed_rt_def)

end
