(* ===== verification/Core_Steps.thy ===== *)
theory Core_Steps
  imports Core_Class
begin

text \<open>
  Every operation of the core keeps the invariant of the scheduler, for any classes outside the
  repository that keep to their own data.
\<close>

section \<open>The code outside the repository\<close>

text \<open>
  What the core relies on: the links between the classes; the fair and the idle class keep to
  their own data; the fair class offers fair tasks on the run queue and changes nothing when it has none, the
  idle class offers the idle task, the stop class nothing when there is no stop task;
  \<^verbatim>\<open>rt_mutex_getprio()\<close> is at most the normal priority and no less than 0; the identifiers that
  workqueues and cgroups hand out are within bounds.
\<close>

definition env_ok :: "'f env \<Rightarrow> bool" where
  "env_ok e \<longleftrightarrow>
     next_class (stop_class e) = Some Rt_Class \<and> next_class (fair_class e) = Some Idle_Class \<and>
     ext_class (fair_class e) \<and> ext_class (idle_class e) \<and>
     (\<forall>k. stop (rq k) = None \<longrightarrow> pick_next_task_op (stop_class e) k = (None, k)) \<and>
     (\<forall>k. case pick_next_task_op (fair_class e) k of
            (Some p, k') \<Rightarrow> sched_class (tasks k p) = Fair_Class \<and> on_rq (tasks k p) | (None, k') \<Rightarrow> k' = k) \<and>
     (\<forall>k. fst (pick_next_task_op (idle_class e) k) = Some (idle (rq k))) \<and>
     (\<forall>k p. 0 \<le> normal_prio (tasks k p) \<longrightarrow>
        0 \<le> rt_mutex_getprio e k p \<and> rt_mutex_getprio e k p \<le> normal_prio (tasks k p)) \<and>
     (\<forall>k p q. wq_worker_sleeping e k p = Some q \<longrightarrow> q < PID_MAX_LIMIT) \<and>
     (\<forall>p. valid_tg (autogroup_task_group e p (cgroup_task_group e p)))"

lemma env_okD:
  assumes "env_ok e"
  shows "next_class (stop_class e) = Some Rt_Class" "next_class (fair_class e) = Some Idle_Class"
    "ext_class (fair_class e)" "ext_class (idle_class e)"
    "stop (rq k) = None \<Longrightarrow> pick_next_task_op (stop_class e) k = (None, k)"
    "pick_next_task_op (fair_class e) k = (Some p, k') \<Longrightarrow> sched_class (tasks k p) = Fair_Class \<and> on_rq (tasks k p)"
    "pick_next_task_op (fair_class e) k = (None, k') \<Longrightarrow> k' = k"
    "fst (pick_next_task_op (idle_class e) k) = Some (idle (rq k))"
    "0 \<le> normal_prio (tasks k p) \<Longrightarrow> 0 \<le> rt_mutex_getprio e k p"
    "wq_worker_sleeping e k p = Some q \<Longrightarrow> q < PID_MAX_LIMIT"
    "valid_tg (autogroup_task_group e p (cgroup_task_group e p))"
  using assms unfolding env_ok_def by (auto split: prod.splits option.splits)

lemma class_ops_contract:
  assumes "env_ok e" and "cl \<noteq> Stop_Class"
  shows "class_contract (class_ops e cl) cl"
  using assms ext_class_contract env_okD(3,4) wrr_ops.class_contract_axioms rt_ops.class_contract_axioms
  by (cases cl) (auto simp: class_ops_def)

lemma all_classes_eq:
  assumes "env_ok e"
  shows "\<exists>cs. all_classes e = [Stop_Class, Rt_Class, Wrr_Class, Fair_Class, Idle_Class] @ cs"
  using env_okD(1,2) [OF assms]
  by (simp add: all_classes_def class_ops_def rt_sched_class_def wrr_sched_class_def numeral_eq_Suc)

section \<open>Operations that do not touch the queues\<close>

lemma keep_preempt_by_class: "sched_keep k (preempt_by_class cs p k)"
  by (induction cs) auto

lemma keep_skip_clock: "sched_keep k (rq_update (skip_clock_update_update f) k)"
  by (rule sched_keepI) (simp_all add: excess_def)

lemma sched_keep_step: "sched_keep k k' \<Longrightarrow> (b \<Longrightarrow> sched_keep k' k'') \<Longrightarrow> sched_keep k (if b then k'' else k')"
  by (auto intro: sched_keep_trans)

lemma task_not_stop: "sched_inv_q Q k \<Longrightarrow> sched_class (tasks k p) \<noteq> Stop_Class"
  using sched_inv_qD(5) [of Q k p] by (auto simp: task_ok_def)

lemma ops_contract: "env_ok e \<Longrightarrow> sched_inv_q Q k \<Longrightarrow> class_contract (ops e k p) (sched_class (tasks k p))"
  using class_ops_contract task_not_stop by blast

lemma keep_check_preempt_curr:
  assumes "env_ok e" "sched_inv_q Q k"
  shows "sched_keep k (check_preempt_curr e p fl k)"
proof -
  note C = class_contract.preempt [OF ops_contract [OF assms]]
  show ?thesis
    unfolding check_preempt_curr_def Let_def
    by (rule sched_keep_step) (auto intro: keep_preempt_by_class C keep_skip_clock)
qed

lemma keep_check_class_changed:
  assumes e: "env_ok e" and inv: "sched_inv_q Q k" and pc: "pc \<noteq> Stop_Class"
  shows "sched_keep k (check_class_changed e p pc oldprio k)"
proof -
  define k1 where "k1 = (case switched_from_op (class_ops e pc) of Some f \<Rightarrow> f p k | None \<Rightarrow> k)"
  have k1: "sched_keep k k1"
    using class_contract.switched_from [OF class_ops_contract [OF e pc]] by (auto simp: k1_def split: option.split)
  have "sched_keep k1 (switched_to_op (ops e k1 p) p k1)"
    using class_contract.switched_to [OF ops_contract [OF e sched_inv_q_keep [OF inv k1]]] .
  then have "sched_keep k (switched_to_op (ops e k1 p) p k1)" using k1 sched_keep_trans by blast
  moreover have "sched_keep k (prio_changed_op (ops e k p) p oldprio k)"
    using class_contract.prio_changed [OF ops_contract [OF e inv]] .
  ultimately show ?thesis by (simp add: check_class_changed_def k1_def [symmetric] Let_def)
qed

section \<open>On and off the run queue\<close>

lemma enqueue_task_inv:
  assumes e: "env_ok e" and inv: "sched_inv_q Q k" and p: "\<not> Q p" "p < PID_MAX_LIMIT"
  shows "sched_inv_q (Q(p := True)) (enqueue_task e p fl k)" "sched_frame k (enqueue_task e p fl k)"
proof -
  let ?k = "ext_call (Sched_Info_Queued p) (update_rq_clock k)"
  have keep: "sched_keep k ?k" by (rule sched_keep_trans [OF keep_update_rq_clock keep_ext_call])
  have k: "sched_inv_q Q ?k" by (rule sched_inv_q_keep [OF inv keep])
  note E = class_contract.enq [OF ops_contract [OF e k] k refl p, of fl]
  show "sched_inv_q (Q(p := True)) (enqueue_task e p fl k)" using E by (simp add: enqueue_task_def Let_def)
  show "sched_frame k (enqueue_task e p fl k)"
    using E sched_frame_trans [OF sched_keep_frame [OF keep]] by (simp add: enqueue_task_def Let_def)
qed

lemma dequeue_task_inv:
  assumes e: "env_ok e" and inv: "sched_inv_q Q k" and p: "Q p"
  shows "sched_inv_q (Q(p := False)) (dequeue_task e p fl k)" "sched_frame k (dequeue_task e p fl k)"
proof -
  let ?k = "ext_call (Sched_Info_Dequeued p) (update_rq_clock k)"
  have keep: "sched_keep k ?k" by (rule sched_keep_trans [OF keep_update_rq_clock keep_ext_call])
  have k: "sched_inv_q Q ?k" by (rule sched_inv_q_keep [OF inv keep])
  note E = class_contract.deq [OF ops_contract [OF e k] k refl p, of fl]
  show "sched_inv_q (Q(p := False)) (dequeue_task e p fl k)" using E by (simp add: dequeue_task_def Let_def)
  show "sched_frame k (dequeue_task e p fl k)"
    using E sched_frame_trans [OF sched_keep_frame [OF keep]] by (simp add: dequeue_task_def Let_def)
qed

lemma keep_task_stat:
  assumes "\<And>t. task_static (f t) = task_static t" "\<And>t. need_resched (f t) = need_resched t" "\<And>t. p_wrr (f t) = p_wrr t"
    "\<And>t. tsk_state (f t) = tsk_state t"
  shows "sched_keep k (upd_task p f k)"
  by (rule sched_keepI) (use assms in \<open>auto simp: excess_def split: if_splits\<close>)

lemma keep_rq_stat:
  assumes "\<And>r. (wrr (f r), curr (f r), idle (f r), stop (f r), nr_running (f r), h_nr_running (f r)) =
    (wrr r, curr r, idle r, stop r, nr_running r, h_nr_running r)"
  shows "sched_keep k (rq_update f k)"
  by (rule sched_keepI) (use assms in \<open>auto simp: excess_def\<close>)

text \<open>Marking a task after it has been enqueued, or taken off.\<close>

lemma set_on_rq_inv:
  assumes "sched_inv_q Q k"
  shows "sched_inv_q Q (upd_task p (on_rq_update (\<lambda>_. b)) k)"
proof -
  let ?k = "upd_task p (on_rq_update (\<lambda>_. b)) k"
  note D = sched_inv_qD [OF assms]
  have w: "wrr_inv ?k" using wrr_inv_cong [of ?k k] D(1) by simp
  have rt: "rt_inv ?k" "rt_queued ?k = rt_queued k" using rt_inv_cong_queued [OF D(2), of ?k] by auto
  show ?thesis
    unfolding sched_inv_q_def rt(2)
    using D w rt(1) by (auto simp: task_ok_def wrr_queued_def excess_def)
qed

lemma on_rq_fun: "(\<lambda>q. on_rq (tasks (upd_task p (on_rq_update (\<lambda>_. b)) k) q)) = (\<lambda>q. on_rq (tasks k q))(p := b)"
  by auto

lemma frame_on_rq: "sched_frame k k' \<Longrightarrow> (\<lambda>q. on_rq (tasks k' q)) = (\<lambda>q. on_rq (tasks k q))"
  using task_staticD(1) [OF sched_frameD(1)] by blast

lemma frame_curr:
  assumes "sched_frame k k'"
  shows "sched_class (curr_task k') = sched_class (curr_task k)" "on_rq (curr_task k') = on_rq (curr_task k)"
  using task_staticD(1,7) [OF sched_frameD(1) [OF assms, of "curr (rq k)"]] sched_frameD(2) [OF assms] by simp_all

text \<open>
  What one step of the core may do: keep the invariant, ask only the current task to reschedule,
  put no task to sleep and take none off the run queue.
\<close>

definition good_step :: "'f kernel \<Rightarrow> 'f kernel \<Rightarrow> bool" where
  "good_step k k' \<longleftrightarrow> run_inv k' \<and> panicked k' = panicked k \<and> curr (rq k') = curr (rq k) \<and> idle (rq k') = idle (rq k) \<and>
     (\<forall>q. (need_resched (tasks k' q) \<longrightarrow> need_resched (tasks k q) \<or> q = curr (rq k)) \<and>
        (tsk_state (tasks k' q) = tsk_state (tasks k q) \<or> tsk_state (tasks k' q) = TASK_RUNNING) \<and>
        (on_rq (tasks k q) \<longrightarrow> on_rq (tasks k' q)))"

lemma good_step_refl: "run_inv k \<Longrightarrow> good_step k k"
  by (simp add: good_step_def)

lemma good_step_trans: "good_step k k' \<Longrightarrow> good_step k' k'' \<Longrightarrow> good_step k k''"
  unfolding good_step_def by metis

lemma keep_good_step: "run_inv k \<Longrightarrow> sched_keep k k' \<Longrightarrow> good_step k k'"
proof -
  assume inv: "run_inv k" and keep: "sched_keep k k'"
  have "on_rq (tasks k' q) = on_rq (tasks k q)" for q by (rule task_staticD [OF sched_keepD(1) [OF keep]])
  then show ?thesis
    using run_inv_keep [OF inv keep] sched_keepD(2,3,5,11,12) [OF keep] unfolding good_step_def by blast
qed

lemma good_step_run_inv: "good_step k k' \<Longrightarrow> run_inv k'"
  by (simp add: good_step_def)

lemma good_step_keep: "good_step k k' \<Longrightarrow> sched_keep k' k'' \<Longrightarrow> good_step k k''"
  using good_step_trans keep_good_step good_step_run_inv by blast

lemma good_step_inv: "sched_inv k \<Longrightarrow> good_step k k' \<Longrightarrow> sched_inv k'"
  unfolding sched_inv_def curr_ok_def good_step_def by metis

lemma good_step_resched: "good_step k k' \<Longrightarrow> good_step k (resched_task (curr (rq k')) k')"
  using good_step_keep [OF _ keep_resched [OF refl]] .

lemma activate_frame:
  assumes e: "env_ok e" and inv: "run_inv k" and p: "\<not> on_rq (tasks k p)" "p < PID_MAX_LIMIT"
  shows "sched_frame k (activate_task e p fl k)"
proof -
  let ?k = "if task_contributes_to_load (tasks k p) then rq_update (nr_uninterruptible_update (\<lambda>n. n - 1)) k else k"
  have keep: "sched_keep k ?k" by (auto intro!: keep_rq_stat)
  have q: "sched_inv_q (\<lambda>q. on_rq (tasks k q)) ?k" using inv sched_inv_q_keep [OF _ keep] by (simp only: run_inv_def)
  show ?thesis
    using enqueue_task_inv(2) [OF e q _ p(2), of fl, folded activate_task_def] p(1) sched_frame_trans [OF sched_keep_frame [OF keep]] by blast
qed

lemma activate_step:
  assumes e: "env_ok e" and inv: "run_inv k" and p: "\<not> on_rq (tasks k p)" "p < PID_MAX_LIMIT"
  shows "good_step k (upd_task p (on_rq_update (\<lambda>_. True)) (activate_task e p fl k))"
proof -
  let ?k = "if task_contributes_to_load (tasks k p) then rq_update (nr_uninterruptible_update (\<lambda>n. n - 1)) k else k"
  let ?a = "activate_task e p fl k" and ?Q = "\<lambda>q. on_rq (tasks k q)"
  let ?u = "upd_task p (on_rq_update (\<lambda>_. True)) ?a"
  have keep: "sched_keep k ?k" by (auto intro!: keep_rq_stat)
  have q: "sched_inv_q ?Q ?k" using inv sched_inv_q_keep [OF _ keep] by (simp only: run_inv_def)
  note E = enqueue_task_inv [OF e q _ p(2), of fl, folded activate_task_def]
  have fr: "sched_frame k ?a" by (rule activate_frame [OF assms])
  have "sched_inv_q (?Q(p := True)) ?u" using E(1) p set_on_rq_inv by blast
  then have "run_inv ?u" unfolding run_inv_def on_rq_fun frame_on_rq [OF fr] .
  moreover have "need_resched (tasks ?u q) = need_resched (tasks ?a q)" "tsk_state (tasks ?u q) = tsk_state (tasks ?a q)"
    "on_rq (tasks k q) \<longrightarrow> on_rq (tasks ?u q)" for q
    using fun_cong [OF frame_on_rq [OF fr], of q] by simp_all
  moreover have "curr (rq ?u) = curr (rq k)" "idle (rq ?u) = idle (rq k)" "panicked ?u = panicked k"
    using sched_frameD(2-4) [OF fr] by simp_all
  ultimately show ?thesis using sched_frameD(5,6) [OF fr] by (simp only: good_step_def) blast
qed

section \<open>Waking up\<close>

lemma set_running_keep: "sched_keep k (upd_task p (tsk_state_update (\<lambda>_. TASK_RUNNING)) k)"
  by (rule sched_keepI) (auto simp: task_static_def excess_def split: if_splits)

lemma ttwu_do_wakeup_keep:
  assumes "env_ok e" "run_inv k"
  shows "sched_keep k (ttwu_do_wakeup e p fl k)"
  using sched_keep_trans [OF keep_check_preempt_curr [OF assms(1)] set_running_keep] assms(2)
  by (auto simp: ttwu_do_wakeup_def run_inv_def)

lemma ttwu_stat_keep: "sched_keep k (ttwu_stat p fl k)"
  unfolding ttwu_stat_def Let_def
  by (rule sched_keep_step)
    (rule sched_keep_trans [OF keep_rq_stat keep_task_stat] keep_task_stat; simp add: task_static_def)+

lemma ttwu_activate_step:
  assumes e: "env_ok e" and inv: "run_inv k" and p: "\<not> on_rq (tasks k p)" "p < PID_MAX_LIMIT"
  shows "good_step k (ttwu_activate e p fl k)"
  using activate_step [OF assms, of fl] by (auto simp: ttwu_activate_def Let_def intro: good_step_keep)

lemma ttwu_wakeup_step:
  "env_ok e \<Longrightarrow> good_step k k' \<Longrightarrow> good_step k (ttwu_do_wakeup e p fl k')"
  using good_step_keep [OF _ ttwu_do_wakeup_keep] good_step_def by blast

lemma try_to_wake_up_step:
  assumes e: "env_ok e" and inv: "run_inv k" and p: "p < PID_MAX_LIMIT"
  shows "good_step k (snd (try_to_wake_up e p st fl k))"
proof -
  have r: "good_step k k" using keep_good_step [OF inv] by simp
  have w: "good_step k (ttwu_do_wakeup e p fl' k)" for fl' by (rule ttwu_wakeup_step [OF e r])
  have a: "good_step k (ttwu_queue e p k)" if "\<not> on_rq (tasks k p)"
    unfolding ttwu_queue_def ttwu_do_activate_def by (rule ttwu_wakeup_step [OF e ttwu_activate_step [OF e inv that p]])
  show ?thesis
    using r good_step_keep [OF w ttwu_stat_keep] good_step_keep [OF a ttwu_stat_keep]
    by (simp add: try_to_wake_up_def ttwu_remote_def)
qed

lemma try_to_wake_up_local_step:
  assumes e: "env_ok e" and inv: "run_inv k" and p: "p < PID_MAX_LIMIT"
  shows "good_step k (try_to_wake_up_local e p k)"
proof -
  have r: "good_step k k" using keep_good_step [OF inv] by simp
  let ?k = "if \<not> on_rq (tasks k p) then ttwu_activate e p ENQUEUE_WAKEUP k else k"
  have "good_step k ?k" using r ttwu_activate_step [OF e inv _ p] by simp
  from good_step_keep [OF ttwu_wakeup_step [OF e this] ttwu_stat_keep] show ?thesis
    using r by (simp add: try_to_wake_up_local_def Let_def)
qed

text \<open>Waking one task leaves the others where they are.\<close>

lemma try_to_wake_up_local_others:
  assumes e: "env_ok e" and inv: "run_inv k" and p: "p < PID_MAX_LIMIT" and q: "q \<noteq> p"
  shows "on_rq (tasks (try_to_wake_up_local e p k) q) = on_rq (tasks k q)"
proof -
  let ?k = "if \<not> on_rq (tasks k p) then ttwu_activate e p ENQUEUE_WAKEUP k else k"
  have r: "run_inv ?k" using inv good_step_run_inv [OF ttwu_activate_step [OF e inv _ p]] by simp
  have a: "on_rq (tasks ?k q) = on_rq (tasks k q)"
    using q task_staticD(1) [OF sched_frameD(1) [OF activate_frame [OF e inv _ p], of _ q]]
    by (simp add: ttwu_activate_def Let_def ext_call_def)
  have keep: "sched_keep ?k (ttwu_stat p 0 (ttwu_do_wakeup e p 0 ?k))"
    by (rule sched_keep_trans [OF ttwu_do_wakeup_keep [OF e r] ttwu_stat_keep])
  have "on_rq (tasks (ttwu_stat p 0 (ttwu_do_wakeup e p 0 ?k)) q) = on_rq (tasks k q)"
    unfolding task_staticD(1) [OF sched_keepD(1) [OF keep]] by (rule a)
  then show ?thesis unfolding try_to_wake_up_local_def Let_def by simp
qed

section \<open>Changing a task\<close>

text \<open>A task that is in no queue may become anything that is well formed.\<close>

lemma change_detached:
  assumes inv: "sched_inv_q Q k" and p: "\<not> Q p" "p \<noteq> idle (rq k)" and t: "task_ok t" "wrr_task_ok (p_wrr t)"
  shows "sched_inv_q Q (upd_task p (\<lambda>_. t) k)"
proof -
  let ?k = "upd_task p (\<lambda>_. t) k"
  note D = sched_inv_qD [OF inv]
  have nin: "p \<notin> wrr_queued k" "p \<notin> rt_queued k" using D(3,4) p by simp_all
  have w: "wrr_inv ?k"
    using nin(1) t(2) wrr_invD(6) [OF D(1)] by (intro wrr_inv_kernel_step [OF D(1)]) (auto simp: wrr_queued_def)
  have rt: "rt_inv ?k" "rt_queued ?k = rt_queued k"
    by (rule rt_inv_cong_queued [OF D(2)]; use nin(2) in auto)+
  have wq: "wrr_queued ?k = wrr_queued k" by (simp add: wrr_queued_def)
  show ?thesis
    unfolding sched_inv_q_def rt(2) wq
    using D w rt(1) p nin t by (auto simp: excess_def)
qed

definition well_changed :: "task_struct \<Rightarrow> task_struct \<Rightarrow> bool" where
  "well_changed t t' \<longleftrightarrow> on_rq t' = on_rq t \<and> tsk_state t' = tsk_state t \<and> (need_resched t' \<longrightarrow> need_resched t) \<and> task_ok t' \<and> wrr_task_ok (p_wrr t')"

lemma off_queue:
  assumes e: "env_ok e" and inv: "run_inv k"
  shows "sched_inv_q ((\<lambda>q. on_rq (tasks k q))(p := False)) (if on_rq (tasks k p) then dequeue_task e p fl k else k)"
    "sched_frame k (if on_rq (tasks k p) then dequeue_task e p fl k else k)"
  using dequeue_task_inv [OF e, of "\<lambda>q. on_rq (tasks k q)" k p fl] inv
  by (auto simp: run_inv_def fun_upd_idem)

text \<open>
  Off the queue, a change, back on the queue: the pattern of \<^verbatim>\<open>set_user_nice()\<close>,
  \<^verbatim>\<open>rt_mutex_setprio()\<close>, \<^verbatim>\<open>__sched_setscheduler()\<close>, \<^verbatim>\<open>normalize_task()\<close> and
  \<^verbatim>\<open>sched_move_task()\<close>, with anything harmless before and after the change.
\<close>

lemma change_requeue:
  assumes e: "env_ok e" and inv: "run_inv k" and p: "p < PID_MAX_LIMIT" "p \<noteq> idle (rq k)"
    and k1: "k1 = (if on_rq (tasks k p) then dequeue_task e p fl k else k)"
    and k2: "sched_keep k1 k2"
    and k3: "k3 = upd_task p (\<lambda>_. t) k2" "well_changed (tasks k2 p) t"
    and k4: "sched_keep k3 k4"
    and k5: "k5 = (if on_rq (tasks k p) then enqueue_task e p fl' k4 else k4)"
  shows "good_step k k5"
proof -
  let ?Q = "\<lambda>q. on_rq (tasks k q)"
  have q1: "sched_inv_q (?Q(p := False)) k1" and f1: "sched_frame k k1"
    using off_queue [OF e inv, of p fl] unfolding k1 by auto
  have q2: "sched_inv_q (?Q(p := False)) k2" by (rule sched_inv_q_keep [OF q1 k2])
  have f2: "sched_frame k k2" by (rule sched_frame_trans [OF f1 sched_keep_frame [OF k2]])
  note F = sched_frameD [OF f2]
  have t: "on_rq t = on_rq (tasks k p)" "task_ok t" "wrr_task_ok (p_wrr t)" "need_resched t \<Longrightarrow> need_resched (tasks k2 p)"
    "tsk_state t = tsk_state (tasks k2 p)"
    using k3(2) task_staticD(1) [OF F(1), of p] by (auto simp: well_changed_def)
  have q3: "sched_inv_q (?Q(p := False)) k3"
    unfolding k3(1) by (rule change_detached [OF q2]) (use p F(3) t in auto)
  have q4: "sched_inv_q (?Q(p := False)) k4" by (rule sched_inv_q_keep [OF q3 k4])
  have q5: "sched_inv_q ?Q k5" "sched_frame k4 k5"
    using enqueue_task_inv [OF e q4, of p fl'] p(1) q4 unfolding k5 by (auto simp: fun_upd_idem)
  have f5: "sched_frame k3 k5" by (rule sched_frame_trans [OF sched_keep_frame [OF k4] q5(2)])
  note G = sched_frameD [OF f5]
  have on: "on_rq (tasks k5 q) = on_rq (tasks k q)" for q
    using task_staticD(1) [OF G(1)] task_staticD(1) [OF F(1)] t(1) by (simp add: k3(1))
  have ci: "curr (rq k5) = curr (rq k)" "idle (rq k5) = idle (rq k)" "panicked k5 = panicked k"
    using G(2-4) F(2-4) by (simp_all add: k3(1))
  have "need_resched (tasks k q) \<or> q = curr (rq k)" if "need_resched (tasks k5 q)" for q
    using G(5) [OF that] F(5) [of q] F(2) t(4) by (auto simp: k3(1) split: if_splits)
  moreover have "tsk_state (tasks k5 q) = tsk_state (tasks k q) \<or> tsk_state (tasks k5 q) = TASK_RUNNING" for q
  proof -
    have "tsk_state (tasks k3 q) = tsk_state (tasks k2 q)" using t(5) by (simp add: k3(1))
    then show ?thesis using G(6) [of q] F(6) [of q] by metis
  qed
  ultimately show ?thesis using q5(1) ci by (simp add: good_step_def run_inv_def on)
qed

section \<open>The operations that change a task\<close>

lemma upd_task_const: "upd_task p f k = upd_task p (\<lambda>_. f (tasks k p)) k"
  by simp

lemma NICE_TO_PRIO_range: "- 20 \<le> n \<Longrightarrow> n \<le> 19 \<Longrightarrow> MAX_RT_PRIO \<le> NICE_TO_PRIO n \<and> NICE_TO_PRIO n < MAX_PRIO"
  by (simp add: NICE_TO_PRIO_def prio_consts)

text \<open>The new task that \<^verbatim>\<open>__setscheduler()\<close> makes.\<close>

lemma setscheduler_changed:
  assumes e: "env_ok e" and t: "task_ok (tasks k p)" "wrr_task_ok (p_wrr (tasks k p))" and pr: "0 \<le> pr" "pr < MAX_RT_PRIO"
  shows "\<exists>t. setscheduler e p pol pr k = upd_task p (\<lambda>_. t) k \<and> well_changed (tasks k p) t"
proof -
  define k2 where "k2 = (if pol \<noteq> SCHED_WRR then upd_task p (rt_priority_update (\<lambda>_. pr)) (upd_task p (policy_update (\<lambda>_. pol)) k)
                else upd_task p (setscheduler_wrr_weight pr) (upd_task p (policy_update (\<lambda>_. pol)) k))"
  define k3 where "k3 = upd_task p (\<lambda>t. t\<lparr>normal_prio := normal_prio_of t\<rparr>) k2"
  define k4 where "k4 = upd_task p (prio_update (\<lambda>_. rt_mutex_getprio e k3 p)) k3"
  define k5 where "k5 = set_load_weight p (set_class p k4)"
  have eq: "setscheduler e p pol pr k = k5" by (simp add: setscheduler_def Let_def k2_def k3_def k4_def k5_def)
  have w: "word_of_int pr \<le> max_weight" "pr \<noteq> 0 \<longrightarrow> 0 < (word_of_int pr :: u32)"
    using pr by (auto simp: max_weight_def prio_consts word_le_def word_less_def uint_word_of_int)
  have np: "0 \<le> normal_prio (tasks k3 p)"
    using t(1) pr by (auto simp: k3_def k2_def normal_prio_of_def setscheduler_wrr_weight_def task_ok_def prio_consts)
  note g = env_okD(9) [OF e np]
  have t3: "on_rq (tasks k3 p) = on_rq (tasks k p)" "tsk_state (tasks k3 p) = tsk_state (tasks k p)" "need_resched (tasks k3 p) = need_resched (tasks k p)"
    "static_prio (tasks k3 p) = static_prio (tasks k p)" "sched_task_group (tasks k3 p) = sched_task_group (tasks k p)"
    by (cases "pol = SCHED_WRR"; simp add: k3_def k2_def setscheduler_wrr_weight_def)+
  have w3: "wrr_task_ok (p_wrr (tasks k3 p))"
    using t(2) w by (cases "pol = SCHED_WRR") (auto simp: k3_def k2_def setscheduler_wrr_weight_def wrr_task_ok_def)
  have k2: "k2 = upd_task p (\<lambda>_. tasks k2 p) k"
    by (cases "pol = SCHED_WRR") (simp_all add: k2_def)
  have other: "k5 = upd_task p (\<lambda>_. tasks k5 p) k"
    unfolding k5_def k4_def k3_def set_load_weight_def set_class_def Let_def by (subst (1) k2) simp
  have "well_changed (tasks k p) (tasks k5 p)"
    using t(1) g np t3 w3
    by (simp add: k5_def k4_def set_load_weight_def set_class_def Let_def well_changed_def task_ok_def rt_prio_def)
  then show ?thesis using other eq by (intro exI [of _ "tasks k5 p"]) (simp only: simp_thms)
qed

lemma frame_class: "sched_frame k k' \<Longrightarrow> sched_class (tasks k' p) = sched_class (tasks k p)"
  using task_staticD(7) [OF sched_frameD(1)] by blast

lemma inv_task:
  assumes "run_inv k"
  shows "task_ok (tasks k p)" "wrr_task_ok (p_wrr (tasks k p))" "sched_class (tasks k p) \<noteq> Stop_Class"
  using assms sched_inv_qD(1,5) [of "\<lambda>p. on_rq (tasks k p)" k] wrr_invD(6) [of k]
  by (auto simp: run_inv_def task_ok_def)

text \<open>The running task is handed back to its class, and taken over by its new class.\<close>

lemma keep_put_prev: "env_ok e \<Longrightarrow> sched_class (tasks k p) \<noteq> Stop_Class \<Longrightarrow> sched_keep k (if b then put_prev_task_op (ops e k p) p k else k)"
  using class_contract.put_prev [OF class_ops_contract] by auto

lemma keep_set_curr: "env_ok e \<Longrightarrow> sched_class (tasks k p) \<noteq> Stop_Class \<Longrightarrow> sched_keep k (if b then set_curr_task_op (ops e k p) k else k)"
  using class_contract.set_curr [OF class_ops_contract] by auto

lemma good_step_class_changed:
  assumes "env_ok e" "good_step k k'" "pc \<noteq> Stop_Class"
  shows "good_step k (check_class_changed e p pc oldprio k')"
  using good_step_keep [OF assms(2) keep_check_class_changed [OF assms(1) _ assms(3)]] assms(2)
  by (auto simp: good_step_def run_inv_def)

lemma change_ok:
  assumes "run_inv k" "sched_frame k k'" "sched_inv_q Q k'"
  shows "task_ok (tasks k' p)" "wrr_task_ok (p_wrr (tasks k' p))" "sched_class (tasks k' p) \<noteq> Stop_Class"
  using inv_task [OF assms(1)] sched_inv_qD(1,5) [OF assms(3)] wrr_invD(6) frame_class [OF assms(2)] by auto

lemma change_scheduler_step:
  assumes e: "env_ok e" and inv: "run_inv k" and p: "p < PID_MAX_LIMIT" "p \<noteq> idle (rq k)"
    and pr: "0 \<le> pr" "pr < MAX_RT_PRIO"
  shows "good_step k (change_scheduler e p pol pr reset k)"
proof -
  define k1 where "k1 = (if on_rq (tasks k p) then dequeue_task e p 0 k else k)"
  define k2 where "k2 = (if task_current k p then put_prev_task_op (ops e k1 p) p k1 else k1)"
  define k3 where "k3 = upd_task p (sched_reset_on_fork_update (\<lambda>_. reset)) k2"
  define k4 where "k4 = setscheduler e p pol pr k3"
  define k5 where "k5 = (if task_current k p then set_curr_task_op (ops e k4 p) k4 else k4)"
  define k6 where "k6 = (if on_rq (tasks k p) then enqueue_task e p 0 k5 else k5)"
  note o = off_queue [OF e inv, of p 0, folded k1_def]
  have k13: "sched_keep k1 k3"
    unfolding k3_def k2_def
    by (rule sched_keep_trans [OF keep_put_prev [OF e] keep_task_stat])
      (simp_all add: change_ok [OF inv o(2,1)] task_static_def)
  note ok = change_ok [OF inv sched_frame_trans [OF o(2) sched_keep_frame [OF k13]] sched_inv_q_keep [OF o(1) k13], of p]
  obtain t where t: "k4 = upd_task p (\<lambda>_. t) k3" "well_changed (tasks k3 p) t"
    using setscheduler_changed [OF e ok(1,2) pr, of pol] unfolding k4_def by blast
  have "sched_keep k4 k5"
    unfolding k5_def using t by (intro keep_set_curr [OF e]) (simp add: well_changed_def task_ok_def)
  then have "good_step k k6" by (rule change_requeue [OF e inv p k1_def k13 t _ k6_def])
  from good_step_keep [OF good_step_class_changed [OF e this ok(3)] keep_ext_call] show ?thesis
    unfolding change_scheduler_def Let_def k1_def k2_def k3_def k4_def k5_def k6_def .
qed

lemma valid_priority_range:
  "valid_sched_priority pol pr t \<Longrightarrow> 0 \<le> pr \<and> pr < MAX_RT_PRIO"
  by (auto simp: valid_sched_priority_def prio_consts split: if_splits)

lemma sched_setscheduler_step:
  assumes e: "env_ok e" and inv: "run_inv k" and p: "p < PID_MAX_LIMIT" "p \<noteq> idle (rq k)" and "\<not> in_interrupt e k"
  shows "good_step k (snd (sched_setscheduler_common e p pol pr user k))"
proof -
  have r: "good_step k k" using keep_good_step [OF inv] by simp
  show ?thesis
    using r change_scheduler_step [OF e inv p] valid_priority_range assms(5)
    by (auto simp: sched_setscheduler_common_def split: option.splits)
qed

lemma rt_mutex_setprio_step:
  assumes e: "env_ok e" and inv: "run_inv k" and p: "p < PID_MAX_LIMIT" and np: "0 \<le> np" "np \<le> MAX_PRIO"
  shows "good_step k (rt_mutex_setprio e p np k)"
proof (cases "p = idle (rq k)")
  case True
  then show ?thesis using np keep_good_step [OF inv] by (simp add: rt_mutex_setprio_def)
next
  case False
  define k1 where "k1 = (if on_rq (tasks k p) then dequeue_task e p 0 k else k)"
  define k2 where "k2 = (if task_current k p then put_prev_task_op (ops e k1 p) p k1 else k1)"
  define k3 where "k3 = set_class p (upd_task p (prio_update (\<lambda>_. np)) k2)"
  define k4 where "k4 = (if task_current k p then set_curr_task_op (ops e k3 p) k3 else k3)"
  define k5 where "k5 = (if on_rq (tasks k p)
                  then enqueue_task e p (if prio (tasks k p) < np then ENQUEUE_HEAD else 0) k4 else k4)"
  note o = off_queue [OF e inv, of p 0, folded k1_def]
  have k12: "sched_keep k1 k2" unfolding k2_def by (rule keep_put_prev [OF e]) (rule change_ok [OF inv o(2,1)])
  note ok = change_ok [OF inv sched_frame_trans [OF o(2) sched_keep_frame [OF k12]] sched_inv_q_keep [OF o(1) k12], of p]
  have t: "k3 = upd_task p (\<lambda>_. tasks k3 p) k2" by (simp add: k3_def set_class_def)
  have w: "well_changed (tasks k2 p) (tasks k3 p)"
    using ok np by (simp add: k3_def set_class_def well_changed_def task_ok_def rt_prio_def)
  have "sched_keep k3 k4"
    unfolding k4_def using w by (intro keep_set_curr [OF e]) (simp add: well_changed_def task_ok_def)
  then have "good_step k k5" by (rule change_requeue [OF e inv p False k1_def k12 t w _ k5_def])
  from good_step_class_changed [OF e this inv_task(3) [OF inv]] have
    "good_step k (check_class_changed e p (sched_class (tasks k p)) (prio (tasks k p)) k5)" .
  moreover have "rt_mutex_setprio e p np k = check_class_changed e p (sched_class (tasks k p)) (prio (tasks k p)) k5"
    using False np unfolding rt_mutex_setprio_def Let_def k1_def k2_def k3_def k4_def k5_def by simp
  ultimately show ?thesis by simp
qed

end
