(* ===== verification/Core_Run.thy ===== *)
theory Core_Run
  imports Core_Steps
begin

text \<open>
  The remaining operations of the core: nice values, moves between groups, ticks, yielding,
  forking, and the main scheduling function with its choice of the next task.
\<close>

section \<open>Nice values, groups, normalising\<close>

lemma set_user_nice_step:
  assumes e: "env_ok e" and inv: "run_inv k" and p: "p < PID_MAX_LIMIT" "p \<noteq> idle (rq k)"
  shows "good_step k (set_user_nice e p nice k)"
proof -
  have r: "good_step k k" using good_step_refl [OF inv] .
  define k1 where "k1 = (if on_rq (tasks k p) then dequeue_task e p 0 k else k)"
  define k2 where "k2 = set_load_weight p (upd_task p (static_prio_update (\<lambda>_. NICE_TO_PRIO nice)) k1)"
  define k4 where "k4 = upd_task p (prio_update (\<lambda>_. fst (effective_prio p k2))) (snd (effective_prio p k2))"
  define k5 where "k5 = (if on_rq (tasks k p) then enqueue_task e p 0 k4 else k4)"
  note o = off_queue [OF e inv, of p 0, folded k1_def]
  note ok = change_ok [OF inv o(2,1), of p]
  have t: "k4 = upd_task p (\<lambda>_. tasks k4 p) k1"
    by (simp add: k4_def k2_def effective_prio_def Let_def set_load_weight_def)
  have pol: "task_has_rt_policy (tasks k1 p) = task_has_rt_policy (tasks k p)"
    using task_staticD(6) [OF sched_frameD(1) [OF o(2)]] by (simp add: task_has_rt_policy_def)
  have w: "well_changed (tasks k1 p) (tasks k4 p)" if "\<not> task_has_rt_policy (tasks k p)" "- 20 \<le> nice" "nice \<le> 19"
    using ok that pol
    by (auto simp: k4_def k2_def effective_prio_def Let_def set_load_weight_def well_changed_def task_ok_def
        rt_prio_def normal_prio_of_def task_has_rt_policy_def NICE_TO_PRIO_def prio_consts)
  have s: "good_step k k5" if "\<not> task_has_rt_policy (tasks k p)" "- 20 \<le> nice" "nice \<le> 19"
    by (rule change_requeue [OF e inv p k1_def sched_keep_refl t w [OF that] sched_keep_refl k5_def])
  have rt: "good_step k (upd_task p (static_prio_update (\<lambda>_. NICE_TO_PRIO nice)) k)" if "- 20 \<le> nice" "nice \<le> 19"
  proof -
    let ?k = "upd_task p (static_prio_update (\<lambda>_. NICE_TO_PRIO nice)) k"
    have D: "sched_inv_q (\<lambda>q. on_rq (tasks k q)) k" using inv by (simp add: run_inv_def)
    have w: "wrr_inv ?k" using wrr_inv_cong [of ?k k] sched_inv_qD(1) [OF D] by simp
    have rt: "rt_inv ?k" "rt_queued ?k = rt_queued k"
      by (rule rt_inv_cong_queued [OF sched_inv_qD(2) [OF D]]; simp)+
    have on: "(\<lambda>q. on_rq (tasks ?k q)) = (\<lambda>q. on_rq (tasks k q))" by auto
    have "run_inv ?k"
      unfolding run_inv_def on sched_inv_q_def rt(2)
      using w rt(1) sched_inv_qD [OF D] NICE_TO_PRIO_range [OF that]
      by (auto simp: task_ok_def wrr_queued_def excess_def)
    then show ?thesis by (auto simp: good_step_def split: if_splits)
  qed
  define b where "b = (let d = fst (effective_prio p k2) - prio (tasks k2 p) in d < 0 \<or> d > 0 \<and> task_running k5 p)"
  have "set_user_nice e p nice k = (if TASK_NICE (tasks k p) = nice \<or> nice < - 20 \<or> nice > 19 then k
      else if task_has_rt_policy (tasks k p) then upd_task p (static_prio_update (\<lambda>_. NICE_TO_PRIO nice)) k
      else if on_rq (tasks k p) \<and> b then resched_task (curr (rq k5)) k5 else k5)"
    unfolding set_user_nice_def Let_def split_def b_def k5_def k4_def k2_def k1_def by (cases "on_rq (tasks k p)") simp_all
  moreover have "good_step k (if on_rq (tasks k p) \<and> b then resched_task (curr (rq k5)) k5 else k5)"
    if "\<not> task_has_rt_policy (tasks k p)" "- 20 \<le> nice" "nice \<le> 19"
    using s [OF that] good_step_resched by auto
  ultimately show ?thesis using r rt by auto
qed

lemma sched_move_task_step:
  assumes e: "env_ok e" and inv: "run_inv k" and p: "p < PID_MAX_LIMIT" "p \<noteq> idle (rq k)"
  shows "good_step k (sched_move_task e p k)"
proof -
  define tg where "tg = autogroup_task_group e p (cgroup_task_group e p)"
  define k1 where "k1 = (if on_rq (tasks k p) then dequeue_task e p 0 k else k)"
  define k2 where "k2 = (if task_current k p then put_prev_task_op (ops e k1 p) p k1 else k1)"
  define k3 where "k3 = upd_task p (sched_task_group_update (\<lambda>_. tg)) k2"
  define k4 where "k4 = (case task_move_group_op (ops e k3 p) of Some f \<Rightarrow> f p (on_rq (tasks k p)) k3 | None \<Rightarrow> k3)"
  define k5 where "k5 = (if task_current k p then set_curr_task_op (ops e k4 p) k4 else k4)"
  define k6 where "k6 = (if on_rq (tasks k p) then enqueue_task e p 0 k5 else k5)"
  note o = off_queue [OF e inv, of p 0, folded k1_def]
  have k12: "sched_keep k1 k2" unfolding k2_def by (rule keep_put_prev [OF e]) (rule change_ok [OF inv o(2,1)])
  note ok = change_ok [OF inv sched_frame_trans [OF o(2) sched_keep_frame [OF k12]] sched_inv_q_keep [OF o(1) k12], of p]
  have t: "k3 = upd_task p (\<lambda>_. tasks k3 p) k2" by (simp add: k3_def)
  have w: "well_changed (tasks k2 p) (tasks k3 p)"
    using ok env_okD(11) [OF e] by (simp add: k3_def tg_def well_changed_def task_ok_def)
  have cl: "sched_class (tasks k3 p) \<noteq> Stop_Class" using ok(3) by (simp add: k3_def)
  have k34: "sched_keep k3 k4"
    using class_contract.move_group [OF class_ops_contract [OF e cl]] by (auto simp: k4_def split: option.split)
  have "sched_keep k4 k5"
    unfolding k5_def using cl frame_class [OF sched_keep_frame [OF k34], of p] by (intro keep_set_curr [OF e]) simp
  then have "sched_keep k3 k5" using k34 sched_keep_trans by blast
  then have "good_step k k6" by (rule change_requeue [OF e inv p k1_def k12 t w _ k6_def])
  then show ?thesis
    unfolding sched_move_task_def Let_def k1_def k2_def k3_def k4_def k5_def k6_def tg_def .
qed

lemma normalize_task_step:
  assumes e: "env_ok e" and inv: "run_inv k" and p: "p < PID_MAX_LIMIT" "p \<noteq> idle (rq k)"
  shows "good_step k (normalize_task e p k)"
proof -
  define k1 where "k1 = (if on_rq (tasks k p) then dequeue_task e p 0 k else k)"
  define k2 where "k2 = setscheduler e p SCHED_NORMAL 0 k1"
  define k3 where "k3 = (if on_rq (tasks k p) then enqueue_task e p 0 k2 else k2)"
  note o = off_queue [OF e inv, of p 0, folded k1_def]
  note ok = change_ok [OF inv o(2,1), of p]
  obtain t where t: "k2 = upd_task p (\<lambda>_. t) k1" "well_changed (tasks k1 p) t"
    using setscheduler_changed [OF e ok(1,2), of 0 SCHED_NORMAL] unfolding k2_def by (auto simp: prio_consts)
  have "good_step k k3" by (rule change_requeue [OF e inv p k1_def sched_keep_refl t sched_keep_refl k3_def])
  then have "good_step k (if on_rq (tasks k p) then resched_task (curr (rq k3)) k3 else k3)"
    using good_step_resched by auto
  then have "good_step k (check_class_changed e p (sched_class (tasks k p)) (prio (tasks k p))
      (if on_rq (tasks k p) then resched_task (curr (rq k3)) k3 else k3))"
    using good_step_class_changed [OF e _ inv_task(3) [OF inv]] by blast
  moreover have "normalize_task e p k = check_class_changed e p (sched_class (tasks k p)) (prio (tasks k p))
      (if on_rq (tasks k p) then resched_task (curr (rq k3)) k3 else k3)"
    by (simp add: normalize_task_def Let_def k1_def k2_def k3_def)
  ultimately show ?thesis by simp
qed

lemma normalize_one_step:
  assumes e: "env_ok e" and inv: "run_inv k" and p: "p < PID_MAX_LIMIT" "p \<noteq> idle (rq k)"
  shows "good_step k (normalize_one e p k)"
proof -
  let ?k = "upd_task p (p_se_update (exec_start_update (\<lambda>_. 0))) k"
  have r: "good_step k k" using good_step_refl [OF inv] .
  have keep: "sched_keep k ?k" by (rule keep_task_stat) (simp_all add: task_static_def)
  have g: "good_step k ?k" by (rule keep_good_step [OF inv keep])
  have i: "run_inv ?k" by (rule run_inv_keep [OF inv keep])
  have "good_step k (set_user_nice e p 0 ?k)" "good_step k (normalize_task e p ?k)"
    by (rule good_step_trans [OF g set_user_nice_step [OF e i p(1)]] good_step_trans [OF g normalize_task_step [OF e i p(1)]];
        simp add: p)+
  then show ?thesis using r g unfolding normalize_one_def Let_def by simp
qed

lemma normalize_rt_tasks_step:
  assumes e: "env_ok e" and inv: "run_inv k" and ths: "\<forall>p\<in>set (threads k). p < PID_MAX_LIMIT \<and> p \<noteq> idle (rq k)"
  shows "good_step k (normalize_rt_tasks e k)"
proof -
  have "good_step k (fold (normalize_one e) ps k)" if "\<forall>p\<in>set ps. p < PID_MAX_LIMIT \<and> p \<noteq> idle (rq k)" "run_inv k" for ps k
    using that
  proof (induction ps arbitrary: k)
    case (Cons p ps)
    have s: "good_step k (normalize_one e p k)" using normalize_one_step [OF e] Cons.prems by simp
    then have "run_inv (normalize_one e p k)" "idle (rq (normalize_one e p k)) = idle (rq k)" by (simp_all add: good_step_def)
    then show ?case using Cons good_step_trans [OF s] by simp
  qed (simp add: good_step_refl)
  then show ?thesis using assms by (simp add: normalize_rt_tasks_def)
qed

section \<open>Choosing the next task\<close>

lemma card_queued_bound:
  assumes "sched_inv_q Q k"
  shows "card (rt_queued k) \<le> PID_MAX_LIMIT" "card (wrr_queued k) \<le> PID_MAX_LIMIT"
proof -
  note D = sched_inv_qD(1,2) [OF assms]
  have "rt_queued k \<subseteq> {..<PID_MAX_LIMIT}"
    using rt_wfD(3) [of k] D(2) by (fastforce simp: rt_inv_def rt_queued_def on_rt_rq_iff belongs_def)
  from card_mono [OF _ this] show "card (rt_queued k) \<le> PID_MAX_LIMIT" by simp
  have "wrr_queued k \<subseteq> {..<PID_MAX_LIMIT}" using wrr_invD(2) [OF D(1)] by (simp add: wrr_queued_def)
  from card_mono [OF _ this] show "card (wrr_queued k) \<le> PID_MAX_LIMIT" by simp
qed

text \<open>
  The test of the fast path, \<^verbatim>\<open>rq->nr_running == rq->cfs.h_nr_running\<close>, says that neither
  queueing class has a task.
\<close>

lemma only_fair_iff:
  assumes "sched_inv_q Q k"
  shows "nr_running (rq k) = h_nr_running (rq k) \<longleftrightarrow> rt_queued k = {} \<and> wrr_queued k = {}"
proof -
  note D = sched_inv_qD [OF assms]
  let ?n = "card (rt_queued k) + card (wrr_queued k)"
  have b: "?n < 2 ^ 32" using card_queued_bound [OF assms] by (simp add: PID_MAX_LIMIT_def)
  have "nr_running (rq k) = h_nr_running (rq k) \<longleftrightarrow> excess k = 0" by (simp add: excess_def)
  also have "\<dots> \<longleftrightarrow> (of_nat ?n :: ulong) = of_nat 0" using D(8) by simp
  also have "\<dots> \<longleftrightarrow> ?n = 0" using of_nat_word32_inj [OF b, of 0] by auto
  finally show ?thesis using finite_rt_queued [OF D(2)] by auto
qed

lemma pick_rt_cases:
  assumes "rt_inv k"
  obtains "pick_next_task_rt k = (None, k)"
  | p where "pick_next_task_rt k = (Some p, set_exec_start p k)" "p \<in> rt_queued k"
  using pick_next_task_rt_cases [OF assms] by (auto simp: rt_queued_def split: if_splits)

lemma pick_wrr_cases:
  assumes "wrr_inv k"
  obtains "pick_next_task_wrr k = (None, k)" "active (wrr (rq k)) = [] \<or> wrr_throttled k"
  | p where "pick_next_task_wrr k = (Some p, set_exec_start p k)" "p \<in> wrr_queued k" "p = hd (active (wrr (rq k)))"
    "active (wrr (rq k)) \<noteq> []" "\<not> wrr_throttled k"
  using wrr_nr_running_0_iff [OF assms]
  by (cases "active (wrr (rq k))"; cases "wrr_throttled k")
    (auto simp: pick_next_task_wrr_def Let_def pick_next_wrr_entity_def wrr_queued_def)

definition pick_by_class :: "'f env \<Rightarrow> 'f kernel \<Rightarrow> tid option \<times> 'f kernel" where
  "pick_by_class e k =
     (case pick_next_task_rt k of (Some p, k') \<Rightarrow> (Some p, k') | (None, _) \<Rightarrow>
     (case pick_next_task_wrr k of (Some p, k') \<Rightarrow> (Some p, k') | (None, _) \<Rightarrow>
     (case pick_next_task_op (fair_class e) k of (Some p, k') \<Rightarrow> (Some p, k') | (None, _) \<Rightarrow>
      pick_next_task_op (idle_class e) k)))"

lemma pick_first_by_class:
  assumes e: "env_ok e" and inv: "sched_inv_q Q k"
  shows "pick_first e (all_classes e) k = pick_by_class e k"
proof -
  note D = sched_inv_qD [OF inv]
  obtain cs where cs: "all_classes e = [Stop_Class, Rt_Class, Wrr_Class, Fair_Class, Idle_Class] @ cs"
    using all_classes_eq [OF e] by blast
  obtain ki where ki: "pick_next_task_op (idle_class e) k = (Some (idle (rq k)), ki)"
    using env_okD(8) [OF e, of k] by (cases "pick_next_task_op (idle_class e) k") auto
  have c: "pick_next_task_op (class_ops e Rt_Class) = pick_next_task_rt" "pick_next_task_op (class_ops e Wrr_Class) = pick_next_task_wrr"
    "pick_next_task_op (class_ops e Stop_Class) k = (None, k)" "class_ops e Fair_Class = fair_class e" "class_ops e Idle_Class = idle_class e"
    using env_okD(5) [OF e D(6)] by (simp_all add: class_ops_def rt_sched_class_def wrr_sched_class_def)
  obtain fo fk where f: "pick_next_task_op (fair_class e) k = (fo, fk)" "fo = None \<Longrightarrow> fk = k"
    using env_okD(7) [OF e] by (metis surj_pair)
  show ?thesis
    by (rule pick_rt_cases [OF D(2)]; rule pick_wrr_cases [OF D(1)]; cases fo)
      (simp_all add: cs c pick_by_class_def ki f)
qed

lemma pick_next_task_by_class:
  assumes e: "env_ok e" and inv: "sched_inv_q Q k"
  shows "pick_next_task e k = pick_by_class e k"
proof (cases "nr_running (rq k) = h_nr_running (rq k)")
  case False
  then show ?thesis using pick_first_by_class [OF assms] by (simp add: pick_next_task_def)
next
  case True
  note D = sched_inv_qD [OF inv]
  have emp: "rt_queued k = {}" "wrr_queued k = {}" using only_fair_iff [OF inv] True by auto
  have n: "pick_next_task_rt k = (None, k)" "pick_next_task_wrr k = (None, k)"
    by (rule pick_rt_cases [OF D(2)]; use emp in simp) (rule pick_wrr_cases [OF D(1)]; use emp in simp)
  obtain fo fk where f: "pick_next_task_op (fair_class e) k = (fo, fk)" "fo = None \<Longrightarrow> fk = k"
    using env_okD(7) [OF e] by (metis surj_pair)
  show ?thesis
    using True pick_first_by_class [OF assms] by (cases fo) (simp_all add: pick_next_task_def pick_by_class_def n f)
qed

lemma pick_next_task_keep:
  assumes e: "env_ok e" and inv: "sched_inv_q Q k"
  obtains p k' where "pick_next_task e k = (Some p, k')" "sched_keep k k'"
    "Q p \<or> p = idle (rq k) \<or> on_rq (tasks k p)"
proof -
  note D = sched_inv_qD [OF inv]
  obtain ki where ki: "pick_next_task_op (idle_class e) k = (Some (idle (rq k)), ki)"
    using env_okD(8) [OF e, of k] by (cases "pick_next_task_op (idle_class e) k") auto
  obtain fo fk where f: "pick_next_task_op (fair_class e) k = (fo, fk)" by (metis surj_pair)
  have x: "sched_keep k ki" "sched_keep k fk"
    using env_okD(3,4) [OF e] ki f by (auto simp: ext_class_def dest!: spec [of _ k] intro!: ext_keep_sched_keep)
  have on: "fo = Some p \<Longrightarrow> on_rq (tasks k p)" for p using env_okD(6) [OF e] f by blast
  have "\<exists>p k'. pick_by_class e k = (Some p, k') \<and> sched_keep k k' \<and> (Q p \<or> p = idle (rq k) \<or> on_rq (tasks k p))"
    by (rule pick_rt_cases [OF D(2)]; rule pick_wrr_cases [OF D(1)]; cases fo)
      (use D(3,4) x on in \<open>simp_all add: pick_by_class_def ki f\<close>)
  then show ?thesis using that pick_next_task_by_class [OF assms] by auto
qed

section \<open>The main scheduling function\<close>

text \<open>Like \<open>good_step\<close>, but a task may leave the run queue.\<close>

definition sleep_step :: "'f kernel \<Rightarrow> 'f kernel \<Rightarrow> bool" where
  "sleep_step k k' \<longleftrightarrow> run_inv k' \<and> panicked k' = panicked k \<and> curr (rq k') = curr (rq k) \<and> idle (rq k') = idle (rq k) \<and>
     (\<forall>q. (need_resched (tasks k' q) \<longrightarrow> need_resched (tasks k q) \<or> q = curr (rq k)) \<and>
        (tsk_state (tasks k' q) = tsk_state (tasks k q) \<or> tsk_state (tasks k' q) = TASK_RUNNING))"

lemma good_sleep_step: "good_step k k' \<Longrightarrow> sleep_step k k'"
  by (simp add: good_step_def sleep_step_def)

lemma sleep_step_trans: "sleep_step k k' \<Longrightarrow> sleep_step k' k'' \<Longrightarrow> sleep_step k k''"
  unfolding sleep_step_def by metis

lemma sleep_step_keep: "sleep_step k k' \<Longrightarrow> sched_keep k' k'' \<Longrightarrow> sleep_step k k''"
  using sleep_step_trans good_sleep_step keep_good_step by (metis sleep_step_def)

lemma deactivate_step:
  assumes e: "env_ok e" and inv: "run_inv k" and p: "on_rq (tasks k p)"
  shows "sleep_step k (upd_task p (on_rq_update (\<lambda>_. False)) (deactivate_task e p fl k))"
proof -
  let ?k = "if task_contributes_to_load (tasks k p) then rq_update (nr_uninterruptible_update (\<lambda>n. n + 1)) k else k"
  let ?a = "deactivate_task e p fl k" and ?Q = "\<lambda>q. on_rq (tasks k q)"
  let ?u = "upd_task p (on_rq_update (\<lambda>_. False)) ?a"
  have keep: "sched_keep k ?k" by (auto intro!: keep_rq_stat)
  have q: "sched_inv_q ?Q ?k" using inv sched_inv_q_keep [OF _ keep] by (simp only: run_inv_def)
  note E = dequeue_task_inv [OF e q p, of fl, folded deactivate_task_def]
  have fr: "sched_frame k ?a" using E(2) sched_frame_trans [OF sched_keep_frame [OF keep]] by blast
  have "sched_inv_q (?Q(p := False)) ?u" using E(1) set_on_rq_inv by blast
  then have "run_inv ?u" unfolding run_inv_def on_rq_fun frame_on_rq [OF fr] .
  moreover have "need_resched (tasks ?u q) = need_resched (tasks ?a q)" "tsk_state (tasks ?u q) = tsk_state (tasks ?a q)" for q
    by simp_all
  moreover have "curr (rq ?u) = curr (rq k)" "idle (rq ?u) = idle (rq k)" "panicked ?u = panicked k"
    using sched_frameD(2-4) [OF fr] by simp_all
  ultimately show ?thesis using sched_frameD(5,6) [OF fr] by (simp only: sleep_step_def) blast
qed

lemma deactivate_prev_step:
  assumes e: "env_ok e" and inv: "run_inv k" and p: "on_rq (tasks k p)"
  shows "sleep_step k (deactivate_prev e p k)"
proof -
  let ?k = "upd_task p (on_rq_update (\<lambda>_. False)) (deactivate_task e p DEQUEUE_SLEEP k)"
  note d = deactivate_step [OF assms, of DEQUEUE_SLEEP]
  have "sleep_step k (upd_task p (tsk_state_update (\<lambda>_. TASK_RUNNING)) k)"
    using good_sleep_step [OF keep_good_step [OF inv set_running_keep]] .
  moreover have "sleep_step k (try_to_wake_up_local e q ?k)" if "q < PID_MAX_LIMIT" for q
    using sleep_step_trans [OF d good_sleep_step [OF try_to_wake_up_local_step [OF e _ that]]] d
    by (simp add: sleep_step_def)
  ultimately show ?thesis
    using d env_okD(10) [OF e, of ?k p] by (simp add: deactivate_prev_def Let_def split: option.split)
qed

lemma deactivate_prev_off:
  assumes e: "env_ok e" and inv: "run_inv k" and p: "on_rq (tasks k (curr (rq k)))"
    and s: "\<not> signal_pending_state (tsk_state (curr_task k)) (curr_task k)"
  shows "\<not> on_rq (tasks (deactivate_prev e (curr (rq k)) k) (curr (rq k)))"
proof -
  let ?p = "curr (rq k)"
  let ?k = "upd_task ?p (on_rq_update (\<lambda>_. False)) (deactivate_task e ?p DEQUEUE_SLEEP k)"
  have d: "run_inv ?k" "curr (rq ?k) = ?p" using deactivate_step [OF e inv p, of DEQUEUE_SLEEP] by (auto simp: sleep_step_def)
  have "on_rq (tasks (try_to_wake_up_local e q ?k) ?p) = on_rq (tasks ?k ?p)" if "q < PID_MAX_LIMIT" for q
    using try_to_wake_up_local_others [OF e d(1) that] d(2) by (cases "q = ?p") (auto simp: try_to_wake_up_local_def)
  then show ?thesis
    using s env_okD(10) [OF e, of ?k ?p] by (simp add: deactivate_prev_def Let_def split: option.split)
qed

lemma run_inv_switch: "run_inv (rq_update (\<lambda>r. r\<lparr>nr_switches := n r, curr := c\<rparr>) k) = run_inv k"
proof -
  let ?k = "rq_update (\<lambda>r. r\<lparr>nr_switches := n r, curr := c\<rparr>) k"
  have "wrr_inv ?k = wrr_inv k" by (rule wrr_inv_cong) simp_all
  moreover have "rt_inv ?k = rt_inv k" "on_rt_rq ?k s = on_rt_rq k s" for s by (rule rt_inv_cong; simp)+
  ultimately show ?thesis
    by (simp add: run_inv_def sched_inv_q_def wrr_queued_def rt_queued_def excess_def)
qed

lemma keep_preempt_count: "sched_keep k (upd_task p (preempt_count_update f) k)"
  by (rule keep_task_stat) (simp_all add: task_static_def)

lemma put_prev_task_keep:
  assumes "env_ok e" "run_inv k"
  shows "sched_keep k (put_prev_task e p k)"
proof -
  let ?k = "if on_rq (tasks k p) \<or> skip_clock_update (rq k) < 0 then update_rq_clock k else k"
  have k: "sched_keep k ?k" by simp
  have "sched_class (tasks ?k p) \<noteq> Stop_Class" by (rule inv_task(3) [OF run_inv_keep [OF assms(2) k]])
  from sched_keep_trans [OF k keep_put_prev [OF assms(1) this, of True]] show ?thesis
    by (simp add: put_prev_task_def Let_def)
qed

text \<open>What one pass has done when the context is switched, up to the switch.\<close>

lemma schedule_pass_picks:
  assumes e: "env_ok e" and inv: "sched_inv k"
  defines "prev \<equiv> curr (rq k)"
  obtains nxt k4 where "sleep_step k k4" "on_rq (tasks k4 nxt) \<or> nxt = idle (rq k)"
    "tsk_state (tasks k prev) = 0 \<or> (preempt_count (tasks k prev) + 1) AND PREEMPT_ACTIVE \<noteq> 0 \<Longrightarrow> sched_keep k k4"
    "tsk_state (tasks k prev) \<noteq> 0 \<Longrightarrow> (preempt_count (tasks k prev) + 1) AND PREEMPT_ACTIVE = 0 \<Longrightarrow>
     \<not> signal_pending_state (tsk_state (tasks k prev)) (tasks k prev) \<Longrightarrow> \<not> on_rq (tasks k4 prev)"
    "schedule_pass e k =
       (let k5 = rq_update (skip_clock_update_update (\<lambda>_. 0)) (clear_tsk_need_resched prev k4);
            vol = (tsk_state (tasks k prev) \<noteq> 0 \<and> (preempt_count (tasks k prev) + 1) AND PREEMPT_ACTIVE = 0);
            k6 = (if prev \<noteq> nxt then
                         let ka = rq_update (\<lambda>r. r\<lparr>nr_switches := nr_switches r + 1, curr := nxt\<rparr>) k5;
                             kb = (if vol then upd_task prev (nvcsw_update (\<lambda>n. n + 1)) ka
                                   else upd_task prev (nivcsw_update (\<lambda>n. n + 1)) ka)
                         in ext_call (Context_Switch prev nxt) kb
                       else k5)
             in preempt_enable_no_resched k6)"
proof -
  define k1 where "k1 = schedule_debug (preempt_disable k)"
  have keep1: "sched_keep k k1"
    unfolding k1_def preempt_disable_def schedule_debug_def
    by (rule sched_keep_trans [OF keep_preempt_count keep_rq_stat]) simp
  have inv1: "sched_inv k1" by (rule sched_inv_keep [OF inv keep1])
  have c1: "curr (rq k1) = prev" using sched_keepD(2) [OF keep1] by (simp add: prev_def)
  define vol where "vol = (tsk_state (tasks k prev) \<noteq> 0 \<and> (preempt_count (tasks k prev) + 1) AND PREEMPT_ACTIVE = 0)"
  have v1: "(tsk_state (tasks k1 prev) \<noteq> 0 \<and> preempt_count (tasks k1 prev) AND PREEMPT_ACTIVE = 0) = vol"
    by (simp add: vol_def k1_def schedule_debug_def preempt_disable_def prev_def)
  define k2 where "k2 = (if vol then deactivate_prev e prev k1 else k1)"
  have s1: "sleep_step k k1" using good_sleep_step keep_good_step keep1 inv by (auto simp: sched_inv_def)
  have on1: "vol \<Longrightarrow> on_rq (tasks k1 prev)"
    using inv1 c1 v1 by (auto simp: sched_inv_def curr_ok_def TASK_RUNNING_def)
  then have s2: "sleep_step k k2"
    using s1 sleep_step_trans [OF s1 deactivate_prev_step [OF e]] inv1 by (auto simp: k2_def sched_inv_def)
  define k3 where "k3 = put_prev_task e prev k2"
  have s3: "sleep_step k k3"
    using sleep_step_keep [OF s2 put_prev_task_keep [OF e]] s2 by (simp add: k3_def sleep_step_def)
  then have q3: "sched_inv_q (\<lambda>q. on_rq (tasks k3 q)) k3" by (simp add: sleep_step_def run_inv_def)
  obtain nxt k4 where p: "pick_next_task e k3 = (Some nxt, k4)" "sched_keep k3 k4" "on_rq (tasks k3 nxt) \<or> nxt = idle (rq k3)"
    using pick_next_task_keep [OF e q3] by blast
  have s4: "sleep_step k k4" by (rule sleep_step_keep [OF s3 p(2)])
  have "on_rq (tasks k4 nxt) \<or> nxt = idle (rq k)"
    using p(3) task_staticD(1) [OF sched_keepD(1) [OF p(2)]] s3 by (simp add: sleep_step_def)
  moreover note s4
  moreover have k34: "run_inv k2" "sched_keep k2 k4"
    using sched_keep_trans [OF put_prev_task_keep [OF e] p(2) [unfolded k3_def]] s2 by (simp_all add: sleep_step_def)
  then have "sched_keep k k4" if "\<not> vol" using that sched_keep_trans [OF keep1] by (simp add: k2_def)
  moreover have "\<not> on_rq (tasks k4 prev)"
    if vol "\<not> signal_pending_state (tsk_state (tasks k prev)) (tasks k prev)"
  proof -
    have "signal_pending_state st (tasks k1 prev) = signal_pending_state st (tasks k prev)" for st
      by (simp add: k1_def schedule_debug_def preempt_disable_def signal_pending_state_def)
    moreover have "tsk_state (tasks k1 prev) = tsk_state (tasks k prev)" by (simp add: k1_def schedule_debug_def preempt_disable_def)
    ultimately have "\<not> on_rq (tasks k2 prev)"
      using that deactivate_prev_off [OF e, of k1, unfolded c1] inv1 on1 by (simp add: k2_def sched_inv_def)
    then show ?thesis using task_staticD(1) [OF sched_keepD(1) [OF k34(2)]] by blast
  qed
  moreover have "schedule_pass e k = (case pick_next_task e k3 of
           (None, k4) \<Rightarrow> k4
         | (Some nxt, k4) \<Rightarrow>
             let k5 = rq_update (skip_clock_update_update (\<lambda>_. 0)) (clear_tsk_need_resched prev k4);
                 k6 = (if prev \<noteq> nxt then
                         let ka = rq_update (\<lambda>r. r\<lparr>nr_switches := nr_switches r + 1, curr := nxt\<rparr>) k5;
                             kb = (if vol then upd_task prev (nvcsw_update (\<lambda>n. n + 1)) ka
                                   else upd_task prev (nivcsw_update (\<lambda>n. n + 1)) ka)
                         in ext_call (Context_Switch prev nxt) kb
                       else k5)
             in preempt_enable_no_resched k6)"
    unfolding schedule_pass_def k3_def k2_def v1 [symmetric] unfolding c1 [symmetric] unfolding k1_def Let_def ..
  ultimately show ?thesis using that p(1) unfolding vol_def by simp
qed

end
