(* ===== verification/Core_Loop.thy ===== *)
theory Core_Loop
  imports Core_Run
begin

text \<open>
  The main scheduling function as a whole: a pass keeps the invariant and withdraws the request
  to reschedule of the task it leaves, so that the loop ends; and the ticks, timers and forks
  that happen in between.
\<close>

section \<open>One pass\<close>

lemma sleep_stepD:
  assumes "sleep_step k k'"
  shows "run_inv k'" "panicked k' = panicked k" "curr (rq k') = curr (rq k)" "idle (rq k') = idle (rq k)"
    "need_resched (tasks k' q) \<Longrightarrow> need_resched (tasks k q) \<or> q = curr (rq k)"
    "tsk_state (tasks k' q) = tsk_state (tasks k q) \<or> tsk_state (tasks k' q) = TASK_RUNNING"
  using assms by (auto simp: sleep_step_def)

lemma keep_clear_resched: "sched_keep k (clear_tsk_need_resched p k)"
  by (rule sched_keepI) (auto simp: clear_tsk_need_resched_def task_static_def excess_def split: if_splits)

lemma keep_switch_counts: "sched_keep k (upd_task p (nvcsw_update f) k)" "sched_keep k (upd_task p (nivcsw_update f) k)"
  by (rule keep_task_stat; simp add: task_static_def)+

text \<open>The tail of the pass: the flag of the old task is cleared, the new task becomes current.\<close>

definition switch_tail :: "tid \<Rightarrow> bool \<Rightarrow> tid \<Rightarrow> 'f kernel \<Rightarrow> 'f kernel" where
  "switch_tail prev vol nxt k4 =
     (let k5 = rq_update (skip_clock_update_update (\<lambda>_. 0)) (clear_tsk_need_resched prev k4);
          k6 = (if prev \<noteq> nxt then
                  let ka = rq_update (\<lambda>r. r\<lparr>nr_switches := nr_switches r + 1, curr := nxt\<rparr>) k5;
                      kb = (if vol then upd_task prev (nvcsw_update (\<lambda>n. n + 1)) ka
                            else upd_task prev (nivcsw_update (\<lambda>n. n + 1)) ka)
                  in ext_call (Context_Switch prev nxt) kb
                else k5)
      in preempt_enable_no_resched k6)"

lemma switch_tail_fields:
  assumes "prev = curr (rq k4)"
  shows "curr (rq (switch_tail prev vol nxt k4)) = nxt" "idle (rq (switch_tail prev vol nxt k4)) = idle (rq k4)"
    "panicked (switch_tail prev vol nxt k4) = panicked k4"
    "on_rq (tasks (switch_tail prev vol nxt k4) q) = on_rq (tasks k4 q)"
    "tsk_state (tasks (switch_tail prev vol nxt k4) q) = tsk_state (tasks k4 q)"
    "need_resched (tasks (switch_tail prev vol nxt k4) q) \<longleftrightarrow> need_resched (tasks k4 q) \<and> q \<noteq> prev"
  using assms
  by (auto simp: switch_tail_def Let_def clear_tsk_need_resched_def ext_call_def preempt_enable_no_resched_def)

lemma switch_tail_inv:
  assumes "run_inv k4"
  shows "run_inv (switch_tail prev vol nxt k4)"
proof -
  let ?k5 = "rq_update (skip_clock_update_update (\<lambda>_. 0)) (clear_tsk_need_resched prev k4)"
  let ?ka = "rq_update (\<lambda>r. r\<lparr>nr_switches := nr_switches r + 1, curr := nxt\<rparr>) ?k5"
  have k5: "run_inv ?k5" by (rule run_inv_keep [OF run_inv_keep [OF assms keep_clear_resched] keep_skip_clock])
  then have "run_inv ?ka" by (simp only: run_inv_switch)
  then have "run_inv (if vol then upd_task prev (nvcsw_update (\<lambda>n. n + 1)) ?ka
      else upd_task prev (nivcsw_update (\<lambda>n. n + 1)) ?ka)"
    by (cases vol) (simp_all only: if_True if_False run_inv_keep [OF _ keep_switch_counts(1)] run_inv_keep [OF _ keep_switch_counts(2)])
  from run_inv_keep [OF this keep_ext_call] k5 show ?thesis
    unfolding switch_tail_def preempt_enable_no_resched_def Let_def
    by (intro run_inv_keep [OF _ keep_preempt_count]) (cases "prev = nxt"; simp)
qed

lemma schedule_pass_inv:
  assumes e: "env_ok e" and inv: "sched_inv k"
  shows "sched_inv (schedule_pass e k)" "panicked (schedule_pass e k) = panicked k"
    "idle (rq (schedule_pass e k)) = idle (rq k)"
    "need_resched (tasks (schedule_pass e k) q) \<Longrightarrow> need_resched (tasks k q) \<and> q \<noteq> curr (rq k)"
proof -
  let ?prev = "curr (rq k)"
  define vol where "vol = (tsk_state (tasks k ?prev) \<noteq> 0 \<and> (preempt_count (tasks k ?prev) + 1) AND PREEMPT_ACTIVE = 0)"
  obtain nxt k4 where s: "sleep_step k k4" and n: "on_rq (tasks k4 nxt) \<or> nxt = idle (rq k)"
    and eq: "schedule_pass e k = switch_tail ?prev vol nxt k4"
    by (rule schedule_pass_picks [OF assms]) (simp only: switch_tail_def Let_def vol_def)
  note S = sleep_stepD [OF s]
  note T = switch_tail_fields [OF S(3) [symmetric], of vol nxt]
  have idl: "tsk_state (tasks k4 (idle (rq k))) = TASK_RUNNING"
    using S(6) [of "idle (rq k)"] inv unfolding sched_inv_def curr_ok_def by metis
  have "curr_ok (switch_tail ?prev vol nxt k4)"
    unfolding curr_ok_def T(1,2,4,5) S(4) using n idl by blast
  then show "sched_inv (schedule_pass e k)"
    using switch_tail_inv [OF S(1)] unfolding eq sched_inv_def by blast
  show "panicked (schedule_pass e k) = panicked k" "idle (rq (schedule_pass e k)) = idle (rq k)"
    unfolding eq T S by (rule refl)+
  show "need_resched (tasks (schedule_pass e k) q) \<Longrightarrow> need_resched (tasks k q) \<and> q \<noteq> ?prev"
    unfolding eq T using S(5) [of q] by blast
qed

section \<open>The loop ends\<close>

lemma schedule_loop_ends:
  assumes e: "env_ok e" and "finite {p. need_resched (tasks k p)}" and "sched_inv k" "\<not> panicked k"
  shows "\<exists>k'. schedule_loop e k = Some k' \<and> sched_inv k' \<and> \<not> panicked k' \<and> \<not> need_resched (curr_task k') \<and>
    idle (rq k') = idle (rq k) \<and> {p. need_resched (tasks k' p)} \<subseteq> {p. need_resched (tasks k p)}"
  using assms(2-)
proof (induction "card {p. need_resched (tasks k p) \<or> p = curr (rq k)}" arbitrary: k rule: less_induct)
  case less
  let ?k = "schedule_pass e k" and ?F = "\<lambda>k. {p. need_resched (tasks k p)}"
  note P = schedule_pass_inv [OF e less.prems(2)]
  have sub: "?F ?k \<subseteq> ?F k - {curr (rq k)}" using P(4) by blast
  then have fin: "finite (?F ?k)" using less.prems(1) by (meson finite_Diff finite_subset)
  show ?case
  proof (cases "need_resched (curr_task ?k)")
    case False
    then show ?thesis
      using P less.prems(3) sub by (subst schedule_loop.simps) (auto simp: Let_def)
  next
    case True
    have eqF: "{p. need_resched (tasks k p) \<or> p = curr (rq k)} = insert (curr (rq k)) (?F k)" for k :: "'a kernel" by auto
    have "insert (curr (rq ?k)) (?F ?k) = ?F ?k" using True by auto
    moreover have "card (?F ?k) < card (insert (curr (rq k)) (?F k))"
      using sub less.prems(1) by (intro psubset_card_mono) auto
    ultimately have "card {p. need_resched (tasks ?k p) \<or> p = curr (rq ?k)} < card {p. need_resched (tasks k p) \<or> p = curr (rq k)}"
      unfolding eqF by simp
    from less.hyps [OF this fin P(1)] obtain k' where k': "schedule_loop e ?k = Some k'" "sched_inv k'" "\<not> panicked k'"
      "\<not> need_resched (curr_task k')" "idle (rq k') = idle (rq ?k)" "?F k' \<subseteq> ?F ?k"
      using P(2) less.prems(3) by auto
    then show ?thesis
      using True P(2,3) less.prems(3) sub by (subst schedule_loop.simps) (auto simp: Let_def)
  qed
qed

section \<open>Ticks, yielding and timers\<close>

lemma scheduler_tick_keep:
  assumes e: "env_ok e" and inv: "sched_inv k"
  shows "sched_keep k (scheduler_tick e k)"
proof -
  let ?k = "update_cpu_load_active (update_rq_clock k)"
  have keep: "sched_keep k ?k" by (rule sched_keep_trans [OF keep_update_rq_clock keep_update_cpu_load_active])
  have k: "sched_inv ?k" by (rule sched_inv_keep [OF inv keep])
  have c: "curr (rq ?k) = curr (rq k)" by (rule sched_keepD(2) [OF keep])
  have "run_inv ?k" using k by (simp only: sched_inv_def)
  then have "class_contract (ops e ?k (curr (rq ?k))) (sched_class (curr_task ?k))"
    unfolding run_inv_def by (rule ops_contract [OF e])
  from class_contract.tick [OF this k refl, of False] show ?thesis
    unfolding scheduler_tick_def Let_def c by (rule sched_keep_trans [OF keep])
qed

lemma yield_keep:
  assumes e: "env_ok e" and inv: "sched_inv k"
  shows "sched_keep k (yield_task_op (ops e k (curr (rq k))) k)"
proof -
  have "run_inv k" using inv by (simp only: sched_inv_def)
  then have "class_contract (ops e k (curr (rq k))) (sched_class (curr_task k))"
    unfolding run_inv_def by (rule ops_contract [OF e])
  from class_contract.yield [OF this inv refl] show ?thesis .
qed

lemma rt_period_timer_keep: "sched_keep k (snd (do_sched_rt_period_timer g n k))"
proof -
  let ?t = "snd (do_sched_rt_period_timer g n k)"
  obtain k1 where t: "?t = (if timer_enqueues n (rt_rqs k g) then sched_rt_rq_enqueue g k1 else k1)"
    and fr: "rt_frame_clock k k1" using do_sched_rt_period_timer_half by blast
  obtain c where k1: "tasks k1 = tasks k" "panicked k1 = panicked k" "rq k1 = (rq k)\<lparr>skip_clock_update := c\<rparr>"
    using fr by (auto simp: rt_frame_clock_def)
  have en: "rq (sched_rt_rq_enqueue g k1) = rq k1" "panicked (sched_rt_rq_enqueue g k1) = panicked k1"
    "\<And>p. task_static (tasks (sched_rt_rq_enqueue g k1) p) = task_static (tasks k1 p)"
    "\<And>p. p_wrr (tasks (sched_rt_rq_enqueue g k1) p) = p_wrr (tasks k1 p)"
    "\<And>p. tsk_state (tasks (sched_rt_rq_enqueue g k1) p) = tsk_state (tasks k1 p)"
    "\<And>p. need_resched (tasks (sched_rt_rq_enqueue g k1) p) \<Longrightarrow> need_resched (tasks k1 p) \<or> p = curr (rq k1)"
    by (auto simp: sched_rt_rq_enqueue_def Let_def resched_task_def set_tsk_need_resched_def task_static_def
        split: option.splits if_splits)
  have w: "wrr_inv ?t = wrr_inv k" by (rule wrr_inv_cong) (simp_all add: t k1 en)
  have rt: "rt_inv k \<Longrightarrow> rt_inv ?t \<and> rt_queued ?t = rt_queued k"
    using do_sched_rt_period_timer_inv(1,3) by blast
  show ?thesis
    unfolding sched_keep_def w using rt en(6)
    by (auto simp: t k1 en wrr_queued_def excess_def)
qed

end
