(* ===== verification/Core_Fork.thy ===== *)
theory Core_Fork
  imports Core_Loop
begin

text \<open>
  New tasks: what \<^verbatim>\<open>sched_fork()\<close> makes of the copy of the parent, and the first wake-up.
\<close>

section \<open>Forking\<close>

text \<open>
  \<^verbatim>\<open>sched_fork()\<close> runs on the copy \<^verbatim>\<open>copy_process()\<close> has made of the current task, with its
  request to reschedule cleared.
\<close>

definition forked :: "'f env \<Rightarrow> tid \<Rightarrow> 'f kernel \<Rightarrow> 'f kernel" where
  "forked e p k = sched_fork e p (upd_task p (\<lambda>_. (curr_task k)\<lparr>need_resched := False\<rparr>) k)"

lemma detached_step:
  assumes inv: "run_inv k" and p: "\<not> on_rq (tasks k p)" "p \<noteq> idle (rq k)"
    and t: "task_ok t" "wrr_task_ok (p_wrr t)" "\<not> on_rq t" "\<not> need_resched t" "tsk_state t = TASK_RUNNING \<or> tsk_state t = tsk_state (tasks k p)"
  shows "good_step k (upd_task p (\<lambda>_. t) k)"
proof -
  let ?k = "upd_task p (\<lambda>_. t) k"
  have on: "(\<lambda>q. on_rq (tasks ?k q)) = (\<lambda>q. on_rq (tasks k q))" using p t by auto
  have "run_inv ?k"
    unfolding run_inv_def on using change_detached [OF _ _ p(2) t(1,2)] inv p(1) by (simp add: run_inv_def)
  then show ?thesis using p t by (auto simp: good_step_def split: if_splits)
qed

text \<open>The scheduling fields of a child, by the policy it inherits and the flag \<^verbatim>\<open>sched_reset_on_fork\<close>.\<close>

definition child_policy :: "task_struct \<Rightarrow> int" where
  "child_policy t = (if sched_reset_on_fork t \<and> task_has_rt_policy t then SCHED_NORMAL else policy t)"

definition child_static_prio :: "task_struct \<Rightarrow> int" where
  "child_static_prio t =
     (if sched_reset_on_fork t \<and> (task_has_rt_policy t \<or> PRIO_TO_NICE (static_prio t) < 0)
      then NICE_TO_PRIO 0 else static_prio t)"

definition child_prio :: "task_struct \<Rightarrow> int" where
  "child_prio t = (if sched_reset_on_fork t then child_static_prio t else normal_prio t)"

definition child_class :: "task_struct \<Rightarrow> class_id" where
  "child_class t = (if rt_prio (child_prio t) then sched_class t
     else if child_policy t = SCHED_WRR then Wrr_Class else Fair_Class)"

lemma upd_task_collapse:
  assumes "k = upd_task p (\<lambda>_. t) k0"
  shows "upd_task p f k = upd_task p (\<lambda>_. tasks (upd_task p f k) p) k0"
  unfolding assms by simp

lemma reset_on_fork_eq: "reset_on_fork p k = upd_task p (\<lambda>_. tasks (reset_on_fork p k) p) k"
  by (simp add: reset_on_fork_def set_load_weight_def Let_def)

lemma sched_fork_child:
  obtains t where "forked e p k =
      (let k4 = upd_task p (\<lambda>_. t) k
       in upd_task p (preempt_count_update (\<lambda>_. 1)) (case task_fork_op (ops e k4 p) of Some f \<Rightarrow> f p k4 | None \<Rightarrow> k4))"
    "policy t = child_policy (curr_task k)" "static_prio t = child_static_prio (curr_task k)"
    "prio t = child_prio (curr_task k)" "sched_class t = child_class (curr_task k)"
    "normal_prio t = (if sched_reset_on_fork (curr_task k) then child_static_prio (curr_task k) else normal_prio (curr_task k))"
    "p_wrr t = p_wrr (curr_task k)" "\<not> on_rq t" "\<not> need_resched t" "tsk_state t = TASK_RUNNING"
    "sched_task_group t = sched_task_group (curr_task k)" "\<not> sched_reset_on_fork t"
proof -
  define k0 where "k0 = upd_task p (\<lambda>_. (curr_task k)\<lparr>need_resched := False\<rparr>) k"
  define k1 where "k1 = upd_task p (tsk_state_update (\<lambda>_. TASK_RUNNING)) (sched_fork_init p k0)"
  define k2 where "k2 = upd_task p (prio_update (\<lambda>_. normal_prio (curr_task k1))) k1"
  define k3 where "k3 = (if sched_reset_on_fork (tasks k2 p) then reset_on_fork p k2 else k2)"
  define k4 where "k4 = (if \<not> rt_prio (prio (tasks k3 p))
                then upd_task p (sched_class_update (\<lambda>_.
                       if policy (tasks k3 p) = SCHED_WRR then Wrr_Class else Fair_Class)) k3
                else k3)"
  note defs = k0_def k1_def sched_fork_init_def
  have k1: "k1 = upd_task p (\<lambda>_. tasks k1 p) k" "rq k1 = rq k" "normal_prio (curr_task k1) = normal_prio (curr_task k)"
    by (simp_all add: defs)
  have k2: "k2 = upd_task p (\<lambda>_. tasks k2 p) k" unfolding k2_def by (rule upd_task_collapse [OF k1(1)])
  have "reset_on_fork p k2 = upd_task p (\<lambda>_. tasks (reset_on_fork p k2) p) k"
    using upd_task_collapse [OF k2, of "\<lambda>_. tasks (reset_on_fork p k2) p"] by (simp only: reset_on_fork_eq [symmetric])
  then have k3: "k3 = upd_task p (\<lambda>_. tasks k3 p) k" using k2 by (simp only: k3_def split: if_split) simp
  have k4: "k4 = upd_task p (\<lambda>_. tasks k4 p) k"
    using upd_task_collapse [OF k3] k3 by (simp only: k4_def split: if_split) blast
  have f2: "policy (tasks k2 p) = policy (curr_task k)" "static_prio (tasks k2 p) = static_prio (curr_task k)"
    "prio (tasks k2 p) = normal_prio (curr_task k)" "normal_prio (tasks k2 p) = normal_prio (curr_task k)"
    "sched_class (tasks k2 p) = sched_class (curr_task k)" "p_wrr (tasks k2 p) = p_wrr (curr_task k)"
    "\<not> on_rq (tasks k2 p)" "\<not> need_resched (tasks k2 p)" "tsk_state (tasks k2 p) = TASK_RUNNING"
    "sched_task_group (tasks k2 p) = sched_task_group (curr_task k)"
    "sched_reset_on_fork (tasks k2 p) = sched_reset_on_fork (curr_task k)"
    by (simp_all add: k2_def defs)
  have f3: "policy (tasks k3 p) = child_policy (curr_task k)" "static_prio (tasks k3 p) = child_static_prio (curr_task k)"
    "prio (tasks k3 p) = child_prio (curr_task k)" "sched_class (tasks k3 p) = sched_class (curr_task k)"
    "normal_prio (tasks k3 p) = (if sched_reset_on_fork (curr_task k) then child_static_prio (curr_task k) else normal_prio (curr_task k))"
    "p_wrr (tasks k3 p) = p_wrr (curr_task k)" "\<not> on_rq (tasks k3 p)" "\<not> need_resched (tasks k3 p)"
    "tsk_state (tasks k3 p) = TASK_RUNNING" "sched_task_group (tasks k3 p) = sched_task_group (curr_task k)"
    "\<not> sched_reset_on_fork (tasks k3 p)"
    using f2 by (cases "sched_reset_on_fork (curr_task k)";
        simp add: k3_def reset_on_fork_def set_load_weight_def Let_def child_policy_def child_static_prio_def child_prio_def
          task_has_rt_policy_def)+
  have eq: "forked e p k = upd_task p (preempt_count_update (\<lambda>_. 1)) (case task_fork_op (ops e k4 p) of Some f \<Rightarrow> f p k4 | None \<Rightarrow> k4)"
    unfolding forked_def sched_fork_def Let_def k0_def k1_def k2_def k3_def k4_def ..
  have f4: "tasks k4 p = (tasks k3 p)\<lparr>sched_class := child_class (curr_task k)\<rparr>"
    using f3(1,3,4) by (simp add: k4_def child_class_def)
  have "forked e p k = (let k4 = upd_task p (\<lambda>_. tasks k4 p) k
       in upd_task p (preempt_count_update (\<lambda>_. 1)) (case task_fork_op (ops e k4 p) of Some f \<Rightarrow> f p k4 | None \<Rightarrow> k4))"
    unfolding Let_def k4 [symmetric] by (rule eq)
  then show ?thesis by (rule that) (simp_all add: f4 f3)
qed

lemma child_ok:
  assumes "task_ok t"
  shows "0 \<le> child_prio t" "MAX_RT_PRIO \<le> child_static_prio t" "child_static_prio t < MAX_PRIO" "child_class t \<noteq> Stop_Class"
    "child_class t = Rt_Class \<Longrightarrow> child_prio t < MAX_RT_PRIO"
  using assms NICE_TO_PRIO_range [of 0]
  by (auto simp: child_prio_def child_static_prio_def child_class_def task_ok_def rt_prio_def prio_consts split: if_splits)

lemma forked_step:
  assumes e: "env_ok e" and inv: "run_inv k" and p: "\<not> on_rq (tasks k p)" "p \<noteq> idle (rq k)"
  shows "good_step k (forked e p k)"
proof -
  note ok = inv_task [OF inv, of "curr (rq k)"]
  note ch = child_ok [OF ok(1)]
  show ?thesis
  proof (rule sched_fork_child [of e p k])
    fix t
    assume eq: "forked e p k =
        (let k4 = upd_task p (\<lambda>_. t) k
         in upd_task p (preempt_count_update (\<lambda>_. 1)) (case task_fork_op (ops e k4 p) of Some f \<Rightarrow> f p k4 | None \<Rightarrow> k4))"
      and t: "static_prio t = child_static_prio (curr_task k)" "prio t = child_prio (curr_task k)"
        "sched_class t = child_class (curr_task k)" "p_wrr t = p_wrr (curr_task k)" "\<not> on_rq t" "\<not> need_resched t"
        "tsk_state t = TASK_RUNNING" "sched_task_group t = sched_task_group (curr_task k)"
      and n: "normal_prio t = (if sched_reset_on_fork (curr_task k) then child_static_prio (curr_task k) else normal_prio (curr_task k))"
    let ?k = "upd_task p (\<lambda>_. t) k"
    have "task_ok t" using ok ch t n by (auto simp: task_ok_def prio_consts)
    then have s: "good_step k ?k" using detached_step [OF inv p] t ok by auto
    have "sched_class (tasks ?k p) \<noteq> Stop_Class" using ch t by simp
    then have "sched_keep ?k (case task_fork_op (ops e ?k p) of Some f \<Rightarrow> f p ?k | None \<Rightarrow> ?k)"
      using class_contract.task_fork [OF class_ops_contract [OF e]] by (auto split: option.split)
    then have "good_step k (case task_fork_op (ops e ?k p) of Some f \<Rightarrow> f p ?k | None \<Rightarrow> ?k)"
      by (rule good_step_keep [OF s])
    then show ?thesis unfolding eq Let_def by (rule good_step_keep [OF _ keep_preempt_count])
  qed
qed

section \<open>The first wake-up\<close>

lemma core_task_group_path_keep: "sched_keep k (core_task_group_path e g k)"
  by (rule sched_keepI) (auto simp: core_task_group_path_def excess_def split: option.splits)

lemma core_task_group_path_frame [simp]:
  "tasks (core_task_group_path e g k) = tasks k" "rq (core_task_group_path e g k) = rq k"
  "rt_rqs (core_task_group_path e g k) = rt_rqs k" "panicked (core_task_group_path e g k) = panicked k"
  by (simp_all add: core_task_group_path_def split: option.splits)

lemma wrr_set_weight_step:
  assumes inv: "run_inv k" and p: "\<not> on_rq (tasks k p)" "p \<noteq> idle (rq k)" "\<not> need_resched (tasks k p)"
  shows "good_step k (wrr_set_weight e p k)" "\<not> on_rq (tasks (wrr_set_weight e p k) p)"
proof -
  let ?k1 = "if custom_weight (p_wrr (tasks k p)) = 0 then core_task_group_path e (sched_task_group (tasks k p)) k else k"
  have keep: "sched_keep k ?k1" using core_task_group_path_keep by auto
  have tk: "tasks ?k1 = tasks k" "rq ?k1 = rq k" by simp_all
  let ?t = "tasks (wrr_set_weight e p k) p"
  have w: "wrr_set_weight e p k = upd_task p (\<lambda>_. ?t) ?k1"
    by (auto simp: wrr_set_weight_def wrr_if_fg_def Let_def set_weight_def set_time_slice_def)
  have t: "task_ok ?t" "wrr_task_ok (p_wrr ?t)" "\<not> on_rq ?t" "\<not> need_resched ?t" "tsk_state ?t = tsk_state (tasks k p)"
    using p inv_task [OF inv, of p]
    by (simp_all add: wrr_set_weight_def wrr_if_fg_def Let_def set_weight_def set_time_slice_def wrr_task_ok_def task_ok_def)
  have "good_step ?k1 (upd_task p (\<lambda>_. ?t) ?k1)"
    by (rule detached_step [OF run_inv_keep [OF inv keep]]) (use t p tk in simp_all)
  then show "good_step k (wrr_set_weight e p k)"
    using w good_step_trans [OF keep_good_step [OF inv keep]] by simp
  show "\<not> on_rq ?t" by (rule t)
qed

lemma wake_up_new_task_step:
  assumes e: "env_ok e" and inv: "run_inv k"
    and p: "\<not> on_rq (tasks k p)" "p \<noteq> idle (rq k)" "\<not> need_resched (tasks k p)" "p < PID_MAX_LIMIT"
  shows "good_step k (wake_up_new_task e p k)"
proof -
  note w = wrr_set_weight_step [OF inv p(1-3), of e]
  have "good_step k (upd_task p (on_rq_update (\<lambda>_. True)) (activate_task e p 0 (wrr_set_weight e p k)))"
    by (rule good_step_trans [OF w(1) activate_step [OF e good_step_run_inv [OF w(1)] w(2) p(4)]])
  from good_step_keep [OF this keep_check_preempt_curr [OF e good_step_run_inv [OF this, unfolded run_inv_def]]]
  show ?thesis unfolding wake_up_new_task_def Let_def .
qed

end
