(* ===== verification/Core_Claims.thy ===== *)
theory Core_Claims
  imports Core_Fork
begin

text \<open>
  The properties of the core scheduler, for every fair, idle and stop class that respects its
  contract, and a concrete kernel with a first-in first-out fair class they apply to.
\<close>

section \<open>Runs of the scheduler\<close>

text \<open>
  The kernel as a transition system: every operation of the core, at the points where the kernel
  may call it, and the steps of the rest of the kernel that the scheduler observes: the clocks
  move, a task announces that it will sleep.
\<close>

inductive sched_step :: "'f env \<Rightarrow> 'f kernel \<Rightarrow> 'f kernel \<Rightarrow> bool" for e where
  wake_up: "p < PID_MAX_LIMIT \<Longrightarrow> sched_step e k (snd (try_to_wake_up e p st fl k))"
| schedule: "sched_step e k (schedule_pass e k)"
| tick: "sched_step e k (scheduler_tick e k)"
| yield: "sched_step e k (yield_task_op (ops e k (curr (rq k))) k)"
| fork: "\<not> on_rq (tasks k p) \<Longrightarrow> p \<noteq> idle (rq k) \<Longrightarrow> sched_step e k (forked e p k)"
| new_task: "p < PID_MAX_LIMIT \<Longrightarrow> p \<noteq> idle (rq k) \<Longrightarrow> \<not> on_rq (tasks k p) \<Longrightarrow> \<not> need_resched (tasks k p) \<Longrightarrow>
    sched_step e k (wake_up_new_task e p k)"
| setscheduler: "p < PID_MAX_LIMIT \<Longrightarrow> p \<noteq> idle (rq k) \<Longrightarrow> \<not> in_interrupt e k \<Longrightarrow>
    sched_step e k (snd (sched_setscheduler_common e p pol pr user k))"
| set_nice: "p < PID_MAX_LIMIT \<Longrightarrow> p \<noteq> idle (rq k) \<Longrightarrow> sched_step e k (set_user_nice e p n k)"
| inherit: "p < PID_MAX_LIMIT \<Longrightarrow> 0 \<le> np \<Longrightarrow> np \<le> MAX_PRIO \<Longrightarrow> sched_step e k (rt_mutex_setprio e p np k)"
| move_group: "p < PID_MAX_LIMIT \<Longrightarrow> p \<noteq> idle (rq k) \<Longrightarrow> sched_step e k (sched_move_task e p k)"
| normalize: "(\<And>p. p \<in> set (threads k) \<Longrightarrow> p < PID_MAX_LIMIT \<and> p \<noteq> idle (rq k)) \<Longrightarrow>
    sched_step e k (normalize_rt_tasks e k)"
| rt_timer: "sched_step e k (snd (do_sched_rt_period_timer g n k))"
| clocks: "sched_step e k (k\<lparr>sched_clock_now := t, xtime_nsec := ns, jiffies := j\<rparr>)"
| set_state: "curr (rq k) \<noteq> idle (rq k) \<Longrightarrow> sched_step e k (upd_task (curr (rq k)) (tsk_state_update (\<lambda>_. st)) k)"

lemma keep_clocks: "sched_keep k (k\<lparr>sched_clock_now := t, xtime_nsec := ns, jiffies := j\<rparr>)"
  by (rule sched_keepI) (simp_all add: excess_def)

lemma set_state_inv:
  assumes inv: "sched_inv k" and p: "p \<noteq> idle (rq k)"
  shows "sched_inv (upd_task p (tsk_state_update (\<lambda>_. st)) k)"
proof -
  let ?k = "upd_task p (tsk_state_update (\<lambda>_. st)) k"
  have w: "wrr_inv ?k = wrr_inv k" by (rule wrr_inv_cong) simp_all
  have rt: "rt_inv ?k = rt_inv k" "on_rt_rq ?k s = on_rt_rq k s" for s by (rule rt_inv_cong; simp)+
  have on: "on_rq (tasks ?k q) = on_rq (tasks k q)" "sched_class (tasks ?k q) = sched_class (tasks k q)"
    "task_ok (tasks ?k q) = task_ok (tasks k q)" for q by (simp_all add: task_ok_def)
  have "run_inv ?k = run_inv k"
    by (simp only: run_inv_def sched_inv_q_def w rt on rt_queued_def) (simp add: wrr_queued_def excess_def)
  moreover have "tsk_state (tasks ?k (idle (rq k))) = tsk_state (tasks k (idle (rq k)))" using p by simp
  then have "curr_ok ?k = curr_ok k" unfolding curr_ok_def on by simp
  ultimately show ?thesis using inv by (simp add: sched_inv_def)
qed

lemma sched_step_inv:
  assumes e: "env_ok e" and st: "sched_step e k k'" and inv: "sched_inv k"
  shows "sched_inv k' \<and> panicked k' = panicked k"
proof -
  have r: "run_inv k" using inv by (simp add: sched_inv_def)
  have good: "sched_inv k' \<and> panicked k' = panicked k" if "good_step k k'"
    using good_step_inv [OF inv that] that by (simp add: good_step_def)
  have keep: "sched_inv k' \<and> panicked k' = panicked k" if "sched_keep k k'"
    using good keep_good_step [OF r that] .
  from st show ?thesis
  proof cases
    case schedule
    then show ?thesis using schedule_pass_inv [OF e inv] by simp
  next
    case (set_state st)
    then show ?thesis using set_state_inv [OF inv] by simp
  next
    case normalize
    then show ?thesis using good normalize_rt_tasks_step [OF e r] by simp
  next
    case (wake_up p st fl)
    then show ?thesis using good try_to_wake_up_step [OF e r] by simp
  next
    case tick
    then show ?thesis using keep scheduler_tick_keep [OF e inv] by simp
  next
    case yield
    then show ?thesis using keep yield_keep [OF e inv] by simp
  next
    case (fork p)
    then show ?thesis using good forked_step [OF e r] by simp
  next
    case (new_task p)
    then show ?thesis using good wake_up_new_task_step [OF e r] by simp
  next
    case (setscheduler p pol pr user)
    then show ?thesis using good sched_setscheduler_step [OF e r] by simp
  next
    case (set_nice p n)
    then show ?thesis using good set_user_nice_step [OF e r] by simp
  next
    case (inherit p np)
    then show ?thesis using good rt_mutex_setprio_step [OF e r] by simp
  next
    case (move_group p)
    then show ?thesis using good sched_move_task_step [OF e r] by simp
  next
    case (rt_timer g n)
    then show ?thesis using keep rt_period_timer_keep by blast
  next
    case (clocks t ns j)
    then show ?thesis using keep keep_clocks by blast
  qed
qed

section \<open>A kernel to run\<close>

text \<open>
  A fair class that keeps its tasks in a list, as an instance of the code outside the repository.
\<close>

definition fifo_fair :: "tid list sched_class_ops" where
  "fifo_fair = empty_class
     \<lparr>next_class := Some Idle_Class,
      enqueue_task_op := (\<lambda>p fl k. rq_update (\<lambda>r. r\<lparr>nr_running := nr_running r + 1, h_nr_running := h_nr_running r + 1\<rparr>)
        (cfs_update (list_add_tail p) k)),
      dequeue_task_op := (\<lambda>p fl k. rq_update (\<lambda>r. r\<lparr>nr_running := nr_running r - 1, h_nr_running := h_nr_running r - 1\<rparr>)
        (cfs_update (list_del_init p) k)),
      pick_next_task_op := (\<lambda>k. (find (\<lambda>p. sched_class (tasks k p) = Fair_Class \<and> on_rq (tasks k p)) (cfs k), k))\<rparr>"

definition fifo_env :: "tid list env" where
  "fifo_env = plain_env\<lparr>fair_class := fifo_fair\<rparr>"

text \<open>Task 0 is idle and runs; task 2 is a sleeping WRR task, the others are fair tasks off the run queue.\<close>

definition sched_demo :: "tid list kernel" where
  "sched_demo =
     \<lparr>tasks = (\<lambda>p. if p = 0 then INIT_TASK\<lparr>sched_class := Idle_Class\<rparr>
        else if p = 2 then INIT_TASK\<lparr>has_mm := True, policy := SCHED_WRR, sched_class := Wrr_Class, tsk_state := TASK_INTERRUPTIBLE\<rparr>
        else INIT_TASK\<lparr>has_mm := True\<rparr>),
      rq = boot_rq, rt_rqs = rt_rqs boot_kernel, rt_bandwidths = rt_bandwidths boot_kernel,
      def_rt_bandwidth = def_rt_bandwidth boot_kernel, task_groups = [[]], threads = [],
      leaf_rt_rq_list = [], tg_cgroup = tg_cgroup boot_kernel,
      wrr_group_path = wrr_group_path boot_kernel, core_group_path = core_group_path boot_kernel,
      cpuacct_active = True, task_ca = (\<lambda>_. []), cpuusage = (\<lambda>_. 0), sched_clock_now = 0, xtime_nsec = 99,
      jiffies = 0, lavg = lavg boot_kernel, sysctl_sched_rt_period = 1000000, sysctl_sched_rt_runtime = 950000,
      calls = [], panicked = False, cfs = []\<rparr>"

lemma fifo_env_ok: "env_ok fifo_env"
proof -
  have "ext_class fifo_fair"
    by (simp add: ext_class_def ext_keep_def fifo_fair_def empty_class_def excess_def)
  moreover have "ext_class (idle_class plain_env)"
    by (simp add: ext_class_def ext_keep_def plain_env_def empty_class_def)
  ultimately show ?thesis
    by (auto simp: env_ok_def fifo_env_def plain_env_def empty_class_def valid_tg_def fifo_fair_def split: option.split dest: find_SomeD)
qed

lemma sched_demo_inv: "sched_inv sched_demo"
proof -
  have r: "rt_rqs sched_demo = (\<lambda>_. boot_rt_rq)" by (simp add: sched_demo_def boot_kernel_def)
  have w: "wrr_inv sched_demo"
    by (rule wrr_invI) (simp_all add: sched_demo_def boot_rq_def wrr_task_ok_def INIT_TASK_def)
  have "task_ok (tasks sched_demo p)" for p
    by (simp add: sched_demo_def task_ok_def INIT_TASK_def prio_consts valid_tg_def)
  moreover have "wrr_queued sched_demo = {}" by (simp add: wrr_queued_def sched_demo_def boot_rq_def)
  ultimately have "run_inv sched_demo"
    using w rt_inv_boot [OF r]
    by (auto simp: run_inv_def sched_inv_q_def excess_def sched_demo_def boot_rq_def INIT_TASK_def)
  moreover have "curr_ok sched_demo" by (simp add: curr_ok_def sched_demo_def boot_rq_def INIT_TASK_def TASK_RUNNING_def)
  ultimately show ?thesis by (simp add: sched_inv_def)
qed

lemma sched_demo_facts:
  "rt_nr_running (rt_rqs sched_demo []) = 0" "active (wrr (rq sched_demo)) = []"
  "fst (pick_next_task_op (fair_class fifo_env) sched_demo) = None" "idle (rq sched_demo) = 0"
  "panicked sched_demo = False" "need_resched (tasks sched_demo p) = False"
  by (simp_all add: sched_demo_def boot_rq_def boot_kernel_def boot_rt_rq_def fifo_env_def fifo_fair_def INIT_TASK_def)

section \<open>Properties\<close>

text \<open>
  C1. The scheduler as a whole is safe: from any consistent state, no sequence of wake-ups,
  scheduling passes, ticks, yields, forks, policy, nice, priority and group changes and
  real-time timers, in any order, makes the core and the classes disagree. A task is in the
  queue of its class exactly when it is on the run queue, each class's own structure is
  consistent, \<^verbatim>\<open>nr_running\<close> counts every task once, the current task is on the run queue or
  idle, and no \<^verbatim>\<open>BUG()\<close> is reached.
\<close>

theorem sched_runs_safe:
  assumes "env_ok e" and "(sched_step e)\<^sup>*\<^sup>* k k'" and "sched_inv k" and "\<not> panicked k"
  shows "sched_inv k' \<and> \<not> panicked k'"
  using assms(2-) by (induction rule: rtranclp_induct) (auto dest: sched_step_inv [OF assms(1)])

theorem sched_runs_safe_witness:
  "sched_inv (schedule_pass fifo_env (snd (sched_setscheduler_common fifo_env 3 SCHED_FIFO 7 True sched_demo)))"
proof -
  let ?k = "snd (sched_setscheduler_common fifo_env 3 SCHED_FIFO 7 True sched_demo)"
  have "sched_step fifo_env sched_demo ?k"
    by (rule sched_step.setscheduler)
      (simp_all add: PID_MAX_LIMIT_def fifo_env_def plain_env_def sched_demo_def boot_rq_def)
  from rtranclp.rtrancl_into_rtrancl [of "sched_step fifo_env", OF r_into_rtranclp [of "sched_step fifo_env", OF this]]
  have "(sched_step fifo_env)\<^sup>*\<^sup>* sched_demo (schedule_pass fifo_env ?k)" using sched_step.schedule by blast
  from sched_runs_safe [OF fifo_env_ok this sched_demo_inv] show ?thesis by (simp add: sched_demo_def)
qed

text \<open>
  C15. \<^verbatim>\<open>pick_next_task()\<close> obeys the order of the classes, and its shortcut for the case that
  all tasks are fair changes nothing: a real-time task of the highest priority if the class may
  run, else the head of the WRR queue unless it is empty or throttled, else what the fair class
  offers, else the idle task.
\<close>

theorem pick_next_task_order:
  assumes "env_ok e" and "sched_inv k"
  shows "pick_next_task e k = pick_by_class e k \<and>
    fst (pick_next_task e k) =
      (if rt_nr_running (rt_rqs k []) \<noteq> 0 \<and> \<not> rt_rq_throttled (rt_rqs k []) then fst (pick_next_task_rt k)
       else if active (wrr (rq k)) \<noteq> [] \<and> \<not> wrr_throttled k then Some (hd (active (wrr (rq k))))
       else case fst (pick_next_task_op (fair_class e) k) of Some p \<Rightarrow> Some p | None \<Rightarrow> Some (idle (rq k)))"
proof -
  have inv: "sched_inv_q (\<lambda>p. on_rq (tasks k p)) k" using assms(2) by (simp add: sched_inv_def run_inv_def)
  note D = sched_inv_qD [OF inv]
  obtain ki where ki: "pick_next_task_op (idle_class e) k = (Some (idle (rq k)), ki)"
    using env_okD(8) [OF assms(1), of k] by (cases "pick_next_task_op (idle_class e) k") auto
  obtain fo fk where f: "pick_next_task_op (fair_class e) k = (fo, fk)" by (metis surj_pair)
  have rt: "if rt_nr_running (rt_rqs k []) \<noteq> 0 \<and> \<not> rt_rq_throttled (rt_rqs k [])
      then \<exists>p. pick_next_task_rt k = (Some p, set_exec_start p k) else pick_next_task_rt k = (None, k)"
    using pick_next_task_rt_cases [OF D(2)] by (auto split: if_splits)
  have "fst (pick_by_class e k) =
      (if rt_nr_running (rt_rqs k []) \<noteq> 0 \<and> \<not> rt_rq_throttled (rt_rqs k []) then fst (pick_next_task_rt k)
       else if active (wrr (rq k)) \<noteq> [] \<and> \<not> wrr_throttled k then Some (hd (active (wrr (rq k))))
       else case fst (pick_next_task_op (fair_class e) k) of Some p \<Rightarrow> Some p | None \<Rightarrow> Some (idle (rq k)))"
    by (rule pick_wrr_cases [OF D(1)]; cases fo; use rt in \<open>auto simp: pick_by_class_def ki f split: if_splits\<close>)
  then show ?thesis using pick_next_task_by_class [OF assms(1) inv] by simp
qed

theorem pick_next_task_order_witness: "fst (pick_next_task fifo_env sched_demo) = Some 0"
  using conjunct2 [OF pick_next_task_order [OF fifo_env_ok sched_demo_inv]] by (simp only: sched_demo_facts) simp

text \<open>
  C5. \<^verbatim>\<open>schedule()\<close> returns. When finitely many tasks are asked to reschedule, the loop of
  \<^verbatim>\<open>__schedule()\<close> ends, in a consistent state, at a task that is not asked to reschedule.
\<close>

theorem schedule_returns:
  assumes "env_ok e" and "sched_inv k" and "\<not> panicked k" and "finite {p. need_resched (tasks k p)}"
  shows "\<exists>k'. schedule e pi_blocked needs_flush k = Some k' \<and> sched_inv k' \<and> \<not> panicked k' \<and>
    \<not> need_resched (curr_task k')"
proof -
  let ?k = "sched_submit_work pi_blocked needs_flush (curr (rq k)) k"
  have keep: "sched_keep k ?k" by (simp add: sched_submit_work_def)
  have "{p. need_resched (tasks ?k p)} = {p. need_resched (tasks k p)}"
    by (simp add: sched_submit_work_def ext_call_def)
  then show ?thesis
    using schedule_loop_ends [OF assms(1), of ?k] assms(3,4) sched_inv_keep [OF assms(2) keep] sched_keepD(5) [OF keep]
    by (auto simp: schedule_def)
qed

theorem schedule_returns_witness:
  "\<exists>k'. schedule fifo_env (\<lambda>_. False) (\<lambda>_. False) sched_demo = Some k' \<and> sched_inv k' \<and> \<not> panicked k' \<and>
    \<not> need_resched (curr_task k')"
  by (rule schedule_returns [OF fifo_env_ok sched_demo_inv]) (simp_all add: sched_demo_facts)

end
