(* ===== verification/Setsched_Props.thy ===== *)
theory Setsched_Props
  imports Core_Claims
begin

text \<open>
  What the calls that set and read scheduling parameters promise: the parameters of a task change
  only in the calls that set them, what was set is what is read, and which requests are refused.
\<close>

section \<open>Parameters of a task\<close>

text \<open>
  What \<^verbatim>\<open>__setscheduler()\<close> sets. A weight that no one set belongs to the WRR class, which
  may change it.
\<close>

definition custom_part :: "sched_wrr_entity \<Rightarrow> u32" where
  "custom_part w = (if custom_weight w = 0 then 0 else weight w)"

definition task_params :: "task_struct \<Rightarrow> int \<times> int \<times> bool \<times> int \<times> class_id \<times> u32 \<times> u32" where
  "task_params t = (policy t, rt_priority t, sched_reset_on_fork t, static_prio t, sched_class t,
     custom_weight (p_wrr t), custom_part (p_wrr t))"

definition params_keep :: "'f kernel \<Rightarrow> 'f kernel \<Rightarrow> bool" where
  "params_keep k k' \<longleftrightarrow> (\<forall>p. task_params (tasks k' p) = task_params (tasks k p)) \<and> curr (rq k') = curr (rq k)"

lemma params_keep_refl [simp]: "params_keep k k"
  by (simp add: params_keep_def)

lemma params_keep_trans: "params_keep k k' \<Longrightarrow> params_keep k' k'' \<Longrightarrow> params_keep k k''"
  by (simp add: params_keep_def)

lemma params_keepD:
  assumes "params_keep k k'"
  shows "task_params (tasks k' p) = task_params (tasks k p)" "sched_class (tasks k' p) = sched_class (tasks k p)"
    "curr (rq k') = curr (rq k)"
proof -
  show p: "task_params (tasks k' p) = task_params (tasks k p)" and "curr (rq k') = curr (rq k)"
    using assms by (simp_all add: params_keep_def)
  show "sched_class (tasks k' p) = sched_class (tasks k p)" using p by (simp add: task_params_def)
qed

lemma params_keep_if: "(b \<Longrightarrow> params_keep k k') \<Longrightarrow> params_keep k (if b then k' else k)"
  by simp

text \<open>Every operation of a class keeps the parameters of all tasks.\<close>

locale class_params =
  fixes c :: "'f sched_class_ops"
  assumes enq: "params_keep k (enqueue_task_op c p fl k)"
    and deq: "params_keep k (dequeue_task_op c p fl k)"
    and put_prev: "params_keep k (put_prev_task_op c p k)"
    and set_curr: "params_keep k (set_curr_task_op c k)"
    and preempt: "params_keep k (check_preempt_curr_op c p fl k)"
    and task_fork: "task_fork_op c = Some f \<Longrightarrow> params_keep k (f p k)"
    and switched_from: "switched_from_op c = Some f \<Longrightarrow> params_keep k (f p k)"
    and switched_to: "params_keep k (switched_to_op c p k)"
    and prio_changed: "params_keep k (prio_changed_op c p pr k)"

lemma params_ext_call [simp]: "params_keep k (ext_call cl k)"
  by (simp add: params_keep_def ext_call_def)

lemma params_update_rq_clock [simp]: "params_keep k (update_rq_clock k)"
  by (simp add: params_keep_def update_rq_clock_def update_rq_clock_task_def Let_def)

lemma params_resched [simp]: "params_keep k (resched_task p k)"
  by (simp add: params_keep_def small_defs task_params_def)

lemma params_charge_curr [simp]: "params_keep k (charge_curr d k)"
  by (simp add: params_keep_def charge_curr_def Let_def ext_call_def task_params_def)

lemma params_exec_start [simp]: "params_keep k (set_exec_start p k)"
  by (simp add: params_keep_def set_exec_start_def task_params_def)

lemma params_update_curr_wrr [simp]: "params_keep k (update_curr_wrr k)"
  by (simp add: update_curr_wrr_def)

lemma params_charge_rt_rq [simp]: "params_keep k (charge_rt_rq d g k)"
proof -
  define k2 where "k2 = snd (sched_rt_runtime_exceeded g (upd_rt g (rt_time_update (\<lambda>t. t + d)) k))"
  have "params_keep k k2" by (simp add: k2_def params_keep_def)
  then show ?thesis
    using params_keep_trans [OF _ params_resched, of k k2] by (simp add: charge_rt_rq_def Let_def split_def k2_def)
qed

lemma params_update_curr_rt [simp]: "params_keep k (update_curr_rt k)"
proof -
  have f: "params_keep k (fold (\<lambda>s k. charge_rt_rq d (rt_rq_of_se k s) k) ss k)" for d ss and k :: "'a kernel"
    by (induction ss arbitrary: k) (auto intro: params_keep_trans params_charge_rt_rq)
  show ?thesis by (simp add: update_curr_rt_def Let_def params_keep_trans [OF params_charge_curr f])
qed

lemma params_enqueue_wrr [simp]: "params_keep k (enqueue_task_wrr e p fl k)"
  by (simp add: params_keep_def tasks_enqueue_task_wrr rq_enqueue_task_wrr task_params_def wrr_weight_def custom_part_def)

lemma params_dequeue_wrr [simp]: "params_keep k (dequeue_task_wrr p fl k)"
proof -
  have "params_keep k' (dec_nr_running (dequeue_wrr_entity p k'))" for k' :: "'a kernel"
    by (simp add: params_keep_def small_defs wrr_defs)
  then show ?thesis using params_keep_trans [OF params_update_curr_wrr] unfolding dequeue_task_wrr_def by blast
qed

interpretation wrr_params: class_params "wrr_sched_class e" for e :: "'f env"
  by unfold_locales
    (simp_all add: wrr_sched_class_def put_prev_task_wrr_def set_curr_task_wrr_def
      check_preempt_curr_wrr_def switched_to_wrr_def prio_changed_wrr_def)

lemma params_enqueue_rt [simp]: "params_keep k (enqueue_task_rt p fl k)"
  by (simp add: params_keep_def enqueue_task_rt_def Let_def small_defs task_params_def)

lemma params_dequeue_rt [simp]: "params_keep k (dequeue_task_rt p fl k)"
proof -
  have "params_keep k' (dec_nr_running (dequeue_rt_entity (Rt_Task p) k'))" for k' :: "'a kernel"
    by (simp add: params_keep_def small_defs)
  then show ?thesis using params_keep_trans [OF params_update_curr_rt] unfolding dequeue_task_rt_def by blast
qed

interpretation rt_params: class_params "rt_sched_class e" for e :: "'f env"
  by unfold_locales
    (simp_all add: rt_sched_class_def put_prev_task_rt_def set_curr_task_rt_def
      check_preempt_curr_rt_def switched_to_rt_def prio_changed_rt_def)

lemma ext_keep_params: "ext_keep k k' \<Longrightarrow> params_keep k k'"
proof -
  assume ext: "ext_keep k k'"
  have "task_params (tasks k' p) = task_params (tasks k p)" for p
  proof -
    have "tasks k' p = (tasks k p)\<lparr>p_se := p_se (tasks k' p), need_resched := need_resched (tasks k' p)\<rparr>"
      using ext by (simp add: ext_keep_def)
    from arg_cong [OF this, of task_params] show ?thesis by (simp add: task_params_def)
  qed
  then show ?thesis using ext by (simp add: params_keep_def ext_keep_def)
qed

lemma ext_class_params: "ext_class c \<Longrightarrow> class_params c"
  by unfold_locales (auto simp: ext_class_def intro: ext_keep_params)

lemma class_ops_params: "env_ok e \<Longrightarrow> cl \<noteq> Stop_Class \<Longrightarrow> class_params (class_ops e cl)"
  using ext_class_params env_okD(3,4) wrr_params.class_params_axioms rt_params.class_params_axioms
  by (cases cl) (auto simp: class_ops_def)

section \<open>Parameters through the operations of the core\<close>

lemma params_enqueue_task:
  assumes "env_ok e" "sched_class (tasks k p) \<noteq> Stop_Class"
  shows "params_keep k (enqueue_task e p fl k)"
proof -
  let ?k = "ext_call (Sched_Info_Queued p) (update_rq_clock k)"
  have keep: "params_keep k ?k" by (rule params_keep_trans [OF params_update_rq_clock params_ext_call])
  then show ?thesis
    using class_params.enq [OF class_ops_params [OF assms(1)]] params_keepD(2) [OF keep] assms(2)
    by (auto simp: enqueue_task_def Let_def intro: params_keep_trans)
qed

lemma params_dequeue_task:
  assumes "env_ok e" "sched_class (tasks k p) \<noteq> Stop_Class"
  shows "params_keep k (dequeue_task e p fl k)"
proof -
  let ?k = "ext_call (Sched_Info_Dequeued p) (update_rq_clock k)"
  have keep: "params_keep k ?k" by (rule params_keep_trans [OF params_update_rq_clock params_ext_call])
  then show ?thesis
    using class_params.deq [OF class_ops_params [OF assms(1)]] params_keepD(2) [OF keep] assms(2)
    by (auto simp: dequeue_task_def Let_def intro: params_keep_trans)
qed

lemma params_check_class_changed:
  assumes e: "env_ok e" and cl: "sched_class (tasks k p) \<noteq> Stop_Class" "pc \<noteq> Stop_Class"
  shows "params_keep k (check_class_changed e p pc oldprio k)"
proof -
  define k1 where "k1 = (case switched_from_op (class_ops e pc) of Some f \<Rightarrow> f p k | None \<Rightarrow> k)"
  have k1: "params_keep k k1"
    using class_params.switched_from [OF class_ops_params [OF e cl(2)]] by (auto simp: k1_def split: option.split)
  have "params_keep k1 (switched_to_op (ops e k1 p) p k1)"
    using class_params.switched_to [OF class_ops_params [OF e]] params_keepD(2) [OF k1] cl(1) by simp
  moreover have "params_keep k (prio_changed_op (ops e k p) p oldprio k)"
    using class_params.prio_changed [OF class_ops_params [OF e cl(1)]] .
  ultimately show ?thesis using params_keep_trans [OF k1] by (simp add: check_class_changed_def k1_def [symmetric] Let_def)
qed

lemma setscheduler_params:
  "task_params (tasks (setscheduler e p pol pr k) p) =
     (let t = tasks k p; w = (if pol = SCHED_WRR then if pr = 0 then 0 else 1 else custom_weight (p_wrr t)) in
      (pol, if pol = SCHED_WRR then 0 else pr, sched_reset_on_fork t, static_prio t,
       sched_class (tasks (setscheduler e p pol pr k) p), w,
       if w = 0 then 0 else if pol = SCHED_WRR then word_of_int pr else weight (p_wrr t)))"
  "q \<noteq> p \<Longrightarrow> tasks (setscheduler e p pol pr k) q = tasks k q" "rq (setscheduler e p pol pr k) = rq k"
  by (simp_all add: setscheduler_def setscheduler_wrr_weight_def set_load_weight_def set_class_def Let_def task_params_def custom_part_def)

lemma setscheduler_class:
  "sched_class (tasks (setscheduler e p pol pr k) p) =
     (if rt_prio (prio (tasks (setscheduler e p pol pr k) p)) then Rt_Class
      else if pol = SCHED_WRR then Wrr_Class else Fair_Class)"
  by (simp add: setscheduler_def setscheduler_wrr_weight_def set_load_weight_def set_class_def Let_def)

lemma setscheduler_prio:
  obtains k' where "prio (tasks (setscheduler e p pol pr k) p) = rt_mutex_getprio e k' p"
    "\<not> rt_policy pol \<Longrightarrow> normal_prio (tasks k' p) = static_prio (tasks k p)"
proof -
  define k1 where "k1 = upd_task p (policy_update (\<lambda>_. pol)) k"
  define k2 where "k2 = (if pol \<noteq> SCHED_WRR then upd_task p (rt_priority_update (\<lambda>_. pr)) k1
    else upd_task p (setscheduler_wrr_weight pr) k1)"
  define k3 where "k3 = upd_task p (\<lambda>t. t\<lparr>normal_prio := normal_prio_of t\<rparr>) k2"
  have "policy (tasks k2 p) = pol" "static_prio (tasks k2 p) = static_prio (tasks k p)"
    by (simp_all add: k2_def k1_def setscheduler_wrr_weight_def)
  then have "\<not> rt_policy pol \<Longrightarrow> normal_prio (tasks k3 p) = static_prio (tasks k p)"
    by (simp add: k3_def normal_prio_of_def task_has_rt_policy_def)
  moreover have "prio (tasks (setscheduler e p pol pr k) p) = rt_mutex_getprio e k3 p"
    unfolding setscheduler_def Let_def k1_def [symmetric] k2_def [symmetric] k3_def [symmetric]
    by (simp add: set_load_weight_def set_class_def Let_def)
  ultimately show thesis using that by blast
qed

text \<open>No waiter of a mutex lends the task a real-time priority.\<close>

definition not_boosted :: "'f env \<Rightarrow> tid \<Rightarrow> bool" where
  "not_boosted e p \<longleftrightarrow> (\<forall>k. MAX_RT_PRIO \<le> normal_prio (tasks k p) \<longrightarrow> \<not> rt_prio (rt_mutex_getprio e k p))"

lemma change_scheduler_params:
  assumes e: "env_ok e" and cl: "sched_class (tasks k p) \<noteq> Stop_Class"
  shows "curr (rq (change_scheduler e p pol pr reset k)) = curr (rq k)"
    "task_params (tasks (change_scheduler e p pol pr reset k) p) =
       (let t = tasks k p; w = (if pol = SCHED_WRR then if pr = 0 then 0 else 1 else custom_weight (p_wrr t)) in
        (pol, if pol = SCHED_WRR then 0 else pr, reset, static_prio t,
         sched_class (tasks (change_scheduler e p pol pr reset k) p), w,
         if w = 0 then 0 else if pol = SCHED_WRR then word_of_int pr else weight (p_wrr t)))"
    "q \<noteq> p \<Longrightarrow> task_params (tasks (change_scheduler e p pol pr reset k) q) = task_params (tasks k q)"
    "not_boosted e p \<Longrightarrow> \<not> rt_policy pol \<Longrightarrow> MAX_RT_PRIO \<le> static_prio (tasks k p) \<Longrightarrow>
       sched_class (tasks (change_scheduler e p pol pr reset k) p) = (if pol = SCHED_WRR then Wrr_Class else Fair_Class)"
proof -
  define k1 where "k1 = (if on_rq (tasks k p) then dequeue_task e p 0 k else k)"
  define k2 where "k2 = (if task_current k p then put_prev_task_op (ops e k1 p) p k1 else k1)"
  define k3 where "k3 = upd_task p (sched_reset_on_fork_update (\<lambda>_. reset)) k2"
  define k4 where "k4 = setscheduler e p pol pr k3"
  define k5 where "k5 = (if task_current k p then set_curr_task_op (ops e k4 p) k4 else k4)"
  define k6 where "k6 = (if on_rq (tasks k p) then enqueue_task e p 0 k5 else k5)"
  define k7 where "k7 = check_class_changed e p (sched_class (tasks k3 p)) (prio (tasks k3 p)) k6"
  have eq: "change_scheduler e p pol pr reset k = ext_call (Rt_Mutex_Adjust_Pi p) k7"
    unfolding change_scheduler_def Let_def k7_def k6_def k5_def k4_def k3_def k2_def k1_def ..
  have p1: "params_keep k k1" unfolding k1_def by (rule params_keep_if [OF params_dequeue_task [OF e cl]])
  have p2: "params_keep k1 k2"
    unfolding k2_def using params_keepD(2) [OF p1] cl
    by (intro params_keep_if class_params.put_prev [OF class_ops_params [OF e]]) simp
  note p12 = params_keep_trans [OF p1 p2]
  have c4: "sched_class (tasks k4 p) \<noteq> Stop_Class" by (simp add: k4_def setscheduler_class)
  have p5: "params_keep k4 k5"
    unfolding k5_def by (intro params_keep_if class_params.set_curr [OF class_ops_params [OF e c4]])
  have p6: "params_keep k5 k6"
    unfolding k6_def using params_keepD(2) [OF p5, of p] c4 by (intro params_keep_if params_enqueue_task [OF e]) simp
  have "sched_class (tasks k3 p) \<noteq> Stop_Class" using params_keepD(2) [OF p12, of p] cl by (simp add: k3_def)
  then have "params_keep k6 k7"
    unfolding k7_def using params_keepD(2) [OF p5, of p] params_keepD(2) [OF p6, of p] c4
    by (intro params_check_class_changed [OF e]) auto
  then have p7: "params_keep k4 (change_scheduler e p pol pr reset k)"
    unfolding eq using params_keep_trans p5 p6 params_ext_call by blast
  have k3: "task_params (tasks k3 p) = (case task_params (tasks k p) of (a, b, _, d) \<Rightarrow> (a, b, reset, d))"
    "q \<noteq> p \<Longrightarrow> task_params (tasks k3 q) = task_params (tasks k q)" "curr (rq k3) = curr (rq k)" for q
    using params_keepD(1,3) [OF p12] by (simp_all add: k3_def) (simp add: task_params_def)
  show "sched_class (tasks (change_scheduler e p pol pr reset k) p) = (if pol = SCHED_WRR then Wrr_Class else Fair_Class)"
    if boost: "not_boosted e p" "\<not> rt_policy pol" "MAX_RT_PRIO \<le> static_prio (tasks k p)"
  proof -
    obtain k' where k': "prio (tasks k4 p) = rt_mutex_getprio e k' p" "normal_prio (tasks k' p) = static_prio (tasks k3 p)"
      by (rule setscheduler_prio [of e p pol pr k3, folded k4_def]) (use boost(2) in blast)
    moreover have "MAX_RT_PRIO \<le> static_prio (tasks k3 p)" using k3(1) boost(3) by (simp add: task_params_def)
    ultimately have "\<not> rt_prio (prio (tasks k4 p))" using boost(1) by (simp add: not_boosted_def)
    then show ?thesis using params_keepD(2) [OF p7, of p] setscheduler_class [of e p pol pr k3, folded k4_def] by simp
  qed
  show "curr (rq (change_scheduler e p pol pr reset k)) = curr (rq k)"
    using params_keepD(3) [OF p7] k3(3) by (simp add: k4_def setscheduler_params(3))
  show "q \<noteq> p \<Longrightarrow> task_params (tasks (change_scheduler e p pol pr reset k) q) = task_params (tasks k q)"
    using params_keepD(1) [OF p7, of q] k3(2) by (simp add: k4_def setscheduler_params(2))
  show "task_params (tasks (change_scheduler e p pol pr reset k) p) =
       (let t = tasks k p; w = (if pol = SCHED_WRR then if pr = 0 then 0 else 1 else custom_weight (p_wrr t)) in
        (pol, if pol = SCHED_WRR then 0 else pr, reset, static_prio t,
         sched_class (tasks (change_scheduler e p pol pr reset k) p), w,
         if w = 0 then 0 else if pol = SCHED_WRR then word_of_int pr else weight (p_wrr t)))"
    using params_keepD(1,2) [OF p7, of p] k3(1) setscheduler_params(1) [of e p pol pr k3]
    by (simp add: k4_def Let_def) (auto simp: task_params_def custom_part_def split: if_splits)
qed

end
