(* ===== verification/Setsched_Claims.thy ===== *)
theory Setsched_Claims
  imports Setsched_Props
begin

text \<open>
  The properties of the calls that change scheduling parameters, of waking and of forking a task.
\<close>

section \<open>Policies\<close>

lemma bit_reset_flag: "bit SCHED_RESET_ON_FORK n \<longleftrightarrow> n = 30"
proof -
  have "SCHED_RESET_ON_FORK = 2 ^ 30" by (simp add: SCHED_RESET_ON_FORK_def)
  then show ?thesis using bit_exp_iff [of 30 n, where 'a = int] by simp
qed

lemma reset_flag_iff: "pol AND SCHED_RESET_ON_FORK \<noteq> 0 \<longleftrightarrow> bit pol 30"
  by (auto simp: bit_eq_iff [where 'a = int] bit_and_iff bit_reset_flag)

lemma reset_flag_split:
  "(pol AND NOT SCHED_RESET_ON_FORK) OR (if pol AND SCHED_RESET_ON_FORK \<noteq> 0 then SCHED_RESET_ON_FORK else 0) = pol"
  unfolding reset_flag_iff by (auto simp: bit_eq_iff [where 'a = int] bit_and_iff bit_or_iff bit_not_iff bit_reset_flag)

lemma small_policy:
  assumes "0 \<le> pol" and "pol < 2 ^ 30"
  shows "pol AND SCHED_RESET_ON_FORK = 0" "pol AND NOT SCHED_RESET_ON_FORK = pol"
proof -
  have "\<not> bit pol 30" using assms by (metis bit_take_bit_iff less_irrefl take_bit_int_eq_self)
  then show "pol AND SCHED_RESET_ON_FORK = 0" "pol AND NOT SCHED_RESET_ON_FORK = pol"
    using reset_flag_iff [of pol] by (auto simp: bit_eq_iff [where 'a = int] bit_and_iff bit_not_iff bit_reset_flag)
qed

lemma valid_sched_priority_iff:
  "valid_sched_priority pol pr t \<longleftrightarrow>
     0 \<le> pr \<and> pr \<le> 99 \<and> (if rt_policy pol then pr \<noteq> 0 else pr = 0 \<or> pol = SCHED_WRR)"
  by (cases "rt_policy pol") (auto simp: valid_sched_priority_def prio_consts rt_policy_def policy_defs)

lemmas setscheduler_branches = sched_setscheduler_common_def decode_policy_def Let_def

section \<open>Properties\<close>

text \<open>
  C11. What \<^verbatim>\<open>sched_setscheduler()\<close> sets is what \<^verbatim>\<open>sched_getscheduler()\<close> and
  \<^verbatim>\<open>sched_getparam()\<close> report, the reset-on-fork flag included, and no other task's parameters
  change; a WRR task reports priority 0 and keeps the weight it was given. The exception is a
  call that names the policy the task already has (and, for a real-time policy, its priority):
  it succeeds and changes nothing, so that neither the weight of a WRR task nor the
  reset-on-fork flag can be changed without leaving the policy first.
\<close>

theorem sched_setscheduler_roundtrip:
  assumes "env_ok e" and "sched_inv k" and "\<not> in_interrupt e k"
    and "find_process_by_pid e pid k = Some p" and "security_task_getscheduler e p = None"
    and "sys_sched_setscheduler e pid pol (User pr) k = (None, k')"
  shows "let pol' = pol AND NOT SCHED_RESET_ON_FORK in
    if pol' = policy (tasks k p) \<and> (\<not> rt_policy pol' \<or> pr = rt_priority (tasks k p)) then k' = k
    else sys_sched_getscheduler e pid k' = Inr pol \<and>
      sys_sched_getparam e pid (User ()) k' = Inr (if pol' = SCHED_WRR then 0 else pr) \<and>
      (pol' = SCHED_WRR \<and> pr \<noteq> 0 \<longrightarrow> weight (p_wrr (tasks k' p)) = word_of_int pr) \<and>
      (\<forall>q. q \<noteq> p \<longrightarrow> task_params (tasks k' q) = task_params (tasks k q))"
proof -
  define pol' where "pol' = pol AND NOT SCHED_RESET_ON_FORK"
  define reset where "reset = (pol AND SCHED_RESET_ON_FORK \<noteq> 0)"
  define same where "same \<longleftrightarrow> pol' = policy (tasks k p) \<and> (\<not> rt_policy pol' \<or> pr = rt_priority (tasks k p))"
  have cl: "sched_class (tasks k p) \<noteq> Stop_Class"
    using assms(2) inv_task(3) unfolding sched_inv_def by blast
  have pid: "0 \<le> pid" "0 \<le> pol" and run: "sched_setscheduler_common e p pol pr True k = (None, k')"
    using assms(4,6)
    by (auto simp: sys_sched_setscheduler_def do_sched_setscheduler_def sched_setscheduler_def split: if_splits)
  have k': "k' = (if same then k else change_scheduler e p pol' pr reset k)" and v: "valid_sched_priority pol' pr (tasks k p)"
    using run assms(3) pid(2) unfolding setscheduler_branches pol'_def reset_def same_def
    by (auto split: if_splits option.splits)
  show ?thesis
  proof (cases same)
    case True
    then show ?thesis using k' by (simp add: pol'_def [symmetric] same_def)
  next
    case False
    then have eq: "k' = change_scheduler e p pol' pr reset k" using k' by simp
    note C = change_scheduler_params [OF assms(1) cl, where pol = pol' and pr = pr and reset = reset, folded eq]
    have P: "policy (tasks k' p) = pol'" "sched_reset_on_fork (tasks k' p) = reset"
      "rt_priority (tasks k' p) = (if pol' = SCHED_WRR then 0 else pr)"
      using C(2) by (simp_all add: task_params_def Let_def)
    have W: "pol' = SCHED_WRR \<and> pr \<noteq> 0 \<longrightarrow> weight (p_wrr (tasks k' p)) = word_of_int pr"
      using C(2) by (auto simp: task_params_def Let_def custom_part_def split: if_splits)
    have f: "find_process_by_pid e pid k' = Some p" using assms(4) C(1) by (simp add: find_process_by_pid_def split: if_splits)
    show ?thesis
      using False pid(1) f assms(5) P W C(3) reset_flag_split [of pol, folded pol'_def reset_def]
      by (simp add: pol'_def [symmetric] same_def sys_sched_getscheduler_def sys_sched_getparam_def) auto
  qed
qed

theorem sched_setscheduler_roundtrip_witness:
  "let k' = snd (sys_sched_setscheduler fifo_env 3 SCHED_WRR (User 7) sched_demo) in
     sys_sched_getscheduler fifo_env 3 k' = Inr SCHED_WRR \<and> sys_sched_getparam fifo_env 3 (User ()) k' = Inr 0 \<and>
     weight (p_wrr (tasks k' 3)) = 7"
proof -
  let ?r = "sys_sched_setscheduler fifo_env 3 SCHED_WRR (User 7) sched_demo"
  have find: "find_process_by_pid fifo_env 3 sched_demo = Some 3"
    by (simp add: find_process_by_pid_def fifo_env_def plain_env_def)
  have ok: "fst ?r = None"
    by (simp add: sys_sched_setscheduler_def do_sched_setscheduler_def find sched_setscheduler_def setscheduler_branches
        small_policy policy_defs valid_sched_priority_def prio_consts rt_policy_def)
      (simp add: fifo_env_def plain_env_def sched_demo_def boot_rq_def INIT_TASK_def policy_defs)
  have "policy (tasks sched_demo 3) = SCHED_NORMAL" by (simp add: sched_demo_def INIT_TASK_def)
  moreover have "security_task_getscheduler fifo_env 3 = None" "\<not> in_interrupt fifo_env sched_demo"
    by (simp_all add: fifo_env_def plain_env_def)
  ultimately show ?thesis
    using sched_setscheduler_roundtrip [OF fifo_env_ok sched_demo_inv _ find _, of SCHED_WRR 7 "snd ?r"] ok
    by (simp add: small_policy policy_defs rt_policy_def prod_eq_iff Let_def)
qed

text \<open>
  C21. A caller without \<^verbatim>\<open>CAP_SYS_NICE\<close> gains nothing it may not have. A refused call changes
  nothing and names \<^verbatim>\<open>EINVAL\<close>, \<^verbatim>\<open>EPERM\<close> or the error of the security module. A call that
  succeeds concerns a task of the caller's own user; it makes the task real-time only with a
  real-time limit, raises its real-time priority only within that limit, takes it out of
  \<^verbatim>\<open>SCHED_IDLE\<close> only if its nice value is allowed, and never clears reset-on-fork.
\<close>

theorem unprivileged_setscheduler_safe:
  assumes "env_ok e" and "sched_inv k" and "\<not> in_interrupt e k" and "\<not> capable_sys_nice e"
  shows "case sched_setscheduler e p pol pr k of
      (Some err, k') \<Rightarrow> k' = k \<and> (err = EINVAL \<or> err = EPERM \<or> security_task_setscheduler e p = Some err)
    | (None, k') \<Rightarrow>
        let t = tasks k p; t' = tasks k' p in
        check_same_owner e p k \<and>
        (rt_policy (policy t') \<longrightarrow> (policy t' = policy t \<or> rlimit_rtprio e p \<noteq> 0) \<and>
           (rt_priority t' \<le> rt_priority t \<or> word_of_int (rt_priority t') \<le> rlimit_rtprio e p)) \<and>
        (policy t = SCHED_IDLE \<and> policy t' \<noteq> SCHED_IDLE \<longrightarrow> can_nice e p (TASK_NICE t)) \<and>
        (sched_reset_on_fork t \<longrightarrow> sched_reset_on_fork t')"
proof -
  have cl: "sched_class (tasks k p) \<noteq> Stop_Class"
    using assms(2) inv_task(3) unfolding sched_inv_def by blast
  obtain r k' where run: "sched_setscheduler e p pol pr k = (r, k')" by (metis surj_pair)
  show ?thesis
  proof (cases r)
    case (Some err)
    then show ?thesis
      using run assms(3) by (auto simp: sched_setscheduler_def sched_setscheduler_common_def split: if_splits option.splits)
  next
    case None
    from run None assms(3,4) obtain reset pol' where d: "decode_policy pol (tasks k p) = Some (reset, pol')"
      and may: "unprivileged_may e p pol' pr reset k" and k': "k' = k \<or> k' = change_scheduler e p pol' pr reset k"
      by (auto simp: sched_setscheduler_def sched_setscheduler_common_def split: if_splits option.splits)
    note C = change_scheduler_params [OF assms(1) cl, where pol = pol' and pr = pr and reset = reset]
    define t t' where "t = tasks k p" and "t' = tasks k' p"
    have P: "policy t' = policy t \<and> rt_priority t' = rt_priority t \<and> sched_reset_on_fork t' = sched_reset_on_fork t \<or>
        policy t' = pol' \<and> sched_reset_on_fork t' = reset \<and> rt_priority t' = (if pol' = SCHED_WRR then 0 else pr)"
      using k' C(2) by (auto simp: task_params_def Let_def t_def t'_def)
    have "pol' \<noteq> SCHED_WRR" if "rt_policy pol'" using that by (auto simp: rt_policy_def policy_defs)
    moreover note may [unfolded unprivileged_may_def Let_def, folded t_def]
    ultimately have "check_same_owner e p k \<and>
        (rt_policy (policy t') \<longrightarrow> (policy t' = policy t \<or> rlimit_rtprio e p \<noteq> 0) \<and>
           (rt_priority t' \<le> rt_priority t \<or> word_of_int (rt_priority t') \<le> rlimit_rtprio e p)) \<and>
        (policy t = SCHED_IDLE \<and> policy t' \<noteq> SCHED_IDLE \<longrightarrow> can_nice e p (TASK_NICE t)) \<and>
        (sched_reset_on_fork t \<longrightarrow> sched_reset_on_fork t')"
      using P by (auto split: if_splits)
    then show ?thesis unfolding run None by (simp add: t_def t'_def)
  qed
qed

theorem unprivileged_setscheduler_safe_witness:
  "let e = fifo_env\<lparr>capable_sys_nice := False\<rparr> in
     sched_setscheduler e 3 SCHED_FIFO 7 sched_demo = (Some EPERM, sched_demo) \<and>
     policy (tasks (snd (sched_setscheduler e 3 SCHED_WRR 7 sched_demo)) 3) = SCHED_WRR"
proof -
  let ?e = "fifo_env\<lparr>capable_sys_nice := False\<rparr>"
  have e: "env_ok ?e" using fifo_env_ok by (simp add: env_ok_def)
  have f: "\<not> in_interrupt ?e sched_demo" "\<not> capable_sys_nice ?e" by (simp_all add: fifo_env_def plain_env_def)
  obtain r k' where r: "sched_setscheduler ?e 3 SCHED_FIFO 7 sched_demo = (r, k')" by (metis surj_pair)
  have "fst (sched_setscheduler ?e 3 SCHED_FIFO 7 sched_demo) = Some EPERM"
    by (simp add: sched_setscheduler_def setscheduler_branches small_policy policy_defs
        valid_sched_priority_def prio_consts rt_policy_def unprivileged_may_def)
      (simp add: fifo_env_def plain_env_def sched_demo_def boot_rq_def INIT_TASK_def policy_defs)
  then have s: "r = Some EPERM" by (simp add: r)
  have t: "policy (tasks sched_demo 3) = SCHED_NORMAL" "rt_priority (tasks sched_demo 3) = 0" "sched_reset_on_fork (tasks sched_demo 3) = False"
    "sched_class (tasks sched_demo 3) \<noteq> Stop_Class"
    by (simp_all add: sched_demo_def INIT_TASK_def)
  have w: "sched_setscheduler ?e 3 SCHED_WRR 7 sched_demo = (None, change_scheduler ?e 3 SCHED_WRR 7 False sched_demo)"
    using t by (simp add: sched_setscheduler_def setscheduler_branches small_policy policy_defs valid_sched_priority_def prio_consts
        rt_policy_def unprivileged_may_def check_same_owner_def)
      (simp add: fifo_env_def plain_env_def sched_demo_def boot_rq_def)
  have "policy (tasks (snd (sched_setscheduler ?e 3 SCHED_WRR 7 sched_demo)) 3) = SCHED_WRR"
    using change_scheduler_params(2) [OF e t(4), of SCHED_WRR 7 False] by (simp add: w task_params_def Let_def)
  moreover have "k' = sched_demo"
    using unprivileged_setscheduler_safe [OF e sched_demo_inv f, of 3 SCHED_FIFO 7] unfolding r s by simp
  ultimately show ?thesis unfolding Let_def r s by simp
qed

text \<open>
  Which requests are well formed. With a policy that \<^verbatim>\<open>sched_get_priority_min()\<close> and
  \<^verbatim>\<open>sched_get_priority_max()\<close> know, the kernel's own setter accepts exactly the priorities
  between the two, and it refuses every unknown policy. \<^verbatim>\<open>SCHED_WRR\<close> is the exception: its
  weight may be 0 to 99, but the two calls answer \<^verbatim>\<open>EINVAL\<close> for it.
\<close>

theorem sched_priority_ranges:
  assumes "0 \<le> pol" and "pol < 2 ^ 30" and "stop (rq k) \<noteq> Some p" and "\<not> in_interrupt e k"
  shows "(fst (sched_setscheduler_nocheck e p pol pr k) = None \<longleftrightarrow>
      (if pol = SCHED_WRR then 0 \<le> pr \<and> pr \<le> 99
       else \<exists>lo hi. sys_sched_get_priority_min pol = Inr lo \<and> sys_sched_get_priority_max pol = Inr hi \<and> lo \<le> pr \<and> pr \<le> hi)) \<and>
    (fst (sched_setscheduler_nocheck e p pol pr k) \<in> {None, Some EINVAL}) \<and>
    sys_sched_get_priority_min SCHED_WRR = Inl EINVAL \<and> sys_sched_get_priority_max SCHED_WRR = Inl EINVAL"
proof -
  have r: "fst (sched_setscheduler_nocheck e p pol pr k) =
      (if pol \<in> {SCHED_FIFO, SCHED_RR, SCHED_WRR, SCHED_NORMAL, SCHED_BATCH, SCHED_IDLE} \<and> valid_sched_priority pol pr (tasks k p)
       then None else Some EINVAL)"
  proof -
    define known where "known \<longleftrightarrow> pol \<in> {SCHED_FIFO, SCHED_RR, SCHED_WRR, SCHED_NORMAL, SCHED_BATCH, SCHED_IDLE}"
    have "decode_policy pol (tasks k p) = (if known then Some (False, pol) else None)"
      unfolding decode_policy_def Let_def small_policy [OF assms(1,2)] known_def using assms(1) by simp
    then show ?thesis
      using assms(3,4) unfolding known_def [symmetric] sched_setscheduler_nocheck_def sched_setscheduler_common_def
      by (cases known) simp_all
  qed
  show ?thesis
    unfolding r valid_sched_priority_iff
    by (simp add: rt_policy_def policy_defs prio_consts sys_sched_get_priority_min_def sys_sched_get_priority_max_def) auto
qed

theorem sched_priority_ranges_witness:
  "fst (sched_setscheduler_nocheck fifo_env 3 SCHED_RR 100 sched_demo) \<noteq> None \<and>
   fst (sched_setscheduler_nocheck fifo_env 3 SCHED_WRR 0 sched_demo) = None"
  using sched_priority_ranges [of SCHED_RR sched_demo 3 fifo_env 100] sched_priority_ranges [of SCHED_WRR sched_demo 3 fifo_env 0]
  by (simp add: policy_defs sched_demo_def boot_rq_def fifo_env_def plain_env_def sys_sched_get_priority_max_def prio_consts)

end
