(* ===== verification/Task_Claims.thy ===== *)
theory Task_Claims
  imports Setsched_Claims
begin

text \<open>
  What happens to one task: waking up into the WRR class, being forked, and getting its load
  weight from its nice value.
\<close>

section \<open>Waking up\<close>

text \<open>A waking WRR task asks the current one to make room only if that is of a lower class.\<close>

lemma preempt_by_wrr:
  assumes "env_ok e" and "sched_class (tasks k p) = Wrr_Class" and "sched_class (curr_task k) \<noteq> Stop_Class"
    and "sched_class (curr_task k) \<noteq> Wrr_Class"
  shows "preempt_by_class (all_classes e) p k =
    (if sched_class (curr_task k) \<in> {Fair_Class, Idle_Class} then resched_task (curr (rq k)) k else k)"
proof -
  obtain cs where cs: "all_classes e = [Stop_Class, Rt_Class, Wrr_Class, Fair_Class, Idle_Class] @ cs"
    using all_classes_eq [OF assms(1)] by blast
  show ?thesis using assms(2-) by (cases "sched_class (curr_task k)") (simp_all add: cs)
qed

lemma check_preempt_curr_wrr_eq:
  assumes "env_ok e" and "sched_class (tasks k p) = Wrr_Class" and "sched_class (curr_task k) \<noteq> Stop_Class"
  obtains sk where "check_preempt_curr e p fl k = rq_update (skip_clock_update_update (\<lambda>_. sk))
      (if sched_class (curr_task k) \<in> {Fair_Class, Idle_Class} then resched_task (curr (rq k)) k else k)"
proof -
  define k1 where "k1 = (if sched_class (curr_task k) \<in> {Fair_Class, Idle_Class} then resched_task (curr (rq k)) k else k)"
  have "(if sched_class (tasks k p) = sched_class (curr_task k) then check_preempt_curr_op (ops e k (curr (rq k))) p fl k
      else preempt_by_class (all_classes e) p k) = k1"
    using preempt_by_wrr [OF assms] assms(2)
    by (cases "sched_class (curr_task k) = Wrr_Class")
      (simp_all add: k1_def class_ops_def wrr_sched_class_def check_preempt_curr_wrr_def)
  then have "check_preempt_curr e p fl k =
      (if on_rq (curr_task k1) \<and> need_resched (curr_task k1) then rq_update (skip_clock_update_update (\<lambda>_. 1)) k1 else k1)"
    unfolding check_preempt_curr_def Let_def by (rule arg_cong)
  then have "check_preempt_curr e p fl k = rq_update (skip_clock_update_update (\<lambda>_. if on_rq (curr_task k1) \<and> need_resched (curr_task k1)
      then 1 else skip_clock_update (rq k1))) k1"
    by simp
  then show ?thesis using that by (simp add: k1_def)
qed

text \<open>The task and the queue after \<^verbatim>\<open>ttwu_activate()\<close>.\<close>

lemma ttwu_activate_wrr:
  assumes "sched_class (tasks k p) = Wrr_Class" and "fl AND ENQUEUE_HEAD = 0" and "p \<notin> set (active (wrr (rq k)))"
    and k': "k' = ttwu_activate e p fl k"
  shows "tasks k' = (tasks k)(p := (tasks k p)\<lparr>p_wrr := (p_wrr (tasks k p))
        \<lparr>weight := wrr_weight e k p, time_slice := wrr_weight e k p * WRR_WEIGHT_UNIT\<rparr>, on_rq := True\<rparr>)"
    "active (wrr (rq k')) = active (wrr (rq k)) @ [p]" "nr_running (rq k') = nr_running (rq k) + 1"
    "curr (rq k') = curr (rq k)"
proof -
  define k1 where "k1 = ext_call (Sched_Info_Queued p) (update_rq_clock
    (if task_contributes_to_load (tasks k p) then rq_update (nr_uninterruptible_update (\<lambda>n. n - 1)) k else k))"
  have f: "tasks k1 = tasks k" "active (wrr (rq k1)) = active (wrr (rq k))" "nr_running (rq k1) = nr_running (rq k)"
    "curr (rq k1) = curr (rq k)" "tg_cgroup k1 = tg_cgroup k" "wrr_group_path k1 = wrr_group_path k"
    by (simp_all add: k1_def ext_call_def update_rq_clock_def update_rq_clock_task_def Let_def)
  have w: "wrr_weight e k1 p = wrr_weight e k p"
    by (simp add: wrr_weight_def is_background_def task_group_path_def f split: option.split)
  define k2 where "k2 = upd_task p (on_rq_update (\<lambda>_. True)) (enqueue_task_wrr e p fl k1)"
  have k2: "k' = k2 \<or> k' = ext_call (Wq_Worker_Waking_Up p) k2"
    using assms(1) f(1)
    by (simp add: k' ttwu_activate_def activate_task_def enqueue_task_def Let_def k2_def k1_def [symmetric]
        class_ops_def wrr_sched_class_def)
  have "tasks k2 = (tasks k)(p := (tasks k p)\<lparr>p_wrr := (p_wrr (tasks k p))
        \<lparr>weight := wrr_weight e k p, time_slice := wrr_weight e k p * WRR_WEIGHT_UNIT\<rparr>, on_rq := True\<rparr>)"
    "active (wrr (rq k2)) = active (wrr (rq k)) @ [p]" "nr_running (rq k2) = nr_running (rq k) + 1" "curr (rq k2) = curr (rq k)"
    using assms(2,3) by (simp_all add: k2_def tasks_enqueue_task_wrr rq_enqueue_task_wrr f w list_ops)
  then show "tasks k' = (tasks k)(p := (tasks k p)\<lparr>p_wrr := (p_wrr (tasks k p))
        \<lparr>weight := wrr_weight e k p, time_slice := wrr_weight e k p * WRR_WEIGHT_UNIT\<rparr>, on_rq := True\<rparr>)"
    "active (wrr (rq k')) = active (wrr (rq k)) @ [p]" "nr_running (rq k') = nr_running (rq k) + 1"
    "curr (rq k') = curr (rq k)"
    using k2 by (auto simp: ext_call_def)
qed

section \<open>Properties\<close>

text \<open>
  C22. Waking a sleeping WRR task puts it at the tail of the WRR queue, runnable, with the weight
  of its group (or the one it was given) and a full time slice. It asks the current task to
  reschedule exactly when that is a fair task or the idle task: a task of the real-time class
  and other WRR tasks are not preempted.
\<close>

theorem wake_up_wrr_task:
  assumes "env_ok e" and "sched_inv k" and "sched_class (tasks k p) = Wrr_Class" and "\<not> on_rq (tasks k p)"
    and "tsk_state (tasks k p) AND st \<noteq> 0"
  shows "\<exists>k'. try_to_wake_up e p st fl k = (True, k') \<and> active (wrr (rq k')) = active (wrr (rq k)) @ [p] \<and>
    on_rq (tasks k' p) \<and> tsk_state (tasks k' p) = TASK_RUNNING \<and> nr_running (rq k') = nr_running (rq k) + 1 \<and>
    weight (p_wrr (tasks k' p)) = wrr_weight e k p \<and> time_slice (p_wrr (tasks k' p)) = wrr_weight e k p * WRR_WEIGHT_UNIT \<and>
    (need_resched (curr_task k') \<longleftrightarrow> need_resched (curr_task k) \<or> sched_class (curr_task k) \<in> {Fair_Class, Idle_Class})"
proof -
  have run: "run_inv k" and idl: "sched_class (tasks k (idle (rq k))) = Idle_Class"
    using assms(2) sched_inv_qD(7) by (auto simp: sched_inv_def run_inv_def)
  have ns: "sched_class (curr_task k) \<noteq> Stop_Class" using inv_task(3) [OF run] .
  have nin: "p \<notin> set (active (wrr (rq k)))"
    using run assms(4) sched_inv_qD(3) [of "\<lambda>q. on_rq (tasks k q)" k p] by (simp add: run_inv_def wrr_queued_def)
  have pc: "p \<noteq> curr (rq k)"
    using assms(2-4) idl by (auto simp: sched_inv_def curr_ok_def)
  define k1 where "k1 = ttwu_activate e p (ENQUEUE_WAKEUP OR ENQUEUE_WAKING) k"
  have "(ENQUEUE_WAKEUP OR ENQUEUE_WAKING) AND ENQUEUE_HEAD = 0" by (simp add: flag_defs)
  note A = ttwu_activate_wrr [OF assms(3) this nin k1_def]
  have c: "curr_task k1 = curr_task k" using A pc by simp
  have "sched_class (tasks k1 p) = Wrr_Class" using A assms(3) by simp
  from check_preempt_curr_wrr_eq [OF assms(1) this ns [folded c], of 0] obtain sk
    where pr: "check_preempt_curr e p 0 k1 = rq_update (skip_clock_update_update (\<lambda>_. sk))
      (if sched_class (curr_task k) \<in> {Fair_Class, Idle_Class} then resched_task (curr (rq k1)) k1 else k1)"
    unfolding c by blast
  have t: "try_to_wake_up e p st fl k =
      (True, ttwu_stat p fl (upd_task p (tsk_state_update (\<lambda>_. TASK_RUNNING)) (check_preempt_curr e p 0 k1)))"
    using assms(4,5) by (simp add: try_to_wake_up_def ttwu_queue_def ttwu_do_activate_def ttwu_do_wakeup_def k1_def)
  show ?thesis
    unfolding t pr using A pc
    by (cases "sched_class (curr_task k) \<in> {Fair_Class, Idle_Class}") (simp_all add: ttwu_stat_def Let_def small_defs)
qed

theorem wake_up_wrr_task_witness:
  "let k' = snd (try_to_wake_up fifo_env 2 TASK_NORMAL 0 sched_demo) in
     active (wrr (rq k')) = [2] \<and> need_resched (tasks k' 0) \<and> time_slice (p_wrr (tasks k' 2)) = 10"
proof -
  have f: "sched_class (tasks sched_demo 2) = Wrr_Class" "\<not> on_rq (tasks sched_demo 2)" "curr (rq sched_demo) = 0"
    "tsk_state (tasks sched_demo 2) AND TASK_NORMAL \<noteq> 0" "sched_class (tasks sched_demo 0) = Idle_Class"
    "wrr_weight fifo_env sched_demo 2 = 10"
    by (simp_all add: sched_demo_def INIT_TASK_def task_state_defs boot_rq_def wrr_weight_def is_background_def
        task_group_path_def fifo_env_def plain_env_def boot_kernel_def write_path_def WRR_FG_WEIGHT_def)
  have "curr (rq (snd (try_to_wake_up fifo_env 2 TASK_NORMAL 0 sched_demo))) = 0"
    using try_to_wake_up_step [OF fifo_env_ok, of sched_demo 2 TASK_NORMAL 0] sched_demo_inv f(3)
    by (simp add: sched_inv_def good_step_def PID_MAX_LIMIT_def)
  then show ?thesis
    using wake_up_wrr_task [OF fifo_env_ok sched_demo_inv f(1,2,4), of 0] f by (auto simp: sched_demo_facts)
qed

text \<open>
  C23. What a forked task gets. It is off the run queue, runnable, cannot be preempted yet and
  does not hand the reset-on-fork flag on. Its priority is the normal one of its parent, so that
  a priority the parent holds by inheritance is not leaked. With reset-on-fork it is no
  real-time task and its nice value is not negative; but the policy of a WRR parent is kept,
  which the comment on the reset does not say.
\<close>

theorem sched_fork_child_gets:
  assumes "env_ok e" and "sched_inv k"
  shows "let par = curr_task k; t = tasks (forked e p k) p in
    \<not> on_rq t \<and> tsk_state t = TASK_RUNNING \<and> preempt_count t = 1 \<and> \<not> sched_reset_on_fork t \<and>
    (\<not> sched_reset_on_fork par \<longrightarrow> policy t = policy par \<and> prio t = normal_prio par \<and> static_prio t = static_prio par) \<and>
    (sched_reset_on_fork par \<longrightarrow> \<not> rt_task t \<and> \<not> rt_policy (policy t) \<and> 0 \<le> TASK_NICE t \<and> prio t = static_prio t) \<and>
    (policy par = SCHED_WRR \<longrightarrow> policy t = SCHED_WRR) \<and>
    (\<not> rt_task t \<longrightarrow> sched_class t = (if policy t = SCHED_WRR then Wrr_Class else Fair_Class))"
proof -
  have run: "run_inv k" using assms(2) by (simp add: sched_inv_def)
  note ok = inv_task(1) [OF run, of "curr (rq k)"]
  note ch = child_ok [OF ok]
  have wrr_rt: "\<not> rt_policy SCHED_WRR" "\<not> rt_policy SCHED_NORMAL" by (simp_all add: rt_policy_def policy_defs)
  show ?thesis
  proof (rule sched_fork_child [of e p k])
    fix t
    assume eq: "forked e p k =
        (let k4 = upd_task p (\<lambda>_. t) k
         in upd_task p (preempt_count_update (\<lambda>_. 1)) (case task_fork_op (ops e k4 p) of Some f \<Rightarrow> f p k4 | None \<Rightarrow> k4))"
      and t: "policy t = child_policy (curr_task k)" "static_prio t = child_static_prio (curr_task k)"
        "prio t = child_prio (curr_task k)" "sched_class t = child_class (curr_task k)"
        "\<not> on_rq t" "tsk_state t = TASK_RUNNING" "\<not> sched_reset_on_fork t"
    define k4 where "k4 = upd_task p (\<lambda>_. t) k"
    define k5 where "k5 = (case task_fork_op (ops e k4 p) of Some f \<Rightarrow> f p k4 | None \<Rightarrow> k4)"
    have ns: "sched_class (tasks k4 p) \<noteq> Stop_Class" using ch t by (simp add: k4_def)
    have keep: "sched_keep k4 k5" "params_keep k4 k5"
      using class_contract.task_fork [OF class_ops_contract [OF assms(1) ns]]
        class_params.task_fork [OF class_ops_params [OF assms(1) ns]] by (auto simp: k5_def split: option.split)
    define t' where "t' = tasks k5 p"
    have r: "sched_reset_on_fork t' = sched_reset_on_fork t"
      using params_keepD(1) [OF keep(2), of p] by (simp add: t'_def k4_def task_params_def)
    have st: "tsk_state t' = TASK_RUNNING" using sched_keepD(12) [OF keep(1), of p] t(6) by (auto simp: t'_def k4_def)
    have S: "task_static t' = task_static t" using sched_keepD(1) [OF keep(1), of p] by (simp add: t'_def k4_def)
    have f: "tasks (forked e p k) p = t'\<lparr>preempt_count := 1\<rparr>" unfolding eq k4_def [symmetric] Let_def k5_def [symmetric] by (simp add: t'_def)
    show ?thesis
      unfolding f using t r st task_staticD [OF S] ch wrr_rt ok
      by (auto simp: Let_def child_policy_def child_prio_def child_static_prio_def child_class_def rt_task_def rt_prio_def
          task_has_rt_policy_def TASK_NICE_def PRIO_TO_NICE_def NICE_TO_PRIO_def prio_consts task_ok_def)
  qed
qed

theorem sched_fork_child_gets_witness:
  "policy (tasks (forked fifo_env 5 sched_demo) 5) = SCHED_NORMAL \<and> \<not> on_rq (tasks (forked fifo_env 5 sched_demo) 5)"
proof -
  have "\<not> sched_reset_on_fork (curr_task sched_demo)" "policy (curr_task sched_demo) = SCHED_NORMAL"
    by (simp_all add: sched_demo_def boot_rq_def INIT_TASK_def)
  then show ?thesis using sched_fork_child_gets [OF fifo_env_ok sched_demo_inv, of 5] by (simp add: Let_def)
qed

text \<open>
  C24. The load weight of a task. In every consistent state the nice value of a task selects an
  entry inside the two tables, the inverse weight is less than one off the quotient of 2^32 by the
  weight (so that multiplying with it divides by the weight), the idle policy has the least weight, and
  one nice level more or less changes the weight by a factor between 1.2 and 1.28.
\<close>

theorem load_weight_tables:
  assumes "sched_inv k"
  shows "let lw = load (p_se (tasks (set_load_weight p k) p)); i = nat (static_prio (tasks k p) - MAX_RT_PRIO) in
    i < length prio_to_weight \<and> i < length prio_to_wmult \<and>
    \<bar>uint (lw_weight lw) * uint (lw_inv_weight lw) - 2 ^ 32\<bar> < uint (lw_weight lw) \<and>
    (if policy (tasks k p) = SCHED_IDLE then uint (lw_weight lw) = 3 else 15 \<le> uint (lw_weight lw) \<and> uint (lw_weight lw) \<le> 88761) \<and>
    (Suc i < length prio_to_weight \<longrightarrow>
       120 * uint (prio_to_weight ! Suc i) \<le> 100 * uint (prio_to_weight ! i) \<and>
       100 * uint (prio_to_weight ! i) \<le> 128 * uint (prio_to_weight ! Suc i))"
proof -
  define i where "i = nat (static_prio (tasks k p) - MAX_RT_PRIO)"
  have "task_ok (tasks k p)" using assms inv_task(1) unfolding sched_inv_def by blast
  then have i: "i < 40" by (auto simp: i_def task_ok_def prio_consts)
  have inverse: "\<forall>i < 40. \<bar>uint (prio_to_weight ! i) * uint (prio_to_wmult ! i) - 2 ^ 32\<bar> < uint (prio_to_weight ! i) \<and>
      15 \<le> uint (prio_to_weight ! i) \<and> uint (prio_to_weight ! i) \<le> 88761"
    by code_simp
  have ratio: "\<forall>i < 39. 120 * uint (prio_to_weight ! Suc i) \<le> 100 * uint (prio_to_weight ! i) \<and>
       100 * uint (prio_to_weight ! i) \<le> 128 * uint (prio_to_weight ! Suc i)"
    by code_simp
  have len: "length prio_to_weight = 40" "length prio_to_wmult = 40" by (simp_all add: prio_to_weight_def prio_to_wmult_def)
  show ?thesis
    using i inverse ratio unfolding len i_def [symmetric] Let_def
    by (simp add: set_load_weight_def i_def [symmetric] WEIGHT_IDLEPRIO_def WMULT_IDLEPRIO_def)
qed

theorem load_weight_tables_witness:
  "let lw = load (p_se (tasks (set_load_weight 3 sched_demo) 3)) in
     \<bar>uint (lw_weight lw) * uint (lw_inv_weight lw) - 2 ^ 32\<bar> < uint (lw_weight lw)"
  using load_weight_tables [OF sched_demo_inv, of 3] by (simp add: Let_def)

end
