(* ===== verification/Rt_Admission.thy ===== *)
theory Rt_Admission
  imports Setsched
begin

text \<open>
  Admission control for the run time of real-time groups, \<^verbatim>\<open>kernel/sched/core.c\<close>: the walk of
  the tree of task groups, the check that every group can be given the run time it is promised,
  and the calls of the cgroup files and of the sysctl that set it.
\<close>

section \<open>Walking the tree of task groups\<close>

text \<open>
  \<^verbatim>\<open>tg->children\<close>: \<^verbatim>\<open>sched_create_group()\<close> adds a group at the head of the list of all
  groups and of the children of its parent, so that both are in the same order.
\<close>

definition tg_children :: "'f kernel \<Rightarrow> tgid \<Rightarrow> tgid list" where
  "tg_children k g = filter (\<lambda>h. path_parent h = Some g) (task_groups k)"

type_synonym 's tg_visitor = "tgid \<Rightarrow> 's \<Rightarrow> errno option \<times> 's"

definition tg_nop :: "'s tg_visitor" where
  "tg_nop tg s = (None, s)"

text \<open>
  \<^verbatim>\<open>walk_tg_tree_from()\<close> jumps between two places: the label \<^verbatim>\<open>down\<close> with the group to enter,
  and the loop over the children of a group, with those that are still to be entered; at the
  label \<^verbatim>\<open>up\<close> the loop goes on behind the child that was left.
\<close>

datatype walk_at = At_Down tgid | At_Loop tgid "tgid list"

definition siblings_after :: "tgid \<Rightarrow> tgid list \<Rightarrow> tgid list" where
  "siblings_after c cs = tl (dropWhile (\<lambda>x. x \<noteq> c) cs)"

partial_function (option) walk_loop ::
  "(tgid \<Rightarrow> tgid list) \<Rightarrow> tgid \<Rightarrow> 's tg_visitor \<Rightarrow> 's tg_visitor \<Rightarrow> walk_at \<Rightarrow> 's \<Rightarrow> (errno option \<times> 's) option" where
  "walk_loop ch from down up at s =
     (case at of
        At_Down p \<Rightarrow>
          (case down p s of
             (Some err, s') \<Rightarrow> Some (Some err, s')
           | (None, s') \<Rightarrow> walk_loop ch from down up (At_Loop p (ch p)) s')
      | At_Loop p cs \<Rightarrow>
          (case cs of
             c # _ \<Rightarrow> walk_loop ch from down up (At_Down c) s
           | [] \<Rightarrow>
             (case up p s of
                (Some err, s') \<Rightarrow> Some (Some err, s')
              | (None, s') \<Rightarrow>
                  if p = from then Some (None, s')
                  else case path_parent p of
                         None \<Rightarrow> Some (None, s')
                       | Some q \<Rightarrow> walk_loop ch from down up (At_Loop q (siblings_after p (ch q))) s')))"

declare walk_loop.simps [code]

definition walk_tg_tree_from ::
  "(tgid \<Rightarrow> tgid list) \<Rightarrow> tgid \<Rightarrow> 's tg_visitor \<Rightarrow> 's tg_visitor \<Rightarrow> 's \<Rightarrow> (errno option \<times> 's) option" where
  "walk_tg_tree_from ch from down up s = walk_loop ch from down up (At_Down from) s"

definition walk_tg_tree ::
  "(tgid \<Rightarrow> tgid list) \<Rightarrow> 's tg_visitor \<Rightarrow> 's tg_visitor \<Rightarrow> 's \<Rightarrow> (errno option \<times> 's) option" where
  "walk_tg_tree ch down up s = walk_tg_tree_from ch [] down up s"

section \<open>What a group is promised\<close>

definition NSEC_PER_USEC :: u64 where "NSEC_PER_USEC = 1000"

definition global_rt_period :: "'f kernel \<Rightarrow> u64" where
  "global_rt_period k = ucast (sysctl_sched_rt_period k) * NSEC_PER_USEC"

definition global_rt_runtime :: "'f kernel \<Rightarrow> u64" where
  "global_rt_runtime k =
     (if sysctl_sched_rt_runtime k < 0 then RUNTIME_INF
      else word_of_int (sysctl_sched_rt_runtime k) * NSEC_PER_USEC)"

text \<open>The share of the processor in units of 2^-20; shift and result wrap.\<close>

definition to_ratio :: "u64 \<Rightarrow> u64 \<Rightarrow> ulong" where
  "to_ratio period runtime =
     (if runtime = RUNTIME_INF then ucast (push_bit 20 1 :: u64)
      else ucast (push_bit 20 runtime div period))"

text \<open>
  \<^verbatim>\<open>task_rq(p)->rt.tg\<close> is the group of the run queue's own real-time queue: the root group.
\<close>

definition tg_has_rt_tasks :: "tgid \<Rightarrow> 'f kernel \<Rightarrow> bool" where
  "tg_has_rt_tasks tg k = list_ex (\<lambda>p. rt_task (tasks k p) \<and> [] = tg) (threads k)"

record rt_schedulable_data =
  sd_tg :: "tgid option"
  sd_rt_period :: u64
  sd_rt_runtime :: u64

text \<open>The period and run time of a group, with those that are to be set in the place of its own.\<close>

definition proposed_bw :: "'f kernel \<Rightarrow> rt_schedulable_data \<Rightarrow> tgid \<Rightarrow> u64 \<times> u64" where
  "proposed_bw k d tg =
     (if Some tg = sd_tg d then (sd_rt_period d, sd_rt_runtime d)
      else (rt_period (rt_bandwidths k tg), bw_rt_runtime (rt_bandwidths k tg)))"

definition tg_rt_schedulable :: "'f kernel \<Rightarrow> tgid \<Rightarrow> rt_schedulable_data \<Rightarrow> errno option \<times> rt_schedulable_data" where
  "tg_rt_schedulable k tg d =
     (let (period, runtime) = proposed_bw k d tg
      in if runtime > period \<and> runtime \<noteq> RUNTIME_INF then (Some EINVAL, d)
         else if rt_bandwidth_enabled k \<and> runtime = 0 \<and> tg_has_rt_tasks tg k then (Some EBUSY, d)
         else
           let total = to_ratio period runtime
           in if total > to_ratio (global_rt_period k) (global_rt_runtime k) then (Some EINVAL, d)
              else
                let sum = foldl (\<lambda>sum child. let (period, runtime) = proposed_bw k d child
                            in sum + to_ratio period runtime) 0 (tg_children k tg)
                in if sum > total then (Some EINVAL, d) else (None, d))"

text \<open>\<open>None\<close> is a walk that does not end.\<close>

definition rt_schedulable :: "tgid option \<Rightarrow> u64 \<Rightarrow> u64 \<Rightarrow> 'f kernel \<Rightarrow> errno option option" where
  "rt_schedulable tg period runtime k =
     map_option fst (walk_tg_tree (tg_children k) (tg_rt_schedulable k) tg_nop
       \<lparr>sd_tg = tg, sd_rt_period = period, sd_rt_runtime = runtime\<rparr>)"

section \<open>Setting and reading\<close>

definition tg_set_rt_bandwidth :: "tgid \<Rightarrow> u64 \<Rightarrow> u64 \<Rightarrow> 'f kernel \<Rightarrow> (errno option \<times> 'f kernel) option" where
  "tg_set_rt_bandwidth tg period runtime k =
     (case rt_schedulable (Some tg) period runtime k of
        None \<Rightarrow> None
      | Some (Some err) \<Rightarrow> Some (Some err, k)
      | Some None \<Rightarrow>
          let k1 = rt_bandwidths_update (\<lambda>b. b(tg := (b tg)\<lparr>rt_period := period, bw_rt_runtime := runtime\<rparr>)) k
          in Some (None, upd_rt tg (rt_runtime_update (\<lambda>_. runtime)) k1))"

text \<open>A \<^verbatim>\<open>long\<close> is given by its bits; the conversion to \<^verbatim>\<open>u64\<close> extends the sign.\<close>

definition sched_group_set_rt_runtime :: "tgid \<Rightarrow> ulong \<Rightarrow> 'f kernel \<Rightarrow> (errno option \<times> 'f kernel) option" where
  "sched_group_set_rt_runtime tg rt_runtime_us k =
     (let period = rt_period (rt_bandwidths k tg);
          runtime = scast rt_runtime_us * NSEC_PER_USEC;
          runtime = (if sint rt_runtime_us < 0 then RUNTIME_INF else runtime)
      in tg_set_rt_bandwidth tg period runtime k)"

definition sched_group_rt_runtime :: "tgid \<Rightarrow> 'f kernel \<Rightarrow> ulong" where
  "sched_group_rt_runtime tg k =
     (if bw_rt_runtime (rt_bandwidths k tg) = RUNTIME_INF then - 1
      else ucast (bw_rt_runtime (rt_bandwidths k tg) div NSEC_PER_USEC))"

definition sched_group_set_rt_period :: "tgid \<Rightarrow> ulong \<Rightarrow> 'f kernel \<Rightarrow> (errno option \<times> 'f kernel) option" where
  "sched_group_set_rt_period tg rt_period_us k =
     (let period = scast rt_period_us * NSEC_PER_USEC;
          runtime = bw_rt_runtime (rt_bandwidths k tg)
      in if period = 0 then Some (Some EINVAL, k) else tg_set_rt_bandwidth tg period runtime k)"

definition sched_group_rt_period :: "tgid \<Rightarrow> 'f kernel \<Rightarrow> ulong" where
  "sched_group_rt_period tg k = ucast (rt_period (rt_bandwidths k tg) div NSEC_PER_USEC)"

definition sched_rt_global_constraints :: "'f kernel \<Rightarrow> errno option option" where
  "sched_rt_global_constraints k =
     (if sysctl_sched_rt_period k \<le> 0 then Some (Some EINVAL)
      else
        let runtime = global_rt_runtime k;
            period = global_rt_period k
        in if runtime > period \<and> runtime \<noteq> RUNTIME_INF then Some (Some EINVAL)
           else rt_schedulable None 0 0 k)"

text \<open>
  \<^verbatim>\<open>sched_rt_handler()\<close>: \<^verbatim>\<open>proc_dointvec()\<close>, which is in \<^verbatim>\<open>kernel/sysctl.c\<close>, returns an error
  or, for a write, has set the two values from the user's buffer to \<open>new\<close>.
\<close>

definition sched_rt_handler ::
  "bool \<Rightarrow> errno + (u32 \<times> int) \<Rightarrow> 'f kernel \<Rightarrow> (errno option \<times> 'f kernel) option" where
  "sched_rt_handler write new k =
     (let old_period = sysctl_sched_rt_period k;
          old_runtime = sysctl_sched_rt_runtime k
      in case new of
           Inl err \<Rightarrow> Some (Some err, k)
         | Inr (period, runtime) \<Rightarrow>
             let k1 = (if write then k\<lparr>sysctl_sched_rt_period := period, sysctl_sched_rt_runtime := runtime\<rparr> else k)
             in if \<not> write then Some (None, k1)
                else case sched_rt_global_constraints k1 of
                  None \<Rightarrow> None
                | Some (Some err) \<Rightarrow>
                    Some (Some err, k1\<lparr>sysctl_sched_rt_period := old_period, sysctl_sched_rt_runtime := old_runtime\<rparr>)
                | Some None \<Rightarrow>
                    Some (None, k1\<lparr>def_rt_bandwidth := (def_rt_bandwidth k1)
                      \<lparr>bw_rt_runtime := global_rt_runtime k1, rt_period := global_rt_period k1\<rparr>\<rparr>))"

section \<open>The files of the cpu controller\<close>

text \<open>The argument is narrowed to \<^verbatim>\<open>long\<close>, the result widened.\<close>

definition cpu_rt_runtime_write :: "tgid \<Rightarrow> u64 \<Rightarrow> 'f kernel \<Rightarrow> (errno option \<times> 'f kernel) option" where
  "cpu_rt_runtime_write cgrp val k = sched_group_set_rt_runtime cgrp (ucast val) k"

definition cpu_rt_runtime_read :: "tgid \<Rightarrow> 'f kernel \<Rightarrow> u64" where
  "cpu_rt_runtime_read cgrp k = scast (sched_group_rt_runtime cgrp k)"

definition cpu_rt_period_write_uint :: "tgid \<Rightarrow> u64 \<Rightarrow> 'f kernel \<Rightarrow> (errno option \<times> 'f kernel) option" where
  "cpu_rt_period_write_uint cgrp rt_period_us k = sched_group_set_rt_period cgrp (ucast rt_period_us) k"

definition cpu_rt_period_read_uint :: "tgid \<Rightarrow> 'f kernel \<Rightarrow> u64" where
  "cpu_rt_period_read_uint cgrp k = scast (sched_group_rt_period cgrp k)"

end
