(* ===== verification/Rt_Admission_Props.thy ===== *)
theory Rt_Admission_Props
  imports Rt_Admission Core_Claims
begin

text \<open>
  The walk of the group tree visits every group once, parents first, and ends; the check it
  carries decides whether the whole tree can be served; no accepted change promises more.
\<close>

section \<open>The walk\<close>

text \<open>The visits of a walk in order, for a tree of a depth less than \<open>n\<close>.\<close>

datatype visit = Enter tgid | Leave tgid

fun visits :: "nat \<Rightarrow> (tgid \<Rightarrow> tgid list) \<Rightarrow> tgid \<Rightarrow> visit list" where
  "visits 0 ch p = []"
| "visits (Suc n) ch p = Enter p # concat (map (visits n ch) (ch p)) @ [Leave p]"

text \<open>Carrying visits out, up to the first error.\<close>

fun run_visits :: "'s tg_visitor \<Rightarrow> 's tg_visitor \<Rightarrow> visit list \<Rightarrow> 's \<Rightarrow> errno option \<times> 's" where
  "run_visits down up [] s = (None, s)"
| "run_visits down up (v # vs) s =
     (case (case v of Enter p \<Rightarrow> down p s | Leave p \<Rightarrow> up p s) of
        (Some err, s') \<Rightarrow> (Some err, s') | (None, s') \<Rightarrow> run_visits down up vs s')"

lemma run_visits_append:
  "run_visits down up (vs @ ws) s =
     (case run_visits down up vs s of (Some err, s') \<Rightarrow> (Some err, s') | (None, s') \<Rightarrow> run_visits down up ws s')"
  by (induction vs arbitrary: s) (auto split: prod.split option.split)

text \<open>What a walk goes on with once it has left a group without an error.\<close>

definition walk_after ::
  "(tgid \<Rightarrow> tgid list) \<Rightarrow> tgid \<Rightarrow> 's tg_visitor \<Rightarrow> 's tg_visitor \<Rightarrow> tgid \<Rightarrow> errno option \<times> 's \<Rightarrow> (errno option \<times> 's) option" where
  "walk_after ch from down up p r =
     (case r of
        (Some err, s) \<Rightarrow> Some (Some err, s)
      | (None, s) \<Rightarrow>
          if p = from then Some (None, s)
          else case path_parent p of None \<Rightarrow> Some (None, s)
               | Some q \<Rightarrow> walk_loop ch from down up (At_Loop q (siblings_after p (ch q))) s)"

lemma siblings_after_split: "c \<notin> set as \<Longrightarrow> siblings_after c (as @ c # bs) = bs"
  by (induction as) (auto simp: siblings_after_def)

text \<open>A tree of groups of a depth less than \<open>D\<close>.\<close>

definition tree_below :: "nat \<Rightarrow> (tgid \<Rightarrow> tgid list) \<Rightarrow> bool" where
  "tree_below D ch \<longleftrightarrow> (\<forall>p. distinct (ch p) \<and> (\<forall>c \<in> set (ch p). path_parent c = Some p \<and> length c < D))"

lemma tree_belowD:
  assumes "tree_below D ch"
  shows "distinct (ch p)" "c \<in> set (ch p) \<Longrightarrow> path_parent c = Some p" "c \<in> set (ch p) \<Longrightarrow> length c < D"
  using assms by (simp_all add: tree_below_def)

lemma path_parentD: "path_parent c = Some p \<Longrightarrow> length c = Suc (length p)"
  by (cases c) auto

lemma walk_children:
  assumes tree: "tree_below D ch" and p: "length from \<le> length p"
    and IH: "\<And>c s. c \<in> set (ch p) \<Longrightarrow>
      walk_loop ch from down up (At_Down c) s = walk_after ch from down up c (run_visits down up (visits n ch c) s)"
    and "ch p = as @ bs"
  shows "walk_loop ch from down up (At_Loop p bs) s =
    walk_after ch from down up p (run_visits down up (concat (map (visits n ch) bs) @ [Leave p]) s)"
  using assms(4)
proof (induction bs arbitrary: as s)
  case Nil
  show ?case by (subst walk_loop.simps) (auto simp: walk_after_def split: prod.split option.split)
next
  case (Cons c bs)
  have c: "path_parent c = Some p" and "c \<notin> set as" using tree_belowD(1) [OF tree, of p] tree_belowD(2) [OF tree, of c p] Cons.prems by auto
  then have after: "siblings_after c (ch p) = bs" by (simp add: Cons.prems siblings_after_split)
  have ne: "c \<noteq> from" using path_parentD [OF c] p by auto
  have "walk_loop ch from down up (At_Loop p (c # bs)) s = walk_loop ch from down up (At_Down c) s"
    by (subst walk_loop.simps) simp
  also have "\<dots> = walk_after ch from down up c (run_visits down up (visits n ch c) s)"
    by (rule IH) (simp add: Cons.prems)
  also have "\<dots> = walk_after ch from down up p (run_visits down up (concat (map (visits n ch) (c # bs)) @ [Leave p]) s)"
    using Cons.IH [of "as @ [c]"] Cons.prems c ne after
    by (simp add: run_visits_append walk_after_def [of _ _ _ _ c] split: prod.split option.split)
       (simp add: walk_after_def)
  finally show ?case .
qed

lemma walk_subtree:
  assumes tree: "tree_below D ch"
  shows "length p < D \<Longrightarrow> length from \<le> length p \<Longrightarrow> n = D - length p \<Longrightarrow>
    walk_loop ch from down up (At_Down p) s = walk_after ch from down up p (run_visits down up (visits n ch p) s)"
proof (induction n arbitrary: p s)
  case 0
  then show ?case by simp
next
  case (Suc n)
  have IH: "walk_loop ch from down up (At_Down c) s = walk_after ch from down up c (run_visits down up (visits n ch c) s)"
    if "c \<in> set (ch p)" for c s
    using tree_belowD(2,3) [OF tree that] Suc.prems path_parentD [of c p] by (intro Suc.IH) auto
  have loop: "walk_loop ch from down up (At_Loop p (ch p)) s =
      walk_after ch from down up p (run_visits down up (concat (map (visits n ch) (ch p)) @ [Leave p]) s)" for s
    using walk_children [OF tree Suc.prems(2) IH, where as = "[]" and bs = "ch p"] by simp
  show ?case
    by (subst walk_loop.simps) (simp add: loop split: prod.split option.split, simp add: walk_after_def)
qed

lemma walk_tg_tree_from_visits:
  assumes "tree_below D ch" and "length from < D"
  shows "walk_tg_tree_from ch from down up s = Some (run_visits down up (visits (D - length from) ch from) s)"
proof -
  obtain r s' where "run_visits down up (visits (D - length from) ch from) s = (r, s')" by (metis surj_pair)
  then show ?thesis
    using walk_subtree [OF assms order_refl refl, of down up s]
    by (cases r) (simp_all add: walk_tg_tree_from_def walk_after_def)
qed

section \<open>The tree of task groups\<close>

definition tg_tree :: "'f kernel \<Rightarrow> bool" where
  "tg_tree k \<longleftrightarrow> distinct (task_groups k) \<and> [] \<in> set (task_groups k) \<and>
     (\<forall>x g. x # g \<in> set (task_groups k) \<longrightarrow> g \<in> set (task_groups k))"

definition tg_depth :: "'f kernel \<Rightarrow> nat" where
  "tg_depth k = Suc (Max (length ` set (task_groups k)))"

lemma tg_depth: "g \<in> set (task_groups k) \<Longrightarrow> length g < tg_depth k"
  by (simp add: tg_depth_def less_Suc_eq_le)

lemma set_tg_children: "c \<in> set (tg_children k g) \<longleftrightarrow> c \<in> set (task_groups k) \<and> (\<exists>x. c = x # g)"
  by (cases c) (auto simp: tg_children_def)

lemma tree_below_tg: "tg_tree k \<Longrightarrow> tree_below (tg_depth k) (tg_children k)"
  by (auto simp: tree_below_def set_tg_children tg_depth tg_tree_def) (simp add: tg_children_def)

lemma tg_suffix: "tg_tree k \<Longrightarrow> w @ g \<in> set (task_groups k) \<Longrightarrow> g \<in> set (task_groups k)"
  by (induction w) (auto simp: tg_tree_def)

text \<open>The groups below a group, itself included.\<close>

definition tg_below :: "'f kernel \<Rightarrow> tgid \<Rightarrow> tgid set" where
  "tg_below k p = {g \<in> set (task_groups k). \<exists>w. g = w @ p}"

lemma tg_below_children:
  assumes "tg_tree k" and "p \<in> set (task_groups k)"
  shows "tg_below k p = insert p (\<Union>c \<in> set (tg_children k p). tg_below k c)"
proof -
  have "g \<in> insert p (\<Union>c \<in> set (tg_children k p). tg_below k c)" if g: "g \<in> set (task_groups k)" "g = w @ p" for g w
  proof (cases w rule: rev_cases)
    case Nil
    then show ?thesis using g by simp
  next
    case (snoc v x)
    then have "g = v @ x # p" using g by simp
    moreover from this have "x # p \<in> set (tg_children k p)"
      using tg_suffix [OF assms(1), of v "x # p"] g(1) by (simp add: set_tg_children)
    ultimately show ?thesis using g(1) by (auto simp: tg_below_def)
  qed
  moreover have "tg_below k c \<subseteq> tg_below k p" if c: "c \<in> set (tg_children k p)" for c
  proof -
    obtain x where "c = x # p" using c by (auto simp: set_tg_children)
    then have "\<exists>v. w @ c = v @ p" for w by (intro exI [of _ "w @ [x]"]) simp
    then show ?thesis by (auto simp: tg_below_def)
  qed
  moreover have "p \<in> tg_below k p" using assms(2) by (simp add: tg_below_def)
  ultimately show ?thesis unfolding tg_below_def [of k p] by blast
qed

lemma tg_below_disjoint:
  assumes "c \<in> set (tg_children k p)" and "d \<in> set (tg_children k p)" and "c \<noteq> d"
  shows "tg_below k c \<inter> tg_below k d = {}"
proof -
  have "length c = length d" using assms by (auto simp: set_tg_children)
  then show ?thesis using assms(3) by (auto simp: tg_below_def)
qed

lemma visits_tg_tree:
  assumes tree: "tg_tree k"
  shows "p \<in> set (task_groups k) \<Longrightarrow> n = tg_depth k - length p \<Longrightarrow>
    set (visits n (tg_children k) p) = Enter ` tg_below k p \<union> Leave ` tg_below k p \<and> distinct (visits n (tg_children k) p)"
proof (induction n arbitrary: p)
  case 0
  then show ?case using tg_depth [of p k] by simp
next
  case (Suc n)
  let ?C = "tg_children k p"
  have IH: "set (visits n (tg_children k) c) = Enter ` tg_below k c \<union> Leave ` tg_below k c" "distinct (visits n (tg_children k) c)"
    if "c \<in> set ?C" for c
  proof -
    have "c \<in> set (task_groups k)" "n = tg_depth k - length c" using that Suc.prems by (auto simp: set_tg_children)
    then show "set (visits n (tg_children k) c) = Enter ` tg_below k c \<union> Leave ` tg_below k c" "distinct (visits n (tg_children k) c)"
      using Suc.IH by blast+
  qed
  have "p \<notin> tg_below k c" if "c \<in> set ?C" for c
    using that by (auto simp: set_tg_children tg_below_def)
  then have new: "Enter p \<notin> set (concat (map (visits n (tg_children k)) ?C))" "Leave p \<notin> set (concat (map (visits n (tg_children k)) ?C))"
    using IH(1) by auto
  have dis: "distinct (concat (map (visits n (tg_children k)) cs))" if "distinct cs" "set cs \<subseteq> set ?C" for cs
    using that
  proof (induction cs)
    case (Cons c cs)
    have disj: "tg_below k c \<inter> tg_below k d = {}" if "d \<in> set cs" for d
      using tg_below_disjoint [of c k p d] that Cons.prems by auto
    have "set (visits n (tg_children k) c) \<inter> set (visits n (tg_children k) d) = {}" if "d \<in> set cs" for d
    proof -
      have "c \<in> set ?C" "d \<in> set ?C" using that Cons.prems by auto
      then show ?thesis using disj [OF that] IH(1) [of c] IH(1) [of d] by auto
    qed
    then show ?case using Cons IH(2) [of c] by auto
  qed simp
  have "distinct ?C" using tree by (simp add: tg_children_def tg_tree_def)
  then have "distinct (visits (Suc n) (tg_children k) p)" using dis new by auto
  moreover have "set (visits (Suc n) (tg_children k) p) = Enter ` tg_below k p \<union> Leave ` tg_below k p"
    using IH(1) by (simp add: tg_below_children [OF tree Suc.prems(1)]) auto
  ultimately show ?case by simp
qed

text \<open>From the root every group is entered and left.\<close>

lemma tg_below_root: "tg_below k [] = set (task_groups k)"
  by (simp add: tg_below_def)

lemma visits_all:
  assumes "tg_tree k"
  shows "walk_tg_tree (tg_children k) down up s = Some (run_visits down up (visits (tg_depth k) (tg_children k) []) s)"
    "set (visits (tg_depth k) (tg_children k) []) = Enter ` set (task_groups k) \<union> Leave ` set (task_groups k)"
    "distinct (visits (tg_depth k) (tg_children k) [])"
proof -
  have root: "[] \<in> set (task_groups k)" using assms by (simp add: tg_tree_def)
  show "walk_tg_tree (tg_children k) down up s = Some (run_visits down up (visits (tg_depth k) (tg_children k) []) s)"
    using walk_tg_tree_from_visits [OF tree_below_tg [OF assms] tg_depth [OF root]] by (simp add: walk_tg_tree_def)
  show "set (visits (tg_depth k) (tg_children k) []) = Enter ` set (task_groups k) \<union> Leave ` set (task_groups k)"
    "distinct (visits (tg_depth k) (tg_children k) [])"
    using visits_tg_tree [OF assms root] by (simp_all add: tg_below_root)
qed

end
