(* ===== verification/Rt_Admission_Claims.thy ===== *)
theory Rt_Admission_Claims
  imports Rt_Admission_Props
begin

text \<open>
  What admission control guarantees: the check decides whether every group of the tree can be
  served, and through any sequence of accepted changes the groups of each level of the tree
  together are promised no more than the global limit.
\<close>

section \<open>The check\<close>

text \<open>What the check asks of one group, given the period and run time of every group.\<close>

definition bw_ratio :: "(tgid \<Rightarrow> u64 \<times> u64) \<Rightarrow> tgid \<Rightarrow> ulong" where
  "bw_ratio bw g = to_ratio (fst (bw g)) (snd (bw g))"

definition global_ratio :: "'f kernel \<Rightarrow> ulong" where
  "global_ratio k = to_ratio (global_rt_period k) (global_rt_runtime k)"

definition group_served :: "'f kernel \<Rightarrow> (tgid \<Rightarrow> u64 \<times> u64) \<Rightarrow> tgid \<Rightarrow> bool" where
  "group_served k bw g \<longleftrightarrow>
     (snd (bw g) \<le> fst (bw g) \<or> snd (bw g) = RUNTIME_INF) \<and>
     \<not> (rt_bandwidth_enabled k \<and> snd (bw g) = 0 \<and> tg_has_rt_tasks g k) \<and>
     bw_ratio bw g \<le> global_ratio k \<and>
     sum_list (map (bw_ratio bw) (tg_children k g)) \<le> bw_ratio bw g"

lemma foldl_add: "foldl (\<lambda>s x. s + f x) a xs = a + sum_list (map f xs)" for a :: ulong
  by (induction xs arbitrary: a) (simp_all add: algebra_simps)

lemma tg_rt_schedulable_iff:
  "tg_rt_schedulable k g d = (None, d) \<longleftrightarrow> group_served k (proposed_bw k d) g"
  "tg_rt_schedulable k g d = (None, d) \<or> tg_rt_schedulable k g d = (Some EINVAL, d) \<or> tg_rt_schedulable k g d = (Some EBUSY, d)"
proof -
  have s: "foldl (\<lambda>sum child. let (period, runtime) = proposed_bw k d child in sum + to_ratio period runtime) 0 cs =
      sum_list (map (bw_ratio (proposed_bw k d)) cs)" for cs
    using foldl_add [of "bw_ratio (proposed_bw k d)" 0 cs] by (simp add: bw_ratio_def split_def Let_def)
  show "tg_rt_schedulable k g d = (None, d) \<longleftrightarrow> group_served k (proposed_bw k d) g"
    unfolding tg_rt_schedulable_def s group_served_def
    by (auto simp: split_def Let_def bw_ratio_def [of _ g] global_ratio_def not_le)
  show "tg_rt_schedulable k g d = (None, d) \<or> tg_rt_schedulable k g d = (Some EINVAL, d) \<or> tg_rt_schedulable k g d = (Some EBUSY, d)"
    by (simp add: tg_rt_schedulable_def split_def Let_def)
qed

lemma run_schedulable:
  "run_visits (tg_rt_schedulable k) tg_nop vs d =
     (case find (\<lambda>v. \<exists>g. v = Enter g \<and> \<not> group_served k (proposed_bw k d) g) vs of
        None \<Rightarrow> (None, d) | Some v \<Rightarrow> tg_rt_schedulable k (case v of Enter g \<Rightarrow> g) d)"
proof (induction vs)
  case (Cons v vs)
  show ?case
  proof (cases v)
    case (Enter g)
    then show ?thesis
      using Cons.IH tg_rt_schedulable_iff [of k g d] by (cases "group_served k (proposed_bw k d) g") auto
  qed (use Cons.IH in \<open>simp add: tg_nop_def\<close>)
qed simp

lemma rt_schedulable_cases:
  assumes "tg_tree k"
  shows "rt_schedulable tg period runtime k \<in> {Some None, Some (Some EINVAL), Some (Some EBUSY)}"
    "rt_schedulable tg period runtime k = Some None \<longleftrightarrow>
      (\<forall>g \<in> set (task_groups k).
         group_served k (proposed_bw k \<lparr>sd_tg = tg, sd_rt_period = period, sd_rt_runtime = runtime\<rparr>) g)"
proof -
  define d where "d = \<lparr>sd_tg = tg, sd_rt_period = period, sd_rt_runtime = runtime\<rparr>"
  define vs where "vs = visits (tg_depth k) (tg_children k) []"
  have r: "rt_schedulable tg period runtime k = Some (fst (run_visits (tg_rt_schedulable k) tg_nop vs d))"
    by (simp add: rt_schedulable_def visits_all(1) [OF assms] vs_def d_def)
  have vs: "set vs = Enter ` set (task_groups k) \<union> Leave ` set (task_groups k)" using visits_all(2) [OF assms] by (simp add: vs_def)
  show "rt_schedulable tg period runtime k = Some None \<longleftrightarrow>
      (\<forall>g \<in> set (task_groups k).
         group_served k (proposed_bw k \<lparr>sd_tg = tg, sd_rt_period = period, sd_rt_runtime = runtime\<rparr>) g)"
  proof (cases "find (\<lambda>v. \<exists>g. v = Enter g \<and> \<not> group_served k (proposed_bw k d) g) vs")
    case None
    then have "\<forall>g \<in> set (task_groups k). group_served k (proposed_bw k d) g" using vs by (auto simp: find_None_iff)
    moreover have "rt_schedulable tg period runtime k = Some None" unfolding r run_schedulable None by simp
    ultimately show ?thesis by (simp add: d_def)
  next
    case (Some v)
    then obtain g where g: "v = Enter g" "\<not> group_served k (proposed_bw k d) g" "v \<in> set vs" using find_SomeD [OF Some] by auto
    then have "fst (tg_rt_schedulable k g d) \<noteq> None" using tg_rt_schedulable_iff [of k g d] by auto
    then have "rt_schedulable tg period runtime k \<noteq> Some None" unfolding r run_schedulable Some using g(1) by simp
    moreover have "g \<in> set (task_groups k)" using g(1,3) vs by auto
    ultimately show ?thesis using g(2) unfolding d_def by blast
  qed
  show "rt_schedulable tg period runtime k \<in> {Some None, Some (Some EINVAL), Some (Some EBUSY)}"
  proof (cases "find (\<lambda>v. \<exists>g. v = Enter g \<and> \<not> group_served k (proposed_bw k d) g) vs")
    case (Some v)
    then show ?thesis unfolding r run_schedulable using tg_rt_schedulable_iff(2) [of k "case v of Enter g \<Rightarrow> g" d] by auto
  qed (simp add: r run_schedulable)
qed

section \<open>Shares\<close>

definition group_bw :: "'f kernel \<Rightarrow> tgid \<Rightarrow> u64 \<times> u64" where
  "group_bw k g = (rt_period (rt_bandwidths k g), bw_rt_runtime (rt_bandwidths k g))"

text \<open>What a group is promised, in units of 2^-20 of the processor.\<close>

definition share :: "'f kernel \<Rightarrow> tgid \<Rightarrow> nat" where
  "share k g = unat (bw_ratio (group_bw k) g)"

definition sysctl_ok :: "'f kernel \<Rightarrow> bool" where
  "sysctl_ok k \<longleftrightarrow> sysctl_sched_rt_runtime k < 2 ^ 31 \<and>
     (global_rt_runtime k \<le> global_rt_period k \<or> global_rt_runtime k = RUNTIME_INF)"

definition admitted :: "'f kernel \<Rightarrow> bool" where
  "admitted k \<longleftrightarrow> tg_tree k \<and> sysctl_ok k \<and>
     (\<forall>g \<in> set (task_groups k). share k g \<le> unat (global_ratio k) \<and>
        sum_list (map (share k) (tg_children k g)) \<le> share k g)"

text \<open>The fraction of time a period and a run time stand for, in whole numbers, in the same units.\<close>

definition bw_fraction :: "u64 \<times> u64 \<Rightarrow> nat" where
  "bw_fraction b = (if snd b = RUNTIME_INF then 2 ^ 20 else unat (snd b) * 2 ^ 20 div unat (fst b))"

lemma unat_to_ratio:
  assumes "runtime = RUNTIME_INF \<or> runtime \<le> period \<and> unat runtime < 2 ^ 44"
  shows "unat (to_ratio period runtime) = bw_fraction (period, runtime)"
proof (cases "runtime = RUNTIME_INF")
  case False
  then have le: "unat runtime \<le> unat period" and small: "unat runtime < 2 ^ 44" using assms by (auto simp: word_le_nat_alt)
  have "unat runtime * unat (2 ^ 20 :: u64) < 2 ^ LENGTH(64)" using small by simp
  then have "unat (push_bit 20 runtime) = unat runtime * 2 ^ 20"
    using unat_mult_lem [of runtime "2 ^ 20 :: u64"] by (simp add: push_bit_eq_mult)
  then have d: "unat (push_bit 20 runtime div period) = unat runtime * 2 ^ 20 div unat period" by (simp add: unat_div)
  also have "\<dots> \<le> 2 ^ 20"
    using div_le_mono [of "unat runtime * 2 ^ 20" "unat period * 2 ^ 20" "unat period"] le by (cases "unat period = 0") simp_all
  finally have "unat (push_bit 20 runtime div period) < 2 ^ 32" by simp
  then have "unat (ucast (push_bit 20 runtime div period) :: ulong) = unat (push_bit 20 runtime div period)"
    by (simp add: unsigned_ucast_eq take_bit_nat_eq_self)
  then show ?thesis using False d by (simp add: to_ratio_def bw_fraction_def)
qed (simp add: to_ratio_def bw_fraction_def)

lemma to_ratio_bound:
  assumes "runtime = RUNTIME_INF \<or> runtime \<le> period \<and> unat runtime < 2 ^ 44"
  shows "unat (to_ratio period runtime) \<le> 2 ^ 20"
proof -
  have "unat runtime * 2 ^ 20 div unat period \<le> 2 ^ 20" if "unat runtime \<le> unat period"
    using div_le_mono [of "unat runtime * 2 ^ 20" "unat period * 2 ^ 20" "unat period"] that by (cases "unat period = 0") simp_all
  then show ?thesis using assms unfolding unat_to_ratio [OF assms] by (auto simp: bw_fraction_def word_le_nat_alt)
qed

lemma global_runtime_small:
  assumes ok: "sysctl_ok k"
  shows "global_rt_runtime k = RUNTIME_INF \<or> unat (global_rt_runtime k) < 2 ^ 44"
proof (cases "sysctl_sched_rt_runtime k < 0")
  case False
  then have "word_of_int (sysctl_sched_rt_runtime k) * NSEC_PER_USEC = (word_of_nat (nat (sysctl_sched_rt_runtime k) * 1000) :: u64)"
    by (simp add: NSEC_PER_USEC_def)
  moreover have "nat (sysctl_sched_rt_runtime k) < 2 ^ 31" using ok False by (simp add: sysctl_ok_def nat_less_iff)
  then have "nat (sysctl_sched_rt_runtime k) * 1000 < 2 ^ 44" by simp
  then have "unat (word_of_nat (nat (sysctl_sched_rt_runtime k) * 1000) :: u64) < 2 ^ 44"
    unfolding unat_of_nat by (rule le_less_trans [OF mod_less_eq_dividend])
  ultimately show ?thesis using False by (simp add: global_rt_runtime_def)
qed (simp add: global_rt_runtime_def)

lemma global_ratio_bound: "sysctl_ok k \<Longrightarrow> unat (global_ratio k) \<le> 2 ^ 20"
  using global_runtime_small to_ratio_bound unfolding global_ratio_def sysctl_ok_def by blast

lemma unat_sum_list:
  "sum_list (map (\<lambda>x. unat (f x)) xs) < 2 ^ 32 \<Longrightarrow> unat (sum_list (map f xs)) = sum_list (map (\<lambda>x. unat (f x)) xs)"
  for f :: "'a \<Rightarrow> ulong"
proof (induction xs)
  case (Cons x xs)
  then have "unat (f x) + unat (sum_list (map f xs)) < 2 ^ 32" by simp
  then show ?case using Cons by (simp add: unat_word_ariths)
qed simp

lemma sum_list_bound: "(\<And>x. x \<in> set xs \<Longrightarrow> f x \<le> b) \<Longrightarrow> sum_list (map f xs) \<le> length xs * b" for f :: "'a \<Rightarrow> nat"
  by (induction xs) (auto simp: add_mono)

text \<open>A tree that passes the check is served, as long as the sum of the children does not wrap.\<close>

lemma served_admitted:
  assumes "tg_tree k" and "sysctl_ok k" and "length (task_groups k) < 4096"
    and "\<forall>g \<in> set (task_groups k). group_served k (group_bw k) g"
  shows "admitted k"
proof -
  have r: "share k g \<le> unat (global_ratio k)" "share k g \<le> 2 ^ 20" if "g \<in> set (task_groups k)" for g
  proof -
    show "share k g \<le> unat (global_ratio k)"
      using assms(4) that by (auto simp: group_served_def share_def word_le_nat_alt)
    then show "share k g \<le> 2 ^ 20" using global_ratio_bound [OF assms(2)] by simp
  qed
  have "sum_list (map (share k) (tg_children k g)) \<le> share k g" if g: "g \<in> set (task_groups k)" for g
  proof -
    have "sum_list (map (share k) (tg_children k g)) \<le> length (tg_children k g) * 2 ^ 20"
      using r(2) by (intro sum_list_bound) (simp add: set_tg_children)
    also have "\<dots> < 2 ^ 32"
    proof -
      have "length (tg_children k g) < 4096"
        unfolding tg_children_def by (rule le_less_trans [OF length_filter_le assms(3)])
      then show ?thesis by simp
    qed
    finally have "sum_list (map (share k) (tg_children k g)) = unat (sum_list (map (bw_ratio (group_bw k)) (tg_children k g)))"
      using unat_sum_list [of "bw_ratio (group_bw k)"] by (simp add: share_def [abs_def])
    then show ?thesis using assms(4) g by (auto simp: group_served_def share_def word_le_nat_alt)
  qed
  then show ?thesis using assms(1,2) r by (simp add: admitted_def)
qed

text \<open>
  What it means that a tree of groups fits, in whole numbers and without the helpers of the code. Of all groups
  only the root is asked whether real-time tasks would be left without run time, and it is asked about the
  tasks of every group.
\<close>

definition tree_fits :: "'f kernel \<Rightarrow> (tgid \<Rightarrow> u64 \<times> u64) \<Rightarrow> bool" where
  "tree_fits k bw \<longleftrightarrow>
     (\<forall>g \<in> set (task_groups k).
        (snd (bw g) = RUNTIME_INF \<or> unat (snd (bw g)) \<le> unat (fst (bw g))) \<and>
        bw_fraction (bw g) \<le> bw_fraction (global_rt_period k, global_rt_runtime k) \<and>
        (\<Sum>c \<leftarrow> filter (\<lambda>c. \<exists>x. c = x # g) (task_groups k). bw_fraction (bw c)) \<le> bw_fraction (bw g)) \<and>
     (0 \<le> sysctl_sched_rt_runtime k \<and> (\<exists>p \<in> set (threads k). rt_task (tasks k p)) \<longrightarrow> snd (bw []) \<noteq> 0)"

lemma children_filter: "tg_children k g = filter (\<lambda>c. \<exists>x. c = x # g) (task_groups k)"
proof -
  have "path_parent c = Some g \<longleftrightarrow> (\<exists>x. c = x # g)" for c by (cases c) auto
  then show ?thesis by (simp add: tg_children_def)
qed

lemma served_iff_fits:
  assumes tree: "tg_tree k" and sysctl: "sysctl_ok k" and few: "length (task_groups k) < 4096"
    and small: "\<forall>g \<in> set (task_groups k). snd (bw g) = RUNTIME_INF \<or> unat (snd (bw g)) < 2 ^ 44"
  shows "(\<forall>g \<in> set (task_groups k). group_served k bw g) \<longleftrightarrow> tree_fits k bw"
proof (cases "\<forall>g \<in> set (task_groups k). snd (bw g) \<le> fst (bw g) \<or> snd (bw g) = RUNTIME_INF")
  case True
  have ratio: "unat (bw_ratio bw g) = bw_fraction (bw g)" "unat (bw_ratio bw g) \<le> 2 ^ 20" if "g \<in> set (task_groups k)" for g
    using unat_to_ratio [of "snd (bw g)" "fst (bw g)"] to_ratio_bound [of "snd (bw g)" "fst (bw g)"] True small that
    by (auto simp: bw_ratio_def)
  have kids: "unat (sum_list (map (bw_ratio bw) (tg_children k g))) = (\<Sum>c \<leftarrow> tg_children k g. bw_fraction (bw c))" for g
  proof -
    have "(\<Sum>c \<leftarrow> tg_children k g. unat (bw_ratio bw c)) \<le> length (tg_children k g) * 2 ^ 20"
      using ratio(2) by (intro sum_list_bound) (simp add: set_tg_children)
    also have "\<dots> < 2 ^ 32"
      using le_less_trans [OF length_filter_le few, of "\<lambda>h. path_parent h = Some g"] by (simp add: tg_children_def)
    finally have "unat (sum_list (map (bw_ratio bw) (tg_children k g))) = (\<Sum>c \<leftarrow> tg_children k g. unat (bw_ratio bw c))"
      by (rule unat_sum_list)
    also have "\<dots> = (\<Sum>c \<leftarrow> tg_children k g. bw_fraction (bw c))"
      using ratio(1) by (intro arg_cong [of _ _ sum_list] map_cong) (simp_all add: set_tg_children)
    finally show ?thesis .
  qed
  have global: "unat (global_ratio k) = bw_fraction (global_rt_period k, global_rt_runtime k)"
    using unat_to_ratio global_runtime_small [OF sysctl] sysctl by (simp add: global_ratio_def sysctl_ok_def) blast
  have root: "(\<exists>g \<in> set (task_groups k). rt_bandwidth_enabled k \<and> snd (bw g) = 0 \<and> tg_has_rt_tasks g k) \<longleftrightarrow>
      0 \<le> sysctl_sched_rt_runtime k \<and> (\<exists>p \<in> set (threads k). rt_task (tasks k p)) \<and> snd (bw []) = 0"
    using tree by (auto simp: tg_tree_def tg_has_rt_tasks_def rt_bandwidth_enabled_def list_ex_iff)
  show ?thesis
    using True root ratio(1) kids
    by (auto simp: group_served_def tree_fits_def word_le_nat_alt global children_filter [symmetric])
next
  case False
  then show ?thesis by (auto simp: group_served_def tree_fits_def word_le_nat_alt)
qed

text \<open>The groups of one level of the tree together get no more than the groups above them.\<close>

definition level_share :: "'f kernel \<Rightarrow> nat \<Rightarrow> nat" where
  "level_share k n = sum (share k) {g \<in> set (task_groups k). length g = n}"

lemma level_share_Suc:
  assumes "admitted k"
  shows "level_share k (Suc n) \<le> level_share k n"
proof -
  let ?L = "\<lambda>n. {g \<in> set (task_groups k). length g = n}"
  have tree: "tg_tree k" using assms by (simp add: admitted_def)
  have ch: "{g \<in> ?L (Suc n). tl g = h} = set (tg_children k h)" if "length h = n" for h
  proof (intro set_eqI)
    fix g show "g \<in> {g \<in> ?L (Suc n). tl g = h} \<longleftrightarrow> g \<in> set (tg_children k h)"
      using that by (cases g) (auto simp: set_tg_children)
  qed
  have tl: "tl ` ?L (Suc n) \<subseteq> ?L n" using tree by (auto simp: tg_tree_def length_Suc_conv)
  have "level_share k (Suc n) = (\<Sum>h \<in> ?L n. sum (share k) {g \<in> ?L (Suc n). tl g = h})"
    unfolding level_share_def using tl by (intro sum.group [symmetric]) auto
  also have "\<dots> = (\<Sum>h \<in> ?L n. sum_list (map (share k) (tg_children k h)))"
  proof (intro sum.cong refl)
    fix h assume h: "h \<in> ?L n"
    have "distinct (tg_children k h)" using tree by (simp add: tg_children_def tg_tree_def)
    then show "sum (share k) {g \<in> ?L (Suc n). tl g = h} = sum_list (map (share k) (tg_children k h))"
      using ch [of h] h by (simp add: sum_list_distinct_conv_sum_set)
  qed
  also have "\<dots> \<le> level_share k n"
    unfolding level_share_def using assms by (intro sum_mono) (auto simp: admitted_def)
  finally show ?thesis .
qed

lemma level_share_global:
  assumes "admitted k"
  shows "level_share k n \<le> unat (global_ratio k)" "unat (global_ratio k) \<le> 2 ^ 20"
proof -
  have "{g \<in> set (task_groups k). length g = 0} = {[]}" using assms by (auto simp: admitted_def tg_tree_def)
  then have "level_share k 0 \<le> unat (global_ratio k)" using assms by (simp add: level_share_def admitted_def tg_tree_def)
  then show "level_share k n \<le> unat (global_ratio k)"
    by (induction n) (use level_share_Suc [OF assms] order_trans in blast)+
  show "unat (global_ratio k) \<le> 2 ^ 20" using assms global_ratio_bound unfolding admitted_def by blast
qed

section \<open>Changes\<close>

text \<open>
  The operations that change what groups are promised: the files of a group, the sysctl, creating
  and removing groups. The fair class, when a group is created or removed, changes only its own
  state; everything else in the kernel leaves tree, bandwidths and limits alone.
\<close>

definition keeps_promises :: "'f kernel \<Rightarrow> 'f kernel \<Rightarrow> bool" where
  "keeps_promises k k' \<longleftrightarrow> task_groups k' = task_groups k \<and> group_bw k' = group_bw k \<and>
     sysctl_sched_rt_period k' = sysctl_sched_rt_period k \<and> sysctl_sched_rt_runtime k' = sysctl_sched_rt_runtime k"

inductive bw_step :: "'f kernel \<Rightarrow> 'f kernel \<Rightarrow> bool" where
  set_runtime: "tg \<in> set (task_groups k) \<Longrightarrow> sched_group_set_rt_runtime tg us k = Some (r, k') \<Longrightarrow> bw_step k k'"
| set_period: "tg \<in> set (task_groups k) \<Longrightarrow> sched_group_set_rt_period tg us k = Some (r, k') \<Longrightarrow> bw_step k k'"
| sysctl: "runtime < 2 ^ 31 \<Longrightarrow> sched_rt_handler write (Inr (period, runtime)) k = Some (r, k') \<Longrightarrow> bw_step k k'"
| create: "g \<in> set (task_groups k) \<Longrightarrow> x # g \<notin> set (task_groups k) \<Longrightarrow> length (task_groups k) < 4095 \<Longrightarrow>
    alloc_fair k = (b, k\<lparr>cfs := f\<rparr>) \<Longrightarrow> bw_step k (snd (sched_create_group oom alloc_fair oom_rt (x # g) k))"
| destroy: "g \<noteq> [] \<Longrightarrow> tg_children k g = [] \<Longrightarrow> unregister_fair k = k\<lparr>cfs := f\<rparr> \<Longrightarrow>
    bw_step k (sched_destroy_group unregister_fair g k)"
| other: "keeps_promises k k' \<Longrightarrow> bw_step k k'"

lemma group_served_cong:
  assumes "task_groups k' = task_groups k" "tasks k' = tasks k" "threads k' = threads k"
    "sysctl_sched_rt_period k' = sysctl_sched_rt_period k" "sysctl_sched_rt_runtime k' = sysctl_sched_rt_runtime k"
  shows "group_served k' bw g = group_served k bw g"
  using assms by (simp add: group_served_def tg_children_def tg_has_rt_tasks_def rt_bandwidth_enabled_def
      global_ratio_def global_rt_period_def global_rt_runtime_def)

lemma admitted_cong:
  assumes "task_groups k' = task_groups k" "\<And>g. g \<in> set (task_groups k) \<Longrightarrow> group_bw k' g = group_bw k g"
    "sysctl_sched_rt_period k' = sysctl_sched_rt_period k" "sysctl_sched_rt_runtime k' = sysctl_sched_rt_runtime k"
  shows "admitted k' = admitted k"
proof -
  have sh: "share k' g = share k g" if "g \<in> set (task_groups k)" for g
    using assms(2) [OF that] by (simp add: share_def bw_ratio_def)
  have ch: "tg_children k' g = tg_children k g" for g using assms(1) by (simp add: tg_children_def)
  have m: "sum_list (map (share k') (tg_children k g)) = sum_list (map (share k) (tg_children k g))" for g
    by (rule arg_cong [where f = sum_list]) (simp add: sh set_tg_children)
  have "tg_tree k' = tg_tree k" "sysctl_ok k' = sysctl_ok k" "global_ratio k' = global_ratio k"
    using assms(1,3,4) by (simp_all add: tg_tree_def sysctl_ok_def global_ratio_def global_rt_period_def global_rt_runtime_def)
  then show ?thesis using assms(1) unfolding admitted_def ch m by (simp add: sh)
qed

lemma tg_set_rt_bandwidth_admitted:
  assumes adm: "admitted k" and len: "length (task_groups k) < 4096" and set: "tg_set_rt_bandwidth tg period runtime k = Some (r, k')"
  shows "admitted k' \<and> task_groups k' = task_groups k"
proof (cases "rt_schedulable (Some tg) period runtime k")
  case None
  then show ?thesis using set by (simp add: tg_set_rt_bandwidth_def)
next
  case (Some res)
  have tree: "tg_tree k" using adm by (simp add: admitted_def)
  show ?thesis
  proof (cases res)
    case (Some err)
    then show ?thesis using set adm \<open>rt_schedulable _ _ _ k = _\<close> by (simp add: tg_set_rt_bandwidth_def)
  next
    case None
    define d where "d = \<lparr>sd_tg = Some tg, sd_rt_period = period, sd_rt_runtime = runtime\<rparr>"
    have served: "\<forall>g \<in> set (task_groups k). group_served k (proposed_bw k d) g"
      using None Some rt_schedulable_cases(2) [OF tree] by (simp add: d_def)
    have k': "k' = upd_rt tg (rt_runtime_update (\<lambda>_. runtime))
        (rt_bandwidths_update (\<lambda>b. b(tg := (b tg)\<lparr>rt_period := period, bw_rt_runtime := runtime\<rparr>)) k)"
      using set None Some by (simp add: tg_set_rt_bandwidth_def)
    have "group_bw k' = proposed_bw k d" by (rule ext) (simp add: group_bw_def proposed_bw_def d_def k')
    then have "\<forall>g \<in> set (task_groups k'). group_served k' (group_bw k') g"
      using served group_served_cong [of k' k] by (simp add: k')
    moreover have "tg_tree k' = tg_tree k" "sysctl_ok k' = sysctl_ok k" "task_groups k' = task_groups k"
      by (simp_all add: k' tg_tree_def sysctl_ok_def global_rt_period_def global_rt_runtime_def)
    ultimately show ?thesis using served_admitted [of k'] adm len by (simp add: admitted_def)
  qed
qed

lemma sched_rt_handler_admitted:
  assumes adm: "admitted k" and len: "length (task_groups k) < 4096" and rt: "runtime < 2 ^ 31"
    and handler: "sched_rt_handler write (Inr (period, runtime)) k = Some (r, k')"
  shows "admitted k' \<and> task_groups k' = task_groups k"
proof (cases "write \<and> r = None")
  case False
  then have "k' = k"
    using handler by (auto simp: sched_rt_handler_def Let_def split: if_splits option.splits)
  then show ?thesis using adm by simp
next
  case True
  define k1 where "k1 = k\<lparr>sysctl_sched_rt_period := period, sysctl_sched_rt_runtime := runtime\<rparr>"
  have con: "sched_rt_global_constraints k1 = Some None" and k': "k' = k1\<lparr>def_rt_bandwidth := (def_rt_bandwidth k1)
      \<lparr>bw_rt_runtime := global_rt_runtime k1, rt_period := global_rt_period k1\<rparr>\<rparr>"
    using handler True by (auto simp: sched_rt_handler_def Let_def k1_def split: if_splits option.splits)
  have tree: "tg_tree k1" using adm by (simp add: admitted_def tg_tree_def k1_def)
  from con have glob: "global_rt_runtime k1 \<le> global_rt_period k1 \<or> global_rt_runtime k1 = RUNTIME_INF"
    and sch: "rt_schedulable None 0 0 k1 = Some None"
    by (auto simp: sched_rt_global_constraints_def Let_def not_le split: if_splits)
  then have ok: "sysctl_ok k1" using rt by (simp add: sysctl_ok_def k1_def)
  have "proposed_bw k1 \<lparr>sd_tg = None, sd_rt_period = 0, sd_rt_runtime = 0\<rparr> = group_bw k1"
    by (rule ext) (simp add: proposed_bw_def group_bw_def)
  then have "admitted k1"
    using served_admitted [OF tree ok] rt_schedulable_cases(2) [OF tree] sch len by (simp add: k1_def)
  moreover have "admitted k' = admitted k1" by (rule admitted_cong) (simp_all add: k' group_bw_def)
  ultimately show ?thesis by (simp add: k' k1_def)
qed

lemma to_ratio_zero: "to_ratio period 0 = 0"
  by (simp add: to_ratio_def RUNTIME_INF_def)

text \<open>A new group is promised nothing.\<close>

lemma add_group_admitted:
  assumes adm: "admitted k" and g: "g \<in> set (task_groups k)" "x # g \<notin> set (task_groups k)"
    and k': "task_groups k' = (x # g) # task_groups k" "\<And>h. h \<in> set (task_groups k) \<Longrightarrow> group_bw k' h = group_bw k h"
      "snd (group_bw k' (x # g)) = 0" "sysctl_sched_rt_period k' = sysctl_sched_rt_period k" "sysctl_sched_rt_runtime k' = sysctl_sched_rt_runtime k"
  shows "admitted k'"
proof -
  have sh: "share k' h = share k h" if "h \<in> set (task_groups k)" for h using k'(2) [OF that] by (simp add: share_def bw_ratio_def)
  have sh0: "share k' (x # g) = 0" using k'(3) by (simp add: share_def bw_ratio_def to_ratio_zero)
  have tree: "tg_tree k" using adm by (simp add: admitted_def)
  have ch: "tg_children k' h = (if h = g then (x # g) # tg_children k h else tg_children k h)" for h
    by (auto simp: tg_children_def k'(1))
  have ch0: "tg_children k (x # g) = []"
    using tree g(2) by (auto simp: tg_children_def filter_empty_conv tg_tree_def elim!: path_parent.elims)
  have m: "sum_list (map (share k') (tg_children k h)) = sum_list (map (share k) (tg_children k h))" for h
    by (rule arg_cong [where f = sum_list]) (simp add: sh set_tg_children)
  have m': "sum_list (map (share k') (tg_children k' h)) = sum_list (map (share k) (tg_children k h))" for h
    by (simp add: ch sh0 m)
  have "tg_tree k'" using tree g by (auto simp: tg_tree_def k'(1))
  moreover have "sysctl_ok k' = sysctl_ok k" "global_ratio k' = global_ratio k"
    using k'(4,5) by (simp_all add: sysctl_ok_def global_ratio_def global_rt_period_def global_rt_runtime_def)
  ultimately show ?thesis using adm g ch0 unfolding admitted_def m' by (auto simp: k'(1) sh sh0)
qed

lemma create_group_admitted:
  assumes adm: "admitted k" and g: "g \<in> set (task_groups k)" "x # g \<notin> set (task_groups k)" and f: "alloc_fair k = (b, k\<lparr>cfs := f\<rparr>)"
    and k': "k' = snd (sched_create_group oom alloc_fair oom_rt (x # g) k)"
  shows "admitted k'" "task_groups k' = task_groups k \<or> task_groups k' = (x # g) # task_groups k"
proof -
  obtain r kr where r: "alloc_rt_sched_group oom_rt (x # g) (k\<lparr>cfs := f\<rparr>) = (r, kr)" by (metis surj_pair)
  have kr: "task_groups kr = task_groups k" "sysctl_sched_rt_period kr = sysctl_sched_rt_period k"
    "sysctl_sched_rt_runtime kr = sysctl_sched_rt_runtime k" "h \<noteq> x # g \<Longrightarrow> group_bw kr h = group_bw k h"
    "r \<Longrightarrow> snd (group_bw kr (x # g)) = 0" for h
    using r by (auto simp: alloc_rt_sched_group_def Let_def init_tg_rt_entry_def group_bw_def init_rt_bandwidth_def split: if_splits)
  have eq: "k' = (if oom then k else if \<not> b then k\<lparr>cfs := f\<rparr> else if \<not> r then kr else task_groups_update (list_add (x # g)) kr)"
    by (simp add: k' sched_create_group_def f r)
  show "task_groups k' = task_groups k \<or> task_groups k' = (x # g) # task_groups k" by (simp add: eq kr list_ops)
  have "admitted (k\<lparr>cfs := f\<rparr>)" using adm admitted_cong [of "k\<lparr>cfs := f\<rparr>" k] by (simp add: group_bw_def)
  moreover have "admitted kr" using adm g admitted_cong [of kr k] kr by metis
  moreover have "admitted (task_groups_update (list_add (x # g)) kr)" if r
  proof -
    have bw: "group_bw (task_groups_update fu kr) = group_bw kr" for fu by (simp add: group_bw_def [abs_def])
    have "group_bw kr h = group_bw k h" if "h \<in> set (task_groups k)" for h using that g(2) kr(4) by metis
    then show ?thesis using that kr by (intro add_group_admitted [OF adm g]) (simp_all only: bw, simp_all add: list_ops)
  qed
  ultimately show "admitted k'" using adm by (simp add: eq)
qed

lemma sum_list_remove1_le: "sum_list (map f (remove1 x xs)) \<le> sum_list (map f xs)" for f :: "'a \<Rightarrow> nat"
  by (induction xs) auto

lemma destroy_group_admitted:
  assumes adm: "admitted k" and g: "g \<noteq> []" "tg_children k g = []" and f: "unregister_fair k = k\<lparr>cfs := f\<rparr>"
  shows "admitted (sched_destroy_group unregister_fair g k)"
proof -
  let ?k = "sched_destroy_group unregister_fair g k"
  have tg: "task_groups ?k = remove1 g (task_groups k)" by (simp add: sched_destroy_group_def f list_ops)
  have sh: "share ?k h = share k h" for h by (simp add: share_def bw_ratio_def group_bw_def sched_destroy_group_def f)
  have tree: "tg_tree k" using adm by (simp add: admitted_def)
  have ch: "sum_list (map (share ?k) (tg_children ?k h)) \<le> sum_list (map (share k) (tg_children k h))" for h
  proof (cases "path_parent g = Some h")
    case True
    then have "tg_children ?k h = remove1 g (tg_children k h)" by (simp add: tg_children_def tg filter_remove1)
    then show ?thesis by (simp add: sh [abs_def] sum_list_remove1_le)
  next
    case False
    then have "tg_children ?k h = tg_children k h" by (simp add: tg_children_def tg filter_remove1)
    then show ?thesis by (simp add: sh [abs_def])
  qed
  have "h \<noteq> g" if "y # h \<in> set (task_groups k)" for y h using that g(2) by (auto simp: tg_children_def filter_empty_conv)
  then have "tg_tree ?k" using tree g(1) by (auto simp: tg_tree_def tg)
  moreover have "sysctl_ok ?k = sysctl_ok k" "global_ratio ?k = global_ratio k"
    by (simp_all add: sysctl_ok_def global_ratio_def global_rt_period_def global_rt_runtime_def sched_destroy_group_def f)
  moreover have "set (task_groups ?k) \<subseteq> set (task_groups k)" unfolding tg by (rule set_remove1_subset)
  moreover have "sum_list (map (share ?k) (tg_children ?k h)) \<le> share k h" if "h \<in> set (task_groups k)" for h
    using ch [of h] adm that unfolding admitted_def by (meson order_trans)
  ultimately show ?thesis using adm unfolding admitted_def by (auto simp: sh subset_iff)
qed

lemma bw_step_admitted:
  assumes "bw_step k k'" and "admitted k" and "length (task_groups k) < 4096"
  shows "admitted k' \<and> length (task_groups k') < 4096"
  using assms(1)
proof cases
  case (set_runtime tg us r)
  then show ?thesis using tg_set_rt_bandwidth_admitted [OF assms(2,3)] assms(3)
    by (auto simp: sched_group_set_rt_runtime_def Let_def)
next
  case (set_period tg us r)
  then show ?thesis using tg_set_rt_bandwidth_admitted [OF assms(2,3)] assms(2,3)
    by (auto simp: sched_group_set_rt_period_def Let_def split: if_splits)
next
  case (sysctl runtime w period r)
  then show ?thesis using sched_rt_handler_admitted [OF assms(2,3)] assms(3) by auto
next
  case (create g x alloc_fair b f oom oom_rt)
  then show ?thesis using create_group_admitted [OF assms(2) create(2,3,5,1)] by auto
next
  case (destroy g unregister_fair f)
  then show ?thesis
    using destroy_group_admitted [OF assms(2) destroy(2,3), where unregister_fair = unregister_fair and f = f] destroy(4) assms(3) length_remove1 [of g "task_groups k"]
    by (auto simp: sched_destroy_group_def list_ops split: if_splits)
next
  case other
  then show ?thesis using admitted_cong [of k' k] assms(2,3) by (simp add: keeps_promises_def)
qed

section \<open>A tree to check\<close>

lemma sched_demo_tree: "tg_tree sched_demo" "task_groups sched_demo = [[]]" "tg_children sched_demo [] = []"
  by (simp_all add: tg_tree_def sched_demo_def tg_children_def)

lemma sched_demo_limits: "global_ratio sched_demo = 996147" "tg_has_rt_tasks g sched_demo = False"
  by (simp_all add: global_ratio_def global_rt_period_def global_rt_runtime_def sched_demo_def to_ratio_def NSEC_PER_USEC_def
      RUNTIME_INF_def tg_has_rt_tasks_def)

lemma sched_demo_admitted: "admitted sched_demo"
proof -
  have g: "global_ratio sched_demo = 996147" "share sched_demo [] = 996147"
    by (rule sched_demo_limits) (simp add: share_def bw_ratio_def group_bw_def sched_demo_def boot_kernel_def to_ratio_def RUNTIME_INF_def)
  have "sysctl_ok sched_demo"
    by (simp add: sysctl_ok_def sched_demo_def global_rt_period_def global_rt_runtime_def NSEC_PER_USEC_def)
  then show ?thesis using g by (simp add: admitted_def sched_demo_tree)
qed

section \<open>Properties\<close>

text \<open>
  C26. \<^verbatim>\<open>walk_tg_tree()\<close>, whose loop jumps between its labels, is the recursive traversal: it ends,
  enters every group once, before its descendants, and leaves every group once, after them; it
  stops at the first error of a visitor and returns it.
\<close>

theorem walk_tg_tree_traverses:
  assumes "tg_tree k"
  shows "walk_tg_tree (tg_children k) down up s = Some (run_visits down up (visits (tg_depth k) (tg_children k) []) s) \<and>
    distinct (visits (tg_depth k) (tg_children k) []) \<and>
    set (visits (tg_depth k) (tg_children k) []) = Enter ` set (task_groups k) \<union> Leave ` set (task_groups k)"
  by (intro conjI visits_all [OF assms])

theorem walk_tg_tree_traverses_witness:
  "walk_tg_tree (tg_children sched_demo) (\<lambda>g n. (None, n + 1)) (\<lambda>g n. (Some EBUSY, n + 10)) (0 :: nat) = Some (Some EBUSY, 11)"
proof -
  have "tg_depth sched_demo = 1" by (simp add: tg_depth_def sched_demo_tree)
  then show ?thesis
    using walk_tg_tree_traverses [OF sched_demo_tree(1), of "\<lambda>g n. (None, n + 1)" "\<lambda>g n. (Some EBUSY, n + 10)" "0 :: nat"]
    by (simp add: sched_demo_tree)
qed

text \<open>
  C25. \<^verbatim>\<open>__rt_schedulable()\<close> decides whether the whole tree fits: \<^verbatim>\<open>tg_set_rt_bandwidth()\<close> stores the values
  and returns 0 exactly if with them every group has no more run time than its period, no group exceeds
  the global limit, and the fractions of the children of each group add up, in whole numbers, to no more than
  its own; otherwise it returns \<^verbatim>\<open>EINVAL\<close> or \<^verbatim>\<open>EBUSY\<close> and changes nothing. Tasks left without run time
  are looked for only when the root group is given none, and then in all groups: that some other group with
  real-time tasks gets no run time is never noticed, against what the comment of the code intends.
  Periods are not 0, run times are below 2^44 ns and there are fewer than 4096 groups, so that nothing wraps.
\<close>

theorem rt_schedulable_decides:
  assumes "tg_tree k" and "sysctl_ok k" and "length (task_groups k) < 4096"
    and "\<forall>g \<in> set (task_groups k). let (p, r) = proposed_bw k \<lparr>sd_tg = Some tg, sd_rt_period = period, sd_rt_runtime = runtime\<rparr> g
      in p \<noteq> 0 \<and> (r = RUNTIME_INF \<or> unat r < 2 ^ 44)"
  shows "let bw = proposed_bw k \<lparr>sd_tg = Some tg, sd_rt_period = period, sd_rt_runtime = runtime\<rparr>
         in \<exists>r k'. tg_set_rt_bandwidth tg period runtime k = Some (r, k') \<and>
              (if tree_fits k bw then r = None \<and> group_bw k' = bw \<and> rt_runtime (rt_rqs k' tg) = runtime
               else (r = Some EINVAL \<or> r = Some EBUSY) \<and> k' = k)"
proof -
  define bw where "bw = proposed_bw k \<lparr>sd_tg = Some tg, sd_rt_period = period, sd_rt_runtime = runtime\<rparr>"
  have "\<forall>g \<in> set (task_groups k). snd (bw g) = RUNTIME_INF \<or> unat (snd (bw g)) < 2 ^ 44"
    using assms(4) by (auto simp: bw_def split_def Let_def)
  note fits = served_iff_fits [OF assms(1-3) this]
  have res: "rt_schedulable (Some tg) period runtime k \<in> {Some None, Some (Some EINVAL), Some (Some EBUSY)}"
    by (rule rt_schedulable_cases(1) [OF assms(1)])
  have "rt_schedulable (Some tg) period runtime k = Some None \<longleftrightarrow> tree_fits k bw"
    by (simp only: fits [symmetric]) (simp only: bw_def rt_schedulable_cases(2) [OF assms(1)])
  note res = res this
  have "group_bw (upd_rt tg (rt_runtime_update (\<lambda>_. runtime))
      (rt_bandwidths_update (\<lambda>b. b(tg := (b tg)\<lparr>rt_period := period, bw_rt_runtime := runtime\<rparr>)) k)) = bw"
    by (rule ext) (simp add: group_bw_def bw_def proposed_bw_def)
  then have new: "group_bw k' = bw \<and> rt_runtime (rt_rqs k' tg) = runtime"
    if "k' = upd_rt tg (rt_runtime_update (\<lambda>_. runtime))
      (rt_bandwidths_update (\<lambda>b. b(tg := (b tg)\<lparr>rt_period := period, bw_rt_runtime := runtime\<rparr>)) k)" for k'
    using that by simp
  show ?thesis
  proof (cases "tree_fits k bw")
    case True
    then have "rt_schedulable (Some tg) period runtime k = Some None" using res(2) by blast
    then show ?thesis using True new unfolding bw_def [symmetric] Let_def tg_set_rt_bandwidth_def by simp
  next
    case False
    then have "rt_schedulable (Some tg) period runtime k \<in> {Some (Some EINVAL), Some (Some EBUSY)}" using res by blast
    then show ?thesis unfolding bw_def [symmetric] Let_def if_not_P [OF False] tg_set_rt_bandwidth_def by auto
  qed
qed

theorem rt_schedulable_decides_witness:
  "fst (the (tg_set_rt_bandwidth [] 1000000000 960000000 sched_demo)) \<in> {Some EINVAL, Some EBUSY} \<and>
   fst (the (tg_set_rt_bandwidth [] 1000000000 900000000 sched_demo)) = None"
proof -
  have g: "bw_fraction (global_rt_period sched_demo, global_rt_runtime sched_demo) = 996147"
    "\<not> (\<exists>p \<in> set (threads sched_demo). rt_task (tasks sched_demo p))"
    using sched_demo_limits(2) [of "[]"]
    by (simp_all add: global_rt_period_def global_rt_runtime_def sched_demo_def bw_fraction_def NSEC_PER_USEC_def RUNTIME_INF_def
        tg_has_rt_tasks_def list_ex_iff)
  then have fits: "tree_fits sched_demo (proposed_bw sched_demo \<lparr>sd_tg = Some [], sd_rt_period = 1000000000, sd_rt_runtime = 900000000\<rparr>)"
    "\<not> tree_fits sched_demo (proposed_bw sched_demo \<lparr>sd_tg = Some [], sd_rt_period = 1000000000, sd_rt_runtime = 960000000\<rparr>)"
    by (simp_all add: tree_fits_def sched_demo_tree proposed_bw_def bw_fraction_def RUNTIME_INF_def)
  have "sysctl_ok sched_demo" using sched_demo_admitted by (simp add: admitted_def)
  then show ?thesis
    using rt_schedulable_decides [OF sched_demo_tree(1), of "[]" 1000000000 960000000]
      rt_schedulable_decides [OF sched_demo_tree(1), of "[]" 1000000000 900000000] fits
    by (auto simp: Let_def sched_demo_tree proposed_bw_def)
qed

text \<open>
  C6. No overcommitment: from an admitted tree, through any sequence of writes to the run-time and
  period files, of sysctl writes, and of groups created and removed, all groups of one level of
  the tree together are promised at most the global share, which is at most the whole
  processor. The sum the code compares wraps at 32 bits; with fewer than 4096 groups it does not.
\<close>

theorem rt_admission_no_overcommit:
  assumes "bw_step\<^sup>*\<^sup>* k k'" and "admitted k" and "length (task_groups k) < 4096"
  shows "level_share k' n \<le> unat (global_ratio k') \<and> unat (global_ratio k') \<le> 2 ^ 20"
proof -
  have "admitted k' \<and> length (task_groups k') < 4096"
    using assms by (induction rule: rtranclp_induct) (auto dest: bw_step_admitted)
  then show ?thesis using level_share_global [of k'] by blast
qed

theorem rt_admission_no_overcommit_witness:
  "level_share (snd (sched_create_group False (\<lambda>k. (True, k)) None [1] sched_demo)) 1 \<le> 2 ^ 20"
proof -
  have "bw_step sched_demo (snd (sched_create_group False (\<lambda>k. (True, k)) None [1] sched_demo))"
    by (rule bw_step.create [of "[]" _ _ _ True "cfs sched_demo"]) (simp_all add: sched_demo_tree)
  then show ?thesis
    using rt_admission_no_overcommit [OF r_into_rtranclp sched_demo_admitted, of _ 1] by (fastforce simp: sched_demo_tree)
qed

text \<open>The run time in microseconds, scaled up and down again.\<close>

lemma unat_RUNTIME_INF: "unat RUNTIME_INF = 2 ^ 64 - 1"
  by (simp add: RUNTIME_INF_def unsigned_minus_1_eq_mask mask_eq_exp_minus_1)

lemma usec_nsec:
  fixes us :: ulong
  assumes "0 \<le> sint us"
  shows "ucast ((scast us * NSEC_PER_USEC :: u64) div NSEC_PER_USEC) = us" "(scast us * NSEC_PER_USEC :: u64) \<noteq> RUNTIME_INF"
    "(scast us * NSEC_PER_USEC :: u64) div NSEC_PER_USEC = ucast us"
proof -
  have "unat us < 2 ^ 32" using unsigned_less [of us] by simp
  have "uint us = sint us" using assms by (rule uint_eq_sint)
  then have sc: "(scast us :: u64) = ucast us" unfolding scast_eq by (metis of_int_uint)
  have "unat (ucast us * NSEC_PER_USEC :: u64) = unat us * 1000"
    using \<open>unat us < 2 ^ 32\<close> by (simp add: unat_word_ariths NSEC_PER_USEC_def unsigned_ucast_eq take_bit_nat_eq_self)
  note m = this
  have "unat ((ucast us * NSEC_PER_USEC :: u64) div NSEC_PER_USEC) = unat us"
    unfolding unat_div m by (simp add: NSEC_PER_USEC_def)
  then have d: "(ucast us * NSEC_PER_USEC :: u64) div NSEC_PER_USEC = ucast us"
    using \<open>unat us < 2 ^ 32\<close> by (simp add: word_unat_eq_iff unsigned_ucast_eq take_bit_nat_eq_self)
  have "ucast (ucast us :: u64) = us" by (rule bit_word_eqI) (simp add: bit_simps)
  then show "ucast ((scast us * NSEC_PER_USEC :: u64) div NSEC_PER_USEC) = us" by (simp add: sc d)
  show "(scast us * NSEC_PER_USEC :: u64) div NSEC_PER_USEC = ucast us" by (simp add: sc d)
  show "(scast us * NSEC_PER_USEC :: u64) \<noteq> RUNTIME_INF"
    using m \<open>unat us < 2 ^ 32\<close> unat_RUNTIME_INF unfolding sc by auto
qed

lemma tg_set_rt_bandwidth_ok:
  "tg_set_rt_bandwidth tg period runtime k = Some (None, k') \<Longrightarrow> group_bw k' tg = (period, runtime)"
  "tg_set_rt_bandwidth tg period runtime k = Some (Some err, k') \<Longrightarrow> k' = k"
  by (auto simp: tg_set_rt_bandwidth_def group_bw_def split: option.splits)

text \<open>
  The bandwidth files read back what was written. An accepted run time is reported as
  written, every negative one as -1 for no limit, and leaves the period alone; an accepted
  period is reported as written if it is positive, and leaves the run time alone; a refused
  write changes nothing.
\<close>

theorem group_bandwidth_roundtrip:
  "(sched_group_set_rt_runtime tg us k = Some (None, k') \<longrightarrow>
      sched_group_rt_runtime tg k' = (if sint us < 0 then - 1 else us) \<and>
      sched_group_rt_period tg k' = sched_group_rt_period tg k) \<and>
   (sched_group_set_rt_period tg us k = Some (None, k') \<and> 0 < sint us \<longrightarrow>
      sched_group_rt_period tg k' = us \<and> sched_group_rt_runtime tg k' = sched_group_rt_runtime tg k) \<and>
   (sched_group_set_rt_runtime tg us k = Some (Some err, k') \<or> sched_group_set_rt_period tg us k = Some (Some err, k') \<longrightarrow> k' = k)"
proof -
  have bw: "rt_period (rt_bandwidths k' tg) = fst (group_bw k' tg)" "bw_rt_runtime (rt_bandwidths k' tg) = snd (group_bw k' tg)"
    by (simp_all add: group_bw_def)
  show ?thesis
    using usec_nsec [of us] tg_set_rt_bandwidth_ok(2) [of tg _ _ k err k']
    by (auto simp: sched_group_set_rt_runtime_def sched_group_set_rt_period_def sched_group_rt_runtime_def
        sched_group_rt_period_def Let_def bw RUNTIME_INF_def dest!: tg_set_rt_bandwidth_ok(1) split: if_splits)
qed

theorem group_bandwidth_roundtrip_witness:
  "map_option (\<lambda>(r, k). sched_group_rt_runtime [] k) (sched_group_set_rt_runtime [] 900000 sched_demo) = Some 900000"
proof -
  obtain r k' where s: "tg_set_rt_bandwidth [] 1000000000 900000000 sched_demo = Some (r, k')" and r: "r = None"
    using rt_schedulable_cases [OF sched_demo_tree(1), of "Some []" 1000000000 900000000]
    by (auto simp: tg_set_rt_bandwidth_def sched_demo_tree group_served_def sched_demo_limits proposed_bw_def bw_ratio_def
        to_ratio_def RUNTIME_INF_def Let_def)
  have "sched_group_set_rt_runtime [] 900000 sched_demo = Some (None, k')"
    using s r by (simp add: sched_group_set_rt_runtime_def NSEC_PER_USEC_def) (simp add: sched_demo_def boot_kernel_def)
  then show ?thesis using group_bandwidth_roundtrip [of "[]" 900000 sched_demo k' EINVAL] by simp
qed

lemma global_limits:
  assumes "sysctl_sched_rt_runtime k < 2 ^ 31"
  shows "(global_rt_runtime k > global_rt_period k \<and> global_rt_runtime k \<noteq> RUNTIME_INF) \<longleftrightarrow>
    \<not> sysctl_sched_rt_runtime k \<le> uint (sysctl_sched_rt_period k)"
proof (cases "sysctl_sched_rt_runtime k < 0")
  case True
  then have "sysctl_sched_rt_runtime k \<le> uint (sysctl_sched_rt_period k)"
    using unsigned_greater_eq [of "sysctl_sched_rt_period k", where 'a = int] by linarith
  then show ?thesis using True by (simp add: global_rt_runtime_def)
next
  case False
  define n where "n = nat (sysctl_sched_rt_runtime k)"
  have n: "n < 2 ^ 31" "sysctl_sched_rt_runtime k = int n" using False assms by (simp_all add: n_def nat_less_iff)
  have p: "unat (sysctl_sched_rt_period k) < 2 ^ 32" using unsigned_less [of "sysctl_sched_rt_period k"] by simp
  have r: "unat (global_rt_runtime k) = n * 1000"
    using n by (simp add: global_rt_runtime_def NSEC_PER_USEC_def unat_word_ariths unat_of_nat)
  moreover have "unat (global_rt_period k) = unat (sysctl_sched_rt_period k) * 1000"
    using p by (simp add: global_rt_period_def NSEC_PER_USEC_def unat_word_ariths unsigned_ucast_eq take_bit_nat_eq_self)
  moreover have "global_rt_runtime k \<noteq> RUNTIME_INF" using r n(1) unat_RUNTIME_INF by auto
  moreover have "int n \<le> uint (sysctl_sched_rt_period k) \<longleftrightarrow> n \<le> unat (sysctl_sched_rt_period k)"
    unfolding unat_eq_nat_uint by (subst le_nat_iff) simp_all
  ultimately show ?thesis by (simp add: word_less_nat_alt n(2) not_le)
qed

text \<open>
  C27. A write to the real-time sysctls takes effect as a whole or not at all. It succeeds exactly
  if the period is not zero, the run time is negative (no limit) or at most the period, and the
  tree of groups fits the new limits; the defaults for new groups then follow the new values.
  Otherwise the call reports an error and restores both values.
\<close>

theorem sched_rt_handler_atomic:
  assumes "tg_tree k" and "- (2 ^ 31) \<le> runtime" and "runtime < 2 ^ 31"
  shows "let k1 = k\<lparr>sysctl_sched_rt_period := period, sysctl_sched_rt_runtime := runtime\<rparr> in
    \<exists>r k'. sched_rt_handler True (Inr (period, runtime)) k = Some (r, k') \<and>
      (if period \<noteq> 0 \<and> runtime \<le> uint period \<and> (\<forall>g \<in> set (task_groups k). group_served k1 (group_bw k) g)
       then r = None \<and> k' = k1\<lparr>def_rt_bandwidth := (def_rt_bandwidth k)
              \<lparr>bw_rt_runtime := global_rt_runtime k1, rt_period := global_rt_period k1\<rparr>\<rparr>
       else (r = Some EINVAL \<or> r = Some EBUSY) \<and> k' = k)"
proof -
  define k1 where "k1 = k\<lparr>sysctl_sched_rt_period := period, sysctl_sched_rt_runtime := runtime\<rparr>"
  have tree: "tg_tree k1" using assms(1) by (simp add: tg_tree_def k1_def)
  have bw: "proposed_bw k1 \<lparr>sd_tg = None, sd_rt_period = 0, sd_rt_runtime = 0\<rparr> = group_bw k"
    by (rule ext) (simp add: proposed_bw_def group_bw_def k1_def)
  have lim: "(global_rt_runtime k1 > global_rt_period k1 \<and> global_rt_runtime k1 \<noteq> RUNTIME_INF) \<longleftrightarrow> \<not> runtime \<le> uint period"
    using global_limits [of k1] assms(3) by (simp add: k1_def)
  define fits where "fits = (\<forall>g \<in> set (task_groups k). group_served k1 (group_bw k) g)"
  have sch: "rt_schedulable None 0 0 k1 \<in> {Some None, Some (Some EINVAL), Some (Some EBUSY)}"
    "rt_schedulable None 0 0 k1 = Some None \<longleftrightarrow> fits"
    using rt_schedulable_cases [OF tree, of None 0 0] by (simp_all add: bw fits_def) (simp_all add: k1_def)
  have con: "sched_rt_global_constraints k1 =
      (if period = 0 \<or> \<not> runtime \<le> uint period then Some (Some EINVAL) else rt_schedulable None 0 0 k1)"
    unfolding sched_rt_global_constraints_def Let_def lim by (simp add: k1_def)
  have restore: "k1\<lparr>sysctl_sched_rt_period := sysctl_sched_rt_period k, sysctl_sched_rt_runtime := sysctl_sched_rt_runtime k\<rparr> = k"
    by (simp add: k1_def)
  have def1: "def_rt_bandwidth k1 = def_rt_bandwidth k" by (simp add: k1_def)
  have h: "sched_rt_handler True (Inr (period, runtime)) k =
      (case sched_rt_global_constraints k1 of None \<Rightarrow> None | Some (Some err) \<Rightarrow> Some (Some err, k)
       | Some None \<Rightarrow> Some (None, k1\<lparr>def_rt_bandwidth := (def_rt_bandwidth k)
              \<lparr>bw_rt_runtime := global_rt_runtime k1, rt_period := global_rt_period k1\<rparr>\<rparr>))"
    by (simp only: sched_rt_handler_def Let_def sum.case prod.case if_True not_True_eq_False if_False k1_def [symmetric] restore def1)
  show ?thesis
    unfolding Let_def k1_def [symmetric] fits_def [symmetric] h con using sch by (cases fits) auto
qed

theorem sched_rt_handler_atomic_witness:
  "sched_rt_handler True (Inr (1000000, 2000000)) sched_demo \<in> {Some (Some EINVAL, sched_demo), Some (Some EBUSY, sched_demo)}"
  using sched_rt_handler_atomic [OF sched_demo_tree(1), of 2000000 1000000] by (auto simp: Let_def)

end
