(* ===== verification/Completion.thy ===== *)
theory Completion
  imports Core
begin

text \<open>
  Wait queues and completions, \<^verbatim>\<open>kernel/sched/core.c\<close>. A function that sleeps gives up the lock of
  the queue and calls \<^verbatim>\<open>schedule_timeout()\<close> of \<^verbatim>\<open>kernel/timer.c\<close>; between the calls others
  run. It is split there: one definition for the code up to the sleep, one for the code behind
  it. The entries and their linking are those of \<^verbatim>\<open><linux/wait.h>\<close>.
\<close>

section \<open>Wait queues\<close>

definition WQ_FLAG_EXCLUSIVE :: u32 where "WQ_FLAG_EXCLUSIVE = 1"

record 'f wait_queue =
  wq_flags :: u32
  wq_private :: tid
  wq_func :: "tid \<Rightarrow> ulong \<Rightarrow> u32 \<Rightarrow> 'f kernel \<Rightarrow> bool \<times> 'f kernel"

definition default_wake_function :: "'f env \<Rightarrow> tid \<Rightarrow> ulong \<Rightarrow> u32 \<Rightarrow> 'f kernel \<Rightarrow> bool \<times> 'f kernel" where
  "default_wake_function e p mode wake_flags k = try_to_wake_up e p mode wake_flags k"

text \<open>
  \<^verbatim>\<open>__wake_up_common()\<close>. The traversal is the safe one: a wake function may unlink its own
  entry. With \<open>nr_exclusive\<close> 0 the decrement never reaches 0.
\<close>

fun wake_up_common :: "'f wait_queue list \<Rightarrow> ulong \<Rightarrow> int \<Rightarrow> u32 \<Rightarrow> 'f kernel \<Rightarrow> 'f kernel" where
  "wake_up_common [] mode nr_exclusive wake_flags k = k"
| "wake_up_common (w # ws) mode nr_exclusive wake_flags k =
     (let flags = wq_flags w;
          (woken, k') = wq_func w (wq_private w) mode wake_flags k
      in if woken \<and> flags AND WQ_FLAG_EXCLUSIVE \<noteq> 0 then
           if nr_exclusive - 1 = 0 then k' else wake_up_common ws mode (nr_exclusive - 1) wake_flags k'
         else wake_up_common ws mode nr_exclusive wake_flags k')"

definition wake_up :: "'f wait_queue list \<Rightarrow> ulong \<Rightarrow> int \<Rightarrow> 'f kernel \<Rightarrow> 'f kernel" where
  "wake_up q mode nr_exclusive k = wake_up_common q mode nr_exclusive 0 k"

definition wake_up_locked :: "'f wait_queue list \<Rightarrow> ulong \<Rightarrow> int \<Rightarrow> 'f kernel \<Rightarrow> 'f kernel" where
  "wake_up_locked q mode nr k = wake_up_common q mode nr 0 k"

definition wake_up_locked_key :: "'f wait_queue list \<Rightarrow> ulong \<Rightarrow> 'f kernel \<Rightarrow> 'f kernel" where
  "wake_up_locked_key q mode k = wake_up_common q mode 1 0 k"

definition wake_up_sync_key :: "'f wait_queue list option \<Rightarrow> ulong \<Rightarrow> int \<Rightarrow> 'f kernel \<Rightarrow> 'f kernel" where
  "wake_up_sync_key q mode nr_exclusive k =
     (case q of
        None \<Rightarrow> k
      | Some ws \<Rightarrow>
          let wake_flags = (if nr_exclusive = 0 then 0 else WF_SYNC)
          in wake_up_common ws mode nr_exclusive wake_flags k)"

definition wake_up_sync :: "'f wait_queue list option \<Rightarrow> ulong \<Rightarrow> int \<Rightarrow> 'f kernel \<Rightarrow> 'f kernel" where
  "wake_up_sync q mode nr_exclusive k = wake_up_sync_key q mode nr_exclusive k"

section \<open>Completions\<close>

record 'f completion =
  cdone :: u32
  cwait :: "'f wait_queue list"

definition complete :: "'f completion \<Rightarrow> 'f kernel \<Rightarrow> 'f completion \<times> 'f kernel" where
  "complete x k = (let x1 = x\<lparr>cdone := cdone x + 1\<rparr> in (x1, wake_up_common (cwait x1) TASK_NORMAL 1 0 k))"

definition UINT_MAX :: u32 where "UINT_MAX = - 1"

definition complete_all :: "'f completion \<Rightarrow> 'f kernel \<Rightarrow> 'f completion \<times> 'f kernel" where
  "complete_all x k =
     (let x1 = x\<lparr>cdone := cdone x + UINT_MAX div 2\<rparr> in (x1, wake_up_common (cwait x1) TASK_NORMAL 0 0 k))"

text \<open>
  \<^verbatim>\<open>do_wait_for_common()\<close> by the current task. A \<^verbatim>\<open>long\<close> is the word of its bits. A segment
  ends asleep, with the time it is to sleep, or with the value the function returns.
\<close>

definition ERESTARTSYS_LONG :: ulong where "ERESTARTSYS_LONG = 512"

definition MAX_SCHEDULE_TIMEOUT :: ulong where "MAX_SCHEDULE_TIMEOUT = 0x7fffffff"

datatype wait_result = Asleep ulong | Returns ulong

definition add_wait_queue_tail_exclusive :: "'f env \<Rightarrow> tid \<Rightarrow> 'f wait_queue list \<Rightarrow> 'f wait_queue list" where
  "add_wait_queue_tail_exclusive e p q =
     list_add_tail \<lparr>wq_flags = 0 OR WQ_FLAG_EXCLUSIVE, wq_private = p, wq_func = default_wake_function e\<rparr> q"

definition remove_wait_queue :: "tid \<Rightarrow> 'f wait_queue list \<Rightarrow> 'f wait_queue list" where
  "remove_wait_queue p q = filter (\<lambda>w. wq_private w \<noteq> p) q"

text \<open>Behind the loop: off the queue, and one completion is used up if there is one.\<close>

definition wait_leave ::
  "ulong \<Rightarrow> 'f completion \<Rightarrow> 'f kernel \<Rightarrow> wait_result \<times> 'f completion \<times> 'f kernel" where
  "wait_leave tmo x k =
     (let x1 = x\<lparr>cwait := remove_wait_queue (curr (rq k)) (cwait x)\<rparr>
      in if cdone x1 = 0 then (Returns tmo, x1, k)
         else (Returns (if tmo \<noteq> 0 then tmo else 1), x1\<lparr>cdone := cdone x1 - 1\<rparr>, k))"

text \<open>The body of the loop up to the sleep.\<close>

definition wait_sleep ::
  "ulong \<Rightarrow> ulong \<Rightarrow> 'f completion \<Rightarrow> 'f kernel \<Rightarrow> wait_result \<times> 'f completion \<times> 'f kernel" where
  "wait_sleep tmo state x k =
     (if signal_pending_state state (curr_task k) then wait_leave (- ERESTARTSYS_LONG) x k
      else (Asleep tmo, x, upd_task (curr (rq k)) (tsk_state_update (\<lambda>_. state)) k))"

definition wait_begin ::
  "'f env \<Rightarrow> ulong \<Rightarrow> ulong \<Rightarrow> 'f completion \<Rightarrow> 'f kernel \<Rightarrow> wait_result \<times> 'f completion \<times> 'f kernel" where
  "wait_begin e tmo state x k =
     (if cdone x = 0
      then wait_sleep tmo state (x\<lparr>cwait := add_wait_queue_tail_exclusive e (curr (rq k)) (cwait x)\<rparr>) k
      else (Returns (if tmo \<noteq> 0 then tmo else 1), x\<lparr>cdone := cdone x - 1\<rparr>, k))"

text \<open>After \<^verbatim>\<open>schedule_timeout()\<close> has returned \<open>tmo\<close>.\<close>

definition wait_resume ::
  "ulong \<Rightarrow> ulong \<Rightarrow> 'f completion \<Rightarrow> 'f kernel \<Rightarrow> wait_result \<times> 'f completion \<times> 'f kernel" where
  "wait_resume tmo state x k =
     (if cdone x = 0 \<and> tmo \<noteq> 0 then wait_sleep tmo state x k else wait_leave tmo x k)"

text \<open>
  The whole function, with \<open>sleep\<close> for \<^verbatim>\<open>schedule_timeout()\<close> and all that happens until it
  returns; \<open>None\<close> when the task sleeps for ever.
\<close>

partial_function (option) wait_loop ::
  "(ulong \<Rightarrow> 'f completion \<times> 'f kernel \<Rightarrow> ulong \<times> 'f completion \<times> 'f kernel) \<Rightarrow> ulong \<Rightarrow>
   wait_result \<times> 'f completion \<times> 'f kernel \<Rightarrow> (ulong \<times> 'f completion \<times> 'f kernel) option" where
  "wait_loop sleep state r =
     (case r of
        (Returns t, x, k) \<Rightarrow> Some (t, x, k)
      | (Asleep tmo, x, k) \<Rightarrow> (case sleep tmo (x, k) of (t, x', k') \<Rightarrow> wait_loop sleep state (wait_resume t state x' k')))"

declare wait_loop.simps [code]

definition do_wait_for_common where
  "do_wait_for_common e sleep tmo state x k = wait_loop sleep state (wait_begin e tmo state x k)"

definition wait_for_common where
  "wait_for_common e sleep tmo state x k = do_wait_for_common e sleep tmo state x k"

definition wait_for_completion where
  "wait_for_completion e sleep x k =
     map_option snd (wait_for_common e sleep MAX_SCHEDULE_TIMEOUT TASK_UNINTERRUPTIBLE x k)"

definition wait_for_completion_timeout where
  "wait_for_completion_timeout e sleep tmo x k = wait_for_common e sleep tmo TASK_UNINTERRUPTIBLE x k"

definition wait_for_completion_interruptible where
  "wait_for_completion_interruptible e sleep x k =
     map_option (\<lambda>(t, s). (if t = - ERESTARTSYS_LONG then t else 0, s))
       (wait_for_common e sleep MAX_SCHEDULE_TIMEOUT TASK_INTERRUPTIBLE x k)"

definition wait_for_completion_interruptible_timeout where
  "wait_for_completion_interruptible_timeout e sleep tmo x k =
     wait_for_common e sleep tmo TASK_INTERRUPTIBLE x k"

definition wait_for_completion_killable where
  "wait_for_completion_killable e sleep x k =
     map_option (\<lambda>(t, s). (if t = - ERESTARTSYS_LONG then t else 0, s))
       (wait_for_common e sleep MAX_SCHEDULE_TIMEOUT TASK_KILLABLE x k)"

definition wait_for_completion_killable_timeout where
  "wait_for_completion_killable_timeout e sleep tmo x k =
     wait_for_common e sleep tmo TASK_KILLABLE x k"

definition try_wait_for_completion :: "'f completion \<Rightarrow> bool \<times> 'f completion" where
  "try_wait_for_completion x = (if cdone x = 0 then (False, x) else (True, x\<lparr>cdone := cdone x - 1\<rparr>))"

definition completion_done :: "'f completion \<Rightarrow> bool" where
  "completion_done x = (if cdone x = 0 then False else True)"

section \<open>Sleeping on a queue\<close>

text \<open>\<^verbatim>\<open>sleep_on_common()\<close> before and after the sleep.\<close>

definition sleep_on_begin ::
  "'f env \<Rightarrow> ulong \<Rightarrow> 'f wait_queue list \<Rightarrow> 'f kernel \<Rightarrow> 'f wait_queue list \<times> 'f kernel" where
  "sleep_on_begin e state q k =
     (list_add \<lparr>wq_flags = 0, wq_private = curr (rq k), wq_func = default_wake_function e\<rparr> q,
      upd_task (curr (rq k)) (tsk_state_update (\<lambda>_. state)) k)"

definition sleep_on_end :: "ulong \<Rightarrow> 'f wait_queue list \<Rightarrow> 'f kernel \<Rightarrow> ulong \<times> 'f wait_queue list" where
  "sleep_on_end tmo q k = (tmo, remove_wait_queue (curr (rq k)) q)"

definition sleep_on_common where
  "sleep_on_common e sleep state tmo q k =
     (case sleep tmo (sleep_on_begin e state q k) of (t, q', k') \<Rightarrow> (sleep_on_end t q' k', k'))"

definition interruptible_sleep_on where
  "interruptible_sleep_on e sleep q k = sleep_on_common e sleep TASK_INTERRUPTIBLE MAX_SCHEDULE_TIMEOUT q k"

definition interruptible_sleep_on_timeout where
  "interruptible_sleep_on_timeout e sleep tmo q k = sleep_on_common e sleep TASK_INTERRUPTIBLE tmo q k"

definition sleep_on where
  "sleep_on e sleep q k = sleep_on_common e sleep TASK_UNINTERRUPTIBLE MAX_SCHEDULE_TIMEOUT q k"

definition sleep_on_timeout where
  "sleep_on_timeout e sleep tmo q k = sleep_on_common e sleep TASK_UNINTERRUPTIBLE tmo q k"

end
