(* ===== verification/Completion_Claims.thy ===== *)
theory Completion_Claims
  imports Completion Core_Claims
begin

text \<open>
  A completion is a counting semaphore with a queue: what is completed is taken by one waiter
  each, and no waiter sleeps on while there is something to take.
\<close>

section \<open>Waking the waiters of a completion\<close>

definition waiters :: "'f completion \<Rightarrow> tid list" where
  "waiters x = map wq_private (cwait x)"

lemma waiters_done [simp]: "waiters (x\<lparr>cdone := d\<rparr>) = waiters x"
  by (simp add: waiters_def)

definition awake :: "'f kernel \<Rightarrow> tid \<Rightarrow> bool" where
  "awake k p \<longleftrightarrow> tsk_state (tasks k p) AND TASK_NORMAL = 0"

text \<open>The entries \<^verbatim>\<open>do_wait_for_common()\<close> makes: exclusive, with the default wake function.\<close>

definition plain_entries :: "'f env \<Rightarrow> 'f wait_queue list \<Rightarrow> bool" where
  "plain_entries e ws \<longleftrightarrow>
     (\<forall>w \<in> set ws. wq_flags w AND WQ_FLAG_EXCLUSIVE \<noteq> 0 \<and> wq_func w = default_wake_function e \<and> wq_private w < PID_MAX_LIMIT)"

lemma try_to_wake_up_awake: "awake k p \<Longrightarrow> try_to_wake_up e p TASK_NORMAL fl k = (False, k)"
  by (simp add: awake_def try_to_wake_up_def)

lemma try_to_wake_up_asleep:
  "\<not> awake k p \<Longrightarrow> fst (try_to_wake_up e p TASK_NORMAL fl k)" "\<not> awake k p \<Longrightarrow> awake (snd (try_to_wake_up e p TASK_NORMAL fl k)) p"
  by (simp_all add: awake_def try_to_wake_up_def Let_def split_def ttwu_stat_def ttwu_remote_def ttwu_do_wakeup_def
      ttwu_queue_def ttwu_do_activate_def TASK_RUNNING_def)

text \<open>One exclusive wake-up goes to the first waiter that sleeps.\<close>

lemma wake_up_one:
  "plain_entries e ws \<Longrightarrow> wake_up_common ws TASK_NORMAL 1 fl k =
     (case find (\<lambda>p. \<not> awake k p) (map wq_private ws) of None \<Rightarrow> k | Some p \<Rightarrow> snd (try_to_wake_up e p TASK_NORMAL fl k))"
proof (induction ws)
  case (Cons w ws)
  then have w: "wq_func w = default_wake_function e" "wq_flags w AND WQ_FLAG_EXCLUSIVE \<noteq> 0" "plain_entries e ws"
    by (auto simp: plain_entries_def)
  show ?case
  proof (cases "awake k (wq_private w)")
    case True
    then show ?thesis using Cons.IH w by (simp add: default_wake_function_def try_to_wake_up_awake)
  next
    case False
    then show ?thesis
      using w try_to_wake_up_asleep(1) [OF False, of e fl] by (simp add: default_wake_function_def split_def)
  qed
qed simp

lemma good_step_awake: "good_step k k' \<Longrightarrow> awake k p \<Longrightarrow> awake k' p"
  unfolding good_step_def awake_def by (metis TASK_RUNNING_def bit.conj_zero_left)

lemma wake_up_all:
  assumes e: "env_ok e"
  shows "plain_entries e ws \<Longrightarrow> nr \<le> 0 \<Longrightarrow> run_inv k \<Longrightarrow> good_step k (wake_up_common ws TASK_NORMAL nr fl k) \<and>
    (\<forall>w \<in> set ws. awake (wake_up_common ws TASK_NORMAL nr fl k) (wq_private w))"
proof (induction ws arbitrary: nr k)
  case Nil
  then show ?case by (simp add: good_step_refl)
next
  case (Cons w ws)
  define k' where "k' = snd (try_to_wake_up e (wq_private w) TASK_NORMAL fl k)"
  define nr' where "nr' = (if fst (try_to_wake_up e (wq_private w) TASK_NORMAL fl k) then nr - 1 else nr)"
  have nr': "nr' \<le> 0" and eq: "wake_up_common (w # ws) TASK_NORMAL nr fl k = wake_up_common ws TASK_NORMAL nr' fl k'"
    using Cons.prems(1,2) by (simp_all add: plain_entries_def default_wake_function_def split_def Let_def k'_def nr'_def)
  have p: "plain_entries e ws" "wq_private w < PID_MAX_LIMIT" using Cons.prems(1) by (auto simp: plain_entries_def)
  have s: "good_step k k'" unfolding k'_def by (rule try_to_wake_up_step [OF e Cons.prems(3) p(2)])
  have "awake k' (wq_private w)"
    using try_to_wake_up_awake try_to_wake_up_asleep(2) unfolding k'_def by (metis snd_conv)
  then show ?case
    unfolding eq using Cons.IH [OF p(1) nr' good_step_run_inv [OF s]] good_step_trans [OF s] good_step_awake by auto
qed

section \<open>The completion as a transition system\<close>

text \<open>
  Posting some number of completions, taking one, or neither. The label of a wait is what its
  caller sees: a positive value says that it took one.
\<close>

datatype sem_op = Post nat | Take | Quiet

fun outcome :: "wait_result \<Rightarrow> sem_op" where
  "outcome (Asleep t) = Quiet"
| "outcome (Returns t) = (if sint t > 0 then Take else Quiet)"

definition sleep_states :: "ulong set" where
  "sleep_states = {TASK_INTERRUPTIBLE, TASK_UNINTERRUPTIBLE, TASK_KILLABLE}"

text \<open>
  Steps on one completion: the calls, the two segments of a wait by the current task, and what
  the rest of the kernel does, which may wake waiters but puts none to sleep.
\<close>

inductive cp_step :: "'f env \<Rightarrow> 'f completion \<times> 'f kernel \<Rightarrow> sem_op \<Rightarrow> 'f completion \<times> 'f kernel \<Rightarrow> bool" for e where
  post: "cp_step e (x, k) (Post 1) (complete x k)"
| post_all: "cp_step e (x, k) (Post (2 ^ 31 - 1)) (complete_all x k)"
| try_wait: "try_wait_for_completion x = (b, x') \<Longrightarrow> cp_step e (x, k) (if b then Take else Quiet) (x', k)"
| begin_wait: "curr (rq k) \<notin> set (waiters x) \<Longrightarrow> curr (rq k) \<noteq> idle (rq k) \<Longrightarrow> curr (rq k) < PID_MAX_LIMIT \<Longrightarrow>
    st \<in> sleep_states \<Longrightarrow> 0 \<le> sint t \<Longrightarrow> wait_begin e t st x k = (r, x', k') \<Longrightarrow> cp_step e (x, k) (outcome r) (x', k')"
| resume: "curr (rq k) \<in> set (waiters x) \<Longrightarrow> curr (rq k) \<noteq> idle (rq k) \<Longrightarrow> awake k (curr (rq k)) \<Longrightarrow>
    st \<in> sleep_states \<Longrightarrow> 0 \<le> sint t \<Longrightarrow> wait_resume t st x k = (r, x', k') \<Longrightarrow> cp_step e (x, k) (outcome r) (x', k')"
| others: "sched_inv k' \<Longrightarrow> (\<And>p. p \<in> set (waiters x) \<Longrightarrow> awake k p \<Longrightarrow> awake k' p) \<Longrightarrow> cp_step e (x, k) Quiet (x, k')"

text \<open>
  As many waiters are awake as there is something to take for, or all of them.
\<close>

definition cp_inv :: "'f env \<Rightarrow> 'f completion \<times> 'f kernel \<Rightarrow> bool" where
  "cp_inv e s \<longleftrightarrow> (case s of (x, k) \<Rightarrow>
     sched_inv k \<and> plain_entries e (cwait x) \<and> distinct (waiters x) \<and>
     min (unat (cdone x)) (length (waiters x)) \<le> length (filter (awake k) (waiters x)))"

lemma filter_mono_length: "(\<And>p. p \<in> set ps \<Longrightarrow> P p \<Longrightarrow> Q p) \<Longrightarrow> length (filter P ps) \<le> length (filter Q ps)"
  by (induction ps) auto

lemma filter_more:
  assumes "\<And>p. p \<in> set ps \<Longrightarrow> P p \<Longrightarrow> Q p" and "q \<in> set ps" "\<not> P q" "Q q"
  shows "Suc (length (filter P ps)) \<le> length (filter Q ps)"
proof -
  obtain as bs where ps: "ps = as @ q # bs" using assms(2) by (meson split_list)
  show ?thesis
    using filter_mono_length [of as P Q] filter_mono_length [of bs P Q] assms by (simp add: ps)
qed

lemma cp_inv_complete:
  assumes e: "env_ok e" and inv: "cp_inv e (x, k)"
  shows "cp_inv e (complete x k)"
proof -
  define k' where "k' = wake_up_common (cwait x) TASK_NORMAL 1 0 k"
  have I: "sched_inv k" "plain_entries e (cwait x)" "distinct (waiters x)"
    "min (unat (cdone x)) (length (waiters x)) \<le> length (filter (awake k) (waiters x))"
    using inv by (simp_all add: cp_inv_def)
  have r: "run_inv k" using I(1) by (simp add: sched_inv_def)
  have done_le: "unat (cdone x + 1) \<le> Suc (unat (cdone x))" by (simp add: unat_word_ariths)
  note one = wake_up_one [OF I(2), of 0 k, folded waiters_def k'_def]
  have "sched_inv k' \<and> min (Suc (unat (cdone x))) (length (waiters x)) \<le> length (filter (awake k') (waiters x))"
  proof (cases "find (\<lambda>p. \<not> awake k p) (waiters x)")
    case None
    then have "filter (awake k) (waiters x) = waiters x" by (auto simp: find_None_iff)
    then show ?thesis using one None I(1) by simp
  next
    case (Some p)
    note p = find_SomeD [OF Some]
    have lim: "p < PID_MAX_LIMIT" using p I(2) by (auto simp: waiters_def plain_entries_def)
    have k': "k' = snd (try_to_wake_up e p TASK_NORMAL 0 k)" using one Some by simp
    have s: "good_step k k'" unfolding k' by (rule try_to_wake_up_step [OF e r lim])
    have "Suc (length (filter (awake k) (waiters x))) \<le> length (filter (awake k') (waiters x))"
      by (rule filter_more [of _ _ _ p]) (use p good_step_awake [OF s] try_to_wake_up_asleep(2) k' in auto)
    then show ?thesis using good_step_inv [OF I(1) s] I(4) by simp
  qed
  then show ?thesis
    using I(2,3) done_le by (auto simp: cp_inv_def complete_def k'_def [symmetric])
qed

lemma cp_inv_complete_all:
  assumes e: "env_ok e" and inv: "cp_inv e (x, k)"
  shows "cp_inv e (complete_all x k)"
proof -
  define k' where "k' = wake_up_common (cwait x) TASK_NORMAL 0 0 k"
  have I: "sched_inv k" "plain_entries e (cwait x)" "distinct (waiters x)" using inv by (simp_all add: cp_inv_def)
  have r: "run_inv k" using I(1) by (simp add: sched_inv_def)
  note all = wake_up_all [OF e I(2) order_refl r, of 0, folded k'_def]
  then have "filter (awake k') (waiters x) = waiters x" by (simp add: waiters_def)
  moreover have "sched_inv k'" using good_step_inv [OF I(1)] all by blast
  ultimately show ?thesis using I by (simp add: cp_inv_def complete_all_def k'_def [symmetric])
qed

lemma waiters_remove: "waiters (x\<lparr>cwait := remove_wait_queue p (cwait x)\<rparr>) = filter (\<lambda>q. q \<noteq> p) (waiters x)"
  by (simp add: waiters_def remove_wait_queue_def filter_map comp_def)

lemma plain_entries_remove: "plain_entries e q \<Longrightarrow> plain_entries e (remove_wait_queue p q)"
  by (auto simp: plain_entries_def remove_wait_queue_def)

lemma length_remove_distinct: "distinct ps \<Longrightarrow> p \<in> set ps \<Longrightarrow> Suc (length (filter (\<lambda>q. q \<noteq> p) ps)) = length ps"
proof (induction ps)
  case (Cons a ps)
  moreover have "filter (\<lambda>q. q \<noteq> a) ps = ps" if "a \<notin> set ps" using that by (auto simp: filter_id_conv)
  ultimately show ?case by (cases "a = p") auto
qed simp

lemma cp_inv_leave:
  assumes inv: "sched_inv k" "plain_entries e (cwait x)" "distinct (waiters x)"
    and count: "cdone x = 0 \<or> curr (rq k) \<in> set (waiters x) \<and> awake k (curr (rq k)) \<and>
      min (unat (cdone x)) (length (waiters x)) \<le> length (filter (awake k) (waiters x))"
    and r: "wait_leave t x k = (r, x', k')"
  shows "cp_inv e (x', k') \<and> k' = k"
proof (cases "cdone x = 0")
  case True
  then show ?thesis
    using r inv by (auto simp: wait_leave_def cp_inv_def waiters_remove plain_entries_remove)
next
  case False
  let ?ps = "filter (\<lambda>q. q \<noteq> curr (rq k)) (waiters x)"
  have x': "x' = x\<lparr>cwait := remove_wait_queue (curr (rq k)) (cwait x)\<rparr>\<lparr>cdone := cdone x - 1\<rparr>" "k' = k"
    using r False by (auto simp: wait_leave_def Let_def)
  have w: "waiters x' = ?ps" "cwait x' = remove_wait_queue (curr (rq k)) (cwait x)" "cdone x' = cdone x - 1"
    unfolding x' waiters_done waiters_remove by simp_all
  have n: "Suc (length ?ps) = length (waiters x)" using length_remove_distinct inv(3) count False by auto
  have "filter (awake k) ?ps = filter (\<lambda>q. q \<noteq> curr (rq k)) (filter (awake k) (waiters x))"
    by (simp add: conj_commute)
  then have "Suc (length (filter (awake k) ?ps)) = length (filter (awake k) (waiters x))"
    using length_remove_distinct [of "filter (awake k) (waiters x)" "curr (rq k)"] inv(3) count False by auto
  then have "min (unat (cdone x) - 1) (length ?ps) \<le> length (filter (awake k) ?ps)" using count False n by auto
  then have "min (unat (cdone x')) (length (waiters x')) \<le> length (filter (awake k) (waiters x'))"
    unfolding w unat_dec [OF False] .
  then show ?thesis using inv w(1,2) x'(2) by (simp add: cp_inv_def plain_entries_remove)
qed

lemma cp_inv_sleep:
  assumes inv: "sched_inv k" "plain_entries e (cwait x)" "distinct (waiters x)" and "cdone x = 0" and "curr (rq k) \<noteq> idle (rq k)"
    and r: "wait_sleep t st x k = (r, x', k')"
  shows "cp_inv e (x', k')"
proof (cases "signal_pending_state st (curr_task k)")
  case True
  then show ?thesis using cp_inv_leave [OF inv] r assms(4) by (auto simp: wait_sleep_def)
next
  case False
  then have "x' = x" "k' = upd_task (curr (rq k)) (tsk_state_update (\<lambda>_. st)) k" using r by (auto simp: wait_sleep_def)
  then show ?thesis using set_state_inv [OF inv(1) assms(5)] inv assms(4) by (simp add: cp_inv_def)
qed

lemma cp_inv_step:
  assumes e: "env_ok e" and "cp_step e s l s'" and "cp_inv e s"
  shows "cp_inv e s'"
  using assms(2)
proof cases
  case (post x k)
  then show ?thesis using cp_inv_complete [OF e] assms(3) by simp
next
  case (post_all x k)
  then show ?thesis using cp_inv_complete_all [OF e] assms(3) by simp
next
  case (try_wait x b x' k)
  then show ?thesis
    using assms(3) by (auto simp: cp_inv_def try_wait_for_completion_def unat_dec split: if_splits)
next
  case (begin_wait k x st t r x' k')
  have I: "sched_inv k" "plain_entries e (cwait x)" "distinct (waiters x)"
    "min (unat (cdone x)) (length (waiters x)) \<le> length (filter (awake k) (waiters x))"
    using assms(3) begin_wait(1) by (simp_all add: cp_inv_def)
  show ?thesis
  proof (cases "cdone x = 0")
    case True
    let ?x = "x\<lparr>cwait := add_wait_queue_tail_exclusive e (curr (rq k)) (cwait x)\<rparr>"
    have w: "waiters ?x = waiters x @ [curr (rq k)]" "plain_entries e (cwait ?x)"
      using I(2) begin_wait(6) by (auto simp: waiters_def add_wait_queue_tail_exclusive_def list_ops plain_entries_def WQ_FLAG_EXCLUSIVE_def)
    have "distinct (waiters ?x)" using w(1) I(3) begin_wait(4) by simp
    from cp_inv_sleep [OF I(1) w(2) this, of t st r x' k'] show ?thesis using begin_wait True by (simp add: wait_begin_def)
  next
    case False
    then have "x' = x\<lparr>cdone := cdone x - 1\<rparr>" "k' = k" using begin_wait by (auto simp: wait_begin_def)
    then show ?thesis using I begin_wait(3) unat_dec [OF False] by (auto simp: cp_inv_def)
  qed
next
  case (resume k x st t r x' k')
  have I: "sched_inv k" "plain_entries e (cwait x)" "distinct (waiters x)"
    "min (unat (cdone x)) (length (waiters x)) \<le> length (filter (awake k) (waiters x))"
    using assms(3) resume(1) by (simp_all add: cp_inv_def)
  show ?thesis
    using cp_inv_sleep [OF I(1-3), of t st r x' k'] cp_inv_leave [OF I(1-3), of t r x' k'] resume I(4)
    by (auto simp: wait_resume_def split: if_splits)
next
  case (others k' x k)
  then show ?thesis
    using assms(3) filter_mono_length [of "waiters x" "awake k" "awake k'"] by (auto simp: cp_inv_def)
qed

section \<open>The semaphore\<close>

text \<open>A counting semaphore: posting adds, taking needs and removes one. And its runs.\<close>

inductive sem_run :: "nat \<Rightarrow> sem_op list \<Rightarrow> nat \<Rightarrow> bool" where
  start: "sem_run n [] n"
| post: "sem_run n ls m \<Longrightarrow> sem_run n (ls @ [Post j]) (m + j)"
| take: "sem_run n ls (Suc m) \<Longrightarrow> sem_run n (ls @ [Take]) m"
| quiet: "sem_run n ls m \<Longrightarrow> sem_run n (ls @ [Quiet]) m"

inductive cp_run :: "'f env \<Rightarrow> 'f completion \<times> 'f kernel \<Rightarrow> sem_op list \<Rightarrow> 'f completion \<times> 'f kernel \<Rightarrow> bool" for e where
  start: "cp_run e s [] s"
| step: "cp_run e s ls s' \<Longrightarrow> cp_step e s' l s'' \<Longrightarrow> cp_run e s (ls @ [l]) s''"

fun posts :: "sem_op list \<Rightarrow> nat" where
  "posts [] = 0"
| "posts (Post n # ls) = n + posts ls"
| "posts (_ # ls) = posts ls"

lemma posts_snoc: "posts (ls @ [l]) = posts ls + posts [l]"
  by (induction ls rule: posts.induct) (cases l; simp)+

lemma sem_run_bound: "sem_run n ls m \<Longrightarrow> m + length (filter (\<lambda>l. l = Take) ls) = n + posts ls"
  by (induction rule: sem_run.induct) (simp_all add: posts_snoc)

lemma sint_pos_iff: "0 \<le> sint t \<Longrightarrow> 0 < sint t \<longleftrightarrow> t \<noteq> 0" for t :: ulong
  using signed_word_eqI [of t 0] by (auto simp: order_less_le)

lemma Suc_unat_dec: "n \<noteq> 0 \<Longrightarrow> unat n = Suc (unat (n - 1))" for n :: ulong
  by (simp add: unat_dec unat_eq_0 flip: neq0_conv)

text \<open>The counter across one step, by the label of the step.\<close>

definition counts :: "nat \<Rightarrow> sem_op \<Rightarrow> nat \<Rightarrow> bool" where
  "counts n l m \<longleftrightarrow> (case l of Post j \<Rightarrow> m = n + j | Take \<Rightarrow> n = Suc m | Quiet \<Rightarrow> m = n)"

lemma leave_counts:
  assumes "wait_leave t x k = (r, x', k')" and "if cdone x = 0 then sint t \<le> 0 else 0 \<le> sint t"
  shows "counts (unat (cdone x)) (outcome r) (unat (cdone x'))"
proof (cases "cdone x = 0")
  case False
  then have "r = Returns (if t \<noteq> 0 then t else 1)" "cdone x' = cdone x - 1" using assms(1) by (auto simp: wait_leave_def Let_def)
  moreover have "unat (cdone x) \<noteq> 0" using False by (simp add: unat_eq_0)
  ultimately show ?thesis using assms(2) False sint_pos_iff [of t] by (auto simp: counts_def unat_dec)
qed (use assms in \<open>auto simp: wait_leave_def counts_def\<close>)

lemma sleep_counts:
  assumes "wait_sleep t st x k = (r, x', k')" and "cdone x = 0"
  shows "counts (unat (cdone x)) (outcome r) (unat (cdone x'))"
  using assms leave_counts [of "- ERESTARTSYS_LONG" x k r x' k']
  by (auto simp: wait_sleep_def counts_def ERESTARTSYS_LONG_def split: if_splits)

lemma cp_step_counts:
  assumes "cp_step e s l s'" and "unat (cdone (fst s)) + posts [l] < 2 ^ 32"
  shows "counts (unat (cdone (fst s))) l (unat (cdone (fst s')))"
  using assms(1)
proof cases
  case (post x k)
  then show ?thesis using assms(2) by (simp add: counts_def complete_def Let_def unat_word_ariths)
next
  case (post_all x k)
  then show ?thesis using assms(2) by (simp add: counts_def complete_all_def Let_def unat_word_ariths UINT_MAX_def)
next
  case (try_wait x b x' k)
  then show ?thesis by (auto simp: counts_def try_wait_for_completion_def Suc_unat_dec split: if_splits)
next
  case (begin_wait k x st t r x' k')
  show ?thesis
  proof (cases "cdone x = 0")
    case True
    then show ?thesis using begin_wait sleep_counts [of t st _ k r x' k'] by (fastforce simp: wait_begin_def)
  next
    case False
    then have "r = Returns (if t \<noteq> 0 then t else 1)" "cdone x' = cdone x - 1" using begin_wait by (auto simp: wait_begin_def)
    moreover have "unat (cdone x) \<noteq> 0" using False by (simp add: unat_eq_0)
    ultimately show ?thesis using begin_wait False sint_pos_iff [of t] by (auto simp: counts_def unat_dec)
  qed
next
  case (resume k x st t r x' k')
  then show ?thesis
    using sleep_counts [of t st x k r x' k'] leave_counts [of t x k r x' k'] by (auto simp: wait_resume_def split: if_splits)
qed (simp add: counts_def)

lemma counts_sem_run: "sem_run n ls m \<Longrightarrow> counts m l m' \<Longrightarrow> sem_run n (ls @ [l]) m'"
  by (cases l) (auto simp: counts_def intro: sem_run.intros)

lemma cp_run_inv: "cp_run e s ls s' \<Longrightarrow> env_ok e \<Longrightarrow> cp_inv e s \<Longrightarrow> cp_inv e s'"
  by (induction rule: cp_run.induct) (auto dest: cp_inv_step)

section \<open>Properties\<close>

text \<open>
  C7. A completion implements a counting semaphore. Along every run of \<^verbatim>\<open>complete()\<close>,
  \<^verbatim>\<open>complete_all()\<close> (which posts 2^31 - 1), \<^verbatim>\<open>try_wait_for_completion()\<close> and waits that
  begin, sleep, are interrupted, time out or finish in any order, the counter \<^verbatim>\<open>done\<close> is that of
  the semaphore: a wait returns a positive value exactly when it takes one, and never more
  are taken than were posted. The 32-bit counter must not overflow.
\<close>

theorem completion_refines_semaphore:
  assumes "cp_run e s ls s'" and "unat (cdone (fst s)) + posts ls < 2 ^ 32"
  shows "sem_run (unat (cdone (fst s))) ls (unat (cdone (fst s'))) \<and>
    length (filter (\<lambda>l. l = Take) ls) \<le> unat (cdone (fst s)) + posts ls"
proof -
  have "sem_run (unat (cdone (fst s))) ls (unat (cdone (fst s')))"
    using assms
  proof (induction rule: cp_run.induct)
    case (start s)
    show ?case by (rule sem_run.start)
  next
    case (step s ls s' l s'')
    have run: "sem_run (unat (cdone (fst s))) ls (unat (cdone (fst s')))" using step by (simp add: posts_snoc)
    have "unat (cdone (fst s')) + posts [l] < 2 ^ 32" using sem_run_bound [OF run] step.prems by (simp add: posts_snoc)
    then show ?case using counts_sem_run [OF run] cp_step_counts [OF step.hyps(2)] by blast
  qed
  then show ?thesis using sem_run_bound by fastforce
qed

theorem completion_refines_semaphore_witness:
  "sem_run 0 [Post 1, Take] (unat (cdone (snd (try_wait_for_completion (fst (complete \<lparr>cdone = 0, cwait = []\<rparr> sched_demo))))))"
proof -
  let ?x = "\<lparr>cdone = 0, cwait = []\<rparr> :: tid list completion"
  let ?y = "fst (complete ?x sched_demo)"
  have y: "complete ?x sched_demo = (?y, sched_demo)" "cdone ?y = 1" by (simp_all add: complete_def Let_def)
  have "cp_run fifo_env (?x, sched_demo) ([] @ [Post 1]) (?y, sched_demo)"
    using cp_step.post [of fifo_env ?x sched_demo] y(1) by (intro cp_run.intros) (auto intro: cp_run.start)
  moreover have "cp_step fifo_env (?y, sched_demo) (if True then Take else Quiet) (snd (try_wait_for_completion ?y), sched_demo)"
    using y(2) by (intro cp_step.try_wait) (simp add: try_wait_for_completion_def)
  ultimately have "cp_run fifo_env (?x, sched_demo) [Post 1, Take] (snd (try_wait_for_completion ?y), sched_demo)"
    using cp_run.step by fastforce
  from completion_refines_semaphore [OF this] show ?thesis by simp
qed

text \<open>
  C13. No wake-up of a completion is lost. Along every run, at least as many of its waiters are
  awake as there are completions to take, or all waiters are; so a completion that was posted
  never stays while every waiter sleeps. And \<^verbatim>\<open>complete()\<close> wakes in the order of the queue: the
  waiter it wakes is the first one that sleeps.
\<close>

theorem completion_no_lost_wakeup:
  assumes "env_ok e" and "cp_inv e s" and "cp_run e s ls (x, k)"
  shows "min (unat (cdone x)) (length (waiters x)) \<le> length (filter (awake k) (waiters x)) \<and>
    (cdone x \<noteq> 0 \<and> waiters x \<noteq> [] \<longrightarrow> (\<exists>p \<in> set (waiters x). awake k p)) \<and>
    (case find (\<lambda>p. \<not> awake k p) (waiters x) of
       None \<Rightarrow> snd (complete x k) = k
     | Some p \<Rightarrow> snd (complete x k) = snd (try_to_wake_up e p TASK_NORMAL 0 k) \<and> awake (snd (complete x k)) p)"
proof -
  have inv: "cp_inv e (x, k)" by (rule cp_run_inv [OF assms(3,1,2)])
  then have c: "min (unat (cdone x)) (length (waiters x)) \<le> length (filter (awake k) (waiters x))" and pl: "plain_entries e (cwait x)"
    by (simp_all add: cp_inv_def)
  have "\<exists>p \<in> set (waiters x). awake k p" if "cdone x \<noteq> 0" "waiters x \<noteq> []"
  proof -
    have "0 < min (unat (cdone x)) (length (waiters x))" using that by (simp add: unat_gt_0)
    then have "filter (awake k) (waiters x) \<noteq> []" using c by (metis le_zero_eq list.size(3) not_less0)
    then show ?thesis by (auto simp: filter_empty_conv)
  qed
  moreover have "case find (\<lambda>p. \<not> awake k p) (waiters x) of
       None \<Rightarrow> snd (complete x k) = k
     | Some p \<Rightarrow> snd (complete x k) = snd (try_to_wake_up e p TASK_NORMAL 0 k) \<and> awake (snd (complete x k)) p"
    using wake_up_one [OF pl, of 0 k] find_SomeD [of "\<lambda>p. \<not> awake k p" "waiters x"] try_to_wake_up_asleep(2) [of k]
    by (auto simp: complete_def waiters_def split: option.split)
  ultimately show ?thesis using c by blast
qed

text \<open>The sleeping WRR task of the example kernel waits for a completion.\<close>

theorem completion_no_lost_wakeup_witness:
  "let x = \<lparr>cdone = 0, cwait = add_wait_queue_tail_exclusive fifo_env 2 []\<rparr> in awake (snd (complete x sched_demo)) 2"
proof -
  let ?x = "\<lparr>cdone = 0, cwait = add_wait_queue_tail_exclusive fifo_env 2 []\<rparr>"
  have w: "waiters ?x = [2]" by (simp add: waiters_def add_wait_queue_tail_exclusive_def list_ops)
  have "\<not> awake sched_demo 2" by (simp add: awake_def sched_demo_def task_state_defs)
  moreover have "cp_inv fifo_env (?x, sched_demo)"
    using sched_demo_inv w by (simp add: cp_inv_def)
      (simp add: plain_entries_def add_wait_queue_tail_exclusive_def list_ops WQ_FLAG_EXCLUSIVE_def PID_MAX_LIMIT_def)
  ultimately show ?thesis
    using completion_no_lost_wakeup [OF fifo_env_ok _ cp_run.start] w by fastforce
qed

end
