(* ===== verification/Cputime.thy ===== *)
theory Cputime
  imports Core
begin

text \<open>
  Accounting of cpu time, \<^verbatim>\<open>kernel/sched/core.c\<close>: the times of a task and the statistics of the
  processor and of the cpu accounting groups, charged tick by tick; the precise run time; and
  the files of the cpu accounting controller. The build has neither
  \<^verbatim>\<open>CONFIG_VIRT_CPU_ACCOUNTING\<close> nor interrupt time accounting nor paravirtualisation.
\<close>

section \<open>State\<close>

datatype cpustat_index = CPUTIME_USER | CPUTIME_NICE | CPUTIME_SYSTEM | CPUTIME_SOFTIRQ | CPUTIME_IRQ | CPUTIME_IDLE
  | CPUTIME_IOWAIT | CPUTIME_STEAL | CPUTIME_GUEST | CPUTIME_GUEST_NICE

text \<open>\<^verbatim>\<open>cputime_t\<close> is an \<^verbatim>\<open>unsigned long\<close>.\<close>

record task_cputimes =
  utime :: ulong
  stime :: ulong
  utimescaled :: ulong
  stimescaled :: ulong
  gtime :: ulong
  prev_utime :: ulong
  prev_stime :: ulong

text \<open>Calls of code outside the repository: the times of the thread group, process accounting.\<close>

datatype acct_call = Account_Group_User_Time tid ulong | Account_Group_System_Time tid ulong | Acct_Update_Integrals tid

text \<open>
  The statistics of the root accounting group are those of the processor: \<^verbatim>\<open>sched_init()\<close> makes
  \<^verbatim>\<open>root_cpuacct.cpustat\<close> point to \<^verbatim>\<open>kernel_cpustat\<close>. A group is named by its path, the root
  is \<open>[]\<close>.
\<close>

record acct =
  times :: "tid \<Rightarrow> task_cputimes"
  cpustat :: "nat list \<Rightarrow> cpustat_index \<Rightarrow> u64"
  acct_calls :: "acct_call list"

text \<open>
  What the code reads of \<^verbatim>\<open><asm/cputime.h>\<close> and \<^verbatim>\<open><linux/hardirq.h>\<close>: the length of a tick,
  the scaling of times, and the interrupt context of the caller.
\<close>

record cputime_env =
  cputime_one_jiffy :: ulong
  cputime_to_scaled :: "ulong \<Rightarrow> ulong"
  jiffies_to_cputime :: "ulong \<Rightarrow> ulong"
  nsecs_to_cputime :: "u64 \<Rightarrow> ulong"
  cputime64_to_clock_t :: "u64 \<Rightarrow> u64"
  HARDIRQ_OFFSET :: u32
  irq_count :: u32
  hardirq_count :: u32
  in_serving_softirq :: bool

definition PF_VCPU :: u32 where "PF_VCPU = 0x10"

abbreviation upd_times :: "tid \<Rightarrow> (task_cputimes \<Rightarrow> task_cputimes) \<Rightarrow> acct \<Rightarrow> acct" where
  "upd_times p f \<equiv> times_update (\<lambda>ts. ts(p := f (ts p)))"

definition add_stat :: "nat list \<Rightarrow> cpustat_index \<Rightarrow> u64 \<Rightarrow> acct \<Rightarrow> acct" where
  "add_stat ca i tmp = cpustat_update (\<lambda>s. s(ca := (s ca)(i := s ca i + tmp)))"

definition acct_call :: "acct_call \<Rightarrow> acct \<Rightarrow> acct" where
  "acct_call c = acct_calls_update (\<lambda>cs. cs @ [c])"

section \<open>Precise run time\<close>

definition do_task_delta_exec :: "tid \<Rightarrow> 'f kernel \<Rightarrow> u64 \<times> 'f kernel" where
  "do_task_delta_exec p k =
     (if task_current k p then
        let k1 = update_rq_clock k;
            ns = clock_task (rq k1) - exec_start (p_se (tasks k1 p))
        in (if sint ns < 0 then 0 else ns, k1)
      else (0, k))"

definition task_delta_exec :: "tid \<Rightarrow> 'f kernel \<Rightarrow> u64 \<times> 'f kernel" where
  "task_delta_exec p k = do_task_delta_exec p k"

definition task_sched_runtime :: "tid \<Rightarrow> 'f kernel \<Rightarrow> u64 \<times> 'f kernel" where
  "task_sched_runtime p k =
     (let (ns, k1) = do_task_delta_exec p k in (sum_exec_runtime (p_se (tasks k1 p)) + ns, k1))"

section \<open>Accounting\<close>

text \<open>\<^verbatim>\<open>task_group_account_field()\<close>: the root first, then the groups of the task below it.\<close>

function account_ca :: "nat list option \<Rightarrow> cpustat_index \<Rightarrow> u64 \<Rightarrow> acct \<Rightarrow> acct" where
  "account_ca None i tmp a = a"
| "account_ca (Some ca) i tmp a =
     (if ca \<noteq> [] then account_ca (parent_ca ca) i tmp (add_stat ca i tmp a) else a)"
  by pat_completeness auto
termination
  by (relation "measure (\<lambda>(c, i, t, a). case c of None \<Rightarrow> 0 | Some p \<Rightarrow> Suc (length p))")
     (auto simp: parent_ca_def split: option.splits elim: path_parent.elims)

definition task_group_account_field :: "tid \<Rightarrow> cpustat_index \<Rightarrow> u64 \<Rightarrow> 'f kernel \<Rightarrow> acct \<Rightarrow> acct" where
  "task_group_account_field p index tmp k a =
     (let a1 = add_stat [] index tmp a
      in if \<not> cpuacct_active k then a1 else account_ca (Some (task_ca k p)) index tmp a1)"

definition account_user_time :: "tid \<Rightarrow> ulong \<Rightarrow> ulong \<Rightarrow> 'f kernel \<Rightarrow> acct \<Rightarrow> acct" where
  "account_user_time p cputime cputime_scaled k a =
     (let a1 = upd_times p (\<lambda>t. t\<lparr>utime := utime t + cputime, utimescaled := utimescaled t + cputime_scaled\<rparr>) a;
          a2 = acct_call (Account_Group_User_Time p cputime) a1;
          index = (if TASK_NICE (tasks k p) > 0 then CPUTIME_NICE else CPUTIME_USER);
          a3 = task_group_account_field p index (ucast cputime) k a2
      in acct_call (Acct_Update_Integrals p) a3)"

definition account_guest_time :: "tid \<Rightarrow> ulong \<Rightarrow> ulong \<Rightarrow> 'f kernel \<Rightarrow> acct \<Rightarrow> acct" where
  "account_guest_time p cputime cputime_scaled k a =
     (let a1 = upd_times p (\<lambda>t. t\<lparr>utime := utime t + cputime, utimescaled := utimescaled t + cputime_scaled\<rparr>) a;
          a2 = acct_call (Account_Group_User_Time p cputime) a1;
          a3 = upd_times p (gtime_update (\<lambda>g. g + cputime)) a2
      in if TASK_NICE (tasks k p) > 0
         then add_stat [] CPUTIME_GUEST_NICE (ucast cputime) (add_stat [] CPUTIME_NICE (ucast cputime) a3)
         else add_stat [] CPUTIME_GUEST (ucast cputime) (add_stat [] CPUTIME_USER (ucast cputime) a3))"

definition account_system_time_index :: "tid \<Rightarrow> ulong \<Rightarrow> ulong \<Rightarrow> cpustat_index \<Rightarrow> 'f kernel \<Rightarrow> acct \<Rightarrow> acct" where
  "account_system_time_index p cputime cputime_scaled index k a =
     (let a1 = upd_times p (\<lambda>t. t\<lparr>stime := stime t + cputime, stimescaled := stimescaled t + cputime_scaled\<rparr>) a;
          a2 = acct_call (Account_Group_System_Time p cputime) a1;
          a3 = task_group_account_field p index (ucast cputime) k a2
      in acct_call (Acct_Update_Integrals p) a3)"

definition account_system_time :: "cputime_env \<Rightarrow> tid \<Rightarrow> u32 \<Rightarrow> ulong \<Rightarrow> ulong \<Rightarrow> 'f kernel \<Rightarrow> acct \<Rightarrow> acct" where
  "account_system_time c p hardirq_offset cputime cputime_scaled k a =
     (if tsk_flags (tasks k p) AND PF_VCPU \<noteq> 0 \<and> irq_count c - hardirq_offset = 0
      then account_guest_time p cputime cputime_scaled k a
      else
        let index = (if hardirq_count c - hardirq_offset \<noteq> 0 then CPUTIME_IRQ
                     else if in_serving_softirq c then CPUTIME_SOFTIRQ else CPUTIME_SYSTEM)
        in account_system_time_index p cputime cputime_scaled index k a)"

definition account_steal_time :: "ulong \<Rightarrow> acct \<Rightarrow> acct" where
  "account_steal_time cputime a = add_stat [] CPUTIME_STEAL (ucast cputime) a"

definition account_idle_time :: "ulong \<Rightarrow> 'f kernel \<Rightarrow> acct \<Rightarrow> acct" where
  "account_idle_time cputime k a =
     (if nr_iowait (rq k) > 0 then add_stat [] CPUTIME_IOWAIT (ucast cputime) a
      else add_stat [] CPUTIME_IDLE (ucast cputime) a)"

definition steal_account_process_tick :: bool where
  "steal_account_process_tick = False"

definition account_process_tick :: "cputime_env \<Rightarrow> tid \<Rightarrow> bool \<Rightarrow> 'f kernel \<Rightarrow> acct \<Rightarrow> acct" where
  "account_process_tick c p user_tick k a =
     (let one_jiffy_scaled = cputime_to_scaled c (cputime_one_jiffy c)
      in if steal_account_process_tick then a
         else if user_tick then account_user_time p (cputime_one_jiffy c) one_jiffy_scaled k a
         else if p \<noteq> idle (rq k) \<or> irq_count c \<noteq> HARDIRQ_OFFSET c
         then account_system_time c p (HARDIRQ_OFFSET c) (cputime_one_jiffy c) one_jiffy_scaled k a
         else account_idle_time (cputime_one_jiffy c) k a)"

definition account_steal_ticks :: "cputime_env \<Rightarrow> ulong \<Rightarrow> acct \<Rightarrow> acct" where
  "account_steal_ticks c ticks a = account_steal_time (jiffies_to_cputime c ticks) a"

definition account_idle_ticks :: "cputime_env \<Rightarrow> ulong \<Rightarrow> 'f kernel \<Rightarrow> acct \<Rightarrow> acct" where
  "account_idle_ticks c ticks k a = account_idle_time (jiffies_to_cputime c ticks) k a"

section \<open>Reported times\<close>

text \<open>\<^verbatim>\<open>sizeof(cputime_t)\<close> is 4: the product of 64 bits is divided by 32 bits, and narrowed.\<close>

definition scale_utime :: "ulong \<Rightarrow> ulong \<Rightarrow> ulong \<Rightarrow> ulong" where
  "scale_utime ut rtime tot = ucast (((ucast rtime :: u64) * ucast ut) div ucast tot)"

definition task_times :: "cputime_env \<Rightarrow> tid \<Rightarrow> 'f kernel \<Rightarrow> acct \<Rightarrow> (ulong \<times> ulong) \<times> acct" where
  "task_times c p k a =
     (let ut = utime (times a p);
          total = ut + stime (times a p);
          rtime = nsecs_to_cputime c (sum_exec_runtime (p_se (tasks k p)));
          ut = (if total \<noteq> 0 then scale_utime ut rtime total else rtime);
          pu = max (prev_utime (times a p)) ut;
          ps = max (prev_stime (times a p)) (rtime - pu)
      in ((pu, ps), upd_times p (\<lambda>t. t\<lparr>prev_utime := pu, prev_stime := ps\<rparr>) a))"

text \<open>
  \<^verbatim>\<open>thread_group_times()\<close>: \<^verbatim>\<open>thread_group_cputime()\<close>, of \<^verbatim>\<open>kernel/posix-cpu-timers.c\<close>, has summed
  the times of the threads to \<open>tut\<close>, \<open>tst\<close> and \<open>runtime\<close>; the previous values are those of the
  signal structure.
\<close>

definition thread_group_times ::
  "cputime_env \<Rightarrow> ulong \<Rightarrow> ulong \<Rightarrow> u64 \<Rightarrow> ulong \<times> ulong \<Rightarrow> ulong \<times> ulong" where
  "thread_group_times c tut tst runtime prev =
     (let total = tut + tst;
          rtime = nsecs_to_cputime c runtime;
          ut = (if total \<noteq> 0 then scale_utime tut rtime total else rtime);
          pu = max (fst prev) ut
      in (pu, max (snd prev) (rtime - pu)))"

section \<open>The cpu accounting controller\<close>

text \<open>
  \<^verbatim>\<open>cpuacct_create()\<close> for the group \<open>cgrp\<close>; \<open>oom\<close> is the number of the first allocation that
  fails, if any. The counters of a new group are zero.
\<close>

definition cpuacct_create ::
  "nat option \<Rightarrow> nat list \<Rightarrow> 'f kernel \<Rightarrow> acct \<Rightarrow> (errno + nat list) \<times> 'f kernel \<times> acct" where
  "cpuacct_create oom cgrp k a =
     (if cgrp = [] then (Inr [], k, a)
      else if oom \<noteq> None then (Inl ENOMEM, k, a)
      else (Inr cgrp, k\<lparr>cpuusage := (cpuusage k)(cgrp := 0)\<rparr>, a\<lparr>cpustat := (cpustat a)(cgrp := \<lambda>_. 0)\<rparr>))"

definition cpuacct_cpuusage_read :: "nat list \<Rightarrow> 'f kernel \<Rightarrow> u64" where
  "cpuacct_cpuusage_read ca k = cpuusage k ca"

definition cpuacct_cpuusage_write :: "nat list \<Rightarrow> u64 \<Rightarrow> 'f kernel \<Rightarrow> 'f kernel" where
  "cpuacct_cpuusage_write ca val k = k\<lparr>cpuusage := (cpuusage k)(ca := val)\<rparr>"

definition cpuusage_read :: "nat list \<Rightarrow> 'f kernel \<Rightarrow> u64" where
  "cpuusage_read cgrp k = 0 + cpuacct_cpuusage_read cgrp k"

definition cpuusage_write :: "nat list \<Rightarrow> u64 \<Rightarrow> 'f kernel \<Rightarrow> errno option \<times> 'f kernel" where
  "cpuusage_write cgrp reset k = (if reset \<noteq> 0 then (Some EINVAL, k) else (None, cpuacct_cpuusage_write cgrp 0 k))"

text \<open>The two values \<^verbatim>\<open>cpuacct_stats_show()\<close> shows, user and system.\<close>

definition cpuacct_stats_show :: "cputime_env \<Rightarrow> nat list \<Rightarrow> acct \<Rightarrow> u64 \<times> u64" where
  "cpuacct_stats_show c cgrp a =
     (let s = cpustat a cgrp
      in (cputime64_to_clock_t c (s CPUTIME_USER + s CPUTIME_NICE),
          cputime64_to_clock_t c (s CPUTIME_SYSTEM + s CPUTIME_IRQ + s CPUTIME_SOFTIRQ)))"

end
