(* ===== verification/Cputime_Claims.thy ===== *)
theory Cputime_Claims
  imports Cputime Core_Claims
begin

text \<open>
  The accounting of cpu time is exact: a tick goes to one statistic of the processor, and to the
  same one of every accounting group above the task; what is reported for a task never goes
  back.
\<close>

section \<open>The statistics\<close>

lemma cpustat_add_stat: "cpustat (add_stat ca i tmp a) g j = cpustat a g j + (if g = ca \<and> j = i then tmp else 0)"
  by (simp add: add_stat_def)

lemma add_stat_frame [simp]: "times (add_stat ca i tmp a) = times a" "acct_calls (add_stat ca i tmp a) = acct_calls a"
  by (simp_all add: add_stat_def)

lemma acct_call_frame [simp]: "times (acct_call c a) = times a" "cpustat (acct_call c a) = cpustat a"
  by (simp_all add: acct_call_def)

lemma account_ca_chain:
  "cpustat (account_ca (Some ca) i tmp a) g j =
     cpustat a g j + (if g \<in> set (path_chain ca) \<and> g \<noteq> [] \<and> j = i then tmp else 0)"
proof (induction ca arbitrary: a)
  case (Cons x ca)
  have new: "x # ca \<notin> set (path_chain ca)" using distinct_path_chain [of "x # ca"] by simp
  have "account_ca (Some (x # ca)) i tmp a = account_ca (Some ca) i tmp (add_stat (x # ca) i tmp a)"
    by (subst account_ca.simps(2)) (simp add: parent_ca_def)
  then show ?case using Cons.IH new by (auto simp: cpustat_add_stat)
qed auto

lemma account_ca_times [simp]: "times (account_ca ca i tmp a) = times a"
  by (induction ca i tmp a rule: account_ca.induct) simp_all

text \<open>
  The shortcut for the root is right: every group above the task, itself included, is charged
  once.
\<close>

lemma task_group_account_field_exact:
  "cpustat (task_group_account_field p i tmp k a) g j =
     cpustat a g j + (if (g = [] \<or> cpuacct_active k \<and> g \<in> set (path_chain (task_ca k p))) \<and> j = i then tmp else 0)"
  by (auto simp: task_group_account_field_def Let_def account_ca_chain cpustat_add_stat simp del: account_ca.simps)

lemma task_group_account_field_times [simp]: "times (task_group_account_field p i tmp k a) = times a"
  by (simp add: task_group_account_field_def Let_def)

text \<open>The statistics that partition the time; guest time is part of user and nice time.\<close>

definition cpu_total :: "nat list \<Rightarrow> acct \<Rightarrow> u64" where
  "cpu_total g a = (let s = cpustat a g in s CPUTIME_USER + s CPUTIME_NICE + s CPUTIME_SYSTEM + s CPUTIME_SOFTIRQ +
     s CPUTIME_IRQ + s CPUTIME_IDLE + s CPUTIME_IOWAIT + s CPUTIME_STEAL)"

section \<open>Reported times\<close>

lemma scale_utime_le:
  assumes "unat ut \<le> unat tot" and "tot \<noteq> 0"
  shows "scale_utime ut rtime tot \<le> rtime"
proof -
  have b: "unat rtime < 2 ^ 32" "unat ut < 2 ^ 32" using unsigned_less [of rtime, where 'a = nat] unsigned_less [of ut, where 'a = nat] by simp_all
  have prod: "unat rtime * unat ut < 2 ^ 64" using mult_strict_mono [OF b] by simp
  have "unat ((ucast rtime :: u64) * ucast ut) = unat rtime * unat ut"
    using prod by (simp add: unat_word_ariths unat_ucast_u64)
  then have q: "unat (((ucast rtime :: u64) * ucast ut) div ucast tot) = unat rtime * unat ut div unat tot"
    by (simp add: unat_div unat_ucast_u64)
  have "unat rtime * unat ut div unat tot \<le> unat rtime * unat tot div unat tot"
    using assms(1) by (intro div_le_mono mult_le_mono2)
  also have "\<dots> = unat rtime" using assms(2) by (simp add: unat_eq_0)
  finally have "unat (scale_utime ut rtime tot) \<le> unat rtime"
    unfolding scale_utime_def unsigned_ucast_eq q by (auto intro: order_trans [OF take_bit_nat_less_eq_self])
  then show ?thesis by (simp add: word_le_nat_alt)
qed

section \<open>An accounting state\<close>

definition acct_demo :: acct where
  "acct_demo =
     \<lparr>times = (\<lambda>_. \<lparr>utime = 3, stime = 1, utimescaled = 3, stimescaled = 1, gtime = 0, prev_utime = 0, prev_stime = 0\<rparr>),
      cpustat = (\<lambda>_ _. 0), acct_calls = []\<rparr>"

definition cputime_demo :: cputime_env where
  "cputime_demo =
     \<lparr>cputime_one_jiffy = 1, cputime_to_scaled = (\<lambda>t. t), jiffies_to_cputime = (\<lambda>j. j),
      nsecs_to_cputime = (\<lambda>n. ucast (n div 10000000)), cputime64_to_clock_t = (\<lambda>t. t),
      HARDIRQ_OFFSET = 0x10000, irq_count = 0x10000, hardirq_count = 0x10000, in_serving_softirq = False\<rparr>"

section \<open>Properties\<close>

text \<open>
  C28. Every tick is accounted exactly once. It adds the length of a tick to one of the statistics
  that partition the time of the processor, and, unless the processor was idle, to the user or
  the system time of the task and of no other. The cpu accounting groups above the task, the
  task's own included, are charged the same time once each; idle and guest time is charged to
  the processor only.
\<close>

theorem account_process_tick_exact:
  "let a' = account_process_tick c p user k a; tick = cputime_one_jiffy c;
       idl = (\<not> user \<and> p = idle (rq k) \<and> irq_count c = HARDIRQ_OFFSET c);
       guest = (\<not> user \<and> tsk_flags (tasks k p) AND PF_VCPU \<noteq> 0 \<and> irq_count c - HARDIRQ_OFFSET c = 0) in
    cpu_total g a' = cpu_total g a +
      (if g = [] \<or> \<not> idl \<and> \<not> guest \<and> cpuacct_active k \<and> g \<in> set (path_chain (task_ca k p)) then ucast tick else 0) \<and>
    utime (times a' p) + stime (times a' p) = utime (times a p) + stime (times a p) + (if idl then 0 else tick) \<and>
    (\<forall>q. q \<noteq> p \<longrightarrow> times a' q = times a q)"
proof -
  have user: "cpu_total h (account_user_time p n m k b) =
      cpu_total h b + (if h = [] \<or> cpuacct_active k \<and> h \<in> set (path_chain (task_ca k p)) then ucast n else 0)" for h n m b
    by (simp add: cpu_total_def account_user_time_def Let_def task_group_account_field_exact)
  have system: "cpu_total h (account_system_time_index p n m i k b) =
      cpu_total h b + (if h = [] \<or> cpuacct_active k \<and> h \<in> set (path_chain (task_ca k p)) then ucast n else 0)"
    if "i = CPUTIME_IRQ \<or> i = CPUTIME_SOFTIRQ \<or> i = CPUTIME_SYSTEM" for h n m i b
    using that by (auto simp: cpu_total_def account_system_time_index_def Let_def task_group_account_field_exact)
  have guest: "cpu_total h (account_guest_time p n m k b) = cpu_total h b + (if h = [] then ucast n else 0)" for h n m b
    by (simp add: cpu_total_def account_guest_time_def Let_def cpustat_add_stat)
  have idle: "cpu_total h (account_idle_time n k b) = cpu_total h b + (if h = [] then ucast n else 0)" for h n b
    by (simp add: cpu_total_def account_idle_time_def Let_def cpustat_add_stat)
  have t: "times (account_user_time p n m k b) = (times b)(p := (times b p)\<lparr>utime := utime (times b p) + n, utimescaled := utimescaled (times b p) + m\<rparr>)"
    "times (account_system_time_index p n m i k b) = (times b)(p := (times b p)\<lparr>stime := stime (times b p) + n, stimescaled := stimescaled (times b p) + m\<rparr>)"
    "times (account_idle_time n k b) = times b" for n m i b
    by (simp_all add: account_user_time_def account_system_time_index_def account_idle_time_def Let_def)
  have tg: "utime (times (account_guest_time p n m k b) p) = utime (times b p) + n" "stime (times (account_guest_time p n m k b) p) = stime (times b p)"
    "q \<noteq> p \<Longrightarrow> times (account_guest_time p n m k b) q = times b q" for n m b q
    by (simp_all add: account_guest_time_def Let_def)
  show ?thesis
    unfolding account_process_tick_def Let_def steal_account_process_tick_def account_system_time_def
    by (simp add: user system guest idle t tg)
qed

theorem account_process_tick_exact_witness:
  "cpu_total [] (account_process_tick cputime_demo 3 True sched_demo acct_demo) = 1"
  using account_process_tick_exact [of cputime_demo 3 True sched_demo acct_demo "[]"]
  by (simp add: Let_def) (simp add: cpu_total_def acct_demo_def cputime_demo_def)

text \<open>
  C30. The times reported for a task never go back. Its user time never exceeds its run time, user
  and system time together cover the run time, and each report is at least the one before, as
  long as the tick counters have not wrapped.
\<close>

theorem task_times_monotone:
  assumes "unat (utime (times a p)) + unat (stime (times a p)) < 2 ^ 32"
    and "prev_utime (times a p) \<le> nsecs_to_cputime c (sum_exec_runtime (p_se (tasks k p)))"
  shows "case task_times c p k a of ((ut, st), a') \<Rightarrow>
    let rtime = nsecs_to_cputime c (sum_exec_runtime (p_se (tasks k p))) in
    prev_utime (times a p) \<le> ut \<and> prev_stime (times a p) \<le> st \<and> ut \<le> rtime \<and> unat rtime \<le> unat ut + unat st \<and>
    prev_utime (times a' p) = ut \<and> prev_stime (times a' p) = st"
proof -
  define tot where "tot = utime (times a p) + stime (times a p)"
  define rtime where "rtime = nsecs_to_cputime c (sum_exec_runtime (p_se (tasks k p)))"
  define ut where "ut = (if tot \<noteq> 0 then scale_utime (utime (times a p)) rtime tot else rtime)"
  define pu where "pu = max (prev_utime (times a p)) ut"
  define ps where "ps = max (prev_stime (times a p)) (rtime - pu)"
  have eq: "task_times c p k a = ((pu, ps), upd_times p (\<lambda>t. t\<lparr>prev_utime := pu, prev_stime := ps\<rparr>) a)"
    unfolding task_times_def Let_def ps_def pu_def ut_def rtime_def tot_def ..
  have "unat tot = unat (utime (times a p)) + unat (stime (times a p))"
    using assms(1) by (simp add: tot_def unat_word_ariths)
  then have "ut \<le> rtime" using scale_utime_le [of "utime (times a p)" tot rtime] by (simp add: ut_def)
  then have le: "pu \<le> rtime" using assms(2) by (simp add: pu_def rtime_def)
  then have "unat (rtime - pu) = unat rtime - unat pu" by (simp add: unat_sub)
  moreover have "unat (rtime - pu) \<le> unat ps" by (simp add: ps_def flip: word_le_nat_alt)
  ultimately have "unat rtime \<le> unat pu + unat ps" using le by (simp add: word_le_nat_alt)
  moreover have "prev_utime (times a p) \<le> pu" "prev_stime (times a p) \<le> ps" by (simp_all add: pu_def ps_def)
  ultimately show ?thesis using le unfolding eq rtime_def [symmetric] Let_def by simp
qed

theorem task_times_monotone_witness:
  "case task_times cputime_demo 3 sched_demo acct_demo of ((ut, st), a') \<Rightarrow> ut \<le> 0"
  using task_times_monotone [of acct_demo 3 cputime_demo sched_demo]
  by (simp add: acct_demo_def split_def Let_def) (simp add: cputime_demo_def sched_demo_def INIT_TASK_def zero_se_def)

text \<open>
  C29. The cpu accounting controller is hierarchical and exact. After a group's usage has been
  reset, it is the sum of the execution times charged to tasks of the group and of the groups
  below it; the usage of every other group goes on from where it was. Anything but 0 cannot be
  written.
\<close>

theorem cpuacct_usage_exact:
  "case cpuusage_write g reset k of
     (Some err, k') \<Rightarrow> err = EINVAL \<and> reset \<noteq> 0 \<and> k' = k
   | (None, k') \<Rightarrow> reset = 0 \<and>
       cpuusage_read h (fold (\<lambda>(p, d). cpuacct_charge p d) cs k') =
         (if h = g then 0 else cpuusage_read h k) +
         (if cpuacct_active k then sum_list (map snd (filter (\<lambda>(p, d). h \<in> set (path_chain (task_ca k p))) cs)) else 0)"
proof -
  have "cpuusage (fold (\<lambda>(p, d). cpuacct_charge p d) cs b) h = cpuusage b h +
      (if cpuacct_active b then sum_list (map snd (filter (\<lambda>(p, d). h \<in> set (path_chain (task_ca b p))) cs)) else 0)" for b :: "'a kernel"
  proof (induction cs arbitrary: b)
    case (Cons pd cs)
    obtain p d where pd: "pd = (p, d)" by fastforce
    have "cpuusage (cpuacct_charge p d b) h = cpuusage b h + (if cpuacct_active b \<and> h \<in> set (path_chain (task_ca b p)) then d else 0)"
      by (simp add: cpuacct_charge_def charge_ca_chain del: charge_ca.simps)
    then show ?case using Cons.IH [of "cpuacct_charge p d b"] by (simp add: pd)
  qed simp
  then show ?thesis by (simp add: cpuusage_write_def cpuusage_read_def cpuacct_cpuusage_read_def cpuacct_cpuusage_write_def)
qed

end
