(* ===== verification/Preempt.thy ===== *)
theory Preempt
  imports Core
begin

text \<open>
  Kernel preemption, conditional rescheduling and waiting for input and output,
  \<^verbatim>\<open>kernel/sched/core.c\<close>. Where a function calls \<^verbatim>\<open>__schedule()\<close> other threads run until the
  caller is picked again: \<open>resched\<close> is the call as its caller sees it, \<open>None\<close> when it never
  returns.
\<close>

section \<open>The preemption count\<close>

text \<open>
  With \<open>dbg\<close>, the build option \<^verbatim>\<open>CONFIG_DEBUG_PREEMPT\<close>, the functions refuse to underflow;
  \<^verbatim>\<open>PREEMPT_MASK\<close> is of \<^verbatim>\<open><linux/hardirq.h>\<close>. The count is an \<^verbatim>\<open>int\<close>.
\<close>

definition PREEMPT_MASK :: u32 where "PREEMPT_MASK = 0xff"

definition add_preempt_count :: "bool \<Rightarrow> u32 \<Rightarrow> 'f kernel \<Rightarrow> 'f kernel" where
  "add_preempt_count dbg val k =
     (if dbg \<and> sint (preempt_count (curr_task k)) < 0 then k
      else upd_task (curr (rq k)) (preempt_count_update (\<lambda>n. n + val)) k)"

definition sub_preempt_count :: "bool \<Rightarrow> u32 \<Rightarrow> 'f kernel \<Rightarrow> 'f kernel" where
  "sub_preempt_count dbg val k =
     (if dbg \<and> sint val > sint (preempt_count (curr_task k)) then k
      else if dbg \<and> sint val < sint PREEMPT_MASK \<and> preempt_count (curr_task k) AND PREEMPT_MASK = 0 then k
      else upd_task (curr (rq k)) (preempt_count_update (\<lambda>n. n - val)) k)"

section \<open>Preemption\<close>

partial_function (option) preempt_schedule_loop ::
  "bool \<Rightarrow> ('f kernel \<Rightarrow> 'f kernel option) \<Rightarrow> 'f kernel \<Rightarrow> 'f kernel option" where
  "preempt_schedule_loop dbg resched k =
     (case resched (add_preempt_count dbg PREEMPT_ACTIVE k) of
        None \<Rightarrow> None
      | Some k1 \<Rightarrow>
          let k2 = sub_preempt_count dbg PREEMPT_ACTIVE k1
          in if need_resched (curr_task k2) then preempt_schedule_loop dbg resched k2 else Some k2)"

declare preempt_schedule_loop.simps [code]

text \<open>The variants without tracing do not check.\<close>

definition preempt_schedule :: "('f kernel \<Rightarrow> 'f kernel option) \<Rightarrow> bool \<Rightarrow> 'f kernel \<Rightarrow> 'f kernel option" where
  "preempt_schedule resched irqs_disabled k =
     (if preempt_count (curr_task k) \<noteq> 0 \<or> irqs_disabled then Some k else preempt_schedule_loop False resched k)"

definition preempt_schedule_irq :: "bool \<Rightarrow> ('f kernel \<Rightarrow> 'f kernel option) \<Rightarrow> bool \<Rightarrow> 'f kernel \<Rightarrow> 'f kernel option" where
  "preempt_schedule_irq dbg resched irqs_disabled k =
     (if preempt_count (curr_task k) \<noteq> 0 \<or> \<not> irqs_disabled then Some (BUG k)
      else preempt_schedule_loop dbg resched k)"

definition schedule_preempt_disabled :: "('f kernel \<Rightarrow> 'f kernel option) \<Rightarrow> 'f kernel \<Rightarrow> 'f kernel option" where
  "schedule_preempt_disabled resched k =
     map_option preempt_disable (resched (preempt_enable_no_resched k))"

section \<open>Conditional rescheduling\<close>

definition should_resched :: "'f kernel \<Rightarrow> bool" where
  "should_resched k = (need_resched (curr_task k) \<and> preempt_count (curr_task k) AND PREEMPT_ACTIVE = 0)"

definition do_cond_resched :: "bool \<Rightarrow> ('f kernel \<Rightarrow> 'f kernel option) \<Rightarrow> 'f kernel \<Rightarrow> 'f kernel option" where
  "do_cond_resched dbg resched k =
     map_option (sub_preempt_count dbg PREEMPT_ACTIVE) (resched (add_preempt_count dbg PREEMPT_ACTIVE k))"

definition cond_resched :: "bool \<Rightarrow> ('f kernel \<Rightarrow> 'f kernel option) \<Rightarrow> 'f kernel \<Rightarrow> (bool \<times> 'f kernel) option" where
  "cond_resched dbg resched k =
     (if should_resched k then map_option (Pair True) (do_cond_resched dbg resched k) else Some (False, k))"

text \<open>
  \<open>needbreak\<close> is \<^verbatim>\<open>spin_needbreak(lock)\<close>. Taking and releasing the lock counts in the preemption
  count: released, it is one less.
\<close>

definition cond_resched_lock ::
  "bool \<Rightarrow> ('f kernel \<Rightarrow> 'f kernel option) \<Rightarrow> bool \<Rightarrow> 'f kernel \<Rightarrow> (bool \<times> 'f kernel) option" where
  "cond_resched_lock dbg resched needbreak k =
     (let pending = should_resched k
      in if needbreak \<or> pending then
           let k1 = preempt_enable_no_resched k
           in (case (if pending then do_cond_resched dbg resched k1 else Some k1) of
                 None \<Rightarrow> None | Some k2 \<Rightarrow> Some (True, preempt_disable k2))
         else Some (False, k))"

text \<open>\<open>bh_enable\<close> and \<open>bh_disable\<close> are \<^verbatim>\<open>local_bh_enable()\<close> and \<^verbatim>\<open>local_bh_disable()\<close> of \<^verbatim>\<open>kernel/softirq.c\<close>.\<close>

definition cond_resched_softirq ::
  "bool \<Rightarrow> ('f kernel \<Rightarrow> 'f kernel option) \<Rightarrow> ('f kernel \<Rightarrow> 'f kernel) \<Rightarrow> ('f kernel \<Rightarrow> 'f kernel) \<Rightarrow> bool \<Rightarrow> 'f kernel \<Rightarrow>
   (bool \<times> 'f kernel) option" where
  "cond_resched_softirq dbg resched bh_enable bh_disable in_softirq k =
     (if \<not> in_softirq then Some (False, BUG k)
      else if should_resched k
      then map_option (\<lambda>k1. (True, bh_disable k1)) (do_cond_resched dbg resched (bh_enable k))
      else Some (False, k))"

section \<open>Waiting for input and output\<close>

text \<open>The code of \<^verbatim>\<open>io_schedule()\<close> before and after the sleep, the same in \<^verbatim>\<open>io_schedule_timeout()\<close>.\<close>

definition io_schedule_begin :: "'f kernel \<Rightarrow> 'f kernel" where
  "io_schedule_begin k =
     (let k1 = rq_update (nr_iowait_update (\<lambda>n. n + 1)) k;
          k2 = ext_call (Blk_Schedule_Flush_Plug (curr (rq k1))) k1
      in upd_task (curr (rq k2)) (in_iowait_update (\<lambda>_. True)) k2)"

definition io_schedule_end :: "'f kernel \<Rightarrow> 'f kernel" where
  "io_schedule_end k =
     rq_update (nr_iowait_update (\<lambda>n. n - 1)) (upd_task (curr (rq k)) (in_iowait_update (\<lambda>_. False)) k)"

definition io_schedule :: "('f kernel \<Rightarrow> 'f kernel option) \<Rightarrow> 'f kernel \<Rightarrow> 'f kernel option" where
  "io_schedule resched k = map_option io_schedule_end (resched (io_schedule_begin k))"

definition io_schedule_timeout ::
  "(ulong \<Rightarrow> 'f kernel \<Rightarrow> (ulong \<times> 'f kernel) option) \<Rightarrow> ulong \<Rightarrow> 'f kernel \<Rightarrow> (ulong \<times> 'f kernel) option" where
  "io_schedule_timeout schedule_timeout t k =
     map_option (\<lambda>(ret, k1). (ret, io_schedule_end k1)) (schedule_timeout t (io_schedule_begin k))"

end
