(* ===== verification/Preempt_Claims.thy ===== *)
theory Preempt_Claims
  imports Preempt Core_Claims
begin

text \<open>Preempting a task and putting it to sleep are different things.\<close>

section \<open>Passes with and without \<^verbatim>\<open>PREEMPT_ACTIVE\<close>\<close>

lemma schedule_pass_runnable:
  assumes e: "env_ok e" and inv: "sched_inv k"
  shows "tsk_state (curr_task k) = 0 \<or> (preempt_count (curr_task k) + 1) AND PREEMPT_ACTIVE \<noteq> 0 \<Longrightarrow>
      on_rq (tasks (schedule_pass e k) q) = on_rq (tasks k q)"
    "tsk_state (curr_task k) \<noteq> 0 \<Longrightarrow> (preempt_count (curr_task k) + 1) AND PREEMPT_ACTIVE = 0 \<Longrightarrow>
      \<not> signal_pending_state (tsk_state (curr_task k)) (curr_task k) \<Longrightarrow> \<not> on_rq (tasks (schedule_pass e k) (curr (rq k)))"
proof -
  define vol where "vol = (tsk_state (curr_task k) \<noteq> 0 \<and> (preempt_count (curr_task k) + 1) AND PREEMPT_ACTIVE = 0)"
  obtain nxt k4 where s: "sleep_step k k4"
    and keep: "tsk_state (curr_task k) = 0 \<or> (preempt_count (curr_task k) + 1) AND PREEMPT_ACTIVE \<noteq> 0 \<Longrightarrow> sched_keep k k4"
    and off: "tsk_state (curr_task k) \<noteq> 0 \<Longrightarrow> (preempt_count (curr_task k) + 1) AND PREEMPT_ACTIVE = 0 \<Longrightarrow>
      \<not> signal_pending_state (tsk_state (curr_task k)) (curr_task k) \<Longrightarrow> \<not> on_rq (tasks k4 (curr (rq k)))"
    and eq: "schedule_pass e k = switch_tail (curr (rq k)) vol nxt k4"
    by (rule schedule_pass_picks [OF assms], rule that, assumption+) (simp only: switch_tail_def Let_def vol_def)
  note on = switch_tail_fields(4) [OF sleep_stepD(3) [OF s, symmetric], of vol nxt, folded eq]
  show "on_rq (tasks (schedule_pass e k) q) = on_rq (tasks k q)"
    if "tsk_state (curr_task k) = 0 \<or> (preempt_count (curr_task k) + 1) AND PREEMPT_ACTIVE \<noteq> 0"
    unfolding on by (rule task_staticD(1) [OF sched_keepD(1) [OF keep [OF that]]])
  show "\<not> on_rq (tasks (schedule_pass e k) (curr (rq k)))"
    if "tsk_state (curr_task k) \<noteq> 0" "(preempt_count (curr_task k) + 1) AND PREEMPT_ACTIVE = 0"
      "\<not> signal_pending_state (tsk_state (curr_task k)) (curr_task k)"
    unfolding on by (rule off [OF that])
qed

section \<open>Properties\<close>

text \<open>
  C18. Preemption never puts a task to sleep. A pass of the scheduler that preempts the current task
  leaves every task on the run queue that was on it, also a task that has already announced
  to sleep and has yet to check its condition. The same pass entered by \<^verbatim>\<open>schedule()\<close> takes a
  task that announced to sleep off the run queue, unless a signal is pending.
\<close>

theorem preemption_keeps_runnable:
  assumes "env_ok e" and "sched_inv k" and "preempt_count (curr_task k) = 0"
  shows "(let k1 = schedule_pass e (add_preempt_count dbg PREEMPT_ACTIVE k) in
        sched_inv k1 \<and> (\<forall>p. on_rq (tasks k1 p) = on_rq (tasks k p))) \<and>
      (tsk_state (curr_task k) \<noteq> TASK_RUNNING \<and> \<not> signal_pending_state (tsk_state (curr_task k)) (curr_task k) \<longrightarrow>
        \<not> on_rq (tasks (schedule_pass e k) (curr (rq k))))"
proof
  let ?k = "add_preempt_count dbg PREEMPT_ACTIVE k"
  have eq: "?k = upd_task (curr (rq k)) (preempt_count_update (\<lambda>n. n + PREEMPT_ACTIVE)) k"
    using assms(3) by (simp add: add_preempt_count_def)
  have keep: "sched_keep k ?k" unfolding eq by (rule keep_preempt_count)
  have inv: "sched_inv ?k" by (rule sched_inv_keep [OF assms(2) keep])
  have "preempt_count (curr_task ?k) = PREEMPT_ACTIVE" unfolding eq using assms(3) by simp
  then have "(preempt_count (curr_task ?k) + 1) AND PREEMPT_ACTIVE \<noteq> 0" by (simp add: PREEMPT_ACTIVE_def)
  then show "let k1 = schedule_pass e ?k in sched_inv k1 \<and> (\<forall>p. on_rq (tasks k1 p) = on_rq (tasks k p))"
    using schedule_pass_inv(1) [OF assms(1) inv] schedule_pass_runnable(1) [OF assms(1) inv] task_staticD(1) [OF sched_keepD(1) [OF keep]]
    by (simp add: Let_def)
  show "tsk_state (curr_task k) \<noteq> TASK_RUNNING \<and> \<not> signal_pending_state (tsk_state (curr_task k)) (curr_task k) \<longrightarrow>
      \<not> on_rq (tasks (schedule_pass e k) (curr (rq k)))"
    using schedule_pass_runnable(2) [OF assms(1,2)] assms(3) by (simp add: TASK_RUNNING_def PREEMPT_ACTIVE_def)
qed

theorem preemption_keeps_runnable_witness:
  "\<forall>p. on_rq (tasks (schedule_pass fifo_env (add_preempt_count True PREEMPT_ACTIVE sched_demo)) p) = on_rq (tasks sched_demo p)"
proof -
  have "preempt_count (curr_task sched_demo) = 0" by (simp add: sched_demo_def boot_rq_def INIT_TASK_def)
  from preemption_keeps_runnable [OF fifo_env_ok sched_demo_inv this] show ?thesis by (simp add: Let_def)
qed

end
