(* ===== verification/Boot.thy ===== *)
theory Boot
  imports Rt_Admission
begin

text \<open>
  Booting the scheduler, \<^verbatim>\<open>sched_init()\<close> of \<^verbatim>\<open>kernel/sched/core.c\<close>, from the data of the
  kernel image. Pointers between statically allocated structures, locks, timers' callbacks and
  the memory maps of the boot thread are not part of the state, nor is the flag
  \<^verbatim>\<open>scheduler_running\<close>, which only a debugging check reads.
\<close>

section \<open>The kernel image\<close>

text \<open>
  The static data before the first instruction: zero but for \<^verbatim>\<open>INIT_TASK\<close> and the initialised
  variables. The task and group numbers in use are 0 and the root. The entry of a task that is
  not created holds a copy of the first task, that of a group what
  \<^verbatim>\<open>alloc_rt_sched_group()\<close> makes of it. \<open>jif\<close> is the initial value of the tick counter,
  \<open>fair\<close> the zeroed data of the fair class.
\<close>

definition zero_rq :: rq where
  "zero_rq =
     \<lparr>nr_running = 0, skip_clock_update = 0, nr_switches = 0, h_nr_running = 0,
      wrr = \<lparr>active = [], wrr_nr_running = 0, total_weight = 0\<rparr>,
      nr_uninterruptible = 0, curr = 0, idle = 0, stop = None, clock = 0, clock_task = 0,
      nr_iowait = 0, yld_count = 0, sched_count = 0, ttwu_count = 0,
      loads = \<lparr>cpu_load = [0, 0, 0, 0, 0], rq_load_weight = 0, nr_load_updates = 0,
        last_load_update_tick = 0, calc_load_active = 0, rq_calc_load_update = 0\<rparr>\<rparr>"

definition kernel_image :: "ulong \<Rightarrow> 'f \<Rightarrow> 'f kernel" where
  "kernel_image jif fair =
     \<lparr>tasks = (\<lambda>_. INIT_TASK), rq = zero_rq,
      rt_rqs = (\<lambda>g. if g = [] then zero_rt_rq else (init_rt_rq zero_rt_rq)\<lparr>highest_prio := MAX_RT_PRIO\<rparr>),
      rt_bandwidths = (\<lambda>_. \<lparr>rt_period = 0, bw_rt_runtime = 0, rt_period_timer_active = False\<rparr>),
      def_rt_bandwidth = \<lparr>rt_period = 0, bw_rt_runtime = 0, rt_period_timer_active = False\<rparr>,
      task_groups = [], threads = [0], leaf_rt_rq_list = [], tg_cgroup = (\<lambda>_. None),
      wrr_group_path = (\<lambda>_. CHR 0x00), core_group_path = (\<lambda>_. CHR 0x00),
      cpuacct_active = False, task_ca = (\<lambda>_. []), cpuusage = (\<lambda>_. 0), sched_clock_now = 0, xtime_nsec = 0,
      jiffies = jif,
      lavg = \<lparr>calc_load_tasks = 0, calc_load_update = 0, avenrun = [0, 0, 0],
        calc_load_idle = (\<lambda>_. 0), calc_load_idx = 0\<rparr>,
      sysctl_sched_rt_period = 1000000, sysctl_sched_rt_runtime = 950000, calls = [], panicked = False, cfs = fair\<rparr>"

section \<open>Initialisation\<close>

text \<open>What \<^verbatim>\<open>sched_init()\<close> calls of \<^verbatim>\<open>fair.c\<close>, \<^verbatim>\<open>auto_group.c\<close> and the allocator.\<close>

record 'f boot_ext =
  init_cfs_rq :: "'f kernel \<Rightarrow> 'f kernel"
  init_cfs_bandwidth :: "'f kernel \<Rightarrow> 'f kernel"
  init_tg_cfs_entry :: "'f kernel \<Rightarrow> 'f kernel"
  init_sched_fair_class :: "'f kernel \<Rightarrow> 'f kernel"
  autogroup_init :: "'f kernel \<Rightarrow> 'f kernel"
  percpu_allocated :: bool

definition init_rq :: "'f boot_ext \<Rightarrow> 'f kernel \<Rightarrow> 'f kernel" where
  "init_rq x k =
     (let k1 = rq_update (nr_running_update (\<lambda>_. 0)) k;
          k2 = upd_loads (\<lambda>l. l\<lparr>calc_load_active := 0, rq_calc_load_update := jiffies k1 + LOAD_FREQ\<rparr>) k1;
          k3 = init_cfs_rq x k2;
          k4 = upd_rt [] init_rt_rq k3;
          k5 = init_wrr_rq k4;
          k6 = init_tg_cfs_entry x (init_cfs_bandwidth x k5);
          k7 = upd_rt [] (rt_runtime_update (\<lambda>_. bw_rt_runtime (def_rt_bandwidth k6))) k6;
          k8 = init_tg_rt_entry [] (rt_rqs k7 []) (k7\<lparr>leaf_rt_rq_list := []\<rparr>);
          k9 = upd_loads (\<lambda>l. l\<lparr>cpu_load := replicate 5 0, last_load_update_tick := jiffies k8\<rparr>) k8
      in rq_update (nr_iowait_update (\<lambda>_. 0)) k9)"

definition sched_init :: "'f boot_ext \<Rightarrow> 'f kernel \<Rightarrow> 'f kernel" where
  "sched_init x k =
     (let k1 = k\<lparr>def_rt_bandwidth := init_rt_bandwidth (global_rt_period k) (global_rt_runtime k)\<rparr>;
          k2 = rt_bandwidths_update (\<lambda>b. b([] := init_rt_bandwidth (global_rt_period k1) (global_rt_runtime k1))) k1;
          k3 = autogroup_init x (task_groups_update (list_add []) k2);
          k4 = (if percpu_allocated x then k3 else BUG k3);
          k5 = init_rq x k4;
          k6 = init_idle 0 (set_load_weight 0 k5);
          k7 = lavg_update (calc_load_update_update (\<lambda>_. jiffies k6 + LOAD_FREQ)) k6;
          k8 = upd_task 0 (sched_class_update (\<lambda>_. Fair_Class)) k7
      in init_sched_fair_class x k8)"

text \<open>The boot thread becomes the idle task when it has started the others.\<close>

definition init_idle_bootup_task :: "tid \<Rightarrow> 'f kernel \<Rightarrow> 'f kernel" where
  "init_idle_bootup_task p = upd_task p (sched_class_update (\<lambda>_. Idle_Class))"

end
