(* ===== verification/Boot_Claims.thy ===== *)
theory Boot_Claims
  imports Boot Rt_Admission_Claims
begin

text \<open>
  The invariants of the other theories hold after boot, so that they hold in every state the
  modelled operations lead to.
\<close>

section \<open>Empty real-time queues\<close>

lemma init_rt_rq_zero:
  "init_rt_rq zero_rt_rq = zero_rt_rq\<lparr>rt_active := \<lparr>bitmap = (\<lambda>i. i = 100), queue = (\<lambda>_. [])\<rparr>\<rparr>"
proof -
  let ?z = "\<lparr>bitmap = (\<lambda>_. False), queue = (\<lambda>_. [])\<rparr> :: rt_prio_array"
  let ?f = "\<lambda>a i. a\<lparr>queue := (queue a)(i := []), bitmap := (bitmap a)(i := False)\<rparr>"
  have "?f ?z i = ?z" for i by (simp add: fun_upd_def)
  then have "foldl ?f ?z is = ?z" for "is" by (induction "is") (simp_all only: foldl_Nil foldl_Cons)
  then show ?thesis by (simp add: init_rt_rq_def zero_rt_rq_def Let_def) (simp add: fun_eq_iff)
qed

lemma rt_inv_empty:
  assumes r: "\<And>g. \<exists>n. rt_rqs k g = boot_rt_rq\<lparr>rt_runtime := n\<rparr>"
  shows "rt_inv k" "rt_queued k = {}"
proof -
  have ents: "rt_ents (rt_rqs k g) = {}" for g using r [of g] by (auto simp: rt_ents_def boot_rt_rq_def)
  have fb: "sched_find_first_bit (\<lambda>i. i = 100) = int 100" by (subst sched_find_first_bit_eq) auto
  have "rq_wf pr ok (boot_rt_rq\<lparr>rt_runtime := n\<rparr>)" for pr ok n
    using fb by (intro rq_wfI) (simp_all add: boot_rt_rq_def rt_count_def prio_consts)
  then have "rq_wf pr ok (rt_rqs k g)" for pr ok g using r [of g] by auto
  moreover have "rt_nr_running (rt_rqs k g) = 0" for g using r [of g] by (auto simp: boot_rt_rq_def)
  ultimately show "rt_inv k" using ents by (simp add: rt_inv_def rt_wf_def group_ok_def on_rt_rq_iff)
  show "rt_queued k = {}" using ents by (simp add: rt_queued_def on_rt_rq_iff)
qed

section \<open>The state after boot\<close>

text \<open>What boot calls outside the repository changes nothing but the fair class's own data.\<close>

definition boot_ext_ok :: "'f boot_ext \<Rightarrow> bool" where
  "boot_ext_ok x \<longleftrightarrow> percpu_allocated x \<and>
     (\<forall>f \<in> {init_cfs_rq x, init_cfs_bandwidth x, init_tg_cfs_entry x, init_sched_fair_class x, autogroup_init x}.
        \<forall>k. \<exists>c. f k = k\<lparr>cfs := c\<rparr>)"

definition booted :: "'f boot_ext \<Rightarrow> ulong \<Rightarrow> 'f \<Rightarrow> 'f kernel" where
  "booted x jif fair = init_idle_bootup_task 0 (sched_init x (kernel_image jif fair))"

lemma boot_ext_frame:
  assumes "boot_ext_ok x" and "f \<in> {init_cfs_rq x, init_cfs_bandwidth x, init_tg_cfs_entry x, init_sched_fair_class x, autogroup_init x}"
  shows "tasks (f k) = tasks k" "rq (f k) = rq k" "rt_rqs (f k) = rt_rqs k" "rt_bandwidths (f k) = rt_bandwidths k"
    "def_rt_bandwidth (f k) = def_rt_bandwidth k" "task_groups (f k) = task_groups k" "panicked (f k) = panicked k"
    "jiffies (f k) = jiffies k" "lavg (f k) = lavg k" "sysctl_sched_rt_period (f k) = sysctl_sched_rt_period k"
    "sysctl_sched_rt_runtime (f k) = sysctl_sched_rt_runtime k" "sched_clock_now (f k) = sched_clock_now k"
proof -
  obtain c where "f k = k\<lparr>cfs := c\<rparr>" using assms unfolding boot_ext_ok_def by blast
  then show "tasks (f k) = tasks k" "rq (f k) = rq k" "rt_rqs (f k) = rt_rqs k" "rt_bandwidths (f k) = rt_bandwidths k"
    "def_rt_bandwidth (f k) = def_rt_bandwidth k" "task_groups (f k) = task_groups k" "panicked (f k) = panicked k"
    "jiffies (f k) = jiffies k" "lavg (f k) = lavg k" "sysctl_sched_rt_period (f k) = sysctl_sched_rt_period k"
    "sysctl_sched_rt_runtime (f k) = sysctl_sched_rt_runtime k" "sched_clock_now (f k) = sched_clock_now k"
    by simp_all
qed

lemma booted_fields:
  assumes "boot_ext_ok x" and k: "k = booted x jif fair"
  shows "rq k = boot_rq\<lparr>loads := (loads boot_rq)\<lparr>last_load_update_tick := jif, rq_calc_load_update := jif + LOAD_FREQ\<rparr>\<rparr>"
    "\<exists>se. tasks k = (\<lambda>_. INIT_TASK)(0 := INIT_TASK\<lparr>sched_class := Idle_Class, p_se := se\<rparr>)"
    "\<exists>n. rt_rqs k g = boot_rt_rq\<lparr>rt_runtime := n\<rparr>" "task_groups k = [[]]" "\<not> panicked k"
    "calc_load_update (lavg k) = jif + LOAD_FREQ" "calc_load_tasks (lavg k) = 0"
    "rt_bandwidths k [] = \<lparr>rt_period = 1000000000, bw_rt_runtime = 950000000, rt_period_timer_active = False\<rparr>"
    "rt_runtime (rt_rqs k []) = 950000000"
    "sysctl_sched_rt_period k = 1000000" "sysctl_sched_rt_runtime k = 950000"
proof -
  note F = boot_ext_frame [OF assms(1), of "init_cfs_rq x", simplified] boot_ext_frame [OF assms(1), of "init_cfs_bandwidth x", simplified]
    boot_ext_frame [OF assms(1), of "init_tg_cfs_entry x", simplified] boot_ext_frame [OF assms(1), of "init_sched_fair_class x", simplified]
    boot_ext_frame [OF assms(1), of "autogroup_init x", simplified]
  note S = k booted_def init_idle_bootup_task_def sched_init_def init_rq_def Let_def kernel_image_def init_idle_def
    sched_fork_init_def set_load_weight_def init_wrr_rq_def init_tg_rt_entry_def init_rt_bandwidth_def
  have P: "percpu_allocated x" using assms(1) by (simp add: boot_ext_ok_def)
  show "rq k = boot_rq\<lparr>loads := (loads boot_rq)\<lparr>last_load_update_tick := jif, rq_calc_load_update := jif + LOAD_FREQ\<rparr>\<rparr>"
    by (simp add: S F P boot_rq_def zero_rq_def numeral_eq_Suc)
  show "\<exists>se. tasks k = (\<lambda>_. INIT_TASK)(0 := INIT_TASK\<lparr>sched_class := Idle_Class, p_se := se\<rparr>)"
    by (simp add: S F P fun_eq_iff INIT_TASK_def TASK_RUNNING_def)
  show "\<exists>n. rt_rqs k g = boot_rt_rq\<lparr>rt_runtime := n\<rparr>"
    by (simp add: S F P init_rt_rq_zero) (simp add: zero_rt_rq_def boot_rt_rq_def)
  show "task_groups k = [[]]" "\<not> panicked k" "calc_load_update (lavg k) = jif + LOAD_FREQ" "calc_load_tasks (lavg k) = 0"
    "sysctl_sched_rt_period k = 1000000" "sysctl_sched_rt_runtime k = 950000"
    by (simp_all add: S F P list_add_def)
  show "rt_bandwidths k [] = \<lparr>rt_period = 1000000000, bw_rt_runtime = 950000000, rt_period_timer_active = False\<rparr>"
    "rt_runtime (rt_rqs k []) = 950000000"
    by (simp_all add: S F P global_rt_period_def global_rt_runtime_def NSEC_PER_USEC_def)
qed

lemma booted_inv:
  assumes "boot_ext_ok x"
  shows "sched_inv (booted x jif fair)"
proof -
  define k where "k = booted x jif fair"
  note F = booted_fields [OF assms k_def]
  obtain se where t: "tasks k = (\<lambda>_. INIT_TASK)(0 := INIT_TASK\<lparr>sched_class := Idle_Class, p_se := se\<rparr>)" using F(2) by blast
  have w: "wrr_inv k" by (rule wrr_invI) (simp_all add: F(1) t boot_rq_def wrr_task_ok_def INIT_TASK_def)
  have "task_ok (tasks k p)" for p by (simp add: t task_ok_def INIT_TASK_def prio_consts valid_tg_def)
  moreover have "wrr_queued k = {}" by (simp add: wrr_queued_def F(1) boot_rq_def)
  ultimately have "run_inv k"
    using w rt_inv_empty [of k, OF F(3)] by (auto simp: run_inv_def sched_inv_q_def excess_def F(1) t boot_rq_def INIT_TASK_def)
  moreover have "curr_ok k" by (simp add: curr_ok_def F(1) t boot_rq_def INIT_TASK_def TASK_RUNNING_def)
  ultimately show ?thesis by (simp add: sched_inv_def k_def)
qed

lemma booted_admitted:
  assumes "boot_ext_ok x"
  shows "admitted (booted x jif fair)"
proof -
  define k where "k = booted x jif fair"
  note F = booted_fields [OF assms k_def]
  have g: "global_ratio k = 996147" "share k [] = 996147"
    by (simp_all add: global_ratio_def global_rt_period_def global_rt_runtime_def F share_def bw_ratio_def group_bw_def
        to_ratio_def RUNTIME_INF_def NSEC_PER_USEC_def)
  have "sysctl_ok k" by (simp add: sysctl_ok_def F global_rt_period_def global_rt_runtime_def NSEC_PER_USEC_def)
  then have "admitted k" using g by (simp add: admitted_def tg_tree_def tg_children_def F)
  then show ?thesis by (simp add: k_def)
qed

text \<open>An instance of what is called outside, for a concrete boot.\<close>

definition quiet_boot :: "'f boot_ext" where
  "quiet_boot =
     \<lparr>init_cfs_rq = id, init_cfs_bandwidth = id, init_tg_cfs_entry = id, init_sched_fair_class = id,
      autogroup_init = id, percpu_allocated = True\<rparr>"

section \<open>Properties\<close>

text \<open>
  C31. Boot establishes the invariants. Whatever the tick counter starts at, after
  \<^verbatim>\<open>sched_init()\<close> and \<^verbatim>\<open>init_idle_bootup_task()\<close> the scheduler is consistent, with the boot
  thread as the idle task, the bandwidth of the root group is the default limit and is admitted,
  and the load average is next due one period from now; and every sequence of modelled
  operations from there keeps the scheduler consistent and reaches no \<^verbatim>\<open>BUG()\<close>.
\<close>

theorem boot_runs_safe:
  assumes "boot_ext_ok x" and "env_ok e" and "(sched_step e)\<^sup>*\<^sup>* (booted x jif fair) k'"
  shows "sched_inv k' \<and> \<not> panicked k' \<and> admitted (booted x jif fair) \<and>
    (let k = booted x jif fair in
       curr (rq k) = 0 \<and> idle (rq k) = 0 \<and> sched_class (tasks k 0) = Idle_Class \<and> nr_running (rq k) = 0 \<and>
       rt_runtime (rt_rqs k []) = bw_rt_runtime (rt_bandwidths k []) \<and>
       calc_load_update (lavg k) = jif + LOAD_FREQ \<and> rq_calc_load_update (loads (rq k)) = jif + LOAD_FREQ)"
proof -
  note F = booted_fields [OF assms(1) refl, where jif = jif and fair = fair]
  have "sched_inv k' \<and> \<not> panicked k'"
    using assms(3) by (induction rule: rtranclp_induct)
      (auto simp: booted_inv [OF assms(1)] F dest: sched_step_inv [OF assms(2)])
  moreover have "sched_class (tasks (booted x jif fair) 0) = Idle_Class" using F(2) by fastforce
  ultimately show ?thesis using booted_admitted [OF assms(1), of jif fair] by (simp add: F Let_def boot_rq_def)
qed

theorem boot_runs_safe_witness: "sched_inv (schedule_pass fifo_env (booted quiet_boot (- 30000) []))"
proof -
  have ext: "\<exists>c. f k = k\<lparr>cfs := c\<rparr>"
    if "f \<in> {init_cfs_rq quiet_boot, init_cfs_bandwidth quiet_boot, init_tg_cfs_entry quiet_boot, init_sched_fair_class quiet_boot,
      autogroup_init quiet_boot}" for f and k :: "tid list kernel"
  proof -
    have "f = id" using that by (simp add: quiet_boot_def)
    then show ?thesis by (intro exI [where x = "cfs k"]) simp
  qed
  have "percpu_allocated (quiet_boot :: tid list boot_ext)" by (simp add: quiet_boot_def)
  then have ok: "boot_ext_ok (quiet_boot :: tid list boot_ext)" unfolding boot_ext_ok_def using ext by blast
  have "(sched_step fifo_env)\<^sup>*\<^sup>* (booted quiet_boot (- 30000) []) (schedule_pass fifo_env (booted quiet_boot (- 30000) []))"
    by (rule r_into_rtranclp) (rule sched_step.schedule)
  from boot_runs_safe [OF ok fifo_env_ok this] show ?thesis by (rule conjunct1)
qed

end
