(* ===== verification/Utils.thy ===== *)
theory Utils
  imports Setsched
begin

text \<open>
  The two command line tools, \<^verbatim>\<open>utils/chshed.exc/jni/chshed.c\<close>, which sets the scheduling policy
  of a process, and \<^verbatim>\<open>utils/lshed.exc/jni/lshed.c\<close>, which shows it, on top of the system calls of
  the kernel.
\<close>

section \<open>Input and output\<close>

text \<open>
  The input is the sequence of numbers up to the first thing that is none: from there on every
  \<^verbatim>\<open>scanf("%d")\<close> fails and leaves its variable as it is. The output is the sequence of calls of
  \<^verbatim>\<open>printf\<close>.
\<close>

definition scanf_d :: "int \<Rightarrow> int list \<Rightarrow> int \<times> int list" where
  "scanf_d old inp = (case inp of [] \<Rightarrow> (old, []) | n # rest \<Rightarrow> (n, rest))"

datatype printf_arg = Arg_Int int | Arg_Str string

type_synonym printf_call = "string \<times> printf_arg list"

definition policychecker :: "int \<Rightarrow> string" where
  "policychecker pol =
     (if pol = 0 then ''SCHED_NORMAL'' else if pol = 1 then ''SCHED_FIFO'' else if pol = 2 then ''SCHED_RR''
      else if pol = 3 then ''SCHED_BATCH'' else if pol = 5 then ''SCHED_IDLE'' else if pol = 6 then ''SCHED_WRR''
      else ''UNKNOWN'')"

section \<open>\<^verbatim>\<open>chshed\<close>\<close>

text \<open>The variables of \<^verbatim>\<open>main()\<close> are not initialised: \<open>stack\<close> is what their memory holds.\<close>

record chshed_stack =
  st_prio :: int
  st_policy :: int
  st_param :: int
  st_pid :: int

definition chshed_main ::
  "'f env \<Rightarrow> (errno \<Rightarrow> string) \<Rightarrow> chshed_stack \<Rightarrow> int list \<Rightarrow> 'f kernel \<Rightarrow> int \<times> printf_call list \<times> 'f kernel" where
  "chshed_main e strerror stack inp k =
     (let out1 = [(''Please input the choice of scheduling algorithms(0-NORMAL, 1-FIFO, 2-RR, 6-WRR): '', [])];
          (pol, inp1) = scanf_d (st_policy stack) inp;
          out2 = out1 @ [(''Current scheduling algorithm is %s'' @ [CHR 0x0A], [Arg_Str (policychecker pol)]),
                         (''Please input the PID of the process: '', [])];
          (pid, inp2) = scanf_d (st_pid stack) inp1;
          (param, out3) =
            (if pol = 1 \<or> pol = 2 then
               let (prio, inp3) = scanf_d (st_prio stack) inp2 in (prio, out2 @ [(''Set process's priority (1-99): '', [])])
             else if pol = 0 then (0, out2)
             else if pol = 6 then
               let (prio, inp3) = scanf_d (st_prio stack) inp2 in (prio, out2 @ [(''Set WRR weight (zero for default): '', [])])
             else (st_param stack, out2))
      in case sys_sched_setscheduler e pid pol (User param) k of
           (Some err, k1) \<Rightarrow> (- 1, out3 @ [(''Changing failed: %s'' @ [CHR 0x0A], [Arg_Str (strerror err)])], k1)
         | (None, k1) \<Rightarrow> (0, out3 @ [(''Done.'' @ [CHR 0x0A], [])], k1))"

section \<open>\<^verbatim>\<open>lshed\<close>\<close>

record timespec =
  tv_sec :: int
  tv_nsec :: int

definition lshed_main ::
  "'f env \<Rightarrow> (u32 \<Rightarrow> timespec) \<Rightarrow> (errno \<Rightarrow> string) \<Rightarrow> int \<Rightarrow> int list \<Rightarrow> 'f kernel \<Rightarrow> int \<times> printf_call list" where
  "lshed_main e jiffies_to_timespec strerror old_pid inp k =
     (let out1 = [(''Input the process id (PID) you want to check: '', [])];
          (pid, inp1) = scanf_d old_pid inp
      in case sys_sched_rr_get_interval e jiffies_to_timespec pid (User ()) k of
           Inl err \<Rightarrow> (- 1, out1 @ [(''Failed getting interval: %s'' @ [CHR 0x0A], [Arg_Str (strerror err)])])
         | Inr wrr_time \<Rightarrow>
             let pol = (case sys_sched_getscheduler e pid k of Inr r \<Rightarrow> r | Inl _ \<Rightarrow> - 1);
                 timeslice = tv_nsec wrr_time div 1000000
             in (0, out1 @ [(''Schedule policy: %s'' @ [CHR 0x0A], [Arg_Str (policychecker pol)]),
                            (''Timeslice: %d milisec'' @ [CHR 0x0A], [Arg_Int timeslice])]))"

end
