(* ===== verification/Utils_Claims.thy ===== *)
theory Utils_Claims
  imports Utils Setsched_Claims
begin

text \<open>What one tool sets the other shows.\<close>

section \<open>Setting and showing a WRR weight\<close>

lemma sched_setscheduler_wrr:
  assumes "env_ok e" and "sched_inv k" and "\<not> in_interrupt e k" and "find_process_by_pid e pid k = Some p"
    and "policy (tasks k p) \<noteq> SCHED_WRR" and "w \<noteq> 0" and "sys_sched_setscheduler e pid SCHED_WRR (User w) k = (None, k')"
  shows "find_process_by_pid e pid k' = Some p" "policy (tasks k' p) = SCHED_WRR" "\<not> sched_reset_on_fork (tasks k' p)"
    "weight (p_wrr (tasks k' p)) = word_of_int w" "0 \<le> w \<and> w \<le> 99"
    "not_boosted e p \<Longrightarrow> sched_class (tasks k' p) = Wrr_Class"
proof -
  have cl: "sched_class (tasks k p) \<noteq> Stop_Class"
    using assms(2) inv_task(3) unfolding sched_inv_def by blast
  have run: "sched_setscheduler_common e p SCHED_WRR w True k = (None, k')"
    using assms(4,7) by (auto simp: sys_sched_setscheduler_def do_sched_setscheduler_def sched_setscheduler_def split: if_splits)
  have small: "SCHED_WRR AND SCHED_RESET_ON_FORK = 0" "SCHED_WRR AND NOT SCHED_RESET_ON_FORK = SCHED_WRR"
    by (rule small_policy; simp add: SCHED_WRR_def)+
  have k': "k' = change_scheduler e p SCHED_WRR w False k" and v: "valid_sched_priority SCHED_WRR w (tasks k p)"
    using run assms(3,5) unfolding setscheduler_branches small by (auto split: if_splits option.splits simp: SCHED_WRR_def)
  note C = change_scheduler_params [OF assms(1) cl, where pol = SCHED_WRR and pr = w and reset = False, folded k']
  show "find_process_by_pid e pid k' = Some p" using assms(4) C(1) by (simp add: find_process_by_pid_def split: if_splits)
  show "policy (tasks k' p) = SCHED_WRR" "\<not> sched_reset_on_fork (tasks k' p)" "weight (p_wrr (tasks k' p)) = word_of_int w"
    using C(2) assms(6) by (simp_all add: task_params_def Let_def custom_part_def split: if_splits)
  show "0 \<le> w \<and> w \<le> 99" using v by (simp add: valid_sched_priority_iff)
  show "sched_class (tasks k' p) = Wrr_Class" if "not_boosted e p"
    using C(4) [OF that] assms(2) inv_task(1) [of k p] by (simp add: rt_policy_def policy_defs sched_inv_def task_ok_def)
qed

section \<open>Properties\<close>

text \<open>
  C32. Setting a weight with \<^verbatim>\<open>chshed\<close> and looking with \<^verbatim>\<open>lshed\<close>. When a process that is not
  under SCHED_WRR is given that policy and a weight other than 0 by \<^verbatim>\<open>chshed\<close>, and \<^verbatim>\<open>chshed\<close> says
  \<^verbatim>\<open>Done\<close>, then the weight is between 1 and 99, and \<^verbatim>\<open>lshed\<close> shows the policy and a time slice
  of ten milliseconds per unit of weight, as long as the process is not boosted to a real-time
  priority. A tick is taken to be exactly ten milliseconds.
\<close>

theorem chshed_lshed_roundtrip:
  assumes "env_ok e" and "sched_inv k" and "\<not> in_interrupt e k" and "find_process_by_pid e pid k = Some p"
    and "not_boosted e p" and "security_task_getscheduler e p = None"
    and "\<And>j. j < 100 \<Longrightarrow> jiffies_to_timespec j = \<lparr>tv_sec = 0, tv_nsec = 10000000 * uint j\<rparr>"
    and "policy (tasks k p) \<noteq> SCHED_WRR" and "w \<noteq> 0"
    and "chshed_main e strerror stack [6, pid, w] k = (0, out, k')"
  shows "1 \<le> w \<and> w \<le> 99 \<and> last out = (''Done.'' @ [CHR 0x0A], []) \<and>
    lshed_main e jiffies_to_timespec strerror old_pid [pid] k' =
      (0, [(''Input the process id (PID) you want to check: '', []),
           (''Schedule policy: %s'' @ [CHR 0x0A], [Arg_Str ''SCHED_WRR'']),
           (''Timeslice: %d milisec'' @ [CHR 0x0A], [Arg_Int (10 * w)])])"
proof -
  have set: "sys_sched_setscheduler e pid SCHED_WRR (User w) k = (None, k')" and out: "last out = (''Done.'' @ [CHR 0x0A], [])"
    using assms(10) by (auto simp: chshed_main_def Let_def scanf_d_def SCHED_WRR_def split: option.splits prod.splits)
  note W = sched_setscheduler_wrr [OF assms(1-4,8,9) set]
  have pid: "0 \<le> pid" using set by (simp add: sys_sched_setscheduler_def do_sched_setscheduler_def SCHED_WRR_def split: if_splits)
  have w: "uint (word_of_int w :: u32) = w" using W(5) by (simp add: uint_word_of_int)
  then have "(word_of_int w :: u32) < 100" using W(5) by (simp add: word_less_def)
  from assms(7) [OF this] w have ts: "jiffies_to_timespec (word_of_int w) = \<lparr>tv_sec = 0, tv_nsec = 10000000 * w\<rparr>" by simp
  have i: "get_rr_interval_op (ops e k' p) k' p = word_of_int w"
    by (simp add: W(6) [OF assms(5)] class_ops_def wrr_sched_class_def get_rr_interval_wrr_def W(4))
  have "sys_sched_rr_get_interval e jiffies_to_timespec pid (User ()) k' = Inr \<lparr>tv_sec = 0, tv_nsec = 10000000 * w\<rparr>"
    using pid by (simp add: sys_sched_rr_get_interval_def W(1) assms(6) i ts)
  moreover have "sys_sched_getscheduler e pid k' = Inr 6"
    using pid W(3) by (simp add: sys_sched_getscheduler_def W(1,2) assms(6) SCHED_WRR_def)
  ultimately show ?thesis using W(5) assms(9) out by (simp add: lshed_main_def scanf_d_def policychecker_def)
qed

theorem chshed_lshed_roundtrip_witness:
  "lshed_main fifo_env (\<lambda>j. \<lparr>tv_sec = 0, tv_nsec = 10000000 * uint j\<rparr>) (\<lambda>_. ''failed'') 0 [3]
     (snd (snd (chshed_main fifo_env (\<lambda>_. ''failed'') \<lparr>st_prio = 0, st_policy = 0, st_param = 0, st_pid = 0\<rparr> [6, 3, 7] sched_demo))) =
   (0, [(''Input the process id (PID) you want to check: '', []), (''Schedule policy: %s'' @ [CHR 0x0A], [Arg_Str ''SCHED_WRR'']),
        (''Timeslice: %d milisec'' @ [CHR 0x0A], [Arg_Int 70])])"
proof -
  let ?r = "chshed_main fifo_env (\<lambda>_. ''failed'') \<lparr>st_prio = 0, st_policy = 0, st_param = 0, st_pid = 0\<rparr> [6, 3, 7] sched_demo"
  let ?s = "sys_sched_setscheduler fifo_env 3 SCHED_WRR (User 7) sched_demo"
  have find: "find_process_by_pid fifo_env 3 sched_demo = Some 3"
    by (simp add: find_process_by_pid_def fifo_env_def plain_env_def)
  have "fst ?s = None"
    by (simp add: sys_sched_setscheduler_def do_sched_setscheduler_def find sched_setscheduler_def setscheduler_branches
        small_policy policy_defs valid_sched_priority_def prio_consts rt_policy_def)
      (simp add: fifo_env_def plain_env_def sched_demo_def boot_rq_def INIT_TASK_def policy_defs)
  then obtain ks where "?s = (None, ks)" by (metis prod.collapse)
  from this [unfolded SCHED_WRR_def] have "fst ?r = 0" by (simp add: chshed_main_def Let_def scanf_d_def)
  then have run: "?r = (0, fst (snd ?r), snd (snd ?r))" by (metis prod.collapse)
  have "policy (tasks sched_demo 3) \<noteq> SCHED_WRR" by (simp add: sched_demo_def INIT_TASK_def policy_defs)
  moreover have "security_task_getscheduler fifo_env 3 = None" "\<not> in_interrupt fifo_env sched_demo"
    by (simp_all add: fifo_env_def plain_env_def)
  moreover have "not_boosted fifo_env 3" by (simp add: not_boosted_def fifo_env_def plain_env_def rt_prio_def)
  ultimately show ?thesis
    using chshed_lshed_roundtrip [OF fifo_env_ok sched_demo_inv _ find _ _ _ _ _ run,
        where jiffies_to_timespec = "\<lambda>j. \<lparr>tv_sec = 0, tv_nsec = 10000000 * uint j\<rparr>" and old_pid = 0] by simp
qed

end
