(* ===== verification/Rt_Balance.thy ===== *)
theory Rt_Balance
  imports Rt
begin

text \<open>
  Sharing the run time of real-time groups between processors, the part of
  \<^verbatim>\<open>kernel/sched/rt.c\<close> for more than one processor. A group has one real-time run queue on each
  processor of its root domain; a processor that runs out of run time borrows from the others,
  and one that goes offline first settles what it has lent and borrowed.
\<close>

section \<open>The run queues of a root domain\<close>

text \<open>
  The fields of the run queues that the balancing reads and writes: \<open>rt_rqs_of g i\<close> is
  \<^verbatim>\<open>tg->rt_rq[i]\<close>, \<open>span\<close> the processors of the root domain in increasing order, \<open>groups\<close> the list
  that \<^verbatim>\<open>for_each_rt_rq()\<close> walks.
\<close>

record cpu_rt =
  cpu_runtime :: u64
  cpu_time :: u64
  cpu_throttled :: bool

record smp_rt =
  span :: "nat list"
  groups :: "tgid list"
  bandwidth_of :: "tgid \<Rightarrow> rt_bandwidth"
  rt_rqs_of :: "tgid \<Rightarrow> nat \<Rightarrow> cpu_rt"
  scheduler_running :: bool
  smp_bug :: bool

abbreviation add_runtime :: "nat \<Rightarrow> u64 \<Rightarrow> (nat \<Rightarrow> cpu_rt) \<Rightarrow> nat \<Rightarrow> cpu_rt" where
  "add_runtime i d r \<equiv> r(i := (r i)\<lparr>cpu_runtime := cpu_runtime (r i) + d\<rparr>)"

abbreviation upd_rqs :: "tgid \<Rightarrow> (nat \<Rightarrow> cpu_rt) \<Rightarrow> smp_rt \<Rightarrow> smp_rt" where
  "upd_rqs g r \<equiv> rt_rqs_of_update (\<lambda>f. f(g := r))"

section \<open>Borrowing\<close>

text \<open>
  The loop of \<^verbatim>\<open>do_balance_runtime()\<close> over the processors; \<open>c\<close> is the processor that borrows.
  \<^verbatim>\<open>diff\<close> is signed, the comparison of the sum with the period is not.
\<close>

fun balance_loop :: "nat \<Rightarrow> u64 \<Rightarrow> u32 \<Rightarrow> nat list \<Rightarrow> bool \<Rightarrow> (nat \<Rightarrow> cpu_rt) \<Rightarrow> bool \<times> (nat \<Rightarrow> cpu_rt)" where
  "balance_loop c period n [] got r = (got, r)"
| "balance_loop c period n (i # cpus) got r =
     (if i = c \<or> cpu_runtime (r i) = RUNTIME_INF then balance_loop c period n cpus got r
      else
        let diff = cpu_runtime (r i) - cpu_time (r i)
        in if sint diff > 0 then
             let diff1 = diff div ucast n;
                 diff2 = (if cpu_runtime (r c) + diff1 > period then period - cpu_runtime (r c) else diff1);
                 r1 = add_runtime c diff2 (add_runtime i (- diff2) r)
             in if cpu_runtime (r1 c) = period then (True, r1) else balance_loop c period n cpus True r1
           else balance_loop c period n cpus got r)"

definition do_balance_runtime :: "tgid \<Rightarrow> nat \<Rightarrow> smp_rt \<Rightarrow> bool \<times> smp_rt" where
  "do_balance_runtime g c s =
     (let n = of_nat (length (span s));
          (got, r) = balance_loop c (rt_period (bandwidth_of s g)) n (span s) False (rt_rqs_of s g)
      in (got, upd_rqs g r s))"

text \<open>\<open>share\<close> is the scheduler feature \<^verbatim>\<open>RT_RUNTIME_SHARE\<close>.\<close>

definition balance_runtime :: "bool \<Rightarrow> tgid \<Rightarrow> nat \<Rightarrow> smp_rt \<Rightarrow> bool \<times> smp_rt" where
  "balance_runtime share g c s =
     (if \<not> share then (False, s)
      else if cpu_time (rt_rqs_of s g c) > cpu_runtime (rt_rqs_of s g c) then do_balance_runtime g c s
      else (False, s))"

section \<open>Going offline and online\<close>

fun reclaim_loop :: "nat \<Rightarrow> nat list \<Rightarrow> u64 \<Rightarrow> (nat \<Rightarrow> cpu_rt) \<Rightarrow> u64 \<times> (nat \<Rightarrow> cpu_rt)" where
  "reclaim_loop c [] want r = (want, r)"
| "reclaim_loop c (i # cpus) want r =
     (if i = c \<or> cpu_runtime (r i) = RUNTIME_INF then reclaim_loop c cpus want r
      else
        let diff = (if sint want > 0
                    then if sint (cpu_runtime (r i)) \<le> sint want then cpu_runtime (r i) else want
                    else want);
            r1 = add_runtime i (- diff) r
        in if want - diff = 0 then (0, r1) else reclaim_loop c cpus (want - diff) r1)"

text \<open>The body of the loop of \<^verbatim>\<open>__disable_runtime()\<close>, for one run queue; the flag is \<^verbatim>\<open>BUG_ON(want)\<close>.\<close>

definition disable_runtime_rq :: "nat \<Rightarrow> nat list \<Rightarrow> u64 \<Rightarrow> (nat \<Rightarrow> cpu_rt) \<Rightarrow> bool \<times> (nat \<Rightarrow> cpu_rt)" where
  "disable_runtime_rq c cpus runtime r =
     (let (want, r1) =
            (if cpu_runtime (r c) = RUNTIME_INF \<or> cpu_runtime (r c) = runtime then (0, r)
             else reclaim_loop c cpus (runtime - cpu_runtime (r c)) r)
      in (want \<noteq> 0, r1(c := (r1 c)\<lparr>cpu_runtime := RUNTIME_INF\<rparr>)))"

definition disable_runtime_group :: "nat \<Rightarrow> tgid \<Rightarrow> smp_rt \<Rightarrow> smp_rt" where
  "disable_runtime_group c g s =
     (let (bug, r) = disable_runtime_rq c (span s) (bw_rt_runtime (bandwidth_of s g)) (rt_rqs_of s g)
      in (upd_rqs g r s)\<lparr>smp_bug := smp_bug s \<or> bug\<rparr>)"

definition disable_runtime :: "nat \<Rightarrow> smp_rt \<Rightarrow> smp_rt" where
  "disable_runtime c s = (if \<not> scheduler_running s then s else fold (disable_runtime_group c) (groups s) s)"

definition enable_runtime_group :: "nat \<Rightarrow> tgid \<Rightarrow> smp_rt \<Rightarrow> smp_rt" where
  "enable_runtime_group c g s =
     upd_rqs g ((rt_rqs_of s g)(c :=
       \<lparr>cpu_runtime = bw_rt_runtime (bandwidth_of s g), cpu_time = 0, cpu_throttled = False\<rparr>)) s"

definition enable_runtime :: "nat \<Rightarrow> smp_rt \<Rightarrow> smp_rt" where
  "enable_runtime c s = (if \<not> scheduler_running s then s else fold (enable_runtime_group c) (groups s) s)"

text \<open>The hotplug notifier; the value says whether it knows the action.\<close>

datatype cpu_action = CPU_DOWN_PREPARE | CPU_DOWN_PREPARE_FROZEN | CPU_DOWN_FAILED | CPU_DOWN_FAILED_FROZEN
  | CPU_ONLINE | CPU_ONLINE_FROZEN | CPU_OTHER

definition update_runtime :: "cpu_action \<Rightarrow> nat \<Rightarrow> smp_rt \<Rightarrow> bool \<times> smp_rt" where
  "update_runtime action c s =
     (case action of
        CPU_DOWN_PREPARE \<Rightarrow> (True, disable_runtime c s)
      | CPU_DOWN_PREPARE_FROZEN \<Rightarrow> (True, disable_runtime c s)
      | CPU_DOWN_FAILED \<Rightarrow> (True, enable_runtime c s)
      | CPU_DOWN_FAILED_FROZEN \<Rightarrow> (True, enable_runtime c s)
      | CPU_ONLINE \<Rightarrow> (True, enable_runtime c s)
      | CPU_ONLINE_FROZEN \<Rightarrow> (True, enable_runtime c s)
      | CPU_OTHER \<Rightarrow> (False, s))"

end
