(* ===== verification/Rt_Balance_Claims.thy ===== *)
theory Rt_Balance_Claims
  imports Rt_Balance
begin

text \<open>
  Balancing conserves the run time of a group: the processors that are online together hold
  exactly what the group was given for each of them.
\<close>

section \<open>The pool of a group\<close>

definition online :: "nat list \<Rightarrow> (nat \<Rightarrow> cpu_rt) \<Rightarrow> nat set" where
  "online cpus r = {i \<in> set cpus. cpu_runtime (r i) \<noteq> RUNTIME_INF}"

definition pool :: "nat list \<Rightarrow> (nat \<Rightarrow> cpu_rt) \<Rightarrow> nat" where
  "pool cpus r = (\<Sum>i \<in> online cpus r. unat (cpu_runtime (r i)))"

lemma finite_online [simp]: "finite (online cpus r)"
  by (simp add: online_def)

lemma small_not_inf: "unat x < 2 ^ 63 \<Longrightarrow> x \<noteq> RUNTIME_INF"
  by (auto simp: RUNTIME_INF_def unsigned_minus_1_eq_mask mask_eq_exp_minus_1)

lemma runtime_le_pool: "i \<in> online cpus r \<Longrightarrow> unat (cpu_runtime (r i)) \<le> pool cpus r"
  unfolding pool_def by (rule member_le_sum) simp_all

lemma set_runtime_online:
  assumes "i \<in> online cpus r" and "unat x < 2 ^ 63"
  shows "online cpus (r(i := (r i)\<lparr>cpu_runtime := x\<rparr>)) = online cpus r"
    "pool cpus (r(i := (r i)\<lparr>cpu_runtime := x\<rparr>)) + unat (cpu_runtime (r i)) = pool cpus r + unat x"
proof -
  let ?r = "r(i := (r i)\<lparr>cpu_runtime := x\<rparr>)"
  show on: "online cpus ?r = online cpus r"
    using assms small_not_inf [OF assms(2)] by (auto simp: online_def)
  have "(\<Sum>j \<in> online cpus r - {i}. unat (cpu_runtime (?r j))) = (\<Sum>j \<in> online cpus r - {i}. unat (cpu_runtime (r j)))"
    by (rule sum.cong) auto
  then show "pool cpus ?r + unat (cpu_runtime (r i)) = pool cpus r + unat x"
    unfolding pool_def on using sum.remove [OF finite_online assms(1), of "\<lambda>j. unat (cpu_runtime (?r j))"]
      sum.remove [OF finite_online assms(1), of "\<lambda>j. unat (cpu_runtime (r j))"] by simp
qed

section \<open>Borrowing conserves the pool\<close>

lemma borrow_arith:
  fixes R I T P n :: u64
  assumes sum: "unat R + unat I < 2 ^ 63" and T: "unat T < 2 ^ 63" and pos: "0 < sint (I - T)"
  defines "d \<equiv> (if R + (I - T) div n > P then P - R else (I - T) div n)"
  shows "unat (R + d) + unat (I - d) = unat R + unat I"
proof -
  have le: "unat T \<le> unat I" and diff: "unat (I - T) = unat I - unat T"
    using pos T by (auto simp: sint_pos_u64 unat_sub_if' split: if_splits)
  define q where "q = (I - T) div n"
  have q: "unat q \<le> unat I" unfolding q_def unat_div diff by (rule order_trans [OF div_le_dividend]) simp
  have Rq: "unat (R + q) = unat R + unat q" using q sum by (intro unat_add_lem [THEN iffD1]) simp
  show ?thesis
  proof (cases "R + q > P")
    case True
    then have P: "unat P < unat R + unat q" by (simp add: word_less_nat_alt Rq)
    have d: "R + d = P" "I - d = I + R - P" using True by (simp_all add: d_def q_def [symmetric] algebra_simps)
    have "unat (I + R) = unat I + unat R" using sum by (intro unat_add_lem [THEN iffD1]) simp
    then have "unat (I + R - P) = unat I + unat R - unat P" using P q by (subst unat_sub) (simp_all add: word_le_nat_alt)
    then show ?thesis unfolding d using P q by simp
  next
    case False
    then have "d = q" by (simp add: d_def q_def)
    then show ?thesis using Rq q by (simp add: unat_sub word_le_nat_alt)
  qed
qed

lemma balance_loop_pool:
  assumes "c \<in> online cpus r" and "set js \<subseteq> set cpus" and "pool cpus r < 2 ^ 63" and "\<And>i. unat (cpu_time (r i)) < 2 ^ 63"
    and "balance_loop c period n js got r = (got', r')"
  shows "online cpus r' = online cpus r \<and> pool cpus r' = pool cpus r \<and> (\<forall>i. cpu_time (r' i) = cpu_time (r i))"
  using assms
proof (induction js arbitrary: got r)
  case (Cons i js)
  define I R T where "I = cpu_runtime (r i)" and "R = cpu_runtime (r c)" and "T = cpu_time (r i)"
  define d where "d = (if R + (I - T) div ucast n > period then period - R else (I - T) div ucast n)"
  define r1 where "r1 = add_runtime c d (add_runtime i (- d) r)"
  have step: "balance_loop c period n (i # js) got r =
      (if i = c \<or> I = RUNTIME_INF \<or> \<not> 0 < sint (I - T) then balance_loop c period n js got r
       else if cpu_runtime (r1 c) = period then (True, r1) else balance_loop c period n js True r1)"
    unfolding I_def R_def T_def r1_def d_def by (simp add: Let_def)
  note IH = Cons.IH [OF Cons.prems(1) _ Cons.prems(3,4)]
  show ?case
  proof (cases "i = c \<or> I = RUNTIME_INF \<or> \<not> 0 < sint (I - T)")
    case True
    then have "balance_loop c period n js got r = (got', r')" using Cons.prems(5) step by simp
    then show ?thesis using IH Cons.prems(2) by simp
  next
    case False
    then have on: "i \<in> online cpus r" "i \<noteq> c" and pos: "0 < sint (I - T)" using Cons.prems(2) by (auto simp: online_def I_def)
    have "unat (cpu_runtime (r i)) + unat (cpu_runtime (r c)) = (\<Sum>j \<in> {i, c}. unat (cpu_runtime (r j)))" using on by simp
    also have "\<dots> \<le> pool cpus r" unfolding pool_def using on Cons.prems(1) by (intro sum_mono2) auto
    finally have RI: "unat R + unat I \<le> pool cpus r" by (simp add: R_def I_def)
    have eq: "unat (R + d) + unat (I - d) = unat R + unat I"
      unfolding d_def by (rule borrow_arith [OF _ _ pos]) (use RI Cons.prems(3,4) in \<open>simp_all add: T_def\<close>)
    have b: "unat (I - d) < 2 ^ 63" "unat (R + d) < 2 ^ 63" using eq RI Cons.prems(3) by linarith+
    note up = set_runtime_online [OF on(1) b(1)]
    let ?r0 = "add_runtime i (- d) r"
    have r0: "?r0 = r(i := (r i)\<lparr>cpu_runtime := I - d\<rparr>)" by (simp add: I_def)
    have c0: "c \<in> online cpus ?r0" "cpu_runtime (?r0 c) = R" unfolding r0 up(1) using Cons.prems(1) on(2) by (simp_all add: R_def)
    have r1: "r1 = ?r0(c := (?r0 c)\<lparr>cpu_runtime := R + d\<rparr>)" unfolding r1_def using c0(2) by simp
    have on1: "online cpus r1 = online cpus r" unfolding r1 set_runtime_online(1) [OF c0(1) b(2)] unfolding r0 by (rule up(1))
    have "pool cpus r1 + unat R = pool cpus ?r0 + unat (R + d)"
      using set_runtime_online(2) [OF c0(1) b(2)] unfolding r1 [symmetric] c0(2) .
    moreover have "pool cpus ?r0 + unat I = pool cpus r + unat (I - d)" using up(2) unfolding r0 [symmetric] by (simp add: I_def)
    ultimately have keep: "pool cpus r1 = pool cpus r" using eq by linarith
    have t: "cpu_time (r1 j) = cpu_time (r j)" for j by (simp add: r1_def)
    have end1: "(got', r') = (if cpu_runtime (r1 c) = period then (True, r1) else balance_loop c period n js True r1)"
      using Cons.prems(5) step False by simp
    show ?thesis
    proof (cases "cpu_runtime (r1 c) = period")
      case True
      then show ?thesis using end1 on1 keep t by simp
    next
      case False
      then show ?thesis
        using Cons.IH [of r1 True] end1 on1 keep t Cons.prems(1-4) by simp
    qed
  qed
qed auto

section \<open>Taking back and giving back\<close>

lemma reclaim_takes:
  assumes "distinct js" and "set js \<subseteq> set cpus" and "pool cpus r < 2 ^ 63" and "want \<noteq> 0" and "unat want < 2 ^ 63"
    and "unat want \<le> (\<Sum>i \<in> set js \<inter> online cpus r - {c}. unat (cpu_runtime (r i)))"
    and "reclaim_loop c js want r = (want', r')"
  shows "want' = 0 \<and> online cpus r' = online cpus r \<and> pool cpus r' + unat want = pool cpus r \<and> r' c = r c"
  using assms
proof (induction js arbitrary: want r)
  case Nil
  then show ?case by (simp add: unat_eq_0)
next
  case (Cons i js)
  show ?case
  proof (cases "i = c \<or> cpu_runtime (r i) = RUNTIME_INF")
    case True
    then have "set (i # js) \<inter> online cpus r - {c} = set js \<inter> online cpus r - {c}" by (auto simp: online_def)
    then show ?thesis using Cons.IH [of r want] Cons.prems True by simp
  next
    case False
    define I d where "I = cpu_runtime (r i)" and "d = (if sint I \<le> sint want then I else want)"
    have on: "i \<in> online cpus r" using False Cons.prems(2) by (auto simp: online_def)
    have Ib: "unat I < 2 ^ 63" using runtime_le_pool [OF on] Cons.prems(3) by (simp add: I_def)
    have "sint I \<le> sint want \<longleftrightarrow> unat I \<le> unat want"
      by (simp only: sint_small [OF Ib] sint_small [OF Cons.prems(5)] of_nat_le_iff)
    then have d: "unat d = min (unat I) (unat want)" by (simp add: d_def min_def)
    then have wd: "unat (want - d) = unat want - unat d" "unat (I - d) = unat I - unat d" by (simp_all add: unat_sub word_le_nat_alt)
    define r1 where "r1 = r(i := (r i)\<lparr>cpu_runtime := I - d\<rparr>)"
    have "0 < sint want" using Cons.prems(4,5) by (simp add: sint_pos_u64)
    then have step: "reclaim_loop c (i # js) want r = (if want - d = 0 then (0, r1) else reclaim_loop c js (want - d) r1)"
      using False by (simp add: d_def I_def r1_def Let_def)
    have b: "unat (I - d) < 2 ^ 63" using wd Ib by simp
    note up = set_runtime_online [OF on b, folded r1_def I_def]
    have p1: "pool cpus r1 + unat d = pool cpus r" using up(2) wd(2) d by simp
    have c1: "r1 c = r c" using False by (simp add: r1_def)
    show ?thesis
    proof (cases "want = d")
      case True
      then show ?thesis using Cons.prems(7) step up(1) p1 c1 by simp
    next
      case w: False
      then have less: "unat d = unat I" using d by (auto simp: word_unat_eq_iff min_def split: if_splits)
      have "set (i # js) \<inter> online cpus r - {c} = insert i (set js \<inter> online cpus r - {c})" using on False by auto
      then have "(\<Sum>j \<in> set (i # js) \<inter> online cpus r - {c}. unat (cpu_runtime (r j))) =
          unat I + (\<Sum>j \<in> set js \<inter> online cpus r - {c}. unat (cpu_runtime (r j)))"
        using Cons.prems(1) by (simp add: I_def)
      moreover have "(\<Sum>j \<in> set js \<inter> online cpus r - {c}. unat (cpu_runtime (r1 j))) =
          (\<Sum>j \<in> set js \<inter> online cpus r - {c}. unat (cpu_runtime (r j)))"
        using Cons.prems(1) by (intro sum.cong) (auto simp: r1_def)
      ultimately have "unat (want - d) \<le> (\<Sum>j \<in> set js \<inter> online cpus r1 - {c}. unat (cpu_runtime (r1 j)))"
        unfolding up(1) using Cons.prems(6) less wd(1) by simp
      moreover have "reclaim_loop c js (want - d) r1 = (want', r')" using Cons.prems(7) step w by simp
      ultimately have *: "want' = 0 \<and> online cpus r' = online cpus r1 \<and> pool cpus r' + unat (want - d) = pool cpus r1 \<and> r' c = r1 c"
        using Cons.IH [of r1 "want - d"] Cons.prems(1-5) p1 wd(1) w by simp
      moreover have "unat want - unat d + unat d = unat want" using d by simp
      moreover have "pool cpus r' + unat (want - d) = pool cpus r1" using * by blast
      ultimately have "pool cpus r' + unat want = pool cpus r" using p1 wd(1) by linarith
      then show ?thesis using * up(1) c1 by simp
    qed
  qed
qed

lemma reclaim_gives:
  assumes "set js \<inter> online cpus r - {c} \<noteq> {}" and "want \<noteq> 0" and "\<not> 0 < sint want" and "pool cpus r + unat (- want) < 2 ^ 63"
    and "set js \<subseteq> set cpus" and "reclaim_loop c js want r = (want', r')"
  shows "want' = 0 \<and> online cpus r' = online cpus r \<and> pool cpus r' = pool cpus r + unat (- want) \<and> r' c = r c"
  using assms
proof (induction js)
  case (Cons i js)
  show ?case
  proof (cases "i = c \<or> i \<notin> online cpus r")
    case True
    then have "set (i # js) \<inter> online cpus r - {c} = set js \<inter> online cpus r - {c}" by auto
    moreover have "reclaim_loop c (i # js) want r = reclaim_loop c js want r"
      using True Cons.prems(5) by (auto simp: online_def)
    ultimately show ?thesis using Cons.IH Cons.prems by simp
  next
    case False
    then have on: "i \<in> online cpus r" "i \<noteq> c" and inf: "cpu_runtime (r i) \<noteq> RUNTIME_INF" by (auto simp: online_def)
    have sum: "unat (cpu_runtime (r i)) + unat (- want) < 2 ^ 63" using runtime_le_pool [OF on(1)] Cons.prems(4) by simp
    then have u: "unat (cpu_runtime (r i) - want) = unat (cpu_runtime (r i)) + unat (- want)"
      unfolding diff_conv_add_uminus by (intro unat_add_lem [THEN iffD1]) simp
    define r0 where "r0 = r(i := (r i)\<lparr>cpu_runtime := cpu_runtime (r i) - want\<rparr>)"
    have eq: "want' = 0" "r' = r0" using Cons.prems(3,6) on(2) inf by (simp_all add: r0_def)
    have "unat (cpu_runtime (r i) - want) < 2 ^ 63" using u sum by simp
    from set_runtime_online [OF on(1) this, folded r0_def] show ?thesis using u on(2) by (simp add: eq) (simp add: r0_def)
  qed
qed simp

section \<open>Offline and online\<close>

text \<open>
  What a group holds: either its run time is not limited and nothing is lent, or the processors
  that are online hold its run time once for each of them, and \<open>l\<close> besides.
\<close>

definition conserved :: "nat list \<Rightarrow> u64 \<Rightarrow> int \<Rightarrow> (nat \<Rightarrow> cpu_rt) \<Rightarrow> bool" where
  "conserved cpus B l r \<longleftrightarrow>
     (if B = RUNTIME_INF then online cpus r = {}
      else int (pool cpus r) = int (card (online cpus r)) * int (unat B) + l)"

lemma set_inf_online:
  "online cpus (r(c := (r c)\<lparr>cpu_runtime := RUNTIME_INF\<rparr>)) = online cpus r - {c}"
  "c \<in> online cpus r \<Longrightarrow> pool cpus (r(c := (r c)\<lparr>cpu_runtime := RUNTIME_INF\<rparr>)) + unat (cpu_runtime (r c)) = pool cpus r"
  "c \<notin> online cpus r \<Longrightarrow> pool cpus (r(c := (r c)\<lparr>cpu_runtime := RUNTIME_INF\<rparr>)) = pool cpus r"
proof -
  let ?r = "r(c := (r c)\<lparr>cpu_runtime := RUNTIME_INF\<rparr>)"
  show on: "online cpus ?r = online cpus r - {c}" by (auto simp: online_def)
  have "(\<Sum>j \<in> online cpus r - {c}. unat (cpu_runtime (?r j))) = (\<Sum>j \<in> online cpus r - {c}. unat (cpu_runtime (r j)))"
    by (rule sum.cong) auto
  then show "c \<in> online cpus r \<Longrightarrow> pool cpus ?r + unat (cpu_runtime (r c)) = pool cpus r"
    "c \<notin> online cpus r \<Longrightarrow> pool cpus ?r = pool cpus r"
    unfolding pool_def on using sum.remove [OF finite_online, of c cpus r "\<lambda>j. unat (cpu_runtime (r j))"] by auto
qed

lemma others_pool:
  "c \<in> online cpus r \<Longrightarrow> pool cpus r = unat (cpu_runtime (r c)) + (\<Sum>i \<in> online cpus r - {c}. unat (cpu_runtime (r i)))"
  unfolding pool_def by (simp add: sum.remove)

text \<open>
  The processors can settle when the others hold what \<open>c\<close> has lent, or, where \<open>c\<close> has borrowed,
  when there is another that takes it.
\<close>

lemma reclaim_settles:
  assumes "distinct cpus" and c: "c \<in> online cpus r" and small: "pool cpus r < 2 ^ 62"
    and lent: "unat (cpu_runtime (r c)) < unat B \<Longrightarrow> unat B \<le> pool cpus r"
    and borrowed: "unat B < unat (cpu_runtime (r c)) \<Longrightarrow> online cpus r \<noteq> {c}"
    and ne: "cpu_runtime (r c) \<noteq> B" and run: "reclaim_loop c cpus (B - cpu_runtime (r c)) r = (want, r1)"
  shows "want = 0 \<and> online cpus r1 = online cpus r \<and> r1 c = r c \<and> pool cpus r1 + unat B = pool cpus r + unat (cpu_runtime (r c))"
proof -
  define R where "R = cpu_runtime (r c)"
  have sub: "set cpus \<inter> online cpus r - {c} = online cpus r - {c}" by (auto simp: online_def)
  note others = others_pool [OF c, folded R_def]
  have w0: "B - R \<noteq> 0" using ne by (simp add: R_def)
  show ?thesis
  proof (cases "unat R < unat B")
    case True
    then have u: "unat (B - R) = unat B - unat R" by (simp add: unat_sub word_le_nat_alt)
    have B: "unat B \<le> pool cpus r" using lent True by (simp add: R_def)
    have "unat (B - R) \<le> (\<Sum>i \<in> set cpus \<inter> online cpus r - {c}. unat (cpu_runtime (r i)))"
      unfolding sub using u B others by simp
    moreover have "unat (B - R) < 2 ^ 63" using u B small by simp
    ultimately have *: "want = 0 \<and> online cpus r1 = online cpus r \<and> pool cpus r1 + unat (B - R) = pool cpus r \<and> r1 c = r c"
      using reclaim_takes [OF assms(1) subset_refl _ w0 _ _ run [folded R_def]] small by simp
    moreover have "unat (B - R) + unat R = unat B" using u True by simp
    moreover have "pool cpus r1 + unat (B - R) = pool cpus r" using * by blast
    ultimately have "pool cpus r1 + unat B = pool cpus r + unat R" by linarith
    then show ?thesis using * by (simp add: R_def)
  next
    case False
    then have lt: "unat B < unat R" using ne by (auto simp: R_def word_unat_eq_iff)
    then have u: "unat (- (B - R)) = unat R - unat B" by (simp add: unat_sub word_le_nat_alt)
    have Rb: "unat R \<le> pool cpus r" using others by simp
    have "unat (B - R) = 2 ^ 64 + unat B - unat R" using lt by (simp add: unat_sub_if')
    then have "\<not> 0 < sint (B - R)" using Rb small by (auto simp: sint_pos_u64)
    moreover have "set cpus \<inter> online cpus r - {c} \<noteq> {}" unfolding sub using borrowed lt c by (auto simp: R_def)
    moreover have "pool cpus r + unat (- (B - R)) < 2 ^ 63" using u Rb small by simp
    ultimately show ?thesis
      using reclaim_gives [OF _ w0 _ _ subset_refl run [folded R_def]] u lt by (simp add: R_def)
  qed
qed

text \<open>Where they cannot, the kernel stops at \<^verbatim>\<open>BUG_ON(want)\<close>.\<close>

lemma reclaim_short:
  assumes "distinct js" and "unat want < 2 ^ 63" and "want \<noteq> 0"
    and "(\<Sum>i \<in> {i \<in> set js. i \<noteq> c \<and> cpu_runtime (r i) \<noteq> RUNTIME_INF}. unat (cpu_runtime (r i))) < unat want"
  shows "fst (reclaim_loop c js want r) \<noteq> 0"
  using assms
proof (induction js arbitrary: want r)
  case (Cons i js)
  let ?on = "\<lambda>js r. {i \<in> set js. i \<noteq> c \<and> cpu_runtime (r i) \<noteq> RUNTIME_INF}"
  show ?case
  proof (cases "i = c \<or> cpu_runtime (r i) = RUNTIME_INF")
    case True
    then have "?on (i # js) r = ?on js r" by auto
    then show ?thesis using Cons True by simp
  next
    case False
    define I where "I = cpu_runtime (r i)"
    have "?on (i # js) r = insert i (?on js r)" using False by auto
    then have sum: "unat I + (\<Sum>j \<in> ?on js r. unat (cpu_runtime (r j))) < unat want"
      using Cons.prems(1,4) by (simp add: I_def)
    then have I: "unat I < unat want" "unat I < 2 ^ 63" using Cons.prems(2) by simp_all
    then have le: "sint I \<le> sint want"
      by (simp only: sint_small [OF I(2)] sint_small [OF Cons.prems(2)] of_nat_le_iff less_imp_le)
    have pos: "0 < sint want" using Cons.prems(2,3) by (simp add: sint_pos_u64)
    have w: "unat (want - I) = unat want - unat I" using I by (simp add: unat_sub word_le_nat_alt)
    then have ne: "want - I \<noteq> 0" using I(1) by auto
    let ?r = "r(i := (r i)\<lparr>cpu_runtime := 0\<rparr>)"
    have "?on js ?r = ?on js r" using Cons.prems(1) by auto
    moreover have "(\<Sum>j \<in> ?on js r. unat (cpu_runtime (?r j))) = (\<Sum>j \<in> ?on js r. unat (cpu_runtime (r j)))"
      using Cons.prems(1) by (intro sum.cong) auto
    ultimately have "(\<Sum>j \<in> ?on js ?r. unat (cpu_runtime (?r j))) < unat (want - I)" using w sum by (simp del: fun_upd_apply)
    moreover have "unat (want - I) < 2 ^ 63" using w Cons.prems(2) by simp
    ultimately have "fst (reclaim_loop c js (want - I) ?r) \<noteq> 0"
      using Cons.IH [of "want - I" ?r] Cons.prems(1) ne by (simp del: fun_upd_apply)
    then show ?thesis using False ne le pos by (simp add: I_def Let_def)
  qed
qed simp

lemma reclaim_nobody:
  "online cpus r = {c} \<Longrightarrow> set js \<subseteq> set cpus \<Longrightarrow> reclaim_loop c js want r = (want, r)"
  by (induction js) (auto simp: online_def)

lemma disable_runtime_rq_settles:
  assumes "distinct cpus" and "c \<in> set cpus" and con: "conserved cpus B l r" and small: "pool cpus r < 2 ^ 62"
    and B: "B \<noteq> RUNTIME_INF \<Longrightarrow> unat B < 2 ^ 62" and dis: "disable_runtime_rq c cpus B r = (bug, r')"
  shows "bug \<Longrightarrow> l \<noteq> 0" "\<not> bug \<Longrightarrow> conserved cpus B l r' \<and> pool cpus r' \<le> pool cpus r"
proof -
  define R where "R = cpu_runtime (r c)"
  obtain want r1 where w: "(want, r1) = (if R = RUNTIME_INF \<or> R = B then (0, r) else reclaim_loop c cpus (B - R) r)"
    by (metis surj_pair)
  have r': "bug = (want \<noteq> 0)" "r' = r1(c := (r1 c)\<lparr>cpu_runtime := RUNTIME_INF\<rparr>)"
    using dis unfolding disable_runtime_rq_def R_def [symmetric] w [symmetric] by simp_all
  have "(bug \<longrightarrow> l \<noteq> 0) \<and> (\<not> bug \<longrightarrow> conserved cpus B l r' \<and> pool cpus r' \<le> pool cpus r)"
  proof (cases "R = RUNTIME_INF")
    case True
    then have r1: "want = 0" "r1 = r" "c \<notin> online cpus r" using w by (auto simp: online_def R_def)
    then have "r' = r" using True by (simp add: r' R_def fun_upd_idem)
    then show ?thesis using con r1(1) True by (simp add: r'(1) R_def)
  next
    case False
    then have c: "c \<in> online cpus r" using assms(2) by (simp add: online_def R_def)
    then have fin: "B \<noteq> RUNTIME_INF" using con by (auto simp: conserved_def)
    have con': "int (pool cpus r) = int (card (online cpus r)) * int (unat B) + l" using con fin by (simp add: conserved_def)
    have card: "0 < card (online cpus r)" using c card_gt_0_iff finite_online by blast
    note others = others_pool [OF c, folded R_def]
    show ?thesis
    proof (cases "(unat R < unat B \<longrightarrow> unat B \<le> pool cpus r) \<and> (unat B < unat R \<longrightarrow> online cpus r \<noteq> {c})")
      case True
      have r1: "want = 0 \<and> online cpus r1 = online cpus r \<and> r1 c = r c \<and> pool cpus r1 + unat B = pool cpus r + unat R"
        using w False reclaim_settles [OF assms(1) c small, of B want r1] True by (auto simp: R_def split: if_splits)
      have r2: "pool cpus r' + unat R = pool cpus r1" "online cpus r' = online cpus r - {c}"
        using r1 set_inf_online(1,2) [where cpus = cpus and r = r1 and c = c, folded r'(2)] c by (simp_all add: R_def)
      then have "card (online cpus r) = Suc (card (online cpus r'))" using c card_Suc_Diff1 [OF finite_online c] by simp
      moreover have "int (pool cpus r') + int (unat B) = int (pool cpus r)" using r1 r2 by linarith
      ultimately have "int (pool cpus r') = int (card (online cpus r')) * int (unat B) + l"
        using con' by (simp add: algebra_simps)
      moreover have "pool cpus r' \<le> pool cpus r" using r1 r2(1) by linarith
      ultimately show ?thesis using fin r1 by (simp add: conserved_def r'(1))
    next
      case stuck: False
      have ne: "R \<noteq> B" using stuck by auto
      then have run: "reclaim_loop c cpus (B - R) r = (want, r1)" using w False by simp
      have "want \<noteq> 0 \<and> l \<noteq> 0"
      proof (cases "unat R < unat B")
        case True
        then have less: "pool cpus r < unat B" using stuck by simp
        have u: "unat (B - R) = unat B - unat R" using True by (simp add: unat_sub word_le_nat_alt)
        have "{i \<in> set cpus. i \<noteq> c \<and> cpu_runtime (r i) \<noteq> RUNTIME_INF} = online cpus r - {c}" by (auto simp: online_def)
        then have "fst (reclaim_loop c cpus (B - R) r) \<noteq> 0"
          using reclaim_short [OF assms(1), of "B - R" r c] u others less B [OF fin] ne by simp
        moreover have "int (unat B) \<le> int (card (online cpus r)) * int (unat B)"
          using mult_right_mono [of 1 "int (card (online cpus r))" "int (unat B)"] card by simp
        moreover have "int (pool cpus r) < int (unat B)" using less by (simp only: of_nat_less_iff)
        ultimately have "l \<noteq> 0" using con' by linarith
        then show ?thesis using run \<open>fst _ \<noteq> 0\<close> by simp
      next
        case False
        then have on: "online cpus r = {c}" "unat B < unat R" using stuck by auto
        then have "want = B - R" using run reclaim_nobody [OF on(1) subset_refl] by simp
        moreover have "int (unat B) < int (unat R)" using on(2) by (simp only: of_nat_less_iff)
        ultimately show ?thesis using ne con' others on by simp
      qed
      then show ?thesis by (simp add: r'(1))
    qed
  qed
  then show "bug \<Longrightarrow> l \<noteq> 0" "\<not> bug \<Longrightarrow> conserved cpus B l r' \<and> pool cpus r' \<le> pool cpus r" by blast+
qed

text \<open>
  A queue that is enabled holds the run time of the group afterwards, whatever it held before: where
  it held some, the difference is created or destroyed.
\<close>

abbreviation (input) enable_leak :: "u64 \<Rightarrow> cpu_rt \<Rightarrow> int" where
  "enable_leak B x \<equiv> if cpu_runtime x = RUNTIME_INF then 0 else int (unat B) - int (unat (cpu_runtime x))"

lemma enable_leaks:
  assumes "c \<in> set cpus" and con: "conserved cpus B l r" and x: "cpu_runtime x = B"
  shows "conserved cpus B (l + enable_leak B (r c)) (r(c := x))"
    "B \<noteq> RUNTIME_INF \<Longrightarrow> pool cpus (r(c := x)) \<le> pool cpus r + unat B"
proof -
  have rest: "(\<Sum>j \<in> A - {c}. unat (cpu_runtime ((r(c := x)) j))) = (\<Sum>j \<in> A - {c}. unat (cpu_runtime (r j)))" for A
    by (rule sum.cong) auto
  have *: "online cpus (r(c := x)) = insert c (online cpus r)"
    "pool cpus (r(c := x)) + (if c \<in> online cpus r then unat (cpu_runtime (r c)) else 0) = pool cpus r + unat B"
    if "B \<noteq> RUNTIME_INF"
  proof -
    show on: "online cpus (r(c := x)) = insert c (online cpus r)" using assms(1) x that by (auto simp: online_def)
    have "pool cpus (r(c := x)) = unat B + (\<Sum>j \<in> online cpus r - {c}. unat (cpu_runtime (r j)))"
      unfolding pool_def on by (subst sum.insert_remove) (simp_all only: finite_online rest, simp add: x)
    then show "pool cpus (r(c := x)) + (if c \<in> online cpus r then unat (cpu_runtime (r c)) else 0) = pool cpus r + unat B"
      using others_pool [of c cpus r] by (simp add: pool_def)
  qed
  show "B \<noteq> RUNTIME_INF \<Longrightarrow> pool cpus (r(c := x)) \<le> pool cpus r + unat B" using *(2) by (simp split: if_splits)
  show "conserved cpus B (l + enable_leak B (r c)) (r(c := x))"
  proof (cases "B = RUNTIME_INF")
    case True
    then show ?thesis using con x by (auto simp: conserved_def online_def)
  next
    case False
    have con': "int (pool cpus r) = int (card (online cpus r)) * int (unat B) + l" using con False by (simp add: conserved_def)
    have in_on: "c \<in> online cpus r \<longleftrightarrow> cpu_runtime (r c) \<noteq> RUNTIME_INF" using assms(1) by (simp add: online_def)
    have "int (pool cpus (r(c := x))) + (if c \<in> online cpus r then int (unat (cpu_runtime (r c))) else 0) = int (pool cpus r) + int (unat B)"
      using arg_cong [OF *(2) [OF False], of int] by (simp split: if_splits)
    moreover have "int (card (insert c (online cpus r))) = int (card (online cpus r)) + (if c \<in> online cpus r then 0 else 1)"
      by (simp add: card_insert_if)
    ultimately show ?thesis using con' False *(1) [OF False] in_on
      by (cases "c \<in> online cpus r") (simp_all add: conserved_def algebra_simps)
  qed
qed

lemma balance_conserved:
  assumes "c \<in> online cpus r" and con: "conserved cpus B l r" and small: "pool cpus r < 2 ^ 62"
    and "\<And>i. unat (cpu_time (r i)) < 2 ^ 63" and "balance_loop c period n cpus False r = (got, r')"
  shows "conserved cpus B l r' \<and> pool cpus r' = pool cpus r \<and> (\<forall>i. cpu_time (r' i) = cpu_time (r i))"
proof -
  have "B \<noteq> RUNTIME_INF" using assms(1,2) by (auto simp: conserved_def)
  moreover have "pool cpus r < 2 ^ 63" using small by simp
  note balance_loop_pool [OF assms(1) subset_refl this assms(4,5)]
  ultimately show ?thesis using con by (simp add: conserved_def)
qed

section \<open>Every group of a root domain\<close>

text \<open>
  A history kept beside the state: what was created (or destroyed, when it is negative) for a group
  since its bandwidth was set, and how often a processor was enabled. The code has no such counters.
\<close>

record smp_hist =
  leaked :: "tgid \<Rightarrow> int"
  enables :: nat

definition group_conserved :: "nat \<Rightarrow> smp_rt \<Rightarrow> smp_hist \<Rightarrow> tgid \<Rightarrow> bool" where
  "group_conserved M s h g \<longleftrightarrow> conserved (span s) (bw_rt_runtime (bandwidth_of s g)) (leaked h g) (rt_rqs_of s g) \<and>
     (bw_rt_runtime (bandwidth_of s g) \<noteq> RUNTIME_INF \<longrightarrow> unat (bw_rt_runtime (bandwidth_of s g)) \<le> M) \<and>
     pool (span s) (rt_rqs_of s g) \<le> (length (span s) + enables h) * M \<and>
     (\<forall>i. unat (cpu_time (rt_rqs_of s g i)) < 2 ^ 63)"

definition smp_inv :: "nat \<Rightarrow> smp_rt \<Rightarrow> smp_hist \<Rightarrow> bool" where
  "smp_inv M s h \<longleftrightarrow> distinct (span s) \<and> distinct (groups s) \<and> scheduler_running s \<and>
     (if smp_bug s then \<exists>g \<in> set (groups s). leaked h g \<noteq> 0 else \<forall>g \<in> set (groups s). group_conserved M s h g)"

definition enabled :: "nat \<Rightarrow> smp_rt \<Rightarrow> smp_hist \<Rightarrow> smp_hist" where
  "enabled c s h =
     \<lparr>leaked = (\<lambda>g. leaked h g +
        (if scheduler_running s \<and> g \<in> set (groups s) then enable_leak (bw_rt_runtime (bandwidth_of s g)) (rt_rqs_of s g c) else 0)),
      enables = Suc (enables h)\<rparr>"

text \<open>
  The steps of a root domain: tasks run and the period timer replenishes, which changes times and
  throttling only; a processor borrows; one goes offline; one is enabled, whether it was offline or
  not; the bandwidth of a group is set, with all its run queues. \<open>M\<close> is the largest run time that a
  group is ever given. After \<^verbatim>\<open>BUG_ON(want)\<close> nothing runs.
\<close>

inductive smp_step :: "nat \<Rightarrow> smp_rt \<times> smp_hist \<Rightarrow> smp_rt \<times> smp_hist \<Rightarrow> bool" for M where
  run: "\<not> smp_bug s \<Longrightarrow> unat t < 2 ^ 63 \<Longrightarrow>
     smp_step M (s, h) (upd_rqs g ((rt_rqs_of s g)(c := (rt_rqs_of s g c)\<lparr>cpu_time := t, cpu_throttled := b\<rparr>)) s, h)"
| borrow: "\<not> smp_bug s \<Longrightarrow> c \<in> set (span s) \<Longrightarrow> g \<in> set (groups s) \<Longrightarrow>
     smp_step M (s, h) (snd (balance_runtime share g c s), h)"
| offline: "\<not> smp_bug s \<Longrightarrow> c \<in> set (span s) \<Longrightarrow> smp_step M (s, h) (disable_runtime c s, h)"
| online: "\<not> smp_bug s \<Longrightarrow> c \<in> set (span s) \<Longrightarrow> smp_step M (s, h) (enable_runtime c s, enabled c s h)"
| bandwidth: "\<not> smp_bug s \<Longrightarrow> bw_rt_runtime bw = RUNTIME_INF \<or> unat (bw_rt_runtime bw) \<le> M \<Longrightarrow>
     smp_step M (s, h) (upd_rqs g (\<lambda>i. (rt_rqs_of s g i)\<lparr>cpu_runtime := bw_rt_runtime bw\<rparr>)
       (s\<lparr>bandwidth_of := (bandwidth_of s)(g := bw)\<rparr>), h\<lparr>leaked := (leaked h)(g := 0)\<rparr>)"

text \<open>A pass over the groups settles each by itself.\<close>

lemma fold_disable:
  "distinct gs \<Longrightarrow> fold (disable_runtime_group c) gs s =
     s\<lparr>rt_rqs_of := (\<lambda>g. if g \<in> set gs then snd (disable_runtime_rq c (span s) (bw_rt_runtime (bandwidth_of s g)) (rt_rqs_of s g)) else rt_rqs_of s g),
       smp_bug := smp_bug s \<or> (\<exists>g \<in> set gs. fst (disable_runtime_rq c (span s) (bw_rt_runtime (bandwidth_of s g)) (rt_rqs_of s g)))\<rparr>"
proof (induction gs arbitrary: s)
  case (Cons g gs)
  let ?d = "\<lambda>h. disable_runtime_rq c (span s) (bw_rt_runtime (bandwidth_of s h)) (rt_rqs_of s h)"
  have *: "disable_runtime_group c g s = s\<lparr>rt_rqs_of := (rt_rqs_of s)(g := snd (?d g)), smp_bug := smp_bug s \<or> fst (?d g)\<rparr>"
    by (simp add: disable_runtime_group_def split_def Let_def)
  have ne: "h \<noteq> g" if "h \<in> set gs" for h using Cons.prems that by auto
  have "(\<exists>h \<in> set gs. fst (disable_runtime_rq c (span s) (bw_rt_runtime (bandwidth_of s h)) (((rt_rqs_of s)(g := snd (?d g))) h))) =
      (\<exists>h \<in> set gs. fst (?d h))"
    using ne by (intro bex_cong) auto
  then show ?case using Cons ne by (simp add: * fun_eq_iff disj_assoc del: fun_upd_apply) (auto simp: fun_eq_iff)
qed simp

lemma fold_enable:
  "fold (enable_runtime_group c) gs s =
     s\<lparr>rt_rqs_of := (\<lambda>g. if g \<in> set gs then (rt_rqs_of s g)(c :=
       \<lparr>cpu_runtime = bw_rt_runtime (bandwidth_of s g), cpu_time = 0, cpu_throttled = False\<rparr>) else rt_rqs_of s g)\<rparr>"
  by (induction gs arbitrary: s) (auto simp: enable_runtime_group_def fun_eq_iff)

lemma reclaim_loop_time: "reclaim_loop c js want r = (want', r') \<Longrightarrow> cpu_time (r' i) = cpu_time (r i)"
  by (induction c js want r rule: reclaim_loop.induct) (auto simp: Let_def split: if_splits)

lemma disable_runtime_rq_time: "cpu_time (snd (disable_runtime_rq c cpus B r) i) = cpu_time (r i)"
  by (auto simp: disable_runtime_rq_def Let_def reclaim_loop_time split: prod.splits)

lemma smp_run_inv:
  assumes "smp_inv M s h" and "\<not> smp_bug s" and "unat t < 2 ^ 63"
  shows "smp_inv M (upd_rqs g ((rt_rqs_of s g)(c := (rt_rqs_of s g c)\<lparr>cpu_time := t, cpu_throttled := b\<rparr>)) s) h"
proof -
  let ?r = "(rt_rqs_of s g)(c := (rt_rqs_of s g c)\<lparr>cpu_time := t, cpu_throttled := b\<rparr>)"
  have on: "online cpus ?r = online cpus (rt_rqs_of s g)" for cpus by (auto simp: online_def)
  have p: "pool cpus ?r = pool cpus (rt_rqs_of s g)" for cpus unfolding pool_def on by (rule sum.cong) auto
  then have "conserved cpus B l ?r = conserved cpus B l (rt_rqs_of s g)" for cpus B l by (simp only: conserved_def on)
  then show ?thesis using assms p by (auto simp: smp_inv_def group_conserved_def)
qed

lemma balance_runtime_inv:
  assumes inv: "smp_inv M s h" and nb: "\<not> smp_bug s" and small: "(length (span s) + enables h) * M < 2 ^ 62"
    and "c \<in> set (span s)" and g: "g \<in> set (groups s)"
  shows "smp_inv M (snd (balance_runtime share g c s)) h"
proof (cases "share \<and> cpu_time (rt_rqs_of s g c) > cpu_runtime (rt_rqs_of s g c)")
  case True
  let ?r = "rt_rqs_of s g"
  have gc: "group_conserved M s h g" using inv nb g by (auto simp: smp_inv_def)
  then have con: "conserved (span s) (bw_rt_runtime (bandwidth_of s g)) (leaked h g) ?r" "pool (span s) ?r < 2 ^ 62"
    "unat (cpu_time (?r i)) < 2 ^ 63" for i
    using small by (auto simp: group_conserved_def)
  obtain got r' where run: "balance_loop c (rt_period (bandwidth_of s g)) (of_nat (length (span s))) (span s) False ?r = (got, r')"
    by (metis surj_pair)
  have "unat (cpu_runtime (?r c)) < unat (cpu_time (?r c))" using True by (simp add: word_less_nat_alt)
  then have "unat (cpu_runtime (?r c)) < 2 ^ 63" using con(3) less_trans by blast
  then have "c \<in> online (span s) ?r" using small_not_inf assms(4) by (simp add: online_def)
  from balance_conserved [OF this con run] gc have "group_conserved M (upd_rqs g r' s) h g"
    by (simp add: group_conserved_def)
  then have "smp_inv M (upd_rqs g r' s) h" using inv nb by (simp add: smp_inv_def group_conserved_def)
  moreover have "snd (balance_runtime share g c s) = upd_rqs g r' s"
    using True run by (simp add: balance_runtime_def do_balance_runtime_def)
  ultimately show ?thesis by simp
qed (use assms(1) in \<open>auto simp: balance_runtime_def\<close>)

lemma disable_runtime_inv:
  assumes inv: "smp_inv M s h" and nb: "\<not> smp_bug s" and small: "(length (span s) + enables h) * M < 2 ^ 62"
    and c: "c \<in> set (span s)"
  shows "smp_inv M (disable_runtime c s) h"
proof -
  let ?d = "\<lambda>g. disable_runtime_rq c (span s) (bw_rt_runtime (bandwidth_of s g)) (rt_rqs_of s g)"
  have eq: "disable_runtime c s = s\<lparr>rt_rqs_of := (\<lambda>g. if g \<in> set (groups s) then snd (?d g) else rt_rqs_of s g),
      smp_bug := smp_bug s \<or> (\<exists>g \<in> set (groups s). fst (?d g))\<rparr>"
    using inv fold_disable [of "groups s" c s] by (simp add: disable_runtime_def smp_inv_def)
  have each: "(fst (?d g) \<longrightarrow> leaked h g \<noteq> 0) \<and> (\<not> fst (?d g) \<longrightarrow> group_conserved M (disable_runtime c s) h g)"
    if g: "g \<in> set (groups s)" for g
  proof -
    have gc: "group_conserved M s h g" using inv nb g by (auto simp: smp_inv_def)
    then have con: "conserved (span s) (bw_rt_runtime (bandwidth_of s g)) (leaked h g) (rt_rqs_of s g)"
      "pool (span s) (rt_rqs_of s g) < 2 ^ 62" "distinct (span s)"
      using small inv by (auto simp: group_conserved_def smp_inv_def)
    have "1 * M \<le> (length (span s) + enables h) * M" using c by (intro mult_right_mono) (cases "span s"; simp)+
    then have M: "M < 2 ^ 62" using small by (metis le_less_trans mult_1)
    have "unat (bw_rt_runtime (bandwidth_of s g)) < 2 ^ 62" if "bw_rt_runtime (bandwidth_of s g) \<noteq> RUNTIME_INF"
      using gc M that by (auto simp: group_conserved_def)
    note settles = disable_runtime_rq_settles [OF con(3) c con(1,2) this surjective_pairing]
    show ?thesis
    proof (intro conjI impI)
      show "leaked h g \<noteq> 0" if "fst (?d g)" using settles(1) that by blast
      show "group_conserved M (disable_runtime c s) h g" if "\<not> fst (?d g)"
        using settles(2) [OF _ that] gc g by (auto simp: group_conserved_def eq disable_runtime_rq_time)
    qed
  qed
  have fields: "span (disable_runtime c s) = span s" "groups (disable_runtime c s) = groups s"
    "smp_bug (disable_runtime c s) = (\<exists>g \<in> set (groups s). fst (?d g))" "scheduler_running (disable_runtime c s)"
    using nb inv by (simp_all add: eq smp_inv_def)
  show ?thesis unfolding smp_inv_def fields using each inv fields(4) by (auto simp: smp_inv_def)
qed

lemma enable_runtime_inv:
  assumes inv: "smp_inv M s h" and nb: "\<not> smp_bug s" and c: "c \<in> set (span s)"
  shows "smp_inv M (enable_runtime c s) (enabled c s h)"
proof -
  have run: "scheduler_running s" using inv by (simp add: smp_inv_def)
  have "group_conserved M (enable_runtime c s) (enabled c s h) g" if g: "g \<in> set (groups s)" for g
  proof -
    let ?B = "bw_rt_runtime (bandwidth_of s g)" and ?r = "rt_rqs_of s g"
    let ?x = "\<lparr>cpu_runtime = ?B, cpu_time = 0, cpu_throttled = False\<rparr>"
    have gc: "conserved (span s) ?B (leaked h g) ?r" "?B \<noteq> RUNTIME_INF \<Longrightarrow> unat ?B \<le> M"
      "pool (span s) ?r \<le> (length (span s) + enables h) * M" "\<And>i. unat (cpu_time (?r i)) < 2 ^ 63"
      using inv nb g by (auto simp: smp_inv_def group_conserved_def)
    note en = enable_leaks [OF c gc(1), of ?x, simplified]
    have "pool (span s) (?r(c := ?x)) \<le> (length (span s) + Suc (enables h)) * M"
    proof (cases "?B = RUNTIME_INF")
      case True
      then have "pool (span s) (?r(c := ?x)) = 0" using en(1) by (simp add: conserved_def pool_def)
      then show ?thesis by simp
    next
      case False
      then show ?thesis using en(2) gc(2,3) by simp
    qed
    then show ?thesis using en(1) gc(2,4) g run
      by (simp add: group_conserved_def enable_runtime_def fold_enable enabled_def)
  qed
  moreover have "span (enable_runtime c s) = span s" "groups (enable_runtime c s) = groups s" "\<not> smp_bug (enable_runtime c s)"
    using nb run by (simp_all add: enable_runtime_def fold_enable)
  ultimately show ?thesis using inv run by (simp add: smp_inv_def) (simp add: enable_runtime_def fold_enable)
qed

lemma set_bandwidth_inv:
  assumes "smp_inv M s h" and "\<not> smp_bug s" and "bw_rt_runtime bw = RUNTIME_INF \<or> unat (bw_rt_runtime bw) \<le> M"
  shows "smp_inv M (upd_rqs g (\<lambda>i. (rt_rqs_of s g i)\<lparr>cpu_runtime := bw_rt_runtime bw\<rparr>)
       (s\<lparr>bandwidth_of := (bandwidth_of s)(g := bw)\<rparr>)) (h\<lparr>leaked := (leaked h)(g := 0)\<rparr>)"
proof -
  let ?r = "\<lambda>i. (rt_rqs_of s g i)\<lparr>cpu_runtime := bw_rt_runtime bw\<rparr>"
  have on: "online (span s) ?r = (if bw_rt_runtime bw = RUNTIME_INF then {} else set (span s))" by (auto simp: online_def)
  then have con: "conserved (span s) (bw_rt_runtime bw) 0 ?r"
    by (cases "bw_rt_runtime bw = RUNTIME_INF") (simp_all add: conserved_def pool_def)
  have "card (set (span s)) \<le> length (span s) + enables h" using card_length [of "span s"] by simp
  then have "pool (span s) ?r \<le> (length (span s) + enables h) * M"
    using assms(3) unfolding pool_def on by (auto intro: mult_mono)
  then show ?thesis using assms con by (auto simp: smp_inv_def group_conserved_def)
qed

lemma disable_span: "span (disable_runtime c s) = span s" "groups (disable_runtime c s) = groups s"
proof -
  have "span (fold (disable_runtime_group c) gs s) = span s \<and> groups (fold (disable_runtime_group c) gs s) = groups s" for gs
    by (induction gs arbitrary: s) (simp_all add: disable_runtime_group_def split_def Let_def)
  then show "span (disable_runtime c s) = span s" "groups (disable_runtime c s) = groups s"
    by (simp_all add: disable_runtime_def)
qed

lemma enable_span: "span (enable_runtime c s) = span s" "groups (enable_runtime c s) = groups s"
  by (simp_all add: enable_runtime_def fold_enable)

lemma smp_step_hist: "smp_step M x x' \<Longrightarrow> span (fst x') = span (fst x) \<and> enables (snd x) \<le> enables (snd x')"
  by (induction rule: smp_step.induct)
    (auto simp: balance_runtime_def do_balance_runtime_def enable_span enabled_def disable_span split: prod.splits)

lemma smp_step_inv:
  "smp_step M x x' \<Longrightarrow> smp_inv M (fst x) (snd x) \<Longrightarrow> (length (span (fst x)) + enables (snd x)) * M < 2 ^ 62 \<Longrightarrow>
     smp_inv M (fst x') (snd x')"
  by (induction rule: smp_step.induct)
    (simp_all only: fst_conv snd_conv not_False_eq_True smp_run_inv balance_runtime_inv disable_runtime_inv enable_runtime_inv set_bandwidth_inv)

lemma lend_steps_inv:
  assumes "(smp_step M)\<^sup>*\<^sup>* x x'" and "smp_inv M (fst x) (snd x)" and "(length (span (fst x')) + enables (snd x')) * M < 2 ^ 62"
  shows "smp_inv M (fst x') (snd x')"
  using assms(1,3)
proof (induction rule: rtranclp_induct)
  case (step y z)
  then have "span (fst z) = span (fst y)" "enables (snd y) \<le> enables (snd z)" using smp_step_hist by blast+
  then have "(length (span (fst y)) + enables (snd y)) * M \<le> (length (span (fst z)) + enables (snd z)) * M" by simp
  then have "(length (span (fst y)) + enables (snd y)) * M < 2 ^ 62" using step.prems by linarith
  then show ?case using step by (blast intro: smp_step_inv)
qed (rule assms(2))

section \<open>A domain of two processors\<close>

definition smp_demo :: smp_rt where
  "smp_demo =
     \<lparr>span = [0, 1], groups = [[]],
      bandwidth_of = (\<lambda>_. \<lparr>rt_period = 1000, bw_rt_runtime = 100, rt_period_timer_active = False\<rparr>),
      rt_rqs_of = (\<lambda>_ i. \<lparr>cpu_runtime = 100, cpu_time = (if i = 0 then 200 else 0), cpu_throttled = False\<rparr>),
      scheduler_running = True, smp_bug = False\<rparr>"

definition hist_demo :: smp_hist where
  "hist_demo = \<lparr>leaked = (\<lambda>_. 0), enables = 0\<rparr>"

lemma smp_demo_inv: "smp_inv 100 smp_demo hist_demo"
proof -
  have "online [0, 1] (rt_rqs_of smp_demo g) = {0, 1}" for g by (auto simp: online_def smp_demo_def RUNTIME_INF_def)
  then show ?thesis
    by (simp add: smp_inv_def group_conserved_def conserved_def pool_def) (simp add: smp_demo_def hist_demo_def RUNTIME_INF_def)
qed

section \<open>Enabling twice\<close>

text \<open>
  A processor that comes online is enabled twice, by \<^verbatim>\<open>rq_online_rt()\<close> and again by the
  notifier \<^verbatim>\<open>update_runtime()\<close>. When another processor borrows from it in between, the second time
  creates run time: here two processors with 100 each hold 250, and when both go offline the last
  one, which has 50 too much and nobody to give it to, stops the kernel.
\<close>

definition borrowed_demo :: smp_rt where
  "borrowed_demo = snd (balance_runtime True [] 0 smp_demo)"

definition enabled_twice :: smp_rt where
  "enabled_twice = snd (update_runtime CPU_ONLINE 1 borrowed_demo)"

lemma borrowed_demo:
  "span borrowed_demo = [0, 1]" "groups borrowed_demo = [[]]" "\<not> smp_bug borrowed_demo" "scheduler_running borrowed_demo"
  "bandwidth_of borrowed_demo = bandwidth_of smp_demo" "map (\<lambda>i. cpu_runtime (rt_rqs_of borrowed_demo [] i)) [0, 1] = [150, 50]"
  by (simp_all add: borrowed_demo_def balance_runtime_def do_balance_runtime_def smp_demo_def RUNTIME_INF_def)

lemma rt_enable_twice_leaks:
  "map (\<lambda>i. cpu_runtime (rt_rqs_of enabled_twice [] i)) (span enabled_twice) = [150, 100]"
  "smp_bug (disable_runtime 0 (disable_runtime 1 enabled_twice))"
  by (simp_all add: enabled_twice_def borrowed_demo_def smp_demo_def update_runtime_def enable_runtime_def enable_runtime_group_def balance_runtime_def
      do_balance_runtime_def RUNTIME_INF_def disable_runtime_def disable_runtime_group_def disable_runtime_rq_def)

section \<open>Properties\<close>

text \<open>
  C33. Run time moves, and where it does not the difference is known. Whatever the processors of a
  root domain borrow, whichever go offline, and whichever are enabled, also when they are online
  already, in any order: the processors that are online hold together the run time of the group
  once for each of them, plus what enabling a queue that held some run time has created or
  destroyed, which is its new run time less the one it had. \<^verbatim>\<open>__disable_runtime()\<close> reaches its
  \<^verbatim>\<open>BUG_ON(want)\<close> only when that difference is not zero for some group: as long as no processor is
  enabled twice, or nothing was borrowed in between, a processor gets back what it lent. No group
  has a run time above \<open>M\<close>, and \<open>M\<close> times the processors and the enablings is below \<open>2 ^ 62\<close>.
\<close>

theorem rt_runtime_conserved:
  assumes "(smp_step M)\<^sup>*\<^sup>* (s, h) (s', h')" and "smp_inv M s h" and "(length (span s') + enables h') * M < 2 ^ 62"
  shows "(smp_bug s' \<longrightarrow> (\<exists>g \<in> set (groups s'). leaked h' g \<noteq> 0)) \<and>
     (\<not> smp_bug s' \<longrightarrow> (\<forall>g \<in> set (groups s'). let B = bw_rt_runtime (bandwidth_of s' g); on = online (span s') (rt_rqs_of s' g) in
        if B = RUNTIME_INF then on = {}
        else (\<Sum>i \<in> on. int (unat (cpu_runtime (rt_rqs_of s' g i)))) = int (card on) * int (unat B) + leaked h' g))"
proof -
  have "smp_inv M s' h'" using lend_steps_inv [OF assms(1)] assms(2,3) by simp
  then show ?thesis
    by (auto simp: smp_inv_def group_conserved_def conserved_def pool_def Let_def split: if_splits)
qed

theorem rt_runtime_conserved_witness:
  "\<not> smp_bug (disable_runtime 1 borrowed_demo) \<and>
   (\<exists>h :: smp_hist. leaked h [] = 50 \<and> (let on = online [0, 1] (rt_rqs_of enabled_twice []) in
     (\<Sum>i \<in> on. int (unat (cpu_runtime (rt_rqs_of enabled_twice [] i)))) = int (card on) * 100 + leaked h []))"
proof -
  let ?h = "enabled 1 borrowed_demo hist_demo"
  have demo: "span smp_demo = [0, 1]" "groups smp_demo = [[]]" "\<not> smp_bug smp_demo" by (simp_all add: smp_demo_def)
  have tw: "enabled_twice = enable_runtime 1 borrowed_demo" by (simp add: enabled_twice_def update_runtime_def)
  have 1: "smp_step 100 (smp_demo, hist_demo) (borrowed_demo, hist_demo)"
    unfolding borrowed_demo_def using demo by (intro smp_step.borrow) simp_all
  have 2: "smp_step 100 (borrowed_demo, hist_demo) (disable_runtime 1 borrowed_demo, hist_demo)"
    using borrowed_demo by (intro smp_step.offline) simp_all
  have 3: "smp_step 100 (borrowed_demo, hist_demo) (enabled_twice, ?h)"
    unfolding tw using borrowed_demo by (intro smp_step.online) simp_all
  have l: "leaked ?h [] = 50" "enables ?h = 1"
    using borrowed_demo by (simp_all add: enabled_def hist_demo_def RUNTIME_INF_def) (simp add: smp_demo_def)
  have B: "bw_rt_runtime (bandwidth_of enabled_twice []) = 100" "\<not> smp_bug enabled_twice"
    using borrowed_demo by (simp_all add: tw enable_runtime_def enable_runtime_group_def) (simp add: smp_demo_def)
  have r2: "(smp_step 100)\<^sup>*\<^sup>* (smp_demo, hist_demo) (disable_runtime 1 borrowed_demo, hist_demo)" by (rule rtranclp.rtrancl_into_rtrancl [OF r_into_rtranclp [of "smp_step 100", OF 1] 2])
  have r3: "(smp_step 100)\<^sup>*\<^sup>* (smp_demo, hist_demo) (enabled_twice, ?h)" by (rule rtranclp.rtrancl_into_rtrancl [OF r_into_rtranclp [of "smp_step 100", OF 1] 3])
  have "\<not> smp_bug (disable_runtime 1 borrowed_demo)"
    using rt_runtime_conserved [OF r2 smp_demo_inv] borrowed_demo by (auto simp: hist_demo_def disable_span)
  moreover have "let on = online [0, 1] (rt_rqs_of enabled_twice []) in
     (\<Sum>i \<in> on. int (unat (cpu_runtime (rt_rqs_of enabled_twice [] i)))) = int (card on) * 100 + leaked ?h []"
    using rt_runtime_conserved [OF r3 smp_demo_inv] borrowed_demo l B by (simp add: tw enable_span Let_def RUNTIME_INF_def)
  ultimately show ?thesis using l(1) by blast
qed

end
