(* ===== verification/Cfs_Bandwidth.thy ===== *)
theory Cfs_Bandwidth
  imports Rt_Admission
begin

text \<open>
  Limits for groups of the fair class, the part of \<^verbatim>\<open>kernel/sched/core.c\<close> built with
  \<^verbatim>\<open>CONFIG_CFS_BANDWIDTH\<close>. The limits of all groups are part of the state of the fair class; the
  functions of \<^verbatim>\<open>kernel/sched/fair.c\<close> that carry them out are parameters.
\<close>

section \<open>State\<close>

text \<open>A group has one fair run queue, on the one processor. \<^verbatim>\<open>s64\<close> fields are given by their bits.\<close>

record cfs_bandwidth =
  cfs_period :: u64
  cfs_quota :: u64
  cfs_runtime :: u64
  hierarchal_quota :: u64
  cfs_timer_active :: bool

record cfs_rq_bandwidth =
  runtime_enabled :: bool
  runtime_remaining :: u64
  cfs_throttled :: bool

record 'x fair_bw =
  cfs_bws :: "tgid \<Rightarrow> cfs_bandwidth"
  cfs_rqs :: "tgid \<Rightarrow> cfs_rq_bandwidth"
  fair_rest :: 'x

type_synonym 'x fair_kernel = "'x fair_bw kernel"

record 'x fair_bw_ext =
  account_cfs_bandwidth_used :: "bool \<Rightarrow> bool \<Rightarrow> 'x fair_kernel \<Rightarrow> 'x fair_kernel"
  refill_cfs_bandwidth_runtime :: "tgid \<Rightarrow> 'x fair_kernel \<Rightarrow> 'x fair_kernel"
  start_cfs_bandwidth :: "tgid \<Rightarrow> 'x fair_kernel \<Rightarrow> 'x fair_kernel"
  unthrottle_cfs_rq :: "tgid \<Rightarrow> 'x fair_kernel \<Rightarrow> 'x fair_kernel"

abbreviation cfs_bw :: "'x fair_kernel \<Rightarrow> tgid \<Rightarrow> cfs_bandwidth" where
  "cfs_bw k tg \<equiv> cfs_bws (cfs k) tg"

abbreviation upd_cfs_bw :: "tgid \<Rightarrow> (cfs_bandwidth \<Rightarrow> cfs_bandwidth) \<Rightarrow> 'x fair_kernel \<Rightarrow> 'x fair_kernel" where
  "upd_cfs_bw tg f \<equiv> cfs_update (cfs_bws_update (\<lambda>b. b(tg := f (b tg))))"

abbreviation upd_cfs_rq :: "tgid \<Rightarrow> (cfs_rq_bandwidth \<Rightarrow> cfs_rq_bandwidth) \<Rightarrow> 'x fair_kernel \<Rightarrow> 'x fair_kernel" where
  "upd_cfs_rq tg f \<equiv> cfs_update (cfs_rqs_update (\<lambda>b. b(tg := f (b tg))))"

definition max_cfs_quota_period :: u64 where "max_cfs_quota_period = 1000000000"
definition min_cfs_quota_period :: u64 where "min_cfs_quota_period = 1000000"

section \<open>Reading\<close>

text \<open>The values are narrowed to \<^verbatim>\<open>long\<close>.\<close>

definition tg_get_cfs_quota :: "tgid \<Rightarrow> 'x fair_kernel \<Rightarrow> ulong" where
  "tg_get_cfs_quota tg k =
     (if cfs_quota (cfs_bw k tg) = RUNTIME_INF then - 1 else ucast (cfs_quota (cfs_bw k tg) div NSEC_PER_USEC))"

definition tg_get_cfs_period :: "tgid \<Rightarrow> 'x fair_kernel \<Rightarrow> ulong" where
  "tg_get_cfs_period tg k = ucast (cfs_period (cfs_bw k tg) div NSEC_PER_USEC)"

section \<open>The check\<close>

record cfs_schedulable_data =
  cd_tg :: tgid
  cd_period :: u64
  cd_quota :: u64

definition normalize_cfs_quota :: "tgid \<Rightarrow> cfs_schedulable_data \<Rightarrow> 'x fair_kernel \<Rightarrow> u64" where
  "normalize_cfs_quota tg d k =
     (let (period, quota) =
            (if tg = cd_tg d then (cd_period d, cd_quota d)
             else (scast (tg_get_cfs_period tg k), scast (tg_get_cfs_quota tg k)))
      in if quota = RUNTIME_INF \<or> quota = - 1 then RUNTIME_INF else ucast (to_ratio period quota))"

definition tg_cfs_schedulable_down :: "cfs_schedulable_data \<Rightarrow> 'x fair_kernel tg_visitor" where
  "tg_cfs_schedulable_down d tg k =
     (case path_parent tg of
        None \<Rightarrow> (None, upd_cfs_bw tg (hierarchal_quota_update (\<lambda>_. RUNTIME_INF)) k)
      | Some parent \<Rightarrow>
          let quota = normalize_cfs_quota tg d k;
              parent_quota = hierarchal_quota (cfs_bw k parent)
          in if quota = RUNTIME_INF
             then (None, upd_cfs_bw tg (hierarchal_quota_update (\<lambda>_. parent_quota)) k)
             else if parent_quota \<noteq> RUNTIME_INF \<and> sint quota > sint parent_quota then (Some EINVAL, k)
             else (None, upd_cfs_bw tg (hierarchal_quota_update (\<lambda>_. quota)) k))"

definition cfs_schedulable :: "tgid \<Rightarrow> u64 \<Rightarrow> u64 \<Rightarrow> 'x fair_kernel \<Rightarrow> (errno option \<times> 'x fair_kernel) option" where
  "cfs_schedulable tg period quota k =
     (let d = (if quota \<noteq> RUNTIME_INF
               then \<lparr>cd_tg = tg, cd_period = period div NSEC_PER_USEC, cd_quota = quota div NSEC_PER_USEC\<rparr>
               else \<lparr>cd_tg = tg, cd_period = period, cd_quota = quota\<rparr>)
      in walk_tg_tree (tg_children k) (tg_cfs_schedulable_down d) tg_nop k)"

section \<open>Setting\<close>

definition tg_set_cfs_bandwidth ::
  "'x fair_bw_ext \<Rightarrow> tgid \<Rightarrow> u64 \<Rightarrow> u64 \<Rightarrow> 'x fair_kernel \<Rightarrow> (errno option \<times> 'x fair_kernel) option" where
  "tg_set_cfs_bandwidth x tg period quota k =
     (if tg = [] then Some (Some EINVAL, k)
      else if quota < min_cfs_quota_period \<or> period < min_cfs_quota_period then Some (Some EINVAL, k)
      else if period > max_cfs_quota_period then Some (Some EINVAL, k)
      else case cfs_schedulable tg period quota k of
        None \<Rightarrow> None
      | Some (Some err, k1) \<Rightarrow> Some (Some err, k1)
      | Some (None, k1) \<Rightarrow>
          let enabled = (quota \<noteq> RUNTIME_INF);
              was_enabled = (cfs_quota (cfs_bw k1 tg) \<noteq> RUNTIME_INF);
              k2 = account_cfs_bandwidth_used x enabled was_enabled k1;
              k3 = upd_cfs_bw tg (\<lambda>b. b\<lparr>cfs_period := period, cfs_quota := quota\<rparr>) k2;
              k4 = refill_cfs_bandwidth_runtime x tg k3;
              k5 = (if enabled \<and> cfs_timer_active (cfs_bw k4 tg)
                    then start_cfs_bandwidth x tg (upd_cfs_bw tg (cfs_timer_active_update (\<lambda>_. False)) k4) else k4);
              k6 = upd_cfs_rq tg (\<lambda>r. r\<lparr>runtime_enabled := enabled, runtime_remaining := 0\<rparr>) k5
          in Some (None, if cfs_throttled (cfs_rqs (cfs k6) tg) then unthrottle_cfs_rq x tg k6 else k6))"

definition tg_set_cfs_quota ::
  "'x fair_bw_ext \<Rightarrow> tgid \<Rightarrow> ulong \<Rightarrow> 'x fair_kernel \<Rightarrow> (errno option \<times> 'x fair_kernel) option" where
  "tg_set_cfs_quota x tg cfs_quota_us k =
     (let period = cfs_period (cfs_bw k tg);
          quota = (if sint cfs_quota_us < 0 then RUNTIME_INF else scast cfs_quota_us * NSEC_PER_USEC)
      in tg_set_cfs_bandwidth x tg period quota k)"

definition tg_set_cfs_period ::
  "'x fair_bw_ext \<Rightarrow> tgid \<Rightarrow> ulong \<Rightarrow> 'x fair_kernel \<Rightarrow> (errno option \<times> 'x fair_kernel) option" where
  "tg_set_cfs_period x tg cfs_period_us k =
     (let period = scast cfs_period_us * NSEC_PER_USEC;
          quota = cfs_quota (cfs_bw k tg)
      in tg_set_cfs_bandwidth x tg period quota k)"

section \<open>The files of the cpu controller\<close>

definition cpu_cfs_quota_read_s64 :: "tgid \<Rightarrow> 'x fair_kernel \<Rightarrow> u64" where
  "cpu_cfs_quota_read_s64 cgrp k = scast (tg_get_cfs_quota cgrp k)"

definition cpu_cfs_quota_write_s64 ::
  "'x fair_bw_ext \<Rightarrow> tgid \<Rightarrow> u64 \<Rightarrow> 'x fair_kernel \<Rightarrow> (errno option \<times> 'x fair_kernel) option" where
  "cpu_cfs_quota_write_s64 x cgrp cfs_quota_us k = tg_set_cfs_quota x cgrp (ucast cfs_quota_us) k"

definition cpu_cfs_period_read_u64 :: "tgid \<Rightarrow> 'x fair_kernel \<Rightarrow> u64" where
  "cpu_cfs_period_read_u64 cgrp k = scast (tg_get_cfs_period cgrp k)"

definition cpu_cfs_period_write_u64 ::
  "'x fair_bw_ext \<Rightarrow> tgid \<Rightarrow> u64 \<Rightarrow> 'x fair_kernel \<Rightarrow> (errno option \<times> 'x fair_kernel) option" where
  "cpu_cfs_period_write_u64 x cgrp cfs_period_us k = tg_set_cfs_period x cgrp (ucast cfs_period_us) k"

end
