(* ===== verification/Cfs_Bandwidth_Claims.thy ===== *)
theory Cfs_Bandwidth_Claims
  imports Cfs_Bandwidth Boot Rt_Admission_Claims
begin

text \<open>
  The limits of fair groups: the walk that checks them carries the limit of each group down to
  the groups below it, in a field that it leaves behind also when it fails. What it decides does not
  depend on what earlier walks left there.
\<close>

section \<open>The order of a walk\<close>

text \<open>A group is entered after the group it is in, or after one of \<open>S\<close>.\<close>

fun parents_first :: "tgid set \<Rightarrow> visit list \<Rightarrow> bool" where
  "parents_first S [] = True"
| "parents_first S (Leave g # vs) = parents_first S vs"
| "parents_first S (Enter g # vs) = ((g = [] \<or> tl g \<in> S) \<and> parents_first (insert g S) vs)"

lemma parents_first_mono: "parents_first S vs \<Longrightarrow> S \<subseteq> T \<Longrightarrow> parents_first T vs"
  by (induction S vs arbitrary: T rule: parents_first.induct) (auto intro: insert_mono)

lemma parents_first_append: "parents_first S vs \<Longrightarrow> parents_first S ws \<Longrightarrow> parents_first S (vs @ ws)"
  by (induction S vs rule: parents_first.induct) (auto intro: parents_first_mono)

lemma parents_first_visits:
  assumes "tree_below D ch"
  shows "p = [] \<or> tl p \<in> S \<Longrightarrow> parents_first S (visits n ch p)"
proof (induction n arbitrary: p S)
  case (Suc n)
  have "parents_first (insert p S) (concat (map (visits n ch) cs) @ [Leave p])" if "set cs \<subseteq> set (ch p)" for cs
    using that
  proof (induction cs)
    case (Cons c cs)
    have "path_parent c = Some p" using tree_belowD(2) [OF assms] Cons.prems by auto
    then have "tl c \<in> insert p S" by (cases c) auto
    then show ?case using Suc.IH [of c "insert p S"] Cons by (auto intro: parents_first_append)
  qed simp
  then show ?case using Suc.prems by simp
qed simp

section \<open>What the check decides\<close>

text \<open>The limit that binds a group: its own, or that of the nearest group above it that has one.\<close>

fun binding :: "(tgid \<Rightarrow> u64) \<Rightarrow> tgid \<Rightarrow> u64" where
  "binding own [] = RUNTIME_INF"
| "binding own (i # g) = (if own (i # g) = RUNTIME_INF then binding own g else own (i # g))"

definition within :: "(tgid \<Rightarrow> u64) \<Rightarrow> tgid \<Rightarrow> bool" where
  "within own g \<longleftrightarrow> g = [] \<or> own g = RUNTIME_INF \<or> binding own (tl g) = RUNTIME_INF \<or> own g \<le> binding own (tl g)"

text \<open>No group may use more than any of the groups it is in.\<close>

definition nested :: "(tgid \<Rightarrow> u64) \<Rightarrow> tgid \<Rightarrow> bool" where
  "nested own g \<longleftrightarrow> own g = RUNTIME_INF \<or> (\<forall>a \<in> set (path_chain g). a = [] \<or> own a = RUNTIME_INF \<or> own g \<le> own a)"

lemma binding_le:
  assumes "\<And>h. h \<in> set (path_chain g) \<Longrightarrow> within own h" and "a \<in> set (path_chain g)" and "a \<noteq> []" and "own a \<noteq> RUNTIME_INF"
  shows "binding own g \<noteq> RUNTIME_INF \<and> binding own g \<le> own a"
  using assms
proof (induction g)
  case (Cons i g)
  show ?case
  proof (cases "a = i # g")
    case False
    then have "binding own g \<noteq> RUNTIME_INF \<and> binding own g \<le> own a" using Cons by simp
    then show ?thesis using Cons.prems(1) [of "i # g"] by (auto simp: within_def intro: order_trans)
  qed (use Cons.prems(4) in simp)
qed simp

lemma binding_own: "binding own g = RUNTIME_INF \<or> (\<exists>a \<in> set (path_chain g). a \<noteq> [] \<and> own a = binding own g)"
  by (induction g) auto

lemma path_chain_tl: "a \<in> set (path_chain (tl g)) \<Longrightarrow> a \<in> set (path_chain g)"
  by (cases g) auto

lemma within_iff_nested:
  assumes "\<And>g h. g \<in> G \<Longrightarrow> h \<in> set (path_chain g) \<Longrightarrow> h \<in> G"
  shows "(\<forall>g \<in> G. within own g) \<longleftrightarrow> (\<forall>g \<in> G. g = [] \<or> nested own g)"
proof (intro iffI ballI)
  fix g assume w: "\<forall>g \<in> G. within own g" and g: "g \<in> G"
  show "g = [] \<or> nested own g"
  proof (cases "g = [] \<or> own g = RUNTIME_INF")
    case False
    then have "binding own g = own g" by (cases g) auto
    moreover have "binding own g \<le> own a" if "a \<in> set (path_chain g)" "a \<noteq> []" "own a \<noteq> RUNTIME_INF" for a
      using binding_le [of g own a] w assms [OF g] that by blast
    ultimately show ?thesis by (auto simp: nested_def)
  qed (auto simp: nested_def)
next
  fix g assume n: "\<forall>g \<in> G. g = [] \<or> nested own g" and g: "g \<in> G"
  show "within own g"
  proof (cases "g = [] \<or> own g = RUNTIME_INF \<or> binding own (tl g) = RUNTIME_INF")
    case False
    then obtain a where "a \<in> set (path_chain (tl g))" "a \<noteq> []" "own a = binding own (tl g)" using binding_own [of own "tl g"] by blast
    then show ?thesis using n g False path_chain_tl [of a g] unfolding nested_def within_def by metis
  qed (auto simp: within_def)
qed

section \<open>The walk computes it\<close>

text \<open>The walk changes nothing but the field it works with.\<close>

definition walked :: "'x fair_kernel \<Rightarrow> 'x fair_kernel \<Rightarrow> bool" where
  "walked k k' \<longleftrightarrow> (\<exists>h. k' = cfs_update (cfs_bws_update (\<lambda>b g. (b g)\<lparr>hierarchal_quota := h g\<rparr>)) k)"

lemma walked_refl: "walked k k"
  unfolding walked_def by (rule exI [of _ "\<lambda>g. hierarchal_quota (cfs_bw k g)"]) simp

lemma walked_upd: "walked k k' \<Longrightarrow> walked k (upd_cfs_bw g (hierarchal_quota_update (\<lambda>_. v)) k')"
proof -
  assume "walked k k'"
  then obtain h where h: "k' = cfs_update (cfs_bws_update (\<lambda>b g. (b g)\<lparr>hierarchal_quota := h g\<rparr>)) k" by (auto simp: walked_def)
  show ?thesis unfolding walked_def
    by (rule exI [of _ "h(g := v)"]) (simp add: h fun_upd_def, rule kernel.fold_congs; simp add: o_def fun_eq_iff)
qed

lemma walked_fields:
  assumes "walked k k'"
  shows "cfs_quota (cfs_bw k' g) = cfs_quota (cfs_bw k g)" "cfs_period (cfs_bw k' g) = cfs_period (cfs_bw k g)"
    "normalize_cfs_quota g d k' = normalize_cfs_quota g d k" "task_groups k' = task_groups k"
  using assms by (auto simp: walked_def normalize_cfs_quota_def tg_get_cfs_quota_def tg_get_cfs_period_def)

text \<open>A limit is a 32-bit ratio or infinite, so that the signed comparison is the one of the values.\<close>

definition limit_value :: "u64 \<Rightarrow> bool" where
  "limit_value v \<longleftrightarrow> v = RUNTIME_INF \<or> unat v < 2 ^ 32"

lemma normalize_limit: "limit_value (normalize_cfs_quota g d k)"
proof -
  have "unat (ucast (w :: ulong) :: u64) < 2 ^ 32" for w using unsigned_less [of w, where 'a = nat] by (simp add: unat_ucast_u64)
  then show ?thesis by (simp add: limit_value_def normalize_cfs_quota_def Let_def split_def)
qed

lemma binding_limit: "(\<And>g. limit_value (own g)) \<Longrightarrow> limit_value (binding own g)"
  by (induction g) (auto simp: limit_value_def)

lemma limit_sint_le:
  assumes "limit_value v" "limit_value w" "v \<noteq> RUNTIME_INF" "w \<noteq> RUNTIME_INF"
  shows "sint w < sint v \<longleftrightarrow> w < v"
proof -
  have v: "unat v < 2 ^ 63" "unat w < 2 ^ 63" using assms by (simp_all add: limit_value_def)
  show ?thesis unfolding sint_small [OF v(1)] sint_small [OF v(2)] by (simp only: of_nat_less_iff word_less_nat_alt)
qed

lemma down_step:
  assumes w: "walked k k1" and own: "own = (\<lambda>g. normalize_cfs_quota g d k)"
    and g: "g = [] \<or> tl g \<in> S" and S: "\<And>h. h \<in> S \<Longrightarrow> hierarchal_quota (cfs_bw k1 h) = binding own h"
  shows "tg_cfs_schedulable_down d g k1 =
    (if within own g then (None, upd_cfs_bw g (hierarchal_quota_update (\<lambda>_. binding own g)) k1) else (Some EINVAL, k1))"
proof (cases g)
  case (Cons i p)
  have p: "hierarchal_quota (cfs_bw k1 p) = binding own p" using g S Cons by simp
  have n: "normalize_cfs_quota (i # p) d k1 = own (i # p)" by (simp add: walked_fields [OF w] own)
  have lim: "limit_value (own h)" for h by (simp add: own normalize_limit)
  have "own (i # p) \<noteq> RUNTIME_INF \<Longrightarrow> binding own p \<noteq> RUNTIME_INF \<Longrightarrow>
      sint (binding own p) < sint (own (i # p)) \<longleftrightarrow> \<not> own (i # p) \<le> binding own p"
    using limit_sint_le [OF lim binding_limit [of own p, OF lim]] by (simp add: not_le)
  then show ?thesis by (auto simp: Cons tg_cfs_schedulable_down_def Let_def n p within_def)
qed (simp add: tg_cfs_schedulable_down_def within_def)

lemma run_cfs:
  assumes own: "own = (\<lambda>g. normalize_cfs_quota g d k)"
  shows "walked k k1 \<Longrightarrow> parents_first S vs \<Longrightarrow> (\<And>h. h \<in> S \<Longrightarrow> hierarchal_quota (cfs_bw k1 h) = binding own h) \<Longrightarrow>
    \<exists>r k2. run_visits (tg_cfs_schedulable_down d) tg_nop vs k1 = (r, k2) \<and> walked k k2 \<and>
      r = (if \<forall>g. Enter g \<in> set vs \<longrightarrow> within own g then None else Some EINVAL)"
proof (induction vs arbitrary: k1 S)
  case (Cons v vs)
  show ?case
  proof (cases v)
    case (Enter g)
    note down = down_step [OF Cons.prems(1) own, where g = g and S = S, OF _ Cons.prems(3)]
    have g: "g = [] \<or> tl g \<in> S" and pf: "parents_first (insert g S) vs" using Cons.prems(2) Enter by auto
    show ?thesis
    proof (cases "within own g")
      case True
      let ?k = "upd_cfs_bw g (hierarchal_quota_update (\<lambda>_. binding own g)) k1"
      have "hierarchal_quota (cfs_bw ?k h) = binding own h" if "h \<in> insert g S" for h using that Cons.prems(3) by auto
      from Cons.IH [OF walked_upd [OF Cons.prems(1)] pf this]
      show ?thesis using down [OF g] True by (auto simp: Enter)
    next
      case False
      then show ?thesis using down [OF g] Cons.prems(1) Enter by auto
    qed
  next
    case (Leave g)
    then show ?thesis using Cons.IH [OF Cons.prems(1) _ Cons.prems(3)] Cons.prems(2) by (simp add: tg_nop_def)
  qed
qed simp

text \<open>The limits as they will be, with \<open>period\<close> and \<open>quota\<close> for \<open>tg\<close>.\<close>

definition proposed_limit :: "'x fair_kernel \<Rightarrow> tgid \<Rightarrow> u64 \<Rightarrow> u64 \<Rightarrow> tgid \<Rightarrow> u64" where
  "proposed_limit k tg period quota g =
     normalize_cfs_quota g (if quota \<noteq> RUNTIME_INF
       then \<lparr>cd_tg = tg, cd_period = period div NSEC_PER_USEC, cd_quota = quota div NSEC_PER_USEC\<rparr>
       else \<lparr>cd_tg = tg, cd_period = period, cd_quota = quota\<rparr>) k"

lemma chain_closed:
  assumes "tg_tree k" and "g \<in> set (task_groups k)" and "h \<in> set (path_chain g)"
  shows "h \<in> set (task_groups k)"
  using assms(2,3)
proof (induction g)
  case (Cons i g)
  then show ?case using assms(1) by (auto simp: tg_tree_def)
qed (use assms(1) in simp)

lemma cfs_schedulable_cases:
  assumes "tg_tree k"
  shows "\<exists>r k'. cfs_schedulable tg period quota k = Some (r, k') \<and> walked k k' \<and>
    r = (if \<forall>g \<in> set (task_groups k). g = [] \<or> nested (proposed_limit k tg period quota) g then None else Some EINVAL)"
proof -
  define own where "own = proposed_limit k tg period quota"
  define d where "d = (if quota \<noteq> RUNTIME_INF
       then \<lparr>cd_tg = tg, cd_period = period div NSEC_PER_USEC, cd_quota = quota div NSEC_PER_USEC\<rparr>
       else \<lparr>cd_tg = tg, cd_period = period, cd_quota = quota\<rparr>)"
  define vs where "vs = visits (tg_depth k) (tg_children k) []"
  have own: "own = (\<lambda>g. normalize_cfs_quota g d k)" unfolding own_def d_def proposed_limit_def [abs_def] ..
  have run: "cfs_schedulable tg period quota k = Some (run_visits (tg_cfs_schedulable_down d) tg_nop vs k)"
    unfolding cfs_schedulable_def Let_def d_def [symmetric] vs_def by (rule visits_all(1) [OF assms])
  have pf: "parents_first {} vs" unfolding vs_def by (rule parents_first_visits [OF tree_below_tg [OF assms]]) simp
  have "(\<forall>g. Enter g \<in> set vs \<longrightarrow> within own g) \<longleftrightarrow> (\<forall>g \<in> set (task_groups k). within own g)"
    using visits_all(2) [OF assms] by (auto simp: vs_def)
  also have "\<dots> \<longleftrightarrow> (\<forall>g \<in> set (task_groups k). g = [] \<or> nested own g)"
    by (rule within_iff_nested) (rule chain_closed [OF assms])
  finally show ?thesis using run_cfs [OF own walked_refl pf] by (simp add: run own_def)
qed

section \<open>Setting a limit\<close>

text \<open>What a change keeps that is not about limits.\<close>

definition limits :: "'x fair_kernel \<Rightarrow> tgid list \<times> (tgid \<Rightarrow> u64 \<times> u64)" where
  "limits k = (task_groups k, \<lambda>g. (cfs_period (cfs_bw k g), cfs_quota (cfs_bw k g)))"

definition limits_kept :: "'x fair_kernel \<Rightarrow> 'x fair_kernel \<Rightarrow> bool" where
  "limits_kept k k' \<longleftrightarrow> limits k' = limits k"

lemma limits_kept_refl [simp]: "limits_kept k k"
  by (simp add: limits_kept_def)

lemma limits_keptD:
  assumes "limits_kept k k'"
  shows "task_groups k' = task_groups k" "cfs_period (cfs_bw k' g) = cfs_period (cfs_bw k g)"
    "cfs_quota (cfs_bw k' g) = cfs_quota (cfs_bw k g)"
  using assms by (auto simp: limits_kept_def limits_def fun_eq_iff)

lemma walked_kept: "walked k k' \<Longrightarrow> limits_kept k k'"
  by (simp add: limits_kept_def limits_def walked_fields)

definition fair_ext_ok :: "'x fair_bw_ext \<Rightarrow> bool" where
  "fair_ext_ok x \<longleftrightarrow> (\<forall>k g a b. limits_kept k (account_cfs_bandwidth_used x a b k) \<and>
     limits_kept k (refill_cfs_bandwidth_runtime x g k) \<and> limits_kept k (start_cfs_bandwidth x g k) \<and>
     limits_kept k (unthrottle_cfs_rq x g k))"

text \<open>
  The limit of a group as other groups are compared with it, and the share it stands for, in
  units of 2^-20 of a processor. The code keeps 32 bits of the share.
\<close>

definition cfs_limit :: "'x fair_kernel \<Rightarrow> tgid \<Rightarrow> u64" where
  "cfs_limit k g = (if tg_get_cfs_quota g k = - 1 then RUNTIME_INF
     else ucast (to_ratio (scast (tg_get_cfs_period g k)) (scast (tg_get_cfs_quota g k))))"

definition cfs_ratio :: "'x fair_kernel \<Rightarrow> tgid \<Rightarrow> nat" where
  "cfs_ratio k g = unat (cfs_quota (cfs_bw k g) div NSEC_PER_USEC) * 2 ^ 20 div unat (cfs_period (cfs_bw k g) div NSEC_PER_USEC)"

definition limit_ok :: "cfs_bandwidth \<Rightarrow> bool" where
  "limit_ok b \<longleftrightarrow> cfs_period b \<le> max_cfs_quota_period \<and>
     (cfs_quota b = RUNTIME_INF \<or> unat (cfs_quota b div NSEC_PER_USEC) < 2 ^ 31)"

definition cfs_inv :: "'x fair_kernel \<Rightarrow> bool" where
  "cfs_inv k \<longleftrightarrow> tg_tree k \<and> (\<forall>g \<in> set (task_groups k). limit_ok (cfs_bw k g) \<and> (g = [] \<or> nested (cfs_limit k) g))"

lemma scast_ucast_small:
  assumes "unat (w :: u64) < 2 ^ 31"
  shows "scast (ucast w :: ulong) = w" "ucast w \<noteq> (- 1 :: ulong)"
proof -
  have n: "unat (ucast w :: ulong) = unat w" using assms by (simp add: unsigned_ucast_eq take_bit_nat_eq_self)
  have "uint (ucast w :: ulong) = int (unat (ucast w :: ulong))" by simp
  then have u: "uint (ucast w :: ulong) = int (unat w)" unfolding n .
  moreover have "int (unat w) < 2 ^ 31" using of_nat_less_iff [of "unat w" "2 ^ 31", where 'a = int] assms by (simp only: of_nat_power of_nat_numeral)
  moreover obtain z where z: "int (unat w) = z" "0 \<le> z" using of_nat_0_le_iff by blast
  ultimately have s: "sint (ucast w :: ulong) = int (unat w)" unfolding sint_uint u z(1) by (intro signed_take_bit_int_eq_self) simp_all
  then show "scast (ucast w :: ulong) = w" by (simp add: scast_eq s)
  show "ucast w \<noteq> (- 1 :: ulong)"
  proof
    assume "ucast w = (- 1 :: ulong)"
    then have "int (unat w) = - 1" using s by simp
    then show False using z by simp
  qed
qed

lemma limit_us:
  assumes "limit_ok (cfs_bw k g)"
  shows "scast (tg_get_cfs_period g k) = cfs_period (cfs_bw k g) div NSEC_PER_USEC"
    "tg_get_cfs_quota g k = - 1 \<longleftrightarrow> cfs_quota (cfs_bw k g) = RUNTIME_INF"
    "cfs_quota (cfs_bw k g) \<noteq> RUNTIME_INF \<Longrightarrow> scast (tg_get_cfs_quota g k) = cfs_quota (cfs_bw k g) div NSEC_PER_USEC"
proof -
  have "unat (cfs_period (cfs_bw k g)) \<le> 1000000000"
    using assms by (simp add: limit_ok_def max_cfs_quota_period_def word_le_nat_alt)
  then have "unat (cfs_period (cfs_bw k g) div NSEC_PER_USEC) < 2 ^ 31"
    unfolding unat_div by (intro le_less_trans [OF div_le_dividend]) simp
  then show "scast (tg_get_cfs_period g k) = cfs_period (cfs_bw k g) div NSEC_PER_USEC"
    by (simp add: tg_get_cfs_period_def scast_ucast_small)
  show "tg_get_cfs_quota g k = - 1 \<longleftrightarrow> cfs_quota (cfs_bw k g) = RUNTIME_INF"
    "cfs_quota (cfs_bw k g) \<noteq> RUNTIME_INF \<Longrightarrow> scast (tg_get_cfs_quota g k) = cfs_quota (cfs_bw k g) div NSEC_PER_USEC"
    using assms scast_ucast_small by (auto simp: tg_get_cfs_quota_def limit_ok_def)
qed

lemma cfs_limit_eq:
  assumes "limit_ok (cfs_bw k g)"
  shows "cfs_limit k g = (if cfs_quota (cfs_bw k g) = RUNTIME_INF then RUNTIME_INF
    else ucast (to_ratio (cfs_period (cfs_bw k g) div NSEC_PER_USEC) (cfs_quota (cfs_bw k g) div NSEC_PER_USEC)))"
  using limit_us [OF assms] by (simp add: cfs_limit_def)

lemma quota_us_not_inf: "unat w < 2 ^ 31 \<Longrightarrow> w \<noteq> RUNTIME_INF" for w :: u64
  by (auto simp: RUNTIME_INF_def unsigned_minus_1_eq_mask mask_eq_exp_minus_1)

lemma cfs_limit_ratio:
  assumes ok: "limit_ok (cfs_bw k g)" and lim: "cfs_quota (cfs_bw k g) \<noteq> RUNTIME_INF"
  shows "cfs_limit k g \<noteq> RUNTIME_INF" "unat (cfs_limit k g) = cfs_ratio k g mod 2 ^ 32"
proof -
  define q p where "q = cfs_quota (cfs_bw k g) div NSEC_PER_USEC" and "p = cfs_period (cfs_bw k g) div NSEC_PER_USEC"
  have q: "unat q < 2 ^ 31" using assms by (simp add: limit_ok_def q_def)
  then have inf: "q \<noteq> RUNTIME_INF" by (rule quota_us_not_inf)
  have "unat q * unat (2 ^ 20 :: u64) < 2 ^ LENGTH(64)" using q by simp
  then have "unat (push_bit 20 q) = unat q * 2 ^ 20" using unat_mult_lem [of q "2 ^ 20 :: u64"] by (simp add: push_bit_eq_mult)
  then have "unat (push_bit 20 q div p) = cfs_ratio k g" by (simp add: unat_div cfs_ratio_def q_def p_def)
  then have u: "unat (to_ratio p q) = cfs_ratio k g mod 2 ^ 32"
    using inf by (simp add: to_ratio_def unsigned_ucast_eq take_bit_eq_mod)
  have eq: "cfs_limit k g = ucast (to_ratio p q)" using cfs_limit_eq [OF ok] lim by (simp add: q_def p_def)
  show "unat (cfs_limit k g) = cfs_ratio k g mod 2 ^ 32" by (simp only: eq unat_ucast_u64 u)
  have "unat (cfs_limit k g) < 2 ^ 63" unfolding eq unat_ucast_u64 using unsigned_less [of "to_ratio p q", where 'a = nat] by simp
  then show "cfs_limit k g \<noteq> RUNTIME_INF" by (auto simp: RUNTIME_INF_def unsigned_minus_1_eq_mask mask_eq_exp_minus_1)
qed

lemma proposed_limit_eq:
  assumes b: "cfs_period (cfs_bw k' g) = (if g = tg then period else cfs_period (cfs_bw k g))"
      "cfs_quota (cfs_bw k' g) = (if g = tg then quota else cfs_quota (cfs_bw k g))"
    and ok: "limit_ok (cfs_bw k' g)"
  shows "proposed_limit k tg period quota g = cfs_limit k' g"
proof (cases "g = tg")
  case True
  then show ?thesis
    using cfs_limit_eq [OF ok] b ok quota_us_not_inf [of "quota div NSEC_PER_USEC"]
    by (auto simp: proposed_limit_def normalize_cfs_quota_def limit_ok_def RUNTIME_INF_def)
next
  case False
  then have "tg_get_cfs_quota g k = tg_get_cfs_quota g k'" "tg_get_cfs_period g k = tg_get_cfs_period g k'"
    using b by (simp_all add: tg_get_cfs_quota_def tg_get_cfs_period_def)
  moreover have "scast (tg_get_cfs_quota g k') = (- 1 :: u64) \<longleftrightarrow> tg_get_cfs_quota g k' = - 1"
    using limit_us(2,3) [OF ok] ok quota_us_not_inf [of "cfs_quota (cfs_bw k' g) div NSEC_PER_USEC"]
    by (auto simp: limit_ok_def RUNTIME_INF_def)
  ultimately show ?thesis using False by (simp add: proposed_limit_def normalize_cfs_quota_def cfs_limit_def RUNTIME_INF_def)
qed

lemma nested_cong:
  assumes "tg_tree k" and "g \<in> set (task_groups k)" and "\<And>h. h \<in> set (task_groups k) \<Longrightarrow> own' h = own h"
  shows "nested own' g = nested own g"
  using assms(2,3) chain_closed [OF assms(1,2)] by (auto simp: nested_def)

lemma cfs_inv_kept:
  assumes "cfs_inv k" and "limits_kept k k'"
  shows "cfs_inv k'"
proof -
  note D = limits_keptD [OF assms(2)]
  have "tg_get_cfs_quota g k' = tg_get_cfs_quota g k" "tg_get_cfs_period g k' = tg_get_cfs_period g k" for g
    by (simp_all add: tg_get_cfs_quota_def tg_get_cfs_period_def D)
  then have "cfs_limit k' g = cfs_limit k g" for g by (simp only: cfs_limit_def)
  then have "cfs_limit k' = cfs_limit k" by (rule ext)
  then show ?thesis using assms(1) by (simp add: cfs_inv_def tg_tree_def limit_ok_def D)
qed

text \<open>A call that is refused changes no limit; one that succeeds sets the limit of its group.\<close>

lemma tg_set_cfs_bandwidth_cases:
  assumes ext: "fair_ext_ok x" and inv: "cfs_inv k" and run: "tg_set_cfs_bandwidth x tg period quota k = Some (r, k')"
  shows "if r = None
    then limits_kept (upd_cfs_bw tg (\<lambda>b. b\<lparr>cfs_period := period, cfs_quota := quota\<rparr>) k) k' \<and>
      min_cfs_quota_period \<le> period \<and> period \<le> max_cfs_quota_period \<and> tg \<noteq> [] \<and>
      (\<forall>g \<in> set (task_groups k). g = [] \<or> nested (proposed_limit k tg period quota) g)
    else r = Some EINVAL \<and> limits_kept k k'"
proof -
  have tree: "tg_tree k" using inv by (simp add: cfs_inv_def)
  obtain rc kc where c: "cfs_schedulable tg period quota k = Some (rc, kc)" "walked k kc"
    "rc = (if \<forall>g \<in> set (task_groups k). g = [] \<or> nested (proposed_limit k tg period quota) g then None else Some EINVAL)"
    using cfs_schedulable_cases [OF tree] by blast
  have X: "limits (account_cfs_bandwidth_used x a b k) = limits k" "limits (refill_cfs_bandwidth_runtime x g k) = limits k"
    "limits (start_cfs_bandwidth x g k) = limits k" "limits (unthrottle_cfs_rq x g k) = limits k" for a b g k
    using ext by (simp_all add: fair_ext_ok_def limits_kept_def)
  have U: "limits (upd_cfs_bw tg (cfs_timer_active_update f) k) = limits k" "limits (cfs_update (cfs_rqs_update h) k) = limits k"
    "limits (upd_cfs_bw tg (\<lambda>b. b\<lparr>cfs_period := p, cfs_quota := q\<rparr>) k) =
      (fst (limits k), (snd (limits k))(tg := (p, q)))" for f h k p q
    by (auto simp: limits_def)
  have W: "limits kc = limits k" using walked_kept [OF c(2)] by (simp add: limits_kept_def)
  show ?thesis
  proof (cases r)
    case None
    have "limits k' = (fst (limits k), (snd (limits k))(tg := (period, quota)))"
      using run c(1) None by (auto simp: tg_set_cfs_bandwidth_def Let_def X U W split: if_splits option.splits)
    moreover have "min_cfs_quota_period \<le> period \<and> period \<le> max_cfs_quota_period \<and> tg \<noteq> [] \<and> rc = None"
      using run c(1) None by (auto simp: tg_set_cfs_bandwidth_def Let_def not_less split: if_splits option.splits)
    ultimately show ?thesis using c(3) None by (auto simp: limits_kept_def U split: if_splits)
  next
    case (Some err)
    then have "r = Some EINVAL \<and> (k' = k \<or> k' = kc)"
      using run c(1,3) by (auto simp: tg_set_cfs_bandwidth_def Let_def split: if_splits option.splits)
    then show ?thesis using W by (auto simp: limits_kept_def)
  qed
qed

lemma tg_set_cfs_bandwidth_inv:
  assumes ext: "fair_ext_ok x" and inv: "cfs_inv k" and run: "tg_set_cfs_bandwidth x tg period quota k = Some (r, k')"
    and q: "quota = RUNTIME_INF \<or> unat (quota div NSEC_PER_USEC) < 2 ^ 31"
  shows "cfs_inv k'"
proof (cases r)
  case None
  note C = tg_set_cfs_bandwidth_cases [OF ext inv run, unfolded None, simplified]
  have tree: "tg_tree k" using inv by (simp add: cfs_inv_def)
  have tgs: "task_groups k' = task_groups k" using limits_keptD(1) [OF conjunct1 [OF C]] by simp
  have f: "cfs_period (cfs_bw k' g) = (if g = tg then period else cfs_period (cfs_bw k g))"
    "cfs_quota (cfs_bw k' g) = (if g = tg then quota else cfs_quota (cfs_bw k g))" for g
    using limits_keptD(2,3) [OF conjunct1 [OF C], of g] by simp_all
  have ok: "limit_ok (cfs_bw k' g)" if "g \<in> set (task_groups k)" for g
    using inv that C q by (auto simp: cfs_inv_def limit_ok_def f)
  have "nested (cfs_limit k') g" if g: "g \<in> set (task_groups k)" "g \<noteq> []" for g
  proof -
    have "nested (proposed_limit k tg period quota) g" using C g by blast
    moreover have "cfs_limit k' h = proposed_limit k tg period quota h" if "h \<in> set (task_groups k)" for h
      using proposed_limit_eq [OF f ok [OF that]] by simp
    ultimately show ?thesis using nested_cong [OF tree g(1)] by blast
  qed
  then show ?thesis using ok tree by (auto simp: cfs_inv_def tgs tg_tree_def)
next
  case (Some err)
  then show ?thesis using tg_set_cfs_bandwidth_cases [OF ext inv run] cfs_inv_kept [OF inv] by simp
qed

section \<open>Sequences of changes\<close>

text \<open>
  The files of the controller are written, with any value; a group is created below another, with
  the unlimited bandwidth that \<^verbatim>\<open>init_cfs_bandwidth()\<close> gives it; a group without others below it is
  destroyed; everything else keeps the limits.
\<close>

inductive cfs_step :: "'x fair_bw_ext \<Rightarrow> 'x fair_kernel \<Rightarrow> 'x fair_kernel \<Rightarrow> bool" for x where
  quota: "cpu_cfs_quota_write_s64 x tg us k = Some (r, k') \<Longrightarrow> tg \<in> set (task_groups k) \<Longrightarrow> cfs_step x k k'"
| period: "cpu_cfs_period_write_u64 x tg us k = Some (r, k') \<Longrightarrow> tg \<in> set (task_groups k) \<Longrightarrow> cfs_step x k k'"
| create: "g \<in> set (task_groups k) \<Longrightarrow> i # g \<notin> set (task_groups k) \<Longrightarrow> cfs_quota b = RUNTIME_INF \<Longrightarrow>
     cfs_period b \<le> max_cfs_quota_period \<Longrightarrow>
     cfs_step x k (task_groups_update (list_add (i # g)) (upd_cfs_bw (i # g) (\<lambda>_. b) k))"
| destroy: "g \<noteq> [] \<Longrightarrow> tg_children k g = [] \<Longrightarrow> cfs_step x k (task_groups_update (list_del_init g) k)"
| other: "limits_kept k k' \<Longrightarrow> cfs_step x k k'"

lemma create_cfs_inv:
  assumes inv: "cfs_inv k" and g: "g \<in> set (task_groups k)" "i # g \<notin> set (task_groups k)"
    and b: "cfs_quota b = RUNTIME_INF" "cfs_period b \<le> max_cfs_quota_period"
  shows "cfs_inv (task_groups_update (list_add (i # g)) (upd_cfs_bw (i # g) (\<lambda>_. b) k))" (is "cfs_inv ?k")
proof -
  have tree: "tg_tree k" using inv by (simp add: cfs_inv_def)
  have tgs: "task_groups ?k = (i # g) # task_groups k" by (simp add: list_ops)
  have lim: "cfs_limit ?k h = (if h = i # g then RUNTIME_INF else cfs_limit k h)" for h
    using b by (simp add: cfs_limit_def tg_get_cfs_quota_def tg_get_cfs_period_def)
  have "nested (cfs_limit ?k) h" if h: "h \<in> set (task_groups k)" "h \<noteq> []" for h
  proof -
    have "nested (cfs_limit k) h" using inv h by (auto simp: cfs_inv_def)
    then show ?thesis using nested_cong [OF tree h(1), of "cfs_limit ?k" "cfs_limit k"] lim g(2) by metis
  qed
  moreover have "nested (cfs_limit ?k) (i # g)" by (simp add: nested_def lim)
  moreover have "tg_tree ?k" using tree g by (auto simp: tg_tree_def tgs)
  ultimately show ?thesis using inv b by (auto simp: cfs_inv_def tgs limit_ok_def)
qed

lemma destroy_cfs_inv:
  assumes inv: "cfs_inv k" and g: "g \<noteq> []" "tg_children k g = []"
  shows "cfs_inv (task_groups_update (list_del_init g) k)" (is "cfs_inv ?k")
proof -
  have tgs: "task_groups ?k = remove1 g (task_groups k)" by (simp add: list_ops)
  have "tg_get_cfs_quota h ?k = tg_get_cfs_quota h k" "tg_get_cfs_period h ?k = tg_get_cfs_period h k" for h
    by (simp_all add: tg_get_cfs_quota_def tg_get_cfs_period_def)
  then have "cfs_limit ?k h = cfs_limit k h" for h by (simp only: cfs_limit_def)
  then have lim: "cfs_limit ?k = cfs_limit k" by (rule ext)
  have "h \<noteq> g" if "y # h \<in> set (task_groups k)" for y h using that g(2) by (auto simp: tg_children_def filter_empty_conv)
  then have "tg_tree ?k" using inv g(1) by (auto simp: tg_tree_def cfs_inv_def tgs)
  then show ?thesis using inv set_remove1_subset [of g "task_groups k"] by (auto simp: cfs_inv_def tgs lim)
qed

lemma cfs_step_inv:
  assumes ext: "fair_ext_ok x" and step: "cfs_step x k k'" and inv: "cfs_inv k"
  shows "cfs_inv k'"
  using step
proof cases
  case (quota tg us r)
  define q where "q = (if sint (ucast us :: ulong) < 0 then RUNTIME_INF else scast (ucast us :: ulong) * NSEC_PER_USEC :: u64)"
  have "q = RUNTIME_INF \<or> unat (q div NSEC_PER_USEC) < 2 ^ 31"
  proof (cases "sint (ucast us :: ulong) < 0")
    case False
    then have "q div NSEC_PER_USEC = ucast (ucast us :: ulong)" using usec_nsec(3) [of "ucast us :: ulong"] by (simp add: q_def)
    moreover have "unat (ucast us :: ulong) < 2 ^ 31"
      using False sint_less [of "ucast us :: ulong"] uint_eq_sint [of "ucast us :: ulong"] by (simp add: unat_eq_nat_uint nat_less_iff)
    ultimately show ?thesis by (simp only: unat_ucast_u64) simp
  qed (simp add: q_def)
  then show ?thesis
    using tg_set_cfs_bandwidth_inv [OF ext inv] quota(1) by (auto simp: cpu_cfs_quota_write_s64_def tg_set_cfs_quota_def Let_def q_def)
next
  case (period tg us r)
  then have "limit_ok (cfs_bw k tg)" using inv by (simp add: cfs_inv_def)
  then show ?thesis
    using tg_set_cfs_bandwidth_inv [OF ext inv] period(1)
    by (auto simp: cpu_cfs_period_write_u64_def tg_set_cfs_period_def Let_def limit_ok_def)
next
  case (create g i b)
  then show ?thesis using create_cfs_inv [OF inv] by simp
next
  case (destroy g)
  then show ?thesis using destroy_cfs_inv [OF inv] by simp
next
  case other
  then show ?thesis using cfs_inv_kept [OF inv] by simp
qed

section \<open>A tree of groups\<close>

definition quiet_fair :: "'x fair_bw_ext" where
  "quiet_fair =
     \<lparr>account_cfs_bandwidth_used = (\<lambda>a b k. k), refill_cfs_bandwidth_runtime = (\<lambda>g k. k),
      start_cfs_bandwidth = (\<lambda>g k. k), unthrottle_cfs_rq = (\<lambda>g k. k)\<rparr>"

lemma quiet_fair_ok: "fair_ext_ok quiet_fair"
  by (simp add: fair_ext_ok_def quiet_fair_def)

text \<open>The root, a group limited to 20 ms in 100 ms and one below it limited to 10 ms.\<close>

definition cfs_demo :: "unit fair_kernel" where
  "cfs_demo = (kernel_image 0
     \<lparr>cfs_bws = (\<lambda>g. \<lparr>cfs_period = 100000000, cfs_quota = (if g = [] then RUNTIME_INF else if g = [1] then 20000000 else 10000000),
        cfs_runtime = 0, hierarchal_quota = RUNTIME_INF, cfs_timer_active = False\<rparr>),
      cfs_rqs = (\<lambda>_. \<lparr>runtime_enabled = False, runtime_remaining = 0, cfs_throttled = False\<rparr>), fair_rest = ()\<rparr>)
     \<lparr>task_groups := [[2, 1], [1], []]\<rparr>"

lemma cfs_demo_fields:
  "task_groups cfs_demo = [[2, 1], [1], []]" "cfs_period (cfs_bw cfs_demo g) = 100000000"
  "cfs_quota (cfs_bw cfs_demo g) = (if g = [] then RUNTIME_INF else if g = [1] then 20000000 else 10000000)"
  by (simp_all add: cfs_demo_def kernel_image_def)

lemma cfs_demo_inv: "cfs_inv cfs_demo"
proof -
  have "tg_tree cfs_demo" by (auto simp: tg_tree_def cfs_demo_fields)
  moreover have ok: "limit_ok (cfs_bw cfs_demo g)" for g
    by (simp add: limit_ok_def cfs_demo_fields max_cfs_quota_period_def NSEC_PER_USEC_def)
  have "cfs_limit cfs_demo [1] = 209715" "cfs_limit cfs_demo [2, 1] = 104857"
    by (simp_all add: cfs_limit_eq [OF ok] cfs_demo_fields to_ratio_def NSEC_PER_USEC_def RUNTIME_INF_def)
  then have "nested (cfs_limit cfs_demo) g" if "g \<in> {[2, 1], [1]}" for g using that by (auto simp: nested_def)
  ultimately show ?thesis using ok by (auto simp: cfs_inv_def cfs_demo_fields)
qed

section \<open>Properties\<close>

text \<open>
  C34. \<^verbatim>\<open>__cfs_schedulable()\<close> decides by the limits alone. The walk ends; it accepts exactly when no
  group with a limit, the proposed one included, is allowed more than any limited group above it,
  whatever earlier walks, refused ones among them, left in \<^verbatim>\<open>hierarchal_quota\<close>; and it changes
  nothing but that field.
\<close>

theorem cfs_schedulable_decides:
  assumes "tg_tree k"
  shows "\<exists>r k'. cfs_schedulable tg period quota k = Some (r, k') \<and>
    (\<exists>h. k' = cfs_update (cfs_bws_update (\<lambda>b g. (b g)\<lparr>hierarchal_quota := h g\<rparr>)) k) \<and>
    r = (if \<forall>g \<in> set (task_groups k). \<forall>a \<in> set (path_chain g).
             let own = proposed_limit k tg period quota in
             a = [] \<or> own g = RUNTIME_INF \<or> own a = RUNTIME_INF \<or> own g \<le> own a
         then None else Some EINVAL)"
proof -
  have eq: "(g = [] \<or> nested own g) = (\<forall>a \<in> set (path_chain g). a = [] \<or> own g = RUNTIME_INF \<or> own a = RUNTIME_INF \<or> own g \<le> own a)"
    for own and g :: tgid
    by (cases g) (auto simp: nested_def)
  show ?thesis using cfs_schedulable_cases [OF assms, of tg period quota] unfolding walked_def Let_def eq .
qed

theorem cfs_schedulable_decides_witness: "\<exists>r k'. cfs_schedulable [2, 1] 100000000 30000000 cfs_demo = Some (r, k')"
  using cfs_schedulable_decides [of cfs_demo "[2, 1]" 100000000 30000000] cfs_demo_inv unfolding cfs_inv_def by blast

text \<open>
  C35. Limits nest, as long as they are not absurdly large. Through any sequence of writes to the limits, with
  any values, refused or not, and of groups created and destroyed, a group with a limit of less than 4096
  times its period is promised no larger share of the processor, in units of 2^-20, than any limited
  group above it. For a larger limit this does not hold: the code computes the share in 32 bits, where it
  wraps, so that the group may pass for a small one.
\<close>

theorem cfs_limits_nest:
  assumes "fair_ext_ok x" and "(cfs_step x)\<^sup>*\<^sup>* k k'" and "cfs_inv k"
    and "g \<in> set (task_groups k')" and "a \<in> set (path_chain g)" and "a \<noteq> []"
    and "cfs_quota (cfs_bw k' g) \<noteq> RUNTIME_INF" and "cfs_quota (cfs_bw k' a) \<noteq> RUNTIME_INF"
    and "unat (cfs_quota (cfs_bw k' g) div NSEC_PER_USEC) < 4096 * unat (cfs_period (cfs_bw k' g) div NSEC_PER_USEC)"
  shows "cfs_ratio k' g \<le> cfs_ratio k' a"
proof -
  have inv: "cfs_inv k'" using assms(2,3) by (induction rule: rtranclp_induct) (auto dest: cfs_step_inv [OF assms(1)])
  have tree: "tg_tree k'" using inv by (simp add: cfs_inv_def)
  have ok: "limit_ok (cfs_bw k' h)" if "h \<in> set (task_groups k')" for h using inv that by (simp add: cfs_inv_def)
  note g = cfs_limit_ratio [OF ok [OF assms(4)] assms(7)]
  note a = cfs_limit_ratio [OF ok [OF chain_closed [OF tree assms(4,5)]] assms(8)]
  have "g \<noteq> []" using assms(5,6) by auto
  then have "nested (cfs_limit k') g" using inv assms(4) by (auto simp: cfs_inv_def)
  then have "cfs_limit k' g \<le> cfs_limit k' a" using g(1) a(1) assms(5,6) by (auto simp: nested_def)
  then have "cfs_ratio k' g mod 2 ^ 32 \<le> cfs_ratio k' a mod 2 ^ 32" using g(2) a(2) by (simp add: word_le_nat_alt)
  moreover have "cfs_ratio k' g < 2 ^ 32"
    using assms(9) unfolding cfs_ratio_def by (intro less_mult_imp_div_less) simp
  ultimately show ?thesis using mod_less_eq_dividend [of "cfs_ratio k' a" "2 ^ 32"] by simp
qed

theorem cfs_limits_nest_witness:
  "\<exists>r k. cpu_cfs_quota_write_s64 quiet_fair [2, 1] 30000 cfs_demo = Some (r, k) \<and>
     cfs_ratio k [2, 1] \<le> cfs_ratio k [1]"
proof -
  let ?q = "30000000 :: u64"
  have eq: "cpu_cfs_quota_write_s64 quiet_fair [2, 1] 30000 cfs_demo = tg_set_cfs_bandwidth quiet_fair [2, 1] 100000000 ?q cfs_demo"
    by (simp add: cpu_cfs_quota_write_s64_def tg_set_cfs_quota_def cfs_demo_fields NSEC_PER_USEC_def)
  have tree: "tg_tree cfs_demo" using cfs_demo_inv by (simp add: cfs_inv_def)
  obtain r k where run: "tg_set_cfs_bandwidth quiet_fair [2, 1] 100000000 ?q cfs_demo = Some (r, k)"
    using cfs_schedulable_cases [OF tree, of "[2, 1]" 100000000 ?q]
    by (fastforce simp: tg_set_cfs_bandwidth_def Let_def split: option.splits prod.splits)
  note C = tg_set_cfs_bandwidth_cases [OF quiet_fair_ok cfs_demo_inv run]
  have kept: "limits_kept (upd_cfs_bw [2, 1] (\<lambda>b. b\<lparr>cfs_period := 100000000, cfs_quota := ?q\<rparr>) cfs_demo) k \<or> limits_kept cfs_demo k"
    (is "limits_kept ?k1 k \<or> _")
    using C by (auto split: if_splits)
  have q: "cfs_quota (cfs_bw ?k1 g) = (if g = [] then RUNTIME_INF else if g = [1] then 20000000 else if g = [2, 1] then ?q else 10000000)" for g
    by (simp add: cfs_demo_fields)
  have k: "task_groups k = task_groups cfs_demo" "cfs_quota (cfs_bw k [1]) = 20000000"
    "cfs_quota (cfs_bw k [2, 1]) = ?q \<or> cfs_quota (cfs_bw k [2, 1]) = 10000000"
    using kept limits_keptD(1) [of ?k1 k] limits_keptD(1) [of cfs_demo k] limits_keptD(3) [of ?k1 k "[1]"] limits_keptD(3) [of cfs_demo k "[1]"]
      limits_keptD(3) [of ?k1 k "[2, 1]"] limits_keptD(3) [of cfs_demo k "[2, 1]"] q cfs_demo_fields(3)
    by auto
  moreover have "cfs_period (cfs_bw k [2, 1]) = 100000000"
    using kept limits_keptD(2) [of ?k1 k "[2, 1]"] limits_keptD(2) [of cfs_demo k "[2, 1]"] by (auto simp: cfs_demo_fields)
  ultimately have lim: "cfs_quota (cfs_bw k [2, 1]) \<noteq> RUNTIME_INF" "cfs_quota (cfs_bw k [1]) \<noteq> RUNTIME_INF"
      "unat (cfs_quota (cfs_bw k [2, 1]) div NSEC_PER_USEC) < 4096 * unat (cfs_period (cfs_bw k [2, 1]) div NSEC_PER_USEC)"
    by (auto simp: RUNTIME_INF_def NSEC_PER_USEC_def)
  have "cfs_step quiet_fair cfs_demo k"
    by (rule cfs_step.quota [OF eq [unfolded run]]) (simp add: cfs_demo_fields)
  then have "cfs_ratio k [2, 1] \<le> cfs_ratio k [1]"
    using cfs_limits_nest [OF quiet_fair_ok r_into_rtranclp cfs_demo_inv, of k "[2, 1]" "[1]"] k(1) lim by (simp add: cfs_demo_fields)
  then show ?thesis using eq run by auto
qed

end
