(* ===== verification/Context_Switch.thy ===== *)
theory Context_Switch
  imports Kernel_State
begin

text \<open>
  Switching from one task to the next, \<^verbatim>\<open>context_switch()\<close> and \<^verbatim>\<open>finish_task_switch()\<close> of
  \<^verbatim>\<open>kernel/sched/core.c\<close>: which address space is loaded, and the references that tasks without
  one hold on the address space they borrow.
\<close>

section \<open>State\<close>

text \<open>
  The fields \<^verbatim>\<open>mm\<close>, \<^verbatim>\<open>active_mm\<close>, \<^verbatim>\<open>state\<close>, \<^verbatim>\<open>usage\<close> and \<^verbatim>\<open>set_child_tid\<close> of the tasks, the count of
  each address space, \<^verbatim>\<open>rq->prev_mm\<close>, the current task, the address space the processor has
  loaded, and a log of what leaves the scheduler: the calls of the hooks for switching out and
  in, in order with what is freed.
\<close>

type_synonym mmid = nat

datatype switch_event = Sched_Out tid tid | Sched_In tid | Lazy_Tlb mmid tid | Mm_Freed mmid | Task_Freed tid | Put_Child_Tid tid

record switch_state =
  t_mm :: "tid \<Rightarrow> mmid option"
  t_active_mm :: "tid \<Rightarrow> mmid option"
  t_state :: "tid \<Rightarrow> ulong"
  t_usage :: "tid \<Rightarrow> u32"
  t_set_child_tid :: "tid \<Rightarrow> bool"
  mm_count :: "mmid \<Rightarrow> u32"
  prev_mm :: "mmid option"
  running :: tid
  loaded_mm :: mmid
  events :: "switch_event list"

abbreviation log_event :: "switch_event \<Rightarrow> switch_state \<Rightarrow> switch_state" where
  "log_event ev \<equiv> events_update (\<lambda>es. es @ [ev])"

section \<open>References\<close>

text \<open>\<^verbatim>\<open>atomic_dec_and_test()\<close>: the count goes down by one, and the object is freed when it is 0.\<close>

definition mmdrop :: "mmid \<Rightarrow> switch_state \<Rightarrow> switch_state" where
  "mmdrop m s =
     (let s1 = mm_count_update (\<lambda>c. c(m := c m - 1)) s
      in if mm_count s1 m = 0 then log_event (Mm_Freed m) s1 else s1)"

definition put_task_struct :: "tid \<Rightarrow> switch_state \<Rightarrow> switch_state" where
  "put_task_struct p s =
     (let s1 = t_usage_update (\<lambda>u. u(p := u p - 1)) s
      in if t_usage s1 p = 0 then log_event (Task_Freed p) s1 else s1)"

section \<open>The switch\<close>

text \<open>\<^verbatim>\<open>prepare_task_switch()\<close>: the hooks; on one processor the lock needs no preparation.\<close>

definition prepare_task_switch :: "tid \<Rightarrow> tid \<Rightarrow> switch_state \<Rightarrow> switch_state" where
  "prepare_task_switch prev nxt s = log_event (Sched_Out prev nxt) s"

definition finish_task_switch :: "tid \<Rightarrow> switch_state \<Rightarrow> switch_state" where
  "finish_task_switch prev s =
     (let mm = prev_mm s;
          s1 = s\<lparr>prev_mm := None\<rparr>;
          prev_state = t_state s1 prev;
          s2 = log_event (Sched_In (running s1)) s1;
          s3 = (case mm of Some m \<Rightarrow> mmdrop m s2 | None \<Rightarrow> s2)
      in if prev_state = TASK_DEAD then put_task_struct prev s3 else s3)"

text \<open>
  \<^verbatim>\<open>context_switch()\<close> up to \<^verbatim>\<open>switch_to()\<close>, from which on the next task runs. \<open>None\<close> is the use of a
  null pointer: the current task must have an address space to lend.
\<close>

definition switch_begin :: "tid \<Rightarrow> tid \<Rightarrow> switch_state \<Rightarrow> switch_state option" where
  "switch_begin prev nxt s =
     (let s1 = prepare_task_switch prev nxt s
      in case t_active_mm s1 prev of
           None \<Rightarrow> None
         | Some oldmm \<Rightarrow>
             let s2 = (case t_mm s1 nxt of
                         None \<Rightarrow>
                           log_event (Lazy_Tlb oldmm nxt)
                             (s1\<lparr>t_active_mm := (t_active_mm s1)(nxt := Some oldmm),
                                 mm_count := (mm_count s1)(oldmm := mm_count s1 oldmm + 1)\<rparr>)
                       | Some mm \<Rightarrow> s1\<lparr>loaded_mm := mm\<rparr>);
                 s3 = (if t_mm s2 prev = None
                       then s2\<lparr>t_active_mm := (t_active_mm s2)(prev := None), prev_mm := Some oldmm\<rparr>
                       else s2)
             in Some (s3\<lparr>running := nxt\<rparr>))"

text \<open>What the next task does first: it was switched out before, or it is new.\<close>

definition context_switch :: "tid \<Rightarrow> tid \<Rightarrow> switch_state \<Rightarrow> switch_state option" where
  "context_switch prev nxt s = map_option (finish_task_switch prev) (switch_begin prev nxt s)"

definition schedule_tail :: "tid \<Rightarrow> switch_state \<Rightarrow> switch_state" where
  "schedule_tail prev s =
     (let s1 = finish_task_switch prev s
      in if t_set_child_tid s1 (running s1) then log_event (Put_Child_Tid (running s1)) s1 else s1)"

definition switch_to_new :: "tid \<Rightarrow> tid \<Rightarrow> switch_state \<Rightarrow> switch_state option" where
  "switch_to_new prev nxt s = map_option (schedule_tail prev) (switch_begin prev nxt s)"

text \<open>A sequence of switches, each to a task that has run before or, with the flag set, to a new one.\<close>

definition switch_once :: "tid \<times> bool \<Rightarrow> switch_state \<Rightarrow> switch_state option" where
  "switch_once x s =
     (if snd x then switch_to_new (running s) (fst x) s else context_switch (running s) (fst x) s)"

fun run_switches :: "(tid \<times> bool) list \<Rightarrow> switch_state \<Rightarrow> switch_state option" where
  "run_switches [] s = Some s"
| "run_switches (x # xs) s = Option.bind (switch_once x s) (run_switches xs)"

section \<open>Statistics\<close>

text \<open>The sums over the processors, of which there is one.\<close>

definition sum_nr_running :: "'f kernel \<Rightarrow> ulong" where
  "sum_nr_running k = sum_list (map (nr_running \<circ> rq) [k])"

definition sum_nr_uninterruptible :: "'f kernel \<Rightarrow> ulong" where
  "sum_nr_uninterruptible k =
     (let sum = sum_list (map (nr_uninterruptible \<circ> rq) [k]) in if sint sum < 0 then 0 else sum)"

definition nr_context_switches :: "'f kernel \<Rightarrow> u64" where
  "nr_context_switches k = sum_list (map (nr_switches \<circ> rq) [k])"

definition sum_nr_iowait :: "'f kernel \<Rightarrow> int" where
  "sum_nr_iowait k = sum_list (map (nr_iowait \<circ> rq) [k])"

definition nr_iowait_cpu :: "'f kernel \<Rightarrow> int" where
  "nr_iowait_cpu k = nr_iowait (rq k)"

definition this_cpu_load :: "'f kernel \<Rightarrow> ulong" where
  "this_cpu_load k = cpu_load (loads (rq k)) ! 0"

end
