(* ===== verification/Context_Switch_Claims.thy ===== *)
theory Context_Switch_Claims
  imports Context_Switch
begin

text \<open>
  The references on address spaces and tasks across any sequence of switches: what is counted
  when a task without an address space borrows one, and what is freed when.
\<close>

section \<open>Who holds an address space\<close>

text \<open>
  The tasks that own \<open>m\<close> hold one reference together (\<^verbatim>\<open>mm_users\<close>), each task that borrows it one
  of its own; \<open>ext\<close> counts the references of the rest of the kernel.
\<close>

definition borrowers :: "switch_state \<Rightarrow> mmid \<Rightarrow> tid set" where
  "borrowers s m = {p. t_mm s p = None \<and> t_active_mm s p = Some m}"

definition mm_refs :: "(mmid \<Rightarrow> nat) \<Rightarrow> switch_state \<Rightarrow> mmid \<Rightarrow> nat" where
  "mm_refs ext s m = ext m + of_bool (m \<in> ran (t_mm s)) + card (borrowers s m)"

definition switch_inv :: "(mmid \<Rightarrow> nat) \<Rightarrow> switch_state \<Rightarrow> bool" where
  "switch_inv ext s \<longleftrightarrow>
     (\<forall>p m. t_mm s p = Some m \<longrightarrow> t_active_mm s p = Some m) \<and>
     (\<forall>p. p \<noteq> running s \<and> t_mm s p = None \<longrightarrow> t_active_mm s p = None) \<and>
     t_active_mm s (running s) = Some (loaded_mm s) \<and>
     prev_mm s = None \<and>
     (\<forall>m. unat (mm_count s m) = mm_refs ext s m)"

lemma switch_invD:
  assumes "switch_inv ext s"
  shows "t_mm s p = Some m \<Longrightarrow> t_active_mm s p = Some m"
    and "p \<noteq> running s \<Longrightarrow> t_mm s p = None \<Longrightarrow> t_active_mm s p = None"
    and "t_active_mm s (running s) = Some (loaded_mm s)"
    and "prev_mm s = None"
    and "unat (mm_count s m) = mm_refs ext s m"
  using assms by (auto simp: switch_inv_def)

text \<open>Only the running task borrows.\<close>

lemma borrowers_eq:
  assumes "\<And>p. p \<noteq> running s \<Longrightarrow> t_mm s p = None \<Longrightarrow> t_active_mm s p = None"
    and "t_active_mm s (running s) = Some (loaded_mm s)"
  shows "borrowers s m = (if t_mm s (running s) = None \<and> loaded_mm s = m then {running s} else {})"
proof -
  have "p = running s" if "p \<in> borrowers s m" for p
    using that assms(1) [of p] by (auto simp: borrowers_def)
  then show ?thesis using assms(2) by (auto simp: borrowers_def)
qed

lemma mm_refs_eq:
  assumes "switch_inv ext s"
  shows "mm_refs ext s m =
           ext m + of_bool (m \<in> ran (t_mm s)) + of_bool (t_mm s (running s) = None \<and> loaded_mm s = m)"
  using borrowers_eq [of s m] switch_invD(2,3) [OF assms] by (auto simp: mm_refs_def)

section \<open>One switch\<close>

text \<open>The counts after a switch to \<open>nxt\<close>.\<close>

definition switched_count :: "switch_state \<Rightarrow> tid \<Rightarrow> mmid \<Rightarrow> u32" where
  "switched_count s nxt m =
     mm_count s m + of_bool (m = loaded_mm s \<and> t_mm s nxt = None)
                  - of_bool (m = loaded_mm s \<and> t_mm s (running s) = None)"

definition switched_usage :: "switch_state \<Rightarrow> tid \<Rightarrow> u32" where
  "switched_usage s p = t_usage s p - of_bool (p = running s \<and> t_state s p = TASK_DEAD)"


text \<open>What \<^verbatim>\<open>finish_task_switch()\<close> leaves alone, counts down and frees.\<close>

lemma finish_task_switch_fields [simp]:
  "running (finish_task_switch p s) = running s"
  "loaded_mm (finish_task_switch p s) = loaded_mm s"
  "t_mm (finish_task_switch p s) = t_mm s"
  "t_active_mm (finish_task_switch p s) = t_active_mm s"
  "t_state (finish_task_switch p s) = t_state s"
  "t_set_child_tid (finish_task_switch p s) = t_set_child_tid s"
  "prev_mm (finish_task_switch p s) = None"
  by (simp_all add: finish_task_switch_def mmdrop_def put_task_struct_def Let_def split: option.split)

lemma finish_task_switch_count:
  "mm_count (finish_task_switch p s) m = mm_count s m - of_bool (prev_mm s = Some m)"
  by (simp add: finish_task_switch_def mmdrop_def put_task_struct_def Let_def split: option.split)

lemma finish_task_switch_usage:
  "t_usage (finish_task_switch p s) q = t_usage s q - of_bool (q = p \<and> t_state s p = TASK_DEAD)"
  by (simp add: finish_task_switch_def mmdrop_def put_task_struct_def Let_def split: option.split)

lemma finish_task_switch_events:
  "events (finish_task_switch p s) = events s @ [Sched_In (running s)] @
     (case prev_mm s of None \<Rightarrow> [] | Some m \<Rightarrow> if mm_count s m = 1 then [Mm_Freed m] else []) @
     (if t_state s p = TASK_DEAD \<and> t_usage s p = 1 then [Task_Freed p] else [])"
  by (simp add: finish_task_switch_def mmdrop_def put_task_struct_def Let_def split: option.split)

lemma switch_begin_fields:
  assumes "switch_inv ext s" and "nxt \<noteq> running s" and "switch_begin (running s) nxt s = Some b"
  shows "running b = nxt" and "t_mm b = t_mm s" and "t_state b = t_state s" and "t_usage b = t_usage s"
    and "t_set_child_tid b = t_set_child_tid s"
    and "loaded_mm b = (case t_mm s nxt of None \<Rightarrow> loaded_mm s | Some m \<Rightarrow> m)"
    and "prev_mm b = (if t_mm s (running s) = None then Some (loaded_mm s) else None)"
    and "mm_count b m = mm_count s m + of_bool (m = loaded_mm s \<and> t_mm s nxt = None)"
    and "events b = events s @ Sched_Out (running s) nxt #
           (if t_mm s nxt = None then [Lazy_Tlb (loaded_mm s) nxt] else [])"
    and "t_active_mm b p = (if p = nxt \<and> t_mm s p = None then Some (loaded_mm s)
           else if p = running s \<and> t_mm s p = None then None else t_active_mm s p)"
  using assms(2,3) switch_invD(3,4) [OF assms(1)]
  by (auto simp: switch_begin_def prepare_task_switch_def Let_def split: option.splits if_splits)

lemma switch_begin_returns:
  assumes "switch_inv ext s"
  obtains b where "switch_begin (running s) nxt s = Some b"
  using switch_invD(3) [OF assms] by (auto simp: switch_begin_def prepare_task_switch_def Let_def)

lemma switch_once_effect:
  assumes inv: "switch_inv ext s" and "fst x \<noteq> running s"
  obtains s' evs where "switch_once x s = Some s'"
    and "running s' = fst x" "prev_mm s' = None" "t_mm s' = t_mm s" "t_state s' = t_state s"
    and "loaded_mm s' = (case t_mm s (fst x) of None \<Rightarrow> loaded_mm s | Some m \<Rightarrow> m)"
    and "\<And>p. t_active_mm s' p = (if p = fst x \<and> t_mm s p = None then Some (loaded_mm s)
           else if p = running s \<and> t_mm s p = None then None else t_active_mm s p)"
    and "\<And>m. mm_count s' m = switched_count s (fst x) m" "\<And>p. t_usage s' p = switched_usage s p"
    and "events s' = events s @ evs"
    and "\<And>m. count_list evs (Mm_Freed m) =
           of_bool (m = loaded_mm s \<and> t_mm s (running s) = None \<and> mm_count s' m = 0)"
    and "\<And>p. count_list evs (Task_Freed p) =
           of_bool (p = running s \<and> t_state s p = TASK_DEAD \<and> t_usage s' p = 0)"
proof -
  obtain b where b: "switch_begin (running s) (fst x) s = Some b"
    using switch_begin_returns [OF inv] .
  note fields = switch_begin_fields [OF inv assms(2) b]
  define s1 where "s1 = finish_task_switch (running s) b"
  define tid_put where "tid_put = (if snd x \<and> t_set_child_tid s (fst x) then [Put_Child_Tid (fst x)] else [])"
  define s' where "s' = s1\<lparr>events := events s1 @ tid_put\<rparr>"
  have "switch_once x s = Some s'"
    using b by (simp add: switch_once_def switch_to_new_def context_switch_def schedule_tail_def s'_def
        s1_def tid_put_def fields Let_def)
  then show thesis
  proof (rule that [of s' "drop (length (events s)) (events s')"])
  qed (auto simp: s'_def s1_def tid_put_def fields finish_task_switch_count finish_task_switch_usage
         finish_task_switch_events switched_count_def switched_usage_def)
qed

text \<open>The counts stay exact, and an address space with no reference left is never picked up again.\<close>

lemma unat_switched:
  fixes c :: u32
  assumes "unat c + 1 < 2 ^ 32" and "Q \<Longrightarrow> c \<noteq> 0"
  shows "unat (c + of_bool P - of_bool Q) = unat c + of_bool P - of_bool Q"
proof (cases Q)
  case True
  then have "1 \<le> c" using assms(2) by (simp add: linorder_not_less [symmetric])
  then have "unat (c - 1) = unat c - 1" and "0 < unat c"
    by (simp add: unat_sub) (use True assms(2) in \<open>simp add: unat_gt_0\<close>)
  then show ?thesis using True by (cases P) simp_all
next
  case False
  then show ?thesis
    using assms(1) by (cases P) (simp_all add: unat_add_lem [THEN iffD1])
qed

lemma loaded_referenced:
  assumes "switch_inv ext s"
  shows "mm_count s (loaded_mm s) \<noteq> 0"
proof -
  have "0 < mm_refs ext s (loaded_mm s)"
    using switch_invD(1,3) [OF assms]
    by (cases "t_mm s (running s)") (auto simp: mm_refs_eq [OF assms] ran_def)
  then show ?thesis using switch_invD(5) [OF assms, of "loaded_mm s"] by auto
qed

lemma switched_count_exact:
  assumes inv: "switch_inv ext s" and "ext m + 3 < 2 ^ 32"
  shows "unat (switched_count s nxt m) =
           ext m + of_bool (m \<in> ran (t_mm s)) + of_bool (t_mm s nxt = None \<and> loaded_mm s = m)"
proof -
  have c: "unat (mm_count s m) =
      ext m + of_bool (m \<in> ran (t_mm s)) + of_bool (t_mm s (running s) = None \<and> loaded_mm s = m)"
    using switch_invD(5) [OF inv] mm_refs_eq [OF inv] by simp
  have "unat (switched_count s nxt m) = unat (mm_count s m) + of_bool (m = loaded_mm s \<and> t_mm s nxt = None)
      - of_bool (m = loaded_mm s \<and> t_mm s (running s) = None)"
    unfolding switched_count_def
  proof (rule unat_switched)
    show "unat (mm_count s m) + 1 < 2 ^ 32"
      using assms(2) unfolding c by simp
  qed (use loaded_referenced [OF inv] in auto)
  then show ?thesis by (auto simp: c)
qed

lemma switch_once_inv:
  assumes inv: "switch_inv ext s" and ext: "\<And>m. ext m + 3 < 2 ^ 32"
    and pick: "fst x \<noteq> running s" and step: "switch_once x s = Some s'"
  shows "switch_inv ext s'"
proof -
  note eff = switch_once_effect [OF inv pick]
  obtain evs where s': "running s' = fst x" "prev_mm s' = None" "t_mm s' = t_mm s"
    "loaded_mm s' = (case t_mm s (fst x) of None \<Rightarrow> loaded_mm s | Some m \<Rightarrow> m)"
    "\<And>p. t_active_mm s' p = (if p = fst x \<and> t_mm s p = None then Some (loaded_mm s)
       else if p = running s \<and> t_mm s p = None then None else t_active_mm s p)"
    "\<And>m. mm_count s' m = switched_count s (fst x) m"
    using eff step by (metis option.inject)
  note I = switch_invD [OF inv]
  have active: "t_active_mm s' (running s') = Some (loaded_mm s')"
    using I(1) by (auto simp: s' split: option.split)
  have others: "t_active_mm s' p = None" if "p \<noteq> running s'" "t_mm s' p = None" for p
    using that I(2) [of p] by (auto simp: s')
  have count: "unat (mm_count s' m) = mm_refs ext s' m" for m
    using borrowers_eq [of s' m, OF others active] switched_count_exact [OF inv ext]
    by (auto simp: mm_refs_def s' split: option.splits)
  show ?thesis
    unfolding switch_inv_def using active others count I(1) s'(2,3) by (auto simp: s'(5) s'(3))
qed

lemma switched_count_freed:
  assumes inv: "switch_inv ext s" and ext: "\<And>m. ext m + 3 < 2 ^ 32"
  shows "mm_count s m = 0 \<Longrightarrow> switched_count s nxt m = 0"
    and "m = loaded_mm s \<and> t_mm s (running s) = None \<and> switched_count s nxt m = 0
           \<longleftrightarrow> mm_count s m \<noteq> 0 \<and> switched_count s nxt m = 0"
proof -
  have A: "switched_count s nxt m = mm_count s m"
    if "\<not> (m = loaded_mm s \<and> t_mm s (running s) = None)" "m \<noteq> loaded_mm s \<or> t_mm s nxt \<noteq> None"
    using that by (auto simp: switched_count_def)
  have B: "switched_count s nxt m \<noteq> 0" if "m = loaded_mm s" "t_mm s nxt = None"
  proof -
    have "0 < unat (switched_count s nxt m)"
      using switched_count_exact [OF inv ext, of nxt m] that by simp
    then show ?thesis by auto
  qed
  show "mm_count s m = 0 \<Longrightarrow> switched_count s nxt m = 0"
    using loaded_referenced [OF inv] A by metis
  show "m = loaded_mm s \<and> t_mm s (running s) = None \<and> switched_count s nxt m = 0
      \<longleftrightarrow> mm_count s m \<noteq> 0 \<and> switched_count s nxt m = 0"
    using loaded_referenced [OF inv] A B by metis
qed

section \<open>A sequence of switches\<close>

text \<open>The scheduler picks another task each time, and never one that has died.\<close>

fun proper_picks :: "(tid \<Rightarrow> ulong) \<Rightarrow> tid \<Rightarrow> (tid \<times> bool) list \<Rightarrow> bool" where
  "proper_picks st r [] = True"
| "proper_picks st r (x # xs) = (fst x \<noteq> r \<and> st (fst x) \<noteq> TASK_DEAD \<and> proper_picks st (fst x) xs)"

definition mm_freed_exactly :: "switch_state \<Rightarrow> switch_state \<Rightarrow> switch_event list \<Rightarrow> bool" where
  "mm_freed_exactly s s' evs \<longleftrightarrow>
     (\<forall>m. count_list evs (Mm_Freed m) = of_bool (mm_count s m \<noteq> 0 \<and> mm_count s' m = 0))"

definition task_put_exactly :: "switch_state \<Rightarrow> switch_state \<Rightarrow> switch_event list \<Rightarrow> bool" where
  "task_put_exactly s s' evs \<longleftrightarrow>
     (\<forall>p. t_usage s' p = t_usage s p - of_bool (p = running s \<and> t_state s p = TASK_DEAD) \<and>
          count_list evs (Task_Freed p) =
            of_bool (p = running s \<and> t_state s p = TASK_DEAD \<and> t_usage s p = 1))"

text \<open>\<open>s'\<close> is a state that a sequence of switches may leave, having logged \<open>evs\<close>.\<close>

definition switched_to :: "(mmid \<Rightarrow> nat) \<Rightarrow> switch_state \<Rightarrow> switch_state \<Rightarrow> switch_event list \<Rightarrow> bool" where
  "switched_to ext s s' evs \<longleftrightarrow>
     switch_inv ext s' \<and> t_mm s' = t_mm s \<and> t_state s' = t_state s \<and> events s' = events s @ evs \<and>
     (\<forall>m. mm_count s m = 0 \<longrightarrow> mm_count s' m = 0) \<and> mm_freed_exactly s s' evs"

lemma switched_to_refl: "switch_inv ext s \<Longrightarrow> switched_to ext s s []"
  by (simp add: switched_to_def mm_freed_exactly_def)

lemma switched_to_trans:
  assumes "switched_to ext s s1 evs1" and "switched_to ext s1 s2 evs2"
  shows "switched_to ext s s2 (evs1 @ evs2)"
  using assms unfolding switched_to_def mm_freed_exactly_def by auto

lemma task_put_trans:
  assumes "task_put_exactly s s1 evs1" and "task_put_exactly s1 s2 evs2"
    and "t_state s1 (running s1) \<noteq> TASK_DEAD"
  shows "task_put_exactly s s2 (evs1 @ evs2)"
  using assms unfolding task_put_exactly_def by auto

lemma switch_once_switched_to:
  assumes inv: "switch_inv ext s" and ext: "\<And>m. ext m + 3 < 2 ^ 32" and pick: "fst x \<noteq> running s"
  obtains s' evs where "switch_once x s = Some s'" "running s' = fst x"
    "switched_to ext s s' evs" "task_put_exactly s s' evs"
proof -
  obtain s' evs where step: "switch_once x s = Some s'" and r: "running s' = fst x"
    and frame: "t_mm s' = t_mm s" "t_state s' = t_state s" "events s' = events s @ evs"
    and mm: "\<And>m. mm_count s' m = switched_count s (fst x) m"
      "\<And>m. count_list evs (Mm_Freed m) =
         of_bool (m = loaded_mm s \<and> t_mm s (running s) = None \<and> mm_count s' m = 0)"
    and task: "\<And>p. t_usage s' p = switched_usage s p"
      "\<And>p. count_list evs (Task_Freed p) =
         of_bool (p = running s \<and> t_state s p = TASK_DEAD \<and> t_usage s' p = 0)"
    using switch_once_effect [OF inv pick] by metis
  have "switched_to ext s s' evs"
    using switch_once_inv [OF inv ext pick step] switched_count_freed [OF inv ext] frame
    by (simp add: switched_to_def mm_freed_exactly_def mm)
  moreover have "task_put_exactly s s' evs"
    by (auto simp: task_put_exactly_def task switched_usage_def)
  ultimately show thesis using that step r by blast
qed

lemma run_switches_switched_to:
  assumes "\<And>m. ext m + 3 < 2 ^ 32" and "switch_inv ext s" and "proper_picks (t_state s) (running s) xs"
  shows "\<exists>s' evs. run_switches xs s = Some s' \<and> switched_to ext s s' evs \<and>
           running s' = (if xs = [] then running s else fst (last xs)) \<and>
           (xs \<noteq> [] \<or> t_state s (running s) \<noteq> TASK_DEAD \<longrightarrow> task_put_exactly s s' evs)"
  using assms(2,3)
proof (induction xs arbitrary: s)
  case Nil
  then show ?case
    using switched_to_refl by (fastforce simp: task_put_exactly_def)
next
  case (Cons x xs)
  then have pick: "fst x \<noteq> running s" and alive: "t_state s (fst x) \<noteq> TASK_DEAD"
    and rest: "proper_picks (t_state s) (fst x) xs" by simp_all
  obtain s1 evs1 where s1: "switch_once x s = Some s1" "running s1 = fst x"
    "switched_to ext s s1 evs1" "task_put_exactly s s1 evs1"
    by (rule switch_once_switched_to [OF Cons.prems(1) assms(1) pick])
  then have inv1: "switch_inv ext s1" and st1: "t_state s1 = t_state s" by (simp_all add: switched_to_def)
  obtain s' evs2 where s': "run_switches xs s1 = Some s'" "switched_to ext s1 s' evs2"
    "running s' = (if xs = [] then running s1 else fst (last xs))" "task_put_exactly s1 s' evs2"
    using Cons.IH [OF inv1] rest alive s1(2) st1 by auto
  have "switched_to ext s s' (evs1 @ evs2)" by (rule switched_to_trans [OF s1(3) s'(2)])
  moreover have "task_put_exactly s s' (evs1 @ evs2)"
    by (rule task_put_trans [OF s1(4) s'(4)]) (simp add: s1(2) st1 alive)
  moreover have "run_switches (x # xs) s = Some s'" using s1(1) s'(1) by simp
  moreover have "running s' = (if x # xs = [] then running s else fst (last (x # xs)))"
    using s'(3) s1(2) by simp
  ultimately show ?case by blast
qed

section \<open>The claim\<close>

text \<open>
  C36. Any sequence of context switches, to old or new tasks, ends with the task picked last running
  in the address space the processor has loaded, and no switch follows a null pointer. The
  count of every address space is again the number of its references, where a task that
  borrows one counts as long as it runs; the one that is loaded is not freed; an address space
  is freed exactly once when its count goes from a positive number to 0, and else not at all.
  The reference for the use as current task of a task that has died is dropped by the first
  switch and by none after it, and the usage of no other task changes.
\<close>

lemma run_switches_keep_references:
  assumes "\<forall>m. ext m + 3 < 2 ^ 32" and "switch_inv ext s"
    and "proper_picks (t_state s) (running s) xs" and "xs \<noteq> []"
  shows "\<exists>s' evs. run_switches xs s = Some s' \<and> switch_inv ext s' \<and> running s' = fst (last xs) \<and>
           t_active_mm s' (running s') = Some (loaded_mm s') \<and> mm_count s' (loaded_mm s') \<noteq> 0 \<and>
           events s' = events s @ evs \<and>
           (\<forall>m. count_list evs (Mm_Freed m) = of_bool (mm_count s m \<noteq> 0 \<and> mm_count s' m = 0)) \<and>
           (\<forall>p. t_usage s' p = t_usage s p - of_bool (p = running s \<and> t_state s p = TASK_DEAD) \<and>
             count_list evs (Task_Freed p) =
               of_bool (p = running s \<and> t_state s p = TASK_DEAD \<and> t_usage s p = 1))"
proof -
  obtain s' evs where s': "run_switches xs s = Some s'" "switched_to ext s s' evs"
    "running s' = fst (last xs)" "task_put_exactly s s' evs"
    using run_switches_switched_to [of ext s xs] assms by auto
  then have "switch_inv ext s'" by (simp add: switched_to_def)
  with s' show ?thesis
    using switch_invD(3) loaded_referenced
    by (fastforce simp: switched_to_def mm_freed_exactly_def task_put_exactly_def)
qed

text \<open>
  A dead task that runs in a borrowed address space, then a thread of its own, a new kernel
  thread, which borrows the address space of that thread, and a second kernel thread.
\<close>

definition switch_example :: switch_state where
  "switch_example = \<lparr>t_mm = (\<lambda>p. if p = 1 then Some 5 else None),
     t_active_mm = (\<lambda>p. if p = 1 then Some 5 else if p = 0 then Some 4 else None),
     t_state = (\<lambda>p. if p = 0 then TASK_DEAD else 0), t_usage = (\<lambda>p. 1),
     t_set_child_tid = (\<lambda>p. p = 2), mm_count = (\<lambda>m. if m = 4 \<or> m = 5 then 1 else 0),
     prev_mm = None, running = 0, loaded_mm = 4, events = []\<rparr>"

lemma switch_example_inv: "switch_inv (\<lambda>m. 0) switch_example"
proof -
  have "borrowers switch_example m = (if 4 = m then {0} else {})" for m
    by (auto simp: borrowers_def switch_example_def split: if_splits)
  then show ?thesis
    by (auto simp: switch_inv_def mm_refs_def switch_example_def ran_def)
qed

lemma run_switches_keep_references_witness:
  "\<exists>s' evs. run_switches [(1, False), (2, True), (3, True)] switch_example = Some s' \<and>
     running s' = 3 \<and> mm_count s' 5 = 2 \<and> events s' = evs \<and>
     count_list evs (Mm_Freed 4) = 1 \<and> count_list evs (Mm_Freed 5) = 0 \<and> count_list evs (Task_Freed 0) = 1"
proof -
  let ?xs = "[(1, False), (2, True), (3, True)] :: (tid \<times> bool) list"
  have picks: "proper_picks (t_state switch_example) (running switch_example) ?xs"
    by (simp add: switch_example_def TASK_DEAD_def)
  obtain s' evs where run: "run_switches ?xs switch_example = Some s'"
    and "running s' = 3" "events s' = events switch_example @ evs"
    and mm: "\<forall>m. count_list evs (Mm_Freed m) = of_bool (mm_count switch_example m \<noteq> 0 \<and> mm_count s' m = 0)"
    and task: "\<forall>p. count_list evs (Task_Freed p) = of_bool (p = running switch_example \<and>
      t_state switch_example p = TASK_DEAD \<and> t_usage switch_example p = 1)"
    using run_switches_keep_references [OF _ switch_example_inv picks] by auto
  moreover have "mm_count s' 5 = 2" "mm_count s' 4 = 0"
    using run by (auto simp: switch_example_def switch_once_def switch_to_new_def context_switch_def
        schedule_tail_def finish_task_switch_def switch_begin_def prepare_task_switch_def mmdrop_def
        put_task_struct_def TASK_DEAD_def)
  moreover have "events switch_example = []" "running switch_example = 0" "t_usage switch_example 0 = 1"
    "t_state switch_example 0 = TASK_DEAD" "mm_count switch_example 4 = 1" "mm_count switch_example 5 = 1"
    by (simp_all add: switch_example_def)
  ultimately show ?thesis by auto
qed

end
