(* ===== verification/Rt_Push.thy ===== *)
theory Rt_Push
  imports Rt
begin

text \<open>
  Moving real-time tasks between processors, the part of \<^verbatim>\<open>kernel/sched/rt.c\<close> for more than one
  processor: a processor with more than one real-time task pushes those that wait to processors
  that run something of lower priority, and one that is about to run something of lower
  priority pulls. The build is the one without groups of real-time tasks, where the run queue
  of a processor holds tasks only, and with kernel preemption, where locking a second run queue
  always gives up the first for a moment. The clock, the accounting of run time and the references
  that are held on task structures are not part of this state, nor are the stop threads, whose class
  comes before the real-time class.
\<close>

section \<open>State\<close>

text \<open>
  A set of processors is a \<^verbatim>\<open>cpumask\<close>. Of a run queue \<open>pq_rt\<close> is the priority array with its
  counter of tasks and its highest priority, the record of the single-processor build; \<open>pushable\<close>
  is the list \<^verbatim>\<open>pushable_tasks\<close>, whose nodes hold a priority of their own. \<open>cpu_pri\<close> is what
  \<^verbatim>\<open>cpupri_set()\<close> was told last for each processor, \<open>ipis\<close> the processors that were interrupted,
  \<open>turns\<close> counts how often a lock was given up.
\<close>

type_synonym cpumask = "nat set"

record push_task =
  pt_prio :: int
  pt_allowed :: cpumask
  pt_nr_allowed :: int
  pt_cpu :: nat
  pt_on_rq :: bool
  pt_on_cpu :: bool
  pt_resched :: bool
  pt_polling :: bool
  pt_contributes :: bool
  pt_migrations :: u64

record push_rq =
  pq_rt :: rt_rq
  pushable :: "(int \<times> tid) list"
  highest_next :: int
  rt_nr_total :: ulong
  rt_nr_migratory :: ulong
  is_overloaded :: bool
  pq_curr :: tid
  pq_online :: bool
  pq_post_schedule :: bool
  pq_nr_running :: ulong
  pq_nr_unint :: ulong

record smp =
  cpus :: "nat \<Rightarrow> push_rq"
  threads :: "tid \<Rightarrow> push_task"
  rto_mask :: cpumask
  rto_count :: int
  cpu_pri :: "nat \<Rightarrow> int"
  ipis :: "nat list"
  turns :: nat

text \<open>
  What the code reads from outside: the number of processors, the one that runs the code,
  \<^verbatim>\<open>cpupri_find()\<close>, whose value \<open>None\<close> is 0, whether the working mask is allocated, the scheduling
  domains of a processor from the smallest (whether \<^verbatim>\<open>SD_WAKE_AFFINE\<close> is set, and the span), and what
  the other processors do while the lock is given up for the \<open>n\<close>th time.
\<close>

record push_env =
  nr_cpu_ids :: nat
  this_cpu :: nat
  cpupri_find :: "smp \<Rightarrow> tid \<Rightarrow> cpumask option"
  mask_allocated :: bool
  domains :: "nat \<Rightarrow> (bool \<times> cpumask) list"
  others :: "nat \<Rightarrow> smp \<Rightarrow> smp"

abbreviation upd_cpu :: "nat \<Rightarrow> (push_rq \<Rightarrow> push_rq) \<Rightarrow> smp \<Rightarrow> smp" where
  "upd_cpu c f \<equiv> cpus_update (\<lambda>qs. qs(c := f (qs c)))"

abbreviation upd_thread :: "tid \<Rightarrow> (push_task \<Rightarrow> push_task) \<Rightarrow> smp \<Rightarrow> smp" where
  "upd_thread p f \<equiv> threads_update (\<lambda>ts. ts(p := f (ts p)))"

definition cpumask_weight :: "push_env \<Rightarrow> cpumask \<Rightarrow> int" where
  "cpumask_weight e m = int (length (filter (\<lambda>c. c \<in> m) [0..<nr_cpu_ids e]))"

definition cpumask_first :: "push_env \<Rightarrow> cpumask \<Rightarrow> nat option" where
  "cpumask_first e m = find (\<lambda>c. c \<in> m) [0..<nr_cpu_ids e]"

definition is_rt_task :: "tid \<Rightarrow> smp \<Rightarrow> bool" where
  "is_rt_task p s \<longleftrightarrow> pt_prio (threads s p) < MAX_RT_PRIO"

definition thread_running :: "tid \<Rightarrow> smp \<Rightarrow> bool" where
  "thread_running p s = pt_on_cpu (threads s p)"

definition resched_task_smp :: "push_env \<Rightarrow> tid \<Rightarrow> smp \<Rightarrow> smp" where
  "resched_task_smp e p s =
     (if pt_resched (threads s p) then s
      else
        let s1 = upd_thread p (pt_resched_update (\<lambda>_. True)) s;
            cpu = pt_cpu (threads s1 p)
        in if cpu = this_cpu e then s1
           else if \<not> pt_polling (threads s1 p) then s1\<lparr>ipis := ipis s1 @ [cpu]\<rparr> else s1)"

definition set_task_cpu :: "tid \<Rightarrow> nat \<Rightarrow> smp \<Rightarrow> smp" where
  "set_task_cpu p c s =
     (let s1 = (if pt_cpu (threads s p) \<noteq> c then upd_thread p (pt_migrations_update (\<lambda>n. n + 1)) s else s)
      in upd_thread p (pt_cpu_update (\<lambda>_. c)) s1)"

text \<open>\<^verbatim>\<open>double_lock_balance()\<close> unlocks the run queue, so that others may act, and locks both.\<close>

definition double_lock_balance :: "push_env \<Rightarrow> smp \<Rightarrow> smp" where
  "double_lock_balance e s = others e (turns s) (s\<lparr>turns := turns s + 1\<rparr>)"

section \<open>Overload\<close>

definition rt_overloaded :: "smp \<Rightarrow> bool" where
  "rt_overloaded s \<longleftrightarrow> rto_count s \<noteq> 0"

definition rt_set_overload :: "nat \<Rightarrow> smp \<Rightarrow> smp" where
  "rt_set_overload c s =
     (if \<not> pq_online (cpus s c) then s
      else s\<lparr>rto_mask := insert c (rto_mask s), rto_count := rto_count s + 1\<rparr>)"

definition rt_clear_overload :: "nat \<Rightarrow> smp \<Rightarrow> smp" where
  "rt_clear_overload c s =
     (if \<not> pq_online (cpus s c) then s
      else s\<lparr>rto_count := rto_count s - 1, rto_mask := rto_mask s - {c}\<rparr>)"

definition update_rt_migration :: "nat \<Rightarrow> smp \<Rightarrow> smp" where
  "update_rt_migration c s =
     (let q = cpus s c
      in if rt_nr_migratory q \<noteq> 0 \<and> rt_nr_total q > 1
         then if \<not> is_overloaded q then upd_cpu c (is_overloaded_update (\<lambda>_. True)) (rt_set_overload c s) else s
         else if is_overloaded q then upd_cpu c (is_overloaded_update (\<lambda>_. False)) (rt_clear_overload c s) else s)"

definition inc_rt_migration :: "tid \<Rightarrow> nat \<Rightarrow> smp \<Rightarrow> smp" where
  "inc_rt_migration p c s =
     (let s1 = upd_cpu c (rt_nr_total_update (\<lambda>n. n + 1)) s;
          s2 = (if pt_nr_allowed (threads s1 p) > 1
                then upd_cpu c (rt_nr_migratory_update (\<lambda>n. n + 1)) s1 else s1)
      in update_rt_migration c s2)"

definition dec_rt_migration :: "tid \<Rightarrow> nat \<Rightarrow> smp \<Rightarrow> smp" where
  "dec_rt_migration p c s =
     (let s1 = upd_cpu c (rt_nr_total_update (\<lambda>n. n - 1)) s;
          s2 = (if pt_nr_allowed (threads s1 p) > 1
                then upd_cpu c (rt_nr_migratory_update (\<lambda>n. n - 1)) s1 else s1)
      in update_rt_migration c s2)"

section \<open>The tasks that may be pushed\<close>

text \<open>
  A \<^verbatim>\<open>plist\<close> is sorted by the priority of its nodes, those of one priority in the order of their
  insertion; deleting a node that is in no list has no effect.
\<close>

fun plist_add :: "int \<times> tid \<Rightarrow> (int \<times> tid) list \<Rightarrow> (int \<times> tid) list" where
  "plist_add x [] = [x]"
| "plist_add x (y # ys) = (if fst x < fst y then x # y # ys else y # plist_add x ys)"

definition plist_del :: "tid \<Rightarrow> (int \<times> tid) list \<Rightarrow> (int \<times> tid) list" where
  "plist_del p = filter (\<lambda>x. snd x \<noteq> p)"

definition has_pushable_tasks :: "nat \<Rightarrow> smp \<Rightarrow> bool" where
  "has_pushable_tasks c s \<longleftrightarrow> pushable (cpus s c) \<noteq> []"

definition enqueue_pushable_task :: "nat \<Rightarrow> tid \<Rightarrow> smp \<Rightarrow> smp" where
  "enqueue_pushable_task c p s =
     (let s1 = upd_cpu c (pushable_update (plist_del p)) s;
          s2 = upd_cpu c (pushable_update (plist_add (pt_prio (threads s1 p), p))) s1
      in if pt_prio (threads s2 p) < highest_next (cpus s2 c)
         then upd_cpu c (highest_next_update (\<lambda>_. pt_prio (threads s2 p))) s2 else s2)"

definition dequeue_pushable_task :: "nat \<Rightarrow> tid \<Rightarrow> smp \<Rightarrow> smp" where
  "dequeue_pushable_task c p s =
     (let s1 = upd_cpu c (pushable_update (plist_del p)) s
      in case pushable (cpus s1 c) of
           [] \<Rightarrow> upd_cpu c (highest_next_update (\<lambda>_. MAX_RT_PRIO)) s1
         | x # xs \<Rightarrow> upd_cpu c (highest_next_update (\<lambda>_. pt_prio (threads s1 (snd x)))) s1)"

section \<open>Queueing\<close>

text \<open>
  \<^verbatim>\<open>inc_rt_prio()\<close> and \<^verbatim>\<open>dec_rt_prio()\<close> with their part for several processors. The accounting of
  run time, which \<^verbatim>\<open>inc_rt_group()\<close> and \<^verbatim>\<open>update_curr_rt()\<close> do, is not part of this state.
\<close>

definition inc_rt_prio_smp :: "nat \<Rightarrow> int \<Rightarrow> int \<Rightarrow> smp \<Rightarrow> smp" where
  "inc_rt_prio_smp c pr prev_prio s =
     (if pq_online (cpus s c) \<and> pr < prev_prio then s\<lparr>cpu_pri := (cpu_pri s)(c := pr)\<rparr> else s)"

definition dec_rt_prio_smp :: "nat \<Rightarrow> int \<Rightarrow> smp \<Rightarrow> smp" where
  "dec_rt_prio_smp c prev_prio s =
     (if pq_online (cpus s c) \<and> highest_prio (pq_rt (cpus s c)) \<noteq> prev_prio
      then s\<lparr>cpu_pri := (cpu_pri s)(c := highest_prio (pq_rt (cpus s c)))\<rparr> else s)"

definition inc_rt_tasks_smp :: "tid \<Rightarrow> nat \<Rightarrow> smp \<Rightarrow> smp" where
  "inc_rt_tasks_smp p c s =
     (let pr = pt_prio (threads s p);
          s1 = upd_cpu c (pq_rt_update (rt_nr_running_update (\<lambda>n. n + 1))) s;
          prev_prio = highest_prio (pq_rt (cpus s1 c));
          s2 = inc_rt_prio_smp c pr prev_prio (upd_cpu c (pq_rt_update (inc_rt_prio pr)) s1)
      in inc_rt_migration p c s2)"

definition dec_rt_tasks_smp :: "tid \<Rightarrow> nat \<Rightarrow> smp \<Rightarrow> smp" where
  "dec_rt_tasks_smp p c s =
     (let pr = pt_prio (threads s p);
          s1 = upd_cpu c (pq_rt_update (rt_nr_running_update (\<lambda>n. n - 1))) s;
          prev_prio = highest_prio (pq_rt (cpus s1 c));
          s2 = dec_rt_prio_smp c prev_prio (upd_cpu c (pq_rt_update (dec_rt_prio pr)) s1)
      in dec_rt_migration p c s2)"

text \<open>\<^verbatim>\<open>__enqueue_rt_entity()\<close>, \<^verbatim>\<open>__dequeue_rt_entity()\<close> for a task, whose run queue is that of its processor.\<close>

definition set_rt_array :: "(rt_prio_array \<Rightarrow> rt_prio_array) \<Rightarrow> nat \<Rightarrow> smp \<Rightarrow> smp" where
  "set_rt_array f c = upd_cpu c (pq_rt_update (rt_active_update f))"

definition rt_array :: "nat \<Rightarrow> smp \<Rightarrow> rt_prio_array" where
  "rt_array c s = rt_active (pq_rt (cpus s c))"

definition on_rt_rq_smp :: "tid \<Rightarrow> smp \<Rightarrow> bool" where
  "on_rt_rq_smp p s =
     list_ex (\<lambda>i. Rt_Task p \<in> set (queue (rt_array (pt_cpu (threads s p)) s) i)) [0..<100]"

definition enqueue_rt_entity1_smp :: "tid \<Rightarrow> bool \<Rightarrow> smp \<Rightarrow> smp" where
  "enqueue_rt_entity1_smp p head s =
     (let c = pt_cpu (threads s p);
          i = nat (pt_prio (threads s p));
          s1 = set_rt_array (queue_update (\<lambda>qs. qs(i :=
                 (if head then list_add (Rt_Task p) else list_add_tail (Rt_Task p)) (qs i)))) c s;
          s2 = set_rt_array (bitmap_update (\<lambda>bs. bs(i := True))) c s1
      in inc_rt_tasks_smp p c s2)"

definition dequeue_rt_entity1_smp :: "tid \<Rightarrow> smp \<Rightarrow> smp" where
  "dequeue_rt_entity1_smp p s =
     (let c = pt_cpu (threads s p);
          i = nat (pt_prio (threads s p));
          s1 = set_rt_array (queue_update (\<lambda>qs j. list_del_init (Rt_Task p) (qs j))) c s;
          s2 = (if queue (rt_array c s1) i = []
                then set_rt_array (bitmap_update (\<lambda>bs. bs(i := False))) c s1 else s1)
      in dec_rt_tasks_smp p c s2)"

definition dequeue_rt_entity_smp :: "tid \<Rightarrow> smp \<Rightarrow> smp" where
  "dequeue_rt_entity_smp p s = (if on_rt_rq_smp p s then dequeue_rt_entity1_smp p s else s)"

definition enqueue_rt_entity_smp :: "tid \<Rightarrow> bool \<Rightarrow> smp \<Rightarrow> smp" where
  "enqueue_rt_entity_smp p head s = enqueue_rt_entity1_smp p head (dequeue_rt_entity_smp p s)"

definition enqueue_task_rt_smp :: "nat \<Rightarrow> tid \<Rightarrow> bool \<Rightarrow> smp \<Rightarrow> smp" where
  "enqueue_task_rt_smp c p head s =
     (let s1 = enqueue_rt_entity_smp p head s;
          s2 = (if pq_curr (cpus s1 c) \<noteq> p \<and> pt_nr_allowed (threads s1 p) > 1
                then enqueue_pushable_task c p s1 else s1)
      in upd_cpu c (pq_nr_running_update (\<lambda>n. n + 1)) s2)"

definition dequeue_task_rt_smp :: "nat \<Rightarrow> tid \<Rightarrow> smp \<Rightarrow> smp" where
  "dequeue_task_rt_smp c p s =
     (let s1 = dequeue_rt_entity_smp p s;
          s2 = dequeue_pushable_task c p s1
      in upd_cpu c (pq_nr_running_update (\<lambda>n. n - 1)) s2)"

text \<open>\<^verbatim>\<open>activate_task()\<close> and \<^verbatim>\<open>deactivate_task()\<close> for a real-time task.\<close>

definition activate_rt :: "nat \<Rightarrow> tid \<Rightarrow> smp \<Rightarrow> smp" where
  "activate_rt c p s =
     (let s1 = (if pt_contributes (threads s p) then upd_cpu c (pq_nr_unint_update (\<lambda>n. n - 1)) s else s)
      in enqueue_task_rt_smp c p False s1)"

definition deactivate_rt :: "nat \<Rightarrow> tid \<Rightarrow> smp \<Rightarrow> smp" where
  "deactivate_rt c p s =
     (let s1 = (if pt_contributes (threads s p) then upd_cpu c (pq_nr_unint_update (\<lambda>n. n + 1)) s else s)
      in dequeue_task_rt_smp c p s1)"

text \<open>\<^verbatim>\<open>requeue_task_rt()\<close>\<close>

definition requeue_task_rt_smp :: "tid \<Rightarrow> bool \<Rightarrow> smp \<Rightarrow> smp" where
  "requeue_task_rt_smp p head s =
     (if on_rt_rq_smp p s
      then set_rt_array (queue_update (\<lambda>qs j.
             if j = nat (pt_prio (threads s p))
             then (if head then list_move (Rt_Task p) else list_move_tail (Rt_Task p)) (qs j)
             else list_del_init (Rt_Task p) (qs j))) (pt_cpu (threads s p)) s
      else s)"

section \<open>Where a task may go\<close>

text \<open>\<^verbatim>\<open>find_lowest_rq()\<close>; \<open>None\<close> is -1. The loop over the domains of the processor of the task.\<close>

fun lowest_in_domains :: "push_env \<Rightarrow> cpumask \<Rightarrow> nat option \<Rightarrow> (bool \<times> cpumask) list \<Rightarrow> nat option" where
  "lowest_in_domains e lowest this [] = None"
| "lowest_in_domains e lowest this ((affine, span) # sds) =
     (if affine then
        if this \<noteq> None \<and> the this \<in> span then this
        else case cpumask_first e (lowest \<inter> span) of
               Some best \<Rightarrow> Some best
             | None \<Rightarrow> lowest_in_domains e lowest this sds
      else lowest_in_domains e lowest this sds)"

definition find_lowest_rq :: "push_env \<Rightarrow> tid \<Rightarrow> smp \<Rightarrow> nat option" where
  "find_lowest_rq e p s =
     (let cpu = pt_cpu (threads s p)
      in if \<not> mask_allocated e then None
         else if pt_nr_allowed (threads s p) = 1 then None
         else case cpupri_find e s p of
           None \<Rightarrow> None
         | Some lowest \<Rightarrow>
             if cpu \<in> lowest then Some cpu
             else
               let this = (if this_cpu e \<in> lowest then Some (this_cpu e) else None)
               in case lowest_in_domains e lowest this (domains e cpu) of
                    Some c \<Rightarrow> Some c
                  | None \<Rightarrow> if this \<noteq> None then this else cpumask_first e lowest)"

definition RT_MAX_TRIES :: nat where "RT_MAX_TRIES = 3"

text \<open>\<^verbatim>\<open>find_lock_lowest_rq()\<close>, with the number of tries left.\<close>

fun find_lock_lowest_rq :: "push_env \<Rightarrow> nat \<Rightarrow> tid \<Rightarrow> nat \<Rightarrow> smp \<Rightarrow> nat option \<times> smp" where
  "find_lock_lowest_rq e 0 p c s = (None, s)"
| "find_lock_lowest_rq e (Suc tries) p c s =
     (case find_lowest_rq e p s of
        None \<Rightarrow> (None, s)
      | Some cpu \<Rightarrow>
          if cpu = c then (None, s)
          else
            let s1 = double_lock_balance e s
            in if pt_cpu (threads s1 p) \<noteq> c \<or> cpu \<notin> pt_allowed (threads s1 p) \<or> thread_running p s1
                  \<or> \<not> pt_on_rq (threads s1 p)
               then (None, s1)
               else if highest_prio (pq_rt (cpus s1 cpu)) > pt_prio (threads s1 p) then (Some cpu, s1)
               else find_lock_lowest_rq e tries p c s1)"

section \<open>Pushing\<close>

text \<open>\<^verbatim>\<open>pick_next_pushable_task()\<close>: the outer \<open>None\<close> is one of its five \<^verbatim>\<open>BUG_ON()\<close>.\<close>

definition pick_next_pushable_task :: "nat \<Rightarrow> smp \<Rightarrow> tid option option" where
  "pick_next_pushable_task c s =
     (case pushable (cpus s c) of
        [] \<Rightarrow> Some None
      | x # xs \<Rightarrow>
          let p = snd x
          in if c \<noteq> pt_cpu (threads s p) \<or> pq_curr (cpus s c) = p \<or> pt_nr_allowed (threads s p) \<le> 1
                \<or> \<not> pt_on_rq (threads s p) \<or> \<not> is_rt_task p s
             then None else Some (Some p))"

text \<open>From the label \<^verbatim>\<open>retry\<close> on; the value says whether a task was moved.\<close>

partial_function (option) push_rt_retry :: "push_env \<Rightarrow> nat \<Rightarrow> tid \<Rightarrow> smp \<Rightarrow> (bool \<times> smp) option" where
  "push_rt_retry e c next_task s =
     (if next_task = pq_curr (cpus s c) then Some (False, s)
      else if pt_prio (threads s next_task) < pt_prio (threads s (pq_curr (cpus s c)))
      then Some (False, resched_task_smp e (pq_curr (cpus s c)) s)
      else
        (case find_lock_lowest_rq e RT_MAX_TRIES next_task c s of
           (None, s1) \<Rightarrow>
             Option.bind (pick_next_pushable_task c s1) (\<lambda>task.
               if pt_cpu (threads s1 next_task) = c \<and> task = Some next_task then Some (False, s1)
               else case task of
                      None \<Rightarrow> Some (False, s1)
                    | Some t \<Rightarrow> push_rt_retry e c t s1)
         | (Some l, s1) \<Rightarrow>
             let s2 = deactivate_rt c next_task s1;
                 s3 = set_task_cpu next_task l s2;
                 s4 = activate_rt l next_task s3
             in Some (True, resched_task_smp e (pq_curr (cpus s4 l)) s4)))"

definition push_rt_task :: "push_env \<Rightarrow> nat \<Rightarrow> smp \<Rightarrow> (bool \<times> smp) option" where
  "push_rt_task e c s =
     (if \<not> is_overloaded (cpus s c) then Some (False, s)
      else Option.bind (pick_next_pushable_task c s) (\<lambda>task.
             case task of None \<Rightarrow> Some (False, s) | Some p \<Rightarrow> push_rt_retry e c p s))"

partial_function (option) push_rt_tasks :: "push_env \<Rightarrow> nat \<Rightarrow> smp \<Rightarrow> smp option" where
  "push_rt_tasks e c s =
     Option.bind (push_rt_task e c s) (\<lambda>x. if fst x then push_rt_tasks e c (snd x) else Some (snd x))"

section \<open>Pulling\<close>

definition pick_rt_task :: "nat \<Rightarrow> smp \<Rightarrow> tid \<Rightarrow> bool" where
  "pick_rt_task cpu s p \<longleftrightarrow>
     \<not> thread_running p s \<and> cpu \<in> pt_allowed (threads s p) \<and> pt_nr_allowed (threads s p) > 1"

fun task_of_entity :: "rt_entity \<Rightarrow> tid option" where
  "task_of_entity (Rt_Task p) = Some p"
| "task_of_entity (Rt_Group g) = None"

text \<open>
  \<^verbatim>\<open>pick_next_highest_task_rt()\<close>: from the first priority with a task on, until a queue has one that
  may be picked.
\<close>

definition find_next_bit :: "(nat \<Rightarrow> bool) \<Rightarrow> nat \<Rightarrow> nat \<Rightarrow> nat" where
  "find_next_bit b n i = (case find b [i..<n] of Some j \<Rightarrow> j | None \<Rightarrow> n)"

lemma find_next_bit_ge: "i \<le> n \<Longrightarrow> i \<le> find_next_bit b n i"
  by (auto simp: find_next_bit_def find_Some_iff split: option.split)

function highest_from :: "nat \<Rightarrow> rt_prio_array \<Rightarrow> smp \<Rightarrow> nat \<Rightarrow> tid option" where
  "highest_from cpu a s idx =
     (if idx \<ge> 100 then None
      else case find (pick_rt_task cpu s) (List.map_filter task_of_entity (queue a idx)) of
             Some p \<Rightarrow> Some p
           | None \<Rightarrow> highest_from cpu a s (find_next_bit (bitmap a) 100 (idx + 1)))"
  by pat_completeness auto

termination
proof (relation "measure (\<lambda>(cpu, a, s, idx). 100 - idx)")
  fix a :: rt_prio_array and idx :: nat
  assume "\<not> 100 \<le> idx"
  then have "idx < find_next_bit (bitmap a) 100 (idx + 1)"
    using find_next_bit_ge [of "idx + 1" 100 "bitmap a"] by simp
  then show "((cpu, a, s, find_next_bit (bitmap a) 100 (idx + 1)), cpu, a, s, idx)
      \<in> measure (\<lambda>(cpu, a, s, idx). 100 - idx)" for cpu :: nat and s :: smp
    using \<open>\<not> 100 \<le> idx\<close> by simp
qed simp

declare highest_from.simps [simp del]

definition pick_next_highest_task_rt :: "nat \<Rightarrow> nat \<Rightarrow> smp \<Rightarrow> tid option" where
  "pick_next_highest_task_rt src cpu s =
     highest_from cpu (rt_array src s) s (nat (sched_find_first_bit (bitmap (rt_array src s))))"

text \<open>
  \<^verbatim>\<open>pull_rt_task()\<close>: the loop reads the mask of the overloaded processors as it goes. The value says
  whether a task was moved.
\<close>

fun pull_loop :: "push_env \<Rightarrow> nat \<Rightarrow> nat list \<Rightarrow> bool \<Rightarrow> smp \<Rightarrow> bool \<times> smp" where
  "pull_loop e c [] ret s = (ret, s)"
| "pull_loop e c (cpu # rest) ret s =
     (if cpu \<notin> rto_mask s then pull_loop e c rest ret s
      else if c = cpu then pull_loop e c rest ret s
      else if highest_next (cpus s cpu) \<ge> highest_prio (pq_rt (cpus s c)) then pull_loop e c rest ret s
      else
        let s1 = double_lock_balance e s
        in if rt_nr_running (pq_rt (cpus s1 cpu)) \<le> 1 then pull_loop e c rest ret s1
           else case pick_next_highest_task_rt cpu c s1 of
                  None \<Rightarrow> pull_loop e c rest ret s1
                | Some p \<Rightarrow>
                    if pt_prio (threads s1 p) < highest_prio (pq_rt (cpus s1 c)) then
                      if pt_prio (threads s1 p) < pt_prio (threads s1 (pq_curr (cpus s1 cpu)))
                      then pull_loop e c rest ret s1
                      else pull_loop e c rest True
                             (activate_rt c p (set_task_cpu p c (deactivate_rt cpu p s1)))
                    else pull_loop e c rest ret s1)"

definition pull_rt_task :: "push_env \<Rightarrow> nat \<Rightarrow> smp \<Rightarrow> bool \<times> smp" where
  "pull_rt_task e c s =
     (if \<not> rt_overloaded s then (False, s) else pull_loop e c [0..<nr_cpu_ids e] False s)"

section \<open>Around scheduling\<close>

definition pre_schedule_rt :: "push_env \<Rightarrow> nat \<Rightarrow> tid \<Rightarrow> smp \<Rightarrow> smp" where
  "pre_schedule_rt e c prev s =
     (if highest_prio (pq_rt (cpus s c)) > pt_prio (threads s prev) then snd (pull_rt_task e c s) else s)"

definition put_prev_task_rt_smp :: "nat \<Rightarrow> tid \<Rightarrow> smp \<Rightarrow> smp" where
  "put_prev_task_rt_smp c p s =
     (if on_rt_rq_smp p s \<and> pt_nr_allowed (threads s p) > 1 then enqueue_pushable_task c p s else s)"

text \<open>\<^verbatim>\<open>_pick_next_task_rt()\<close> and \<^verbatim>\<open>pick_next_task_rt()\<close>; the outer \<open>None\<close> is \<^verbatim>\<open>BUG_ON(idx >= MAX_RT_PRIO)\<close>.\<close>

definition first_rt_task :: "nat \<Rightarrow> smp \<Rightarrow> tid option option" where
  "first_rt_task c s =
     (if rt_nr_running (pq_rt (cpus s c)) = 0 then Some None
      else if rt_throttled (pq_rt (cpus s c)) then Some None
      else
        let idx = sched_find_first_bit (bitmap (rt_array c s))
        in if idx \<ge> MAX_RT_PRIO then None
           else case queue (rt_array c s) (nat idx) of
                  [] \<Rightarrow> None
                | se # q \<Rightarrow> (case task_of_entity se of Some p \<Rightarrow> Some (Some p) | None \<Rightarrow> None))"

definition pick_next_task_rt_smp :: "nat \<Rightarrow> smp \<Rightarrow> (tid option \<times> smp) option" where
  "pick_next_task_rt_smp c s =
     map_option (\<lambda>t.
       let s1 = (case t of Some p \<Rightarrow> dequeue_pushable_task c p s | None \<Rightarrow> s)
       in (t, upd_cpu c (pq_post_schedule_update (\<lambda>_. has_pushable_tasks c s1)) s1)) (first_rt_task c s)"

definition set_curr_task_rt_smp :: "nat \<Rightarrow> smp \<Rightarrow> smp" where
  "set_curr_task_rt_smp c s = dequeue_pushable_task c (pq_curr (cpus s c)) s"

definition post_schedule_rt :: "push_env \<Rightarrow> nat \<Rightarrow> smp \<Rightarrow> smp option" where
  "post_schedule_rt e c s = push_rt_tasks e c s"

definition task_woken_rt :: "push_env \<Rightarrow> nat \<Rightarrow> tid \<Rightarrow> smp \<Rightarrow> smp option" where
  "task_woken_rt e c p s =
     (let cur = pq_curr (cpus s c)
      in if \<not> thread_running p s \<and> \<not> pt_resched (threads s cur) \<and> has_pushable_tasks c s
            \<and> pt_nr_allowed (threads s p) > 1 \<and> is_rt_task cur s
            \<and> (pt_nr_allowed (threads s cur) < 2 \<or> pt_prio (threads s cur) \<le> pt_prio (threads s p))
         then push_rt_tasks e c s else Some s)"

text \<open>\<^verbatim>\<open>balance\<close> says that the task is woken or forked (\<^verbatim>\<open>SD_BALANCE_WAKE\<close>, \<^verbatim>\<open>SD_BALANCE_FORK\<close>).\<close>

definition select_task_rq_rt :: "push_env \<Rightarrow> tid \<Rightarrow> bool \<Rightarrow> smp \<Rightarrow> nat" where
  "select_task_rq_rt e p balance s =
     (let cpu = pt_cpu (threads s p); cur = pq_curr (cpus s cpu)
      in if pt_nr_allowed (threads s p) = 1 then cpu
         else if \<not> balance then cpu
         else if is_rt_task cur s
               \<and> (pt_nr_allowed (threads s cur) < 2 \<or> pt_prio (threads s cur) \<le> pt_prio (threads s p))
               \<and> pt_nr_allowed (threads s p) > 1
         then (case find_lowest_rq e p s of Some target \<Rightarrow> target | None \<Rightarrow> cpu)
         else cpu)"

definition check_preempt_equal_prio :: "push_env \<Rightarrow> nat \<Rightarrow> tid \<Rightarrow> smp \<Rightarrow> smp" where
  "check_preempt_equal_prio e c p s =
     (let cur = pq_curr (cpus s c)
      in if pt_nr_allowed (threads s cur) = 1 then s
         else if pt_nr_allowed (threads s p) \<noteq> 1 \<and> cpupri_find e s p \<noteq> None then s
         else if cpupri_find e s cur = None then s
         else resched_task_smp e cur (requeue_task_rt_smp p True s))"

definition check_preempt_curr_rt_smp :: "push_env \<Rightarrow> nat \<Rightarrow> tid \<Rightarrow> smp \<Rightarrow> smp" where
  "check_preempt_curr_rt_smp e c p s =
     (let cur = pq_curr (cpus s c)
      in if pt_prio (threads s p) < pt_prio (threads s cur) then resched_task_smp e cur s
         else if pt_prio (threads s p) = pt_prio (threads s cur) \<and> \<not> pt_resched (threads s cur)
         then check_preempt_equal_prio e c p s else s)"

section \<open>Changes of a task or of a processor\<close>

text \<open>
  \<^verbatim>\<open>set_cpus_allowed_rt()\<close>: \<open>None\<close> is one of its \<^verbatim>\<open>BUG_ON()\<close>; \<^verbatim>\<open>do_set_cpus_allowed()\<close> then stores
  the mask (its last line, for a field the WRR entity does not have, does not compile).
\<close>

definition set_cpus_allowed_rt :: "push_env \<Rightarrow> tid \<Rightarrow> cpumask \<Rightarrow> smp \<Rightarrow> smp option" where
  "set_cpus_allowed_rt e p new_mask s =
     (let w = cpumask_weight e new_mask; n = pt_nr_allowed (threads s p); c = pt_cpu (threads s p)
      in if \<not> is_rt_task p s then None
         else if pt_on_rq (threads s p) \<and> w \<noteq> n then
           let s1 = (if pq_curr (cpus s c) \<noteq> p then
                       let s0 = (if n > 1 then dequeue_pushable_task c p s else s)
                       in if w > 1 then enqueue_pushable_task c p s0 else s0
                     else s)
           in if n \<le> 1 \<and> w > 1
              then Some (update_rt_migration c (upd_cpu c (rt_nr_migratory_update (\<lambda>m. m + 1)) s1))
              else if n > 1 \<and> w \<le> 1 then
                if rt_nr_migratory (cpus s1 c) = 0 then None
                else Some (update_rt_migration c (upd_cpu c (rt_nr_migratory_update (\<lambda>m. m - 1)) s1))
              else Some (update_rt_migration c s1)
         else Some s)"

definition do_set_cpus_allowed :: "push_env \<Rightarrow> tid \<Rightarrow> cpumask \<Rightarrow> smp \<Rightarrow> smp option" where
  "do_set_cpus_allowed e p new_mask s =
     map_option (upd_thread p (\<lambda>t. t\<lparr>pt_allowed := new_mask, pt_nr_allowed := cpumask_weight e new_mask\<rparr>))
       (if is_rt_task p s then set_cpus_allowed_rt e p new_mask s else Some s)"

definition switched_from_rt :: "push_env \<Rightarrow> nat \<Rightarrow> tid \<Rightarrow> smp \<Rightarrow> smp" where
  "switched_from_rt e c p s =
     (if pt_on_rq (threads s p) \<and> rt_nr_running (pq_rt (cpus s c)) = 0
      then snd (pull_rt_task e c s) else s)"

definition switched_to_rt_smp :: "push_env \<Rightarrow> nat \<Rightarrow> tid \<Rightarrow> smp \<Rightarrow> smp option" where
  "switched_to_rt_smp e c p s =
     (if pt_on_rq (threads s p) \<and> pq_curr (cpus s c) \<noteq> p then
        Option.bind (if is_overloaded (cpus s c) then push_rt_task e c s else Some (False, s)) (\<lambda>(pushed, s1).
          Some (if \<not> (pushed \<and> pt_cpu (threads s1 p) \<noteq> c)
                   \<and> pt_prio (threads s1 p) < pt_prio (threads s1 (pq_curr (cpus s1 c)))
                then resched_task_smp e (pq_curr (cpus s1 c)) s1 else s1))
      else Some s)"

definition prio_changed_rt_smp :: "push_env \<Rightarrow> nat \<Rightarrow> tid \<Rightarrow> int \<Rightarrow> smp \<Rightarrow> smp" where
  "prio_changed_rt_smp e c p oldprio s =
     (if \<not> pt_on_rq (threads s p) then s
      else if pq_curr (cpus s c) = p then
        let s1 = (if oldprio < pt_prio (threads s p) then snd (pull_rt_task e c s) else s)
        in if pt_prio (threads s1 p) > highest_prio (pq_rt (cpus s1 c)) \<and> pq_curr (cpus s1 c) = p
           then resched_task_smp e p s1 else s1
      else if pt_prio (threads s p) < pt_prio (threads s (pq_curr (cpus s c)))
      then resched_task_smp e (pq_curr (cpus s c)) s else s)"

text \<open>
  The part of \<^verbatim>\<open>rq_online_rt()\<close> and \<^verbatim>\<open>rq_offline_rt()\<close> that is about overload; \<^verbatim>\<open>rq->online\<close> is
  set by the callers, before the one and after the other. \<open>CPUPRI_INVALID\<close> is -1.
\<close>

definition CPUPRI_INVALID :: int where "CPUPRI_INVALID = - 1"

definition rq_online_rt :: "nat \<Rightarrow> smp \<Rightarrow> smp" where
  "rq_online_rt c s =
     (let s1 = (if is_overloaded (cpus s c) then rt_set_overload c s else s)
      in s1\<lparr>cpu_pri := (cpu_pri s1)(c := highest_prio (pq_rt (cpus s1 c)))\<rparr>)"

definition rq_offline_rt :: "nat \<Rightarrow> smp \<Rightarrow> smp" where
  "rq_offline_rt c s =
     (let s1 = (if is_overloaded (cpus s c) then rt_clear_overload c s else s)
      in s1\<lparr>cpu_pri := (cpu_pri s1)(c := CPUPRI_INVALID)\<rparr>)"

text \<open>\<^verbatim>\<open>set_rq_online()\<close> and \<^verbatim>\<open>set_rq_offline()\<close> of \<^verbatim>\<open>core.c\<close>, as far as they concern this class.\<close>

definition set_rq_online :: "nat \<Rightarrow> smp \<Rightarrow> smp" where
  "set_rq_online c s =
     (if \<not> pq_online (cpus s c) then rq_online_rt c (upd_cpu c (pq_online_update (\<lambda>_. True)) s) else s)"

definition set_rq_offline :: "nat \<Rightarrow> smp \<Rightarrow> smp" where
  "set_rq_offline c s =
     (if pq_online (cpus s c) then upd_cpu c (pq_online_update (\<lambda>_. False)) (rq_offline_rt c s) else s)"

section \<open>The calls of the core\<close>

text \<open>
  \<^verbatim>\<open>pre_schedule()\<close> and \<^verbatim>\<open>post_schedule()\<close> of \<^verbatim>\<open>core.c\<close>; only the real-time class has these hooks,
  and a task is in it exactly when its priority says so.
\<close>

definition pre_schedule :: "push_env \<Rightarrow> nat \<Rightarrow> tid \<Rightarrow> smp \<Rightarrow> smp" where
  "pre_schedule e c prev s = (if is_rt_task prev s then pre_schedule_rt e c prev s else s)"

definition post_schedule :: "push_env \<Rightarrow> nat \<Rightarrow> smp \<Rightarrow> smp option" where
  "post_schedule e c s =
     (if pq_post_schedule (cpus s c)
      then map_option (upd_cpu c (pq_post_schedule_update (\<lambda>_. False)))
             (if is_rt_task (pq_curr (cpus s c)) s then post_schedule_rt e c s else Some s)
      else Some s)"

text \<open>
  The steps of \<^verbatim>\<open>__schedule()\<close> that concern this state. \<open>sleep\<close> says that the current task goes to
  sleep, \<open>other\<close> is the task that the lower classes would choose.
\<close>

definition switch_curr :: "nat \<Rightarrow> tid \<Rightarrow> smp \<Rightarrow> smp" where
  "switch_curr c nxt s =
     (let prev = pq_curr (cpus s c)
      in upd_thread nxt (pt_on_cpu_update (\<lambda>_. True))
           (upd_thread prev (pt_on_cpu_update (\<lambda>_. False)) (upd_cpu c (pq_curr_update (\<lambda>_. nxt)) s)))"

definition sleep_curr :: "nat \<Rightarrow> smp \<Rightarrow> smp" where
  "sleep_curr c s =
     (let prev = pq_curr (cpus s c);
          s1 = (if pt_on_rq (threads s prev) \<and> is_rt_task prev s then deactivate_rt c prev s else s)
      in upd_thread prev (pt_on_rq_update (\<lambda>_. False)) s1)"

definition schedule_smp :: "push_env \<Rightarrow> nat \<Rightarrow> bool \<Rightarrow> tid \<Rightarrow> smp \<Rightarrow> smp option" where
  "schedule_smp e c sleep other s =
     (let prev = pq_curr (cpus s c);
          s1 = (if sleep then sleep_curr c s else s);
          s2 = pre_schedule e c prev s1;
          s3 = (if is_rt_task prev s2 then put_prev_task_rt_smp c prev s2 else s2)
      in Option.bind (pick_next_task_rt_smp c s3) (\<lambda>(t, s4).
           let s5 = upd_thread prev (pt_resched_update (\<lambda>_. False)) s4
           in post_schedule e c (switch_curr c (case t of Some p \<Rightarrow> p | None \<Rightarrow> other) s5)))"

text \<open>A wake-up on processor \<open>c\<close>, as \<^verbatim>\<open>ttwu_do_activate()\<close> does it for a real-time task.\<close>

definition wake_up_rt :: "push_env \<Rightarrow> tid \<Rightarrow> nat \<Rightarrow> smp \<Rightarrow> smp option" where
  "wake_up_rt e p c s =
     (let s1 = activate_rt c p (set_task_cpu p c s);
          s2 = upd_thread p (pt_on_rq_update (\<lambda>_. True)) s1
      in task_woken_rt e c p (check_preempt_curr_rt_smp e c p s2))"

text \<open>
  A change of priority: off the queue, the new priority, back on the queue; then the hooks of
  \<^verbatim>\<open>check_class_changed()\<close>.
\<close>

definition prio_set :: "tid \<Rightarrow> int \<Rightarrow> bool \<Rightarrow> smp \<Rightarrow> smp" where
  "prio_set p pr head s =
     (let c = pt_cpu (threads s p);
          s1 = (if pt_on_rq (threads s p) \<and> is_rt_task p s then dequeue_task_rt_smp c p s else s);
          s2 = upd_thread p (pt_prio_update (\<lambda>_. pr)) s1;
          s3 = (if pq_curr (cpus s2 c) = p \<and> is_rt_task p s2 then set_curr_task_rt_smp c s2 else s2)
      in if pt_on_rq (threads s p) \<and> is_rt_task p s3 then enqueue_task_rt_smp c p head s3 else s3)"

definition set_prio_smp :: "push_env \<Rightarrow> tid \<Rightarrow> int \<Rightarrow> bool \<Rightarrow> smp \<Rightarrow> smp option" where
  "set_prio_smp e p pr head s =
     (let c = pt_cpu (threads s p); oldprio = pt_prio (threads s p);
          was_rt = is_rt_task p s; s4 = prio_set p pr head s
      in if was_rt \<and> \<not> is_rt_task p s4 then Some (switched_from_rt e c p s4)
         else if \<not> was_rt \<and> is_rt_task p s4 then switched_to_rt_smp e c p s4
         else if was_rt \<and> oldprio \<noteq> pr then Some (prio_changed_rt_smp e c p oldprio s4)
         else Some s4)"

end
