(* ===== verification/Rt_Push_Inv.thy ===== *)
theory Rt_Push_Inv
  imports Rt_Push Rt_Inv
begin

text \<open>
  The invariant of the real-time run queues of all processors, and what queueing, the list of
  the tasks that may be pushed and the overload mask do to it.
\<close>

section \<open>One run queue\<close>

text \<open>
  \<open>S\<close> are the tasks on the queue, \<open>P\<close> those on the list of pushable tasks; \<open>pr\<close> and \<open>al\<close> give the
  priority of a task and on how many processors it may run.
\<close>

fun ent_prio :: "(tid \<Rightarrow> int) \<Rightarrow> rt_entity \<Rightarrow> int" where
  "ent_prio pr (Rt_Task p) = pr p"
| "ent_prio pr (Rt_Group g) = - 1"

definition pid_ent :: "rt_entity \<Rightarrow> bool" where
  "pid_ent s \<longleftrightarrow> s \<in> Rt_Task ` {..<PID_MAX_LIMIT}"

lemma few_pid_ent [simp]: "few pid_ent"
proof -
  have "card (Rt_Task ` {..<PID_MAX_LIMIT}) < 2 ^ 32"
    using card_image_le [of "{..<PID_MAX_LIMIT}" Rt_Task] by (simp add: PID_MAX_LIMIT_def)
  then show ?thesis by (simp add: few_def pid_ent_def)
qed

definition plist_ok :: "(tid \<Rightarrow> int) \<Rightarrow> tid set \<Rightarrow> (int \<times> tid) list \<Rightarrow> bool" where
  "plist_ok pr P xs \<longleftrightarrow> sorted (map fst xs) \<and> distinct (map snd xs) \<and> set xs = (\<lambda>p. (pr p, p)) ` P"

definition plist_top :: "(int \<times> tid) list \<Rightarrow> int" where
  "plist_top xs = (case xs of [] \<Rightarrow> MAX_RT_PRIO | x # _ \<Rightarrow> fst x)"

definition pq_ok :: "(tid \<Rightarrow> int) \<Rightarrow> (tid \<Rightarrow> int) \<Rightarrow> tid set \<Rightarrow> tid set \<Rightarrow> push_rq \<Rightarrow> bool" where
  "pq_ok pr al S P q \<longleftrightarrow>
     rq_wf (ent_prio pr) pid_ent (pq_rt q) \<and> rt_ents (pq_rt q) = Rt_Task ` S \<and>
     plist_ok pr P (pushable q) \<and>
     highest_next q = plist_top (pushable q) \<and>
     rt_nr_total q = of_nat (card S) \<and> rt_nr_migratory q = of_nat (card {p \<in> S. 1 < al p})"

definition over :: "push_rq \<Rightarrow> bool" where
  "over q \<longleftrightarrow> rt_nr_migratory q \<noteq> 0 \<and> 1 < rt_nr_total q"

lemma pq_okD:
  assumes "pq_ok pr al S P q"
  shows "rq_wf (ent_prio pr) pid_ent (pq_rt q)" "rt_ents (pq_rt q) = Rt_Task ` S"
    "plist_ok pr P (pushable q)" "highest_next q = plist_top (pushable q)"
    "rt_nr_total q = of_nat (card S)" "rt_nr_migratory q = of_nat (card {p \<in> S. 1 < al p})"
  using assms by (auto simp: pq_ok_def)

lemma pq_ok_tasks:
  assumes "pq_ok pr al S P q"
  shows "S \<subseteq> {..<PID_MAX_LIMIT}" and "finite S" and "p \<in> S \<Longrightarrow> 0 \<le> pr p \<and> pr p < 100"
    and "Rt_Task p \<in> rt_ents (pq_rt q) \<longleftrightarrow> p \<in> S" and "card S < 2 ^ 32"
proof -
  note D = pq_okD [OF assms]
  show mem: "Rt_Task p \<in> rt_ents (pq_rt q) \<longleftrightarrow> p \<in> S" for p using D(2) by auto
  show 1: "S \<subseteq> {..<PID_MAX_LIMIT}"
  proof
    fix p assume "p \<in> S"
    then obtain i where "i < 100" "Rt_Task p \<in> set (queue (rt_active (pq_rt q)) i)"
      using mem by (auto simp: rt_ents_def)
    then have "pid_ent (Rt_Task p)" by (rule rq_wfD(5) [OF D(1)])
    then show "p \<in> {..<PID_MAX_LIMIT}" by (auto simp: pid_ent_def)
  qed
  then show 2: "finite S" by (rule finite_subset) simp
  have "card S \<le> PID_MAX_LIMIT" using card_mono [OF _ 1] by simp
  then show "card S < 2 ^ 32" by (simp add: PID_MAX_LIMIT_def)
  show "p \<in> S \<Longrightarrow> 0 \<le> pr p \<and> pr p < 100" using rt_ents_iff [OF D(1), of "Rt_Task p"] mem by auto
qed

section \<open>The list of pushable tasks\<close>

lemma set_plist_add [simp]: "set (plist_add x xs) = insert x (set xs)"
  by (induction xs) auto

lemma distinct_plist_add: "distinct (map snd xs) \<Longrightarrow> snd x \<notin> snd ` set xs \<Longrightarrow> distinct (map snd (plist_add x xs))"
  by (induction xs) auto

lemma sorted_plist_add: "sorted (map fst xs) \<Longrightarrow> sorted (map fst (plist_add x xs))"
  by (induction xs) fastforce+

lemma plist_top_le: "sorted (map fst xs) \<Longrightarrow> x \<in> set xs \<Longrightarrow> plist_top xs \<le> fst x"
  by (cases xs) (auto simp: plist_top_def)

lemma plist_top_add:
  "\<forall>y\<in>set xs. fst y < MAX_RT_PRIO \<Longrightarrow> fst x < MAX_RT_PRIO \<Longrightarrow> plist_top (plist_add x xs) = min (plist_top xs) (fst x)"
  by (cases xs) (auto simp: plist_top_def min_def)

lemma plist_del_ok: "plist_ok pr P xs \<Longrightarrow> plist_ok pr (P - {p}) (plist_del p xs)"
  unfolding plist_ok_def plist_del_def
  by (auto simp: sorted_filter distinct_map_filter)

lemma plist_add_ok:
  assumes "plist_ok pr P xs" and "p \<notin> P"
  shows "plist_ok pr (insert p P) (plist_add (pr p, p) xs)"
  using assms distinct_plist_add [of xs "(pr p, p)"] sorted_plist_add [of xs "(pr p, p)"]
  by (auto simp: plist_ok_def image_iff)

lemma plist_del_notin: "plist_ok pr P xs \<Longrightarrow> p \<notin> P \<Longrightarrow> plist_del p xs = xs"
  by (auto simp: plist_ok_def plist_del_def filter_id_conv)

lemma plist_ok_prio: "plist_ok pr P xs \<Longrightarrow> x \<in> set xs \<Longrightarrow> fst x = pr (snd x) \<and> snd x \<in> P"
  by (auto simp: plist_ok_def)

lemma plist_ok_finite: "plist_ok pr P xs \<Longrightarrow> finite P"
proof -
  assume "plist_ok pr P xs"
  then have "P = snd ` set xs" by (auto simp: plist_ok_def image_image)
  then show ?thesis by simp
qed

lemma plist_top_Min:
  assumes ok: "plist_ok pr P xs" and "\<forall>p\<in>P. pr p < MAX_RT_PRIO"
  shows "plist_top xs = Min (insert MAX_RT_PRIO (pr ` P))"
proof (cases xs)
  case Nil
  then show ?thesis using ok by (simp add: plist_top_def plist_ok_def)
next
  case (Cons x ys)
  have "Min (insert MAX_RT_PRIO (pr ` P)) = fst x"
  proof (rule Min_eqI)
    show "finite (insert MAX_RT_PRIO (pr ` P))" using plist_ok_finite [OF ok] by simp
    show "fst x \<in> insert MAX_RT_PRIO (pr ` P)" using plist_ok_prio [OF ok, of x] Cons by auto
    show "fst x \<le> y" if y: "y \<in> insert MAX_RT_PRIO (pr ` P)" for y
    proof (cases "y = MAX_RT_PRIO")
      case True
      then show ?thesis using plist_ok_prio [OF ok, of x] Cons assms(2) by fastforce
    next
      case False
      then obtain p where "p \<in> P" "y = pr p" using y by auto
      then have "(y, p) \<in> set xs" using ok by (auto simp: plist_ok_def)
      then show ?thesis using ok Cons by (auto simp: plist_ok_def)
    qed
  qed
  then show ?thesis using Cons by (simp add: plist_top_def)
qed

section \<open>Queueing on one run queue\<close>

text \<open>The run queue after a task was queued and after one was taken off.\<close>

definition q_enq0 :: "(tid \<Rightarrow> int) \<Rightarrow> (tid \<Rightarrow> int) \<Rightarrow> tid \<Rightarrow> bool \<Rightarrow> push_rq \<Rightarrow> push_rq" where
  "q_enq0 pr al p head q =
     q\<lparr>pq_rt := rq_add (Rt_Task p) (nat (pr p)) head False (pq_rt q), rt_nr_total := rt_nr_total q + 1,
       rt_nr_migratory := rt_nr_migratory q + of_bool (1 < al p)\<rparr>"

definition q_deq0 :: "(tid \<Rightarrow> int) \<Rightarrow> (tid \<Rightarrow> int) \<Rightarrow> tid \<Rightarrow> push_rq \<Rightarrow> push_rq" where
  "q_deq0 pr al p q =
     q\<lparr>pq_rt := rq_del (Rt_Task p) (nat (pr p)) False (pq_rt q), rt_nr_total := rt_nr_total q - 1,
       rt_nr_migratory := rt_nr_migratory q - of_bool (1 < al p)\<rparr>"

definition q_over :: "push_rq \<Rightarrow> push_rq" where
  "q_over q = q\<lparr>is_overloaded := over q\<rparr>"

abbreviation q_enq :: "(tid \<Rightarrow> int) \<Rightarrow> (tid \<Rightarrow> int) \<Rightarrow> tid \<Rightarrow> bool \<Rightarrow> push_rq \<Rightarrow> push_rq" where
  "q_enq pr al p head q \<equiv> q_over (q_enq0 pr al p head q)"

abbreviation q_deq :: "(tid \<Rightarrow> int) \<Rightarrow> (tid \<Rightarrow> int) \<Rightarrow> tid \<Rightarrow> push_rq \<Rightarrow> push_rq" where
  "q_deq pr al p q \<equiv> q_over (q_deq0 pr al p q)"

lemma q_over_simps [simp]:
  "pq_rt (q_over q) = pq_rt q" "pushable (q_over q) = pushable q" "highest_next (q_over q) = highest_next q"
  "rt_nr_total (q_over q) = rt_nr_total q" "rt_nr_migratory (q_over q) = rt_nr_migratory q"
  "is_overloaded (q_over q) = over q" "pq_curr (q_over q) = pq_curr q" "pq_online (q_over q) = pq_online q"
  "over (q_over q) = over q"
  by (simp_all add: q_over_def over_def)

definition q_push :: "(tid \<Rightarrow> int) \<Rightarrow> tid \<Rightarrow> push_rq \<Rightarrow> push_rq" where
  "q_push pr p q =
     q\<lparr>pushable := plist_add (pr p, p) (plist_del p (pushable q)), highest_next := min (highest_next q) (pr p)\<rparr>"

definition q_unpush :: "(tid \<Rightarrow> int) \<Rightarrow> tid \<Rightarrow> push_rq \<Rightarrow> push_rq" where
  "q_unpush pr p q =
     (let xs = plist_del p (pushable q)
      in q\<lparr>pushable := xs, highest_next := (case xs of [] \<Rightarrow> MAX_RT_PRIO | x # _ \<Rightarrow> pr (snd x))\<rparr>)"

lemma plist_ok_cong: "plist_ok pr P xs \<Longrightarrow> P = P' \<Longrightarrow> plist_ok pr P' xs"
  by simp

text \<open>Queueing leaves the list of pushable tasks alone.\<close>

lemma card_mig_insert:
  assumes "finite S" and "p \<notin> S"
  shows "card {x \<in> insert p S. 1 < al x} = card {x \<in> S. (1::int) < al x} + of_bool (1 < al p)"
proof -
  have "{x \<in> insert p S. 1 < al x} = (if 1 < al p then insert p {x \<in> S. 1 < al x} else {x \<in> S. 1 < al x})"
    by auto
  then show ?thesis using assms by simp
qed

lemma pq_ok_enq:
  assumes ok: "pq_ok pr al S P q" and p: "p \<notin> S" "p < PID_MAX_LIMIT" "0 \<le> pr p" "pr p < 100"
  shows "pq_ok pr al (insert p S) P (q_enq pr al p head q)"
proof -
  note D = pq_okD [OF ok] and T = pq_ok_tasks [OF ok]
  have "rq_wf (ent_prio pr) pid_ent (rq_add (Rt_Task p) (nat (pr p)) head False (pq_rt q))"
    by (rule rq_wf_add [OF D(1)]) (use p T(4) in \<open>auto simp: pid_ent_def\<close>)
  then show ?thesis
    using D p T(2) card_mig_insert [OF T(2) p(1), of al]
    by (auto simp: pq_ok_def q_enq0_def rt_ents_add)
qed

lemma pq_ok_deq:
  assumes ok: "pq_ok pr al S P q" and p: "p \<in> S"
  shows "pq_ok pr al (S - {p}) P (q_deq pr al p q)"
proof -
  note D = pq_okD [OF ok] and T = pq_ok_tasks [OF ok]
  have "Rt_Task p \<in> rt_ents (pq_rt q)" using p T(4) by simp
  then have "Rt_Task p \<in> set (queue (rt_active (pq_rt q)) (nat (pr p)))"
    using rt_ents_iff [OF D(1), of "Rt_Task p"] by simp
  then have wf: "rq_wf (ent_prio pr) pid_ent (rq_del (Rt_Task p) (nat (pr p)) False (pq_rt q))"
    using T(3) [OF p] by (intro rq_wf_del [OF D(1)]) auto
  have "S = insert p (S - {p})" using p by auto
  then have m: "card {y \<in> S. 1 < al y} = card {y \<in> S - {p}. 1 < al y} + of_bool (1 < al p)"
    using card_mig_insert [of "S - {p}" p al] T(2) by simp
  show ?thesis
    unfolding pq_ok_def using D wf rt_ents_del [OF D(1), of "Rt_Task p"]
    by (auto simp: q_deq0_def card_Suc_Diff1 [OF T(2) p, symmetric] m simp del: card_Diff_insert)
qed

lemma pq_ok_push:
  assumes ok: "pq_ok pr al S P q" and p: "p \<in> S" and P: "P \<subseteq> S"
  shows "pq_ok pr al S (insert p P) (q_push pr p q)"
proof -
  note D = pq_okD [OF ok] and T = pq_ok_tasks [OF ok]
  let ?xs = "plist_del p (pushable q)"
  have xs: "plist_ok pr (P - {p}) ?xs" by (rule plist_del_ok [OF D(3)])
  have "plist_ok pr (insert p P) (plist_add (pr p, p) ?xs)"
    using plist_add_ok [OF xs, of p] by (simp add: insert_absorb)
  moreover have "plist_top (plist_add (pr p, p) ?xs) = min (plist_top ?xs) (pr p)"
  proof -
    have "\<forall>y\<in>set ?xs. fst y < MAX_RT_PRIO"
      using plist_ok_prio [OF xs] T(3) P by (fastforce simp: prio_consts)
    then show ?thesis using T(3) [OF p] plist_top_add [of ?xs "(pr p, p)"] by (simp add: prio_consts)
  qed
  moreover have "min (plist_top ?xs) (pr p) = min (highest_next q) (pr p)"
  proof -
    have lim: "\<forall>x\<in>P. pr x < MAX_RT_PRIO" using T(3) P by (auto simp: prio_consts)
    have "insert (pr p) (insert MAX_RT_PRIO (pr ` (P - {p}))) = insert (pr p) (insert MAX_RT_PRIO (pr ` P))"
      by auto
    then have "Min (insert (pr p) (insert MAX_RT_PRIO (pr ` (P - {p})))) =
        Min (insert (pr p) (insert MAX_RT_PRIO (pr ` P)))" by simp
    then show ?thesis
      using plist_top_Min [OF xs] plist_top_Min [OF D(3) lim] lim D(4) plist_ok_finite [OF D(3)]
      by (simp add: min.commute)
  qed
  ultimately show ?thesis using D by (simp add: pq_ok_def q_push_def)
qed

lemma pq_ok_unpush:
  assumes ok: "pq_ok pr al S P q"
  shows "pq_ok pr al S (P - {p}) (q_unpush pr p q)"
proof -
  note D = pq_okD [OF ok]
  have xs: "plist_ok pr (P - {p}) (plist_del p (pushable q))" by (rule plist_del_ok [OF D(3)])
  have "(case plist_del p (pushable q) of [] \<Rightarrow> MAX_RT_PRIO | x # _ \<Rightarrow> pr (snd x)) =
      plist_top (plist_del p (pushable q))"
    using plist_ok_prio [OF xs] by (auto simp: plist_top_def split: list.split)
  then show ?thesis using D xs by (simp add: pq_ok_def q_unpush_def Let_def)
qed

section \<open>All run queues\<close>

abbreviation pri :: "smp \<Rightarrow> tid \<Rightarrow> int" where "pri s \<equiv> \<lambda>p. pt_prio (threads s p)"
abbreviation alw :: "smp \<Rightarrow> tid \<Rightarrow> int" where "alw s \<equiv> \<lambda>p. pt_nr_allowed (threads s p)"

text \<open>The mask of the overloaded processors is exact, and so is what \<^verbatim>\<open>cpupri_set()\<close> was told.\<close>

definition mask_ok :: "push_env \<Rightarrow> smp \<Rightarrow> bool" where
  "mask_ok e s \<longleftrightarrow>
     rto_mask s = {c. is_overloaded (cpus s c) \<and> pq_online (cpus s c)} \<and> rto_count s = int (card (rto_mask s)) \<and>
     (\<forall>c. pq_online (cpus s c) \<longrightarrow> c < nr_cpu_ids e)"

definition cpupri_ok :: "smp \<Rightarrow> bool" where
  "cpupri_ok s \<longleftrightarrow> (\<forall>c. cpu_pri s c = (if pq_online (cpus s c) then highest_prio (pq_rt (cpus s c)) else CPUPRI_INVALID))"

text \<open>\<open>M\<close> says on which run queue a task is, \<open>P\<close> which tasks are on the list of a processor.\<close>

definition queues_ok :: "push_env \<Rightarrow> (tid \<Rightarrow> nat option) \<Rightarrow> (nat \<Rightarrow> tid set) \<Rightarrow> smp \<Rightarrow> bool" where
  "queues_ok e M P s \<longleftrightarrow>
     (\<forall>c. pq_ok (pri s) (alw s) {p. M p = Some c} (P c) (cpus s c) \<and> is_overloaded (cpus s c) = over (cpus s c)) \<and>
     mask_ok e s \<and> cpupri_ok s"

lemma queues_okD:
  assumes "queues_ok e M P s"
  shows "pq_ok (pri s) (alw s) {p. M p = Some c} (P c) (cpus s c)"
    "is_overloaded (cpus s c) = over (cpus s c)" "mask_ok e s" "cpupri_ok s"
  using assms by (auto simp: queues_ok_def)

text \<open>What moves no task and no processor.\<close>

definition push_frame :: "smp \<Rightarrow> smp \<Rightarrow> bool" where
  "push_frame s s' \<longleftrightarrow> threads s' = threads s \<and> ipis s' = ipis s \<and> turns s' = turns s \<and>
     (\<forall>c. pq_curr (cpus s' c) = pq_curr (cpus s c) \<and> pq_online (cpus s' c) = pq_online (cpus s c))"

lemma push_frame_refl [simp]: "push_frame s s"
  by (simp add: push_frame_def)

lemma push_frame_trans: "push_frame s s' \<Longrightarrow> push_frame s' s'' \<Longrightarrow> push_frame s s''"
  by (simp add: push_frame_def)

lemma mask_ok_finite: "mask_ok e s \<Longrightarrow> finite (rto_mask s)"
  by (rule finite_subset [of _ "{..<nr_cpu_ids e}"]) (auto simp: mask_ok_def)

lemma update_rt_migration_effect:
  assumes "mask_ok e s"
  shows "cpus (update_rt_migration c s) = (cpus s)(c := q_over (cpus s c))"
    and "push_frame s (update_rt_migration c s)" and "cpu_pri (update_rt_migration c s) = cpu_pri s"
    and "mask_ok e (update_rt_migration c s)"
proof -
  have q: "q_over (cpus s c) = cpus s c" if "is_overloaded (cpus s c) = over (cpus s c)"
    using that by (simp add: q_over_def)
  show 1: "cpus (update_rt_migration c s) = (cpus s)(c := q_over (cpus s c))"
    using q by (auto simp: update_rt_migration_def rt_set_overload_def rt_clear_overload_def q_over_def over_def Let_def)
  show "push_frame s (update_rt_migration c s)" "cpu_pri (update_rt_migration c s) = cpu_pri s"
    using 1 by (auto simp: update_rt_migration_def rt_set_overload_def rt_clear_overload_def push_frame_def Let_def)
  let ?T = "{c'. is_overloaded (((cpus s)(c := q_over (cpus s c))) c') \<and> pq_online (((cpus s)(c := q_over (cpus s c))) c')}"
  have mask: "rto_mask s = {c. is_overloaded (cpus s c) \<and> pq_online (cpus s c)}"
    and count: "rto_count s = int (card (rto_mask s))" using assms by (auto simp: mask_ok_def)
  note fin = mask_ok_finite [OF assms]
  have "rto_mask (update_rt_migration c s) = ?T"
    by (auto simp: update_rt_migration_def rt_set_overload_def rt_clear_overload_def over_def Let_def mask)
  moreover have "rto_count (update_rt_migration c s) = int (card (rto_mask (update_rt_migration c s)))"
  proof (cases "over (cpus s c) = is_overloaded (cpus s c) \<or> \<not> pq_online (cpus s c)")
    case True
    then show ?thesis
      using count by (auto simp: update_rt_migration_def rt_set_overload_def rt_clear_overload_def over_def Let_def)
  next
    case False
    then have in_mask: "c \<in> rto_mask s \<longleftrightarrow> is_overloaded (cpus s c)" by (simp add: mask)
    then have "is_overloaded (cpus s c) \<Longrightarrow> 0 < card (rto_mask s)" using fin by (auto simp: card_gt_0_iff)
    then show ?thesis
      using False count fin in_mask
      by (auto simp: update_rt_migration_def rt_set_overload_def rt_clear_overload_def over_def Let_def of_nat_diff)
  qed
  ultimately show "mask_ok e (update_rt_migration c s)"
    using assms unfolding mask_ok_def by (simp add: 1)
qed

section \<open>Queueing on all run queues\<close>

text \<open>The operations, with the change of one run queue in one step.\<close>

abbreviation put_cpu :: "nat \<Rightarrow> push_rq \<Rightarrow> smp \<Rightarrow> smp" where
  "put_cpu c q s \<equiv> s\<lparr>cpus := (cpus s)(c := q)\<rparr>"

text \<open>Each update of a field as storing its new value.\<close>

lemma q_upds:
  "rt_nr_total_update (\<lambda>n. n + 1) q = q\<lparr>rt_nr_total := rt_nr_total q + 1\<rparr>"
  "rt_nr_total_update (\<lambda>n. n - 1) q = q\<lparr>rt_nr_total := rt_nr_total q - 1\<rparr>"
  "rt_nr_migratory_update (\<lambda>n. n + 1) q = q\<lparr>rt_nr_migratory := rt_nr_migratory q + 1\<rparr>"
  "rt_nr_migratory_update (\<lambda>n. n - 1) q = q\<lparr>rt_nr_migratory := rt_nr_migratory q - 1\<rparr>"
  "pq_rt_update (rt_nr_running_update g) q = q\<lparr>pq_rt := rt_nr_running_update g (pq_rt q)\<rparr>"
  "pq_rt_update (inc_rt_prio n) q = q\<lparr>pq_rt := inc_rt_prio n (pq_rt q)\<rparr>"
  "pq_rt_update (dec_rt_prio n) q = q\<lparr>pq_rt := dec_rt_prio n (pq_rt q)\<rparr>"
  "pq_rt_update (rt_active_update h) q = q\<lparr>pq_rt := rt_active_update h (pq_rt q)\<rparr>"
  "rt_nr_running_update (\<lambda>n. n + 1) r = r\<lparr>rt_nr_running := rt_nr_running r + 1\<rparr>"
  "rt_nr_running_update (\<lambda>n. n - 1) r = r\<lparr>rt_nr_running := rt_nr_running r - 1\<rparr>"
  by simp_all

lemma inc_rt_migration_eq:
  "inc_rt_migration p c s = update_rt_migration c
     (put_cpu c ((cpus s c)\<lparr>rt_nr_total := rt_nr_total (cpus s c) + 1,
        rt_nr_migratory := rt_nr_migratory (cpus s c) + of_bool (1 < alw s p)\<rparr>) s)"
  by (cases s) (simp add: q_upds inc_rt_migration_def Let_def)

lemma dec_rt_migration_eq:
  "dec_rt_migration p c s = update_rt_migration c
     (put_cpu c ((cpus s c)\<lparr>rt_nr_total := rt_nr_total (cpus s c) - 1,
        rt_nr_migratory := rt_nr_migratory (cpus s c) - of_bool (1 < alw s p)\<rparr>) s)"
  by (cases s) (simp add: q_upds dec_rt_migration_def Let_def)

lemma inc_rt_tasks_eq:
  "inc_rt_tasks_smp p c s = update_rt_migration c
     ((put_cpu c ((cpus s c)\<lparr>pq_rt := inc_rt_prio (pri s p) ((pq_rt (cpus s c))\<lparr>rt_nr_running := rt_nr_running (pq_rt (cpus s c)) + 1\<rparr>),
        rt_nr_total := rt_nr_total (cpus s c) + 1,
        rt_nr_migratory := rt_nr_migratory (cpus s c) + of_bool (1 < alw s p)\<rparr>) s)
      \<lparr>cpu_pri := (if pq_online (cpus s c) \<and> pri s p < highest_prio (pq_rt (cpus s c))
                   then (cpu_pri s)(c := pri s p) else cpu_pri s)\<rparr>)"
  by (cases s) (simp add: q_upds inc_rt_tasks_smp_def inc_rt_migration_eq inc_rt_prio_smp_def Let_def)

lemma dec_rt_tasks_eq:
  "dec_rt_tasks_smp p c s = update_rt_migration c
     (let r = dec_rt_prio (pri s p) ((pq_rt (cpus s c))\<lparr>rt_nr_running := rt_nr_running (pq_rt (cpus s c)) - 1\<rparr>)
      in (put_cpu c ((cpus s c)\<lparr>pq_rt := r, rt_nr_total := rt_nr_total (cpus s c) - 1,
        rt_nr_migratory := rt_nr_migratory (cpus s c) - of_bool (1 < alw s p)\<rparr>) s)
      \<lparr>cpu_pri := (if pq_online (cpus s c) \<and> highest_prio r \<noteq> highest_prio (pq_rt (cpus s c))
                   then (cpu_pri s)(c := highest_prio r) else cpu_pri s)\<rparr>)"
  by (cases s) (simp add: q_upds dec_rt_tasks_smp_def dec_rt_migration_eq dec_rt_prio_smp_def Let_def)

text \<open>The priority array, first the queue and its bit, then the counter and the highest priority.\<close>

definition q_link :: "rt_entity \<Rightarrow> nat \<Rightarrow> bool \<Rightarrow> rt_rq \<Rightarrow> rt_rq" where
  "q_link se i head r = r\<lparr>rt_active := \<lparr>bitmap = (bitmap (rt_active r))(i := True),
     queue = (queue (rt_active r))(i := (if head then se # queue (rt_active r) i else queue (rt_active r) i @ [se]))\<rparr>\<rparr>"

definition q_unlink :: "rt_entity \<Rightarrow> nat \<Rightarrow> rt_rq \<Rightarrow> rt_rq" where
  "q_unlink se i r = r\<lparr>rt_active := \<lparr>bitmap = (if remove1 se (queue (rt_active r) i) = []
        then (bitmap (rt_active r))(i := False) else bitmap (rt_active r)),
     queue = (\<lambda>j. remove1 se (queue (rt_active r) j))\<rparr>\<rparr>"

lemma rq_add_eq:
  assumes "pr = int i"
  shows "inc_rt_prio pr ((q_link se i head r)\<lparr>rt_nr_running := rt_nr_running r + 1\<rparr>) = rq_add se i head False r"
  using assms by (cases r) (simp add: inc_rt_prio_def q_link_def rq_add_def min_def)

lemma rq_del_eq:
  assumes "pr = int i"
  shows "dec_rt_prio pr ((q_unlink se i r)\<lparr>rt_nr_running := rt_nr_running r - 1\<rparr>) = rq_del se i False r"
  using assms by (cases r) (simp add: dec_rt_prio_def q_unlink_def rq_del_def Let_def)

lemma link_simps [simp]:
  "rt_nr_running (q_link se i head r) = rt_nr_running r" "highest_prio (q_link se i head r) = highest_prio r"
  "rt_nr_running (q_unlink se i r) = rt_nr_running r" "highest_prio (q_unlink se i r) = highest_prio r"
  by (simp_all add: q_link_def q_unlink_def)

lemma enqueue_link:
  "set_rt_array (bitmap_update (\<lambda>bs. bs(i := True))) c (set_rt_array (queue_update (\<lambda>qs. qs(i :=
     (if head then list_add se else list_add_tail se) (qs i)))) c s)
   = put_cpu c ((cpus s c)\<lparr>pq_rt := q_link se i head (pq_rt (cpus s c))\<rparr>) s"
  by (cases s, cases "cpus s c", cases "pq_rt (cpus s c)", cases "rt_active (pq_rt (cpus s c))")
    (simp add: set_rt_array_def q_link_def list_ops)

lemma dequeue_unlink:
  "(let s1 = set_rt_array (queue_update (\<lambda>qs j. list_del_init se (qs j))) c s
    in if queue (rt_array c s1) i = [] then set_rt_array (bitmap_update (\<lambda>bs. bs(i := False))) c s1 else s1)
   = put_cpu c ((cpus s c)\<lparr>pq_rt := q_unlink se i (pq_rt (cpus s c))\<rparr>) s"
  by (cases s, cases "cpus s c", cases "pq_rt (cpus s c)", cases "rt_active (pq_rt (cpus s c))")
    (simp add: set_rt_array_def rt_array_def q_unlink_def list_ops Let_def)

lemma enqueue_entity1_smp_eq:
  assumes "c = pt_cpu (threads s p)" and "0 \<le> pri s p"
  shows "enqueue_rt_entity1_smp p head s = update_rt_migration c
    ((put_cpu c (q_enq0 (pri s) (alw s) p head (cpus s c)) s)
     \<lparr>cpu_pri := (if pq_online (cpus s c) \<and> pri s p < highest_prio (pq_rt (cpus s c))
                  then (cpu_pri s)(c := pri s p) else cpu_pri s)\<rparr>)"
  using assms
  by (simp add: enqueue_rt_entity1_smp_def Let_def enqueue_link inc_rt_tasks_eq rq_add_eq q_enq0_def)

lemma dequeue_entity1_smp_eq:
  assumes "c = pt_cpu (threads s p)" and "0 \<le> pri s p"
  shows "dequeue_rt_entity1_smp p s = update_rt_migration c
    (let q1 = q_deq0 (pri s) (alw s) p (cpus s c)
     in (put_cpu c q1 s)
        \<lparr>cpu_pri := (if pq_online (cpus s c) \<and> highest_prio (pq_rt q1) \<noteq> highest_prio (pq_rt (cpus s c))
                     then (cpu_pri s)(c := highest_prio (pq_rt q1)) else cpu_pri s)\<rparr>)"
proof -
  have "dequeue_rt_entity1_smp p s = dec_rt_tasks_smp p c
    (let s1 = set_rt_array (queue_update (\<lambda>qs j. list_del_init (Rt_Task p) (qs j))) c s
     in if queue (rt_array c s1) (nat (pri s p)) = []
        then set_rt_array (bitmap_update (\<lambda>bs. bs(nat (pri s p) := False))) c s1 else s1)"
    by (simp only: dequeue_rt_entity1_smp_def Let_def assms(1))
  also have "\<dots> = dec_rt_tasks_smp p c
      (put_cpu c ((cpus s c)\<lparr>pq_rt := q_unlink (Rt_Task p) (nat (pri s p)) (pq_rt (cpus s c))\<rparr>) s)"
    by (simp only: dequeue_unlink)
  finally show ?thesis using assms by (simp add: Let_def dec_rt_tasks_eq rq_del_eq q_deq0_def)
qed

text \<open>Changing one run queue.\<close>

lemma mask_ok_put:
  assumes "mask_ok e s" and "is_overloaded q = is_overloaded (cpus s c)" and "pq_online q = pq_online (cpus s c)"
  shows "mask_ok e (put_cpu c q s)" and "mask_ok e ((put_cpu c q s)\<lparr>cpu_pri := x\<rparr>)"
  using assms by (auto simp: mask_ok_def)

lemma queues_ok_put:
  assumes ok: "queues_ok e M P s" and "threads s' = threads s" and cpus: "cpus s' = (cpus s)(c := q)"
    and "pq_ok (pri s) (alw s) {p. M' p = Some c} (P' c) q" and "is_overloaded q = over q"
    and "mask_ok e s'" and "cpupri_ok s'"
    and "\<And>c'. c' \<noteq> c \<Longrightarrow> {p. M' p = Some c'} = {p. M p = Some c'}" and "\<And>c'. c' \<noteq> c \<Longrightarrow> P' c' = P c'"
  shows "queues_ok e M' P' s'"
  using assms queues_okD [OF ok] by (auto simp: queues_ok_def)

lemma entity1_ok:
  assumes ok: "queues_ok e M P s"
    and eq: "s' = update_rt_migration c ((put_cpu c q s)\<lparr>cpu_pri := pris\<rparr>)"
    and q: "is_overloaded q = is_overloaded (cpus s c)" "pq_online q = pq_online (cpus s c)"
      "pq_curr q = pq_curr (cpus s c)"
    and pq: "pq_ok (pri s) (alw s) {p. M' p = Some c} (P c) (q_over q)"
    and pris: "\<And>c'. c' \<noteq> c \<or> \<not> pq_online (cpus s c) \<Longrightarrow> pris c' = cpu_pri s c'"
      "pq_online (cpus s c) \<Longrightarrow> pris c = highest_prio (pq_rt q)"
    and M': "\<And>c'. c' \<noteq> c \<Longrightarrow> {p. M' p = Some c'} = {p. M p = Some c'}"
  shows "queues_ok e M' P s'" and "push_frame s s'"
proof -
  note Q = queues_okD [OF ok]
  define s1 where "s1 = (put_cpu c q s)\<lparr>cpu_pri := pris\<rparr>"
  have s1: "cpus s1 = (cpus s)(c := q)" "cpu_pri s1 = pris" "threads s1 = threads s" "ipis s1 = ipis s"
    "turns s1 = turns s" by (simp_all add: s1_def)
  have m1: "mask_ok e s1" unfolding s1_def by (rule mask_ok_put(2) [OF Q(3)]) (simp_all add: q)
  note U = update_rt_migration_effect [OF m1, of c, folded eq [folded s1_def]]
  show "push_frame s s'"
    using U(1,2) q by (auto simp: push_frame_def s1)
  show "queues_ok e M' P s'"
  proof (rule queues_ok_put [OF ok, of _ c "q_over q"])
    show "cpus s' = (cpus s)(c := q_over q)" by (simp add: U(1) s1)
    show "cpupri_ok s'" using Q(4) pris q by (auto simp: cpupri_ok_def U(1,3) s1)
  qed (use U pq M' in \<open>auto simp: push_frame_def s1\<close>)
qed

lemma enqueue_rt_entity1_ok:
  assumes ok: "queues_ok e M P s" and p: "M p = None" "pt_cpu (threads s p) = c" "p < PID_MAX_LIMIT"
    "0 \<le> pri s p" "pri s p < 100"
  shows "queues_ok e (M(p \<mapsto> c)) P (enqueue_rt_entity1_smp p head s)"
    and "push_frame s (enqueue_rt_entity1_smp p head s)"
proof -
  note Q = queues_okD [OF ok]
  have S: "{x. (M(p \<mapsto> c)) x = Some c} = insert p {x. M x = Some c}" by auto
  note * = entity1_ok [where M' = "M(p \<mapsto> c)", OF ok enqueue_entity1_smp_eq [OF p(2) [symmetric] p(4)]]
  have "pq_ok (pri s) (alw s) {x. (M(p \<mapsto> c)) x = Some c} (P c) (q_enq (pri s) (alw s) p head (cpus s c))"
    unfolding S by (rule pq_ok_enq [OF Q(1)]) (use p in auto)
  moreover have "pq_online (cpus s c) \<Longrightarrow>
      (if pq_online (cpus s c) \<and> pri s p < highest_prio (pq_rt (cpus s c)) then (cpu_pri s)(c := pri s p) else cpu_pri s) c
      = highest_prio (pq_rt (q_enq0 (pri s) (alw s) p head (cpus s c)))"
    using Q(4) p by (auto simp: cpupri_ok_def q_enq0_def rq_add_def)
  ultimately show "queues_ok e (M(p \<mapsto> c)) P (enqueue_rt_entity1_smp p head s)"
    and "push_frame s (enqueue_rt_entity1_smp p head s)"
    by (intro *; use p in \<open>auto simp: q_enq0_def\<close>)+
qed

lemma dequeue_rt_entity1_ok:
  assumes ok: "queues_ok e M P s" and p: "M p = Some c" "pt_cpu (threads s p) = c"
  shows "queues_ok e (M(p := None)) P (dequeue_rt_entity1_smp p s)"
    and "push_frame s (dequeue_rt_entity1_smp p s)"
proof -
  note Q = queues_okD [OF ok]
  have pr: "0 \<le> pri s p" using pq_ok_tasks(3) [OF Q(1)] p by auto
  have S: "{x. (M(p := None)) x = Some c} = {x. M x = Some c} - {p}" by auto
  note * = entity1_ok [where M' = "M(p := None)", OF ok dequeue_entity1_smp_eq [OF p(2) [symmetric] pr, unfolded Let_def]]
  have "pq_ok (pri s) (alw s) {x. (M(p := None)) x = Some c} (P c) (q_deq (pri s) (alw s) p (cpus s c))"
    unfolding S by (rule pq_ok_deq [OF Q(1)]) (use p in auto)
  then show "queues_ok e (M(p := None)) P (dequeue_rt_entity1_smp p s)"
    and "push_frame s (dequeue_rt_entity1_smp p s)"
    by (intro *; use p Q(4) in \<open>auto simp: q_deq0_def cpupri_ok_def\<close>)+
qed

text \<open>Whether a task is on a queue, its run queue tells.\<close>

lemma on_rt_rq_smp_iff:
  assumes "queues_ok e M P s"
  shows "on_rt_rq_smp p s \<longleftrightarrow> M p = Some (pt_cpu (threads s p))"
  using pq_ok_tasks(4) [OF queues_okD(1) [OF assms], of p "pt_cpu (threads s p)"]
  by (auto simp: on_rt_rq_smp_def rt_array_def rt_ents_def list_ex_iff)

lemma enqueue_pushable_eq:
  "enqueue_pushable_task c p s = put_cpu c (q_push (pri s) p (cpus s c)) s"
  by (cases s, cases "cpus s c") (simp add: enqueue_pushable_task_def q_push_def Let_def min_def)

lemma dequeue_pushable_eq:
  "dequeue_pushable_task c p s = put_cpu c (q_unpush (pri s) p (cpus s c)) s"
  by (cases s, cases "cpus s c")
    (simp add: dequeue_pushable_task_def q_unpush_def Let_def split: list.split)

lemma put_cpu_ok:
  assumes ok: "queues_ok e M P s"
    and q: "pq_ok (pri s) (alw s) {p. M p = Some c} P' q"
    and same: "pq_rt q = pq_rt (cpus s c)" "rt_nr_total q = rt_nr_total (cpus s c)"
      "rt_nr_migratory q = rt_nr_migratory (cpus s c)" "is_overloaded q = is_overloaded (cpus s c)"
      "pq_online q = pq_online (cpus s c)" "pq_curr q = pq_curr (cpus s c)"
  shows "queues_ok e M (P(c := P')) (put_cpu c q s)" and "push_frame s (put_cpu c q s)"
proof -
  note Q = queues_okD [OF ok]
  show "queues_ok e M (P(c := P')) (put_cpu c q s)"
  proof (rule queues_ok_put [OF ok, of _ c q])
    show "mask_ok e (put_cpu c q s)" by (rule mask_ok_put(1) [OF Q(3)]) (simp_all add: same)
    show "is_overloaded q = over q" using Q(2) [of c] by (simp add: same over_def)
  qed (use Q(4) q in \<open>auto simp: cpupri_ok_def same\<close>)
  show "push_frame s (put_cpu c q s)" by (simp add: push_frame_def same)
qed

lemma enqueue_pushable_ok:
  assumes ok: "queues_ok e M P s" and "M p = Some c" and "P c \<subseteq> {p. M p = Some c}"
  shows "queues_ok e M (P(c := insert p (P c))) (enqueue_pushable_task c p s)"
    and "push_frame s (enqueue_pushable_task c p s)"
  unfolding enqueue_pushable_eq
  by (rule put_cpu_ok [OF ok pq_ok_push [OF queues_okD(1) [OF ok]]]; use assms in \<open>simp add: q_push_def\<close>)+

lemma dequeue_pushable_ok:
  assumes ok: "queues_ok e M P s"
  shows "queues_ok e M (P(c := P c - {p})) (dequeue_pushable_task c p s)"
    and "push_frame s (dequeue_pushable_task c p s)"
  unfolding dequeue_pushable_eq
  by (rule put_cpu_ok [OF ok pq_ok_unpush [OF queues_okD(1) [OF ok]]]; simp add: q_unpush_def Let_def)+

text \<open>The counters the invariant does not speak of.\<close>

lemma counters_ok:
  assumes ok: "queues_ok e M P s"
  shows "queues_ok e M P (upd_cpu c (pq_nr_running_update f) s)" "push_frame s (upd_cpu c (pq_nr_running_update f) s)"
    "queues_ok e M P (upd_cpu c (pq_nr_unint_update f) s)" "push_frame s (upd_cpu c (pq_nr_unint_update f) s)"
    "queues_ok e M P (upd_cpu c (pq_post_schedule_update g) s)" "push_frame s (upd_cpu c (pq_post_schedule_update g) s)"
  using ok by (auto simp: queues_ok_def pq_ok_def mask_ok_def cpupri_ok_def push_frame_def over_def)

lemma enqueue_task_ok:
  assumes ok: "queues_ok e M P s" and p: "M p = None" "pt_cpu (threads s p) = c" "p < PID_MAX_LIMIT"
    "0 \<le> pri s p" "pri s p < 100" and P: "P c \<subseteq> {p. M p = Some c}"
  shows "queues_ok e (M(p \<mapsto> c))
      (P(c := (if pq_curr (cpus s c) \<noteq> p \<and> 1 < alw s p then insert p (P c) else P c)))
      (enqueue_task_rt_smp c p head s)" (is "queues_ok e ?M ?P _")
    and "push_frame s (enqueue_task_rt_smp c p head s)"
proof -
  have "enqueue_rt_entity_smp p head s = enqueue_rt_entity1_smp p head s"
    using on_rt_rq_smp_iff [OF ok] p by (simp add: enqueue_rt_entity_smp_def dequeue_rt_entity_smp_def)
  note 1 = enqueue_rt_entity1_ok [OF ok p, of head, folded this]
  have fr: "threads (enqueue_rt_entity_smp p head s) = threads s"
    "pq_curr (cpus (enqueue_rt_entity_smp p head s) c) = pq_curr (cpus s c)"
    using 1(2) by (simp_all add: push_frame_def)
  let ?s2 = "if pq_curr (cpus s c) \<noteq> p \<and> 1 < alw s p
    then enqueue_pushable_task c p (enqueue_rt_entity_smp p head s) else enqueue_rt_entity_smp p head s"
  have "P c \<subseteq> {x. (M(p \<mapsto> c)) x = Some c}" using P by auto
  then have "queues_ok e (M(p \<mapsto> c)) (P(c := insert p (P c)))
        (enqueue_pushable_task c p (enqueue_rt_entity_smp p head s))"
    and "push_frame s (enqueue_pushable_task c p (enqueue_rt_entity_smp p head s))"
    using enqueue_pushable_ok [OF 1(1), of p c] push_frame_trans [OF 1(2)] by simp_all
  then have 2: "queues_ok e ?M ?P ?s2 \<and> push_frame s ?s2"
    using 1 by (cases "pq_curr (cpus s c) \<noteq> p \<and> 1 < alw s p") (simp_all only: if_True if_False fun_upd_triv simp_thms)
  have eq: "enqueue_task_rt_smp c p head s = upd_cpu c (pq_nr_running_update (\<lambda>n. n + 1)) ?s2"
    by (simp add: enqueue_task_rt_smp_def Let_def fr)
  show "queues_ok e ?M ?P (enqueue_task_rt_smp c p head s)"
    unfolding eq by (rule counters_ok(1) [OF conjunct1 [OF 2]])
  show "push_frame s (enqueue_task_rt_smp c p head s)"
    unfolding eq by (rule push_frame_trans [OF conjunct2 [OF 2] counters_ok(2) [OF conjunct1 [OF 2]]])
qed

lemma dequeue_task_ok:
  assumes ok: "queues_ok e M P s" and p: "M p = Some c" "pt_cpu (threads s p) = c"
  shows "queues_ok e (M(p := None)) (P(c := P c - {p})) (dequeue_task_rt_smp c p s)"
    and "push_frame s (dequeue_task_rt_smp c p s)"
proof -
  have "dequeue_rt_entity_smp p s = dequeue_rt_entity1_smp p s"
    using on_rt_rq_smp_iff [OF ok] p by (simp add: dequeue_rt_entity_smp_def)
  note 1 = dequeue_rt_entity1_ok [OF ok p, folded this]
  note 2 = dequeue_pushable_ok [OF 1(1), of c p]
  show "queues_ok e (M(p := None)) (P(c := P c - {p})) (dequeue_task_rt_smp c p s)"
    "push_frame s (dequeue_task_rt_smp c p s)"
    using counters_ok(1,2) [OF 2(1)] push_frame_trans [OF push_frame_trans [OF 1(2) 2(2)]]
    by (simp_all add: dequeue_task_rt_smp_def Let_def)
qed

lemma activate_rt_ok:
  assumes "queues_ok e M P s" and "M p = None" "pt_cpu (threads s p) = c" "p < PID_MAX_LIMIT"
    "0 \<le> pri s p" "pri s p < 100" and "P c \<subseteq> {p. M p = Some c}"
  shows "queues_ok e (M(p \<mapsto> c))
      (P(c := (if pq_curr (cpus s c) \<noteq> p \<and> 1 < alw s p then insert p (P c) else P c))) (activate_rt c p s)"
    and "push_frame s (activate_rt c p s)"
proof -
  define s1 where "s1 = (if pt_contributes (threads s p) then upd_cpu c (pq_nr_unint_update (\<lambda>n. n - 1)) s else s)"
  have s1: "queues_ok e M P s1" "push_frame s s1" using counters_ok(3,4) [OF assms(1)] assms(1) by (simp_all add: s1_def)
  have fr: "threads s1 = threads s" "pq_curr (cpus s1 c) = pq_curr (cpus s c)" using s1(2) by (simp_all add: push_frame_def)
  note en = enqueue_task_ok [OF s1(1), of p c, unfolded fr, OF assms(2-)]
  show "queues_ok e (M(p \<mapsto> c))
      (P(c := (if pq_curr (cpus s c) \<noteq> p \<and> 1 < alw s p then insert p (P c) else P c))) (activate_rt c p s)"
    and "push_frame s (activate_rt c p s)"
    using en(1) [of False] push_frame_trans [OF s1(2) en(2) [of False]]
    by (simp_all add: activate_rt_def Let_def s1_def)
qed

lemma deactivate_rt_ok:
  assumes "queues_ok e M P s" and "M p = Some c" "pt_cpu (threads s p) = c"
  shows "queues_ok e (M(p := None)) (P(c := P c - {p})) (deactivate_rt c p s)"
    and "push_frame s (deactivate_rt c p s)"
proof -
  define s1 where "s1 = (if pt_contributes (threads s p) then upd_cpu c (pq_nr_unint_update (\<lambda>n. n + 1)) s else s)"
  have s1: "queues_ok e M P s1" "push_frame s s1" using counters_ok(3,4) [OF assms(1)] assms(1) by (simp_all add: s1_def)
  have fr: "threads s1 = threads s" using s1(2) by (simp add: push_frame_def)
  note de = dequeue_task_ok [OF s1(1), of p c, unfolded fr, OF assms(2-)]
  show "queues_ok e (M(p := None)) (P(c := P c - {p})) (deactivate_rt c p s)"
    and "push_frame s (deactivate_rt c p s)"
    using de(1) push_frame_trans [OF s1(2) de(2)]
    by (simp_all add: deactivate_rt_def Let_def s1_def)
qed

end
