(* ===== verification/Rt_Push_Steps.thy ===== *)
theory Rt_Push_Steps
  imports Rt_Push_Inv
begin

text \<open>
  The invariant of pushing and pulling, and that every operation keeps it whatever the other
  processors do, within the invariant, while a lock is given up.
\<close>

section \<open>The invariant\<close>

text \<open>
  The run queue a task belongs on, and the tasks that a processor may push: those that wait there
  and may run elsewhere.
\<close>

definition home :: "smp \<Rightarrow> tid \<Rightarrow> nat option" where
  "home s p = (if pt_on_rq (threads s p) \<and> is_rt_task p s then Some (pt_cpu (threads s p)) else None)"

definition waiting :: "smp \<Rightarrow> nat \<Rightarrow> tid set" where
  "waiting s c = {p. home s p = Some c \<and> p \<noteq> pq_curr (cpus s c) \<and> 1 < alw s p}"

definition threads_ok :: "push_env \<Rightarrow> smp \<Rightarrow> bool" where
  "threads_ok e s \<longleftrightarrow>
     (\<forall>p. 0 \<le> pri s p \<and> pt_allowed (threads s p) \<subseteq> {..<nr_cpu_ids e} \<and>
          alw s p = cpumask_weight e (pt_allowed (threads s p)) \<and> pt_cpu (threads s p) < nr_cpu_ids e \<and>
          (pt_on_cpu (threads s p) \<longleftrightarrow> pq_curr (cpus s (pt_cpu (threads s p))) = p)) \<and>
     (\<forall>c<nr_cpu_ids e. pt_cpu (threads s (pq_curr (cpus s c))) = c)"

definition smp_inv :: "push_env \<Rightarrow> smp \<Rightarrow> bool" where
  "smp_inv e s \<longleftrightarrow> threads_ok e s \<and> queues_ok e (home s) (waiting s) s"

lemma smp_invD:
  assumes "smp_inv e s"
  shows "threads_ok e s" "queues_ok e (home s) (waiting s) s"
  using assms by (auto simp: smp_inv_def)

lemma threads_okD:
  assumes "threads_ok e s"
  shows "0 \<le> pri s p" "pt_allowed (threads s p) \<subseteq> {..<nr_cpu_ids e}"
    "alw s p = cpumask_weight e (pt_allowed (threads s p))" "pt_cpu (threads s p) < nr_cpu_ids e"
    "pt_on_cpu (threads s p) \<longleftrightarrow> pq_curr (cpus s (pt_cpu (threads s p))) = p"
    "c < nr_cpu_ids e \<Longrightarrow> pt_cpu (threads s (pq_curr (cpus s c))) = c"
  using assms by (auto simp: threads_ok_def)

lemma home_task:
  assumes "smp_inv e s" and "home s p = Some c"
  shows "p < PID_MAX_LIMIT" "0 \<le> pri s p" "pri s p < 100" "c < nr_cpu_ids e" "pt_cpu (threads s p) = c"
proof -
  note Q = queues_okD(1) [OF smp_invD(2) [OF assms(1)], of c]
  show "p < PID_MAX_LIMIT" "0 \<le> pri s p" "pri s p < 100"
    using pq_ok_tasks(1,3) [OF Q] assms(2) by auto
  show cpu: "pt_cpu (threads s p) = c" using assms(2) by (simp add: home_def split: if_splits)
  show "c < nr_cpu_ids e" using threads_okD(4) [OF smp_invD(1) [OF assms(1)], of p] cpu by simp
qed

lemma waiting_sub: "waiting s c \<subseteq> {p. home s p = Some c}"
  by (auto simp: waiting_def)

text \<open>The invariant reads neither flags nor counters.\<close>

definition task_same :: "push_task \<Rightarrow> push_task \<Rightarrow> bool" where
  "task_same t t' \<longleftrightarrow> pt_prio t' = pt_prio t \<and> pt_allowed t' = pt_allowed t \<and> pt_nr_allowed t' = pt_nr_allowed t \<and>
     pt_cpu t' = pt_cpu t \<and> pt_on_rq t' = pt_on_rq t \<and> pt_on_cpu t' = pt_on_cpu t"

lemma task_same_refl [simp]: "task_same t t"
  by (simp add: task_same_def)

lemma inv_cong:
  assumes "\<And>p. task_same (threads s p) (threads s' p)" and "cpus s' = cpus s" and "cpu_pri s' = cpu_pri s"
    and "rto_mask s' = rto_mask s" "rto_count s' = rto_count s"
  shows "smp_inv e s' = smp_inv e s" and "home s' = home s" and "waiting s' = waiting s"
    and "pri s' = pri s" and "alw s' = alw s"
proof -
  show pr: "pri s' = pri s" "alw s' = alw s" using assms(1) by (auto simp: task_same_def)
  show h: "home s' = home s" using assms(1) by (auto simp: home_def is_rt_task_def task_same_def)
  show w: "waiting s' = waiting s"
    using fun_cong [OF pr(2)] by (auto simp: waiting_def h assms(2))
  have "queues_ok e (home s) (waiting s) s' = queues_ok e (home s) (waiting s) s"
    unfolding queues_ok_def pr mask_ok_def cpupri_ok_def assms(2-5) ..
  moreover have "threads_ok e s' = threads_ok e s"
    using assms(1) by (simp add: threads_ok_def task_same_def assms(2))
  ultimately show "smp_inv e s' = smp_inv e s" by (simp add: smp_inv_def h w)
qed

lemma resched_frame:
  "cpus (resched_task_smp e p s) = cpus s" "cpu_pri (resched_task_smp e p s) = cpu_pri s"
  "rto_mask (resched_task_smp e p s) = rto_mask s" "rto_count (resched_task_smp e p s) = rto_count s"
  "turns (resched_task_smp e p s) = turns s"
  "task_same (threads s q) (threads (resched_task_smp e p s) q)"
  "pt_resched (threads (resched_task_smp e p s) p)"
  by (auto simp: resched_task_smp_def Let_def task_same_def)

lemmas resched_same = inv_cong [OF resched_frame(6) resched_frame(1-4)]

lemma turns_same:
  "smp_inv e (s\<lparr>turns := n\<rparr>) = smp_inv e s" "home (s\<lparr>turns := n\<rparr>) = home s"
  "waiting (s\<lparr>turns := n\<rparr>) = waiting s"
  by (rule inv_cong; simp)+

section \<open>Moving a task\<close>

definition move_rt :: "tid \<Rightarrow> nat \<Rightarrow> nat \<Rightarrow> smp \<Rightarrow> smp" where
  "move_rt p c l s = activate_rt l p (set_task_cpu p l (deactivate_rt c p s))"

lemma set_task_cpu_frame:
  "cpus (set_task_cpu p l s) = cpus s" "cpu_pri (set_task_cpu p l s) = cpu_pri s"
  "rto_mask (set_task_cpu p l s) = rto_mask s" "rto_count (set_task_cpu p l s) = rto_count s"
  "ipis (set_task_cpu p l s) = ipis s" "turns (set_task_cpu p l s) = turns s"
  "threads (set_task_cpu p l s) q = (if q = p
     then (threads s p)\<lparr>pt_cpu := l, pt_migrations := pt_migrations (threads s p) + of_bool (pt_cpu (threads s p) \<noteq> l)\<rparr>
     else threads s q)"
  by (auto simp: set_task_cpu_def Let_def)

lemma set_task_cpu_ok: "queues_ok e M P s \<Longrightarrow> queues_ok e M P (set_task_cpu p l s)"
proof -
  have "pri (set_task_cpu p l s) = pri s" "alw (set_task_cpu p l s) = alw s"
    by (auto simp: set_task_cpu_frame)
  then show "queues_ok e M P s \<Longrightarrow> queues_ok e M P (set_task_cpu p l s)"
    unfolding queues_ok_def mask_ok_def cpupri_ok_def by (simp add: set_task_cpu_frame)
qed

lemma move_rt_ok:
  assumes inv: "smp_inv e s" and p: "home s p = Some c" "p \<noteq> pq_curr (cpus s c)" and l: "l \<noteq> c" "l < nr_cpu_ids e"
  shows "smp_inv e (move_rt p c l s)" and "home (move_rt p c l s) = (home s)(p \<mapsto> l)"
    and "turns (move_rt p c l s) = turns s"
    and "\<And>q. q \<noteq> p \<Longrightarrow> threads (move_rt p c l s) q = threads s q"
    and "pq_curr (cpus (move_rt p c l s) i) = pq_curr (cpus s i)"
    and "pq_online (cpus (move_rt p c l s) i) = pq_online (cpus s i)"
    and "pri (move_rt p c l s) = pri s" "alw (move_rt p c l s) = alw s"
    and "pt_allowed (threads (move_rt p c l s) q) = pt_allowed (threads s q)"
proof -
  note H = home_task [OF inv p(1)] and T = threads_okD [OF smp_invD(1) [OF inv]]
  let ?d = "deactivate_rt c p s" and ?m = "set_task_cpu p l (deactivate_rt c p s)"
  let ?P1 = "(waiting s)(c := waiting s c - {p})"
  note d = deactivate_rt_ok [OF smp_invD(2) [OF inv] p(1) H(5)]
  have dt: "threads ?d = threads s" "turns ?d = turns s" using d(2) by (simp_all add: push_frame_def)
  have dc: "pq_curr (cpus ?d i) = pq_curr (cpus s i)" "pq_online (cpus ?d i) = pq_online (cpus s i)" for i
    using d(2) by (simp_all add: push_frame_def)
  have mt: "threads ?m q = (if q = p then (threads s p)\<lparr>pt_cpu := l, pt_migrations := pt_migrations (threads s p) + 1\<rparr>
      else threads s q)" for q
    using H(5) l(1) by (simp add: set_task_cpu_frame dt)
  have l_free: "pq_curr (cpus s l) \<noteq> p" using T(6) [OF l(2)] H(5) l(1) by auto
  have sub: "?P1 l \<subseteq> {q. ((home s)(p := None)) q = Some l}"
    using waiting_sub [of s l] p(1) l(1) by auto
  have m0: "queues_ok e ((home s)(p := None)) ?P1 ?m" by (rule set_task_cpu_ok [OF d(1)])
  have mp: "((home s)(p := None)) p = None" "pt_cpu (threads ?m p) = l" "0 \<le> pri ?m p" "pri ?m p < 100"
    and ma: "alw ?m p = alw s p" and mc: "pq_curr (cpus ?m l) \<noteq> p"
    using H l_free by (simp_all add: set_task_cpu_frame dt dc)
  note a = activate_rt_ok [OF m0 mp(1,2) H(1) mp(3,4) sub, folded move_rt_def]
  have a1: "queues_ok e ((home s)(p \<mapsto> l))
      (?P1(l := (if 1 < alw s p then insert p (waiting s l) else waiting s l))) (move_rt p c l s)"
  proof -
    have "(if pq_curr (cpus ?m l) \<noteq> p \<and> 1 < alw ?m p then insert p (?P1 l) else ?P1 l) =
        (if 1 < alw s p then insert p (waiting s l) else waiting s l)"
      using mc ma l(1) by simp
    then show ?thesis using a(1) by (simp only: fun_upd_upd)
  qed
  have a2: "push_frame ?m (move_rt p c l s)" by (rule a(2))
  have thr: "threads (move_rt p c l s) = threads ?m" using a2 by (simp add: push_frame_def)
  show cur: "pq_curr (cpus (move_rt p c l s) i) = pq_curr (cpus s i)" for i
    using a2 by (simp add: push_frame_def set_task_cpu_frame dc)
  show "pq_online (cpus (move_rt p c l s) i) = pq_online (cpus s i)" for i
    using a2 by (simp add: push_frame_def set_task_cpu_frame dc)
  show "turns (move_rt p c l s) = turns s"
    using a2 by (simp add: push_frame_def set_task_cpu_frame dt)
  show other: "threads (move_rt p c l s) q = threads s q" if "q \<noteq> p" for q using that by (simp add: thr mt)
  show hm: "home (move_rt p c l s) = (home s)(p \<mapsto> l)"
    using p(1) by (auto simp: home_def fun_eq_iff thr mt is_rt_task_def split: if_splits)
  show al: "pri (move_rt p c l s) = pri s" "alw (move_rt p c l s) = alw s" by (auto simp: thr mt)
  show "pt_allowed (threads (move_rt p c l s) q) = pt_allowed (threads s q)" for q by (simp add: thr mt)
  have "waiting (move_rt p c l s) = ?P1(l := (if 1 < alw s p then insert p (waiting s l) else waiting s l))"
    using p l l_free fun_cong [OF al(2)] by (auto simp: waiting_def hm cur fun_eq_iff split: if_splits)
  moreover have "threads_ok e (move_rt p c l s)"
    unfolding threads_ok_def using T l l_free p(2) H(5) by (auto simp: thr mt cur)
  ultimately show "smp_inv e (move_rt p c l s)"
    using a1 by (simp only: smp_inv_def hm simp_thms)
qed

section \<open>The other processors\<close>

text \<open>
  What they do keeps the invariant, and from some turn on they do nothing that matters here:
  otherwise a processor might look for a target for ever.
\<close>

definition rely :: "push_env \<Rightarrow> bool" where
  "rely e \<longleftrightarrow> (\<forall>n s. smp_inv e s \<longrightarrow> smp_inv e (others e n s) \<and> turns (others e n s) = turns s)"

definition quiet :: "push_env \<Rightarrow> nat \<Rightarrow> bool" where
  "quiet e N \<longleftrightarrow> (\<forall>n\<ge>N. \<forall>s. others e n s = s)"

lemma double_lock_ok:
  assumes "rely e" and "smp_inv e s"
  shows "smp_inv e (double_lock_balance e s)" and "turns (double_lock_balance e s) = turns s + 1"
  using assms by (auto simp: double_lock_balance_def rely_def turns_same)

lemma double_lock_quiet:
  assumes "quiet e N" and "N \<le> turns s"
  shows "double_lock_balance e s = s\<lparr>turns := turns s + 1\<rparr>"
  using assms by (simp add: double_lock_balance_def quiet_def)

text \<open>What \<^verbatim>\<open>find_lock_lowest_rq()\<close> has checked when it finds a run queue.\<close>

definition push_target :: "tid \<Rightarrow> nat \<Rightarrow> nat \<Rightarrow> smp \<Rightarrow> bool" where
  "push_target p c l s \<longleftrightarrow> l \<noteq> c \<and> pt_cpu (threads s p) = c \<and> l \<in> pt_allowed (threads s p) \<and>
     \<not> thread_running p s \<and> pt_on_rq (threads s p) \<and> pri s p < highest_prio (pq_rt (cpus s l))"

lemma find_lock_ok:
  assumes "rely e" and "smp_inv e s" and "find_lock_lowest_rq e n p c s = (r, s')"
  shows "smp_inv e s' \<and> turns s \<le> turns s' \<and> (turns s' = turns s \<longrightarrow> s' = s) \<and>
         (case r of None \<Rightarrow> True | Some l \<Rightarrow> turns s < turns s' \<and> push_target p c l s')"
  using assms(2,3)
proof (induction n arbitrary: s)
  case 0
  then show ?case by simp
next
  case (Suc n)
  note dl = double_lock_ok [OF assms(1) Suc.prems(1)]
  show ?case
  proof (cases "find_lowest_rq e p s")
    case None
    then show ?thesis using Suc.prems by simp
  next
    case (Some l)
    let ?s1 = "double_lock_balance e s"
    let ?bad = "pt_cpu (threads ?s1 p) \<noteq> c \<or> l \<notin> pt_allowed (threads ?s1 p) \<or> thread_running p ?s1 \<or> \<not> pt_on_rq (threads ?s1 p)"
    let ?fit = "highest_prio (pq_rt (cpus ?s1 l)) > pri ?s1 p"
    have eq: "(if l = c then (None, s) else if ?bad then (None, ?s1) else if ?fit then (Some l, ?s1)
        else find_lock_lowest_rq e n p c ?s1) = (r, s')"
      using Suc.prems(2) by (simp only: find_lock_lowest_rq.simps Some option.case Let_def)
    show ?thesis
    proof (cases "l = c")
      case True
      then show ?thesis using eq Suc.prems(1) by simp
    next
      case False
      note l = this
      show ?thesis
      proof (cases "?bad \<or> ?fit")
        case True
        then have "s' = ?s1" "r = None \<or> r = Some l \<and> push_target p c l ?s1"
          using eq l by (auto simp: push_target_def split: if_splits)
        then show ?thesis using dl by auto
      next
        case False
        then have "find_lock_lowest_rq e n p c ?s1 = (r, s')" using eq l by simp
        from Suc.IH [OF dl(1) this] show ?thesis using dl(2) by (auto split: option.splits)
      qed
    qed
  qed
qed

lemma find_lock_quiet:
  assumes q: "quiet e N" and "N \<le> turns s" and "find_lock_lowest_rq e n p c s = (r, s')"
  shows "\<exists>t. s' = s\<lparr>turns := t\<rparr>"
  using assms(2,3)
proof (induction n arbitrary: s)
  case 0
  then have "s' = s\<lparr>turns := turns s\<rparr>" by simp
  then show ?case ..
next
  case (Suc n)
  have dl: "double_lock_balance e s = s\<lparr>turns := turns s + 1\<rparr>" by (rule double_lock_quiet [OF q Suc.prems(1)])
  have rec: "\<exists>t. s' = s\<lparr>turns := t\<rparr>"
    if again: "find_lock_lowest_rq e n p c (s\<lparr>turns := turns s + 1\<rparr>) = (r, s')"
  proof -
    obtain t where "s' = s\<lparr>turns := turns s + 1, turns := t\<rparr>"
      using Suc.IH [OF _ again] Suc.prems(1) by auto
    then have "s' = s\<lparr>turns := t\<rparr>" by simp
    then show ?thesis ..
  qed
  have here: "\<exists>t. s\<lparr>turns := n\<rparr> = s\<lparr>turns := t\<rparr>" "\<exists>t. s = s\<lparr>turns := t\<rparr>" for n
  proof -
    show "\<exists>t. s\<lparr>turns := n\<rparr> = s\<lparr>turns := t\<rparr>" by blast
    have "s = s\<lparr>turns := turns s\<rparr>" by simp
    then show "\<exists>t. s = s\<lparr>turns := t\<rparr>" ..
  qed
  show ?case
    using Suc.prems(2) rec here by (auto simp: dl Let_def split: option.splits if_splits)
qed

section \<open>Pushing\<close>

text \<open>None of the five \<^verbatim>\<open>BUG_ON()\<close> of \<^verbatim>\<open>pick_next_pushable_task()\<close> is reached.\<close>

lemma pick_next_pushable_ok:
  assumes inv: "smp_inv e s"
  shows "pick_next_pushable_task c s = Some (case pushable (cpus s c) of [] \<Rightarrow> None | x # _ \<Rightarrow> Some (snd x))"
    and "pushable (cpus s c) = x # xs \<Longrightarrow> snd x \<in> waiting s c \<and> fst x = pri s (snd x)"
    and "pushable (cpus s c) = [] \<longleftrightarrow> waiting s c = {}"
    and "pushable (cpus s c) = x # xs \<Longrightarrow> p \<in> waiting s c \<Longrightarrow> fst x \<le> pri s p"
proof -
  have ok: "plist_ok (pri s) (waiting s c) (pushable (cpus s c))"
    by (rule pq_okD(3) [OF queues_okD(1) [OF smp_invD(2) [OF inv]]])
  show head: "snd x \<in> waiting s c \<and> fst x = pri s (snd x)" if "pushable (cpus s c) = x # xs" for x xs
    using plist_ok_prio [OF ok, of x] that by simp
  show "pushable (cpus s c) = [] \<longleftrightarrow> waiting s c = {}" using ok by (auto simp: plist_ok_def)
  show "pushable (cpus s c) = x # xs \<Longrightarrow> p \<in> waiting s c \<Longrightarrow> fst x \<le> pri s p"
    using ok by (force simp: plist_ok_def)
  show "pick_next_pushable_task c s = Some (case pushable (cpus s c) of [] \<Rightarrow> None | x # _ \<Rightarrow> Some (snd x))"
  proof (cases "pushable (cpus s c)")
    case Nil
    then show ?thesis by (simp add: pick_next_pushable_task_def)
  next
    case (Cons x xs)
    then have w: "snd x \<in> waiting s c" using head by simp
    then have h: "home s (snd x) = Some c" by (simp add: waiting_def)
    then have "pt_on_rq (threads s (snd x))" "is_rt_task (snd x) s" "pt_cpu (threads s (snd x)) = c"
      by (simp_all add: home_def split: if_splits)
    then show ?thesis using w by (auto simp: pick_next_pushable_task_def Cons waiting_def)
  qed
qed

lemma push_target_home:
  assumes inv: "smp_inv e s" and t: "push_target p c l s"
  shows "home s p = Some c" and "p \<noteq> pq_curr (cpus s c)" and "l \<noteq> c" and "l < nr_cpu_ids e"
proof -
  note T = threads_okD [OF smp_invD(1) [OF inv]] and Q = queues_okD(1) [OF smp_invD(2) [OF inv], of l]
  have "highest_prio (pq_rt (cpus s l)) \<le> 100" by (rule highest_prio_range(2) [OF pq_okD(1) [OF Q]])
  then have "is_rt_task p s" using t by (auto simp: push_target_def is_rt_task_def prio_consts)
  then show "home s p = Some c" using t by (simp add: home_def push_target_def)
  show "p \<noteq> pq_curr (cpus s c)" using t T(5) [of p] by (auto simp: push_target_def thread_running_def)
  show "l \<noteq> c" "l < nr_cpu_ids e" using t T(2) [of p] by (auto simp: push_target_def)
qed

text \<open>
  \<open>cpupri_find()\<close> as its documentation has it: the processors it returns are some on which the task
  may run and whose recorded priority is lower than that of the task, and it returns none only
  when there is none.
\<close>

definition cpupri_exact :: "push_env \<Rightarrow> bool" where
  "cpupri_exact e \<longleftrightarrow> mask_allocated e \<and>
     (\<forall>s p. case cpupri_find e s p of
        None \<Rightarrow> \<forall>l\<in>pt_allowed (threads s p). cpu_pri s l \<le> pri s p
      | Some m \<Rightarrow> m \<noteq> {} \<and> m \<subseteq> pt_allowed (threads s p) \<and> (\<forall>l\<in>m. pri s p < cpu_pri s l))"

lemma cpupri_exactD:
  assumes "cpupri_exact e"
  shows "mask_allocated e"
    and "cpupri_find e s p = None \<Longrightarrow> l \<in> pt_allowed (threads s p) \<Longrightarrow> cpu_pri s l \<le> pri s p"
    and "cpupri_find e s p = Some m \<Longrightarrow> m \<noteq> {} \<and> m \<subseteq> pt_allowed (threads s p)"
    and "cpupri_find e s p = Some m \<Longrightarrow> l \<in> m \<Longrightarrow> pri s p < cpu_pri s l"
proof -
  note ex = assms [unfolded cpupri_exact_def]
  show "mask_allocated e" using ex by simp
  from ex have *: "case cpupri_find e s p of
      None \<Rightarrow> \<forall>l\<in>pt_allowed (threads s p). cpu_pri s l \<le> pri s p
    | Some m \<Rightarrow> m \<noteq> {} \<and> m \<subseteq> pt_allowed (threads s p) \<and> (\<forall>l\<in>m. pri s p < cpu_pri s l)" by blast
  show "cpupri_find e s p = None \<Longrightarrow> l \<in> pt_allowed (threads s p) \<Longrightarrow> cpu_pri s l \<le> pri s p"
    "cpupri_find e s p = Some m \<Longrightarrow> m \<noteq> {} \<and> m \<subseteq> pt_allowed (threads s p)"
    "cpupri_find e s p = Some m \<Longrightarrow> l \<in> m \<Longrightarrow> pri s p < cpu_pri s l"
    using * by simp_all
qed

text \<open>No processor that a task may run on runs something of lower priority.\<close>

definition no_target :: "tid \<Rightarrow> smp \<Rightarrow> bool" where
  "no_target p s \<longleftrightarrow>
     (\<forall>l\<in>pt_allowed (threads s p). pq_online (cpus s l) \<longrightarrow> highest_prio (pq_rt (cpus s l)) \<le> pri s p)"

lemma lowest_in_domains_mem:
  "lowest_in_domains e m this sds = Some l \<Longrightarrow> l \<in> m \<or> this = Some l"
  by (induction sds) (auto simp: cpumask_first_def find_Some_iff split: if_splits option.splits)

lemma find_lowest_rq_mem:
  assumes "find_lowest_rq e p s = Some l"
  obtains m where "cpupri_find e s p = Some m" "l \<in> m"
  using assms lowest_in_domains_mem
  by (fastforce simp: find_lowest_rq_def Let_def cpumask_first_def find_Some_iff split: if_splits option.splits)

lemma find_lowest_rq_None:
  assumes "find_lowest_rq e p s = None" and "mask_allocated e" and "alw s p \<noteq> 1"
  shows "case cpupri_find e s p of None \<Rightarrow> True | Some m \<Rightarrow> m \<inter> {..<nr_cpu_ids e} = {}"
  using assms
  by (auto simp: find_lowest_rq_def Let_def cpumask_first_def find_None_iff split: if_splits option.splits)

text \<open>While the others are quiet, the search fails only if there is no target.\<close>

lemma cpu_pri_eq:
  assumes "smp_inv e s"
  shows "cpu_pri s l = (if pq_online (cpus s l) then highest_prio (pq_rt (cpus s l)) else CPUPRI_INVALID)"
  using queues_okD(4) [OF smp_invD(2) [OF assms]] by (simp add: cpupri_ok_def)

lemma highest_le:
  assumes "smp_inv e s" and "home s p = Some c"
  shows "highest_prio (pq_rt (cpus s c)) \<le> pri s p"
proof -
  note Q = queues_okD(1) [OF smp_invD(2) [OF assms(1)], of c]
  have "Rt_Task p \<in> rt_ents (pq_rt (cpus s c))" using pq_ok_tasks(4) [OF Q, of p] assms(2) by simp
  from highest_prio_range(4) [OF pq_okD(1) [OF Q] this] show ?thesis by simp
qed

lemma find_lock_quiet_target:
  assumes inv: "smp_inv e s" and ex: "cpupri_exact e" and q: "quiet e N" "N \<le> turns s"
    and p: "p \<in> waiting s c" and n: "find_lock_lowest_rq e (Suc n) p c s = (None, s')"
  shows "no_target p s"
proof -
  have h: "home s p = Some c" and cur: "p \<noteq> pq_curr (cpus s c)" and al: "1 < alw s p"
    using p by (auto simp: waiting_def)
  note H = home_task [OF inv h] and T = threads_okD [OF smp_invD(1) [OF inv]]
  note ex = cpupri_exactD [OF ex]
  show ?thesis
  proof (cases "find_lowest_rq e p s")
    case None
    have "cpupri_find e s p = None"
    proof (cases "cpupri_find e s p")
      case (Some m)
      then have "m \<noteq> {} \<and> m \<subseteq> pt_allowed (threads s p)" by (rule ex(3))
      then have "m \<inter> {..<nr_cpu_ids e} \<noteq> {}" using T(2) [of p] by blast
      then show ?thesis using find_lowest_rq_None [OF None ex(1)] Some al by auto
    qed simp
    then have "\<forall>l\<in>pt_allowed (threads s p). cpu_pri s l \<le> pri s p" using ex(2) by blast
    then show ?thesis using cpu_pri_eq [OF inv] by (auto simp: no_target_def)
  next
    case (Some l)
    then obtain m where "cpupri_find e s p = Some m" "l \<in> m" by (rule find_lowest_rq_mem)
    then have l: "l \<in> pt_allowed (threads s p)" "pri s p < cpu_pri s l" using ex(3,4) by blast+
    then have hp: "pri s p < highest_prio (pq_rt (cpus s l))"
      using cpu_pri_eq [OF inv, of l] H(2) by (auto simp: CPUPRI_INVALID_def split: if_splits)
    then have "l \<noteq> c" using highest_le [OF inv h] by auto
    moreover have "pt_on_rq (threads s p)" using h by (simp add: home_def split: if_splits)
    moreover have "\<not> thread_running p s" using T(5) [of p] H(5) cur by (simp add: thread_running_def)
    ultimately have "find_lock_lowest_rq e (Suc n) p c s = (Some l, s\<lparr>turns := turns s + 1\<rparr>)"
      using Some double_lock_quiet [OF q] H(5) l(1) hp by (simp add: Let_def thread_running_def)
    then show ?thesis using n by simp
  qed
qed

text \<open>What a push leaves behind: a moved task, or a reason why the first one stays.\<close>

definition push_moved :: "push_env \<Rightarrow> nat \<Rightarrow> smp \<Rightarrow> bool" where
  "push_moved e c s' \<longleftrightarrow> (\<exists>p l s1. smp_inv e s1 \<and> push_target p c l s1 \<and>
     s' = resched_task_smp e (pq_curr (cpus (move_rt p c l s1) l)) (move_rt p c l s1))"

definition push_settled :: "nat \<Rightarrow> smp \<Rightarrow> bool" where
  "push_settled c s \<longleftrightarrow> \<not> is_overloaded (cpus s c) \<or> waiting s c = {} \<or>
     (let p = snd (hd (pushable (cpus s c))); cur = pq_curr (cpus s c)
      in pri s p < pri s cur \<and> pt_resched (threads s cur) \<or> no_target p s)"

definition push_result :: "push_env \<Rightarrow> nat \<Rightarrow> nat \<Rightarrow> smp \<Rightarrow> bool \<Rightarrow> smp \<Rightarrow> bool" where
  "push_result e N c s b s' \<longleftrightarrow> smp_inv e s' \<and> turns s \<le> turns s' \<and>
     (if b then turns s < turns s' \<and> push_moved e c s' \<and> (N \<le> turns s \<longrightarrow> waiting s' c \<subset> waiting s c)
      else N \<le> turns s \<and> cpupri_exact e \<longrightarrow> push_settled c s')"

lemma push_moved_result:
  assumes inv: "smp_inv e s1" and t: "push_target p c l s1" and turns: "turns s < turns s1"
    and w: "N \<le> turns s \<Longrightarrow> waiting s1 = waiting s \<and> p \<in> waiting s c"
  shows "push_result e N c s True (resched_task_smp e (pq_curr (cpus (move_rt p c l s1) l)) (move_rt p c l s1))"
proof -
  note m = move_rt_ok [OF inv push_target_home [OF inv t]]
  let ?s = "move_rt p c l s1"
  have "waiting ?s c = waiting s1 c - {p}"
    using push_target_home(3) [OF inv t] fun_cong [OF m(8)]
    by (auto simp: waiting_def m(2,5) split: if_splits)
  then have "N \<le> turns s \<Longrightarrow> waiting ?s c \<subset> waiting s c" using w by auto
  then show ?thesis
    using m(1,3) inv t turns resched_same resched_frame(5)
    by (auto simp: push_result_def push_moved_def)
qed

lemma turns_settled: "push_settled c (s\<lparr>turns := t\<rparr>) = push_settled c s"
  by (simp add: push_settled_def turns_same no_target_def)

lemma push_rt_retry_ok:
  assumes rely: "rely e" and q: "quiet e N"
  shows "smp_inv e s \<Longrightarrow> pushable (cpus s c) = x # xs \<Longrightarrow>
    \<exists>b s'. push_rt_retry e c (snd x) s = Some (b, s') \<and> push_result e N c s b s'"
proof (induction "N - turns s" arbitrary: s x xs rule: less_induct)
  case less
  note inv = less.prems(1) and P = pick_next_pushable_ok [OF less.prems(1)]
  let ?p = "snd x" and ?cur = "pq_curr (cpus s c)"
  have wait: "?p \<in> waiting s c" using P(2) [OF less.prems(2)] by simp
  then have cur: "?p \<noteq> ?cur" and home: "home s ?p = Some c" by (auto simp: waiting_def)
  show ?case
  proof (cases "pri s ?p < pri s ?cur")
    case True
    then have "push_rt_retry e c ?p s = Some (False, resched_task_smp e ?cur s)"
      using cur by (simp add: push_rt_retry.simps)
    moreover have "push_settled c (resched_task_smp e ?cur s)"
      using True fun_cong [OF resched_same(4)]
      by (simp add: push_settled_def Let_def resched_same(3) resched_frame(1,7) less.prems(2))
    ultimately show ?thesis
      using inv resched_same(1) resched_frame(5) by (auto simp: push_result_def)
  next
    case False
    obtain r s1 where find: "find_lock_lowest_rq e RT_MAX_TRIES ?p c s = (r, s1)" by fastforce
    note F = find_lock_ok [OF rely inv find]
    then have inv1: "smp_inv e s1" and le: "turns s \<le> turns s1" by simp_all
    note P1 = pick_next_pushable_ok [OF inv1, of c]
    have quiet: "N \<le> turns s \<Longrightarrow> \<exists>t. s1 = s\<lparr>turns := t\<rparr>" by (rule find_lock_quiet [OF q _ find])
    show ?thesis
    proof (cases r)
      case (Some l)
      then have t: "push_target ?p c l s1" and lt: "turns s < turns s1" using F by simp_all
      have "N \<le> turns s \<Longrightarrow> waiting s1 = waiting s \<and> ?p \<in> waiting s c" using quiet wait turns_same(3) by metis
      from push_moved_result [where N = N, OF inv1 t lt this]
      have "push_result e N c s True (resched_task_smp e (pq_curr (cpus (move_rt ?p c l s1) l)) (move_rt ?p c l s1))" .
      moreover have "push_rt_retry e c ?p s =
          Some (True, resched_task_smp e (pq_curr (cpus (move_rt ?p c l s1) l)) (move_rt ?p c l s1))"
        using cur False find by (simp add: push_rt_retry.simps Some move_rt_def Let_def)
      ultimately show ?thesis by blast
    next
      case None
      have settled: "push_settled c s1" if "N \<le> turns s" "cpupri_exact e"
      proof -
        have "no_target ?p s"
          by (rule find_lock_quiet_target [OF inv that(2) q that(1) wait])
            (use find None in \<open>simp add: RT_MAX_TRIES_def eval_nat_numeral\<close>)
        then have "push_settled c s" by (simp add: push_settled_def Let_def less.prems(2))
        then show ?thesis using quiet [OF that(1)] turns_settled by metis
      qed
      show ?thesis
      proof (cases "pushable (cpus s1 c)")
        case Nil
        then have "push_rt_retry e c ?p s = Some (False, s1)"
          using cur False find P1(1) by (simp add: push_rt_retry.simps None)
        then show ?thesis using inv1 le settled by (auto simp: push_result_def)
      next
        case (Cons y ys)
        have step: "push_rt_retry e c ?p s =
            (if pt_cpu (threads s1 ?p) = c \<and> snd y = ?p then Some (False, s1) else push_rt_retry e c (snd y) s1)"
          using cur False find P1(1) Cons by (simp add: push_rt_retry.simps [of e c ?p s] None)
        show ?thesis
        proof (cases "pt_cpu (threads s1 ?p) = c \<and> snd y = ?p")
          case True
          then show ?thesis using step inv1 le settled by (auto simp: push_result_def)
        next
          case again: False
          have "turns s < N" and lt: "turns s < turns s1"
            using quiet again Cons F less.prems(2) home_task(5) [OF inv home] by (force simp: le_less)+
          then obtain b s' where "push_rt_retry e c (snd y) s1 = Some (b, s')" "push_result e N c s1 b s'"
            using less.hyps [OF _ inv1 Cons] by (meson diff_less_mono2)
          then show ?thesis
            using step again \<open>turns s < N\<close> lt by (auto simp: push_result_def split: if_splits)
        qed
      qed
    qed
  qed
qed

lemma push_rt_task_ok:
  assumes rely: "rely e" and q: "quiet e N" and inv: "smp_inv e s"
  shows "\<exists>b s'. push_rt_task e c s = Some (b, s') \<and> push_result e N c s b s'"
proof -
  have stay: "push_result e N c s False s" if "push_settled c s" using inv that by (simp add: push_result_def)
  note P = pick_next_pushable_ok [OF inv, of c]
  show ?thesis
  proof (cases "is_overloaded (cpus s c) \<and> pushable (cpus s c) \<noteq> []")
    case True
    then obtain x xs where x: "pushable (cpus s c) = x # xs" by (cases "pushable (cpus s c)") auto
    then show ?thesis using push_rt_retry_ok [OF rely q inv x] True P(1) by (simp add: push_rt_task_def)
  next
    case False
    then have "push_settled c s" using P(3) by (auto simp: push_settled_def)
    then show ?thesis using stay False P(1) by (auto simp: push_rt_task_def)
  qed
qed

lemma finite_waiting: "smp_inv e s \<Longrightarrow> finite (waiting s c)"
  by (rule finite_subset [of _ "{..<PID_MAX_LIMIT}"]) (auto simp: waiting_def dest: home_task(1))

text \<open>Every push takes a turn; once the others are quiet, it takes a task off the list for good.\<close>

lemma push_rt_tasks_ok:
  assumes rely: "rely e" and q: "quiet e N"
  shows "smp_inv e s \<Longrightarrow>
    \<exists>s'. push_rt_tasks e c s = Some s' \<and> smp_inv e s' \<and> (N \<le> turns s \<and> cpupri_exact e \<longrightarrow> push_settled c s')"
proof (induction "(N - turns s, card (waiting s c))" arbitrary: s
    rule: wf_induct_rule [OF wf_lex_prod [OF wf_less_than wf_less_than]])
  case less: 1
  obtain b s1 where push: "push_rt_task e c s = Some (b, s1)" and r: "push_result e N c s b s1"
    using push_rt_task_ok [OF rely q less.prems] by blast
  show ?case
  proof (cases b)
    case False
    then show ?thesis using push r by (auto simp: push_rt_tasks.simps [of e c s] push_result_def)
  next
    case True
    then have inv1: "smp_inv e s1" and lt: "turns s < turns s1"
      and sub: "N \<le> turns s \<Longrightarrow> waiting s1 c \<subset> waiting s c" using r by (simp_all add: push_result_def)
    have "((N - turns s1, card (waiting s1 c)), N - turns s, card (waiting s c)) \<in> less_than <*lex*> less_than"
      using lt psubset_card_mono [OF finite_waiting [OF less.prems] sub] by (cases "N \<le> turns s") auto
    then obtain s' where "push_rt_tasks e c s1 = Some s'" "smp_inv e s'"
      "N \<le> turns s1 \<and> cpupri_exact e \<longrightarrow> push_settled c s'"
      using less.hyps [OF _ inv1] by blast
    then show ?thesis using push True lt by (simp add: push_rt_tasks.simps [of e c s])
  qed
qed

end
