(* ===== verification/Rt_Pull_Steps.thy ===== *)
theory Rt_Pull_Steps
  imports Rt_Push_Steps
begin

text \<open>
  Pulling: which task of another processor is taken, and that afterwards no overloaded processor
  keeps one waiting that should run here.
\<close>

section \<open>The best task to pull\<close>

text \<open>The tasks of \<open>src\<close> that wait and may run on \<open>cpu\<close>.\<close>

definition pullable :: "smp \<Rightarrow> nat \<Rightarrow> nat \<Rightarrow> tid set" where
  "pullable s src cpu = {p \<in> waiting s src. cpu \<in> pt_allowed (threads s p)}"

lemma find_next_bit_spec:
  assumes "i \<le> n"
  shows "find_next_bit b n i \<le> n" and "i \<le> k \<Longrightarrow> k < find_next_bit b n i \<Longrightarrow> \<not> b k"
proof -
  show "find_next_bit b n i \<le> n" by (auto simp: find_next_bit_def find_Some_iff split: option.split)
  show "i \<le> k \<Longrightarrow> k < find_next_bit b n i \<Longrightarrow> \<not> b k"
  proof (cases "find b [i..<n]")
    case None
    then show "i \<le> k \<Longrightarrow> k < find_next_bit b n i \<Longrightarrow> \<not> b k"
      by (auto simp: find_next_bit_def find_None_iff)
  next
    case (Some j)
    then obtain m where m: "m < n - i" "j = i + m" "\<forall>l<m. \<not> b (i + l)" by (auto simp: find_Some_iff)
    show "i \<le> k \<Longrightarrow> k < find_next_bit b n i \<Longrightarrow> \<not> b k"
      using m(3) [rule_format, of "k - i"] m(2) Some by (simp add: find_next_bit_def)
  qed
qed

text \<open>The search meets the first priority at which a task may be picked.\<close>

definition candidates :: "nat \<Rightarrow> rt_prio_array \<Rightarrow> smp \<Rightarrow> nat \<Rightarrow> tid set" where
  "candidates cpu a s i = {p. Rt_Task p \<in> set (queue a i) \<and> pick_rt_task cpu s p}"

lemma set_tasks: "set (List.map_filter task_of_entity xs) = {p. Rt_Task p \<in> set xs}"
proof -
  have "task_of_entity x = Some p \<longleftrightarrow> x = Rt_Task p" for x p by (cases x) auto
  then show ?thesis by (auto simp: map_filter_def image_iff) (metis option.sel)
qed

lemma highest_from_spec:
  assumes bits: "\<And>i. i < 100 \<Longrightarrow> \<not> bitmap a i \<Longrightarrow> queue a i = []"
  shows "case highest_from cpu a s idx of
      None \<Rightarrow> \<forall>i. idx \<le> i \<and> i < 100 \<longrightarrow> candidates cpu a s i = {}
    | Some p \<Rightarrow> \<exists>i. idx \<le> i \<and> i < 100 \<and> p \<in> candidates cpu a s i \<and>
        (\<forall>j. idx \<le> j \<and> j < i \<longrightarrow> candidates cpu a s j = {})"
proof (induction "100 - idx" arbitrary: idx rule: less_induct)
  case less
  show ?case
  proof (cases "idx \<ge> 100")
    case True
    then show ?thesis by (auto simp: highest_from.simps)
  next
    case False
    show ?thesis
    proof (cases "find (pick_rt_task cpu s) (List.map_filter task_of_entity (queue a idx))")
      case (Some p)
      then have "p \<in> candidates cpu a s idx"
        by (auto simp: find_Some_iff candidates_def dest: nth_mem) (metis mem_Collect_eq nth_mem set_tasks)
      then show ?thesis using False Some by (auto simp: highest_from.simps [of _ _ _ idx])
    next
      case None
      then have empty: "candidates cpu a s idx = {}"
        by (auto simp: find_None_iff candidates_def set_tasks)
      let ?n = "find_next_bit (bitmap a) 100 (idx + 1)"
      have n: "idx < ?n" "?n \<le> 100" and skip: "idx < k \<Longrightarrow> k < ?n \<Longrightarrow> candidates cpu a s k = {}" for k
        using find_next_bit_ge [of "idx + 1" 100 "bitmap a"] find_next_bit_spec [where i = "idx + 1" and n = 100 and b = "bitmap a"]
          bits [of k] False by (auto simp: candidates_def)
      have gap: "candidates cpu a s k = {}" if "idx \<le> k" "k < ?n" for k
        using empty skip that by (cases "k = idx") auto
      have "highest_from cpu a s idx = highest_from cpu a s ?n"
        using False None by (simp add: highest_from.simps [of _ _ _ idx])
      moreover have "100 - ?n < 100 - idx" using n False by simp
      note less.hyps [OF this]
      moreover have "idx \<le> i" if "?n \<le> i" for i using that n(1) by simp
      moreover have "?n \<le> i \<or> candidates cpu a s i = {}" if "idx \<le> i" for i
        using gap [OF that] by (cases "i < ?n") auto
      ultimately show ?thesis by (cases "highest_from cpu a s ?n") (simp, blast, simp, blast)
    qed
  qed
qed

lemma pick_next_highest_ok:
  assumes inv: "smp_inv e s"
  shows "case pick_next_highest_task_rt src cpu s of
      None \<Rightarrow> pullable s src cpu = {}
    | Some p \<Rightarrow> p \<in> pullable s src cpu \<and> (\<forall>q\<in>pullable s src cpu. pri s p \<le> pri s q)"
proof -
  note Q = queues_okD(1) [OF smp_invD(2) [OF inv], of src] and T = threads_okD [OF smp_invD(1) [OF inv]]
  let ?a = "rt_array src s" and ?r = "pq_rt (cpus s src)"
  note wf = rq_wfD [OF pq_okD(1) [OF Q]]
  have cand: "p \<in> candidates cpu ?a s i \<longleftrightarrow> p \<in> pullable s src cpu \<and> pri s p = int i" if "i < 100" for p i
  proof -
    have "Rt_Task p \<in> set (queue ?a i) \<longleftrightarrow> home s p = Some src \<and> pri s p = int i"
    proof
      assume q: "Rt_Task p \<in> set (queue ?a i)"
      then have "Rt_Task p \<in> rt_ents ?r" using that by (auto simp: rt_ents_def rt_array_def)
      then show "home s p = Some src \<and> pri s p = int i"
        using wf(4) [OF that, of "Rt_Task p"] pq_ok_tasks(4) [OF Q, of p] q by (simp add: rt_array_def)
    next
      assume h: "home s p = Some src \<and> pri s p = int i"
      then have "Rt_Task p \<in> rt_ents ?r" using pq_ok_tasks(4) [OF Q, of p] by simp
      then show "Rt_Task p \<in> set (queue ?a i)"
        using rt_ents_iff [OF pq_okD(1) [OF Q], of "Rt_Task p"] h by (simp add: rt_array_def)
    qed
    moreover have "pick_rt_task cpu s p \<longleftrightarrow> p \<noteq> pq_curr (cpus s src) \<and> cpu \<in> pt_allowed (threads s p) \<and> 1 < alw s p"
      if "home s p = Some src"
      using home_task(5) [OF inv that] T(5) [of p] by (auto simp: pick_rt_task_def thread_running_def)
    ultimately show ?thesis by (auto simp: candidates_def pullable_def waiting_def)
  qed
  obtain n where n: "n \<le> 100" "sched_find_first_bit (bitmap ?a) = int n" "\<forall>j<n. \<not> bitmap ?a j"
    using first_bit_exists [of "bitmap ?a"] wf(1) by (auto simp: rt_array_def)
  have low: "candidates cpu ?a s j = {}" if "j < n" "j < 100" for j
    using n(3) wf(2) [OF that(2)] that(1) by (auto simp: candidates_def rt_array_def)
  have range: "\<exists>i<100. pri s q = int i \<and> n \<le> i" if "q \<in> pullable s src cpu" for q
  proof -
    have "home s q = Some src" using that by (simp add: pullable_def waiting_def)
    then have "0 \<le> pri s q" "pri s q < 100" using home_task [OF inv] by auto
    then have i: "nat (pri s q) < 100" "pri s q = int (nat (pri s q))" by auto
    then show ?thesis using low [of "nat (pri s q)"] cand [OF i(1), of q] that by (metis empty_iff linorder_not_le)
  qed
  have spec: "case pick_next_highest_task_rt src cpu s of
      None \<Rightarrow> \<forall>i. n \<le> i \<and> i < 100 \<longrightarrow> candidates cpu ?a s i = {}
    | Some p \<Rightarrow> \<exists>i. n \<le> i \<and> i < 100 \<and> p \<in> candidates cpu ?a s i \<and>
        (\<forall>j. n \<le> j \<and> j < i \<longrightarrow> candidates cpu ?a s j = {})"
    unfolding pick_next_highest_task_rt_def n(2) nat_int
    by (rule highest_from_spec) (use wf(2) in \<open>auto simp: rt_array_def\<close>)
  show ?thesis
  proof (cases "pick_next_highest_task_rt src cpu s")
    case None
    have "q \<notin> pullable s src cpu" for q
    proof
      assume q: "q \<in> pullable s src cpu"
      then obtain i where i: "i < 100" "pri s q = int i" "n \<le> i" using range by blast
      then have "q \<in> candidates cpu ?a s i" using cand [OF i(1)] q by simp
      then show False using spec None i by auto
    qed
    then show ?thesis using None by auto
  next
    case (Some p)
    then obtain i where i: "i < 100" "p \<in> candidates cpu ?a s i"
      and least: "\<forall>j. n \<le> j \<and> j < i \<longrightarrow> candidates cpu ?a s j = {}" using spec by auto
    have "pri s p \<le> pri s q" if q: "q \<in> pullable s src cpu" for q
    proof -
      obtain j where j: "j < 100" "pri s q = int j" "n \<le> j" using range [OF q] by auto
      then have "q \<in> candidates cpu ?a s j" using cand q by simp
      then show ?thesis using least j cand [OF i(1)] i(2) by (metis empty_iff linorder_not_le of_nat_le_iff)
    qed
    then show ?thesis using Some cand [OF i(1)] i(2) by simp
  qed
qed

section \<open>One processor pulls from another\<close>

definition pull_one :: "push_env \<Rightarrow> nat \<Rightarrow> nat \<Rightarrow> smp \<Rightarrow> bool \<times> smp" where
  "pull_one e c cpu s =
     (if cpu \<notin> rto_mask s \<or> c = cpu \<or> highest_next (cpus s cpu) \<ge> highest_prio (pq_rt (cpus s c)) then (False, s)
      else
        let s1 = double_lock_balance e s
        in if rt_nr_running (pq_rt (cpus s1 cpu)) \<le> 1 then (False, s1)
           else case pick_next_highest_task_rt cpu c s1 of
                  None \<Rightarrow> (False, s1)
                | Some p \<Rightarrow>
                    if pri s1 p < highest_prio (pq_rt (cpus s1 c)) \<and> \<not> pri s1 p < pri s1 (pq_curr (cpus s1 cpu))
                    then (True, move_rt p cpu c s1) else (False, s1))"

lemma pull_loop_Cons:
  "pull_loop e c (cpu # rest) ret s =
     (let (m, s1) = pull_one e c cpu s in pull_loop e c rest (ret \<or> m) s1)"
  by (simp add: pull_one_def move_rt_def Let_def split: option.split)

declare pull_loop.simps(2) [simp del]

definition rely_curr :: "push_env \<Rightarrow> nat \<Rightarrow> bool" where
  "rely_curr e c \<longleftrightarrow> (\<forall>n s. pq_curr (cpus (others e n s) c) = pq_curr (cpus s c))"

lemma double_lock_curr: "rely_curr e c \<Longrightarrow> pq_curr (cpus (double_lock_balance e s) c) = pq_curr (cpus s c)"
  by (simp add: double_lock_balance_def rely_curr_def)

lemma pullable_home:
  assumes "p \<in> pullable s i c"
  shows "home s p = Some i" "p \<noteq> pq_curr (cpus s i)" "1 < alw s p" "c \<in> pt_allowed (threads s p)"
  using assms by (auto simp: pullable_def waiting_def)

lemma pull_one_ok:
  assumes "rely e" and inv: "smp_inv e s" and c: "c < nr_cpu_ids e"
  shows "smp_inv e (snd (pull_one e c i s))"
    and "rely_curr e j \<Longrightarrow> pq_curr (cpus (snd (pull_one e c i s)) j) = pq_curr (cpus s j)"
    and "turns s \<le> turns (snd (pull_one e c i s))"
proof -
  let ?s1 = "double_lock_balance e s"
  note dl = double_lock_ok [OF assms(1) inv]
  have move: "smp_inv e (move_rt p i c ?s1) \<and> turns s \<le> turns (move_rt p i c ?s1) \<and>
      pq_curr (cpus (move_rt p i c ?s1) j) = pq_curr (cpus ?s1 j)"
    if "pick_next_highest_task_rt i c ?s1 = Some p" "c \<noteq> i" for p
  proof -
    have "p \<in> pullable ?s1 i c" using pick_next_highest_ok [OF dl(1), of i c] that by simp
    note h = pullable_home [OF this]
    show ?thesis using move_rt_ok(1,3,5) [OF dl(1) h(1,2) that(2) c] dl(2) by simp
  qed
  show "smp_inv e (snd (pull_one e c i s))"
    "rely_curr e j \<Longrightarrow> pq_curr (cpus (snd (pull_one e c i s)) j) = pq_curr (cpus s j)"
    "turns s \<le> turns (snd (pull_one e c i s))"
    using move dl inv double_lock_curr by (auto simp: pull_one_def Let_def split: option.split)
qed

lemma pull_loop_ok:
  assumes "rely e" and c: "c < nr_cpu_ids e"
  shows "smp_inv e s \<Longrightarrow> smp_inv e (snd (pull_loop e c xs r s)) \<and> turns s \<le> turns (snd (pull_loop e c xs r s)) \<and>
    (rely_curr e j \<longrightarrow> pq_curr (cpus (snd (pull_loop e c xs r s)) j) = pq_curr (cpus s j))"
proof (induction xs arbitrary: r s)
  case (Cons i xs)
  obtain m s1 where s1: "pull_one e c i s = (m, s1)" by fastforce
  note one = pull_one_ok [where i = i, OF assms(1) Cons.prems c, unfolded s1 snd_conv]
  show ?case
    using Cons.IH [OF one(1), of "r \<or> m"] one(2,3) by (auto simp: pull_loop_Cons s1)
qed simp

lemma pull_rt_task_ok:
  assumes "rely e" and "c < nr_cpu_ids e" and "smp_inv e s"
  shows "smp_inv e (snd (pull_rt_task e c s))" and "turns s \<le> turns (snd (pull_rt_task e c s))"
    and "rely_curr e j \<Longrightarrow> pq_curr (cpus (snd (pull_rt_task e c s)) j) = pq_curr (cpus s j)"
  using pull_loop_ok [OF assms(1-3)] assms(3) by (auto simp: pull_rt_task_def)

section \<open>What pulling achieves\<close>

lemma highest_attained:
  assumes inv: "smp_inv e s" and "highest_prio (pq_rt (cpus s c)) < 100"
  obtains p where "home s p = Some c" "pri s p = highest_prio (pq_rt (cpus s c))"
proof -
  note Q = queues_okD(1) [OF smp_invD(2) [OF inv], of c]
  note wf = rq_wfD [OF pq_okD(1) [OF Q]]
  let ?b = "bitmap (rt_active (pq_rt (cpus s c)))"
  obtain n where n: "sched_find_first_bit ?b = int n" "?b n" using first_bit_exists [of ?b, OF wf(1)] by auto
  then have "n < 100" using wf(7) assms(2) by simp
  then obtain se where se: "se \<in> set (queue (rt_active (pq_rt (cpus s c))) n)"
    using wf(2) [of n] n(2) by (cases "queue (rt_active (pq_rt (cpus s c))) n") auto
  then have "se \<in> rt_ents (pq_rt (cpus s c))" using \<open>n < 100\<close> by (auto simp: rt_ents_def)
  then obtain p where "se = Rt_Task p" "home s p = Some c" unfolding pq_okD(2) [OF Q] by auto
  then show thesis using that wf(4) [OF \<open>n < 100\<close> se] wf(7) n(1) by simp
qed

lemma highest_antimono:
  assumes "smp_inv e s" "smp_inv e s'" "pri s' = pri s" and "\<And>p. home s p = Some c \<Longrightarrow> home s' p = Some c"
  shows "highest_prio (pq_rt (cpus s' c)) \<le> highest_prio (pq_rt (cpus s c))"
proof (cases "highest_prio (pq_rt (cpus s c)) < 100")
  case True
  then obtain p where "home s p = Some c" "pri s p = highest_prio (pq_rt (cpus s c))"
    using highest_attained [OF assms(1)] by blast
  then show ?thesis using highest_le [OF assms(2), of p c] assms(3,4) by (metis (full_types))
next
  case False
  then show ?thesis
    using highest_prio_range(2) [OF pq_okD(1) [OF queues_okD(1) [OF smp_invD(2) [OF assms(2)]]], of c] by simp
qed

lemma overloaded_iff:
  assumes inv: "smp_inv e s"
  shows "is_overloaded (cpus s i) \<longleftrightarrow>
    1 < card {p. home s p = Some i} \<and> (\<exists>p. home s p = Some i \<and> 1 < alw s p)"
    and "rt_nr_running (pq_rt (cpus s i)) \<le> 1 \<longleftrightarrow> card {p. home s p = Some i} \<le> 1"
proof -
  note Q = queues_okD(1,2) [OF smp_invD(2) [OF inv], of i]
  note D = pq_okD [OF Q(1)] and T = pq_ok_tasks [OF Q(1)]
  let ?S = "{p. home s p = Some i}" and ?W = "{p. home s p = Some i \<and> 1 < alw s p}"
  have w: "card ?W \<le> card ?S" by (rule card_mono [OF T(2)]) auto
  have "card ?W < 2 ^ 32" using w T(5) by (rule le_less_trans)
  then have "(of_nat (card ?W) :: ulong) = 0 \<longleftrightarrow> card ?W = 0"
    using of_nat_word32_inj [of "card ?W" 0] by auto
  moreover have "finite ?W" by (rule finite_subset [OF _ T(2)]) auto
  ultimately have "(of_nat (card ?W) :: ulong) \<noteq> 0 \<longleftrightarrow> ?W \<noteq> {}" by (simp only: card_eq_0_iff simp_thms)
  moreover have big: "(1 :: ulong) < of_nat (card ?S) \<longleftrightarrow> 1 < card ?S"
    using T(5) by (simp add: word_less_nat_alt unat_of_nat)
  moreover have "{p \<in> ?S. 1 < alw s p} = ?W" by auto
  ultimately show "is_overloaded (cpus s i) \<longleftrightarrow> 1 < card ?S \<and> (\<exists>p. home s p = Some i \<and> 1 < alw s p)"
    unfolding Q(2) over_def D(5,6) by auto
  have "card (rt_ents (pq_rt (cpus s i))) = card ?S" unfolding D(2) by (rule card_image) (simp add: inj_on_def)
  then have "rt_nr_running (pq_rt (cpus s i)) = of_nat (card ?S)"
    using rq_wfD(6) [OF D(1)] rt_count_card [OF D(1)] by simp
  then show "rt_nr_running (pq_rt (cpus s i)) \<le> 1 \<longleftrightarrow> card ?S \<le> 1"
    using big by (simp add: linorder_not_less [symmetric])
qed

text \<open>
  Every task of \<open>i\<close> that may run on \<open>c\<close> has no higher priority than what is queued on \<open>c\<close>, unless one of
  at least its priority is about to preempt the current task of \<open>i\<close>.
\<close>

definition pull_done :: "nat \<Rightarrow> nat \<Rightarrow> smp \<Rightarrow> bool" where
  "pull_done c i s \<longleftrightarrow> (\<forall>p\<in>pullable s i c. highest_prio (pq_rt (cpus s c)) \<le> pri s p \<or>
     (\<exists>q\<in>pullable s i c. pri s q \<le> pri s p \<and> pri s q < pri s (pq_curr (cpus s i))))"

text \<open>What a step of the loop leaves alone: every processor but the two, and what \<open>c\<close> has.\<close>

definition pull_keeps :: "nat \<Rightarrow> nat \<Rightarrow> smp \<Rightarrow> smp \<Rightarrow> bool" where
  "pull_keeps c i s s' \<longleftrightarrow> pri s' = pri s \<and> alw s' = alw s \<and>
     (\<forall>p. pt_allowed (threads s' p) = pt_allowed (threads s p)) \<and>
     (\<forall>j. pq_curr (cpus s' j) = pq_curr (cpus s j) \<and> pq_online (cpus s' j) = pq_online (cpus s j)) \<and>
     (\<forall>j p. j \<noteq> c \<and> j \<noteq> i \<longrightarrow> (home s' p = Some j \<longleftrightarrow> home s p = Some j)) \<and>
     (\<forall>p. home s p = Some c \<longrightarrow> home s' p = Some c)"

lemma rto_mask_iff: "smp_inv e s \<Longrightarrow> i \<in> rto_mask s \<longleftrightarrow> is_overloaded (cpus s i) \<and> pq_online (cpus s i)"
  using queues_okD(3) [OF smp_invD(2)] by (simp add: mask_ok_def)

lemma pull_keeps_others:
  assumes "pull_keeps c i s s'" and "smp_inv e s" "smp_inv e s'" and j: "j \<noteq> c" "j \<noteq> i"
  shows "pull_done c j s \<Longrightarrow> pull_done c j s'" and "j \<in> rto_mask s \<Longrightarrow> j \<in> rto_mask s'"
proof -
  note K = assms(1) [unfolded pull_keeps_def]
  have al: "alw s' p = alw s p" for p using K fun_cong by metis
  have same: "pullable s' j c = pullable s j c"
    using K j al by (auto simp: pullable_def waiting_def)
  have "highest_prio (pq_rt (cpus s' c)) \<le> highest_prio (pq_rt (cpus s c))"
    using K by (intro highest_antimono [OF assms(2,3)]) auto
  then show "pull_done c j s \<Longrightarrow> pull_done c j s'"
    using K unfolding pull_done_def same by (metis order_trans)
  have "{p. home s' p = Some j} = {p. home s p = Some j}" using K j by auto
  then show "j \<in> rto_mask s \<Longrightarrow> j \<in> rto_mask s'"
    using K al j unfolding rto_mask_iff [OF assms(2)] rto_mask_iff [OF assms(3)]
      overloaded_iff(1) [OF assms(2)] overloaded_iff(1) [OF assms(3)] by auto
qed

lemma pull_keeps_refl: "pull_keeps c i s s" and pull_keeps_turns: "pull_keeps c i s (s\<lparr>turns := t\<rparr>)"
  by (auto simp: pull_keeps_def turns_same)

lemma pull_keeps_move:
  assumes "smp_inv e s" "home s p = Some i" "p \<noteq> pq_curr (cpus s i)" "c \<noteq> i" "c < nr_cpu_ids e"
  shows "pull_keeps c i s (move_rt p i c s)"
  using move_rt_ok [OF assms(1-5)] assms(2,4) by (auto simp: pull_keeps_def split: if_splits)

lemma pull_one_done:
  assumes q: "quiet e N" "N \<le> turns s" and inv: "smp_inv e s" and c: "c < nr_cpu_ids e"
  shows "pull_keeps c i s (snd (pull_one e c i s))"
    and "c \<noteq> i \<Longrightarrow> i \<in> rto_mask s \<Longrightarrow> pull_done c i (snd (pull_one e c i s))"
proof -
  let ?s1 = "s\<lparr>turns := turns s + 1\<rparr>"
  have dl: "double_lock_balance e s = ?s1" by (rule double_lock_quiet [OF q])
  have inv1: "smp_inv e ?s1" using inv turns_same by simp
  have same: "pullable ?s1 i c = pullable s i c" "pull_done c i ?s1 = pull_done c i s"
    by (simp_all add: pull_done_def pullable_def turns_same)
  note best = pick_next_highest_ok [OF inv1, of i c, unfolded same]
  have keep: "pull_keeps c i s (move_rt p i c ?s1)"
    if "pick_next_highest_task_rt i c ?s1 = Some p" "c \<noteq> i" for p
  proof -
    have "p \<in> pullable s i c" using best that by simp
    then have "home ?s1 p = Some i" "p \<noteq> pq_curr (cpus ?s1 i)" using pullable_home by (auto simp: turns_same)
    from pull_keeps_move [OF inv1 this that(2) c] show ?thesis by (simp add: pull_keeps_def turns_same)
  qed
  show "pull_keeps c i s (snd (pull_one e c i s))"
    using keep pull_keeps_refl pull_keeps_turns by (auto simp: pull_one_def dl Let_def split: option.split)
  assume ci: "c \<noteq> i" and mask: "i \<in> rto_mask s"
  have more: "\<not> rt_nr_running (pq_rt (cpus s i)) \<le> 1"
    using mask overloaded_iff [OF inv, of i] rto_mask_iff [OF inv] by auto
  show "pull_done c i (snd (pull_one e c i s))"
  proof (cases "highest_next (cpus s i) \<ge> highest_prio (pq_rt (cpus s c))")
    case True
    have "highest_next (cpus s i) \<le> pri s p" if "p \<in> pullable s i c" for p
    proof -
      have w: "p \<in> waiting s i" using that by (simp add: pullable_def)
      then obtain x xs where x: "pushable (cpus s i) = x # xs"
        using pick_next_pushable_ok(3) [OF inv, of i] by (cases "pushable (cpus s i)") auto
      then have "highest_next (cpus s i) = fst x"
        using pq_okD(4) [OF queues_okD(1) [OF smp_invD(2) [OF inv]], of i] by (simp add: plist_top_def)
      then show ?thesis using pick_next_pushable_ok(4) [OF inv x w] by simp
    qed
    then have "pull_done c i s" using True by (force simp: pull_done_def)
    then show ?thesis using True by (simp add: pull_one_def)
  next
    case False
    show ?thesis
    proof (cases "pick_next_highest_task_rt i c ?s1")
      case None
      then have "pull_done c i ?s1" using best same(1) by (simp add: pull_done_def)
      then show ?thesis using False ci mask more None by (simp add: pull_one_def dl)
    next
      case (Some p)
      then have p: "p \<in> pullable s i c" and least: "\<forall>q\<in>pullable s i c. pri s p \<le> pri s q" using best by simp_all
      show ?thesis
      proof (cases "pri s p < highest_prio (pq_rt (cpus s c)) \<and> \<not> pri s p < pri s (pq_curr (cpus s i))")
        case stay: False
        then have "pull_done c i ?s1" using p least unfolding same(2) by (force simp: pull_done_def)
        moreover have "snd (pull_one e c i s) = ?s1" using stay False ci mask more Some by (auto simp: pull_one_def dl Let_def)
        ultimately show ?thesis by simp
      next
        case move: True
        let ?s' = "move_rt p i c ?s1"
        have h: "home ?s1 p = Some i" "p \<noteq> pq_curr (cpus ?s1 i)" using pullable_home [OF p] by (auto simp: turns_same)
        note m = move_rt_ok [OF inv1 h ci c]
        have pr: "pri ?s' = pri s" using m(7) by simp
        have "home ?s' p = Some c" using m(2) by simp
        from highest_le [OF m(1) this] have "highest_prio (pq_rt (cpus ?s' c)) \<le> pri s p"
          using fun_cong [OF pr, of p] by simp
        moreover note pr
        moreover have "pullable ?s' i c \<subseteq> pullable s i c"
          using m(2,5,9) fun_cong [OF m(8)] ci by (auto simp: pullable_def waiting_def turns_same split: if_splits)
        ultimately have "pull_done c i ?s'"
          using least unfolding pull_done_def by (metis order_trans subsetD)
        moreover have "snd (pull_one e c i s) = ?s'" using move False ci mask more Some by (simp add: pull_one_def dl)
        ultimately show ?thesis by simp
      qed
    qed
  qed
qed

lemma pull_one_turns: "quiet e N \<Longrightarrow> N \<le> turns s \<Longrightarrow> smp_inv e s \<Longrightarrow> rely e \<Longrightarrow> c < nr_cpu_ids e \<Longrightarrow>
    N \<le> turns (snd (pull_one e c i s))"
  using pull_one_ok(3) [of e s c i] by simp

lemma pull_loop_done:
  assumes q: "quiet e N" and "rely e" and c: "c < nr_cpu_ids e"
  shows "smp_inv e s \<Longrightarrow> N \<le> turns s \<Longrightarrow> distinct xs \<Longrightarrow> c \<notin> set xs' \<Longrightarrow>
    \<forall>i\<in>set xs'. pull_done c i s \<Longrightarrow> set xs \<inter> set xs' = {} \<Longrightarrow>
    (\<forall>i\<in>set xs'. pull_done c i (snd (pull_loop e c xs r s))) \<and>
    (\<forall>i\<in>set xs. i \<noteq> c \<and> i \<in> rto_mask s \<longrightarrow> pull_done c i (snd (pull_loop e c xs r s)))"
proof (induction xs arbitrary: s r xs')
  case Nil
  then show ?case by simp
next
  case (Cons i xs)
  let ?s1 = "snd (pull_one e c i s)"
  note inv = Cons.prems(1)
  note one = pull_one_ok(1) [OF assms(2) inv c, of i] and D = pull_one_done [OF q Cons.prems(2) inv c, of i]
  note others = pull_keeps_others [OF D(1) inv one]
  have loop: "snd (pull_loop e c (i # xs) r s) = snd (pull_loop e c xs (r \<or> fst (pull_one e c i s)) ?s1)"
    by (simp add: pull_loop_Cons split: prod.split)
  have "N \<le> turns ?s1" using pull_one_turns [OF q Cons.prems(2) inv assms(2) c] .
  note IH = Cons.IH [OF one this, where r = "r \<or> fst (pull_one e c i s)"]
  have old: "\<forall>j\<in>set xs'. pull_done c j ?s1"
    using others(1) Cons.prems(4-6) by (metis IntI empty_iff list.set_intros(1))
  have new: "\<forall>j\<in>set xs. j \<noteq> c \<and> j \<in> rto_mask s \<longrightarrow> j \<in> rto_mask ?s1"
    using others(2) Cons.prems(3) by auto
  show ?case
  proof (cases "i \<noteq> c \<and> i \<in> rto_mask s")
    case True
    then show ?thesis using IH [of "i # xs'"] D(2) old new Cons.prems(3,4,6) by (auto simp: loop)
  next
    case False
    then show ?thesis using IH [of xs'] old new Cons.prems(3,4,6) by (auto simp: loop)
  qed
qed

lemma pull_rt_task_done:
  assumes "quiet e N" "N \<le> turns s" "rely e" "c < nr_cpu_ids e" "smp_inv e s" "i \<noteq> c" "i \<in> rto_mask s"
  shows "pull_done c i (snd (pull_rt_task e c s))"
proof -
  note mask = queues_okD(3) [OF smp_invD(2) [OF assms(5)]]
  have "i < nr_cpu_ids e" using mask assms(7) by (auto simp: mask_ok_def)
  moreover have "card (rto_mask s) \<noteq> 0" using mask_ok_finite [OF mask] assms(7) by auto
  then have "rt_overloaded s" using mask by (simp add: mask_ok_def rt_overloaded_def)
  ultimately show ?thesis
    using pull_loop_done [OF assms(1,3,4,5,2), of "[0..<nr_cpu_ids e]" "[]" False] assms(6,7)
    by (simp add: pull_rt_task_def)
qed

end
