(* ===== verification/Rt_Smp.thy ===== *)
theory Rt_Smp
  imports Rt_Pull_Steps
begin

text \<open>
  The remaining operations on the real-time run queues of several processors, as the core uses
  them: waking, scheduling, changing the priority, the processors of a task or the processors
  that are online. Each keeps the invariant.
\<close>

section \<open>Tasks that are on no queue may change\<close>

lemma rq_wf_cong:
  assumes "rq_wf pr ok r" and "\<And>x. x \<in> rt_ents r \<Longrightarrow> pr' x = pr x"
  shows "rq_wf pr' ok r"
proof (rule rq_wfI)
  show "i < 100 \<Longrightarrow> x \<in> set (queue (rt_active r) i) \<Longrightarrow> pr' x = int i \<and> ok x" for i x
    using rq_wfD(4,5) [OF assms(1)] assms(2) [of x] by (auto simp: rt_ents_def)
qed (use rq_wfD [OF assms(1)] in auto)

lemma pq_ok_cong:
  assumes ok: "pq_ok pr al S P q" and same: "\<And>p. p \<in> S \<union> P \<Longrightarrow> pr' p = pr p \<and> al' p = al p"
  shows "pq_ok pr' al' S P q"
proof -
  note D = pq_okD [OF ok]
  have "rq_wf (ent_prio pr') pid_ent (pq_rt q)"
    by (rule rq_wf_cong [OF D(1)]) (use D(2) same in auto)
  moreover have "(\<lambda>p. (pr' p, p)) ` P = (\<lambda>p. (pr p, p)) ` P" using same by (intro image_cong) auto
  moreover have "{p \<in> S. 1 < al' p} = {p \<in> S. 1 < al p}" using same by auto
  ultimately show ?thesis using D by (simp add: pq_ok_def plist_ok_def)
qed

lemma queues_ok_threads:
  assumes ok: "queues_ok e M P s" and "cpus s' = cpus s" "cpu_pri s' = cpu_pri s" "rto_mask s' = rto_mask s"
    "rto_count s' = rto_count s"
    and P: "\<And>c. P c \<subseteq> {p. M p = Some c}" and same: "\<And>p. M p \<noteq> None \<Longrightarrow> pri s' p = pri s p \<and> alw s' p = alw s p"
  shows "queues_ok e M P s'"
proof -
  have "pq_ok (pri s') (alw s') {p. M p = Some c} (P c) (cpus s c)" for c
    by (rule pq_ok_cong [OF queues_okD(1) [OF ok]]) (use P [of c] same in auto)
  then show ?thesis using queues_okD [OF ok] assms(2-5) by (simp add: queues_ok_def mask_ok_def cpupri_ok_def)
qed

text \<open>One shape for all: the queues agree with what the tasks say.\<close>

lemma smp_invI:
  assumes "threads_ok e s" and "queues_ok e M P s" and "home s = M" and "\<And>c. waiting s c = P c"
  shows "smp_inv e s"
proof -
  have "waiting s = P" using assms(4) by (rule ext)
  then show ?thesis using assms(1-3) by (simp add: smp_inv_def)
qed

section \<open>Requeueing\<close>

definition q_requeue :: "rt_entity \<Rightarrow> nat \<Rightarrow> bool \<Rightarrow> rt_rq \<Rightarrow> rt_rq" where
  "q_requeue x i head r = r\<lparr>rt_active := (rt_active r)\<lparr>queue := (\<lambda>j. if j = i
     then (if head then list_move x else list_move_tail x) (queue (rt_active r) j)
     else list_del_init x (queue (rt_active r) j))\<rparr>\<rparr>"

lemma q_requeue_simps [simp]:
  "queue (rt_active (q_requeue x i head r)) j = (if j = i
     then (if head then x # remove1 x (queue (rt_active r) j) else remove1 x (queue (rt_active r) j) @ [x])
     else remove1 x (queue (rt_active r) j))"
  "bitmap (rt_active (q_requeue x i head r)) = bitmap (rt_active r)"
  "rt_nr_running (q_requeue x i head r) = rt_nr_running r" "highest_prio (q_requeue x i head r) = highest_prio r"
  by (simp_all add: q_requeue_def list_ops)

lemma rq_wf_requeue:
  assumes wf: "rq_wf pr ok r" and s: "x \<in> set (queue (rt_active r) i)" "i < 100"
  shows "rq_wf pr ok (q_requeue x i head r)" (is "rq_wf pr ok ?r")
    and "rt_ents (q_requeue x i head r) = rt_ents r"
proof -
  note D = rq_wfD [OF wf]
  have other: "x \<notin> set (queue (rt_active r) j)" if "j < 100" "j \<noteq> i" for j
    using D(4) [OF s(2,1)] D(4) [OF that(1)] that(2) by auto
  have set_eq: "set (queue (rt_active ?r) j) = set (queue (rt_active r) j)" if "j < 100" for j
    using D(3) [OF that] other [OF that] s by (auto simp: set_remove1_eq remove1_idem)
  show "rt_ents ?r = rt_ents r" unfolding rt_ents_def by (rule SUP_cong) (use set_eq in auto)
  have len: "length (queue (rt_active ?r) j) = length (queue (rt_active r) j)" if "j < 100" for j
    using D(3) [OF that] other [OF that] s length_pos_if_in_set [OF s(1)]
    by (auto simp: length_remove1 remove1_idem)
  show "rq_wf pr ok ?r"
  proof (rule rq_wfI)
    show "j < 100 \<Longrightarrow> distinct (queue (rt_active ?r) j)" for j
      using D(3) by auto
    show "j < 100 \<Longrightarrow> bitmap (rt_active ?r) j = (queue (rt_active ?r) j \<noteq> [])" for j
      using D(2) [of j] len [of j] by (metis length_0_conv q_requeue_simps(2))
    show "rt_nr_running ?r = of_nat (rt_count ?r)"
    proof -
      have "rt_count ?r = rt_count r" unfolding rt_count_def by (rule sum.cong) (use len in auto)
      then show ?thesis using D(6) by simp
    qed
    show "pr y = int j \<and> ok y" if "j < 100" "y \<in> set (queue (rt_active ?r) j)" for j y
      using D(4,5) [OF that(1)] that(2) set_eq [OF that(1)] by blast
  qed (use D(1,7) in auto)
qed

lemma requeue_ok:
  assumes ok: "queues_ok e M P s" 
  shows "queues_ok e M P (requeue_task_rt_smp p head s)" and "push_frame s (requeue_task_rt_smp p head s)"
proof -
  let ?c = "pt_cpu (threads s p)"
  note Q = queues_okD(1) [OF ok, of ?c]
  have "queues_ok e M P (requeue_task_rt_smp p head s) \<and> push_frame s (requeue_task_rt_smp p head s)"
  proof (cases "on_rt_rq_smp p s")
    case False
    then show ?thesis using ok by (simp add: requeue_task_rt_smp_def)
  next
    case True
    then have p: "p \<in> {p. M p = Some ?c}" using on_rt_rq_smp_iff [OF ok] by simp
    note pr = pq_ok_tasks(3) [OF Q p]
    have "Rt_Task p \<in> set (queue (rt_active (pq_rt (cpus s ?c))) (nat (pri s p)))"
      using rt_ents_iff [OF pq_okD(1) [OF Q], of "Rt_Task p"] pq_ok_tasks(4) [OF Q, of p] p by simp
    note wf = rq_wf_requeue [OF pq_okD(1) [OF Q] this, of head]
    have i: "nat (pri s p) < 100" using pr by linarith
    define q where "q = (cpus s ?c)\<lparr>pq_rt := q_requeue (Rt_Task p) (nat (pri s p)) head (pq_rt (cpus s ?c))\<rparr>"
    have eq: "requeue_task_rt_smp p head s = put_cpu ?c q s"
      using True by (cases s, cases "cpus s ?c", cases "pq_rt (cpus s ?c)", cases "rt_active (pq_rt (cpus s ?c))")
        (simp add: requeue_task_rt_smp_def set_rt_array_def q_def q_requeue_def cong: if_cong)
    have "pq_ok (pri s) (alw s) {p. M p = Some ?c} (P ?c) q"
      using pq_okD [OF Q] wf [OF i] by (simp add: pq_ok_def q_def)
    moreover have "mask_ok e (put_cpu ?c q s)"
      by (rule mask_ok_put(1) [OF queues_okD(3) [OF ok]]) (simp_all add: q_def)
    ultimately have "queues_ok e M P (put_cpu ?c q s)"
      using queues_okD(2,4) [OF ok] ok
      by (intro queues_ok_put [OF ok, of _ ?c q]) (auto simp: q_def over_def cpupri_ok_def)
    then show ?thesis by (simp add: eq push_frame_def q_def)
  qed
  then show "queues_ok e M P (requeue_task_rt_smp p head s)" "push_frame s (requeue_task_rt_smp p head s)" by simp_all
qed

lemma push_frame_inv:
  assumes "push_frame s s'" and "threads_ok e s"
  shows "threads_ok e s'" and "home s' = home s" and "waiting s' = waiting s"
  using assms by (auto simp: push_frame_def threads_ok_def home_def waiting_def is_rt_task_def fun_eq_iff)

lemma requeue_inv: "smp_inv e s \<Longrightarrow> smp_inv e (requeue_task_rt_smp p head s)"
  using requeue_ok push_frame_inv unfolding smp_inv_def by metis

lemma check_preempt_inv: "smp_inv e s \<Longrightarrow> smp_inv e (check_preempt_curr_rt_smp e c p s)"
  by (simp add: check_preempt_curr_rt_smp_def check_preempt_equal_prio_def Let_def resched_same(1) requeue_inv)

section \<open>Scheduling\<close>

lemma smp_threadsI:
  assumes ok: "queues_ok e M P s" and fr: "cpus s' = cpus s" "cpu_pri s' = cpu_pri s" "rto_mask s' = rto_mask s"
    "rto_count s' = rto_count s"
    and same: "\<And>q. q \<noteq> p \<Longrightarrow> threads s' q = threads s q" and "M p = None"
    and M: "\<And>q. home s' q = M q" and P: "\<And>c. P c = waiting s' c"
    and thr: "threads_ok e s'"
  shows "smp_inv e s'"
proof (rule smp_invI [OF thr, of M P])
  show "queues_ok e M P s'"
  proof (rule queues_ok_threads [OF ok fr])
    show "P c \<subseteq> {p. M p = Some c}" for c using waiting_sub [of s' c] M by (simp add: P)
    show "M q \<noteq> None \<Longrightarrow> pri s' q = pri s q \<and> alw s' q = alw s q" for q
      using same [of q] assms(7) by (cases "q = p") auto
  qed
qed (use M P in \<open>auto simp: fun_eq_iff\<close>)

lemma sleep_curr_ok:
  assumes inv: "smp_inv e s" and c: "c < nr_cpu_ids e"
  shows "smp_inv e (sleep_curr c s)" and "pq_curr (cpus (sleep_curr c s) j) = pq_curr (cpus s j)"
    and "turns (sleep_curr c s) = turns s"
proof -
  let ?p = "pq_curr (cpus s c)"
  note T = threads_okD [OF smp_invD(1) [OF inv]]
  have cpu: "pt_cpu (threads s ?p) = c" by (rule T(6) [OF c])
  define s1 where "s1 = (if pt_on_rq (threads s ?p) \<and> is_rt_task ?p s then deactivate_rt c ?p s else s)"
  have s1: "queues_ok e ((home s)(?p := None)) (waiting s) s1 \<and> push_frame s s1"
  proof (cases "home s ?p")
    case None
    then show ?thesis using smp_invD(2) [OF inv] by (auto simp: s1_def home_def fun_upd_idem split: if_splits)
  next
    case (Some d)
    then have d: "home s ?p = Some c" using cpu by (simp add: home_def split: if_splits)
    have "waiting s c - {?p} = waiting s c" by (auto simp: waiting_def)
    then have "(waiting s)(c := waiting s c - {?p}) = waiting s" by simp
    moreover have "s1 = deactivate_rt c ?p s" using d by (simp add: s1_def home_def split: if_splits)
    ultimately show ?thesis using deactivate_rt_ok [OF smp_invD(2) [OF inv] d cpu] by simp
  qed
  then have fr: "push_frame s s1" by simp
  have eq: "sleep_curr c s = upd_thread ?p (pt_on_rq_update (\<lambda>_. False)) s1"
    by (simp add: sleep_curr_def Let_def s1_def)
  show "pq_curr (cpus (sleep_curr c s) j) = pq_curr (cpus s j)" "turns (sleep_curr c s) = turns s"
    using fr by (simp_all add: eq push_frame_def)
  have hm: "home (sleep_curr c s) q = ((home s)(?p := None)) q" for q
    using fr by (simp add: eq push_frame_def home_def is_rt_task_def)
  show "smp_inv e (sleep_curr c s)"
  proof (rule smp_threadsI [OF conjunct1 [OF s1], of _ ?p])
    show "waiting s d = waiting (sleep_curr c s) d" for d
      using fr hm cpu by (auto simp: waiting_def eq push_frame_def home_def split: if_splits)
    show "threads_ok e (sleep_curr c s)"
      using push_frame_inv(1) [OF fr smp_invD(1) [OF inv]] by (auto simp: eq threads_ok_def)
  qed (use hm in \<open>auto simp: eq\<close>)
qed

lemma first_rt_task_ok:
  assumes ok: "queues_ok e M P s"
  shows "first_rt_task c s \<noteq> None" and "first_rt_task c s = Some (Some p) \<Longrightarrow> M p = Some c"
proof -
  note Q = queues_okD(1) [OF ok, of c]
  note wf = rq_wfD [OF pq_okD(1) [OF Q]]
  let ?r = "pq_rt (cpus s c)"
  show "first_rt_task c s \<noteq> None" and "first_rt_task c s = Some (Some p) \<Longrightarrow> M p = Some c"
  proof (atomize (full), cases "rt_nr_running ?r = 0 \<or> rt_throttled ?r")
    case True
    then show "first_rt_task c s \<noteq> None \<and> (first_rt_task c s = Some (Some p) \<longrightarrow> M p = Some c)"
      by (auto simp: first_rt_task_def)
  next
    case False
    then have "rt_ents ?r \<noteq> {}" using nr_running_0_iff [OF pq_okD(1) [OF Q]] by simp
    then have hp: "highest_prio ?r \<noteq> 100" "highest_prio ?r \<le> 100"
      using highest_prio_range(2,3) [OF pq_okD(1) [OF Q]] by simp_all
    obtain n where n: "n \<le> 100" "sched_find_first_bit (bitmap (rt_active ?r)) = int n" "bitmap (rt_active ?r) n"
      using first_bit_exists [of "bitmap (rt_active ?r)", OF wf(1)] by auto
    have "n < 100" using n(1,2) hp wf(7) by linarith
    then obtain se q where q: "queue (rt_active ?r) n = se # q" using wf(2) n(3) by (cases "queue (rt_active ?r) n") auto
    then have "se \<in> rt_ents ?r" using \<open>n < 100\<close> by (auto simp: rt_ents_def intro!: bexI [of _ n])
    then obtain p' where "se = Rt_Task p'" "M p' = Some c" unfolding pq_okD(2) [OF Q] by auto
    then show "first_rt_task c s \<noteq> None \<and> (first_rt_task c s = Some (Some p) \<longrightarrow> M p = Some c)"
      using False n(2) q \<open>n < 100\<close> by (auto simp: first_rt_task_def rt_array_def prio_consts)
  qed
qed

text \<open>From putting the previous task to running the next one.\<close>

lemma put_prev_ok:
  assumes inv: "smp_inv e s" and c: "c < nr_cpu_ids e"
  defines "prev \<equiv> pq_curr (cpus s c)"
  shows "queues_ok e (home s) ((waiting s)(c := {p. home s p = Some c \<and> 1 < alw s p}))
      (if is_rt_task prev s then put_prev_task_rt_smp c prev s else s)" (is "queues_ok e ?M ?P ?s")
    and "push_frame s (if is_rt_task prev s then put_prev_task_rt_smp c prev s else s)"
proof -
  have cpu: "pt_cpu (threads s prev) = c" using threads_okD(6) [OF smp_invD(1) [OF inv] c] by (simp add: prev_def)
  have queued: "on_rt_rq_smp prev s \<longleftrightarrow> home s prev = Some c"
    using on_rt_rq_smp_iff [OF smp_invD(2) [OF inv], of prev] cpu by simp
  have "queues_ok e ?M ?P ?s \<and> push_frame s ?s"
  proof (cases "home s prev = Some c \<and> 1 < alw s prev")
    case True
    then have "?s = enqueue_pushable_task c prev s"
      using queued by (auto simp: put_prev_task_rt_smp_def home_def split: if_splits)
    moreover have "insert prev (waiting s c) = {p. home s p = Some c \<and> 1 < alw s p}"
      using True by (auto simp: waiting_def prev_def)
    ultimately show ?thesis
      using enqueue_pushable_ok [OF smp_invD(2) [OF inv] conjunct1 [OF True] waiting_sub] by simp
  next
    case False
    then have "?s = s" using queued by (auto simp: put_prev_task_rt_smp_def)
    moreover have "waiting s c = {p. home s p = Some c \<and> 1 < alw s p}"
      using False by (auto simp: waiting_def prev_def)
    then have "?P = waiting s" by (metis fun_upd_triv)
    ultimately show ?thesis using smp_invD(2) [OF inv] by simp
  qed
  then show "queues_ok e ?M ?P ?s" "push_frame s ?s" by simp_all
qed

lemma pick_ok:
  assumes ok: "queues_ok e M P s"
  obtains t s' where "pick_next_task_rt_smp c s = Some (t, s')" "push_frame s s'"
    "queues_ok e M (P(c := P c - set_option t)) s'" "\<forall>p. t = Some p \<longrightarrow> M p = Some c"
proof -
  obtain t where t: "first_rt_task c s = Some t" using first_rt_task_ok(1) [OF ok] by blast
  define s1 where "s1 = (case t of Some p \<Rightarrow> dequeue_pushable_task c p s | None \<Rightarrow> s)"
  have s1: "queues_ok e M (P(c := P c - set_option t)) s1 \<and> push_frame s s1"
    using ok dequeue_pushable_ok [OF ok] by (cases t) (simp_all add: s1_def)
  define s2 where "s2 = upd_cpu c (pq_post_schedule_update (\<lambda>_. has_pushable_tasks c s1)) s1"
  have "queues_ok e M (P(c := P c - set_option t)) s2" "push_frame s s2"
    using counters_ok(5,6) [OF conjunct1 [OF s1]] push_frame_trans [OF conjunct2 [OF s1]] unfolding s2_def by blast+
  moreover have "pick_next_task_rt_smp c s = Some (t, s2)"
    by (simp add: pick_next_task_rt_smp_def t s1_def s2_def Let_def)
  ultimately show thesis using that first_rt_task_ok(2) [OF ok] t by blast
qed

lemma switch_curr_frame:
  "cpus (switch_curr c nxt s) = (cpus s)(c := (cpus s c)\<lparr>pq_curr := nxt\<rparr>)"
  "cpu_pri (switch_curr c nxt s) = cpu_pri s" "rto_mask (switch_curr c nxt s) = rto_mask s"
  "rto_count (switch_curr c nxt s) = rto_count s" "turns (switch_curr c nxt s) = turns s"
  "threads (switch_curr c nxt s) q =
     (threads s q)\<lparr>pt_on_cpu := q = nxt \<or> pt_on_cpu (threads s q) \<and> q \<noteq> pq_curr (cpus s c)\<rparr>"
  by (auto simp: switch_curr_def Let_def)

lemma switch_curr_ok:
  assumes ok: "queues_ok e M P s" and thr: "threads_ok e s" and M: "home s = M"
    and nxt: "pt_cpu (threads s nxt) = c" "c < nr_cpu_ids e"
    and P: "\<And>d. P d = {p. M p = Some d \<and> p \<noteq> (if d = c then nxt else pq_curr (cpus s d)) \<and> 1 < alw s p}"
  shows "smp_inv e (switch_curr c nxt s)"
proof (rule smp_invI)
  note T = threads_okD [OF thr]
  let ?s = "switch_curr c nxt s"
  have curr: "pq_curr (cpus ?s d) = (if d = c then nxt else pq_curr (cpus s d))" for d by (simp add: switch_curr_frame)
  show "threads_ok e ?s"
    unfolding threads_ok_def
  proof (intro conjI allI impI)
    fix p
    show "pt_on_cpu (threads ?s p) \<longleftrightarrow> pq_curr (cpus ?s (pt_cpu (threads ?s p))) = p"
      unfolding curr using T(5) [of p] T(6) [OF nxt(2)] nxt(1) by (auto simp: switch_curr_frame(6))
    show "pt_cpu (threads ?s (pq_curr (cpus ?s d))) = d" if "d < nr_cpu_ids e" for d
      unfolding curr using T(6) [OF that] nxt(1) by (simp add: switch_curr_frame(6))
  qed (use T in \<open>auto simp: switch_curr_frame(6)\<close>)
  show "home ?s = M" unfolding M [symmetric] by (auto simp: home_def is_rt_task_def switch_curr_frame(6))
  then show "waiting ?s d = P d" for d
    by (auto simp: waiting_def P curr switch_curr_frame(6))
  have "pri ?s = pri s" "alw ?s = alw s" by (auto simp: switch_curr_frame(6))
  then show "queues_ok e M P ?s"
    using queues_okD [OF ok] unfolding queues_ok_def
    by (auto simp: switch_curr_frame(1-4) pq_ok_def mask_ok_def cpupri_ok_def over_def)
qed

lemma pre_schedule_ok:
  assumes "rely e" "c < nr_cpu_ids e" "smp_inv e s"
  shows "smp_inv e (pre_schedule e c prev s)"
    and "rely_curr e c \<Longrightarrow> pq_curr (cpus (pre_schedule e c prev s) c) = pq_curr (cpus s c)"
  using pull_rt_task_ok [OF assms] assms(3) by (simp_all add: pre_schedule_def pre_schedule_rt_def)

lemma post_schedule_ok:
  assumes "rely e" "quiet e N" "smp_inv e s"
  shows "\<exists>s'. post_schedule e c s = Some s' \<and> smp_inv e s'"
proof -
  have flag: "smp_inv e (upd_cpu c (pq_post_schedule_update f) x)" if "smp_inv e x" for x f
  proof -
    note k = counters_ok(5,6) [where c = c and g = f, OF smp_invD(2) [OF that]]
    show ?thesis unfolding smp_inv_def push_frame_inv(2,3) [OF k(2) smp_invD(1) [OF that]]
      using push_frame_inv(1) [OF k(2) smp_invD(1) [OF that]] k(1) by (rule conjI)
  qed
  obtain s1 where "push_rt_tasks e c s = Some s1" "smp_inv e s1"
    using push_rt_tasks_ok [OF assms, of c] by blast
  then show ?thesis using assms(3) flag by (simp add: post_schedule_def post_schedule_rt_def)
qed

definition schedule_ready :: "push_env \<Rightarrow> nat \<Rightarrow> bool \<Rightarrow> tid \<Rightarrow> smp \<Rightarrow> bool" where
  "schedule_ready e c sleep other s \<longleftrightarrow>
     (let s2 = pre_schedule e c (pq_curr (cpus s c)) (if sleep then sleep_curr c s else s)
      in pt_cpu (threads s2 other) = c \<and> \<not> is_rt_task other s2)"

lemma schedule_ok:
  assumes rely: "rely e" "rely_curr e c" "quiet e N" and inv: "smp_inv e s" and c: "c < nr_cpu_ids e"
    and ready: "schedule_ready e c sleep other s"
  shows "\<exists>s'. schedule_smp e c sleep other s = Some s' \<and> smp_inv e s'"
proof -
  let ?prev = "pq_curr (cpus s c)"
  define s1 where "s1 = (if sleep then sleep_curr c s else s)"
  have s1: "smp_inv e s1" "pq_curr (cpus s1 c) = ?prev" using sleep_curr_ok [OF inv c] inv by (simp_all add: s1_def)
  define s2 where "s2 = pre_schedule e c ?prev s1"
  have inv2: "smp_inv e s2" and cur2: "pq_curr (cpus s2 c) = ?prev"
    using pre_schedule_ok [OF rely(1) c s1(1)] rely(2) s1(2) by (simp_all add: s2_def)
  have other: "pt_cpu (threads s2 other) = c" "home s2 other = None"
    using ready by (auto simp: schedule_ready_def Let_def s2_def s1_def home_def)
  define s3 where "s3 = (if is_rt_task ?prev s2 then put_prev_task_rt_smp c ?prev s2 else s2)"
  let ?P = "(waiting s2)(c := {p. home s2 p = Some c \<and> 1 < alw s2 p})"
  have q3: "queues_ok e (home s2) ?P s3" and f3: "push_frame s2 s3"
    using put_prev_ok [OF inv2 c, unfolded cur2] by (simp_all only: s3_def)
  obtain t s4 where pick: "pick_next_task_rt_smp c s3 = Some (t, s4)" and f4: "push_frame s3 s4"
    and q4: "queues_ok e (home s2) (?P(c := ?P c - set_option t)) s4" and t: "\<forall>p. t = Some p \<longrightarrow> home s2 p = Some c"
    by (rule pick_ok [where c = c, OF q3])
  note fr = push_frame_trans [OF f3 f4]
  note same = push_frame_inv [OF fr smp_invD(1) [OF inv2]]
  let ?nxt = "case t of Some p \<Rightarrow> p | None \<Rightarrow> other"
  have thr: "threads s4 = threads s2" "pq_curr (cpus s4 d) = pq_curr (cpus s2 d)" for d
    using fr by (simp_all add: push_frame_def)
  have nxt: "pt_cpu (threads s4 ?nxt) = c"
    using other home_task(5) [OF inv2] t by (simp add: thr split: option.split)
  have "smp_inv e (switch_curr c ?nxt s4)"
  proof (rule switch_curr_ok [OF q4 same(1,2) nxt c])
    show "(?P(c := ?P c - set_option t)) d =
        {p. home s2 p = Some d \<and> p \<noteq> (if d = c then ?nxt else pq_curr (cpus s4 d)) \<and> 1 < alw s4 p}" for d
      using other(2) by (cases t) (auto simp: waiting_def thr)
  qed
  moreover let ?s5 = "upd_thread ?prev (pt_resched_update (\<lambda>_. False)) s4"
  have "task_same (threads (switch_curr c ?nxt s4) q) (threads (switch_curr c ?nxt ?s5) q)" for q
    by (simp add: switch_curr_def Let_def task_same_def)
  then have "smp_inv e (switch_curr c ?nxt ?s5) = smp_inv e (switch_curr c ?nxt s4)"
    by (rule inv_cong(1)) (simp_all add: switch_curr_def Let_def)
  ultimately obtain s' where "post_schedule e c (switch_curr c ?nxt ?s5) = Some s'" "smp_inv e s'"
    using post_schedule_ok [OF rely(1,3)] by blast
  moreover have "schedule_smp e c sleep other s = post_schedule e c (switch_curr c ?nxt ?s5)"
    using pick unfolding s3_def s2_def s1_def by (simp add: schedule_smp_def Let_def)
  ultimately show ?thesis by simp
qed

section \<open>Waking\<close>

lemma task_woken_ok:
  assumes "rely e" "quiet e N" "smp_inv e s"
  shows "\<exists>s'. task_woken_rt e c p s = Some s' \<and> smp_inv e s'"
proof -
  obtain s1 where "push_rt_tasks e c s = Some s1" "smp_inv e s1"
    using push_rt_tasks_ok [OF assms, of c] by blast
  then show ?thesis using assms(3) by (auto simp: task_woken_rt_def Let_def)
qed

definition wakeable :: "push_env \<Rightarrow> tid \<Rightarrow> nat \<Rightarrow> smp \<Rightarrow> bool" where
  "wakeable e p c s \<longleftrightarrow> \<not> pt_on_rq (threads s p) \<and> \<not> pt_on_cpu (threads s p) \<and> is_rt_task p s \<and>
     p < PID_MAX_LIMIT \<and> c < nr_cpu_ids e"

lemma not_current:
  assumes "threads_ok e s" "\<not> pt_on_cpu (threads s p)" "d < nr_cpu_ids e"
  shows "pq_curr (cpus s d) \<noteq> p"
  using threads_okD(5,6) [OF assms(1)] assms(2,3) by metis

lemma wake_up_ok:
  assumes rely: "rely e" "quiet e N" and inv: "smp_inv e s" and w: "wakeable e p c s"
  shows "\<exists>s'. wake_up_rt e p c s = Some s' \<and> smp_inv e s'"
proof -
  note T = threads_okD [OF smp_invD(1) [OF inv]]
  have p: "home s p = None" "p < PID_MAX_LIMIT" "pri s p < 100" "c < nr_cpu_ids e"
    using w by (auto simp: wakeable_def home_def is_rt_task_def prio_consts)
  have cur: "pq_curr (cpus s d) \<noteq> p" if "d < nr_cpu_ids e" for d
    using not_current [OF smp_invD(1) [OF inv] _ that] w by (simp add: wakeable_def)
  let ?m = "set_task_cpu p c s" and ?a = "activate_rt c p (set_task_cpu p c s)"
  let ?P = "(waiting s)(c := (if pq_curr (cpus ?m c) \<noteq> p \<and> 1 < alw ?m p then insert p (waiting s c) else waiting s c))"
  have a: "queues_ok e ((home s)(p \<mapsto> c)) ?P ?a" "push_frame ?m ?a"
    by (rule activate_rt_ok [OF set_task_cpu_ok [OF smp_invD(2) [OF inv]] p(1)];
        use p T(1) waiting_sub in \<open>simp add: set_task_cpu_frame\<close>)+
  define s2 where "s2 = upd_thread p (pt_on_rq_update (\<lambda>_. True)) ?a"
  have fr: "threads ?a = threads ?m" "\<And>d. pq_curr (cpus ?a d) = pq_curr (cpus s d)"
    using a(2) by (simp_all add: push_frame_def set_task_cpu_frame)
  have thr: "threads s2 q = (if q = p then (threads s p)\<lparr>pt_on_rq := True, pt_cpu := c,
      pt_migrations := pt_migrations (threads s p) + of_bool (pt_cpu (threads s p) \<noteq> c)\<rparr> else threads s q)" for q
    by (simp add: s2_def fr set_task_cpu_frame)
  have al: "alw s2 q = alw s q" "pri s2 q = pri s q" for q by (simp_all add: thr)
  have cur2: "pq_curr (cpus s2 d) = pq_curr (cpus s d)" for d by (simp add: s2_def fr(2))
  have hm: "home s2 = (home s)(p \<mapsto> c)"
    using p by (auto simp: home_def thr is_rt_task_def prio_consts fun_eq_iff)
  have on: "\<not> pt_on_cpu (threads s p)" using w by (simp add: wakeable_def)
  have "smp_inv e s2"
  proof (rule smp_invI [OF _ _ hm, of _ ?P])
    show "threads_ok e s2"
      unfolding threads_ok_def cur2 using T p(4) cur on by (auto simp: thr)
    show w2: "waiting s2 d = ?P d" for d
      using p(1,4) cur by (auto simp: waiting_def hm al cur2 set_task_cpu_frame split: if_splits)
    show "queues_ok e ((home s)(p \<mapsto> c)) ?P s2"
    proof (rule queues_ok_threads [OF a(1)])
      show "?P d \<subseteq> {q. ((home s)(p \<mapsto> c)) q = Some d}" for d
        using waiting_sub [of s2 d] unfolding w2 hm .
    qed (simp_all add: s2_def)
  qed
  then show ?thesis
    using task_woken_ok [OF rely check_preempt_inv] by (simp add: wake_up_rt_def Let_def s2_def)
qed

section \<open>Processors going online and offline\<close>

lemma online_ok:
  assumes inv: "smp_inv e s" and c: "c < nr_cpu_ids e"
  shows "smp_inv e (set_rq_online c s)" and "smp_inv e (set_rq_offline c s)"
proof -
  note Q = queues_okD [OF smp_invD(2) [OF inv]] and fin = mask_ok_finite [OF queues_okD(3) [OF smp_invD(2) [OF inv]]]
  have frame: "smp_inv e s'" if "threads s' = threads s" "cpus s' = (cpus s)(c := (cpus s c)\<lparr>pq_online := b\<rparr>)"
    "mask_ok e s'" "cpupri_ok s'" for s' b
  proof -
    have "home s' = home s" "waiting s' = waiting s"
      using that by (auto simp: home_def waiting_def is_rt_task_def fun_eq_iff)
    then show ?thesis
      using smp_invD [OF inv] that by (auto simp: smp_inv_def threads_ok_def queues_ok_def pq_ok_def over_def)
  qed
  have mask: "rto_mask s = {c. is_overloaded (cpus s c) \<and> pq_online (cpus s c)}" "rto_count s = int (card (rto_mask s))"
    "\<And>c. pq_online (cpus s c) \<Longrightarrow> c < nr_cpu_ids e" using Q(3) by (auto simp: mask_ok_def)
  show "smp_inv e (set_rq_online c s)"
  proof (cases "pq_online (cpus s c)")
    case True
    then show ?thesis using inv by (simp add: set_rq_online_def)
  next
    case False
    then have "c \<notin> rto_mask s" by (simp add: mask)
    then show ?thesis
      using False mask fin c Q(4)
      by (intro frame [of _ True])
        (auto simp: set_rq_online_def rq_online_rt_def rt_set_overload_def Let_def mask_ok_def cpupri_ok_def)
  qed
  show "smp_inv e (set_rq_offline c s)"
  proof (cases "pq_online (cpus s c)")
    case False
    then show ?thesis using inv by (simp add: set_rq_offline_def)
  next
    case True
    then have "c \<in> rto_mask s \<longleftrightarrow> is_overloaded (cpus s c)" by (simp add: mask)
    moreover from this have "is_overloaded (cpus s c) \<Longrightarrow> 0 < card (rto_mask s)" using fin by (auto simp: card_gt_0_iff)
    ultimately show ?thesis
      using True mask fin Q(4)
      by (intro frame [of _ False])
        (auto simp: set_rq_offline_def rq_offline_rt_def rt_clear_overload_def Let_def mask_ok_def cpupri_ok_def of_nat_diff)
  qed
qed

section \<open>Changing the processors of a task\<close>

abbreviation set_mask :: "push_env \<Rightarrow> tid \<Rightarrow> cpumask \<Rightarrow> smp \<Rightarrow> smp" where
  "set_mask e p m \<equiv> upd_thread p (\<lambda>t. t\<lparr>pt_allowed := m, pt_nr_allowed := cpumask_weight e m\<rparr>)"

lemma threads_ok_mask: "threads_ok e s \<Longrightarrow> m \<subseteq> {..<nr_cpu_ids e} \<Longrightarrow> threads_ok e (set_mask e p m s)"
  by (auto simp: threads_ok_def)

lemma home_mask: "home (set_mask e p m s) = home s"
  by (auto simp: home_def is_rt_task_def)

text \<open>A task that is on no queue, or whose number of processors stays the same.\<close>

lemma mask_idle_ok:
  assumes inv: "smp_inv e s" and m: "m \<subseteq> {..<nr_cpu_ids e}" and same: "home s p = None \<or> cpumask_weight e m = alw s p"
  shows "smp_inv e (set_mask e p m s)"
proof (rule smp_invI [OF threads_ok_mask [OF smp_invD(1) [OF inv] m] _ home_mask, where P = "waiting s"])
  show "queues_ok e (home s) (waiting s) (set_mask e p m s)"
    by (rule queues_ok_threads [OF smp_invD(2) [OF inv]]) (use same waiting_sub in auto)
  show "waiting (set_mask e p m s) d = waiting s d" for d
    using same by (auto simp: waiting_def home_mask split: if_splits)
qed

lemma card_mig_upd:
  assumes "finite S" and "p \<in> S"
  shows "int (card {x \<in> S. 1 < (al(p := w)) x}) =
    int (card {x \<in> S. (1::int) < al x}) + of_bool (al p \<le> 1 \<and> 1 < w) - of_bool (1 < al p \<and> w \<le> 1)"
proof -
  have S: "insert p (S - {p}) = S" using assms(2) by auto
  have fin: "finite (S - {p})" using assms(1) by simp
  have rest: "{x \<in> S - {p}. 1 < (al(p := w)) x} = {x \<in> S - {p}. 1 < al x}" by auto
  show ?thesis
    using card_mig_insert [OF fin, of p al] card_mig_insert [OF fin, of p "al(p := w)"]
    unfolding S rest by auto
qed

lemma mask_queued_ok:
  assumes ok: "queues_ok e M P s" and p: "M p = Some c" and w: "w = cpumask_weight e m"
    and P: "\<And>d. P d \<subseteq> {q. M q = Some d}"
  defines "q \<equiv> (cpus s c)\<lparr>rt_nr_migratory := rt_nr_migratory (cpus s c)
      + of_bool (alw s p \<le> 1 \<and> 1 < w) - of_bool (1 < alw s p \<and> w \<le> 1)\<rparr>"
  shows "queues_ok e M P (set_mask e p m (update_rt_migration c (put_cpu c q s)))"
    and "push_frame s (update_rt_migration c (put_cpu c q s))"
    and "1 < alw s p \<Longrightarrow> rt_nr_migratory (cpus s c) \<noteq> 0"
proof -
  note Q = queues_okD [OF ok]
  note D = pq_okD [OF Q(1) [of c]] and T = pq_ok_tasks [OF Q(1) [of c]]
  let ?S = "{p. M p = Some c}" and ?u = "update_rt_migration c (put_cpu c q s)"
  have m1: "mask_ok e (put_cpu c q s)" by (rule mask_ok_put(1) [OF Q(3)]) (simp_all add: q_def)
  note U = update_rt_migration_effect [OF m1, of c]
  show fr: "push_frame s ?u" using U(1,2) by (auto simp: push_frame_def q_def)
  have thr: "threads ?u = threads s" using fr by (simp add: push_frame_def)
  have pS: "p \<in> ?S" using p by simp
  have mig: "card {x \<in> ?S. 1 < alw s x} \<le> card ?S" by (rule card_mono [OF T(2)]) auto
  show "rt_nr_migratory (cpus s c) \<noteq> 0" if "1 < alw s p"
  proof
    assume "rt_nr_migratory (cpus s c) = 0"
    then have "card {x \<in> ?S. 1 < alw s x} = 0"
      using D(6) of_nat_word32_inj [of "card {x \<in> ?S. 1 < alw s x}" 0] le_less_trans [OF mig T(5)] by simp
    then show False using T(2) p that by (auto simp: card_eq_0_iff)
  qed
  have al: "alw (set_mask e p m ?u) = (alw s)(p := w)" and pr: "pri (set_mask e p m ?u) = pri s"
    by (auto simp: thr w)
  have "of_int (int (card {x \<in> ?S. 1 < ((alw s)(p := w)) x})) = rt_nr_migratory q"
    unfolding card_mig_upd [OF T(2) pS] by (simp add: q_def D(6))
  then have cnt: "rt_nr_migratory q = of_nat (card {x \<in> ?S. 1 < ((alw s)(p := w)) x})" by simp
  have "pq_ok (pri s) ((alw s)(p := w)) ?S (P c) (q_over q)"
    unfolding pq_ok_def q_over_simps cnt using D by (simp add: q_def)
  moreover have "pq_ok (pri s) ((alw s)(p := w)) {x. M x = Some d} (P d) (cpus s d)" if "d \<noteq> c" for d
    by (rule pq_ok_cong [OF Q(1)]) (use P [of d] p that in auto)
  ultimately show "queues_ok e M P (set_mask e p m ?u)"
    unfolding queues_ok_def al pr using U(1,3,4) Q(2,4) by (auto simp: mask_ok_def cpupri_ok_def q_def)
qed

lemma set_cpus_allowed_ok:
  assumes inv: "smp_inv e s" and m: "m \<subseteq> {..<nr_cpu_ids e}"
  shows "\<exists>s'. do_set_cpus_allowed e p m s = Some s' \<and> smp_inv e s'"
proof (cases "home s p = None \<or> cpumask_weight e m = alw s p")
  case True
  have "update_rt_migration c s = s" for c
    using queues_okD(2) [OF smp_invD(2) [OF inv], of c] by (auto simp: update_rt_migration_def Let_def over_def)
  then have "do_set_cpus_allowed e p m s = Some (set_mask e p m s)"
    using True by (auto simp: do_set_cpus_allowed_def set_cpus_allowed_rt_def Let_def home_def)
  then show ?thesis using mask_idle_ok [OF inv m True] by simp
next
  case False
  let ?c = "pt_cpu (threads s p)" and ?n = "alw s p" and ?w = "cpumask_weight e m"
  have rt: "pt_on_rq (threads s p)" "is_rt_task p s" "home s p = Some ?c" "?w \<noteq> ?n"
    using False by (auto simp: home_def split: if_splits)
  define s0 where "s0 = (if pq_curr (cpus s ?c) \<noteq> p \<and> 1 < ?n then dequeue_pushable_task ?c p s else s)"
  define s1 where "s1 = (if pq_curr (cpus s ?c) \<noteq> p \<and> 1 < ?w then enqueue_pushable_task ?c p s0 else s0)"
  have wc: "waiting s ?c - {p} = waiting s ?c" if "\<not> (pq_curr (cpus s ?c) \<noteq> p \<and> 1 < ?n)"
    using that by (auto simp: waiting_def)
  have s0: "queues_ok e (home s) ((waiting s)(?c := waiting s ?c - {p})) s0 \<and> push_frame s s0"
    using dequeue_pushable_ok [OF smp_invD(2) [OF inv], of ?c p] smp_invD(2) [OF inv] wc by (auto simp: s0_def)
  let ?P = "(waiting s)(?c := (if pq_curr (cpus s ?c) \<noteq> p \<and> 1 < ?w then insert p (waiting s ?c - {p}) else waiting s ?c - {p}))"
  have sub: "((waiting s)(?c := waiting s ?c - {p})) ?c \<subseteq> {q. home s q = Some ?c}" using waiting_sub [of s ?c] by auto
  have "queues_ok e (home s) ?P s1 \<and> push_frame s s1"
    using s0 enqueue_pushable_ok [OF conjunct1 [OF s0] rt(3) sub, unfolded fun_upd_upd fun_upd_same]
      push_frame_trans [OF conjunct2 [OF s0]]
    by (cases "pq_curr (cpus s ?c) \<noteq> p \<and> 1 < ?w") (auto simp: s1_def)
  then have s1: "queues_ok e (home s) ?P s1" and fr: "push_frame s s1" by simp_all
  have thr: "threads s1 = threads s" using fr by (simp add: push_frame_def)
  have P: "?P d \<subseteq> {q. home s q = Some d}" for d using waiting_sub [of s d] rt(3) by (auto split: if_splits)
  define q where "q = (cpus s1 ?c)\<lparr>rt_nr_migratory := rt_nr_migratory (cpus s1 ?c)
      + of_bool (alw s1 p \<le> 1 \<and> 1 < ?w) - of_bool (1 < alw s1 p \<and> ?w \<le> 1)\<rparr>"
  let ?s2 = "update_rt_migration ?c (put_cpu ?c q s1)"
  note A = mask_queued_ok(1,2) [where m = m, OF s1 rt(3) refl P, folded q_def]
  have mig: "rt_nr_migratory (cpus s1 ?c) \<noteq> 0" if "1 < ?n"
    by (rule mask_queued_ok(3) [OF s1 rt(3) refl P]) (simp add: thr that)
  have same: "put_cpu ?c q s1 = s1" if "\<not> (?n \<le> 1 \<and> 1 < ?w)" "\<not> (1 < ?n \<and> ?w \<le> 1)"
    using that by (auto simp: q_def thr)
  have upd: "put_cpu ?c q s1 = upd_cpu ?c (rt_nr_migratory_update (\<lambda>n. n + 1)) s1" if "?n \<le> 1" "1 < ?w"
  proof -
    have "q = (cpus s1 ?c)\<lparr>rt_nr_migratory := rt_nr_migratory (cpus s1 ?c) + 1\<rparr>" using that by (simp add: q_def thr)
    then show ?thesis by (cases s1) (simp add: q_upds)
  qed
  have upd': "put_cpu ?c q s1 = upd_cpu ?c (rt_nr_migratory_update (\<lambda>n. n - 1)) s1" if "1 < ?n" "?w \<le> 1"
  proof -
    have "q = (cpus s1 ?c)\<lparr>rt_nr_migratory := rt_nr_migratory (cpus s1 ?c) - 1\<rparr>" using that by (simp add: q_def thr)
    then show ?thesis by (cases s1) (simp add: q_upds)
  qed
  have s1_code: "s1 = (if pq_curr (cpus s ?c) \<noteq> p then
      let s0 = (if 1 < ?n then dequeue_pushable_task ?c p s else s)
      in if 1 < ?w then enqueue_pushable_task ?c p s0 else s0 else s)"
    by (simp add: s1_def s0_def Let_def)
  have "set_cpus_allowed_rt e p m s = Some ?s2"
    unfolding set_cpus_allowed_rt_def Let_def [of "cpumask_weight e m"] Let_def [of "alw s p"]
      Let_def [of "pt_cpu (threads s p)"] s1_code [symmetric]
    using rt(1,2,4) same upd upd' mig by (auto simp: Let_def thr)
  then have "do_set_cpus_allowed e p m s = Some (set_mask e p m ?s2)"
    using rt(2) by (simp add: do_set_cpus_allowed_def)
  moreover have "smp_inv e (set_mask e p m ?s2)"
  proof (rule smp_invI [OF _ A(1)])
    note fr2 = push_frame_trans [OF fr A(2)]
    note F = push_frame_inv [OF fr2 smp_invD(1) [OF inv]]
    show "threads_ok e (set_mask e p m ?s2)" by (rule threads_ok_mask [OF F(1) m])
    show hm: "home (set_mask e p m ?s2) = home s" unfolding home_mask by (rule F(2))
    have thr2: "threads ?s2 = threads s" "\<And>d. pq_curr (cpus ?s2 d) = pq_curr (cpus s d)"
      using fr2 by (simp_all add: push_frame_def)
    show "waiting (set_mask e p m ?s2) d = ?P d" for d
      unfolding waiting_def hm using rt(3) thr2 by (auto split: if_splits)
  qed
  ultimately show ?thesis by blast
qed

section \<open>Changing the priority of a task\<close>

lemma switched_to_ok:
  assumes "rely e" "quiet e N" "smp_inv e s"
  shows "\<exists>s'. switched_to_rt_smp e c p s = Some s' \<and> smp_inv e s'"
proof -
  obtain b s1 where "push_rt_task e c s = Some (b, s1)" "smp_inv e s1"
    using push_rt_task_ok [OF assms, of c] by (auto simp: push_result_def)
  then show ?thesis using assms(3) by (simp add: switched_to_rt_smp_def resched_same(1))
qed

lemma prio_hooks_ok:
  assumes "rely e" "c < nr_cpu_ids e" "smp_inv e s"
  shows "smp_inv e (switched_from_rt e c p s)" and "smp_inv e (prio_changed_rt_smp e c p old s)"
  using pull_rt_task_ok(1) [OF assms] assms(3)
  by (auto simp: switched_from_rt_def prio_changed_rt_smp_def Let_def resched_same(1))

lemma prio_set_ok:
  assumes inv: "smp_inv e s" and pr: "0 \<le> pr" and p: "p < PID_MAX_LIMIT"
  shows "smp_inv e (prio_set p pr head s)"
proof -
  let ?c = "pt_cpu (threads s p)" and ?M = "(home s)(p := None)"
  let ?P = "(waiting s)(?c := waiting s ?c - {p})"
  note T = threads_okD [OF smp_invD(1) [OF inv]]
  define s1 where "s1 = (if pt_on_rq (threads s p) \<and> is_rt_task p s then dequeue_task_rt_smp ?c p s else s)"
  have s1: "queues_ok e ?M ?P s1 \<and> push_frame s s1"
  proof (cases "pt_on_rq (threads s p) \<and> is_rt_task p s")
    case True
    then have "home s p = Some ?c" by (simp add: home_def)
    from dequeue_task_ok [OF smp_invD(2) [OF inv] this refl] show ?thesis using True by (simp add: s1_def)
  next
    case False
    then have "home s p = None" by (auto simp: home_def)
    moreover from this have "?M = home s" "?P = waiting s" by (auto simp: waiting_def fun_upd_idem)
    ultimately show ?thesis using False smp_invD(2) [OF inv] by (auto simp: s1_def)
  qed
  have P: "?P d \<subseteq> {q. ?M q = Some d}" for d
    using waiting_sub [of s d] by (auto simp: waiting_def home_def split: if_splits)
  define s2 where "s2 = upd_thread p (pt_prio_update (\<lambda>_. pr)) s1"
  have s2: "queues_ok e ?M ?P s2"
    by (rule queues_ok_threads [OF conjunct1 [OF s1]]) (use P in \<open>auto simp: s2_def\<close>)
  have fr: "threads s1 = threads s" "\<And>d. pq_curr (cpus s1 d) = pq_curr (cpus s d)"
    using s1 by (simp_all add: push_frame_def)
  define s3 where "s3 = (if pq_curr (cpus s2 ?c) = p \<and> is_rt_task p s2 then set_curr_task_rt_smp ?c s2 else s2)"
  have "?P(?c := ?P ?c - {p}) = ?P" by simp
  then have s3: "queues_ok e ?M ?P s3 \<and> push_frame s2 s3"
    using dequeue_pushable_ok [OF s2, of ?c p] s2 by (auto simp: s3_def set_curr_task_rt_smp_def)
  have thr: "threads s3 q = (if q = p then (threads s p)\<lparr>pt_prio := pr\<rparr> else threads s q)" for q
    using s3 fr by (simp add: push_frame_def s2_def)
  have cur: "pq_curr (cpus s3 d) = pq_curr (cpus s d)" for d
    using s3 fr by (simp add: push_frame_def s2_def)
  let ?s4 = "prio_set p pr head s"
  have eq: "?s4 = (if pt_on_rq (threads s p) \<and> is_rt_task p s3 then enqueue_task_rt_smp ?c p head s3 else s3)"
    by (simp add: prio_set_def Let_def s1_def s2_def s3_def)
  have thr_ok: "threads_ok e s3" unfolding threads_ok_def cur using T pr by (auto simp: thr)
  show ?thesis
  proof (cases "pt_on_rq (threads s p) \<and> is_rt_task p s3")
    case True
    let ?P' = "?P(?c := (if pq_curr (cpus s3 ?c) \<noteq> p \<and> 1 < alw s3 p then insert p (?P ?c) else ?P ?c))"
    have en: "queues_ok e (?M(p \<mapsto> ?c)) ?P' (enqueue_task_rt_smp ?c p head s3)"
      "push_frame s3 (enqueue_task_rt_smp ?c p head s3)"
      by (rule enqueue_task_ok [OF conjunct1 [OF s3]];
          use True p pr P [of ?c] in \<open>auto simp: thr is_rt_task_def prio_consts\<close>)+
    note F = push_frame_inv [OF en(2) thr_ok]
    have h3: "home s3 = ?M(p \<mapsto> ?c)"
      using True by (auto simp: home_def is_rt_task_def thr fun_eq_iff)
    show ?thesis unfolding eq if_P [OF True]
    proof (rule smp_invI [OF F(1) en(1)])
      show "home (enqueue_task_rt_smp ?c p head s3) = ?M(p \<mapsto> ?c)" unfolding F(2) h3 ..
      show "waiting (enqueue_task_rt_smp ?c p head s3) d = ?P' d" for d
        unfolding F(3) waiting_def [of s3] h3 cur by (auto simp: waiting_def thr home_def split: if_splits)
    qed
  next
    case False
    have h3: "home s3 = ?M"
      using False by (auto simp: home_def is_rt_task_def thr fun_eq_iff)
    show ?thesis unfolding eq if_not_P [OF False]
    proof (rule smp_invI [OF thr_ok conjunct1 [OF s3] h3])
      show "waiting s3 d = ?P d" for d
        unfolding waiting_def [of s3] h3 cur by (auto simp: waiting_def thr home_def split: if_splits)
    qed
  qed
qed

lemma set_prio_ok:
  assumes rely: "rely e" "quiet e N" and inv: "smp_inv e s" and pr: "0 \<le> pr" and p: "p < PID_MAX_LIMIT"
  shows "\<exists>s'. set_prio_smp e p pr head s = Some s' \<and> smp_inv e s'"
proof -
  let ?c = "pt_cpu (threads s p)" and ?s4 = "prio_set p pr head s"
  have inv4: "smp_inv e ?s4" by (rule prio_set_ok [OF inv pr p])
  have c: "?c < nr_cpu_ids e" by (rule threads_okD(4) [OF smp_invD(1) [OF inv]])
  have "set_prio_smp e p pr head s =
      (if is_rt_task p s \<and> \<not> is_rt_task p ?s4 then Some (switched_from_rt e ?c p ?s4)
       else if \<not> is_rt_task p s \<and> is_rt_task p ?s4 then switched_to_rt_smp e ?c p ?s4
       else if is_rt_task p s \<and> pt_prio (threads s p) \<noteq> pr
       then Some (prio_changed_rt_smp e ?c p (pt_prio (threads s p)) ?s4) else Some ?s4)"
    by (simp only: set_prio_smp_def Let_def)
  then show ?thesis
    using switched_to_ok [OF rely inv4] prio_hooks_ok [OF rely(1) c inv4] inv4 by simp
qed

end
