(* ===== verification/Rt_Smp_Claims.thy ===== *)
theory Rt_Smp_Claims
  imports Rt_Smp
begin

text \<open>
  The properties of pushing and pulling real-time tasks between processors, and a system of two
  processors they apply to.
\<close>

section \<open>A system of processors\<close>

text \<open>
  Each operation runs on one processor, with the others acting as they like, within the
  invariant, whenever it gives up a lock. Only a processor itself changes its current task.
\<close>

definition smp_env :: "nat \<Rightarrow> push_env \<Rightarrow> bool" where
  "smp_env n e \<longleftrightarrow> nr_cpu_ids e = n \<and> rely e \<and> (\<exists>N. quiet e N)"

inductive smp_step :: "nat \<Rightarrow> smp \<Rightarrow> smp \<Rightarrow> bool" for n where
  Push: "smp_env n e \<Longrightarrow> push_rt_tasks e c s = Some s' \<Longrightarrow> smp_step n s s'"
| Pull: "smp_env n e \<Longrightarrow> c < n \<Longrightarrow> smp_step n s (snd (pull_rt_task e c s))"
| Schedule: "smp_env n e \<Longrightarrow> c < n \<Longrightarrow> rely_curr e c \<Longrightarrow> schedule_ready e c sleep other s \<Longrightarrow>
    schedule_smp e c sleep other s = Some s' \<Longrightarrow> smp_step n s s'"
| Wake: "smp_env n e \<Longrightarrow> wakeable e p c s \<Longrightarrow> wake_up_rt e p c s = Some s' \<Longrightarrow> smp_step n s s'"
| Allow: "smp_env n e \<Longrightarrow> m \<subseteq> {..<n} \<Longrightarrow> do_set_cpus_allowed e p m s = Some s' \<Longrightarrow> smp_step n s s'"
| Prio: "smp_env n e \<Longrightarrow> 0 \<le> pr \<Longrightarrow> p < PID_MAX_LIMIT \<Longrightarrow> set_prio_smp e p pr head s = Some s' \<Longrightarrow> smp_step n s s'"
| Online: "c < n \<Longrightarrow> smp_step n s (set_rq_online c s)"
| Offline: "c < n \<Longrightarrow> smp_step n s (set_rq_offline c s)"

text \<open>The invariant depends on the environment only by the number of processors.\<close>

lemma smp_inv_env:
  assumes "nr_cpu_ids e = nr_cpu_ids e'"
  shows "smp_inv e s = smp_inv e' s"
  using assms by (simp add: smp_inv_def threads_ok_def queues_ok_def mask_ok_def cpumask_weight_def)

lemma smp_op_inv:
  assumes "smp_step n s s'" and "smp_inv e s" and n: "nr_cpu_ids e = n"
  shows "smp_inv e s'"
  using assms
proof (induction)
  case (Push e1 c s s')
  then show ?case using push_rt_tasks_ok [of e1 _ s c] smp_inv_env [of e e1] by (fastforce simp: smp_env_def)
next
  case (Pull e1 c s)
  then show ?case using pull_rt_task_ok(1) [of e1 c s] smp_inv_env [of e e1] by (auto simp: smp_env_def)
next
  case (Schedule e1 c sleep other s s')
  then show ?case using schedule_ok [of e1 c _ s sleep other] smp_inv_env [of e e1] by (fastforce simp: smp_env_def)
next
  case (Wake e1 p c s s')
  then show ?case using wake_up_ok [of e1 _ s p c] smp_inv_env [of e e1] by (fastforce simp: smp_env_def)
next
  case (Allow e1 m p s s')
  then show ?case using set_cpus_allowed_ok [of e1 s m p] smp_inv_env [of e e1] by (fastforce simp: smp_env_def)
next
  case (Prio e1 pr p head s s')
  then show ?case using set_prio_ok [of e1 _ s pr p head] smp_inv_env [of e e1] by (fastforce simp: smp_env_def)
next
  case (Online c s)
  then show ?case using online_ok(1) by simp
next
  case (Offline c s)
  then show ?case using online_ok(2) by simp
qed

lemma smp_steps_inv: "(smp_step n)\<^sup>*\<^sup>* s s' \<Longrightarrow> smp_inv e s \<Longrightarrow> nr_cpu_ids e = n \<Longrightarrow> smp_inv e s'"
  by (induction rule: rtranclp_induct) (auto intro: smp_op_inv)

section \<open>Two processors\<close>

text \<open>
  On processor 0 task 10 of priority 5 runs and task 11 of priority 20 waits, which may run on
  both; processor 1 is idle.
\<close>

definition ex_env :: push_env where
  "ex_env = \<lparr>nr_cpu_ids = 2, this_cpu = 0,
     cpupri_find = (\<lambda>s p. let m = {l \<in> pt_allowed (threads s p). pt_prio (threads s p) < cpu_pri s l}
                          in if m = {} then None else Some m),
     mask_allocated = True, domains = (\<lambda>_. []), others = (\<lambda>_ s. s)\<rparr>"

definition ex_rt :: rt_rq where
  "ex_rt = \<lparr>rt_active = \<lparr>bitmap = (\<lambda>i. i = 5 \<or> i = 20 \<or> i = 100),
       queue = (\<lambda>i. if i = 5 then [Rt_Task 10] else if i = 20 then [Rt_Task 11] else [])\<rparr>,
     rt_nr_running = 2, highest_prio = 5, rt_throttled = False, rt_time = 0, rt_runtime = 0, rt_nr_boosted = 0\<rparr>"

definition ex_empty :: rt_rq where
  "ex_empty = \<lparr>rt_active = \<lparr>bitmap = (\<lambda>i. i = 100), queue = (\<lambda>i. [])\<rparr>,
     rt_nr_running = 0, highest_prio = 100, rt_throttled = False, rt_time = 0, rt_runtime = 0, rt_nr_boosted = 0\<rparr>"

definition ex_rq :: "rt_rq \<Rightarrow> nat \<Rightarrow> bool \<Rightarrow> push_rq" where
  "ex_rq r cur on =
     \<lparr>pq_rt = r, pushable = [], highest_next = 100, rt_nr_total = 0, rt_nr_migratory = 0, is_overloaded = False,
      pq_curr = cur, pq_online = on, pq_post_schedule = False, pq_nr_running = 0, pq_nr_unint = 0\<rparr>"

definition ex_smp :: smp where
  "ex_smp = \<lparr>cpus = (\<lambda>c. if c = 0 then (ex_rq ex_rt 10 True)\<lparr>pushable := [(20, 11)], highest_next := 20,
         rt_nr_total := 2, rt_nr_migratory := 1, is_overloaded := True, pq_nr_running := 2\<rparr>
       else ex_rq ex_empty 1 (c = 1)),
     threads = (\<lambda>p. \<lparr>pt_prio = (if p = 10 then 5 else if p = 11 then 20 else 120),
       pt_allowed = (if p = 11 then {0, 1} else if p = 1 then {1} else {0}),
       pt_nr_allowed = (if p = 11 then 2 else 1), pt_cpu = (if p = 1 then 1 else 0),
       pt_on_rq = (p = 10 \<or> p = 11), pt_on_cpu = (p = 10 \<or> p = 1), pt_resched = False, pt_polling = False,
       pt_contributes = False, pt_migrations = 0\<rparr>),
     rto_mask = {0}, rto_count = 1, cpu_pri = (\<lambda>c. if c = 0 then 5 else if c = 1 then 100 else - 1),
     ipis = [], turns = 0\<rparr>"

lemma ex_quiet: "quiet ex_env N" and ex_rely: "rely ex_env" and ex_rely_curr: "rely_curr ex_env c"
  by (auto simp: quiet_def rely_def rely_curr_def ex_env_def)

lemma ex_exact: "cpupri_exact ex_env"
  by (auto simp: cpupri_exact_def ex_env_def Let_def)

lemma ex_rt_wf: "rq_wf (ent_prio (pri ex_smp)) pid_ent ex_rt" and ex_rt_ents: "rt_ents ex_rt = Rt_Task ` {10, 11}"
proof -
  show "rt_ents ex_rt = Rt_Task ` {10, 11}"
  proof -
    have "Rt_Task 11 \<in> rt_ents ex_rt" unfolding rt_ents_def by (rule UN_I [of 20]) (simp_all add: ex_rt_def)
    moreover have "Rt_Task 10 \<in> rt_ents ex_rt" unfolding rt_ents_def by (rule UN_I [of 5]) (simp_all add: ex_rt_def)
    moreover have "rt_ents ex_rt \<subseteq> {Rt_Task 10, Rt_Task 11}" by (auto simp: rt_ents_def ex_rt_def split: if_splits)
    ultimately show ?thesis by auto
  qed
  have "rt_count ex_rt = (\<Sum>i\<in>{5, 20}. length (queue (rt_active ex_rt) i))"
    unfolding rt_count_def by (rule sum.mono_neutral_right) (auto simp: ex_rt_def)
  then have "rt_count ex_rt = 2" by (simp add: ex_rt_def)
  moreover have "sched_find_first_bit (bitmap (rt_active ex_rt)) = int 5"
    by (subst sched_find_first_bit_eq) (auto simp: ex_rt_def)
  ultimately show "rq_wf (ent_prio (pri ex_smp)) pid_ent ex_rt"
    by (auto simp: rq_wf_def ex_rt_def ex_smp_def pid_ent_def PID_MAX_LIMIT_def)
qed

lemma ex_empty_wf: "rq_wf pr ok ex_empty" and ex_empty_ents: "rt_ents ex_empty = {}"
proof -
  show "rt_ents ex_empty = {}" by (simp add: rt_ents_def ex_empty_def)
  have "sched_find_first_bit (bitmap (rt_active ex_empty)) = int 100"
    by (subst sched_find_first_bit_eq) (auto simp: ex_empty_def)
  then show "rq_wf pr ok ex_empty"
    by (simp add: rq_wf_def ex_empty_def rt_count_def)
qed

lemma ex_home: "home ex_smp p = (if p = 10 \<or> p = 11 then Some 0 else None)"
  by (simp add: home_def is_rt_task_def ex_smp_def prio_consts)

lemma ex_waiting: "waiting ex_smp c = (if c = 0 then {11} else {})"
  by (auto simp: waiting_def ex_home) (auto simp: ex_smp_def ex_rq_def split: if_splits)

lemma ex_inv: "smp_inv ex_env ex_smp"
proof -
  have S: "{p. home ex_smp p = Some c} = (if c = 0 then {10, 11} else {})" for c by (auto simp: ex_home)
  have mig: "{p \<in> {10, 11}. 1 < alw ex_smp p} = {11}" by (auto simp: ex_smp_def)
  have "pq_ok (pri ex_smp) (alw ex_smp) {10, 11} {11} (cpus ex_smp 0)"
    unfolding pq_ok_def mig using ex_rt_wf ex_rt_ents
    by (simp add: ex_smp_def ex_rq_def plist_ok_def plist_top_def)
  moreover have "pq_ok (pri ex_smp) (alw ex_smp) {} {} (cpus ex_smp c)" if "c \<noteq> 0" for c
    using ex_empty_wf ex_empty_ents that
    by (simp add: pq_ok_def ex_smp_def ex_rq_def plist_ok_def plist_top_def prio_consts)
  ultimately have "pq_ok (pri ex_smp) (alw ex_smp) {p. home ex_smp p = Some c} (waiting ex_smp c) (cpus ex_smp c)" for c
    unfolding S ex_waiting by simp
  moreover have "mask_ok ex_env ex_smp" "cpupri_ok ex_smp" "is_overloaded (cpus ex_smp c) = over (cpus ex_smp c)" for c
    by (auto simp: mask_ok_def cpupri_ok_def over_def ex_smp_def ex_rq_def ex_env_def ex_rt_def ex_empty_def
        CPUPRI_INVALID_def)
  moreover have "threads_ok ex_env ex_smp"
    by (auto simp: threads_ok_def ex_smp_def ex_rq_def ex_env_def cpumask_weight_def upt_rec less_2_cases_iff)
  ultimately show ?thesis by (simp add: smp_inv_def queues_ok_def)
qed

section \<open>Every run is safe\<close>

text \<open>
  C10. From a state of the real-time run queues in which the invariant holds, any sequence of pushes,
  pulls, scheduling passes, wake-ups and changes of the priority or the allowed processors of
  tasks or of the processors that are online, on any processor and with the others interfering
  whenever a lock is given up, leads to states where it holds again: a runnable real-time task is on
  the queue of exactly its own processor, at its priority; the list of pushable tasks has exactly those
  that wait and may run elsewhere; the counters, the highest priorities and the mask of overloaded
  processors are exact. In these states no operation reaches one of its \<^verbatim>\<open>BUG_ON()\<close>, and the retry
  loops of pushing end.
\<close>

lemma smp_runs_safe:
  assumes "(smp_step n)\<^sup>*\<^sup>* s0 s" and "smp_inv e s0" and "smp_env n e"
  shows "smp_inv e s \<and> push_rt_tasks e c s \<noteq> None \<and>
    (c < n \<and> rely_curr e c \<and> schedule_ready e c sleep other s \<longrightarrow> schedule_smp e c sleep other s \<noteq> None) \<and>
    (wakeable e p c s \<longrightarrow> wake_up_rt e p c s \<noteq> None) \<and>
    (m \<subseteq> {..<n} \<longrightarrow> do_set_cpus_allowed e p m s \<noteq> None) \<and>
    (0 \<le> pr \<and> p < PID_MAX_LIMIT \<longrightarrow> set_prio_smp e p pr head s \<noteq> None) \<and>
    (pt_on_rq (threads s p) \<and> is_rt_task p s \<longrightarrow>
       (\<forall>d. Rt_Task p \<in> rt_ents (pq_rt (cpus s d)) \<longleftrightarrow> d = pt_cpu (threads s p)))"
proof -
  have e: "nr_cpu_ids e = n" "rely e" using assms(3) by (auto simp: smp_env_def)
  obtain N where N: "quiet e N" using assms(3) by (auto simp: smp_env_def)
  have inv: "smp_inv e s" by (rule smp_steps_inv [OF assms(1,2) e(1)])
  have "Rt_Task p \<in> rt_ents (pq_rt (cpus s d)) \<longleftrightarrow> home s p = Some d" for d
    using pq_ok_tasks(4) [OF queues_okD(1) [OF smp_invD(2) [OF inv]], of p d] by simp
  then have "pt_on_rq (threads s p) \<and> is_rt_task p s \<longrightarrow>
      (\<forall>d. Rt_Task p \<in> rt_ents (pq_rt (cpus s d)) \<longleftrightarrow> d = pt_cpu (threads s p))"
    by (auto simp: home_def)
  then show ?thesis
    using inv push_rt_tasks_ok [OF e(2) N inv, of c] schedule_ok [OF e(2) _ N inv, of c sleep other]
      wake_up_ok [OF e(2) N inv, of p c] set_cpus_allowed_ok [OF inv, of m p]
      set_prio_ok [OF e(2) N inv, of pr p head] e(1) by auto
qed

text \<open>Processor 1 pulls task 11.\<close>

lemma smp_runs_safe_witness:
  "smp_inv ex_env (snd (pull_rt_task ex_env 1 ex_smp)) \<and>
   push_rt_tasks ex_env 0 (snd (pull_rt_task ex_env 1 ex_smp)) \<noteq> None"
proof -
  have env: "smp_env 2 ex_env" using ex_quiet ex_rely by (auto simp: smp_env_def) (simp add: ex_env_def)
  have "(smp_step 2)\<^sup>*\<^sup>* ex_smp (snd (pull_rt_task ex_env 1 ex_smp))"
    by (rule r_into_rtranclp, rule Pull [OF env]) simp
  from smp_runs_safe [OF this ex_inv env] show ?thesis by blast
qed

section \<open>Pushing\<close>

text \<open>
  C37. Pushing returns even while other processors interfere. When one push moves a task, that task was
  queued on the pushing processor, was not running, and goes to another processor on which it may
  run and where all queued real-time tasks have a lower priority, whose current task is told
  to give way. When nobody interferes, pushing goes on until the first pushable task cannot be
  helped: the processor is not overloaded any more, or the task is about to preempt the current
  one, or no processor on which it may run has only tasks of lower priority.
\<close>

lemma push_rt_tasks_settle:
  assumes "rely e" and "quiet e N" and "smp_inv e s"
  shows "(\<exists>b s'. push_rt_task e c s = Some (b, s') \<and> (b \<longrightarrow> (\<exists>p l s1. smp_inv e s1 \<and>
            home s1 p = Some c \<and> p \<noteq> pq_curr (cpus s1 c) \<and> l \<noteq> c \<and> l \<in> pt_allowed (threads s1 p) \<and>
            (\<forall>q. home s1 q = Some l \<longrightarrow> pt_prio (threads s1 p) < pt_prio (threads s1 q)) \<and>
            home s' = (home s1)(p \<mapsto> l) \<and> pt_resched (threads s' (pq_curr (cpus s' l)))))) \<and>
         (\<exists>s'. push_rt_tasks e c s = Some s' \<and> smp_inv e s' \<and>
            (N = 0 \<and> cpupri_exact e \<longrightarrow> \<not> is_overloaded (cpus s' c) \<or> waiting s' c = {} \<or>
               (let p = snd (hd (pushable (cpus s' c))); cur = pq_curr (cpus s' c)
                in pt_prio (threads s' p) < pt_prio (threads s' cur) \<and> pt_resched (threads s' cur) \<or>
                   (\<forall>l\<in>pt_allowed (threads s' p). pq_online (cpus s' l) \<longrightarrow>
                      highest_prio (pq_rt (cpus s' l)) \<le> pt_prio (threads s' p)))))"
proof -
  obtain b s' where push: "push_rt_task e c s = Some (b, s')" and r: "push_result e N c s b s'"
    using push_rt_task_ok [OF assms] by blast
  have moved: "\<exists>p l s1. smp_inv e s1 \<and>
      home s1 p = Some c \<and> p \<noteq> pq_curr (cpus s1 c) \<and> l \<noteq> c \<and> l \<in> pt_allowed (threads s1 p) \<and>
      (\<forall>q. home s1 q = Some l \<longrightarrow> pri s1 p < pri s1 q) \<and>
      home s' = (home s1)(p \<mapsto> l) \<and> pt_resched (threads s' (pq_curr (cpus s' l)))" if b
  proof -
    obtain p l s1 where inv1: "smp_inv e s1" and t: "push_target p c l s1"
      and s': "s' = resched_task_smp e (pq_curr (cpus (move_rt p c l s1) l)) (move_rt p c l s1)"
      using r \<open>b\<close> by (auto simp: push_result_def push_moved_def)
    note h = push_target_home [OF inv1 t]
    have "home s' = (home s1)(p \<mapsto> l)" unfolding s' resched_same(2) by (rule move_rt_ok(2) [OF inv1 h])
    moreover have "pt_resched (threads s' (pq_curr (cpus s' l)))" unfolding s' resched_frame(1) by (rule resched_frame(7))
    moreover have "pri s1 p < pri s1 q" if "home s1 q = Some l" for q
      using t highest_le [OF inv1 that] by (simp add: push_target_def)
    ultimately show ?thesis using inv1 h t by (auto simp: push_target_def)
  qed
  obtain s2 where s2: "push_rt_tasks e c s = Some s2" "smp_inv e s2" "N \<le> turns s \<and> cpupri_exact e \<longrightarrow> push_settled c s2"
    using push_rt_tasks_ok [OF assms] by blast
  have "N = 0 \<and> cpupri_exact e \<longrightarrow> push_settled c s2" using s2(3) by simp
  then show ?thesis
    using push moved s2(1,2) unfolding push_settled_def no_target_def by (intro conjI exI) auto
qed

lemma push_rt_tasks_settle_witness:
  "\<exists>s'. push_rt_tasks ex_env 0 ex_smp = Some s' \<and> smp_inv ex_env s'"
  using push_rt_tasks_settle [OF ex_rely ex_quiet [of 0] ex_inv, of 0] by blast

section \<open>Pulling\<close>

text \<open>
  C38. When no other processor interferes, a processor that has pulled leaves no overloaded processor a
  waiting task that should run here: each waiting task there that may run here has no higher
  priority than the best that is queued here, unless one of at least its priority is about to
  preempt the task that its own processor runs. Whatever the others do, pulling keeps the
  invariant.
\<close>

lemma pull_rt_task_settles:
  assumes "rely e" and "quiet e N" and "c < nr_cpu_ids e" and "smp_inv e s"
  shows "let s' = snd (pull_rt_task e c s) in smp_inv e s' \<and>
    (N = 0 \<longrightarrow> (\<forall>i\<in>rto_mask s. i \<noteq> c \<longrightarrow>
       (\<forall>p\<in>waiting s' i. c \<in> pt_allowed (threads s' p) \<longrightarrow>
          highest_prio (pq_rt (cpus s' c)) \<le> pt_prio (threads s' p) \<or>
          (\<exists>q\<in>waiting s' i. c \<in> pt_allowed (threads s' q) \<and> pt_prio (threads s' q) \<le> pt_prio (threads s' p) \<and>
             pt_prio (threads s' q) < pt_prio (threads s' (pq_curr (cpus s' i)))))))"
proof -
  have "pull_done c i (snd (pull_rt_task e c s))" if "N = 0" "i \<in> rto_mask s" "i \<noteq> c" for i
    using pull_rt_task_done [OF assms(2) _ assms(1,3,4) that(3,2)] that(1) by simp
  then show ?thesis
    using pull_rt_task_ok(1) [OF assms(1,3,4)] by (auto simp: Let_def pull_done_def pullable_def)
qed

lemma pull_rt_task_settles_witness:
  "let s' = snd (pull_rt_task ex_env 1 ex_smp) in 0 \<in> rto_mask ex_smp \<and>
     (\<forall>p\<in>waiting s' 0. 1 \<in> pt_allowed (threads s' p) \<longrightarrow>
        highest_prio (pq_rt (cpus s' 1)) \<le> pt_prio (threads s' p) \<or>
        (\<exists>q\<in>waiting s' 0. pt_prio (threads s' q) < pt_prio (threads s' (pq_curr (cpus s' 0)))))"
proof -
  have mask: "0 \<in> rto_mask ex_smp" by (simp add: ex_smp_def)
  have n: "1 < nr_cpu_ids ex_env" by (simp add: ex_env_def)
  show ?thesis
    using pull_rt_task_settles [OF ex_rely ex_quiet [of 0] n ex_inv] mask by (fastforce simp: Let_def)
qed

end
