(* ===== verification/Affinity.thy ===== *)
theory Affinity
  imports Rt_Push Setsched
begin

text \<open>
  Where a task may run: the code of \<^verbatim>\<open>kernel/sched/core.c\<close> for more than one processor that keeps
  every task on a processor of its mask (\<^verbatim>\<open>set_cpus_allowed_ptr()\<close>, \<^verbatim>\<open>__migrate_task()\<close>,
  \<^verbatim>\<open>select_task_rq()\<close>), wakes tasks on other processors (\<^verbatim>\<open>try_to_wake_up()\<close>, \<^verbatim>\<open>ttwu_queue()\<close>) and
  empties the queue of a processor that is taken down (\<^verbatim>\<open>migration_call()\<close>, \<^verbatim>\<open>migrate_tasks()\<close>).
  Of a task it has what these functions read and write. What the scheduling classes keep, with
  the need-resched flags, is a value of a type of its own, which only their operations touch;
  the real-time class of several processors is modelled in \<open>Rt_Push\<close>.
\<close>

section \<open>State\<close>

text \<open>
  \<open>wake_list\<close> holds the tasks other processors have sent to this one to be woken, the last one
  first. \<open>stop_works\<close> are the calls of \<^verbatim>\<open>stop_one_cpu()\<close> that have not run yet: the task, the
  processor whose stop thread is asked, and the destination.
\<close>

record aff_task =
  af_state :: ulong
  af_frozen :: bool
  af_allowed :: cpumask
  af_nr_allowed :: int
  af_cpu :: nat
  af_on_rq :: bool
  af_on_cpu :: bool
  af_bound :: bool
  af_mm :: bool
  af_wrr :: bool
  af_contributes :: bool
  af_migrations :: u64
  af_nvcsw :: ulong

record aff_rq =
  aq_curr :: tid
  aq_stop :: "tid option"
  aq_nr_unint :: ulong
  aq_load_active :: ulong
  aq_load_update :: ulong
  aq_span :: "cpumask option"
  aq_online :: bool
  wake_list :: "tid list"

type_synonym stop_work = "tid \<times> nat \<times> nat"

record 'c aff =
  af_tasks :: "tid \<Rightarrow> aff_task"
  af_rqs :: "nat \<Rightarrow> aff_rq"
  class_data :: 'c
  online_mask :: cpumask
  active_mask :: cpumask
  rd_online :: cpumask
  af_calc_load_tasks :: ulong
  af_calc_load_update :: ulong
  stop_works :: "stop_work list"
  af_ipis :: "nat list"
  notices :: "tid list"

text \<open>
  What comes from outside. Of the machine: the number of processors, the possible ones, those of
  the node of each, the cache each belongs to. \<open>fallback_mask\<close> is what
  \<^verbatim>\<open>cpuset_cpus_allowed_fallback()\<close> passes to \<^verbatim>\<open>do_set_cpus_allowed()\<close>, if it calls it. Then the
  operations of the scheduling classes: \<open>cl_pick\<close> is \<^verbatim>\<open>pick_next_task()\<close>, which is given the stop
  thread that \<^verbatim>\<open>rq->stop\<close> names; \<open>cl_pull\<close>, \<open>cl_post\<close> and \<open>cl_woken\<close> are the hooks around
  scheduling and after a wake-up, in which a class may move its tasks between processors.
\<close>

record 'c aff_env =
  ncpus :: nat
  possible_mask :: cpumask
  node_cpus :: "nat \<Rightarrow> cpumask"
  llc_id :: "nat \<Rightarrow> int"
  ttwu_queue_feat :: bool
  idle_of :: "nat \<Rightarrow> tid"
  stopper_of :: "nat \<Rightarrow> tid"
  fallback_mask :: "tid \<Rightarrow> cpumask option"
  cl_enqueue :: "nat \<Rightarrow> tid \<Rightarrow> 'c \<Rightarrow> 'c"
  cl_dequeue :: "nat \<Rightarrow> tid \<Rightarrow> 'c \<Rightarrow> 'c"
  cl_pick :: "nat \<Rightarrow> tid option \<Rightarrow> 'c \<Rightarrow> tid \<times> 'c"
  cl_put_prev :: "nat \<Rightarrow> tid \<Rightarrow> 'c \<Rightarrow> 'c"
  cl_preempt :: "nat \<Rightarrow> tid \<Rightarrow> 'c \<Rightarrow> 'c"
  cl_set_allowed :: "tid \<Rightarrow> cpumask \<Rightarrow> 'c \<Rightarrow> 'c"
  cl_rq_online :: "nat \<Rightarrow> 'c \<Rightarrow> 'c"
  cl_rq_offline :: "nat \<Rightarrow> 'c \<Rightarrow> 'c"
  cl_unthrottle :: "nat \<Rightarrow> 'c \<Rightarrow> 'c"
  cl_nr_running :: "nat \<Rightarrow> 'c \<Rightarrow> ulong"
  cl_select :: "tid \<Rightarrow> int \<Rightarrow> 'c aff \<Rightarrow> nat"
  cl_pull :: "nat \<Rightarrow> tid \<Rightarrow> 'c aff \<Rightarrow> 'c aff"
  cl_post :: "nat \<Rightarrow> 'c aff \<Rightarrow> 'c aff"
  cl_woken :: "nat \<Rightarrow> tid \<Rightarrow> 'c aff \<Rightarrow> 'c aff"

abbreviation upd_aff :: "tid \<Rightarrow> (aff_task \<Rightarrow> aff_task) \<Rightarrow> 'c aff \<Rightarrow> 'c aff" where
  "upd_aff p f \<equiv> af_tasks_update (\<lambda>ts. ts(p := f (ts p)))"

abbreviation upd_aff_rq :: "nat \<Rightarrow> (aff_rq \<Rightarrow> aff_rq) \<Rightarrow> 'c aff \<Rightarrow> 'c aff" where
  "upd_aff_rq c f \<equiv> af_rqs_update (\<lambda>qs. qs(c := f (qs c)))"

text \<open>The first processor of a mask, \<^verbatim>\<open>nr_cpu_ids\<close> when there is none; how many it has.\<close>

definition first_cpu :: "'c aff_env \<Rightarrow> cpumask \<Rightarrow> nat" where
  "first_cpu e m = (case find (\<lambda>c. c \<in> m) [0..<ncpus e] of Some c \<Rightarrow> c | None \<Rightarrow> ncpus e)"

definition mask_weight :: "'c aff_env \<Rightarrow> cpumask \<Rightarrow> int" where
  "mask_weight e m = int (length (filter (\<lambda>c. c \<in> m) [0..<ncpus e]))"

definition TASK_WAKING :: ulong where "TASK_WAKING = 256"

definition SD_BALANCE_EXEC :: int where "SD_BALANCE_EXEC = 4"
definition SD_BALANCE_FORK :: int where "SD_BALANCE_FORK = 8"
definition SD_BALANCE_WAKE :: int where "SD_BALANCE_WAKE = 16"

definition contributes_to_load :: "aff_task \<Rightarrow> bool" where
  "contributes_to_load t \<longleftrightarrow> af_state t AND TASK_UNINTERRUPTIBLE \<noteq> 0 \<and> \<not> af_frozen t"

text \<open>\<^verbatim>\<open>nr_running()\<close> adds over the processors that are online, \<^verbatim>\<open>nr_uninterruptible()\<close> over the possible ones.\<close>

definition cpu_sum :: "'c aff_env \<Rightarrow> cpumask \<Rightarrow> (nat \<Rightarrow> ulong) \<Rightarrow> ulong" where
  "cpu_sum e m f = sum_list (map f (filter (\<lambda>c. c \<in> m) [0..<ncpus e]))"

definition nr_running_mp :: "'c aff_env \<Rightarrow> 'c aff \<Rightarrow> ulong" where
  "nr_running_mp e s = cpu_sum e (online_mask s) (\<lambda>c. cl_nr_running e c (class_data s))"

definition nr_uninterruptible_mp :: "'c aff_env \<Rightarrow> 'c aff \<Rightarrow> ulong" where
  "nr_uninterruptible_mp e s =
     (let n = cpu_sum e (possible_mask e) (\<lambda>c. aq_nr_unint (af_rqs s c)) in if sint n < 0 then 0 else n)"

section \<open>Queueing\<close>

definition set_task_cpu_mp :: "tid \<Rightarrow> nat \<Rightarrow> 'c aff \<Rightarrow> 'c aff" where
  "set_task_cpu_mp p c s =
     (let s1 = (if af_cpu (af_tasks s p) \<noteq> c then upd_aff p (af_migrations_update (\<lambda>n. n + 1)) s else s)
      in upd_aff p (af_cpu_update (\<lambda>_. c)) s1)"

definition activate_task_mp :: "'c aff_env \<Rightarrow> nat \<Rightarrow> tid \<Rightarrow> 'c aff \<Rightarrow> 'c aff" where
  "activate_task_mp e c p s =
     (let s1 = (if contributes_to_load (af_tasks s p) then upd_aff_rq c (aq_nr_unint_update (\<lambda>n. n - 1)) s else s)
      in class_data_update (cl_enqueue e c p) s1)"

definition deactivate_task_mp :: "'c aff_env \<Rightarrow> nat \<Rightarrow> tid \<Rightarrow> 'c aff \<Rightarrow> 'c aff" where
  "deactivate_task_mp e c p s =
     (let s1 = (if contributes_to_load (af_tasks s p) then upd_aff_rq c (aq_nr_unint_update (\<lambda>n. n + 1)) s else s)
      in class_data_update (cl_dequeue e c p) s1)"

definition do_set_cpus_allowed_mp :: "'c aff_env \<Rightarrow> tid \<Rightarrow> cpumask \<Rightarrow> 'c aff \<Rightarrow> 'c aff" where
  "do_set_cpus_allowed_mp e p m s =
     upd_aff p (\<lambda>t. t\<lparr>af_allowed := m, af_nr_allowed := mask_weight e m\<rparr>)
       (class_data_update (cl_set_allowed e p m) s)"

section \<open>Choosing a processor\<close>

text \<open>\<^verbatim>\<open>select_fallback_rq()\<close>: the value \<open>None\<close> is its \<^verbatim>\<open>BUG()\<close>.\<close>

datatype fallback_state = Try_Cpuset | Try_Possible | Try_Fail

definition allowed_dest :: "'c aff_env \<Rightarrow> cpumask \<Rightarrow> 'c aff \<Rightarrow> nat option" where
  "allowed_dest e m s = find (\<lambda>c. c \<in> m \<and> c \<in> online_mask s \<and> c \<in> active_mask s) [0..<ncpus e]"

function fallback_loop :: "'c aff_env \<Rightarrow> tid \<Rightarrow> fallback_state \<Rightarrow> 'c aff \<Rightarrow> (nat \<times> fallback_state) option \<times> 'c aff" where
  "fallback_loop e p st s =
     (case allowed_dest e (af_allowed (af_tasks s p)) s of
        Some c \<Rightarrow> (Some (c, st), s)
      | None \<Rightarrow>
          (case st of
             Try_Cpuset \<Rightarrow> fallback_loop e p Try_Possible
               (case fallback_mask e p of Some m \<Rightarrow> do_set_cpus_allowed_mp e p m s | None \<Rightarrow> s)
           | Try_Possible \<Rightarrow> fallback_loop e p Try_Fail (do_set_cpus_allowed_mp e p (possible_mask e) s)
           | Try_Fail \<Rightarrow> (None, s)))"
  by pat_completeness auto

termination
  by (relation "measure (\<lambda>(e, p, st, s). case st of Try_Cpuset \<Rightarrow> 2 | Try_Possible \<Rightarrow> 1 | Try_Fail \<Rightarrow> 0)") auto

declare fallback_loop.simps [simp del]

definition select_fallback_rq :: "'c aff_env \<Rightarrow> nat \<Rightarrow> tid \<Rightarrow> 'c aff \<Rightarrow> nat option \<times> 'c aff" where
  "select_fallback_rq e cpu p s =
     (case allowed_dest e (node_cpus e cpu \<inter> af_allowed (af_tasks s p)) s of
        Some c \<Rightarrow> (Some c, s)
      | None \<Rightarrow>
          (case fallback_loop e p Try_Cpuset s of
             (None, s1) \<Rightarrow> (None, s1)
           | (Some (c, st), s1) \<Rightarrow>
               (Some c, if st \<noteq> Try_Cpuset \<and> af_mm (af_tasks s1 p) then s1\<lparr>notices := notices s1 @ [p]\<rparr> else s1)))"

text \<open>The class of a task chooses; the WRR class always chooses processor 0.\<close>

definition select_task_rq_wrr :: nat where "select_task_rq_wrr = 0"

definition class_select_rq :: "'c aff_env \<Rightarrow> tid \<Rightarrow> int \<Rightarrow> 'c aff \<Rightarrow> nat" where
  "class_select_rq e p sd_flags s =
     (if af_wrr (af_tasks s p) then select_task_rq_wrr else cl_select e p sd_flags s)"

definition select_task_rq :: "'c aff_env \<Rightarrow> tid \<Rightarrow> int \<Rightarrow> 'c aff \<Rightarrow> nat option \<times> 'c aff" where
  "select_task_rq e p sd_flags s =
     (let cpu = class_select_rq e p sd_flags s
      in if cpu \<notin> af_allowed (af_tasks s p) \<or> cpu \<notin> online_mask s
         then select_fallback_rq e (af_cpu (af_tasks s p)) p s else (Some cpu, s))"

section \<open>Waking up\<close>

text \<open>
  The statistics of wake-ups, the notice to the work queues and the hook \<^verbatim>\<open>task_waking\<close> are left out,
  and so is the average idle time. \<open>me\<close> is the processor that wakes the task up.
\<close>

definition ttwu_do_wakeup_mp :: "'c aff_env \<Rightarrow> nat \<Rightarrow> tid \<Rightarrow> 'c aff \<Rightarrow> 'c aff" where
  "ttwu_do_wakeup_mp e c p s =
     cl_woken e c p (upd_aff p (af_state_update (\<lambda>_. TASK_RUNNING)) (class_data_update (cl_preempt e c p) s))"

definition ttwu_do_activate_mp :: "'c aff_env \<Rightarrow> nat \<Rightarrow> tid \<Rightarrow> 'c aff \<Rightarrow> 'c aff" where
  "ttwu_do_activate_mp e c p s =
     (let s1 = (if af_contributes (af_tasks s p) then upd_aff_rq c (aq_nr_unint_update (\<lambda>n. n - 1)) s else s);
          s2 = upd_aff p (af_on_rq_update (\<lambda>_. True)) (activate_task_mp e c p s1)
      in ttwu_do_wakeup_mp e c p s2)"

definition ttwu_remote_mp :: "'c aff_env \<Rightarrow> tid \<Rightarrow> 'c aff \<Rightarrow> bool \<times> 'c aff" where
  "ttwu_remote_mp e p s =
     (if af_on_rq (af_tasks s p) then (True, ttwu_do_wakeup_mp e (af_cpu (af_tasks s p)) p s) else (False, s))"

definition sched_ttwu_pending :: "'c aff_env \<Rightarrow> nat \<Rightarrow> 'c aff \<Rightarrow> 'c aff" where
  "sched_ttwu_pending e c s =
     fold (ttwu_do_activate_mp e c) (wake_list (af_rqs s c)) (upd_aff_rq c (wake_list_update (\<lambda>_. [])) s)"

text \<open>\<^verbatim>\<open>scheduler_ipi()\<close>; that it also starts the balancing for idle processors is left out.\<close>

definition scheduler_ipi :: "'c aff_env \<Rightarrow> nat \<Rightarrow> 'c aff \<Rightarrow> 'c aff" where
  "scheduler_ipi e c s = (if wake_list (af_rqs s c) = [] then s else sched_ttwu_pending e c s)"

definition ttwu_queue_remote :: "tid \<Rightarrow> nat \<Rightarrow> 'c aff \<Rightarrow> 'c aff" where
  "ttwu_queue_remote p c s =
     (let s1 = upd_aff_rq c (wake_list_update (\<lambda>ps. p # ps)) s
      in if wake_list (af_rqs s c) = [] then s1\<lparr>af_ipis := af_ipis s1 @ [c]\<rparr> else s1)"

definition cpus_share_cache :: "'c aff_env \<Rightarrow> nat \<Rightarrow> nat \<Rightarrow> bool" where
  "cpus_share_cache e this that \<longleftrightarrow> llc_id e this = llc_id e that"

definition ttwu_queue_mp :: "'c aff_env \<Rightarrow> nat \<Rightarrow> tid \<Rightarrow> nat \<Rightarrow> 'c aff \<Rightarrow> 'c aff" where
  "ttwu_queue_mp e me p c s =
     (if ttwu_queue_feat e \<and> \<not> cpus_share_cache e me c then ttwu_queue_remote p c s
      else ttwu_do_activate_mp e c p s)"

text \<open>
  \<^verbatim>\<open>try_to_wake_up()\<close>. It waits while the task is still on a processor; \<open>must_wait\<close> is the condition of that
  loop, and the definition is what follows it. The value \<open>None\<close> is the \<^verbatim>\<open>BUG()\<close> of \<^verbatim>\<open>select_fallback_rq()\<close>.
\<close>

definition must_wait :: "tid \<Rightarrow> ulong \<Rightarrow> 'c aff \<Rightarrow> bool" where
  "must_wait p state s \<longleftrightarrow>
     af_state (af_tasks s p) AND state \<noteq> 0 \<and> \<not> af_on_rq (af_tasks s p) \<and> af_on_cpu (af_tasks s p)"

definition try_to_wake_up_mp :: "'c aff_env \<Rightarrow> nat \<Rightarrow> tid \<Rightarrow> ulong \<Rightarrow> 'c aff \<Rightarrow> (bool \<times> 'c aff) option" where
  "try_to_wake_up_mp e me p state s =
     (if af_state (af_tasks s p) AND state = 0 then Some (False, s)
      else
        case (if af_on_rq (af_tasks s p) then ttwu_remote_mp e p s else (False, s)) of
          (True, s1) \<Rightarrow> Some (True, s1)
        | (False, s1) \<Rightarrow>
            let s2 = upd_aff p (\<lambda>t. t\<lparr>af_contributes := contributes_to_load t, af_state := TASK_WAKING\<rparr>) s1
            in case select_task_rq e p SD_BALANCE_WAKE s2 of
                 (None, s3) \<Rightarrow> None
               | (Some cpu, s3) \<Rightarrow>
                   let s4 = (if af_cpu (af_tasks s3 p) \<noteq> cpu then set_task_cpu_mp p cpu s3 else s3)
                   in Some (True, ttwu_queue_mp e me p cpu s4))"

definition wake_up_new_task_mp :: "'c aff_env \<Rightarrow> tid \<Rightarrow> 'c aff \<Rightarrow> 'c aff option" where
  "wake_up_new_task_mp e p s =
     (case select_task_rq e p SD_BALANCE_FORK s of
        (None, s1) \<Rightarrow> None
      | (Some cpu, s1) \<Rightarrow>
          let s2 = set_task_cpu_mp p cpu s1;
              s3 = upd_aff p (af_on_rq_update (\<lambda>_. True)) (activate_task_mp e cpu p s2);
              s4 = class_data_update (cl_preempt e cpu p) s3
          in Some (cl_woken e cpu p s4))"

definition kick_process :: "nat \<Rightarrow> tid \<Rightarrow> 'c aff \<Rightarrow> 'c aff" where
  "kick_process me p s =
     (let cpu = af_cpu (af_tasks s p)
      in if cpu \<noteq> me \<and> aq_curr (af_rqs s cpu) = p then s\<lparr>af_ipis := af_ipis s @ [cpu]\<rparr> else s)"

section \<open>Scheduling\<close>

text \<open>
  The steps of \<^verbatim>\<open>__schedule()\<close> that concern this state. \<open>sig\<close> is what \<^verbatim>\<open>signal_pending_state()\<close> says, \<open>preempted\<close>
  whether \<^verbatim>\<open>PREEMPT_ACTIVE\<close> is set.
\<close>

definition schedule_mp :: "'c aff_env \<Rightarrow> nat \<Rightarrow> bool \<Rightarrow> bool \<Rightarrow> 'c aff \<Rightarrow> 'c aff" where
  "schedule_mp e c sig preempted s =
     (let prev = aq_curr (af_rqs s c);
          s1 = (if af_state (af_tasks s prev) \<noteq> 0 \<and> \<not> preempted
                then if sig then upd_aff prev (af_state_update (\<lambda>_. TASK_RUNNING)) s
                     else upd_aff prev (af_on_rq_update (\<lambda>_. False)) (deactivate_task_mp e c prev s)
                else s);
          s2 = class_data_update (cl_put_prev e c prev) (cl_pull e c prev s1);
          (nxt, k) = cl_pick e c (aq_stop (af_rqs s2 c)) (class_data s2);
          s3 = s2\<lparr>class_data := k\<rparr>;
          s4 = (if nxt = prev then s3
                else upd_aff prev (af_on_cpu_update (\<lambda>_. False))
                       (upd_aff nxt (af_on_cpu_update (\<lambda>_. True)) (upd_aff_rq c (aq_curr_update (\<lambda>_. nxt)) s3)))
      in cl_post e c s4)"

section \<open>Changing the mask of a task\<close>

text \<open>
  \<^verbatim>\<open>set_cpus_allowed_ptr()\<close> up to its call of \<^verbatim>\<open>stop_one_cpu()\<close>, which is the second value; \<open>cur\<close> is the
  task that calls it. The value \<open>None\<close> of an error is 0.
\<close>

definition set_cpus_allowed_ptr ::
  "'c aff_env \<Rightarrow> tid \<Rightarrow> tid \<Rightarrow> cpumask \<Rightarrow> 'c aff \<Rightarrow> errno option \<times> stop_work option \<times> 'c aff" where
  "set_cpus_allowed_ptr e cur p m s =
     (if af_allowed (af_tasks s p) = m then (None, None, s)
      else if first_cpu e (m \<inter> active_mask s) = ncpus e then (Some EINVAL, None, s)
      else if af_bound (af_tasks s p) \<and> p \<noteq> cur then (Some EINVAL, None, s)
      else
        let s1 = do_set_cpus_allowed_mp e p m s;
            cpu = af_cpu (af_tasks s1 p)
        in if cpu \<in> m then (None, None, s1)
           else
             let dest = first_cpu e (active_mask s1 \<inter> m)
             in if af_on_rq (af_tasks s1 p) then (None, Some (p, cpu, dest), s1) else (None, None, s1))"

definition migrate_task_mp :: "'c aff_env \<Rightarrow> tid \<Rightarrow> nat \<Rightarrow> nat \<Rightarrow> 'c aff \<Rightarrow> bool \<times> 'c aff" where
  "migrate_task_mp e p src dest s =
     (if dest \<notin> active_mask s then (False, s)
      else if af_cpu (af_tasks s p) \<noteq> src then (True, s)
      else if dest \<notin> af_allowed (af_tasks s p) then (False, s)
      else if af_on_rq (af_tasks s p)
      then (True, class_data_update (cl_preempt e dest p)
                    (class_data_update (cl_enqueue e dest p)
                      (set_task_cpu_mp p dest (class_data_update (cl_dequeue e src p) s))))
      else (True, s))"

text \<open>The stop thread of processor \<open>c\<close> runs, \<open>src\<close> in the work says which one was asked.\<close>

definition migration_cpu_stop :: "'c aff_env \<Rightarrow> nat \<Rightarrow> stop_work \<Rightarrow> 'c aff \<Rightarrow> 'c aff" where
  "migration_cpu_stop e c w s = (case w of (p, src, dest) \<Rightarrow> snd (migrate_task_mp e p c dest s))"

definition sched_exec :: "'c aff_env \<Rightarrow> nat \<Rightarrow> 'c aff \<Rightarrow> stop_work option" where
  "sched_exec e me s =
     (let p = aq_curr (af_rqs s me);
          dest = class_select_rq e p SD_BALANCE_EXEC s
      in if dest = me then None
         else if dest \<in> active_mask s then Some (p, af_cpu (af_tasks s p), dest) else None)"

section \<open>Taking processors up and down\<close>

definition migrate_nr_uninterruptible :: "'c aff_env \<Rightarrow> nat \<Rightarrow> 'c aff \<Rightarrow> 'c aff" where
  "migrate_nr_uninterruptible e src s =
     (let dest = first_cpu e (active_mask s);
          s1 = upd_aff_rq dest (aq_nr_unint_update (\<lambda>n. n + aq_nr_unint (af_rqs s src))) s
      in upd_aff_rq src (aq_nr_unint_update (\<lambda>_. 0)) s1)"

definition calc_global_load_remove :: "nat \<Rightarrow> 'c aff \<Rightarrow> 'c aff" where
  "calc_global_load_remove c s =
     upd_aff_rq c (aq_load_active_update (\<lambda>_. 0))
       (af_calc_load_tasks_update (\<lambda>n. n - aq_load_active (af_rqs s c)) s)"

text \<open>
  The loop of \<^verbatim>\<open>migrate_tasks()\<close>: not to return is \<open>None\<close>, its \<^verbatim>\<open>BUG()\<close> is \<open>Some None\<close>. That
  \<^verbatim>\<open>pick_next_task()\<close> always finds a task is its own property.
\<close>

partial_function (option) migrate_tasks_loop :: "'c aff_env \<Rightarrow> nat \<Rightarrow> 'c aff \<Rightarrow> 'c aff option option" where
  "migrate_tasks_loop e c s =
     (if cl_nr_running e c (class_data s) = 1 then Some (Some s)
      else
        let (p, k) = cl_pick e c (aq_stop (af_rqs s c)) (class_data s);
            s1 = s\<lparr>class_data := cl_put_prev e c p k\<rparr>
        in case select_fallback_rq e c p s1 of
             (None, s2) \<Rightarrow> Some None
           | (Some dest, s2) \<Rightarrow> migrate_tasks_loop e c (snd (migrate_task_mp e p c dest s2)))"

definition migrate_tasks :: "'c aff_env \<Rightarrow> nat \<Rightarrow> 'c aff \<Rightarrow> 'c aff option option" where
  "migrate_tasks e c s =
     (let s1 = class_data_update (cl_unthrottle e c) (upd_aff_rq c (aq_stop_update (\<lambda>_. None)) s)
      in map_option (map_option (upd_aff_rq c (aq_stop_update (\<lambda>_. aq_stop (af_rqs s c))))) (migrate_tasks_loop e c s1))"

definition set_rq_online_mp :: "'c aff_env \<Rightarrow> nat \<Rightarrow> 'c aff \<Rightarrow> 'c aff" where
  "set_rq_online_mp e c s =
     (if \<not> aq_online (af_rqs s c)
      then class_data_update (cl_rq_online e c)
             (upd_aff_rq c (aq_online_update (\<lambda>_. True)) (rd_online_update (insert c) s))
      else s)"

definition set_rq_offline_mp :: "'c aff_env \<Rightarrow> nat \<Rightarrow> 'c aff \<Rightarrow> 'c aff" where
  "set_rq_offline_mp e c s =
     (if aq_online (af_rqs s c)
      then upd_aff_rq c (aq_online_update (\<lambda>_. False))
             (rd_online_update (\<lambda>m. m - {c}) (class_data_update (cl_rq_offline e c) s))
      else s)"

text \<open>
  The notifiers; an action stands for itself and for its variant with \<^verbatim>\<open>CPU_TASKS_FROZEN\<close>.
  \<^verbatim>\<open>update_max_interval()\<close> belongs to the fair class and is left out.
\<close>

datatype notifier_action = Cpu_Up_Prepare | Cpu_Starting | Cpu_Online | Cpu_Down_Prepare | Cpu_Down_Failed
  | Cpu_Dying | Cpu_Other

text \<open>The end of the case \<^verbatim>\<open>CPU_DYING\<close> of \<^verbatim>\<open>migration_call()\<close>.\<close>

definition migrate_dying :: "'c aff_env \<Rightarrow> nat \<Rightarrow> 'c aff \<Rightarrow> 'c aff option option" where
  "migrate_dying e c s =
     Option.bind (migrate_tasks e c s) (\<lambda>r. Some (Option.bind r (\<lambda>s1.
       if cl_nr_running e c (class_data s1) \<noteq> 1 then None
       else Some (calc_global_load_remove c (migrate_nr_uninterruptible e c s1)))))"

definition migration_call :: "'c aff_env \<Rightarrow> notifier_action \<Rightarrow> nat \<Rightarrow> 'c aff \<Rightarrow> 'c aff option option" where
  "migration_call e action c s =
     (case action of
        Cpu_Up_Prepare \<Rightarrow> Some (Some (upd_aff_rq c (aq_load_update_update (\<lambda>_. af_calc_load_update s)) s))
      | Cpu_Online \<Rightarrow>
          (case aq_span (af_rqs s c) of
             None \<Rightarrow> Some (Some s)
           | Some span \<Rightarrow> if c \<notin> span then Some None else Some (Some (set_rq_online_mp e c s)))
      | Cpu_Dying \<Rightarrow>
          (let s1 = sched_ttwu_pending e c s
           in case aq_span (af_rqs s1 c) of
                Some span \<Rightarrow> if c \<notin> span then Some None else migrate_dying e c (set_rq_offline_mp e c s1)
              | None \<Rightarrow> migrate_dying e c s1)
      | _ \<Rightarrow> Some (Some s))"

definition sched_cpu_active :: "notifier_action \<Rightarrow> nat \<Rightarrow> 'c aff \<Rightarrow> 'c aff" where
  "sched_cpu_active action c s =
     (if action = Cpu_Starting \<or> action = Cpu_Down_Failed then s\<lparr>active_mask := insert c (active_mask s)\<rparr> else s)"

definition sched_cpu_inactive :: "notifier_action \<Rightarrow> nat \<Rightarrow> 'c aff \<Rightarrow> 'c aff" where
  "sched_cpu_inactive action c s =
     (if action = Cpu_Down_Prepare then s\<lparr>active_mask := active_mask s - {c}\<rparr> else s)"

end
