(* ===== verification/Affinity_Inv.thy ===== *)
theory Affinity_Inv
  imports Affinity Rt_Inv
begin

text \<open>
  What the scheduling classes are relied upon to do, the invariant of the tasks and processors,
  and how the elementary changes keep it.
\<close>

section \<open>What the classes promise\<close>

text \<open>
  \<open>Q c k\<close> are the tasks on the queues of processor \<open>c\<close>. Queueing adds and removes one task, every
  other operation keeps the tasks where they are, and the hooks around scheduling may move tasks
  that wait to other processors they may run on.
\<close>

definition keeps_queues :: "(nat \<Rightarrow> 'c \<Rightarrow> tid set) \<Rightarrow> ('c \<Rightarrow> 'c) \<Rightarrow> bool" where
  "keeps_queues Q f \<longleftrightarrow> (\<forall>c k. Q c (f k) = Q c k)"

definition linked :: "(nat \<Rightarrow> 'c \<Rightarrow> tid set) \<Rightarrow> 'c aff \<Rightarrow> bool" where
  "linked Q s \<longleftrightarrow> (\<forall>c. Q c (class_data s) = {p. af_on_rq (af_tasks s p) \<and> af_cpu (af_tasks s p) = c})"

definition rebalanced :: "'c aff_env \<Rightarrow> (nat \<Rightarrow> 'c \<Rightarrow> tid set) \<Rightarrow> 'c aff \<Rightarrow> 'c aff \<Rightarrow> bool" where
  "rebalanced e Q s s' \<longleftrightarrow>
     (\<exists>ts k is. s' = s\<lparr>af_tasks := ts, class_data := k, af_ipis := is\<rparr>) \<and> linked Q s' \<and>
     (\<forall>p. (\<exists>c n. af_tasks s' p = (af_tasks s p)\<lparr>af_cpu := c, af_migrations := n\<rparr>) \<and>
          (af_cpu (af_tasks s' p) \<noteq> af_cpu (af_tasks s p) \<longrightarrow>
             af_on_rq (af_tasks s p) \<and> \<not> af_on_cpu (af_tasks s p) \<and> (\<forall>c. p \<noteq> stopper_of e c) \<and>
             af_cpu (af_tasks s' p) \<in> online_mask s \<inter> af_allowed (af_tasks s p)))"

definition balances :: "'c aff_env \<Rightarrow> (nat \<Rightarrow> 'c \<Rightarrow> tid set) \<Rightarrow> ('c aff \<Rightarrow> 'c aff) \<Rightarrow> bool" where
  "balances e Q f \<longleftrightarrow> (\<forall>s. linked Q s \<longrightarrow> rebalanced e Q s (f s))"

definition classes_ok :: "'c aff_env \<Rightarrow> (nat \<Rightarrow> 'c \<Rightarrow> tid set) \<Rightarrow> bool" where
  "classes_ok e Q \<longleftrightarrow>
     (\<forall>c p k. p < PID_MAX_LIMIT \<and> (\<forall>d. p \<notin> Q d k) \<longrightarrow> (\<forall>d. Q d (cl_enqueue e c p k) = (if d = c then insert p (Q c k) else Q d k))) \<and>
     (\<forall>c p k. p \<in> Q c k \<longrightarrow> (\<forall>d. Q d (cl_dequeue e c p k) = (if d = c then Q c k - {p} else Q d k))) \<and>
     (\<forall>c p. keeps_queues Q (cl_put_prev e c p) \<and> keeps_queues Q (cl_preempt e c p)) \<and>
     (\<forall>p m. keeps_queues Q (cl_set_allowed e p m)) \<and>
     (\<forall>c. keeps_queues Q (cl_rq_online e c) \<and> keeps_queues Q (cl_rq_offline e c) \<and>
          keeps_queues Q (cl_unthrottle e c)) \<and>
     (\<forall>c st. keeps_queues Q (\<lambda>k. snd (cl_pick e c st k))) \<and>
     (\<forall>c st k. fst (cl_pick e c st k) \<in> insert (idle_of e c) (Q c k)) \<and>
     (\<forall>c k. finite (Q c k) \<and> cl_nr_running e c k = of_nat (card (Q c k))) \<and>
     (\<forall>c f s. cl_select e (stopper_of e c) f s = af_cpu (af_tasks s (stopper_of e c))) \<and>
     (\<forall>c p. balances e Q (cl_pull e c p) \<and> balances e Q (cl_post e c) \<and> balances e Q (cl_woken e c p))"

text \<open>Without \<^verbatim>\<open>rq->stop\<close>, \<^verbatim>\<open>pick_next_task()\<close> does not find the stop thread.\<close>

definition stop_hidden :: "'c aff_env \<Rightarrow> bool" where
  "stop_hidden e \<longleftrightarrow> (\<forall>c k. fst (cl_pick e c None k) \<noteq> stopper_of e c)"

lemma classes_okD:
  assumes "classes_ok e Q"
  shows "p < PID_MAX_LIMIT \<Longrightarrow> (\<And>d. p \<notin> Q d k) \<Longrightarrow> Q d (cl_enqueue e c p k) = (if d = c then insert p (Q c k) else Q d k)"
    and "p \<in> Q c k \<Longrightarrow> Q d (cl_dequeue e c p k) = (if d = c then Q c k - {p} else Q d k)"
    and "Q d (cl_put_prev e c p k) = Q d k" and "Q d (cl_preempt e c p k) = Q d k"
    and "Q d (cl_set_allowed e p m k) = Q d k" and "Q d (cl_rq_online e c k) = Q d k"
    and "Q d (cl_rq_offline e c k) = Q d k" and "Q d (cl_unthrottle e c k) = Q d k"
    and "Q d (snd (cl_pick e c st k)) = Q d k" and "fst (cl_pick e c st k) \<in> insert (idle_of e c) (Q c k)"
    and "finite (Q c k)" and "cl_nr_running e c k = of_nat (card (Q c k))"
    and "cl_select e (stopper_of e c) f s = af_cpu (af_tasks s (stopper_of e c))"
    and "linked Q s \<Longrightarrow> rebalanced e Q s (cl_pull e c p s)" and "linked Q s \<Longrightarrow> rebalanced e Q s (cl_post e c s)"
    and "linked Q s \<Longrightarrow> rebalanced e Q s (cl_woken e c p s)"
  using assms unfolding classes_ok_def keeps_queues_def balances_def by simp_all

section \<open>The invariant\<close>

text \<open>
  \<open>W\<close> are tasks in the middle of a wake-up, which have a processor but are neither on a queue nor
  on the list of tasks to be woken; \<open>D\<close> holds the processor that is being taken down. Between
  two operations both are empty. \<open>E\<close> are the tasks that have gone astray: the code has lost track of
  them, as \<open>aff_run\<close> says.
\<close>

definition in_transit :: "tid set \<Rightarrow> 'c aff \<Rightarrow> tid \<Rightarrow> bool" where
  "in_transit W s p \<longleftrightarrow> p \<in> W \<or> p \<in> set (wake_list (af_rqs s (af_cpu (af_tasks s p))))"

definition cpus_ok :: "'c aff_env \<Rightarrow> nat set \<Rightarrow> 'c aff \<Rightarrow> bool" where
  "cpus_ok e D s \<longleftrightarrow> active_mask s \<noteq> {} \<and> active_mask s \<subseteq> online_mask s \<and> online_mask s \<subseteq> possible_mask e \<and>
     D \<subseteq> possible_mask e \<and> D \<inter> active_mask s = {} \<and> possible_mask e \<subseteq> {..<ncpus e}"

text \<open>
  A task may wait on a processor it must not use only while a stop thread has work for it, or when it
  has gone astray.
\<close>

definition placed :: "tid set \<Rightarrow> nat set \<Rightarrow> 'c aff \<Rightarrow> tid \<Rightarrow> bool" where
  "placed E D s p \<longleftrightarrow>
     af_cpu (af_tasks s p) \<in> D \<or>
     af_cpu (af_tasks s p) \<in> online_mask s \<and>
       (af_cpu (af_tasks s p) \<in> af_allowed (af_tasks s p) \<or> p \<in> E \<or>
        (\<exists>d. (p, af_cpu (af_tasks s p), d) \<in> set (stop_works s) \<and>
             d \<in> af_allowed (af_tasks s p) \<and> d \<in> active_mask s))"

definition tasks_ok :: "'c aff_env \<Rightarrow> tid set \<Rightarrow> nat set \<Rightarrow> 'c aff \<Rightarrow> bool" where
  "tasks_ok e E D s \<longleftrightarrow>
     (\<forall>p. af_on_rq (af_tasks s p) \<longrightarrow> p < PID_MAX_LIMIT \<and> ((\<forall>c. p \<noteq> stopper_of e c) \<longrightarrow> placed E D s p)) \<and>
     (\<forall>p. af_nr_allowed (af_tasks s p) = mask_weight e (af_allowed (af_tasks s p)))"

definition transit_ok :: "tid set \<Rightarrow> tid set \<Rightarrow> nat set \<Rightarrow> 'c aff \<Rightarrow> bool" where
  "transit_ok E W D s \<longleftrightarrow>
     (\<forall>c. distinct (wake_list (af_rqs s c)) \<and>
       (\<forall>p \<in> set (wake_list (af_rqs s c)). af_cpu (af_tasks s p) = c \<and> af_state (af_tasks s p) = TASK_WAKING \<and> p \<notin> W)) \<and>
     (\<forall>p. in_transit W s p \<longrightarrow> p < PID_MAX_LIMIT \<and> \<not> af_on_rq (af_tasks s p) \<and> \<not> af_on_cpu (af_tasks s p) \<and>
        (af_cpu (af_tasks s p) \<in> D \<or>
          af_cpu (af_tasks s p) \<in> online_mask s \<and> (af_cpu (af_tasks s p) \<in> af_allowed (af_tasks s p) \<or> p \<in> E)))"

definition threads_fixed :: "'c aff_env \<Rightarrow> 'c aff \<Rightarrow> bool" where
  "threads_fixed e s \<longleftrightarrow> inj (idle_of e) \<and> (\<forall>c d. idle_of e c \<noteq> stopper_of e d) \<and>
     (\<forall>c. \<not> af_on_rq (af_tasks s (idle_of e c)) \<and> af_state (af_tasks s (idle_of e c)) = TASK_RUNNING) \<and>
     (\<forall>c. af_cpu (af_tasks s (stopper_of e c)) = c \<and> af_allowed (af_tasks s (stopper_of e c)) = {c} \<and>
          af_bound (af_tasks s (stopper_of e c)) \<and> \<not> af_wrr (af_tasks s (stopper_of e c))) \<and>
     (\<forall>(p, src, d) \<in> set (stop_works s). \<forall>c. p \<noteq> stopper_of e c)"

definition running_ok :: "'c aff_env \<Rightarrow> 'c aff \<Rightarrow> bool" where
  "running_ok e s \<longleftrightarrow>
     (\<forall>c. af_on_rq (af_tasks s (aq_curr (af_rqs s c))) \<longrightarrow> af_cpu (af_tasks s (aq_curr (af_rqs s c))) = c) \<and>
     inj (\<lambda>c. aq_curr (af_rqs s c)) \<and> (\<forall>c d. aq_curr (af_rqs s c) = idle_of e d \<longrightarrow> c = d) \<and>
     (\<forall>p. af_on_cpu (af_tasks s p) \<longleftrightarrow> (\<exists>c. aq_curr (af_rqs s c) = p))"

text \<open>A task that is not queued counts as uninterruptible from when it went to sleep until it is queued.\<close>

definition sleeping_load :: "tid set \<Rightarrow> 'c aff \<Rightarrow> tid set" where
  "sleeping_load W s =
     {p. p < PID_MAX_LIMIT \<and> \<not> af_on_rq (af_tasks s p) \<and>
        (if in_transit W s p then af_contributes (af_tasks s p) else contributes_to_load (af_tasks s p))}"

definition load_ok :: "'c aff_env \<Rightarrow> tid set \<Rightarrow> 'c aff \<Rightarrow> bool" where
  "load_ok e W s \<longleftrightarrow>
     cpu_sum e (possible_mask e) (\<lambda>c. aq_nr_unint (af_rqs s c)) = of_nat (card (sleeping_load W s))"

definition aff_inv_at :: "'c aff_env \<Rightarrow> (nat \<Rightarrow> 'c \<Rightarrow> tid set) \<Rightarrow> tid set \<Rightarrow> tid set \<Rightarrow> nat set \<Rightarrow> 'c aff \<Rightarrow> bool" where
  "aff_inv_at e Q E W D s \<longleftrightarrow> linked Q s \<and> cpus_ok e D s \<and> tasks_ok e E D s \<and> transit_ok E W D s \<and>
     threads_fixed e s \<and> running_ok e s \<and> load_ok e W s"

text \<open>Outside of \<^verbatim>\<open>__schedule()\<close> every processor runs its idle task or one of its queue.\<close>

definition resting :: "'c aff_env \<Rightarrow> 'c aff \<Rightarrow> bool" where
  "resting e s \<longleftrightarrow> (\<forall>c. aq_curr (af_rqs s c) = idle_of e c \<or> af_on_rq (af_tasks s (aq_curr (af_rqs s c))))"

definition aff_inv :: "'c aff_env \<Rightarrow> (nat \<Rightarrow> 'c \<Rightarrow> tid set) \<Rightarrow> tid set \<Rightarrow> 'c aff \<Rightarrow> bool" where
  "aff_inv e Q E s \<longleftrightarrow> aff_inv_at e Q E {} {} s \<and> resting e s"

definition grows :: "'c aff \<Rightarrow> 'c aff \<Rightarrow> bool" where
  "grows s s' \<longleftrightarrow>
     (\<forall>c. aq_curr (af_rqs s' c) = aq_curr (af_rqs s c) \<and> aq_span (af_rqs s' c) = aq_span (af_rqs s c)) \<and>
     (\<forall>p. af_on_rq (af_tasks s p) \<longrightarrow> af_on_rq (af_tasks s' p))"

lemma grows_refl [simp]: "grows s s" by (simp add: grows_def)

lemma grows_trans: "grows s s' \<Longrightarrow> grows s' s'' \<Longrightarrow> grows s s''" by (simp add: grows_def)

lemma resting_grows: "resting e s \<Longrightarrow> grows s s' \<Longrightarrow> resting e s'" by (auto simp: resting_def grows_def)

lemma aff_inv_grows: "aff_inv e Q E s \<Longrightarrow> aff_inv_at e Q E {} {} s' \<Longrightarrow> grows s s' \<Longrightarrow> aff_inv e Q E s'"
  using resting_grows by (auto simp: aff_inv_def)

lemma aff_invD:
  assumes "aff_inv_at e Q E W D s"
  shows "linked Q s" "cpus_ok e D s" "tasks_ok e E D s" "transit_ok E W D s" "threads_fixed e s" "running_ok e s"
    "load_ok e W s"
  using assms by (auto simp: aff_inv_at_def)

lemma placed_mono: "placed E D s p \<Longrightarrow> (p \<in> E \<Longrightarrow> p \<in> E') \<Longrightarrow> placed E' D s p"
  by (auto simp: placed_def)

text \<open>Only tasks that are on a queue or about to be, on a processor they must not use, need to be in \<open>E\<close>.\<close>

definition astray :: "'c aff \<Rightarrow> tid \<Rightarrow> bool" where
  "astray s p \<longleftrightarrow> af_cpu (af_tasks s p) \<notin> af_allowed (af_tasks s p) \<and> (af_on_rq (af_tasks s p) \<or> in_transit {} s p)"

lemma aff_inv_at_astray:
  assumes "aff_inv_at e Q E {} D s" and "\<And>p. p \<in> E \<Longrightarrow> astray s p \<Longrightarrow> p \<in> E'"
  shows "aff_inv_at e Q E' {} D s"
proof -
  note I = aff_invD [OF assms(1)]
  have "placed E' D s p" if "af_on_rq (af_tasks s p)" "placed E D s p" for p
    using that assms(2) [of p] by (auto simp: placed_def astray_def)
  then have "tasks_ok e E' D s" using I(3) by (simp add: tasks_ok_def)
  moreover have "transit_ok E' {} D s" using I(4) assms(2) unfolding transit_ok_def astray_def by blast
  ultimately show ?thesis using I by (simp add: aff_inv_at_def)
qed

lemma aff_inv_astray:
  "aff_inv e Q E s \<Longrightarrow> (\<And>p. p \<in> E \<Longrightarrow> astray s p \<Longrightarrow> p \<in> E') \<Longrightarrow> aff_inv e Q E' s"
  using aff_inv_at_astray unfolding aff_inv_def by blast

lemma aff_inv_mono: "aff_inv e Q E s \<Longrightarrow> E \<subseteq> E' \<Longrightarrow> aff_inv e Q E' s"
  using aff_inv_astray by blast

lemma finite_sleeping_load [simp]: "finite (sleeping_load W s)"
  by (rule finite_subset [of _ "{..<PID_MAX_LIMIT}"]) (auto simp: sleeping_load_def)

lemma cpu_sum_upd:
  assumes "c \<in> m" and "c < ncpus e"
  shows "cpu_sum e m (f(c := f c + x)) = cpu_sum e m f + x"
proof -
  have "distinct xs \<Longrightarrow> sum_list (map (f(c := f c + x)) xs) = sum_list (map f xs) + (if c \<in> set xs then x else 0)" for xs
    by (induction xs) auto
  from this [of "filter (\<lambda>c. c \<in> m) [0..<ncpus e]"] show ?thesis using assms by (simp add: cpu_sum_def)
qed

lemma waiting_of:
  assumes "linked Q s"
  shows "p \<in> Q c (class_data s) \<longleftrightarrow> af_on_rq (af_tasks s p) \<and> af_cpu (af_tasks s p) = c"
  using assms by (auto simp: linked_def)

section \<open>Changes that keep it\<close>

lemma cpus_ok_cong:
  assumes "online_mask s' = online_mask s" and "active_mask s' = active_mask s"
  shows "cpus_ok e D s' = cpus_ok e D s"
  using assms by (simp add: cpus_ok_def)

text \<open>What only the classes, the interrupts sent and the notices see is no part of it.\<close>

lemma inv_class:
  assumes "aff_inv_at e Q E W D s" and "\<And>c. Q c k = Q c (class_data s)"
  shows "aff_inv_at e Q E W D (s\<lparr>class_data := k, af_ipis := i, notices := n\<rparr>)" (is "aff_inv_at e Q E W D ?s")
proof -
  have same: "af_tasks ?s = af_tasks s" "af_rqs ?s = af_rqs s" "online_mask ?s = online_mask s"
    "active_mask ?s = active_mask s" "stop_works ?s = stop_works s"
    by simp_all
  have "in_transit W ?s = in_transit W s" "placed E D ?s = placed E D s"
    by (rule ext, simp only: in_transit_def placed_def same)+
  then show ?thesis
    using aff_invD [OF assms(1)] assms(2) unfolding aff_inv_at_def
    by (simp only: linked_def cpus_ok_def tasks_ok_def transit_ok_def threads_fixed_def running_ok_def
        load_ok_def sleeping_load_def same) simp
qed

lemma rebalancedD:
  assumes "rebalanced e Q s s'"
  shows "linked Q s'" "online_mask s' = online_mask s" "active_mask s' = active_mask s" "stop_works s' = stop_works s"
    "af_rqs s' = af_rqs s" "rd_online s' = rd_online s"
    "af_calc_load_tasks s' = af_calc_load_tasks s" "af_calc_load_update s' = af_calc_load_update s"
    "\<exists>c n. af_tasks s' p = (af_tasks s p)\<lparr>af_cpu := c, af_migrations := n\<rparr>"
    "af_cpu (af_tasks s' p) \<noteq> af_cpu (af_tasks s p) \<Longrightarrow>
       af_on_rq (af_tasks s p) \<and> \<not> af_on_cpu (af_tasks s p) \<and> (\<forall>c. p \<noteq> stopper_of e c) \<and>
       af_cpu (af_tasks s' p) \<in> online_mask s \<inter> af_allowed (af_tasks s p)"
  using assms unfolding rebalanced_def by auto

lemma rebalanced_task:
  assumes "rebalanced e Q s s'"
  shows "af_state (af_tasks s' p) = af_state (af_tasks s p)" "af_frozen (af_tasks s' p) = af_frozen (af_tasks s p)"
    "af_allowed (af_tasks s' p) = af_allowed (af_tasks s p)"
    "af_nr_allowed (af_tasks s' p) = af_nr_allowed (af_tasks s p)"
    "af_on_rq (af_tasks s' p) = af_on_rq (af_tasks s p)" "af_on_cpu (af_tasks s' p) = af_on_cpu (af_tasks s p)"
    "af_bound (af_tasks s' p) = af_bound (af_tasks s p)" "af_mm (af_tasks s' p) = af_mm (af_tasks s p)"
    "af_wrr (af_tasks s' p) = af_wrr (af_tasks s p)"
    "af_contributes (af_tasks s' p) = af_contributes (af_tasks s p)"
    "af_nvcsw (af_tasks s' p) = af_nvcsw (af_tasks s p)"
    "contributes_to_load (af_tasks s' p) = contributes_to_load (af_tasks s p)"
  using rebalancedD(9) [OF assms, of p] by (auto simp: contributes_to_load_def)

lemma inv_rebalanced:
  assumes inv: "aff_inv_at e Q E W D s" and r: "rebalanced e Q s s'"
  shows "aff_inv_at e Q E W D s'"
proof -
  note D = aff_invD [OF inv] and same = rebalancedD(2-8) [OF r] and t = rebalanced_task [OF r]
  have stay: "\<not> af_on_rq (af_tasks s p) \<or> af_on_cpu (af_tasks s p) \<or> p = stopper_of e c \<Longrightarrow>
      af_cpu (af_tasks s' p) = af_cpu (af_tasks s p)" for p c
    using rebalancedD(10) [OF r, of p] by blast
  have transit: "in_transit W s' p = in_transit W s p" for p
  proof (cases "af_on_rq (af_tasks s p)")
    case True
    have "\<not> in_transit W s p" using True D(4) by (auto simp: transit_ok_def)
    moreover have "p \<notin> set (wake_list (af_rqs s c))" for c
      using True D(4) by (fastforce simp: transit_ok_def in_transit_def)
    ultimately show ?thesis using same by (simp add: in_transit_def)
  qed (simp add: in_transit_def stay same)
  have placed: "placed E D s' p" if "placed E D s p" for p
    using that rebalancedD(10) [OF r, of p] by (cases "af_cpu (af_tasks s' p) = af_cpu (af_tasks s p)")
      (auto simp: placed_def same t)
  have "tasks_ok e E D s'" using D(3) placed by (simp add: tasks_ok_def t)
  moreover have "transit_ok E W D s'"
  proof -
    have "af_cpu (af_tasks s' p) = af_cpu (af_tasks s p)" if "in_transit W s p" for p
      using D(4) that stay [of p] by (simp add: transit_ok_def)
    moreover have "in_transit W s p" if "p \<in> set (wake_list (af_rqs s c))" for p c
      using D(4) that by (auto simp: transit_ok_def in_transit_def)
    ultimately show ?thesis using D(4) by (simp add: transit_ok_def transit same t)
  qed
  moreover have "threads_fixed e s'"
  proof -
    have "af_cpu (af_tasks s' (stopper_of e c)) = af_cpu (af_tasks s (stopper_of e c))" for c
      using stay by blast
    then show ?thesis using D(5) by (simp add: threads_fixed_def same t)
  qed
  moreover have "running_ok e s'"
  proof -
    have "af_cpu (af_tasks s' (aq_curr (af_rqs s c))) = af_cpu (af_tasks s (aq_curr (af_rqs s c)))" for c
      using D(6) stay by (metis running_ok_def)
    then show ?thesis using D(6) by (simp add: running_ok_def same t)
  qed
  moreover have "load_ok e W s'" using D(7) by (simp add: load_ok_def sleeping_load_def same t transit)
  ultimately show ?thesis
    using D(2) rebalancedD(1) [OF r] by (simp add: aff_inv_at_def cpus_ok_def same)
qed

lemma grows_rebalanced: "rebalanced e Q s s' \<Longrightarrow> grows s s'"
  by (simp add: grows_def rebalancedD rebalanced_task)

end
