(* ===== verification/Affinity_Steps.thy ===== *)
theory Affinity_Steps
  imports Affinity_Inv
begin

text \<open>
  How the operations keep the invariant: choosing a processor, waking up, scheduling, changing
  masks and moving a task.
\<close>

section \<open>Choosing a processor\<close>

text \<open>The choice may widen the mask of the task; nothing else changes.\<close>

definition mask_changed :: "'c aff_env \<Rightarrow> tid \<Rightarrow> 'c aff \<Rightarrow> 'c aff \<Rightarrow> bool" where
  "mask_changed e p s s' \<longleftrightarrow>
     (\<exists>m n ms. s' = s\<lparr>af_tasks := (af_tasks s)(p := (af_tasks s p)\<lparr>af_allowed := m, af_nr_allowed := mask_weight e m\<rparr>),
        class_data := fold (cl_set_allowed e p) ms (class_data s), notices := n\<rparr>)"

definition weighed :: "'c aff_env \<Rightarrow> tid \<Rightarrow> 'c aff \<Rightarrow> bool" where
  "weighed e p s \<longleftrightarrow> af_nr_allowed (af_tasks s p) = mask_weight e (af_allowed (af_tasks s p))"

lemma mask_changed_refl:
  assumes "weighed e p s"
  shows "mask_changed e p s s"
proof -
  have "s = s\<lparr>af_tasks := (af_tasks s)(p := (af_tasks s p)\<lparr>af_allowed := af_allowed (af_tasks s p),
        af_nr_allowed := mask_weight e (af_allowed (af_tasks s p))\<rparr>),
      class_data := fold (cl_set_allowed e p) [] (class_data s), notices := notices s\<rparr>"
    by (simp add: assms [unfolded weighed_def, symmetric])
  then show ?thesis unfolding mask_changed_def by blast
qed

lemma mask_changed_set:
  assumes "mask_changed e p s s'"
  shows "mask_changed e p s (do_set_cpus_allowed_mp e p m s')"
proof -
  obtain m0 n ms where s': "s' = s\<lparr>af_tasks := (af_tasks s)(p := (af_tasks s p)\<lparr>af_allowed := m0, af_nr_allowed := mask_weight e m0\<rparr>),
      class_data := fold (cl_set_allowed e p) ms (class_data s), notices := n\<rparr>"
    using assms unfolding mask_changed_def by blast
  have "do_set_cpus_allowed_mp e p m s' =
      s\<lparr>af_tasks := (af_tasks s)(p := (af_tasks s p)\<lparr>af_allowed := m, af_nr_allowed := mask_weight e m\<rparr>),
        class_data := fold (cl_set_allowed e p) (ms @ [m]) (class_data s), notices := n\<rparr>"
    by (simp add: do_set_cpus_allowed_mp_def s')
  then show ?thesis unfolding mask_changed_def by blast
qed

lemma mask_changed_notices: "mask_changed e p s s' \<Longrightarrow> mask_changed e p s (s'\<lparr>notices := n\<rparr>)"
  unfolding mask_changed_def by (elim exE, rule exI, rule exI [of _ n], rule exI) simp

lemma mask_changedD:
  assumes "mask_changed e p s s'"
  shows "online_mask s' = online_mask s" "active_mask s' = active_mask s" "af_rqs s' = af_rqs s"
    "stop_works s' = stop_works s" "q \<noteq> p \<Longrightarrow> af_tasks s' q = af_tasks s q"
    "\<exists>m. af_tasks s' p = (af_tasks s p)\<lparr>af_allowed := m, af_nr_allowed := mask_weight e m\<rparr>"
    "\<exists>ms. class_data s' = fold (cl_set_allowed e p) ms (class_data s)"
    "weighed e p s'"
  using assms unfolding mask_changed_def by (auto simp: weighed_def)

lemma fold_set_allowed:
  assumes "classes_ok e Q"
  shows "Q c (fold (cl_set_allowed e p) ms k) = Q c k"
  by (induction ms arbitrary: k) (simp_all add: classes_okD(5) [OF assms])

lemma mask_changed_queues: "classes_ok e Q \<Longrightarrow> mask_changed e p s s' \<Longrightarrow> Q c (class_data s') = Q c (class_data s)"
  using mask_changedD(7) [of e p s s'] by (auto simp: fold_set_allowed)

lemma allowed_dest_same:
  "online_mask s' = online_mask s \<Longrightarrow> active_mask s' = active_mask s \<Longrightarrow> allowed_dest e m s' = allowed_dest e m s"
  by (simp add: allowed_dest_def)

lemma allowed_destD: "allowed_dest e m s = Some c \<Longrightarrow> c \<in> m \<and> c \<in> online_mask s \<and> c \<in> active_mask s"
  by (auto simp: allowed_dest_def find_Some_iff)

lemma allowed_dest_possible:
  assumes "cpus_ok e D s"
  shows "\<exists>c. allowed_dest e (possible_mask e) s = Some c"
proof -
  obtain c where c: "c \<in> active_mask s" using assms by (auto simp: cpus_ok_def)
  then have "c \<in> online_mask s" "c \<in> possible_mask e" "c < ncpus e" using assms by (auto simp: cpus_ok_def)
  then have "allowed_dest e (possible_mask e) s \<noteq> None"
    using c by (auto simp: allowed_dest_def find_None_iff)
  then show ?thesis by blast
qed

definition settled_on :: "'c aff_env \<Rightarrow> tid \<Rightarrow> 'c aff \<Rightarrow> nat \<Rightarrow> 'c aff \<Rightarrow> bool" where
  "settled_on e p s c s' \<longleftrightarrow> mask_changed e p s s' \<and> c \<in> af_allowed (af_tasks s' p) \<and> c \<in> online_mask s' \<and> c \<in> active_mask s'"

lemma fallback_loop_found:
  assumes "mask_changed e p s0 s" and "allowed_dest e (af_allowed (af_tasks s p)) s = Some c"
  shows "fallback_loop e p st s = (Some (c, st), s) \<and> settled_on e p s0 c s"
  using assms allowed_destD [OF assms(2)] by (simp add: fallback_loop.simps [of e p st s] settled_on_def)

lemma fallback_loop_possible:
  assumes ok: "cpus_ok e D s0" and s: "mask_changed e p s0 s"
  shows "\<exists>c st' s'. fallback_loop e p Try_Possible s = (Some (c, st'), s') \<and> settled_on e p s0 c s'"
proof (cases "allowed_dest e (af_allowed (af_tasks s p)) s")
  case None
  let ?s = "do_set_cpus_allowed_mp e p (possible_mask e) s"
  have m: "mask_changed e p s0 ?s" by (rule mask_changed_set [OF s])
  obtain c where "allowed_dest e (possible_mask e) s0 = Some c" using allowed_dest_possible [OF ok] by blast
  moreover have "allowed_dest e (possible_mask e) ?s = allowed_dest e (possible_mask e) s0"
    by (rule allowed_dest_same) (use mask_changedD(1,2) [OF m] in auto)
  ultimately have "allowed_dest e (af_allowed (af_tasks ?s p)) ?s = Some c"
    by (simp add: do_set_cpus_allowed_mp_def)
  from fallback_loop_found [OF m this, of Try_Fail] show ?thesis
    using None by (auto simp: fallback_loop.simps [of e p Try_Possible s])
next
  case (Some c)
  from fallback_loop_found [OF s Some, of Try_Possible] show ?thesis by blast
qed

lemma fallback_loop_ok:
  assumes ok: "cpus_ok e D s" and w: "weighed e p s"
  shows "\<exists>c st' s'. fallback_loop e p Try_Cpuset s = (Some (c, st'), s') \<and> settled_on e p s c s'"
proof (cases "allowed_dest e (af_allowed (af_tasks s p)) s")
  case None
  have "mask_changed e p s (case fallback_mask e p of Some m \<Rightarrow> do_set_cpus_allowed_mp e p m s | None \<Rightarrow> s)"
    using mask_changed_refl [OF w] by (auto split: option.split intro: mask_changed_set)
  from fallback_loop_possible [OF ok this] show ?thesis
    using None by (simp add: fallback_loop.simps [of e p Try_Cpuset s])
next
  case (Some c)
  from fallback_loop_found [OF mask_changed_refl [OF w] Some, of Try_Cpuset] show ?thesis by blast
qed

lemma select_fallback_rq_ok:
  assumes ok: "cpus_ok e D s" and w: "weighed e p s"
  shows "\<exists>c s'. select_fallback_rq e cpu p s = (Some c, s') \<and> settled_on e p s c s'"
proof (cases "allowed_dest e (node_cpus e cpu \<inter> af_allowed (af_tasks s p)) s")
  case None
  obtain c st s1 where *: "fallback_loop e p Try_Cpuset s = (Some (c, st), s1)" "settled_on e p s c s1"
    using fallback_loop_ok [OF ok w] by blast
  let ?s = "if st \<noteq> Try_Cpuset \<and> af_mm (af_tasks s1 p) then s1\<lparr>notices := notices s1 @ [p]\<rparr> else s1"
  have "settled_on e p s c ?s" using *(2) by (auto simp: settled_on_def intro: mask_changed_notices)
  then show ?thesis using None * by (simp add: select_fallback_rq_def)
next
  case (Some c)
  from allowed_destD [OF Some] show ?thesis
    using Some mask_changed_refl [OF w] by (simp add: select_fallback_rq_def settled_on_def)
qed

lemma select_task_rq_ok:
  assumes ok: "cpus_ok e D s" and w: "weighed e p s"
  shows "\<exists>c s'. select_task_rq e p f s = (Some c, s') \<and> mask_changed e p s s' \<and>
    c \<in> af_allowed (af_tasks s' p) \<and> c \<in> online_mask s'"
proof (cases "class_select_rq e p f s \<notin> af_allowed (af_tasks s p) \<or> class_select_rq e p f s \<notin> online_mask s")
  case True
  then show ?thesis
    using select_fallback_rq_ok [OF ok w, of "af_cpu (af_tasks s p)"]
    by (auto simp: select_task_rq_def Let_def settled_on_def)
next
  case False
  then show ?thesis using mask_changed_refl [OF w] by (simp add: select_task_rq_def Let_def)
qed

text \<open>A stop thread stays where it is.\<close>

lemma select_task_rq_stop:
  assumes "classes_ok e Q" and "threads_fixed e s" and "c \<in> online_mask s"
  shows "select_task_rq e (stopper_of e c) f s = (Some c, s)"
  using assms(2,3) classes_okD(13) [OF assms(1), of c f s]
  by (simp add: select_task_rq_def class_select_rq_def threads_fixed_def)

section \<open>Onto a queue\<close>

lemma nr_unint_same [simp]: "aq_nr_unint_update (\<lambda>u. u) r = r"
  by (cases r) simp

lemma card_without:
  assumes "finite A"
  shows "(of_nat (card A) :: ulong) = of_nat (card (A - {p})) + (if p \<in> A then 1 else 0)"
proof (cases "p \<in> A")
  case True
  then have "card A = Suc (card (A - {p}))" using card.remove [OF assms] by simp
  then show ?thesis using True by simp
qed simp

text \<open>
  A task that is on no queue and no list gets a processor and goes on its queue; the counter of
  that processor gives back what the task counted for.
\<close>

definition queued_record :: "'c aff_env \<Rightarrow> ulong \<Rightarrow> bool \<Rightarrow> cpumask \<Rightarrow> nat \<Rightarrow> u64 \<Rightarrow> bool \<Rightarrow> aff_task \<Rightarrow> aff_task" where
  "queued_record e st b m c n q t =
     t\<lparr>af_state := st, af_contributes := b, af_allowed := m, af_nr_allowed := mask_weight e m, af_cpu := c,
       af_migrations := n, af_on_rq := q\<rparr>"

lemma queued_record_sel [simp]:
  "af_state (queued_record e st b m c n q t) = st" "af_contributes (queued_record e st b m c n q t) = b"
  "af_allowed (queued_record e st b m c n q t) = m"
  "af_nr_allowed (queued_record e st b m c n q t) = mask_weight e m" "af_cpu (queued_record e st b m c n q t) = c"
  "af_on_rq (queued_record e st b m c n q t) = q" "af_on_cpu (queued_record e st b m c n q t) = af_on_cpu t"
  "af_bound (queued_record e st b m c n q t) = af_bound t" "af_wrr (queued_record e st b m c n q t) = af_wrr t"
  "af_frozen (queued_record e st b m c n q t) = af_frozen t"
  by (simp_all add: queued_record_def)

definition idle_task_of :: "'c aff_env \<Rightarrow> tid \<Rightarrow> bool" where
  "idle_task_of e p \<longleftrightarrow> (\<exists>c. p = idle_of e c)"

text \<open>A task on no queue and no list, with a processor and a mask that fit.\<close>

definition waking_ok :: "'c aff_env \<Rightarrow> tid set \<Rightarrow> nat set \<Rightarrow> tid \<Rightarrow> nat \<Rightarrow> cpumask \<Rightarrow> 'c aff \<Rightarrow> bool" where
  "waking_ok e E D p c m s \<longleftrightarrow> p < PID_MAX_LIMIT \<and> \<not> af_on_rq (af_tasks s p) \<and> \<not> af_on_cpu (af_tasks s p) \<and>
     \<not> idle_task_of e p \<and> (\<forall>d. p \<notin> set (wake_list (af_rqs s d))) \<and>
     (c \<in> D \<or> c \<in> online_mask s \<and> (c \<in> m \<or> p \<in> E)) \<and> (\<forall>d. p = stopper_of e d \<longrightarrow> c = d \<and> m = {d})"

lemma waking_keeps:
  assumes inv: "aff_inv_at e Q E W D s" and p: "waking_ok e E D p c m s"
    and s': "af_tasks s' = (af_tasks s)(p := queued_record e st b m c n q (af_tasks s p))"
      "\<And>d. aq_curr (af_rqs s' d) = aq_curr (af_rqs s d)" "online_mask s' = online_mask s"
      "active_mask s' = active_mask s" "stop_works s' = stop_works s" "\<And>d. aq_span (af_rqs s' d) = aq_span (af_rqs s d)"
  shows "cpus_ok e D s'" and "tasks_ok e E D s'" and "threads_fixed e s'" and "running_ok e s'" and "grows s s'"
proof -
  note D = aff_invD [OF inv] and P = p [unfolded waking_ok_def]
  show "cpus_ok e D s'" using D(2) cpus_ok_cong s' by blast
  have "placed E D s' r" if "placed E D s r \<or> r = p" for r
    using that P by (cases "r = p") (auto simp: placed_def s')
  then show "tasks_ok e E D s'" using D(3) P by (auto simp: tasks_ok_def s')
  have "af_cpu (af_tasks s' (stopper_of e d)) = d \<and> af_allowed (af_tasks s' (stopper_of e d)) = {d} \<and>
      af_bound (af_tasks s' (stopper_of e d)) \<and> \<not> af_wrr (af_tasks s' (stopper_of e d))" for d
    using D(5) P by (auto simp: threads_fixed_def s')
  moreover have "af_tasks s' (idle_of e d) = af_tasks s (idle_of e d)" for d
    using P by (auto simp: idle_task_of_def s')
  ultimately show "threads_fixed e s'" using D(5) by (simp add: threads_fixed_def s'(5))
  have "aq_curr (af_rqs s d) \<noteq> p" for d using D(6) P by (auto simp: running_ok_def)
  moreover have "af_on_cpu (af_tasks s' r) = af_on_cpu (af_tasks s r)" for r by (simp add: s')
  ultimately show "running_ok e s'" using D(6) by (simp add: running_ok_def s'(1,2))
  show "grows s s'" using P by (auto simp: grows_def s')
qed

lemma become_queued:
  assumes inv: "aff_inv_at e Q E W D s" and p: "waking_ok e E D p c m s"
    and s': "s' = s\<lparr>af_tasks := (af_tasks s)(p := queued_record e st b m c n True (af_tasks s p)),
      af_rqs := (af_rqs s)(c := aq_nr_unint_update (\<lambda>u. u - (if p \<in> sleeping_load W s then 1 else 0)) (af_rqs s c)),
      class_data := k, notices := ns\<rparr>"
    and k: "\<And>d. Q d k = (if d = c then insert p (Q c (class_data s)) else Q d (class_data s))"
  shows "aff_inv_at e Q E (W - {p}) D s'" and "grows s s'"
proof -
  note D = aff_invD [OF inv] and P = p [unfolded waking_ok_def]
  have sel: "af_tasks s' = (af_tasks s)(p := queued_record e st b m c n True (af_tasks s p))"
    "aq_curr (af_rqs s' d) = aq_curr (af_rqs s d)" "wake_list (af_rqs s' d) = wake_list (af_rqs s d)"
    "online_mask s' = online_mask s" "active_mask s' = active_mask s" "stop_works s' = stop_works s"
    "aq_span (af_rqs s' d) = aq_span (af_rqs s d)" for d
    by (simp_all add: s')
  note keeps = waking_keeps [OF inv p sel(1,2,4,5,6,7)]
  have transit: "in_transit (W - {p}) s' r \<longleftrightarrow> in_transit W s r \<and> r \<noteq> p" for r
    using P by (cases "r = p") (auto simp: in_transit_def sel)
  have "linked Q s'" using D(1) P by (auto simp: linked_def s' k)
  moreover have "transit_ok E (W - {p}) D s'"
    unfolding transit_ok_def transit
    using D(4) P by (simp add: transit_ok_def sel)
  moreover have "load_ok e (W - {p}) s'"
  proof -
    have load: "sleeping_load (W - {p}) s' = sleeping_load W s - {p}"
      by (auto simp: sleeping_load_def transit sel)
    have c: "c \<in> possible_mask e" "c < ncpus e" using P D(2) by (auto simp: cpus_ok_def)
    have "(\<lambda>d. aq_nr_unint (af_rqs s' d)) = (\<lambda>d. aq_nr_unint (af_rqs s d))(c := aq_nr_unint (af_rqs s c) + - (if p \<in> sleeping_load W s then 1 else 0))"
      by (auto simp: s')
    then have "cpu_sum e (possible_mask e) (\<lambda>d. aq_nr_unint (af_rqs s' d)) =
        of_nat (card (sleeping_load W s)) + - (if p \<in> sleeping_load W s then 1 else 0)"
      using D(7) cpu_sum_upd [OF c, of "\<lambda>d. aq_nr_unint (af_rqs s d)" "- (if p \<in> sleeping_load W s then 1 else 0)"]
      by (simp only: load_ok_def)
    also have "\<dots> = of_nat (card (sleeping_load W s - {p}))"
      unfolding card_without [OF finite_sleeping_load, of W s p] by (simp only: add.assoc add.right_inverse add.right_neutral)
    finally show ?thesis by (simp only: load_ok_def load)
  qed
  ultimately show "aff_inv_at e Q E (W - {p}) D s'" using keeps(1-4) by (simp add: aff_inv_at_def)
  show "grows s s'" by (rule keeps(5))
qed

text \<open>Or it is sent to the list of the processor.\<close>

lemma become_listed:
  assumes inv: "aff_inv_at e Q E W D s" and p: "waking_ok e E D p c m s" "p \<notin> W"
    and b: "b = contributes_to_load (af_tasks s p)"
    and s': "s' = s\<lparr>af_tasks := (af_tasks s)(p := queued_record e TASK_WAKING b m c n False (af_tasks s p)),
      af_rqs := (af_rqs s)(c := wake_list_update (\<lambda>ps. p # ps) (af_rqs s c)),
      class_data := k, af_ipis := is, notices := ns\<rparr>"
    and k: "\<And>d. Q d k = Q d (class_data s)"
  shows "aff_inv_at e Q E W D s'" and "grows s s'"
proof -
  note D = aff_invD [OF inv] and P = p(1) [unfolded waking_ok_def]
  have sel: "af_tasks s' = (af_tasks s)(p := queued_record e TASK_WAKING b m c n False (af_tasks s p))"
    "aq_curr (af_rqs s' d) = aq_curr (af_rqs s d)" "aq_nr_unint (af_rqs s' d) = aq_nr_unint (af_rqs s d)"
    "online_mask s' = online_mask s" "active_mask s' = active_mask s" "stop_works s' = stop_works s"
    "wake_list (af_rqs s' d) = (if d = c then p # wake_list (af_rqs s c) else wake_list (af_rqs s d))"
    "aq_span (af_rqs s' d) = aq_span (af_rqs s d)" for d
    by (simp_all add: s')
  note keeps = waking_keeps [OF inv p(1) sel(1,2,4,5,6,8)]
  have new: "\<not> in_transit W s p" using P p(2) by (simp add: in_transit_def)
  have transit: "in_transit W s' r \<longleftrightarrow> in_transit W s r \<or> r = p" for r
    using P by (cases "r = p") (auto simp: in_transit_def sel)
  have "linked Q s'" using D(1) P by (auto simp: linked_def s' k)
  moreover have "transit_ok E W D s'"
    unfolding transit_ok_def transit
    using D(4) P p(2) by (simp add: transit_ok_def sel) blast
  moreover have "load_ok e W s'"
  proof -
    have "sleeping_load W s' = sleeping_load W s"
      using P new by (auto simp: sleeping_load_def transit sel b)
    then show ?thesis using D(7) by (simp add: load_ok_def sel)
  qed
  ultimately show "aff_inv_at e Q E W D s'" using keeps(1-4) by (simp add: aff_inv_at_def)
  show "grows s s'" by (rule keeps(5))
qed

section \<open>Waking up\<close>

lemma queued_off_lists:
  assumes "transit_ok E W D s" and "af_on_rq (af_tasks s p)"
  shows "\<not> in_transit W s p" and "p \<notin> set (wake_list (af_rqs s c))"
  using assms by (metis transit_ok_def, metis transit_ok_def in_transit_def)

lemma inv_queued_state:
  assumes inv: "aff_inv_at e Q E W D s" and p: "af_on_rq (af_tasks s p)"
  shows "aff_inv_at e Q E W D (upd_aff p (af_state_update (\<lambda>_. st)) s)" (is "aff_inv_at e Q E W D ?s")
proof -
  note D = aff_invD [OF inv]
  have sel: "af_tasks ?s = (af_tasks s)(p := af_state_update (\<lambda>_. st) (af_tasks s p))" "af_rqs ?s = af_rqs s"
    "online_mask ?s = online_mask s" "active_mask ?s = active_mask s" "stop_works ?s = stop_works s"
    "class_data ?s = class_data s"
    by simp_all
  note off = queued_off_lists [OF D(4) p]
  have transit: "in_transit W ?s = in_transit W s" by (rule ext) (simp add: in_transit_def)
  have placed: "placed E D ?s = placed E D s" by (rule ext) (simp add: placed_def)
  have "idle_of e c \<noteq> p" for c using D(5) p by (auto simp: threads_fixed_def)
  then have "threads_fixed e ?s" using D(5) unfolding threads_fixed_def sel by auto
  moreover have "transit_ok E W D ?s"
    using D(4) off unfolding transit_ok_def transit sel by (simp add: fun_upd_def)
  moreover have "sleeping_load W ?s = sleeping_load W s"
    using p by (auto simp: sleeping_load_def transit contributes_to_load_def)
  moreover have "tasks_ok e E D ?s" using D(3) unfolding tasks_ok_def placed sel by (simp add: fun_upd_def)
  moreover have "linked Q ?s" "running_ok e ?s"
  proof -
    have same: "af_on_rq (af_tasks ?s q) = af_on_rq (af_tasks s q)" "af_cpu (af_tasks ?s q) = af_cpu (af_tasks s q)"
      "af_on_cpu (af_tasks ?s q) = af_on_cpu (af_tasks s q)" for q
      by simp_all
    show "linked Q ?s" "running_ok e ?s" using D(1,6) unfolding linked_def running_ok_def same sel(2,6) by simp_all
  qed
  ultimately show ?thesis
    using D(2,7) by (simp add: aff_inv_at_def cpus_ok_def load_ok_def)
qed

lemma keeps_class:
  assumes "aff_inv_at e Q E W D s" and "\<And>c. Q c (f (class_data s)) = Q c (class_data s)"
  shows "aff_inv_at e Q E W D (class_data_update f s)"
proof -
  have "class_data_update f s = s\<lparr>class_data := f (class_data s), af_ipis := af_ipis s, notices := notices s\<rparr>"
    by simp
  then show ?thesis using inv_class [where k = "f (class_data s)", OF assms] by metis
qed

lemma ttwu_do_wakeup_ok:
  assumes ok: "classes_ok e Q" and inv: "aff_inv_at e Q E W D s" and p: "af_on_rq (af_tasks s p)"
  shows "aff_inv_at e Q E W D (ttwu_do_wakeup_mp e c p s)" and "grows s (ttwu_do_wakeup_mp e c p s)"
proof -
  let ?s1 = "class_data_update (cl_preempt e c p) s"
  let ?s2 = "upd_aff p (af_state_update (\<lambda>_. TASK_RUNNING)) ?s1"
  have "aff_inv_at e Q E W D ?s1" by (rule keeps_class [OF inv]) (simp add: classes_okD(4) [OF ok])
  then have 2: "aff_inv_at e Q E W D ?s2" by (rule inv_queued_state) (simp add: p)
  have r: "rebalanced e Q ?s2 (cl_woken e c p ?s2)" by (rule classes_okD(16) [OF ok aff_invD(1) [OF 2]])
  show "aff_inv_at e Q E W D (ttwu_do_wakeup_mp e c p s)"
    using inv_rebalanced [OF 2 r] by (simp add: ttwu_do_wakeup_mp_def)
  have "grows s ?s2" by (simp add: grows_def)
  then show "grows s (ttwu_do_wakeup_mp e c p s)"
    using grows_trans grows_rebalanced [OF r] by (simp add: ttwu_do_wakeup_mp_def) blast
qed

text \<open>Activation of a task whose mask was just chosen, from a state where it is on no list.\<close>

lemma do_activate_ok:
  assumes ok: "classes_ok e Q" and inv: "aff_inv_at e Q E W D s" and p: "waking_ok e E D p c m s"
    and st: "st AND TASK_UNINTERRUPTIBLE = 0" and b: "b \<longleftrightarrow> p \<in> sleeping_load W s"
    and s1: "s1 = s\<lparr>af_tasks := (af_tasks s)(p := queued_record e st b m c n False (af_tasks s p)),
      class_data := k, notices := ns\<rparr>" and k: "\<And>d. Q d k = Q d (class_data s)"
  shows "aff_inv_at e Q E (W - {p}) D (ttwu_do_activate_mp e c p s1)" and "grows s (ttwu_do_activate_mp e c p s1)"
proof -
  let ?s2 = "s\<lparr>af_tasks := (af_tasks s)(p := queued_record e st b m c n True (af_tasks s p)),
      af_rqs := (af_rqs s)(c := aq_nr_unint_update (\<lambda>u. u - (if p \<in> sleeping_load W s then 1 else 0)) (af_rqs s c)),
      class_data := cl_enqueue e c p k, notices := ns\<rparr>"
  have eq: "ttwu_do_activate_mp e c p s1 = ttwu_do_wakeup_mp e c p ?s2"
  proof -
    have "\<not> contributes_to_load (af_tasks s1 p)" using st by (simp add: s1 contributes_to_load_def)
    then have "upd_aff p (af_on_rq_update (\<lambda>_. True)) (activate_task_mp e c p
        (if af_contributes (af_tasks s1 p) then upd_aff_rq c (aq_nr_unint_update (\<lambda>n. n - 1)) s1 else s1)) = ?s2"
      using b st by (cases b) (simp_all add: activate_task_mp_def s1 contributes_to_load_def queued_record_def o_def)
    then show ?thesis by (simp only: ttwu_do_activate_mp_def Let_def)
  qed
  have "p \<notin> Q d k" for d
    using p waiting_of [OF aff_invD(1) [OF inv], of p d] by (simp add: waking_ok_def k)
  then have q: "Q d (cl_enqueue e c p k) = (if d = c then insert p (Q c (class_data s)) else Q d (class_data s))" for d
    using classes_okD(1) [OF ok, of p k d c] p k by (simp add: waking_ok_def)
  note queued = become_queued [OF inv p refl q]
  have on: "af_on_rq (af_tasks ?s2 p)" by simp
  show "aff_inv_at e Q E (W - {p}) D (ttwu_do_activate_mp e c p s1)"
    unfolding eq by (rule ttwu_do_wakeup_ok(1) [OF ok queued(1) on])
  show "grows s (ttwu_do_activate_mp e c p s1)"
    unfolding eq by (rule grows_trans [OF queued(2) ttwu_do_wakeup_ok(2) [OF ok queued(1) on]])
qed

end
