(* ===== verification/Affinity_Ops.thy ===== *)
theory Affinity_Ops
  imports Affinity_Steps
begin

text \<open>
  The operations of \<open>Affinity\<close> keep the invariant: wake-ups, \<^verbatim>\<open>__schedule()\<close>, changes of the mask and
  the work of the stop threads.
\<close>

section \<open>Wake-ups\<close>

lemma queued_record_self:
  assumes "weighed e p s" and "\<not> af_on_rq (af_tasks s p)" and "af_cpu (af_tasks s p) = c"
  shows "queued_record e (af_state (af_tasks s p)) (af_contributes (af_tasks s p)) (af_allowed (af_tasks s p)) c
    (af_migrations (af_tasks s p)) False (af_tasks s p) = af_tasks s p"
  using assms by (cases "af_tasks s p") (simp add: queued_record_def weighed_def)

lemma weighed_inv: "aff_inv_at e Q E W D s \<Longrightarrow> weighed e p s"
  by (simp add: aff_inv_at_def tasks_ok_def weighed_def)

lemma set_task_cpu_same:
  "(if af_cpu (af_tasks s p) \<noteq> c then set_task_cpu_mp p c s else s) = set_task_cpu_mp p c s"
proof (cases "af_cpu (af_tasks s p) = c")
  case True
  have "af_cpu_update (\<lambda>_. c) (af_tasks s p) = af_tasks s p" using True by (cases "af_tasks s p") simp
  then have "upd_aff p (af_cpu_update (\<lambda>_. c)) s = s" by (cases s) (simp add: fun_upd_idem)
  then show ?thesis using True by (simp add: set_task_cpu_mp_def)
qed simp

text \<open>A task of which nothing but state and flag has changed since it slept gets its processor.\<close>

lemma choose_ok:
  assumes ok: "classes_ok e Q" and inv: "aff_inv_at e Q E W {} s"
    and p: "p < PID_MAX_LIMIT" "\<not> af_on_rq (af_tasks s p)" "\<not> af_on_cpu (af_tasks s p)" "\<not> idle_task_of e p"
      "\<And>d. p \<notin> set (wake_list (af_rqs s d))" "\<And>d. p = stopper_of e d \<Longrightarrow> d \<in> online_mask s"
    and s2: "s2 = upd_aff p (\<lambda>t. t\<lparr>af_contributes := b, af_state := st\<rparr>) s"
  shows "\<exists>cpu s3 m n k ns. select_task_rq e p f s2 = (Some cpu, s3) \<and>
    set_task_cpu_mp p cpu s3 = s\<lparr>af_tasks := (af_tasks s)(p := queued_record e st b m cpu n False (af_tasks s p)),
      class_data := k, notices := ns\<rparr> \<and>
    (\<forall>d. Q d k = Q d (class_data s)) \<and> waking_ok e E {} p cpu m s"
proof -
  note D = aff_invD [OF inv]
  have w: "weighed e p s2" using weighed_inv [OF inv, of p] by (simp add: s2 weighed_def)
  have c2: "cpus_ok e {} s2" using D(2) by (simp add: s2 cpus_ok_def)
  obtain cpu s3 where s3: "select_task_rq e p f s2 = (Some cpu, s3)" "mask_changed e p s2 s3"
      "cpu \<in> af_allowed (af_tasks s3 p)" "cpu \<in> online_mask s3"
    using select_task_rq_ok [OF c2 w] by blast
  obtain m n ms where eq: "s3 = s2\<lparr>af_tasks := (af_tasks s2)(p := (af_tasks s2 p)\<lparr>af_allowed := m, af_nr_allowed := mask_weight e m\<rparr>),
      class_data := fold (cl_set_allowed e p) ms (class_data s2), notices := n\<rparr>"
    using s3(2) unfolding mask_changed_def by blast
  let ?mig = "if af_cpu (af_tasks s p) = cpu then af_migrations (af_tasks s p) else af_migrations (af_tasks s p) + 1"
  have "set_task_cpu_mp p cpu s3 = s\<lparr>af_tasks := (af_tasks s)(p := queued_record e st b m cpu ?mig False (af_tasks s p)),
      class_data := fold (cl_set_allowed e p) ms (class_data s), notices := n\<rparr>"
    using p(2) by (cases "af_tasks s p") (simp add: eq s2 set_task_cpu_mp_def queued_record_def o_def)
  moreover have "\<forall>d. Q d (fold (cl_set_allowed e p) ms (class_data s)) = Q d (class_data s)"
    by (simp add: fold_set_allowed [OF ok])
  moreover have "waking_ok e E {} p cpu m s"
  proof -
    have "cpu = d \<and> m = {d}" if d: "p = stopper_of e d" for d
    proof -
      have t: "threads_fixed e s2" using D(5) p(4) unfolding threads_fixed_def by (auto simp: s2 idle_task_of_def)
      have "select_task_rq e p f s2 = (Some d, s2)"
        using select_task_rq_stop [OF ok t, of d f] p(6) [OF d] by (simp add: d s2)
      then have "cpu = d" "s3 = s2" using s3(1) by auto
      moreover have "af_allowed (af_tasks s3 p) = m" by (simp add: eq)
      ultimately show ?thesis using D(5) d by (simp add: threads_fixed_def s2)
    qed
    then show ?thesis using p s3(3,4) by (simp add: waking_ok_def eq s2)
  qed
  ultimately show ?thesis using s3(1) by blast
qed

lemma WAKING_not_load: "TASK_WAKING AND TASK_UNINTERRUPTIBLE = 0"
  by (simp add: TASK_WAKING_def TASK_UNINTERRUPTIBLE_def)

lemma ttwu_queue_ok:
  assumes ok: "classes_ok e Q" and inv: "aff_inv_at e Q E {} {} s" and p: "waking_ok e E {} p c m s"
    and b: "b = contributes_to_load (af_tasks s p)"
    and s1: "s1 = s\<lparr>af_tasks := (af_tasks s)(p := queued_record e TASK_WAKING b m c n False (af_tasks s p)),
      class_data := k, notices := ns\<rparr>" and k: "\<And>d. Q d k = Q d (class_data s)"
  shows "aff_inv_at e Q E {} {} (ttwu_queue_mp e me p c s1)" and "grows s (ttwu_queue_mp e me p c s1)"
proof -
  have load: "b \<longleftrightarrow> p \<in> sleeping_load {} s"
    using p by (auto simp: b waking_ok_def sleeping_load_def in_transit_def)
  note local = do_activate_ok [OF ok inv p WAKING_not_load load s1 k]
  let ?is = "if wake_list (af_rqs s c) = [] then af_ipis s @ [c] else af_ipis s"
  have remote: "ttwu_queue_remote p c s1 =
      s\<lparr>af_tasks := (af_tasks s)(p := queued_record e TASK_WAKING b m c n False (af_tasks s p)),
        af_rqs := (af_rqs s)(c := wake_list_update (\<lambda>ps. p # ps) (af_rqs s c)),
        class_data := k, af_ipis := ?is, notices := ns\<rparr>"
    by (simp add: ttwu_queue_remote_def s1)
  note listed = become_listed [OF inv p _ b remote k]
  show "aff_inv_at e Q E {} {} (ttwu_queue_mp e me p c s1)" and "grows s (ttwu_queue_mp e me p c s1)"
    using local listed by (auto simp: ttwu_queue_mp_def)
qed

definition wakeable_mp :: "'c aff_env \<Rightarrow> tid \<Rightarrow> ulong \<Rightarrow> 'c aff \<Rightarrow> bool" where
  "wakeable_mp e p state s \<longleftrightarrow> p < PID_MAX_LIMIT \<and> TASK_WAKING AND state = 0 \<and> \<not> must_wait p state s \<and>
     (\<forall>c. p = stopper_of e c \<longrightarrow> c \<in> online_mask s)"

lemma try_to_wake_up_ok:
  assumes ok: "classes_ok e Q" and inv: "aff_inv_at e Q E {} {} s" and p: "wakeable_mp e p state s"
  shows "\<exists>b s'. try_to_wake_up_mp e me p state s = Some (b, s') \<and> aff_inv_at e Q E {} {} s' \<and> grows s s'"
proof -
  note D = aff_invD [OF inv] and P = p [unfolded wakeable_mp_def must_wait_def]
  consider "af_state (af_tasks s p) AND state = 0" | "af_state (af_tasks s p) AND state \<noteq> 0" "af_on_rq (af_tasks s p)"
    | "af_state (af_tasks s p) AND state \<noteq> 0" "\<not> af_on_rq (af_tasks s p)"
    by blast
  then show ?thesis
  proof cases
    case 1
    then have "try_to_wake_up_mp e me p state s = Some (False, s)" by (simp add: try_to_wake_up_mp_def)
    then show ?thesis using inv grows_refl by blast
  next
    case 2
    then have "try_to_wake_up_mp e me p state s = Some (True, ttwu_do_wakeup_mp e (af_cpu (af_tasks s p)) p s)"
      by (simp add: try_to_wake_up_mp_def ttwu_remote_mp_def)
    then show ?thesis using ttwu_do_wakeup_ok [OF ok inv 2(2)] by blast
  next
    case 3
    let ?b = "contributes_to_load (af_tasks s p)"
    let ?s2 = "upd_aff p (\<lambda>t. t\<lparr>af_contributes := contributes_to_load t, af_state := TASK_WAKING\<rparr>) s"
    have s2: "?s2 = upd_aff p (\<lambda>t. t\<lparr>af_contributes := ?b, af_state := TASK_WAKING\<rparr>) s" by simp
    have list: "p \<notin> set (wake_list (af_rqs s d))" for d
      using D(4) 3(1) P by (auto simp: transit_ok_def)
    have idle: "\<not> idle_task_of e p" using D(5) 3(1) by (auto simp: idle_task_of_def threads_fixed_def TASK_RUNNING_def)
    obtain cpu s3 m n k ns where c: "select_task_rq e p SD_BALANCE_WAKE ?s2 = (Some cpu, s3)"
        "set_task_cpu_mp p cpu s3 = s\<lparr>af_tasks := (af_tasks s)(p := queued_record e TASK_WAKING ?b m cpu n False (af_tasks s p)),
          class_data := k, notices := ns\<rparr>"
        "\<And>d. Q d k = Q d (class_data s)" "waking_ok e E {} p cpu m s"
      using choose_ok [OF ok inv _ 3(2) _ idle list _ s2, of SD_BALANCE_WAKE] P 3 by blast
    have "try_to_wake_up_mp e me p state s = Some (True, ttwu_queue_mp e me p cpu (set_task_cpu_mp p cpu s3))"
      using 3 by (simp add: try_to_wake_up_mp_def c(1) set_task_cpu_same)
    then show ?thesis using ttwu_queue_ok [OF ok inv c(4) refl c(2) c(3)] by blast
  qed
qed

text \<open>A new task has never counted.\<close>

definition new_task :: "'c aff_env \<Rightarrow> tid \<Rightarrow> 'c aff \<Rightarrow> bool" where
  "new_task e p s \<longleftrightarrow> p < PID_MAX_LIMIT \<and> \<not> af_on_rq (af_tasks s p) \<and> \<not> af_on_cpu (af_tasks s p) \<and>
     \<not> idle_task_of e p \<and> af_state (af_tasks s p) = TASK_RUNNING \<and> (\<forall>c. p \<noteq> stopper_of e c)"

lemma wake_up_new_task_ok:
  assumes ok: "classes_ok e Q" and inv: "aff_inv_at e Q E {} {} s" and p: "new_task e p s"
  shows "\<exists>s'. wake_up_new_task_mp e p s = Some s' \<and> aff_inv_at e Q E {} {} s' \<and> grows s s'"
proof -
  note D = aff_invD [OF inv] and P = p [unfolded new_task_def]
  have list: "p \<notin> set (wake_list (af_rqs s d))" for d
    using D(4) P by (auto simp: transit_ok_def TASK_WAKING_def TASK_RUNNING_def)
  let ?b = "af_contributes (af_tasks s p)"
  have "(af_tasks s p)\<lparr>af_contributes := ?b, af_state := TASK_RUNNING\<rparr> = af_tasks s p"
    using P by (cases "af_tasks s p") simp
  then have s2: "s = upd_aff p (\<lambda>t. t\<lparr>af_contributes := ?b, af_state := TASK_RUNNING\<rparr>) s"
    by (cases s) (simp add: fun_upd_idem)
  obtain cpu s3 m n k ns where c: "select_task_rq e p SD_BALANCE_FORK s = (Some cpu, s3)"
      "set_task_cpu_mp p cpu s3 = s\<lparr>af_tasks := (af_tasks s)(p := queued_record e TASK_RUNNING ?b m cpu n False (af_tasks s p)),
        class_data := k, notices := ns\<rparr>"
      "\<And>d. Q d k = Q d (class_data s)" "waking_ok e E {} p cpu m s"
    using choose_ok [OF ok inv _ _ _ _ list _ s2, of SD_BALANCE_FORK] P by blast
  let ?s4 = "s\<lparr>af_tasks := (af_tasks s)(p := queued_record e TASK_RUNNING ?b m cpu n True (af_tasks s p)),
      af_rqs := (af_rqs s)(cpu := aq_nr_unint_update (\<lambda>u. u - (if p \<in> sleeping_load {} s then 1 else 0)) (af_rqs s cpu)),
      class_data := cl_enqueue e cpu p k, notices := ns\<rparr>"
  have "p \<notin> Q d k" for d using P waiting_of [OF D(1), of p d] c(3) by simp
  then have q: "Q d (cl_enqueue e cpu p k) = (if d = cpu then insert p (Q cpu (class_data s)) else Q d (class_data s))" for d
    using classes_okD(1) [OF ok, of p k d cpu] c(3) P by simp
  note queued = become_queued [OF inv c(4) refl q, where st = TASK_RUNNING and b = ?b and n = n and ns = ns]
  let ?s5 = "class_data_update (cl_preempt e cpu p) ?s4"
  have 5: "aff_inv_at e Q E {} {} ?s5"
    using keeps_class [OF queued(1), of "cl_preempt e cpu p"] classes_okD(4) [OF ok] by simp
  have r: "rebalanced e Q ?s5 (cl_woken e cpu p ?s5)" by (rule classes_okD(16) [OF ok aff_invD(1) [OF 5]])
  have "p \<notin> sleeping_load {} s"
    using P list by (simp add: sleeping_load_def in_transit_def contributes_to_load_def TASK_RUNNING_def)
  then have "class_data_update (cl_preempt e cpu p) (upd_aff p (af_on_rq_update (\<lambda>_. True))
      (activate_task_mp e cpu p (set_task_cpu_mp p cpu s3))) = ?s5"
    by (intro aff.equality) (simp_all add: c(2) activate_task_mp_def contributes_to_load_def TASK_RUNNING_def
        queued_record_def)
  then have "wake_up_new_task_mp e p s = Some (cl_woken e cpu p ?s5)"
    by (simp only: wake_up_new_task_mp_def c(1) Let_def prod.case option.case)
  moreover have "grows s ?s5" using queued(2) by (simp add: grows_def)
  ultimately show ?thesis
    using inv_rebalanced [OF 5 r] grows_trans grows_rebalanced [OF r] by blast
qed

section \<open>What waiting callers do not notice\<close>

text \<open>What a call may rely on while it waits, for the task \<open>p\<close>.\<close>

definition undisturbed :: "tid \<Rightarrow> 'c aff \<Rightarrow> 'c aff \<Rightarrow> bool" where
  "undisturbed p s s' \<longleftrightarrow> stop_works s' = stop_works s \<and> af_allowed (af_tasks s' p) = af_allowed (af_tasks s p) \<and>
     active_mask s' = active_mask s \<and> online_mask s' = online_mask s \<and>
     (\<forall>c. aq_stop (af_rqs s' c) = aq_stop (af_rqs s c))"

lemma undisturbed_refl [simp]: "undisturbed p s s" by (simp add: undisturbed_def)

lemma undisturbed_trans: "undisturbed p s s' \<Longrightarrow> undisturbed p s' s'' \<Longrightarrow> undisturbed p s s''"
  by (simp add: undisturbed_def)

lemma undisturbed_rebalanced: "rebalanced e Q s s' \<Longrightarrow> undisturbed p s s'"
  by (simp add: undisturbed_def rebalancedD rebalanced_task)

lemma activate_effect:
  assumes ok: "classes_ok e Q" and link: "linked Q s" and p: "\<not> af_on_rq (af_tasks s p)" "af_cpu (af_tasks s p) = c" "p < PID_MAX_LIMIT"
  shows "undisturbed q s (ttwu_do_activate_mp e c p s)" and "af_on_rq (af_tasks (ttwu_do_activate_mp e c p s) p)"
proof -
  let ?b = "if af_contributes (af_tasks s p) then upd_aff_rq c (aq_nr_unint_update (\<lambda>n. n - 1)) s else s"
  let ?s2 = "upd_aff p (af_state_update (\<lambda>_. TASK_RUNNING)) (class_data_update (cl_preempt e c p)
      (upd_aff p (af_on_rq_update (\<lambda>_. True)) (activate_task_mp e c p ?b)))"
  have "\<And>d. p \<notin> Q d (class_data s)" using waiting_of [OF link] p(1) by blast
  then have "Q d (cl_enqueue e c p (class_data s)) = (if d = c then insert p (Q c (class_data s)) else Q d (class_data s))" for d
    by (rule classes_okD(1) [OF ok p(3)])
  then have "linked Q ?s2"
    using link p(2) by (auto simp: linked_def activate_task_mp_def Let_def classes_okD(4) [OF ok])
  then have r: "rebalanced e Q ?s2 (ttwu_do_activate_mp e c p s)"
    using classes_okD(16) [OF ok] by (simp add: ttwu_do_activate_mp_def ttwu_do_wakeup_mp_def Let_def)
  have "undisturbed q s ?s2" by (simp add: undisturbed_def activate_task_mp_def Let_def)
  then show "undisturbed q s (ttwu_do_activate_mp e c p s)" using undisturbed_rebalanced [OF r] undisturbed_trans by blast
  show "af_on_rq (af_tasks (ttwu_do_activate_mp e c p s) p)" unfolding rebalanced_task(5) [OF r] by simp
qed

lemmas activated_queued = activate_effect(2)
lemmas undisturbed_activate = activate_effect(1)

section \<open>Wake-ups sent to another processor\<close>

lemma others_stay:
  assumes r: "rebalanced e Q s s'" and p: "\<not> af_on_rq (af_tasks s p)"
  shows "af_cpu (af_tasks s' p) = af_cpu (af_tasks s p)"
  using rebalancedD(10) [OF r, of p] p by blast

lemma pending_one:
  assumes ok: "classes_ok e Q" and inv: "aff_inv_at e Q E W D s" and p: "p \<in> W" "af_cpu (af_tasks s p) = c"
    "af_state (af_tasks s p) = TASK_WAKING"
  shows "aff_inv_at e Q E (W - {p}) D (ttwu_do_activate_mp e c p s)" and "grows s (ttwu_do_activate_mp e c p s)"
    and "\<And>q. q \<noteq> p \<Longrightarrow> \<not> af_on_rq (af_tasks s q) \<Longrightarrow>
      af_cpu (af_tasks (ttwu_do_activate_mp e c p s) q) = af_cpu (af_tasks s q) \<and>
      af_state (af_tasks (ttwu_do_activate_mp e c p s) q) = af_state (af_tasks s q)"
    and "wake_list (af_rqs (ttwu_do_activate_mp e c p s) d) = wake_list (af_rqs s d)"
    and "online_mask (ttwu_do_activate_mp e c p s) = online_mask s"
    and "active_mask (ttwu_do_activate_mp e c p s) = active_mask s"
    and "stop_works (ttwu_do_activate_mp e c p s) = stop_works s"
    and "undisturbed q s (ttwu_do_activate_mp e c p s)"
proof -
  note I = aff_invD [OF inv]
  have t: "in_transit W s p" using p(1) by (simp add: in_transit_def)
  have P: "p < PID_MAX_LIMIT" "\<not> af_on_rq (af_tasks s p)" "\<not> af_on_cpu (af_tasks s p)"
    "c \<in> D \<or> c \<in> online_mask s \<and> (c \<in> af_allowed (af_tasks s p) \<or> p \<in> E)"
    using I(4) t p(2) unfolding transit_ok_def by blast+
  have "p \<notin> set (wake_list (af_rqs s d))" for d using I(4) p(1) by (auto simp: transit_ok_def)
  moreover have "\<not> idle_task_of e p"
    using I(5) p(3) by (auto simp: idle_task_of_def threads_fixed_def TASK_WAKING_def TASK_RUNNING_def)
  moreover have "p = stopper_of e d \<Longrightarrow> c = d \<and> af_allowed (af_tasks s p) = {d}" for d
    using I(5) p(2) by (auto simp: threads_fixed_def)
  ultimately have w: "waking_ok e E D p c (af_allowed (af_tasks s p)) s" using P by (simp add: waking_ok_def)
  have self: "s = s\<lparr>af_tasks := (af_tasks s)(p := queued_record e TASK_WAKING (af_contributes (af_tasks s p))
      (af_allowed (af_tasks s p)) c (af_migrations (af_tasks s p)) False (af_tasks s p)),
      class_data := class_data s, notices := notices s\<rparr>"
    using queued_record_self [OF weighed_inv [OF inv] P(2) p(2)] p(3) by simp
  have load: "af_contributes (af_tasks s p) \<longleftrightarrow> p \<in> sleeping_load W s" using t P by (simp add: sleeping_load_def)
  note act = do_activate_ok [OF ok inv w WAKING_not_load load self refl]
  show "aff_inv_at e Q E (W - {p}) D (ttwu_do_activate_mp e c p s)" "grows s (ttwu_do_activate_mp e c p s)"
    using act by simp_all
  let ?b = "if af_contributes (af_tasks s p) then upd_aff_rq c (aq_nr_unint_update (\<lambda>n. n - 1)) s else s"
  let ?s2 = "upd_aff p (af_state_update (\<lambda>_. TASK_RUNNING)) (class_data_update (cl_preempt e c p)
      (upd_aff p (af_on_rq_update (\<lambda>_. True)) (activate_task_mp e c p ?b)))"
  have eq: "ttwu_do_activate_mp e c p s = cl_woken e c p ?s2"
    by (simp add: ttwu_do_activate_mp_def ttwu_do_wakeup_mp_def Let_def)
  have "\<And>d. p \<notin> Q d (class_data s)" using waiting_of [OF I(1)] P(2) by blast
  then have "Q d (cl_enqueue e c p (class_data s)) = (if d = c then insert p (Q c (class_data s)) else Q d (class_data s))" for d
    by (rule classes_okD(1) [OF ok P(1)])
  then have "linked Q ?s2"
    using I(1) p(2) by (auto simp: linked_def activate_task_mp_def Let_def classes_okD(4) [OF ok])
  then have r: "rebalanced e Q ?s2 (ttwu_do_activate_mp e c p s)" unfolding eq by (rule classes_okD(16) [OF ok])
  have same: "af_tasks ?s2 q = af_tasks s q" if "q \<noteq> p" for q using that by (simp add: activate_task_mp_def Let_def)
  show "af_cpu (af_tasks (ttwu_do_activate_mp e c p s) q) = af_cpu (af_tasks s q) \<and>
      af_state (af_tasks (ttwu_do_activate_mp e c p s) q) = af_state (af_tasks s q)"
    if "q \<noteq> p" "\<not> af_on_rq (af_tasks s q)" for q
    using others_stay [OF r, of q] rebalanced_task(1) [OF r, of q] same [OF that(1)] that(2) by simp
  show "wake_list (af_rqs (ttwu_do_activate_mp e c p s) d) = wake_list (af_rqs s d)"
    "online_mask (ttwu_do_activate_mp e c p s) = online_mask s" "active_mask (ttwu_do_activate_mp e c p s) = active_mask s"
    "stop_works (ttwu_do_activate_mp e c p s) = stop_works s"
    using rebalancedD(2-5) [OF r] by (simp_all add: activate_task_mp_def Let_def)
  show "undisturbed q s (ttwu_do_activate_mp e c p s)" by (rule undisturbed_activate [OF ok I(1) P(2) p(2) P(1)])
qed

lemma fold_pending:
  assumes "classes_ok e Q" and "distinct ps" and "aff_inv_at e Q E (set ps) D s"
    and "\<And>p. p \<in> set ps \<Longrightarrow> af_cpu (af_tasks s p) = c \<and> af_state (af_tasks s p) = TASK_WAKING"
  shows "let s' = fold (ttwu_do_activate_mp e c) ps s
    in aff_inv_at e Q E {} D s' \<and> grows s s' \<and> (\<forall>d. wake_list (af_rqs s' d) = wake_list (af_rqs s d)) \<and>
       online_mask s' = online_mask s \<and> active_mask s' = active_mask s \<and> stop_works s' = stop_works s \<and>
       (\<forall>q. undisturbed q s s')"
  using assms(2-)
proof (induction ps arbitrary: s)
  case Nil
  then show ?case by simp
next
  case (Cons p ps)
  note one = pending_one [OF assms(1) Cons.prems(2), of p c]
  let ?s1 = "ttwu_do_activate_mp e c p s"
  have p: "p \<in> set (p # ps)" "af_cpu (af_tasks s p) = c" "af_state (af_tasks s p) = TASK_WAKING"
    using Cons.prems(3) by simp_all
  have W: "set (p # ps) - {p} = set ps" using Cons.prems(1) by auto
  have "af_cpu (af_tasks ?s1 q) = c \<and> af_state (af_tasks ?s1 q) = TASK_WAKING" if q: "q \<in> set ps" for q
  proof -
    have "in_transit (set (p # ps)) s q" using q by (simp add: in_transit_def)
    then have "\<not> af_on_rq (af_tasks s q)" using aff_invD(4) [OF Cons.prems(2)] by (simp add: transit_ok_def)
    moreover have "q \<noteq> p" using q Cons.prems(1) by auto
    ultimately show ?thesis using one(3) [OF p, of q] Cons.prems(3) [of q] q by simp
  qed
  with Cons.IH [of ?s1] one(1) [OF p] Cons.prems(1)
  show ?case
    unfolding W
    by (simp add: Let_def one(4-7) [OF p] grows_trans [OF one(2) [OF p]] undisturbed_trans [OF one(8) [OF p]])
qed

lemma take_wake_list:
  assumes inv: "aff_inv_at e Q E {} D s"
  shows "aff_inv_at e Q E (set (wake_list (af_rqs s c))) D (upd_aff_rq c (wake_list_update (\<lambda>_. [])) s)"
    (is "aff_inv_at e Q E ?W D ?s")
proof -
  note I = aff_invD [OF inv]
  have sel: "af_tasks ?s = af_tasks s" "aq_curr (af_rqs ?s d) = aq_curr (af_rqs s d)" "stop_works ?s = stop_works s"
    "aq_nr_unint (af_rqs ?s d) = aq_nr_unint (af_rqs s d)" "online_mask ?s = online_mask s" "class_data ?s = class_data s"
    "active_mask ?s = active_mask s" "wake_list (af_rqs ?s d) = (if d = c then [] else wake_list (af_rqs s d))" for d
    by simp_all
  have cpu: "p \<in> set (wake_list (af_rqs s d)) \<Longrightarrow> af_cpu (af_tasks s p) = d" for p d
    using I(4) by (simp add: transit_ok_def)
  have transit: "in_transit ?W ?s p = in_transit {} s p" for p
    using cpu by (auto simp: in_transit_def)
  have "transit_ok E ?W D ?s"
  proof -
    have "p \<notin> ?W" if "p \<in> set (wake_list (af_rqs s d))" "d \<noteq> c" for p d using cpu that by blast
    then show ?thesis using I(4) unfolding transit_ok_def transit sel by simp
  qed
  moreover have "load_ok e ?W ?s" using I(7) unfolding load_ok_def sleeping_load_def transit sel by simp
  moreover have "placed E D ?s = placed E D s" by (rule ext) (simp add: placed_def)
  then have "tasks_ok e E D ?s" using I(3) unfolding tasks_ok_def sel by simp
  ultimately show ?thesis
    using I(1,2,5,6) unfolding aff_inv_at_def linked_def cpus_ok_def threads_fixed_def running_ok_def sel by simp
qed

lemma sched_ttwu_pending_ok:
  assumes ok: "classes_ok e Q" and inv: "aff_inv_at e Q E {} D s"
  shows "aff_inv_at e Q E {} D (sched_ttwu_pending e c s)" and "grows s (sched_ttwu_pending e c s)"
    and "wake_list (af_rqs (sched_ttwu_pending e c s) c) = []"
    and "online_mask (sched_ttwu_pending e c s) = online_mask s"
    and "active_mask (sched_ttwu_pending e c s) = active_mask s"
    and "stop_works (sched_ttwu_pending e c s) = stop_works s"
    and "undisturbed q s (sched_ttwu_pending e c s)"
proof -
  let ?s = "upd_aff_rq c (wake_list_update (\<lambda>_. [])) s"
  have list: "distinct (wake_list (af_rqs s c))" "\<And>p. p \<in> set (wake_list (af_rqs s c)) \<Longrightarrow>
      af_cpu (af_tasks ?s p) = c \<and> af_state (af_tasks ?s p) = TASK_WAKING"
    using aff_invD(4) [OF inv] by (simp_all add: transit_ok_def)
  have "grows s ?s" by (simp add: grows_def)
  then show "aff_inv_at e Q E {} D (sched_ttwu_pending e c s)" "grows s (sched_ttwu_pending e c s)"
    "wake_list (af_rqs (sched_ttwu_pending e c s) c) = []"
    "online_mask (sched_ttwu_pending e c s) = online_mask s" "active_mask (sched_ttwu_pending e c s) = active_mask s"
    "stop_works (sched_ttwu_pending e c s) = stop_works s"
    using fold_pending [OF ok list(1) take_wake_list [OF inv] list(2)] grows_trans
    by (simp_all add: sched_ttwu_pending_def Let_def) blast
  have "undisturbed q s ?s" by (simp add: undisturbed_def)
  then show "undisturbed q s (sched_ttwu_pending e c s)"
    using fold_pending [OF ok list(1) take_wake_list [OF inv] list(2)] undisturbed_trans
    by (simp add: sched_ttwu_pending_def Let_def) blast
qed

section \<open>Scheduling\<close>

lemma go_to_sleep:
  assumes ok: "classes_ok e Q" and inv: "aff_inv_at e Q E {} {} s" and p: "af_on_rq (af_tasks s p)" "af_cpu (af_tasks s p) = c"
    and c: "c \<in> online_mask s"
  shows "aff_inv_at e Q E {} {} (upd_aff p (af_on_rq_update (\<lambda>_. False)) (deactivate_task_mp e c p s))"
    (is "aff_inv_at e Q E {} {} ?s")
proof -
  note I = aff_invD [OF inv] and off = queued_off_lists [OF aff_invD(4) [OF inv] p(1)]
  let ?l = "if contributes_to_load (af_tasks s p) then 1 else 0"
  have sel: "af_tasks ?s = (af_tasks s)(p := af_on_rq_update (\<lambda>_. False) (af_tasks s p))"
    "aq_curr (af_rqs ?s d) = aq_curr (af_rqs s d)" "wake_list (af_rqs ?s d) = wake_list (af_rqs s d)"
    "online_mask ?s = online_mask s" "active_mask ?s = active_mask s" "stop_works ?s = stop_works s"
    "class_data ?s = cl_dequeue e c p (class_data s)"
    "(\<lambda>d. aq_nr_unint (af_rqs ?s d)) = (\<lambda>d. aq_nr_unint (af_rqs s d))(c := aq_nr_unint (af_rqs s c) + ?l)" for d
    by (auto simp: deactivate_task_mp_def Let_def)
  have same: "af_cpu (af_tasks ?s q) = af_cpu (af_tasks s q)" "af_allowed (af_tasks ?s q) = af_allowed (af_tasks s q)"
    "af_state (af_tasks ?s q) = af_state (af_tasks s q)" "af_on_cpu (af_tasks ?s q) = af_on_cpu (af_tasks s q)"
    "af_bound (af_tasks ?s q) = af_bound (af_tasks s q)" "af_wrr (af_tasks ?s q) = af_wrr (af_tasks s q)"
    "af_nr_allowed (af_tasks ?s q) = af_nr_allowed (af_tasks s q)"
    "af_contributes (af_tasks ?s q) = af_contributes (af_tasks s q)"
    "contributes_to_load (af_tasks ?s q) = contributes_to_load (af_tasks s q)"
    "af_on_rq (af_tasks ?s q) \<longleftrightarrow> af_on_rq (af_tasks s q) \<and> q \<noteq> p" for q
    unfolding sel(1) by (auto simp: contributes_to_load_def)
  have transit: "in_transit {} ?s = in_transit {} s" by (rule ext) (simp only: in_transit_def same sel(3))
  have placed: "placed E {} ?s = placed E {} s" by (rule ext) (simp only: placed_def same sel(4-6))
  have lim: "p < PID_MAX_LIMIT" using I(3) p(1) by (simp add: tasks_ok_def)
  have "p \<in> Q c (class_data s)" using waiting_of [OF I(1)] p by simp
  then have "linked Q ?s"
    using I(1) p(2) classes_okD(2) [OF ok, of p c "class_data s"] unfolding linked_def same sel(7) by auto
  moreover have "tasks_ok e E {} ?s" using I(3) unfolding tasks_ok_def same placed by blast
  moreover have "transit_ok E {} {} ?s" using I(4) unfolding transit_ok_def transit same sel(3,4) by simp
  moreover have "threads_fixed e ?s" using I(5) unfolding threads_fixed_def same sel(6) by simp
  moreover have "running_ok e ?s" using I(6) unfolding running_ok_def same sel(2) by simp
  moreover have "load_ok e {} ?s"
  proof -
    have c': "c \<in> possible_mask e" "c < ncpus e" using c I(2) by (auto simp: cpus_ok_def)
    have load: "sleeping_load {} ?s = sleeping_load {} s \<union> (if contributes_to_load (af_tasks s p) then {p} else {})"
      using off(1) lim unfolding sleeping_load_def transit same by auto
    have "p \<notin> sleeping_load {} s" using p(1) by (simp add: sleeping_load_def)
    then have "of_nat (card (sleeping_load {} ?s)) = of_nat (card (sleeping_load {} s)) + (?l :: ulong)"
      unfolding load by simp
    then show ?thesis
      using I(7) cpu_sum_upd [OF c', of "\<lambda>d. aq_nr_unint (af_rqs s d)" ?l] unfolding load_ok_def sel(8) by simp
  qed
  ultimately show ?thesis using I(2) by (simp only: aff_inv_at_def cpus_ok_def sel(4,5)) simp
qed

lemma curr_inj:
  assumes "running_ok e s"
  shows "aq_curr (af_rqs s c) = aq_curr (af_rqs s d) \<longleftrightarrow> c = d"
proof -
  have "inj (\<lambda>c. aq_curr (af_rqs s c))" using assms by (simp add: running_ok_def)
  from inj_eq [OF this, of c d] show ?thesis .
qed

text \<open>The switch to the task that was picked.\<close>

lemma switch_ok:
  assumes inv: "aff_inv_at e Q E {} {} s" and n: "nxt \<noteq> aq_curr (af_rqs s c)"
    and q: "nxt \<in> insert (idle_of e c) (Q c (class_data s))"
  shows "aff_inv_at e Q E {} {} (upd_aff (aq_curr (af_rqs s c)) (af_on_cpu_update (\<lambda>_. False))
    (upd_aff nxt (af_on_cpu_update (\<lambda>_. True)) (upd_aff_rq c (aq_curr_update (\<lambda>_. nxt)) s)))"
    (is "aff_inv_at e Q E {} {} ?s")
proof -
  define s' where "s' = ?s"
  let ?prev = "aq_curr (af_rqs s c)"
  note I = aff_invD [OF inv]
  have sel: "aq_curr (af_rqs s' d) = (if d = c then nxt else aq_curr (af_rqs s d))"
    "wake_list (af_rqs s' d) = wake_list (af_rqs s d)" "aq_nr_unint (af_rqs s' d) = aq_nr_unint (af_rqs s d)"
    "online_mask s' = online_mask s" "active_mask s' = active_mask s" "stop_works s' = stop_works s"
    "class_data s' = class_data s" for d
    by (simp_all add: s'_def)
  have same: "af_cpu (af_tasks s' q) = af_cpu (af_tasks s q)" "af_allowed (af_tasks s' q) = af_allowed (af_tasks s q)"
    "af_state (af_tasks s' q) = af_state (af_tasks s q)"
    "af_bound (af_tasks s' q) = af_bound (af_tasks s q)" "af_wrr (af_tasks s' q) = af_wrr (af_tasks s q)"
    "af_nr_allowed (af_tasks s' q) = af_nr_allowed (af_tasks s q)"
    "af_contributes (af_tasks s' q) = af_contributes (af_tasks s q)"
    "contributes_to_load (af_tasks s' q) = contributes_to_load (af_tasks s q)"
    "af_on_rq (af_tasks s' q) = af_on_rq (af_tasks s q)"
    "af_on_cpu (af_tasks s' q) \<longleftrightarrow> q = nxt \<or> af_on_cpu (af_tasks s q) \<and> q \<noteq> ?prev" for q
    using n by (simp_all add: s'_def contributes_to_load_def)
  have transit: "in_transit {} s' = in_transit {} s" by (rule ext) (simp only: in_transit_def same sel(2))
  have placed: "placed E {} s' = placed E {} s" by (rule ext) (simp only: placed_def same sel(4-6))
  have nxt: "nxt = idle_of e c \<or> af_on_rq (af_tasks s nxt) \<and> af_cpu (af_tasks s nxt) = c"
    using q waiting_of [OF I(1), of nxt c] by auto
  have idle: "\<not> in_transit {} s (idle_of e d)" for d
  proof
    assume "in_transit {} s (idle_of e d)"
    then have "af_state (af_tasks s (idle_of e d)) = TASK_WAKING"
      using I(4) by (simp add: transit_ok_def in_transit_def)
    then show False using I(5) by (simp add: threads_fixed_def TASK_WAKING_def TASK_RUNNING_def)
  qed
  have "\<not> in_transit {} s nxt" using nxt idle queued_off_lists [OF I(4)] by metis
  then have "q \<noteq> nxt" if "in_transit {} s q" for q using that by blast
  then have "transit_ok E {} {} s'" using I(4) unfolding transit_ok_def transit same sel(2,4) by simp
  moreover have "running_ok e s'"
  proof -
    have idle_off: "\<not> af_on_rq (af_tasks s (idle_of e d))" "inj (idle_of e)" for d
      using I(5) by (simp_all add: threads_fixed_def)
    have other: "aq_curr (af_rqs s d) \<noteq> nxt" if "d \<noteq> c" for d
      using nxt I(6) that unfolding running_ok_def by metis
    have "inj (\<lambda>d. aq_curr (af_rqs s' d))"
      using I(6) other unfolding running_ok_def sel inj_def by metis
    moreover have "\<forall>d b. aq_curr (af_rqs s' d) = idle_of e b \<longrightarrow> d = b"
    proof -
      have "c = b" if "nxt = idle_of e b" for b
      proof -
        have "idle_of e c = idle_of e b" using nxt that idle_off(1) [of b] by simp
        then show ?thesis by (rule injD [OF idle_off(2)])
      qed
      moreover have "\<forall>d b. aq_curr (af_rqs s d) = idle_of e b \<longrightarrow> d = b" using I(6) unfolding running_ok_def by blast
      ultimately show ?thesis unfolding sel(1) by metis
    qed
    moreover have "\<forall>d. af_on_rq (af_tasks s' (aq_curr (af_rqs s' d))) \<longrightarrow>
        af_cpu (af_tasks s' (aq_curr (af_rqs s' d))) = d"
    proof -
      have "af_on_rq (af_tasks s nxt) \<Longrightarrow> af_cpu (af_tasks s nxt) = c" using nxt idle_off by metis
      then show ?thesis using I(6) unfolding running_ok_def same(1,9) sel(1) by simp
    qed
    moreover have "af_on_cpu (af_tasks s' q) \<longleftrightarrow> (\<exists>d. aq_curr (af_rqs s' d) = q)" for q
    proof -
      have "(\<exists>d. aq_curr (af_rqs s' d) = q) \<longleftrightarrow> q = nxt \<or> (\<exists>d. d \<noteq> c \<and> aq_curr (af_rqs s d) = q)"
        unfolding sel(1) by auto
      also have "(\<exists>d. d \<noteq> c \<and> aq_curr (af_rqs s d) = q) \<longleftrightarrow> (\<exists>d. aq_curr (af_rqs s d) = q) \<and> q \<noteq> ?prev"
        by (auto simp: curr_inj [OF I(6)])
      finally show ?thesis using I(6) unfolding running_ok_def same(10) by simp
    qed
    ultimately show ?thesis by (simp only: running_ok_def) blast
  qed
  ultimately have "aff_inv_at e Q E {} {} s'"
    using I unfolding aff_inv_at_def linked_def cpus_ok_def tasks_ok_def threads_fixed_def load_ok_def sleeping_load_def
      transit placed same sel(3-7) by simp
  then show ?thesis by (simp only: s'_def)
qed

lemma schedule_mp_ok:
  assumes ok: "classes_ok e Q" and inv: "aff_inv e Q E s" and c: "c \<in> online_mask s"
  shows "aff_inv e Q E (schedule_mp e c sig preempted s)"
proof -
  let ?prev = "aq_curr (af_rqs s c)"
  have at: "aff_inv_at e Q E {} {} s" and rest: "resting e s" using inv by (simp_all add: aff_inv_def)
  define s1 where "s1 = (if af_state (af_tasks s ?prev) \<noteq> 0 \<and> \<not> preempted
      then if sig then upd_aff ?prev (af_state_update (\<lambda>_. TASK_RUNNING)) s
           else upd_aff ?prev (af_on_rq_update (\<lambda>_. False)) (deactivate_task_mp e c ?prev s)
      else s)"
  have prev: "af_on_rq (af_tasks s ?prev) \<and> af_cpu (af_tasks s ?prev) = c" if "af_state (af_tasks s ?prev) \<noteq> 0"
    using that rest aff_invD(5,6) [OF at] unfolding resting_def running_ok_def threads_fixed_def TASK_RUNNING_def by metis
  have 1: "aff_inv_at e Q E {} {} s1"
    using at prev inv_queued_state [OF at] go_to_sleep [OF ok at _ _ c] by (auto simp: s1_def)
  have curr1: "aq_curr (af_rqs s1 d) = aq_curr (af_rqs s d)" "online_mask s1 = online_mask s" for d
    by (auto simp: s1_def deactivate_task_mp_def Let_def)
  have on1: "af_on_rq (af_tasks s1 p) = af_on_rq (af_tasks s p)" if "p \<noteq> ?prev" for p
    using that by (auto simp: s1_def deactivate_task_mp_def Let_def)
  define s2 where "s2 = class_data_update (cl_put_prev e c ?prev) (cl_pull e c ?prev s1)"
  have r: "rebalanced e Q s1 (cl_pull e c ?prev s1)" by (rule classes_okD(14) [OF ok aff_invD(1) [OF 1]])
  have 2: "aff_inv_at e Q E {} {} s2"
    unfolding s2_def by (rule keeps_class [OF inv_rebalanced [OF 1 r]]) (simp add: classes_okD(3) [OF ok])
  obtain nxt k where pick: "cl_pick e c (aq_stop (af_rqs s2 c)) (class_data s2) = (nxt, k)" by fastforce
  have k: "Q d k = Q d (class_data s2)" for d
    using classes_okD(9) [OF ok, of d c "aq_stop (af_rqs s2 c)" "class_data s2"] by (simp add: pick)
  have nxt: "nxt \<in> insert (idle_of e c) (Q c k)"
    using classes_okD(10) [OF ok, of c "aq_stop (af_rqs s2 c)" "class_data s2"] by (simp add: pick k)
  define s3 where "s3 = s2\<lparr>class_data := k\<rparr>"
  have 3: "aff_inv_at e Q E {} {} s3"
    using keeps_class [OF 2, of "\<lambda>_. k"] k by (simp add: s3_def)
  have curr3: "aq_curr (af_rqs s3 d) = aq_curr (af_rqs s d)" for d
    using rebalancedD(5) [OF r] by (simp add: s3_def s2_def curr1)
  define s4 where "s4 = (if nxt = ?prev then s3
      else upd_aff ?prev (af_on_cpu_update (\<lambda>_. False))
             (upd_aff nxt (af_on_cpu_update (\<lambda>_. True)) (upd_aff_rq c (aq_curr_update (\<lambda>_. nxt)) s3)))"
  have q3: "nxt \<in> insert (idle_of e c) (Q c (class_data s3))" using nxt by (simp add: s3_def)
  have 4: "aff_inv_at e Q E {} {} s4"
  proof (cases "nxt = ?prev")
    case False
    show ?thesis using switch_ok [OF 3 _ q3, unfolded curr3, OF False] by (simp only: s4_def False if_False)
  qed (use 3 in \<open>simp add: s4_def\<close>)
  have r': "rebalanced e Q s4 (cl_post e c s4)" by (rule classes_okD(15) [OF ok aff_invD(1) [OF 4]])
  have on4: "af_on_rq (af_tasks s4 p) = af_on_rq (af_tasks s1 p)" for p
    by (simp add: s4_def s3_def s2_def rebalanced_task(5) [OF r])
  have curr4: "aq_curr (af_rqs s4 d) = (if d = c then nxt else aq_curr (af_rqs s d))" for d
    by (simp add: s4_def curr3)
  have "resting e s4"
  proof -
    have "nxt = idle_of e c \<or> af_on_rq (af_tasks s4 nxt)"
      using nxt waiting_of [OF aff_invD(1) [OF 3], of nxt c] by (auto simp: s4_def s3_def)
    moreover have "aq_curr (af_rqs s d) \<noteq> ?prev" if "d \<noteq> c" for d
      using that by (simp add: curr_inj [OF aff_invD(6) [OF at]])
    ultimately show ?thesis using rest on1 by (auto simp: resting_def curr4 on4)
  qed
  moreover have "schedule_mp e c sig preempted s = cl_post e c s4"
    by (simp only: schedule_mp_def Let_def s1_def [symmetric] s2_def [symmetric] pick prod.case
        s3_def [symmetric] s4_def [symmetric])
  ultimately show ?thesis
    using inv_rebalanced [OF 4 r'] resting_grows grows_rebalanced [OF r'] by (auto simp: aff_inv_def)
qed

section \<open>Masks and migration\<close>

lemma first_cpu_mem: "first_cpu e m \<noteq> ncpus e \<Longrightarrow> first_cpu e m \<in> m \<and> first_cpu e m < ncpus e"
  by (auto simp: first_cpu_def find_Some_iff split: option.splits)

definition add_work :: "stop_work option \<Rightarrow> 'c aff \<Rightarrow> 'c aff" where
  "add_work w s = (case w of None \<Rightarrow> s | Some x \<Rightarrow> s\<lparr>stop_works := stop_works s @ [x]\<rparr>)"

text \<open>A change of the mask that meets a task on its way to a processor makes it go astray.\<close>

definition on_the_way :: "tid \<Rightarrow> 'c aff \<Rightarrow> bool" where
  "on_the_way p s \<longleftrightarrow> (\<exists>c. p \<in> set (wake_list (af_rqs s c)))"

lemma set_cpus_allowed_ptr_ok:
  assumes ok: "classes_ok e Q" and inv: "aff_inv_at e Q E {} {} s"
    and p: "on_the_way p s \<Longrightarrow> af_allowed (af_tasks s1 p) \<noteq> af_allowed (af_tasks s p) \<Longrightarrow> p \<in> E"
      "\<And>c. p = stopper_of e c \<Longrightarrow> p \<noteq> cur"
    and res: "set_cpus_allowed_ptr e cur p m s = (r, w, s1)"
  shows "aff_inv_at e Q E {} {} (add_work w s1)" and "grows s (add_work w s1)"
proof -
  note I = aff_invD [OF inv]
  have "aff_inv_at e Q E {} {} (add_work w s1) \<and> grows s (add_work w s1)"
  proof (cases "s1 = s \<and> w = None")
    case True
    then show ?thesis using inv by (simp add: add_work_def)
  next
    case False
    let ?cpu = "af_cpu (af_tasks s p)" and ?dest = "first_cpu e (active_mask s \<inter> m)"
    have new: "first_cpu e (m \<inter> active_mask s) \<noteq> ncpus e" "\<not> (af_bound (af_tasks s p) \<and> p \<noteq> cur)"
      and ne: "af_allowed (af_tasks s p) \<noteq> m" and s1: "s1 = do_set_cpus_allowed_mp e p m s"
      and w: "w = (if ?cpu \<notin> m \<and> af_on_rq (af_tasks s p) then Some (p, ?cpu, ?dest) else None)"
      using res False by (auto simp: set_cpus_allowed_ptr_def do_set_cpus_allowed_mp_def Let_def split: if_splits)
    let ?s = "add_work w s1"
    have dest: "?dest \<in> m" "?dest \<in> active_mask s" using first_cpu_mem new(1) by (metis Int_iff Int_commute)+
    have stop: "p \<noteq> stopper_of e c" for c using p(2) new(2) I(5) unfolding threads_fixed_def by metis
    have sel: "af_rqs ?s = af_rqs s" "online_mask ?s = online_mask s" "active_mask ?s = active_mask s"
      "class_data ?s = cl_set_allowed e p m (class_data s)"
      "set (stop_works ?s) = set (stop_works s) \<union> (if ?cpu \<notin> m \<and> af_on_rq (af_tasks s p) then {(p, ?cpu, ?dest)} else {})"
      by (auto simp: add_work_def s1 w do_set_cpus_allowed_mp_def)
    have same: "af_cpu (af_tasks ?s q) = af_cpu (af_tasks s q)" "af_state (af_tasks ?s q) = af_state (af_tasks s q)"
      "af_bound (af_tasks ?s q) = af_bound (af_tasks s q)" "af_wrr (af_tasks ?s q) = af_wrr (af_tasks s q)"
      "af_contributes (af_tasks ?s q) = af_contributes (af_tasks s q)"
      "contributes_to_load (af_tasks ?s q) = contributes_to_load (af_tasks s q)"
      "af_on_rq (af_tasks ?s q) = af_on_rq (af_tasks s q)" "af_on_cpu (af_tasks ?s q) = af_on_cpu (af_tasks s q)"
      "af_allowed (af_tasks ?s q) = (if q = p then m else af_allowed (af_tasks s q))"
      "af_nr_allowed (af_tasks ?s q) = (if q = p then mask_weight e m else af_nr_allowed (af_tasks s q))" for q
      by (auto simp: add_work_def s1 do_set_cpus_allowed_mp_def contributes_to_load_def split: option.split)
    have transit: "in_transit {} ?s = in_transit {} s" by (rule ext) (simp only: in_transit_def same sel(1))
    have placed: "placed E {} ?s q" if "af_on_rq (af_tasks s q)" "placed E {} s q" for q
      using that dest unfolding placed_def same sel by (cases "q = p") auto
    have "linked Q ?s" using I(1) unfolding linked_def same sel by (simp add: classes_okD(5) [OF ok])
    moreover have "tasks_ok e E {} ?s" using I(3) placed unfolding tasks_ok_def same by auto
    moreover have "transit_ok E {} {} ?s"
    proof -
      have "q \<in> E" if "in_transit {} s q" "q = p" for q using that p(1) ne
        by (auto simp: in_transit_def on_the_way_def s1 do_set_cpus_allowed_mp_def)
      then show ?thesis using I(4) unfolding transit_ok_def transit same sel by (metis (no_types, lifting))
    qed
    moreover have "threads_fixed e ?s"
    proof -
      have stop': "stopper_of e c \<noteq> p" for c using stop by metis
      show ?thesis using I(5) stop unfolding threads_fixed_def same sel by (auto simp: stop')
    qed
    ultimately have "aff_inv_at e Q E {} {} ?s"
      using I(2,6,7) unfolding aff_inv_at_def cpus_ok_def running_ok_def load_ok_def sleeping_load_def transit same sel
      by simp
    moreover have "grows s ?s" unfolding grows_def same sel by simp
    ultimately show ?thesis by blast
  qed
  then show "aff_inv_at e Q E {} {} (add_work w s1)" and "grows s (add_work w s1)" by simp_all
qed

lemma rebalanced_refl:
  assumes "linked Q s"
  shows "rebalanced e Q s s"
proof -
  have "s = s\<lparr>af_tasks := af_tasks s, class_data := class_data s, af_ipis := af_ipis s\<rparr>" by simp
  moreover have "af_tasks s p = (af_tasks s p)\<lparr>af_cpu := af_cpu (af_tasks s p), af_migrations := af_migrations (af_tasks s p)\<rparr>" for p
    by simp
  ultimately show ?thesis using assms unfolding rebalanced_def by metis
qed

text \<open>The stop thread moves a waiting task to a processor it may run on, or leaves all as it is.\<close>

lemma migrate_rebalanced:
  assumes ok: "classes_ok e Q" and link: "linked Q s" and cpus: "cpus_ok e D s"
    and p: "\<not> (af_on_rq (af_tasks s p) \<and> af_cpu (af_tasks s p) = src \<and> af_on_cpu (af_tasks s p))"
      "\<And>c. p \<noteq> stopper_of e c" "af_on_rq (af_tasks s p) \<Longrightarrow> p < PID_MAX_LIMIT"
  shows "rebalanced e Q s (snd (migrate_task_mp e p src dest s))"
proof (cases "dest \<in> active_mask s \<and> af_cpu (af_tasks s p) = src \<and> dest \<in> af_allowed (af_tasks s p) \<and> af_on_rq (af_tasks s p)")
  case False
  then have "snd (migrate_task_mp e p src dest s) = s" by (auto simp: migrate_task_mp_def)
  then show ?thesis using rebalanced_refl [OF link] by simp
next
  case True
  let ?k = "cl_dequeue e src p (class_data s)"
  let ?s = "snd (migrate_task_mp e p src dest s)"
  let ?n = "if af_cpu (af_tasks s p) = dest then af_migrations (af_tasks s p) else af_migrations (af_tasks s p) + 1"
  have s: "?s = s\<lparr>af_tasks := (af_tasks s)(p := (af_tasks s p)\<lparr>af_cpu := dest, af_migrations := ?n\<rparr>),
      class_data := cl_preempt e dest p (cl_enqueue e dest p ?k), af_ipis := af_ipis s\<rparr>"
    using True by (cases "af_tasks s p") (auto simp: migrate_task_mp_def set_task_cpu_mp_def)
  have q: "p \<in> Q src (class_data s)" using True waiting_of [OF link] by simp
  have Q: "Q d ?k = (if d = src then Q src (class_data s) - {p} else Q d (class_data s))" for d
    by (rule classes_okD(2) [OF ok q])
  have lim: "p < PID_MAX_LIMIT" using True p(3) by blast
  have "p \<notin> Q d ?k" for d using Q waiting_of [OF link, of p d] True by auto
  then have Q': "Q d (cl_enqueue e dest p ?k) = (if d = dest then insert p (Q dest ?k) else Q d ?k)" for d
    by (rule classes_okD(1) [OF ok lim])
  have "q \<in> Q d (class_data ?s) \<longleftrightarrow> af_on_rq (af_tasks ?s q) \<and> af_cpu (af_tasks ?s q) = d" for q d
    using waiting_of [OF link, of q d] waiting_of [OF link, of q dest] waiting_of [OF link, of q src] True
    by (simp add: s classes_okD(4) [OF ok] Q' Q)
  then have "linked Q ?s" by (auto simp: linked_def)
  moreover have "\<exists>c n. af_tasks ?s q = (af_tasks s q)\<lparr>af_cpu := c, af_migrations := n\<rparr>" for q
  proof (cases "q = p")
    case False
    then have "af_tasks ?s q = (af_tasks s q)\<lparr>af_cpu := af_cpu (af_tasks s q), af_migrations := af_migrations (af_tasks s q)\<rparr>"
      unfolding s by simp
    then show ?thesis by blast
  next
    case True
    then have "af_tasks ?s q = (af_tasks s q)\<lparr>af_cpu := dest, af_migrations := ?n\<rparr>" unfolding s by simp
    then show ?thesis by blast
  qed
  moreover have "af_cpu (af_tasks ?s q) \<noteq> af_cpu (af_tasks s q) \<longrightarrow>
      af_on_rq (af_tasks s q) \<and> \<not> af_on_cpu (af_tasks s q) \<and> (\<forall>c. q \<noteq> stopper_of e c) \<and>
      af_cpu (af_tasks ?s q) \<in> online_mask s \<inter> af_allowed (af_tasks s q)" for q
    using True p cpus unfolding s by (auto simp: cpus_ok_def)
  ultimately show ?thesis unfolding rebalanced_def using s by blast
qed

text \<open>When the stop thread of a processor runs, no other task of its queue does.\<close>

lemma stopper_runs_alone:
  assumes inv: "aff_inv_at e Q E W D s" and c: "aq_curr (af_rqs s c) = stopper_of e c" and p: "p \<noteq> stopper_of e c"
  shows "\<not> (af_on_rq (af_tasks s p) \<and> af_cpu (af_tasks s p) = c \<and> af_on_cpu (af_tasks s p))"
proof
  assume on: "af_on_rq (af_tasks s p) \<and> af_cpu (af_tasks s p) = c \<and> af_on_cpu (af_tasks s p)"
  then obtain d where d: "aq_curr (af_rqs s d) = p" using aff_invD(6) [OF inv] by (auto simp: running_ok_def)
  have "af_on_rq (af_tasks s (aq_curr (af_rqs s d))) \<longrightarrow> af_cpu (af_tasks s (aq_curr (af_rqs s d))) = d"
    using aff_invD(6) [OF inv] unfolding running_ok_def by blast
  then have "c = d" using on d by simp
  then show False using c d p by simp
qed

lemma stop_work_ok:
  assumes ok: "classes_ok e Q" and inv: "aff_inv_at e Q E {} {} s"
    and w: "(p, src, d) \<in> set (stop_works s)" and c: "aq_curr (af_rqs s src) = stopper_of e src"
    and s': "s' = stop_works_update (remove1 (p, src, d)) (migration_cpu_stop e src (p, src, d) s)"
  shows "aff_inv_at e Q E {} {} s'" and "grows s s'"
proof -
  let ?s1 = "migration_cpu_stop e src (p, src, d) s"
  note I = aff_invD [OF inv]
  have p: "\<And>c. p \<noteq> stopper_of e c" using I(5) w by (auto simp: threads_fixed_def)
  have r: "rebalanced e Q s ?s1"
    using migrate_rebalanced [OF ok I(1,2) stopper_runs_alone [OF inv c p] p] I(3)
    by (simp add: migration_cpu_stop_def tasks_ok_def)
  note inv1 = inv_rebalanced [OF inv r]
  note J = aff_invD [OF inv1]
  have moved: "af_cpu (af_tasks ?s1 p) = d" if "af_on_rq (af_tasks s p)" "af_cpu (af_tasks s p) = src"
      "d \<in> active_mask s" "d \<in> af_allowed (af_tasks s p)"
    using that by (simp add: migration_cpu_stop_def migrate_task_mp_def set_task_cpu_mp_def)
  have "placed E {} s' q" if on: "af_on_rq (af_tasks ?s1 q)" and pl: "placed E {} ?s1 q" for q
  proof (cases "q = p \<and> af_cpu (af_tasks ?s1 p) = src \<and> d \<in> af_allowed (af_tasks ?s1 p) \<and> d \<in> active_mask ?s1")
    case False
    have keep: "(q, af_cpu (af_tasks ?s1 q), x) \<in> set (remove1 (p, src, d) (stop_works ?s1))"
      if "(q, af_cpu (af_tasks ?s1 q), x) \<in> set (stop_works ?s1)" "x \<in> af_allowed (af_tasks ?s1 q)" "x \<in> active_mask ?s1" for x
      using that False by (subst in_set_remove1) auto
    then show ?thesis using pl unfolding placed_def s' by auto
  next
    case True
    have "af_cpu (af_tasks ?s1 p) = d \<or> af_cpu (af_tasks s p) \<noteq> src"
      using True on moved rebalanced_task(3,5) [OF r, of p] rebalancedD(3) [OF r] by auto
    moreover have "af_cpu (af_tasks s p) = src"
      using True by (auto simp: migration_cpu_stop_def migrate_task_mp_def set_task_cpu_mp_def split: if_splits)
    ultimately show ?thesis using True pl by (auto simp: placed_def s')
  qed
  then have "tasks_ok e E {} s'" using J(3) unfolding tasks_ok_def by (simp add: s')
  moreover have "in_transit {} s' = in_transit {} ?s1" by (rule ext) (simp add: in_transit_def s')
  moreover have "threads_fixed e s'"
  proof -
    have "set (stop_works s') \<subseteq> set (stop_works ?s1)" by (simp add: s' set_remove1_subset)
    then have "\<forall>(p, src, d) \<in> set (stop_works s'). \<forall>c. p \<noteq> stopper_of e c"
      using J(5) unfolding threads_fixed_def by blast
    then show ?thesis using J(5) unfolding threads_fixed_def by (simp add: s')
  qed
  ultimately show "aff_inv_at e Q E {} {} s'"
    using J unfolding aff_inv_at_def linked_def cpus_ok_def transit_ok_def running_ok_def load_ok_def sleeping_load_def
    by (simp add: s')
  show "grows s s'" using grows_rebalanced [OF r] by (simp add: grows_def s')
qed

end
