(* ===== verification/Affinity_Down.thy ===== *)
theory Affinity_Down
  imports Affinity_Ops
begin

text \<open>
  Taking a processor down: when the loop of \<^verbatim>\<open>migrate_tasks()\<close> ends only the stop thread is left, it ends
  unless \<^verbatim>\<open>pick_next_task()\<close> finds nothing but the idle task, and the counters of the processor go to
  another one.
\<close>

section \<open>Changes outside of the invariant\<close>

lemma aff_inv_cong:
  assumes inv: "aff_inv_at e Q E W D s"
    and same: "af_tasks s' = af_tasks s" "\<And>c. aq_curr (af_rqs s' c) = aq_curr (af_rqs s c)"
      "\<And>c. wake_list (af_rqs s' c) = wake_list (af_rqs s c)" "\<And>c. aq_nr_unint (af_rqs s' c) = aq_nr_unint (af_rqs s c)"
      "online_mask s' = online_mask s" "active_mask s' = active_mask s" "stop_works s' = stop_works s"
    and Q: "\<And>c. Q c (class_data s') = Q c (class_data s)"
  shows "aff_inv_at e Q E W D s'"
proof -
  have "in_transit W s' = in_transit W s" "placed E D s' = placed E D s"
    by (rule ext, simp only: in_transit_def placed_def same)+
  then show ?thesis
    using aff_invD [OF inv] unfolding aff_inv_at_def
    by (simp only: linked_def cpus_ok_def tasks_ok_def transit_ok_def threads_fixed_def running_ok_def
        load_ok_def sleeping_load_def same Q) simp
qed

text \<open>The mask of a task on the processor that goes down may change freely, and that of an idle task.\<close>

lemma inv_mask_changed:
  assumes ok: "classes_ok e Q" and inv: "aff_inv_at e Q E {} D s" and m: "mask_changed e p s s'"
    and p: "af_on_rq (af_tasks s p) \<Longrightarrow> af_cpu (af_tasks s p) \<in> D" "\<not> in_transit {} s p" "\<And>c. p \<noteq> stopper_of e c"
  shows "aff_inv_at e Q E {} D s'"
proof -
  note I = aff_invD [OF inv]
  obtain m0 n ms where s': "s' = s\<lparr>af_tasks := (af_tasks s)(p := (af_tasks s p)\<lparr>af_allowed := m0, af_nr_allowed := mask_weight e m0\<rparr>),
      class_data := fold (cl_set_allowed e p) ms (class_data s), notices := n\<rparr>"
    using m unfolding mask_changed_def by blast
  have sel: "af_rqs s' = af_rqs s" "online_mask s' = online_mask s" "active_mask s' = active_mask s"
    "stop_works s' = stop_works s" "class_data s' = fold (cl_set_allowed e p) ms (class_data s)"
    by (simp_all add: s')
  have same: "af_cpu (af_tasks s' q) = af_cpu (af_tasks s q)" "af_state (af_tasks s' q) = af_state (af_tasks s q)"
    "af_bound (af_tasks s' q) = af_bound (af_tasks s q)" "af_wrr (af_tasks s' q) = af_wrr (af_tasks s q)"
    "af_contributes (af_tasks s' q) = af_contributes (af_tasks s q)"
    "contributes_to_load (af_tasks s' q) = contributes_to_load (af_tasks s q)"
    "af_on_rq (af_tasks s' q) = af_on_rq (af_tasks s q)" "af_on_cpu (af_tasks s' q) = af_on_cpu (af_tasks s q)"
    "af_allowed (af_tasks s' q) = (if q = p then m0 else af_allowed (af_tasks s q))"
    "af_nr_allowed (af_tasks s' q) = (if q = p then mask_weight e m0 else af_nr_allowed (af_tasks s q))" for q
    by (auto simp: s' contributes_to_load_def)
  have transit: "in_transit {} s' = in_transit {} s" by (rule ext) (simp only: in_transit_def same sel)
  have placed: "placed E D s' q" if "af_on_rq (af_tasks s q)" "placed E D s q" for q
    using that p(1) unfolding placed_def same sel by (cases "q = p") auto
  have "tasks_ok e E D s'" using I(3) placed unfolding tasks_ok_def same by auto
  moreover have "transit_ok E {} D s'"
  proof -
    have "q \<noteq> p" if "in_transit {} s q" for q using that p(2) by blast
    then show ?thesis using I(4) unfolding transit_ok_def transit same sel by simp
  qed
  moreover have "threads_fixed e s'"
  proof -
    have stop: "stopper_of e c \<noteq> p" for c using p(3) by metis
    show ?thesis using I(5) unfolding threads_fixed_def same sel by (auto simp: stop)
  qed
  ultimately show ?thesis
    using I(1,2,6,7)
    unfolding aff_inv_at_def linked_def cpus_ok_def running_ok_def load_ok_def sleeping_load_def transit same sel
    by (simp add: fold_set_allowed [OF ok])
qed

section \<open>The loop\<close>

text \<open>What the loop leaves alone.\<close>

definition draining :: "'c aff \<Rightarrow> 'c aff \<Rightarrow> bool" where
  "draining s s' \<longleftrightarrow> af_rqs s' = af_rqs s \<and> online_mask s' = online_mask s \<and> active_mask s' = active_mask s \<and>
     stop_works s' = stop_works s \<and> af_calc_load_tasks s' = af_calc_load_tasks s \<and>
     (\<forall>p. af_on_rq (af_tasks s' p) = af_on_rq (af_tasks s p))"

lemma draining_refl [simp]: "draining s s" by (simp add: draining_def)

lemma draining_trans: "draining s s1 \<Longrightarrow> draining s1 s2 \<Longrightarrow> draining s s2" by (simp add: draining_def)

lemma queue_bounded:
  assumes "aff_inv_at e Q E W D s"
  shows "card (Q c (class_data s)) < 2 ^ 32"
proof -
  have "Q c (class_data s) \<subseteq> {..<PID_MAX_LIMIT}"
    using aff_invD(1,3) [OF assms] by (auto simp: linked_def tasks_ok_def)
  then have "card (Q c (class_data s)) \<le> PID_MAX_LIMIT" by (metis card_lessThan card_mono finite_lessThan)
  then show ?thesis by (simp add: PID_MAX_LIMIT_def)
qed

lemma nr_running_one:
  assumes "classes_ok e Q" and "aff_inv_at e Q E W D s"
  shows "cl_nr_running e c (class_data s) = 1 \<longleftrightarrow> card (Q c (class_data s)) = 1"
proof -
  have "card (Q c (class_data s)) = 1" if "(of_nat (card (Q c (class_data s))) :: ulong) = of_nat 1"
    by (rule of_nat_word32_inj [OF queue_bounded [OF assms(2)] _ that]) simp
  then show ?thesis by (auto simp: classes_okD(12) [OF assms(1)])
qed

text \<open>One turn of the loop.\<close>

inductive migrate_turn :: "'c aff_env \<Rightarrow> nat \<Rightarrow> 'c aff \<Rightarrow> 'c aff \<Rightarrow> bool" for e c where
  "cl_nr_running e c (class_data s) \<noteq> 1 \<Longrightarrow> cl_pick e c (aq_stop (af_rqs s c)) (class_data s) = (p, k) \<Longrightarrow>
   select_fallback_rq e c p (s\<lparr>class_data := cl_put_prev e c p k\<rparr>) = (Some dest, s2) \<Longrightarrow>
   migrate_turn e c s (snd (migrate_task_mp e p c dest s2))"

definition stopping :: "'c aff_env \<Rightarrow> (nat \<Rightarrow> 'c \<Rightarrow> tid set) \<Rightarrow> tid set \<Rightarrow> nat \<Rightarrow> 'c aff \<Rightarrow> bool" where
  "stopping e Q E c s \<longleftrightarrow> aff_inv_at e Q E {} {c} s \<and> aq_curr (af_rqs s c) = stopper_of e c \<and>
     stopper_of e c \<in> Q c (class_data s) \<and> aq_stop (af_rqs s c) = None"

lemma migrate_picked:
  assumes ok: "classes_ok e Q" and inv: "aff_inv_at e Q E {} {c} s" and c: "aq_curr (af_rqs s c) = stopper_of e c"
    and p: "af_on_rq (af_tasks s p) \<Longrightarrow> af_cpu (af_tasks s p) = c" "\<And>d. p \<noteq> stopper_of e d" "\<not> in_transit {} s p"
    and k: "\<And>d. Q d k = Q d (class_data s)"
  shows "\<exists>dest s2. select_fallback_rq e c p (s\<lparr>class_data := cl_put_prev e c p k\<rparr>) = (Some dest, s2) \<and>
    (let s3 = snd (migrate_task_mp e p c dest s2)
     in aff_inv_at e Q E {} {c} s3 \<and> draining s s3 \<and> Q c (class_data s3) = Q c (class_data s) - {p})"
proof -
  let ?s1 = "s\<lparr>class_data := cl_put_prev e c p k\<rparr>"
  have 1: "aff_inv_at e Q E {} {c} ?s1" by (rule aff_inv_cong [OF inv]) (simp_all add: classes_okD(3) [OF ok] k)
  obtain dest s2 where sel: "select_fallback_rq e c p ?s1 = (Some dest, s2)" "settled_on e p ?s1 dest s2"
    using select_fallback_rq_ok [OF aff_invD(2) [OF 1] weighed_inv [OF 1]] by blast
  note m = sel(2) [unfolded settled_on_def] and M = mask_changedD [OF m [THEN conjunct1]]
  have 2: "aff_inv_at e Q E {} {c} s2"
    using p by (intro inv_mask_changed [OF ok 1 m [THEN conjunct1]]) (simp_all add: in_transit_def)
  have same2: "af_on_rq (af_tasks s2 p) = af_on_rq (af_tasks s p)" "af_cpu (af_tasks s2 p) = af_cpu (af_tasks s p)"
    using M(6) by auto
  let ?s3 = "snd (migrate_task_mp e p c dest s2)"
  have lim: "af_on_rq (af_tasks s2 p) \<Longrightarrow> p < PID_MAX_LIMIT" using aff_invD(3) [OF 2] by (simp add: tasks_ok_def)
  have r: "rebalanced e Q s2 ?s3"
    by (rule migrate_rebalanced [OF ok aff_invD(1,2) [OF 2] stopper_runs_alone [OF 2 _ p(2)] p(2) lim]) (simp_all add: M c)
  have 3: "aff_inv_at e Q E {} {c} ?s3" by (rule inv_rebalanced [OF 2 r])
  have away: "dest \<noteq> c" using m aff_invD(2) [OF 2] by (auto simp: cpus_ok_def)
  have p3: "\<not> (af_on_rq (af_tasks ?s3 p) \<and> af_cpu (af_tasks ?s3 p) = c)"
    using m p(1) away by (auto simp: migrate_task_mp_def set_task_cpu_mp_def same2)
  have other: "af_tasks s2 q = af_tasks s q" if "q \<noteq> p" for q using M(5) [OF that] by simp
  have q3: "af_on_rq (af_tasks ?s3 q) = af_on_rq (af_tasks s q)" for q
    using rebalanced_task(5) [OF r, of q] same2 other [of q] by (cases "q = p") simp_all
  have cpu3: "af_cpu (af_tasks ?s3 q) = af_cpu (af_tasks s q)" if "q \<noteq> p" for q
    using other [OF that] that by (simp add: migrate_task_mp_def set_task_cpu_mp_def)
  have "x \<in> Q c (class_data ?s3) \<longleftrightarrow> x \<in> Q c (class_data s) \<and> x \<noteq> p" for x
    using waiting_of [OF aff_invD(1) [OF 3], of x c] waiting_of [OF aff_invD(1) [OF inv], of x c] q3 p3 cpu3 [of x]
    by (cases "x = p") auto
  then have "Q c (class_data ?s3) = Q c (class_data s) - {p}" by auto
  moreover have "af_calc_load_tasks s2 = af_calc_load_tasks s" using m by (auto simp: mask_changed_def)
  then have "draining s ?s3" using M(1-4) rebalancedD(2-7) [OF r] q3 by (simp add: draining_def)
  ultimately show ?thesis using sel(1) 3 by (simp add: Let_def)
qed

lemma migrate_turn_ok:
  assumes ok: "classes_ok e Q" and hidden: "stop_hidden e" and s: "stopping e Q E c s"
    and pick: "cl_pick e c (aq_stop (af_rqs s c)) (class_data s) = (p, k)"
  shows "\<exists>dest s2. select_fallback_rq e c p (s\<lparr>class_data := cl_put_prev e c p k\<rparr>) = (Some dest, s2) \<and>
    (let s3 = snd (migrate_task_mp e p c dest s2)
     in stopping e Q E c s3 \<and> draining s s3 \<and> Q c (class_data s3) = Q c (class_data s) - {p})"
proof -
  note S = s [unfolded stopping_def] and I = aff_invD [OF S [THEN conjunct1]]
  have p: "p = idle_of e c \<or> p \<in> Q c (class_data s)"
    using classes_okD(10) [OF ok, of c "aq_stop (af_rqs s c)" "class_data s"] by (simp add: pick)
  have on: "af_on_rq (af_tasks s p) \<Longrightarrow> af_cpu (af_tasks s p) = c"
    using p waiting_of [OF I(1), of p c] I(5) by (auto simp: threads_fixed_def)
  have "p \<noteq> stopper_of e c" using hidden pick S unfolding stop_hidden_def by (metis fst_conv)
  moreover have "p \<noteq> stopper_of e d" if "d \<noteq> c" for d
  proof
    assume *: "p = stopper_of e d"
    have "af_cpu (af_tasks s (stopper_of e d)) = d" "idle_of e c \<noteq> stopper_of e d" using I(5) by (auto simp: threads_fixed_def)
    then show False using p that * waiting_of [OF I(1), of p c] by auto
  qed
  ultimately have stop: "p \<noteq> stopper_of e d" for d by (cases "d = c") simp_all
  have transit: "\<not> in_transit {} s p"
  proof
    assume *: "in_transit {} s p"
    then have "p \<in> set (wake_list (af_rqs s (af_cpu (af_tasks s p))))" by (simp add: in_transit_def)
    then have "af_state (af_tasks s p) = TASK_WAKING" "\<not> af_on_rq (af_tasks s p)"
      using I(4) * unfolding transit_ok_def by blast+
    then show False
      using p I(5) waiting_of [OF I(1), of p c] by (auto simp: threads_fixed_def TASK_WAKING_def TASK_RUNNING_def)
  qed
  have k: "Q d k = Q d (class_data s)" for d
    using classes_okD(9) [OF ok, of d c "aq_stop (af_rqs s c)" "class_data s"] by (simp add: pick)
  have "stopper_of e c \<noteq> p" using stop by metis
  then show ?thesis
    using migrate_picked [OF ok S [THEN conjunct1] _ on stop transit k] S
    by (auto simp: stopping_def draining_def Let_def)
qed

lemma migrate_turns:
  assumes ok: "classes_ok e Q" and hidden: "stop_hidden e"
  shows "(migrate_turn e c)\<^sup>*\<^sup>* s s' \<Longrightarrow> stopping e Q E c s \<Longrightarrow> stopping e Q E c s' \<and> draining s s'"
proof (induction rule: rtranclp_induct)
  case (step y z)
  from step.hyps(2) step.IH [OF step.prems] show ?case
    by (cases rule: migrate_turn.cases) (use migrate_turn_ok [OF ok hidden] draining_trans in \<open>fastforce simp: Let_def\<close>)
qed simp

lemma only_stopper:
  assumes "classes_ok e Q" and "stopping e Q E c s"
  shows "cl_nr_running e c (class_data s) = 1 \<longleftrightarrow> Q c (class_data s) = {stopper_of e c}"
proof -
  have "card (Q c (class_data s)) = 1 \<longleftrightarrow> Q c (class_data s) = {stopper_of e c}"
    using assms(2) by (auto simp: stopping_def card_1_singleton_iff)
  then show ?thesis using nr_running_one [OF assms(1), of E "{}" "{c}" s c] assms(2) by (simp add: stopping_def)
qed

text \<open>When the loop ends, it has not met \<^verbatim>\<open>BUG()\<close> and only the stop thread is left.\<close>

lemma migrate_tasks_loop_result:
  assumes ok: "classes_ok e Q" and hidden: "stop_hidden e" and ret: "migrate_tasks_loop e c s = Some r"
    and s: "stopping e Q E c s"
  shows "\<exists>s'. r = Some s' \<and> stopping e Q E c s' \<and> draining s s' \<and> Q c (class_data s') = {stopper_of e c}"
proof -
  let ?P = "\<lambda>e' c' s r. e' = e \<and> c' = c \<and> stopping e Q E c s \<longrightarrow>
    (\<exists>s'. r = Some s' \<and> stopping e Q E c s' \<and> draining s s' \<and> Q c (class_data s') = {stopper_of e c})"
  have "?P e c s r"
  proof (rule migrate_tasks_loop.raw_induct [where P = ?P, OF _ ret])
    fix f e' c' s r
    assume IH: "\<And>e' c' s r. f e' c' s = Some r \<Longrightarrow> ?P e' c' s r"
      and eq: "(if cl_nr_running e' c' (class_data s) = 1 then Some (Some s)
        else let (p, k) = cl_pick e' c' (aq_stop (af_rqs s c')) (class_data s); s1 = s\<lparr>class_data := cl_put_prev e' c' p k\<rparr>
          in case select_fallback_rq e' c' p s1 of (None, s2) \<Rightarrow> Some None
             | (Some dest, s2) \<Rightarrow> f e' c' (snd (migrate_task_mp e' p c' dest s2))) = Some r"
    show "?P e' c' s r"
    proof
      assume a: "e' = e \<and> c' = c \<and> stopping e Q E c s"
      obtain p k where pick: "cl_pick e c (aq_stop (af_rqs s c)) (class_data s) = (p, k)" by fastforce
      obtain dest s2 where sel: "select_fallback_rq e c p (s\<lparr>class_data := cl_put_prev e c p k\<rparr>) = (Some dest, s2)"
        and turn: "stopping e Q E c (snd (migrate_task_mp e p c dest s2))" "draining s (snd (migrate_task_mp e p c dest s2))"
        using migrate_turn_ok [OF ok hidden _ pick] a unfolding Let_def by blast
      show "\<exists>s'. r = Some s' \<and> stopping e Q E c s' \<and> draining s s' \<and> Q c (class_data s') = {stopper_of e c}"
      proof (cases "cl_nr_running e c (class_data s) = 1")
        case True
        then show ?thesis using eq a only_stopper [OF ok] by auto
      next
        case False
        then have "f e c (snd (migrate_task_mp e p c dest s2)) = Some r" using eq a sel by (simp add: pick Let_def)
        then show ?thesis using IH turn draining_trans by blast
      qed
    qed
  qed
  then show ?thesis using s by blast
qed

text \<open>It ends, unless at some turn \<^verbatim>\<open>pick_next_task()\<close> finds nothing but the idle task.\<close>

lemma migrate_tasks_loop_ends:
  assumes ok: "classes_ok e Q" and hidden: "stop_hidden e"
  shows "stopping e Q E c s \<Longrightarrow> migrate_tasks_loop e c s = None \<Longrightarrow>
    \<exists>s1. (migrate_turn e c)\<^sup>*\<^sup>* s s1 \<and> cl_nr_running e c (class_data s1) \<noteq> 1 \<and>
      fst (cl_pick e c (aq_stop (af_rqs s1 c)) (class_data s1)) = idle_of e c"
proof (induction "card (Q c (class_data s))" arbitrary: s rule: less_induct)
  case less
  obtain p k where pick: "cl_pick e c (aq_stop (af_rqs s c)) (class_data s) = (p, k)" by fastforce
  have nr: "cl_nr_running e c (class_data s) \<noteq> 1" using less.prems(2) by (auto simp: migrate_tasks_loop.simps)
  obtain dest s2 where sel: "select_fallback_rq e c p (s\<lparr>class_data := cl_put_prev e c p k\<rparr>) = (Some dest, s2)"
    and turn: "stopping e Q E c (snd (migrate_task_mp e p c dest s2))"
      "Q c (class_data (snd (migrate_task_mp e p c dest s2))) = Q c (class_data s) - {p}"
    using migrate_turn_ok [OF ok hidden less.prems(1) pick] unfolding Let_def by blast
  show ?case
  proof (cases "p = idle_of e c")
    case True
    then show ?thesis using nr pick by (metis fst_conv rtranclp.rtrancl_refl)
  next
    case False
    then have "p \<in> Q c (class_data s)"
      using classes_okD(10) [OF ok, of c "aq_stop (af_rqs s c)" "class_data s"] by (simp add: pick)
    then have small: "card (Q c (class_data (snd (migrate_task_mp e p c dest s2)))) < card (Q c (class_data s))"
      unfolding turn(2) using classes_okD(11) [OF ok] by (intro card_Diff1_less)
    have "migrate_tasks_loop e c (snd (migrate_task_mp e p c dest s2)) = None"
      using less.prems(2) nr sel by (subst (asm) migrate_tasks_loop.simps) (simp add: pick Let_def)
    from less.hyps [OF small turn(1) this] migrate_turn.intros [OF nr pick sel]
    show ?thesis by (meson converse_rtranclp_into_rtranclp)
  qed
qed

text \<open>The state in which the loop of \<^verbatim>\<open>migrate_tasks()\<close> begins.\<close>

definition loop_start :: "'c aff_env \<Rightarrow> nat \<Rightarrow> 'c aff \<Rightarrow> 'c aff" where
  "loop_start e c s = class_data_update (cl_unthrottle e c) (upd_aff_rq c (aq_stop_update (\<lambda>_. None)) s)"

lemma loop_start_stopping:
  assumes ok: "classes_ok e Q" and inv: "aff_inv_at e Q E {} {c} s"
    and c: "aq_curr (af_rqs s c) = stopper_of e c" "stopper_of e c \<in> Q c (class_data s)"
  shows "stopping e Q E c (loop_start e c s)"
proof -
  have "aff_inv_at e Q E {} {c} (loop_start e c s)"
    by (rule aff_inv_cong [OF inv]) (simp_all add: loop_start_def classes_okD(8) [OF ok])
  then show ?thesis using c by (simp add: stopping_def loop_start_def classes_okD(8) [OF ok])
qed

lemma migrate_tasks_result:
  assumes ok: "classes_ok e Q" and hidden: "stop_hidden e" and inv: "aff_inv_at e Q E {} {c} s"
    and c: "aq_curr (af_rqs s c) = stopper_of e c" "stopper_of e c \<in> Q c (class_data s)"
    and ret: "migrate_tasks e c s = Some r"
  shows "\<exists>s'. r = Some s' \<and> aff_inv_at e Q E {} {c} s' \<and> draining s s' \<and> Q c (class_data s') = {stopper_of e c}"
proof -
  obtain r1 where r1: "migrate_tasks_loop e c (loop_start e c s) = Some r1"
    "r = map_option (upd_aff_rq c (aq_stop_update (\<lambda>_. aq_stop (af_rqs s c)))) r1"
    using ret by (auto simp: migrate_tasks_def loop_start_def Let_def)
  obtain s2 where s2: "r1 = Some s2" "stopping e Q E c s2" "draining (loop_start e c s) s2" "Q c (class_data s2) = {stopper_of e c}"
    using migrate_tasks_loop_result [OF ok hidden r1(1) loop_start_stopping [OF ok inv c]] by blast
  let ?s3 = "upd_aff_rq c (aq_stop_update (\<lambda>_. aq_stop (af_rqs s c))) s2"
  have at: "aff_inv_at e Q E {} {c} s2" using s2(2) by (simp add: stopping_def)
  have "aff_inv_at e Q E {} {c} ?s3" by (rule aff_inv_cong [OF at]) simp_all
  moreover have "af_rqs ?s3 = af_rqs s"
  proof -
    have "aq_stop_update (\<lambda>_. aq_stop r) r = r" for r :: aff_rq by (cases r) simp
    moreover have "af_rqs s2 = (af_rqs s)(c := aq_stop_update (\<lambda>_. None) (af_rqs s c))"
      using s2(3) by (simp add: draining_def loop_start_def)
    ultimately show ?thesis by (simp add: o_def fun_upd_idem)
  qed
  then have "draining s ?s3" using s2(3) by (simp add: draining_def loop_start_def)
  ultimately show ?thesis using r1(2) s2(1,4) by simp
qed

section \<open>The counters\<close>

lemma migrate_nr_uninterruptible_ok:
  assumes inv: "aff_inv_at e Q E {} {c} s"
  shows "aff_inv_at e Q E {} {c} (migrate_nr_uninterruptible e c s)"
    and "aq_nr_unint (af_rqs (migrate_nr_uninterruptible e c s) c) = 0"
proof -
  let ?d = "first_cpu e (active_mask s)" and ?s = "migrate_nr_uninterruptible e c s"
  note I = aff_invD [OF inv]
  obtain a where a: "a \<in> active_mask s" "a < ncpus e" using I(2) by (auto simp: cpus_ok_def)
  then have "find (\<lambda>c. c \<in> active_mask s) [0..<ncpus e] \<noteq> None" by (auto simp: find_None_iff)
  then obtain b where b: "find (\<lambda>c. c \<in> active_mask s) [0..<ncpus e] = Some b" by blast
  then have "?d = b" by (simp add: first_cpu_def)
  then have d: "?d \<in> active_mask s" using b by (auto simp: find_Some_iff)
  then have d': "?d \<in> possible_mask e" "?d < ncpus e" "?d \<noteq> c" and c': "c \<in> possible_mask e" "c < ncpus e"
    using I(2) by (auto simp: cpus_ok_def)
  let ?f = "\<lambda>x. aq_nr_unint (af_rqs s x)"
  let ?g = "?f(?d := ?f ?d + ?f c)"
  have "(\<lambda>x. aq_nr_unint (af_rqs ?s x)) = ?g(c := ?g c + - ?f c)"
    using d'(3) by (auto simp: migrate_nr_uninterruptible_def Let_def)
  then have sum: "cpu_sum e (possible_mask e) (\<lambda>x. aq_nr_unint (af_rqs ?s x)) = cpu_sum e (possible_mask e) ?f"
    using cpu_sum_upd [OF c', of ?g "- ?f c"] cpu_sum_upd [OF d'(1,2), of ?f "?f c"] by simp
  have same: "af_tasks ?s = af_tasks s" "aq_curr (af_rqs ?s x) = aq_curr (af_rqs s x)"
    "wake_list (af_rqs ?s x) = wake_list (af_rqs s x)" "online_mask ?s = online_mask s" "active_mask ?s = active_mask s"
    "stop_works ?s = stop_works s" "class_data ?s = class_data s" for x
    by (simp_all add: migrate_nr_uninterruptible_def Let_def)
  have "in_transit {} ?s = in_transit {} s" "placed E {c} ?s = placed E {c} s"
    by (rule ext, simp only: in_transit_def placed_def same)+
  then show "aff_inv_at e Q E {} {c} ?s"
    using I unfolding aff_inv_at_def
    by (simp only: linked_def cpus_ok_def tasks_ok_def transit_ok_def threads_fixed_def running_ok_def
        load_ok_def sleeping_load_def same sum) simp
  show "aq_nr_unint (af_rqs ?s c) = 0" by (simp add: migrate_nr_uninterruptible_def Let_def)
qed

section \<open>Taking a processor down\<close>

definition in_span :: "nat \<Rightarrow> 'c aff \<Rightarrow> bool" where
  "in_span c s \<longleftrightarrow> (case aq_span (af_rqs s c) of Some m \<Rightarrow> c \<in> m | None \<Rightarrow> True)"

lemma leave_online:
  assumes inv: "aff_inv_at e Q E {} {} s" and c: "c \<in> online_mask s" "c \<notin> active_mask s"
  shows "aff_inv_at e Q E {} {c} (online_mask_update (\<lambda>m. m - {c}) s)" (is "aff_inv_at e Q E {} {c} ?s")
proof -
  note I = aff_invD [OF inv]
  have sel: "af_tasks ?s = af_tasks s" "af_rqs ?s = af_rqs s" "class_data ?s = class_data s" "stop_works ?s = stop_works s"
    "active_mask ?s = active_mask s" "online_mask ?s = online_mask s - {c}"
    by simp_all
  have transit: "in_transit {} ?s = in_transit {} s" by (rule ext) (simp only: in_transit_def sel)
  have "placed E {c} ?s p" if "placed E {} s p" for p using that unfolding placed_def sel by auto
  then have "tasks_ok e E {c} ?s" using I(3) unfolding tasks_ok_def sel by blast
  moreover have "transit_ok E {} {c} ?s" using I(4) unfolding transit_ok_def transit sel by blast
  moreover have "cpus_ok e {c} ?s" using I(2) c unfolding cpus_ok_def sel by auto
  ultimately show ?thesis
    using I(1,5,6,7) unfolding aff_inv_at_def linked_def threads_fixed_def running_ok_def load_ok_def sleeping_load_def transit sel
    by simp
qed

text \<open>Once only the stop thread is left, the processor needs no exception.\<close>

lemma forget_down:
  assumes inv: "aff_inv_at e Q E {} {c} s" and c: "Q c (class_data s) = {stopper_of e c}" "wake_list (af_rqs s c) = []"
  shows "aff_inv_at e Q E {} {} s"
proof -
  note I = aff_invD [OF inv]
  have "af_cpu (af_tasks s p) \<noteq> c" if "af_on_rq (af_tasks s p)" "\<And>d. p \<noteq> stopper_of e d" for p
    using that c(1) waiting_of [OF I(1), of p c] by auto
  then have "tasks_ok e E {} s" using I(3) by (auto simp: tasks_ok_def placed_def)
  moreover have "af_cpu (af_tasks s p) \<noteq> c" if "in_transit {} s p" for p
    using that c(2) by (auto simp: in_transit_def)
  then have "transit_ok E {} {} s" using I(4) unfolding transit_ok_def by auto
  moreover have "cpus_ok e {} s" using I(2) by (auto simp: cpus_ok_def)
  ultimately show ?thesis using I by (simp add: aff_inv_at_def)
qed

text \<open>The state in which \<^verbatim>\<open>migration_call()\<close> calls \<^verbatim>\<open>migrate_tasks()\<close>.\<close>

definition dying_start :: "'c aff_env \<Rightarrow> nat \<Rightarrow> 'c aff \<Rightarrow> 'c aff" where
  "dying_start e c s =
     (let s1 = sched_ttwu_pending e c s
      in if aq_span (af_rqs s1 c) = None then s1 else set_rq_offline_mp e c s1)"

lemma dying_start_ok:
  assumes ok: "classes_ok e Q" and inv: "aff_inv e Q E s"
    and c: "c \<in> online_mask s" "c \<notin> active_mask s" "aq_curr (af_rqs s c) = stopper_of e c" "in_span c s"
  defines "s0 \<equiv> online_mask_update (\<lambda>m. m - {c}) s"
  defines "s2 \<equiv> dying_start e c s0"
  shows "migration_call e Cpu_Dying c s0 = migrate_dying e c s2" and "aff_inv_at e Q E {} {c} s2"
    and "aq_curr (af_rqs s2 c) = stopper_of e c" and "stopper_of e c \<in> Q c (class_data s2)"
    and "grows s s2" and "active_mask s2 = active_mask s" and "wake_list (af_rqs s2 c) = []"
proof -
  have at: "aff_inv_at e Q E {} {} s" and rest: "resting e s" using inv by (simp_all add: aff_inv_def)
  let ?s1 = "sched_ttwu_pending e c s0"
  have 0: "aff_inv_at e Q E {} {c} s0" unfolding s0_def by (rule leave_online [OF at c(1,2)])
  note 1 = sched_ttwu_pending_ok [OF ok 0, of c]
  have g1: "grows s ?s1" using 1(2) by (simp add: grows_def s0_def)
  have "in_span c ?s1" using c(4) g1 by (simp add: in_span_def grows_def)
  then show "migration_call e Cpu_Dying c s0 = migrate_dying e c s2"
    by (auto simp: migration_call_def Let_def s2_def dying_start_def in_span_def split: option.splits)
  show 2: "aff_inv_at e Q E {} {c} s2"
    by (rule aff_inv_cong [OF 1(1)]) (simp_all add: s2_def dying_start_def Let_def set_rq_offline_mp_def classes_okD(7) [OF ok])
  have same2: "af_tasks s2 = af_tasks ?s1" "aq_curr (af_rqs s2 d) = aq_curr (af_rqs ?s1 d)"
    "aq_span (af_rqs s2 d) = aq_span (af_rqs ?s1 d)" "wake_list (af_rqs s2 d) = wake_list (af_rqs ?s1 d)" for d
    by (simp_all add: s2_def dying_start_def Let_def set_rq_offline_mp_def)
  show "active_mask s2 = active_mask s"
    using 1(5) by (simp add: s2_def dying_start_def Let_def set_rq_offline_mp_def s0_def)
  show g2: "grows s s2" using g1 by (simp add: grows_def same2)
  show "aq_curr (af_rqs s2 c) = stopper_of e c" using g2 c(3) by (simp add: grows_def)
  have "af_on_rq (af_tasks s (stopper_of e c))"
    using rest aff_invD(5) [OF at] c(3) unfolding resting_def threads_fixed_def by metis
  then have "af_on_rq (af_tasks s2 (stopper_of e c))" using g2 by (simp add: grows_def)
  then show "stopper_of e c \<in> Q c (class_data s2)"
    using waiting_of [OF aff_invD(1) [OF 2]] aff_invD(5) [OF 2] by (simp add: threads_fixed_def)
  show "wake_list (af_rqs s2 c) = []" using 1(3) by (simp add: same2)
qed

lemma cpu_dying_ok:
  assumes ok: "classes_ok e Q" and hidden: "stop_hidden e" and inv: "aff_inv e Q E s"
    and c: "c \<in> online_mask s" "c \<notin> active_mask s" "aq_curr (af_rqs s c) = stopper_of e c" "in_span c s"
    and ret: "migration_call e Cpu_Dying c (online_mask_update (\<lambda>m. m - {c}) s) = Some r"
  shows "\<exists>s'. r = Some s' \<and> aff_inv e Q E s' \<and>
    Q c (class_data s') = {stopper_of e c} \<and> aq_nr_unint (af_rqs s' c) = 0 \<and> aq_load_active (af_rqs s' c) = 0 \<and>
    (\<forall>p. af_on_rq (af_tasks s p) \<longrightarrow> af_on_rq (af_tasks s' p)) \<and> active_mask s' = active_mask s"
proof -
  note 2 = dying_start_ok [OF ok inv c]
  let ?s2 = "dying_start e c (online_mask_update (\<lambda>m. m - {c}) s)"
  obtain r3 where r3: "migrate_tasks e c ?s2 = Some r3" using ret 2(1) by (auto simp: migrate_dying_def bind_eq_Some_conv)
  obtain s3 where s3: "r3 = Some s3" "aff_inv_at e Q E {} {c} s3" "draining ?s2 s3" "Q c (class_data s3) = {stopper_of e c}"
    using migrate_tasks_result [OF ok hidden 2(2,3,4) r3] by blast
  let ?s4 = "migrate_nr_uninterruptible e c s3"
  let ?s5 = "calc_global_load_remove c ?s4"
  have "cl_nr_running e c (class_data s3) = 1" using nr_running_one [OF ok s3(2)] s3(4) by simp
  then have r: "r = Some ?s5" using ret 2(1) r3 s3(1) by (simp add: migrate_dying_def)
  note 4 = migrate_nr_uninterruptible_ok [OF s3(2)]
  have 5: "aff_inv_at e Q E {} {c} ?s5"
    by (rule aff_inv_cong [OF 4(1)]) (simp_all add: calc_global_load_remove_def)
  have same5: "af_tasks ?s5 = af_tasks s3" "aq_curr (af_rqs ?s5 d) = aq_curr (af_rqs s3 d)"
    "wake_list (af_rqs ?s5 d) = wake_list (af_rqs s3 d)" "class_data ?s5 = class_data s3" "active_mask ?s5 = active_mask s3" for d
    by (simp_all add: calc_global_load_remove_def migrate_nr_uninterruptible_def Let_def)
  have "wake_list (af_rqs s3 c) = []" using s3(3) 2(7) by (simp add: draining_def)
  then have "aff_inv_at e Q E {} {} ?s5" using forget_down [OF 5] s3(4) by (simp add: same5)
  moreover have queued: "af_on_rq (af_tasks ?s5 p)" if "af_on_rq (af_tasks s p)" for p
    using that 2(5) s3(3) by (simp add: same5 draining_def grows_def)
  moreover have "resting e ?s5"
    using inv queued 2(5) s3(3) by (auto simp: aff_inv_def resting_def same5 draining_def grows_def)
  moreover have "active_mask ?s5 = active_mask s" using s3(3) 2(6) by (simp add: same5 draining_def)
  moreover have "aq_nr_unint (af_rqs ?s5 c) = 0" "aq_load_active (af_rqs ?s5 c) = 0"
    using 4(2) by (simp_all add: calc_global_load_remove_def)
  ultimately show ?thesis using r s3(4) by (auto simp: aff_inv_def same5)
qed

text \<open>When it does not return, some turn of the loop found nothing but the idle task though others were left.\<close>

lemma cpu_dying_ends:
  assumes ok: "classes_ok e Q" and hidden: "stop_hidden e" and inv: "aff_inv e Q E s"
    and c: "c \<in> online_mask s" "c \<notin> active_mask s" "aq_curr (af_rqs s c) = stopper_of e c" "in_span c s"
    and ret: "migration_call e Cpu_Dying c (online_mask_update (\<lambda>m. m - {c}) s) = None"
  shows "\<exists>s1 p. (migrate_turn e c)\<^sup>*\<^sup>* (loop_start e c (dying_start e c (online_mask_update (\<lambda>m. m - {c}) s))) s1 \<and>
    af_on_rq (af_tasks s1 p) \<and> af_cpu (af_tasks s1 p) = c \<and> (\<forall>d. p \<noteq> stopper_of e d) \<and>
    fst (cl_pick e c None (class_data s1)) = idle_of e c"
proof -
  note 2 = dying_start_ok [OF ok inv c]
  let ?s2 = "dying_start e c (online_mask_update (\<lambda>m. m - {c}) s)"
  note start = loop_start_stopping [OF ok 2(2,3,4)]
  have "migrate_tasks_loop e c (loop_start e c ?s2) = None"
    using ret 2(1) by (auto simp: migrate_dying_def migrate_tasks_def loop_start_def Let_def bind_eq_None_conv)
  then obtain s1 where s1: "(migrate_turn e c)\<^sup>*\<^sup>* (loop_start e c ?s2) s1" "cl_nr_running e c (class_data s1) \<noteq> 1"
      "fst (cl_pick e c (aq_stop (af_rqs s1 c)) (class_data s1)) = idle_of e c"
    using migrate_tasks_loop_ends [OF ok hidden start] by blast
  have st: "stopping e Q E c s1" using migrate_turns [OF ok hidden s1(1) start] by blast
  then obtain p where "p \<in> Q c (class_data s1)" "p \<noteq> stopper_of e c"
    using only_stopper [OF ok st] s1(2) by (auto simp: stopping_def)
  moreover have "p \<in> Q c (class_data s1) \<longleftrightarrow> af_on_rq (af_tasks s1 p) \<and> af_cpu (af_tasks s1 p) = c"
    using st waiting_of aff_invD(1) by (metis stopping_def)
  moreover have "af_cpu (af_tasks s1 (stopper_of e d)) = d" for d
    using st by (simp add: stopping_def aff_inv_at_def threads_fixed_def)
  moreover have "aq_stop (af_rqs s1 c) = None" using st by (simp add: stopping_def)
  ultimately show ?thesis using s1(1,3) by metis
qed

end
