(* ===== verification/Affinity_Run.thy ===== *)
theory Affinity_Run
  imports Affinity_Down
begin

text \<open>
  All operations on the processors of tasks, in any order, and that they keep the invariant. The
  code loses track of a task in two ways, which a history beside the state records: the tasks
  that have gone astray.
\<close>

section \<open>All operations, in any order\<close>

text \<open>
  \<open>aff_step e Q s N s'\<close> is one operation, and \<open>N\<close> are the tasks it leads astray. A change of the
  mask does so with a task that is on the list of another processor to be woken, since
  \<^verbatim>\<open>set_cpus_allowed_ptr()\<close> asks the stop thread only for queued tasks; a processor that is no longer
  active does so with the tasks that stop threads were to move there, since \<^verbatim>\<open>__migrate_task()\<close> then
  leaves them where they are. The guards say who may call an operation: nobody wakes an idle or a new
  task, a stop thread does not change a mask, the last active processor is not taken down.
\<close>

inductive aff_step :: "'c aff_env \<Rightarrow> (nat \<Rightarrow> 'c \<Rightarrow> tid set) \<Rightarrow> 'c aff \<Rightarrow> tid set \<Rightarrow> 'c aff \<Rightarrow> bool" for e Q where
  Wake: "wakeable_mp e p state s \<Longrightarrow> try_to_wake_up_mp e me p state s = Some (b, s') \<Longrightarrow> aff_step e Q s {} s'"
| New: "new_task e p s \<Longrightarrow> wake_up_new_task_mp e p s = Some s' \<Longrightarrow> aff_step e Q s {} s'"
| Ipi: "aff_step e Q s {} (scheduler_ipi e c s)"
| Kick: "aff_step e Q s {} (kick_process me p s)"
| Schedule: "c \<in> online_mask s \<Longrightarrow> aff_step e Q s {} (schedule_mp e c sig preempted s)"
| Announce: "p = aq_curr (af_rqs s c) \<Longrightarrow> p \<noteq> idle_of e c \<Longrightarrow>
    aff_step e Q s {} (upd_aff p (af_state_update (\<lambda>_. st)) s)"
| Allow: "(\<And>c. p = stopper_of e c \<Longrightarrow> p \<noteq> cur) \<Longrightarrow> set_cpus_allowed_ptr e cur p m s = (r, w, s1) \<Longrightarrow>
    aff_step e Q s {q. q = p \<and> on_the_way p s \<and> af_allowed (af_tasks s1 p) \<noteq> af_allowed (af_tasks s p)} (add_work w s1)"
| Exec: "(\<And>d. aq_curr (af_rqs s c) \<noteq> stopper_of e d) \<Longrightarrow> aff_step e Q s {} (add_work (sched_exec e c s) s)"
| Stop: "(p, src, d) \<in> set (stop_works s) \<Longrightarrow> aq_curr (af_rqs s src) = stopper_of e src \<Longrightarrow>
    aff_step e Q s {} (stop_works_update (remove1 (p, src, d)) (migration_cpu_stop e src (p, src, d) s))"
| Balance: "rebalanced e Q s s' \<Longrightarrow> aff_step e Q s {} s'"
| Up_Prepare: "migration_call e Cpu_Up_Prepare c s = Some (Some s') \<Longrightarrow> aff_step e Q s {} s'"
| Up: "c \<in> possible_mask e \<Longrightarrow>
    migration_call e Cpu_Online c (sched_cpu_active Cpu_Starting c (online_mask_update (insert c) s)) = Some (Some s') \<Longrightarrow>
    aff_step e Q s {} s'"
| Down_Prepare: "active_mask s - {c} \<noteq> {} \<Longrightarrow>
    aff_step e Q s {p. c \<in> active_mask s \<and> (\<exists>src. (p, src, c) \<in> set (stop_works s))} (sched_cpu_inactive Cpu_Down_Prepare c s)"
| Down_Failed: "c \<in> online_mask s \<Longrightarrow> aff_step e Q s {} (sched_cpu_active Cpu_Down_Failed c s)"

text \<open>
  With the history: a task is astray from the operation that led it there until it is where it may
  run again, or sleeps. A processor dies when its stop thread runs, while all others stand still.
\<close>

inductive aff_run :: "'c aff_env \<Rightarrow> (nat \<Rightarrow> 'c \<Rightarrow> tid set) \<Rightarrow> 'c aff \<times> tid set \<Rightarrow> 'c aff \<times> tid set \<Rightarrow> bool" for e Q where
  Step: "aff_step e Q s N s' \<Longrightarrow> aff_run e Q (s, E) (s', {p \<in> E \<union> N. astray s' p})"
| Dying: "c \<in> online_mask s \<Longrightarrow> c \<notin> active_mask s \<Longrightarrow> aq_curr (af_rqs s c) = stopper_of e c \<Longrightarrow> in_span c s \<Longrightarrow>
    migration_call e Cpu_Dying c (online_mask_update (\<lambda>m. m - {c}) s) = Some (Some s') \<Longrightarrow>
    aff_run e Q (s, E) (s', {p \<in> E. astray s' p})"

section \<open>Processors that come and go\<close>

text \<open>More processors, or more work for the stop threads, harm no task.\<close>

lemma more_processors:
  assumes inv: "aff_inv_at e Q E {} {} s"
    and same: "af_tasks s' = af_tasks s" "\<And>c. aq_curr (af_rqs s' c) = aq_curr (af_rqs s c)"
      "\<And>c. wake_list (af_rqs s' c) = wake_list (af_rqs s c)" "\<And>c. aq_nr_unint (af_rqs s' c) = aq_nr_unint (af_rqs s c)"
      "\<And>c. Q c (class_data s') = Q c (class_data s)"
    and more: "online_mask s \<subseteq> online_mask s'" "active_mask s \<subseteq> active_mask s'" "cpus_ok e {} s'"
      "set (stop_works s) \<subseteq> set (stop_works s')" "\<forall>(p, src, d) \<in> set (stop_works s'). \<forall>c. p \<noteq> stopper_of e c"
  shows "aff_inv_at e Q E {} {} s'"
proof -
  note I = aff_invD [OF inv]
  have transit: "in_transit {} s' = in_transit {} s" by (rule ext) (simp only: in_transit_def same)
  have "placed E {} s' p" if "placed E {} s p" for p using that more unfolding placed_def same by blast
  then have "tasks_ok e E {} s'" using I(3) unfolding tasks_ok_def same by blast
  moreover have "transit_ok E {} {} s'" using I(4) more(1) unfolding transit_ok_def transit same by blast
  moreover have "threads_fixed e s'" using I(5) more(5) unfolding threads_fixed_def same by simp
  ultimately show ?thesis
    using I(1,6,7) more(3) unfolding aff_inv_at_def linked_def running_ok_def load_ok_def sleeping_load_def transit same
    by simp
qed

lemma cpu_up_ok:
  assumes ok: "classes_ok e Q" and inv: "aff_inv_at e Q E {} {} s" and c: "c \<in> possible_mask e"
    and s': "migration_call e Cpu_Online c (sched_cpu_active Cpu_Starting c (online_mask_update (insert c) s)) = Some (Some s')"
  shows "aff_inv_at e Q E {} {} s'" and "grows s s'"
proof -
  have "af_tasks s' = af_tasks s" "aq_curr (af_rqs s' d) = aq_curr (af_rqs s d)" "aq_span (af_rqs s' d) = aq_span (af_rqs s d)"
    "wake_list (af_rqs s' d) = wake_list (af_rqs s d)" "aq_nr_unint (af_rqs s' d) = aq_nr_unint (af_rqs s d)"
    "Q d (class_data s') = Q d (class_data s)" "online_mask s' = insert c (online_mask s)"
    "active_mask s' = insert c (active_mask s)" "stop_works s' = stop_works s" for d
    using s' by (auto simp: migration_call_def sched_cpu_active_def set_rq_online_mp_def classes_okD(6) [OF ok]
        split: option.splits if_splits)
  note same = this
  have "cpus_ok e {} s'" using aff_invD(2) [OF inv] c by (auto simp: cpus_ok_def same)
  then show "aff_inv_at e Q E {} {} s'"
    using aff_invD(5) [OF inv] by (intro more_processors [OF inv]) (auto simp: same threads_fixed_def)
  show "grows s s'" by (simp add: grows_def same)
qed

lemma add_work_ok:
  assumes inv: "aff_inv_at e Q E {} {} s" and w: "\<And>p src d c. w = Some (p, src, d) \<Longrightarrow> p \<noteq> stopper_of e c"
  shows "aff_inv_at e Q E {} {} (add_work w s)" and "grows s (add_work w s)"
proof -
  show "aff_inv_at e Q E {} {} (add_work w s)"
  proof (cases w)
    case (Some x)
    then show ?thesis
      using aff_invD(2,5) [OF inv] w
      by (intro more_processors [OF inv]) (auto simp: add_work_def cpus_ok_def threads_fixed_def)
  qed (use inv in \<open>simp add: add_work_def\<close>)
  show "grows s (add_work w s)" by (simp add: add_work_def grows_def split: option.split)
qed

lemma cpu_inactive_ok:
  assumes inv: "aff_inv_at e Q E {} {} s" and a: "active_mask s - {c} \<noteq> {}"
    and w: "\<And>p src. c \<in> active_mask s \<Longrightarrow> (p, src, c) \<in> set (stop_works s) \<Longrightarrow> p \<in> E"
  shows "aff_inv_at e Q E {} {} (sched_cpu_inactive Cpu_Down_Prepare c s)" (is "aff_inv_at e Q E {} {} ?s")
proof -
  note I = aff_invD [OF inv]
  have sel: "af_tasks ?s = af_tasks s" "af_rqs ?s = af_rqs s" "class_data ?s = class_data s" "stop_works ?s = stop_works s"
    "online_mask ?s = online_mask s" "active_mask ?s = active_mask s - {c}"
    by (simp_all add: sched_cpu_inactive_def)
  have transit: "in_transit {} ?s = in_transit {} s" by (rule ext) (simp only: in_transit_def sel)
  have "placed E {} ?s p" if "placed E {} s p" for p using that w unfolding placed_def sel by blast
  then have "tasks_ok e E {} ?s" using I(3) unfolding tasks_ok_def sel by blast
  moreover have "cpus_ok e {} ?s" using I(2) a unfolding cpus_ok_def sel by blast
  ultimately show ?thesis
    using I unfolding aff_inv_at_def linked_def transit_ok_def threads_fixed_def running_ok_def load_ok_def
      sleeping_load_def transit sel
    by simp
qed

section \<open>Every operation keeps the invariant\<close>

lemma aff_step_inv:
  assumes ok: "classes_ok e Q"
  shows "aff_step e Q s N s' \<Longrightarrow> N \<subseteq> E \<Longrightarrow> aff_inv e Q E s \<Longrightarrow> aff_inv e Q E s'"
proof (induction rule: aff_step.induct)
  case (Wake p state s me b s')
  then have "aff_inv_at e Q E {} {} s' \<and> grows s s'"
    using try_to_wake_up_ok [OF ok _ Wake(1), where me = me] by (auto simp: aff_inv_def)
  then show ?case using aff_inv_grows [OF Wake(4)] by blast
next
  case (New p s s')
  then have "aff_inv_at e Q E {} {} s' \<and> grows s s'"
    using wake_up_new_task_ok [OF ok _ New(1)] by (auto simp: aff_inv_def)
  then show ?case using aff_inv_grows [OF New(4)] by blast
next
  case (Ipi s c)
  have "aff_inv_at e Q E {} {} s" using Ipi by (simp add: aff_inv_def)
  from aff_inv_grows [OF Ipi(2) sched_ttwu_pending_ok(1,2) [OF ok this, of c]] Ipi
  show ?case by (simp add: scheduler_ipi_def)
next
  case (Kick s me p)
  have at: "aff_inv_at e Q E {} {} s" using Kick by (simp add: aff_inv_def)
  have "aff_inv_at e Q E {} {} (kick_process me p s)"
    by (rule aff_inv_cong [OF at]) (simp_all add: kick_process_def Let_def)
  moreover have "grows s (kick_process me p s)" by (simp add: grows_def kick_process_def Let_def)
  ultimately show ?case by (rule aff_inv_grows [OF Kick(2)])
next
  case (Schedule c s sig preempted)
  then show ?case using schedule_mp_ok [OF ok] by blast
next
  case (Announce p s c st)
  have "af_on_rq (af_tasks s p)" using Announce by (auto simp: aff_inv_def resting_def)
  with inv_queued_state [of e Q E "{}" "{}" s p st] Announce
  show ?case by (intro aff_inv_grows [OF Announce(4)]) (simp_all add: aff_inv_def grows_def)
next
  case (Allow p cur m s r w s1)
  have at: "aff_inv_at e Q E {} {} s" using Allow(4) by (simp add: aff_inv_def)
  show ?case
    by (rule aff_inv_grows [OF Allow(4) set_cpus_allowed_ptr_ok [OF ok at _ Allow(1,2)]]) (use Allow(3) in auto)
next
  case (Exec s c)
  have at: "aff_inv_at e Q E {} {} s" using Exec by (simp add: aff_inv_def)
  have w: "sched_exec e c s = Some (p, src, d) \<Longrightarrow> p \<noteq> stopper_of e b" for p src d b
    using Exec(1) by (auto simp: sched_exec_def Let_def split: if_splits)
  show ?case by (rule aff_inv_grows [OF Exec(3) add_work_ok [OF at w]])
next
  case (Stop p src d s)
  have "aff_inv_at e Q E {} {} s" using Stop by (simp add: aff_inv_def)
  from stop_work_ok [OF ok this Stop(1,2) refl] show ?case by (rule aff_inv_grows [OF Stop(4)])
next
  case (Balance s s')
  then show ?case using inv_rebalanced grows_rebalanced aff_inv_grows by (metis aff_inv_def)
next
  case (Up_Prepare c s s')
  have at: "aff_inv_at e Q E {} {} s" using Up_Prepare by (simp add: aff_inv_def)
  have s': "s' = upd_aff_rq c (aq_load_update_update (\<lambda>_. af_calc_load_update s)) s"
    using Up_Prepare(1) by (simp add: migration_call_def)
  have "aff_inv_at e Q E {} {} s'" by (rule aff_inv_cong [OF at]) (simp_all add: s')
  moreover have "grows s s'" by (simp add: s' grows_def)
  ultimately show ?case by (rule aff_inv_grows [OF Up_Prepare(3)])
next
  case (Up c s s')
  have "aff_inv_at e Q E {} {} s" using Up by (simp add: aff_inv_def)
  from cpu_up_ok [OF ok this Up(1,2)] show ?case by (rule aff_inv_grows [OF Up(4)])
next
  case (Down_Prepare s c)
  have at: "aff_inv_at e Q E {} {} s" using Down_Prepare(3) by (simp add: aff_inv_def)
  show ?case
    by (rule aff_inv_grows [OF Down_Prepare(3) cpu_inactive_ok [OF at Down_Prepare(1)]])
      (use Down_Prepare(2) in \<open>auto simp: grows_def sched_cpu_inactive_def\<close>)
next
  case (Down_Failed c s)
  have at: "aff_inv_at e Q E {} {} s" using Down_Failed by (simp add: aff_inv_def)
  have "aff_inv_at e Q E {} {} (sched_cpu_active Cpu_Down_Failed c s)"
    using aff_invD(2,5) [OF at] Down_Failed(1)
    by (intro more_processors [OF at]) (auto simp: sched_cpu_active_def cpus_ok_def threads_fixed_def)
  then show ?case by (rule aff_inv_grows [OF Down_Failed(3)]) (simp add: grows_def sched_cpu_active_def)
qed

lemma aff_step_history:
  assumes "classes_ok e Q" and "aff_step e Q s N s'" and "aff_inv e Q E s"
  shows "aff_inv e Q {p \<in> E \<union> N. astray s' p} s'"
proof -
  have "aff_inv e Q (E \<union> N) s" using assms(3) by (auto intro: aff_inv_mono)
  from aff_step_inv [OF assms(1,2) _ this] show ?thesis by (rule aff_inv_astray) simp_all
qed

lemma aff_run_inv:
  assumes ok: "classes_ok e Q" and hidden: "stop_hidden e"
  shows "aff_run e Q x x' \<Longrightarrow> aff_inv e Q (snd x) (fst x) \<Longrightarrow> aff_inv e Q (snd x') (fst x')"
proof (induction rule: aff_run.induct)
  case (Step s N s' E)
  then show ?case using aff_step_history [OF ok] by simp
next
  case (Dying c s s' E)
  then have "aff_inv e Q E s'" using cpu_dying_ok [OF ok hidden _ Dying(1-5), of E] by simp
  then show ?case by (auto intro: aff_inv_astray)
qed

lemma aff_runs_inv:
  assumes "classes_ok e Q" and "stop_hidden e"
  shows "(aff_run e Q)\<^sup>*\<^sup>* x x' \<Longrightarrow> aff_inv e Q (snd x) (fst x) \<Longrightarrow> aff_inv e Q (snd x') (fst x')"
  by (induction rule: rtranclp_induct) (auto intro: aff_run_inv [OF assms])

end
