(* ===== verification/Affinity_Calls.thy ===== *)
theory Affinity_Calls
  imports Affinity
begin

text \<open>
  The calls about the mask of a task: \<^verbatim>\<open>sched_setaffinity()\<close> and \<^verbatim>\<open>sched_getaffinity()\<close> with the
  copies from and to user memory, and \<^verbatim>\<open>wait_task_inactive()\<close>.
\<close>

section \<open>Setting the mask\<close>

text \<open>
  What a call reads from outside: the task found for the pid, the caller, whether the two working
  masks are allocated, what \<^verbatim>\<open>check_same_owner()\<close> and \<^verbatim>\<open>ns_capable()\<close> say, the security
  modules, and the cpuset of the task each time it is asked for.
\<close>

record aff_call =
  target :: "tid option"
  caller :: tid
  got_allowed :: bool
  got_new :: bool
  same_owner :: bool
  capable_nice :: bool
  lsm_set :: "errno option"
  lsm_get :: "errno option"
  cpuset_at :: "nat \<Rightarrow> cpumask"

text \<open>
  \<^verbatim>\<open>set_cpus_allowed_ptr()\<close> with its wait for the stop thread. \<open>peers\<close> is what happens on all processors
  in the meantime; \<open>n\<close> counts the waits. Then the processor takes the tasks sent to it, wakes its
  stop thread if that sleeps, and switches to it.
\<close>

definition run_stopper :: "'c aff_env \<Rightarrow> nat \<Rightarrow> 'c aff \<Rightarrow> 'c aff" where
  "run_stopper e c s =
     (let stop = stopper_of e c;
          s1 = scheduler_ipi e c s;
          s2 = (if af_on_rq (af_tasks s1 stop) then s1
                else ttwu_do_activate_mp e c stop
                  (upd_aff stop (\<lambda>t. t\<lparr>af_contributes := contributes_to_load t, af_state := TASK_WAKING\<rparr>) s1))
      in schedule_mp e c False True s2)"

definition set_cpus_allowed_wait ::
  "'c aff_env \<Rightarrow> (nat \<Rightarrow> 'c aff \<Rightarrow> 'c aff) \<Rightarrow> nat \<Rightarrow> tid \<Rightarrow> tid \<Rightarrow> cpumask \<Rightarrow> 'c aff \<Rightarrow> errno option \<times> 'c aff" where
  "set_cpus_allowed_wait e peers n cur p m s =
     (case set_cpus_allowed_ptr e cur p m s of
        (r, None, s1) \<Rightarrow> (r, s1)
      | (r, Some w, s1) \<Rightarrow>
          let src = fst (snd w);
              s2 = run_stopper e src (peers n (s1\<lparr>stop_works := stop_works s1 @ [w]\<rparr>))
          in (r, stop_works_update (remove1 w) (migration_cpu_stop e src w s2)))"

text \<open>The loop from the label \<^verbatim>\<open>again\<close>; not to return is \<open>None\<close>.\<close>

partial_function (option) setaffinity_again ::
  "'c aff_env \<Rightarrow> (nat \<Rightarrow> 'c aff \<Rightarrow> 'c aff) \<Rightarrow> aff_call \<Rightarrow> tid \<Rightarrow> nat \<Rightarrow> cpumask \<Rightarrow> 'c aff \<Rightarrow> (errno option \<times> 'c aff) option" where
  "setaffinity_again e peers a p n new_mask s =
     (let (r, s1) = set_cpus_allowed_wait e peers n (caller a) p new_mask s
      in if r \<noteq> None then Some (r, s1)
         else let cpus_allowed = cpuset_at a (n + 1)
              in if \<not> new_mask \<subseteq> cpus_allowed then setaffinity_again e peers a p (n + 1) cpus_allowed s1
                 else Some (r, s1))"

definition sched_setaffinity ::
  "'c aff_env \<Rightarrow> (nat \<Rightarrow> 'c aff \<Rightarrow> 'c aff) \<Rightarrow> aff_call \<Rightarrow> cpumask \<Rightarrow> 'c aff \<Rightarrow> (errno option \<times> 'c aff) option" where
  "sched_setaffinity e peers a in_mask s =
     (case target a of
        None \<Rightarrow> Some (Some ESRCH, s)
      | Some p \<Rightarrow>
          if \<not> got_allowed a then Some (Some ENOMEM, s)
          else if \<not> got_new a then Some (Some ENOMEM, s)
          else if \<not> same_owner a \<and> \<not> capable_nice a then Some (Some EPERM, s)
          else if lsm_set a \<noteq> None then Some (lsm_set a, s)
          else setaffinity_again e peers a p 0 (in_mask \<inter> cpuset_at a 0) s)"

definition sched_getaffinity :: "aff_call \<Rightarrow> 'c aff \<Rightarrow> errno + cpumask" where
  "sched_getaffinity a s =
     (case target a of
        None \<Rightarrow> Inl ESRCH
      | Some p \<Rightarrow>
          (case lsm_get a of
             Some err \<Rightarrow> Inl err
           | None \<Rightarrow> Inr (af_allowed (af_tasks s p) \<inter> online_mask s)))"

section \<open>Masks in memory\<close>

text \<open>
  A mask is an array of 32-bit longs; the machine is little-endian, so bit \<open>k\<close> is bit \<open>k mod 8\<close>
  of byte \<open>k div 8\<close>. \<open>bits\<close> is \<^verbatim>\<open>nr_cpumask_bits\<close>.
\<close>

type_synonym byte = "8 word"

definition cpumask_size :: "nat \<Rightarrow> nat" where
  "cpumask_size bits = (bits + 31) div 32 * 4"

definition mask_byte :: "cpumask \<Rightarrow> nat \<Rightarrow> byte" where
  "mask_byte m i = horner_sum of_bool 2 (map (\<lambda>j. 8 * i + j \<in> m) [0..<8])"

definition mask_bytes :: "nat \<Rightarrow> cpumask \<Rightarrow> byte list" where
  "mask_bytes nbytes m = map (mask_byte m) [0..<nbytes]"

definition bytes_mask :: "byte list \<Rightarrow> cpumask" where
  "bytes_mask bs = set (filter (\<lambda>k. bit (bs ! (k div 8)) (k mod 8)) [0..<8 * length bs])"

text \<open>
  User memory is the list of the bytes that can be read from the pointer on. \<open>old\<close> is what the
  working mask holds when it is allocated.
\<close>

definition get_user_cpu_mask :: "nat \<Rightarrow> byte list \<Rightarrow> u32 \<Rightarrow> byte list \<Rightarrow> errno + cpumask" where
  "get_user_cpu_mask bits user_mask_ptr len old =
     (let nbytes = cpumask_size bits;
          new_mask = (if unat len < nbytes then replicate nbytes 0 else old);
          n = (if unat len > nbytes then nbytes else unat len)
      in if n > length user_mask_ptr then Inl EFAULT
         else Inr (bytes_mask (take n user_mask_ptr @ drop n new_mask)))"

definition sys_sched_setaffinity ::
  "'c aff_env \<Rightarrow> (nat \<Rightarrow> 'c aff \<Rightarrow> 'c aff) \<Rightarrow> aff_call \<Rightarrow> nat \<Rightarrow> byte list option \<Rightarrow> u32 \<Rightarrow> byte list \<Rightarrow> 'c aff \<Rightarrow>
   (errno option \<times> 'c aff) option" where
  "sys_sched_setaffinity e peers a bits new_mask len user_mask_ptr s =
     (case new_mask of
        None \<Rightarrow> Some (Some ENOMEM, s)
      | Some old \<Rightarrow>
          (case get_user_cpu_mask bits user_mask_ptr len old of
             Inl err \<Rightarrow> Some (Some err, s)
           | Inr m \<Rightarrow> sched_setaffinity e peers a m s))"

text \<open>The value is what is stored through the pointer; its length is the value returned.\<close>

definition sys_sched_getaffinity ::
  "'c aff_env \<Rightarrow> aff_call \<Rightarrow> nat \<Rightarrow> bool \<Rightarrow> u32 \<Rightarrow> bool \<Rightarrow> 'c aff \<Rightarrow> errno + byte list" where
  "sys_sched_getaffinity e a bits allocated len writable s =
     (if len * 8 < of_nat (ncpus e) then Inl EINVAL
      else if len AND (4 - 1) \<noteq> 0 then Inl EINVAL
      else if \<not> allocated then Inl ENOMEM
      else case sched_getaffinity a s of
        Inl err \<Rightarrow> Inl err
      | Inr m \<Rightarrow>
          let retlen = min (unat len) (cpumask_size bits)
          in if \<not> writable then Inl EFAULT else Inr (take retlen (mask_bytes (cpumask_size bits) m)))"

section \<open>Waiting until a task is off its processor\<close>

text \<open>
  \<^verbatim>\<open>wait_task_inactive()\<close> looks at the task again and again; \<open>look n\<close> is what it sees the \<open>n\<close>th time.
  The inner loop and the outer one begin with the same test.
\<close>

record task_look =
  lk_running :: bool
  lk_on_rq :: bool
  lk_state :: ulong
  lk_nvcsw :: ulong

definition LONG_MIN :: ulong where "LONG_MIN = 0x80000000"

partial_function (option) wait_task_inactive :: "(nat \<Rightarrow> task_look) \<Rightarrow> ulong \<Rightarrow> nat \<Rightarrow> ulong option" where
  "wait_task_inactive look match_state n =
     (if lk_running (look n)
      then if match_state \<noteq> 0 \<and> lk_state (look n) \<noteq> match_state then Some 0
           else wait_task_inactive look match_state (n + 1)
      else
        let l = look (n + 1);
            ncsw = (if match_state = 0 \<or> lk_state l = match_state then lk_nvcsw l OR LONG_MIN else 0)
        in if ncsw = 0 then Some ncsw
           else if lk_running l then wait_task_inactive look match_state (n + 2)
           else if lk_on_rq l then wait_task_inactive look match_state (n + 2)
           else Some ncsw)"

end
