(* ===== verification/Affinity_Sys.thy ===== *)
theory Affinity_Sys
  imports Affinity_Run Affinity_Calls
begin

text \<open>
  What the calls of \<open>Affinity_Calls\<close> do: the wait for the stop thread, the loop of
  \<^verbatim>\<open>sched_setaffinity()\<close>, the copies of masks and \<^verbatim>\<open>wait_task_inactive()\<close>.
\<close>

section \<open>The stop thread runs\<close>

text \<open>\<^verbatim>\<open>pick_next_task()\<close> prefers the stop thread; each processor has one.\<close>

definition stop_first :: "'c aff_env \<Rightarrow> (nat \<Rightarrow> 'c \<Rightarrow> tid set) \<Rightarrow> bool" where
  "stop_first e Q \<longleftrightarrow> (\<forall>c k. stopper_of e c \<in> Q c k \<longrightarrow> fst (cl_pick e c (Some (stopper_of e c)) k) = stopper_of e c) \<and>
     (\<forall>c \<in> possible_mask e. stopper_of e c < PID_MAX_LIMIT)"

definition has_stoppers :: "'c aff_env \<Rightarrow> 'c aff \<Rightarrow> bool" where
  "has_stoppers e s \<longleftrightarrow> (\<forall>c. aq_stop (af_rqs s c) = Some (stopper_of e c))"

lemma switch_to_stopper:
  assumes ok: "classes_ok e Q" and first: "stop_first e Q" and inv: "aff_inv e Q E s" and c: "c \<in> online_mask s"
    and stop: "has_stoppers e s" "af_on_rq (af_tasks s (stopper_of e c))"
  shows "aff_inv e Q E (schedule_mp e c False True s)" and "undisturbed p s (schedule_mp e c False True s)"
    and "aq_curr (af_rqs (schedule_mp e c False True s) c) = stopper_of e c"
proof -
  let ?prev = "aq_curr (af_rqs s c)" and ?stop = "stopper_of e c"
  have at: "aff_inv_at e Q E {} {} s" using inv by (simp add: aff_inv_def)
  show "aff_inv e Q E (schedule_mp e c False True s)" by (rule schedule_mp_ok [OF ok inv c])
  define s2 where "s2 = class_data_update (cl_put_prev e c ?prev) (cl_pull e c ?prev s)"
  have r: "rebalanced e Q s (cl_pull e c ?prev s)" by (rule classes_okD(14) [OF ok aff_invD(1) [OF at]])
  have 2: "aff_inv_at e Q E {} {} s2"
    unfolding s2_def by (rule keeps_class [OF inv_rebalanced [OF at r]]) (simp add: classes_okD(3) [OF ok])
  have st: "aq_stop (af_rqs s2 c) = Some ?stop" using stop(1) rebalancedD(5) [OF r] by (simp add: s2_def has_stoppers_def)
  have "af_on_rq (af_tasks s2 ?stop)" using stop(2) rebalanced_task(5) [OF r] by (simp add: s2_def)
  then have q: "?stop \<in> Q c (class_data s2)"
    using waiting_of [OF aff_invD(1) [OF 2]] aff_invD(5) [OF 2] by (simp add: threads_fixed_def)
  obtain k where pick: "cl_pick e c (Some ?stop) (class_data s2) = (?stop, k)"
    using first q unfolding stop_first_def by (metis prod.collapse)
  define s4 where "s4 = (if ?stop = ?prev then s2\<lparr>class_data := k\<rparr>
      else upd_aff ?prev (af_on_cpu_update (\<lambda>_. False))
             (upd_aff ?stop (af_on_cpu_update (\<lambda>_. True)) (upd_aff_rq c (aq_curr_update (\<lambda>_. ?stop)) (s2\<lparr>class_data := k\<rparr>))))"
  have eq: "schedule_mp e c False True s = cl_post e c s4"
    by (simp only: schedule_mp_def Let_def not_True_eq_False simp_thms if_False s2_def [symmetric] st pick
        prod.case s4_def [symmetric])
  have Qk: "Q d k = Q d (class_data s2)" for d
    using classes_okD(9) [OF ok, of d c "Some ?stop" "class_data s2"] by (simp add: pick)
  have "linked Q s4" using aff_invD(1) [OF 2] by (auto simp: linked_def s4_def Qk)
  then have r': "rebalanced e Q s4 (cl_post e c s4)" by (rule classes_okD(15) [OF ok])
  have "undisturbed p (cl_pull e c ?prev s) s4" by (simp add: undisturbed_def s4_def s2_def)
  then show "undisturbed p s (schedule_mp e c False True s)"
    unfolding eq using undisturbed_rebalanced [OF r] undisturbed_rebalanced [OF r'] undisturbed_trans by blast
  show "aq_curr (af_rqs (schedule_mp e c False True s) c) = ?stop"
    unfolding eq rebalancedD(5) [OF r'] using rebalancedD(5) [OF r] by (simp add: s4_def s2_def)
qed

lemma wake_stopper:
  assumes ok: "classes_ok e Q" and first: "stop_first e Q" and inv: "aff_inv e Q E s" and c: "c \<in> online_mask s"
    and off: "\<not> af_on_rq (af_tasks s (stopper_of e c))" "wake_list (af_rqs s c) = []"
    and s': "s' = ttwu_do_activate_mp e c (stopper_of e c)
      (upd_aff (stopper_of e c) (\<lambda>t. t\<lparr>af_contributes := contributes_to_load t, af_state := TASK_WAKING\<rparr>) s)"
  shows "aff_inv e Q E s'" and "undisturbed p s s'" and "af_on_rq (af_tasks s' (stopper_of e c))"
proof -
  let ?p = "stopper_of e c" and ?t = "af_tasks s (stopper_of e c)"
  let ?s1 = "upd_aff ?p (\<lambda>t. t\<lparr>af_contributes := contributes_to_load t, af_state := TASK_WAKING\<rparr>) s"
  have at: "aff_inv_at e Q E {} {} s" and rest: "resting e s" using inv by (simp_all add: aff_inv_def)
  note I = aff_invD [OF at]
  have t: "af_cpu ?t = c" "af_allowed ?t = {c}" and idle: "\<not> idle_task_of e ?p"
    using I(5) by (auto simp: threads_fixed_def idle_task_of_def dest: sym)
  have cpu: "\<not> af_on_cpu ?t"
    using I(6) rest off(1) idle unfolding running_ok_def resting_def idle_task_of_def by metis
  have list: "?p \<notin> set (wake_list (af_rqs s d))" for d
    using I(4) t(1) off(2) by (cases "d = c") (auto simp: transit_ok_def)
  have "?p < PID_MAX_LIMIT" using first c I(2) by (auto simp: stop_first_def cpus_ok_def)
  moreover have "c = d \<and> {c} = {d}" if "?p = stopper_of e d" for d
    using that t(1) I(5) by (metis threads_fixed_def)
  ultimately have w: "waking_ok e E {} ?p c {c} s" using off(1) cpu idle list c unfolding waking_ok_def by blast
  have load: "contributes_to_load ?t \<longleftrightarrow> ?p \<in> sleeping_load {} s"
    using w list by (simp add: waking_ok_def sleeping_load_def in_transit_def)
  have "?t\<lparr>af_contributes := contributes_to_load ?t, af_state := TASK_WAKING\<rparr> =
      queued_record e TASK_WAKING (contributes_to_load ?t) {c} c (af_migrations ?t) False ?t"
    using weighed_inv [OF at, of ?p] t off(1) by (cases ?t) (simp add: queued_record_def weighed_def)
  then have s1: "?s1 = s\<lparr>af_tasks := (af_tasks s)(?p := queued_record e TASK_WAKING (contributes_to_load ?t) {c} c
      (af_migrations ?t) False ?t), class_data := class_data s, notices := notices s\<rparr>"
    by simp
  note act = do_activate_ok [OF ok at w WAKING_not_load load s1 refl]
  show "aff_inv e Q E s'" using aff_inv_grows [OF inv] act by (simp add: s')
  have "linked Q ?s1" using I(1) by (auto simp: linked_def)
  then have "undisturbed p ?s1 s'" unfolding s'
    by (rule undisturbed_activate [OF ok]) (use w in \<open>simp_all add: off t waking_ok_def\<close>)
  moreover have "undisturbed p s ?s1" by (simp add: undisturbed_def)
  ultimately show "undisturbed p s s'" by (rule undisturbed_trans [rotated])
  have "af_on_rq (af_tasks (ttwu_do_activate_mp e c ?p x) ?p)" if "linked Q x" "\<not> af_on_rq (af_tasks x ?p)" "af_cpu (af_tasks x ?p) = c" for x
    using w by (intro activated_queued [OF ok that]) (simp add: waking_ok_def)
  then show "af_on_rq (af_tasks s' ?p)" using \<open>linked Q ?s1\<close> off t by (simp add: s')
qed

lemma run_stopper_ok:
  assumes ok: "classes_ok e Q" and first: "stop_first e Q" and inv: "aff_inv e Q E s" and c: "c \<in> online_mask s"
    and stop: "has_stoppers e s"
  shows "aff_inv e Q E (run_stopper e c s)" and "undisturbed p s (run_stopper e c s)"
    and "aq_curr (af_rqs (run_stopper e c s) c) = stopper_of e c"
proof -
  let ?s1 = "scheduler_ipi e c s"
  have at: "aff_inv_at e Q E {} {} s" using inv by (simp add: aff_inv_def)
  note pend = sched_ttwu_pending_ok [OF ok at, where c = c]
  have 1: "aff_inv e Q E ?s1" "undisturbed p s ?s1" "wake_list (af_rqs ?s1 c) = []" "c \<in> online_mask ?s1"
    using inv c pend aff_inv_grows [OF inv pend(1,2)] by (auto simp: scheduler_ipi_def)
  let ?w = "ttwu_do_activate_mp e c (stopper_of e c)
      (upd_aff (stopper_of e c) (\<lambda>t. t\<lparr>af_contributes := contributes_to_load t, af_state := TASK_WAKING\<rparr>) ?s1)"
  define s2 where "s2 = (if af_on_rq (af_tasks ?s1 (stopper_of e c)) then ?s1 else ?w)"
  have 2: "aff_inv e Q E s2" "undisturbed p ?s1 s2" "af_on_rq (af_tasks s2 (stopper_of e c))"
    using 1(1) wake_stopper [OF ok first 1(1,4) _ 1(3) refl] by (auto simp: s2_def)
  have u2: "undisturbed p s s2" using 1(2) 2(2) undisturbed_trans by blast
  then have st: "c \<in> online_mask s2" "has_stoppers e s2" using c stop by (simp_all add: undisturbed_def has_stoppers_def)
  have eq: "run_stopper e c s = schedule_mp e c False True s2" by (simp add: run_stopper_def Let_def s2_def)
  note sw = switch_to_stopper [OF ok first 2(1) st 2(3)]
  show "aff_inv e Q E (run_stopper e c s)" "aq_curr (af_rqs (run_stopper e c s) c) = stopper_of e c"
    unfolding eq using sw(1,3) by simp_all
  show "undisturbed p s (run_stopper e c s)" unfolding eq using undisturbed_trans [OF u2 sw(2)] .
qed

section \<open>The loop of sched_setaffinity\<close>

text \<open>
  What happens on all processors while the call waits for the stop thread: any operations, on any task, by
  anybody, that leave the processors up, since the call holds off the hotplug code, the stop threads what
  they are, and the mask of the task \<open>p\<close>. The work the call waits for, the last one queued, is run after that.
\<close>

inductive peer_run :: "'c aff_env \<Rightarrow> (nat \<Rightarrow> 'c \<Rightarrow> tid set) \<Rightarrow> tid \<Rightarrow> 'c aff \<times> tid set \<Rightarrow> 'c aff \<times> tid set \<Rightarrow> bool" for e Q p where
  "aff_step e Q s N s' \<Longrightarrow> online_mask s' = online_mask s \<Longrightarrow> active_mask s' = active_mask s \<Longrightarrow>
   \<forall>c. aq_stop (af_rqs s' c) = aq_stop (af_rqs s c) \<Longrightarrow> af_allowed (af_tasks s' p) = af_allowed (af_tasks s p) \<Longrightarrow>
   peer_run e Q p (s, E) (s', {q \<in> E \<union> N. astray s' q})"

definition peers_ok :: "'c aff_env \<Rightarrow> (nat \<Rightarrow> 'c \<Rightarrow> tid set) \<Rightarrow> tid \<Rightarrow> (nat \<Rightarrow> 'c aff \<Rightarrow> 'c aff) \<Rightarrow> bool" where
  "peers_ok e Q p peers \<longleftrightarrow> (\<forall>n s E. aff_inv e Q E s \<and> stop_works s \<noteq> [] \<longrightarrow>
     (\<exists>E'. (peer_run e Q p)\<^sup>*\<^sup>* (s, E) (peers n s, E')) \<and> last (stop_works s) \<in> set (stop_works (peers n s)))"

lemma peer_run_keeps:
  assumes ok: "classes_ok e Q"
  shows "peer_run e Q p x x' \<Longrightarrow> aff_inv e Q (snd x) (fst x) \<Longrightarrow>
    aff_inv e Q (snd x') (fst x') \<and> online_mask (fst x') = online_mask (fst x) \<and> active_mask (fst x') = active_mask (fst x) \<and>
    (\<forall>c. aq_stop (af_rqs (fst x') c) = aq_stop (af_rqs (fst x) c)) \<and>
    af_allowed (af_tasks (fst x') p) = af_allowed (af_tasks (fst x) p) \<and> (p \<in> snd x' \<longrightarrow> p \<in> snd x)"
proof (induction rule: peer_run.induct)
  case (1 s N s' E)
  have "p \<notin> N" using 1(1,3,5)
    by (cases rule: aff_step.cases) (auto simp: sched_cpu_inactive_def add_work_def split: option.splits)
  then show ?case using aff_step_history [OF ok 1(1)] 1 by simp
qed

lemma peer_runs_keep:
  assumes ok: "classes_ok e Q"
  shows "(peer_run e Q p)\<^sup>*\<^sup>* x x' \<Longrightarrow> aff_inv e Q (snd x) (fst x) \<Longrightarrow>
    aff_inv e Q (snd x') (fst x') \<and> online_mask (fst x') = online_mask (fst x) \<and> active_mask (fst x') = active_mask (fst x) \<and>
    (\<forall>c. aq_stop (af_rqs (fst x') c) = aq_stop (af_rqs (fst x) c)) \<and>
    af_allowed (af_tasks (fst x') p) = af_allowed (af_tasks (fst x) p) \<and> (p \<in> snd x' \<longrightarrow> p \<in> snd x)"
proof (induction rule: rtranclp_induct)
  case (step y z)
  show ?case using peer_run_keeps [OF ok step.hyps(2)] step.IH [OF step.prems] by simp
qed simp

text \<open>The task may be changed.\<close>

definition changeable :: "'c aff_env \<Rightarrow> (nat \<Rightarrow> 'c \<Rightarrow> tid set) \<Rightarrow> tid \<Rightarrow> tid set \<Rightarrow> 'c aff \<Rightarrow> bool" where
  "changeable e Q p E s \<longleftrightarrow> aff_inv e Q E s \<and> has_stoppers e s \<and> (\<forall>c. p \<noteq> stopper_of e c)"

lemma set_cpus_allowed_wait_ok:
  assumes ok: "classes_ok e Q" and first: "stop_first e Q" and peers: "peers_ok e Q p peers"
    and s: "changeable e Q p E s" and res: "set_cpus_allowed_wait e peers n cur p m s = (r, s')"
  shows "\<exists>E'. changeable e Q p E' s' \<and> (p \<in> E' \<longrightarrow> p \<in> E \<or> on_the_way p s) \<and>
    active_mask s' = active_mask s \<and> online_mask s' = online_mask s \<and>
    (if r = None then af_allowed (af_tasks s' p) = m else r = Some EINVAL \<and> s' = s)"
proof -
  obtain r1 w s1 where set: "set_cpus_allowed_ptr e cur p m s = (r1, w, s1)" by (metis prod.collapse)
  let ?E = "E \<union> (if on_the_way p s then {p} else {})"
  have inv: "aff_inv e Q ?E s" and S: "has_stoppers e s" "\<And>c. p \<noteq> stopper_of e c"
    using s by (auto simp: changeable_def intro: aff_inv_mono)
  have at: "aff_inv_at e Q ?E {} {} s" using inv by (simp add: aff_inv_def)
  have "on_the_way p s \<Longrightarrow> p \<in> ?E" by simp
  note allowed = set_cpus_allowed_ptr_ok [OF ok at this _ set]
  have 1: "aff_inv e Q ?E (add_work w s1)" using aff_inv_grows [OF inv allowed] S(2) by blast
  have s1: "af_rqs s1 = af_rqs s" "online_mask s1 = online_mask s" "active_mask s1 = active_mask s" "stop_works s1 = stop_works s"
    "r1 = None \<longrightarrow> af_allowed (af_tasks s1 p) = m" "r1 \<noteq> None \<longrightarrow> r1 = Some EINVAL \<and> s1 = s \<and> w = None"
    "\<forall>x. w = Some x \<longrightarrow> r1 = None \<and> fst x = p \<and> fst (snd x) = af_cpu (af_tasks s p) \<and> af_on_rq (af_tasks s p)"
    using set by (auto simp: set_cpus_allowed_ptr_def do_set_cpus_allowed_mp_def Let_def split: if_splits)
  have E: "p \<in> ?E \<longrightarrow> p \<in> E \<or> on_the_way p s" by (auto split: if_splits)
  show ?thesis
  proof (cases w)
    case None
    have "r = r1" "s' = s1" using res set None by (simp_all add: set_cpus_allowed_wait_def)
    moreover have "changeable e Q p ?E s1" using 1 s1(1) S None by (simp add: changeable_def has_stoppers_def add_work_def)
    ultimately show ?thesis using s1 E by (intro exI [of _ ?E]) auto
  next
    case (Some x)
    obtain d where x: "x = (p, af_cpu (af_tasks s p), d)" using s1(7) Some by (metis prod.collapse)
    let ?src = "af_cpu (af_tasks s p)" and ?s1 = "add_work w s1" and ?s2 = "peers n (add_work w s1)"
    let ?s3 = "run_stopper e ?src ?s2"
    have last: "stop_works ?s1 \<noteq> []" "last (stop_works ?s1) = x" using Some by (simp_all add: add_work_def)
    then obtain E2 where run: "(peer_run e Q p)\<^sup>*\<^sup>* (?s1, ?E) (?s2, E2)" and mine: "x \<in> set (stop_works ?s2)"
      using peers 1 unfolding peers_ok_def by metis
    have sel1: "online_mask ?s1 = online_mask s" "active_mask ?s1 = active_mask s" "af_rqs ?s1 = af_rqs s"
      "af_allowed (af_tasks ?s1 p) = m"
      using s1 Some by (simp_all add: add_work_def)
    have 2: "aff_inv e Q E2 ?s2" "online_mask ?s2 = online_mask s" "active_mask ?s2 = active_mask s"
      "has_stoppers e ?s2" "af_allowed (af_tasks ?s2 p) = m" "p \<in> E2 \<longrightarrow> p \<in> ?E"
      using peer_runs_keep [OF ok run] 1 S(1) sel1 by (simp_all add: has_stoppers_def)
    have "placed ?E {} s p" using aff_invD(3) [OF at] s1(7) Some S(2) by (auto simp: tasks_ok_def)
    then have src: "?src \<in> online_mask ?s2" using 2(2) by (simp add: placed_def)
    note 3 = run_stopper_ok [OF ok first 2(1) src 2(4)]
    note u = 3(2) [of p, unfolded undisturbed_def]
    have at3: "aff_inv_at e Q E2 {} {} ?s3" using 3(1) by (simp add: aff_inv_def)
    have s': "s' = stop_works_update (remove1 (p, ?src, d)) (migration_cpu_stop e ?src (p, ?src, d) ?s3)" "r = None"
      using res set Some x s1(7) by (auto simp: set_cpus_allowed_wait_def Let_def add_work_def)
    have mem: "(p, ?src, d) \<in> set (stop_works ?s3)" using mine x u by simp
    note 4 = stop_work_ok [OF ok at3 mem 3(3) s'(1)]
    have lim: "af_on_rq (af_tasks ?s3 p) \<Longrightarrow> p < PID_MAX_LIMIT" using aff_invD(3) [OF at3] by (simp add: tasks_ok_def)
    have reb: "rebalanced e Q ?s3 (migration_cpu_stop e ?src (p, ?src, d) ?s3)"
      using migrate_rebalanced [OF ok aff_invD(1,2) [OF at3] stopper_runs_alone [OF at3 3(3) S(2)] S(2) lim]
      by (simp add: migration_cpu_stop_def)
    have "af_allowed (af_tasks s' p) = m" using rebalanced_task(3) [OF reb] u 2(5) by (simp add: s'(1))
    moreover have "online_mask s' = online_mask s" "active_mask s' = active_mask s" "has_stoppers e s'"
      using rebalancedD(2,3,5) [OF reb] u 2(2-4) by (simp_all add: s'(1) has_stoppers_def)
    ultimately have "changeable e Q p E2 s'" using aff_inv_grows [OF 3(1) 4] S(2) by (simp add: changeable_def)
    then show ?thesis using 2(6) E s'(2) \<open>af_allowed (af_tasks s' p) = m\<close>
        \<open>online_mask s' = online_mask s\<close> \<open>active_mask s' = active_mask s\<close> by auto
  qed
qed

text \<open>The mask of pass \<open>k\<close> of the loop: the one asked for at first, then what the cpuset allowed last.\<close>

definition tried_mask :: "aff_call \<Rightarrow> cpumask \<Rightarrow> nat \<Rightarrow> cpumask" where
  "tried_mask a m k = (if k = 0 then m \<inter> cpuset_at a 0 else cpuset_at a k)"

definition mask_fits :: "aff_call \<Rightarrow> cpumask \<Rightarrow> nat \<Rightarrow> bool" where
  "mask_fits a m k \<longleftrightarrow> tried_mask a m k \<subseteq> cpuset_at a (k + 1)"

text \<open>The state in which pass \<open>k\<close> begins.\<close>

fun pass_start :: "'c aff_env \<Rightarrow> (nat \<Rightarrow> 'c aff \<Rightarrow> 'c aff) \<Rightarrow> aff_call \<Rightarrow> cpumask \<Rightarrow> tid \<Rightarrow> 'c aff \<Rightarrow> nat \<Rightarrow> 'c aff" where
  "pass_start e peers a m p s 0 = s"
| "pass_start e peers a m p s (Suc k) =
     snd (set_cpus_allowed_wait e peers k (caller a) p (tried_mask a m k) (pass_start e peers a m p s k))"

definition setaffinity_result :: "aff_call \<Rightarrow> cpumask \<Rightarrow> tid \<Rightarrow> nat \<Rightarrow> 'c aff \<Rightarrow> errno option \<Rightarrow> 'c aff \<Rightarrow> bool" where
  "setaffinity_result a m p k s r s' \<longleftrightarrow>
     (if r = None then mask_fits a m k \<and> af_allowed (af_tasks s' p) = tried_mask a m k
      else r = Some EINVAL \<and> af_allowed (af_tasks s' p) = (if k = 0 then af_allowed (af_tasks s p) else tried_mask a m (k - 1)))"

lemma setaffinity_again_ok:
  assumes ok: "classes_ok e Q" and first: "stop_first e Q" and peers: "peers_ok e Q p peers"
    and fits: "mask_fits a m N" and s0: "changeable e Q p E s0"
  shows "j \<le> N \<Longrightarrow> s = pass_start e peers a m p s0 j \<Longrightarrow> changeable e Q p Ej s \<Longrightarrow>
    (p \<in> Ej \<longrightarrow> p \<in> E \<or> (\<exists>i < j. on_the_way p (pass_start e peers a m p s0 i))) \<Longrightarrow> (\<And>i. i < j \<Longrightarrow> \<not> mask_fits a m i) \<Longrightarrow>
    (0 < j \<Longrightarrow> af_allowed (af_tasks s p) = tried_mask a m (j - 1)) \<Longrightarrow>
    \<exists>r k E'. setaffinity_again e peers a p j (tried_mask a m j) s = Some (r, pass_start e peers a m p s0 (Suc k)) \<and>
      changeable e Q p E' (pass_start e peers a m p s0 (Suc k)) \<and>
      (p \<in> E' \<longrightarrow> p \<in> E \<or> (\<exists>i \<le> k. on_the_way p (pass_start e peers a m p s0 i))) \<and>
      online_mask (pass_start e peers a m p s0 (Suc k)) = online_mask s \<and> k \<le> N \<and> (\<forall>i < k. \<not> mask_fits a m i) \<and>
      setaffinity_result a m p k s0 r (pass_start e peers a m p s0 (Suc k))"
proof (induction "N - j" arbitrary: j s Ej rule: less_induct)
  case less
  let ?st = "pass_start e peers a m p s0"
  obtain r s1 where w: "set_cpus_allowed_wait e peers j (caller a) p (tried_mask a m j) s = (r, s1)" by fastforce
  have s1: "?st (Suc j) = s1" using w less.prems(2) by simp
  obtain E1 where W: "changeable e Q p E1 s1" "p \<in> E1 \<longrightarrow> p \<in> Ej \<or> on_the_way p s" "online_mask s1 = online_mask s"
      "if r = None then af_allowed (af_tasks s1 p) = tried_mask a m j else r = Some EINVAL \<and> s1 = s"
    using set_cpus_allowed_wait_ok [OF ok first peers less.prems(3) w] by blast
  have E1: "p \<in> E1 \<longrightarrow> p \<in> E \<or> (\<exists>i < Suc j. on_the_way p (?st i))"
    using W(2) less.prems(2,4) by (auto simp: less_Suc_eq)
  show ?case
  proof (cases "r = None \<and> \<not> mask_fits a m j")
    case False
    then have again: "setaffinity_again e peers a p j (tried_mask a m j) s = Some (r, ?st (Suc j))"
      unfolding s1 using w by (subst setaffinity_again.simps) (auto simp: mask_fits_def)
    have "setaffinity_result a m p j s0 r s1"
      using W(4) less.prems(2,6) False by (cases "j = 0") (auto simp: setaffinity_result_def)
    moreover have "p \<in> E1 \<longrightarrow> p \<in> E \<or> (\<exists>i \<le> j. on_the_way p (?st i))" using E1 by (simp add: less_Suc_eq_le)
    ultimately show ?thesis using W(1,3) less.prems(1,5) again
      by (intro exI [of _ r] exI [of _ j] exI [of _ E1]) (simp only: s1, blast)
  next
    case True
    then have "j \<noteq> N" using fits by blast
    then have j: "Suc j \<le> N" "N - Suc j < N - j" using less.prems(1) by auto
    have next_pass: "setaffinity_again e peers a p j (tried_mask a m j) s =
        setaffinity_again e peers a p (Suc j) (tried_mask a m (Suc j)) s1"
      using True w by (subst setaffinity_again.simps) (simp add: mask_fits_def tried_mask_def)
    have "\<not> mask_fits a m i" if "i < Suc j" for i using that True less.prems(5) by (cases "i = j") auto
    moreover have "af_allowed (af_tasks s1 p) = tried_mask a m (Suc j - 1)" using W(4) True by simp
    ultimately show ?thesis
      unfolding next_pass using less.hyps [OF j(2,1) s1 [symmetric] W(1) E1] W(3) by simp
  qed
qed

section \<open>Masks in memory\<close>

lemma bit_mask_byte: "j < 8 \<Longrightarrow> bit (mask_byte m i) j \<longleftrightarrow> 8 * i + j \<in> m"
  by (simp add: mask_byte_def bit_horner_sum_bit_iff)

lemma bytes_mask_mem:
  "k \<in> bytes_mask bs \<longleftrightarrow> k < 8 * length bs \<and> bit (bs ! (k div 8)) (k mod 8)"
  by (auto simp: bytes_mask_def)

lemma bytes_mask_bytes: "bytes_mask (mask_bytes n m) = m \<inter> {..<8 * n}"
proof -
  have "k \<in> bytes_mask (mask_bytes n m) \<longleftrightarrow> k < 8 * n \<and> k \<in> m" for k
  proof (cases "k < 8 * n")
    case True
    then have "k div 8 < n" by (simp add: less_mult_imp_div_less mult.commute)
    then show ?thesis using True by (simp add: bytes_mask_mem mask_bytes_def bit_mask_byte)
  qed (simp add: bytes_mask_mem mask_bytes_def)
  then show ?thesis by auto
qed

lemma bytes_mask_zeros: "bytes_mask (bs @ replicate n 0) = bytes_mask bs"
proof -
  have "k \<in> bytes_mask (bs @ replicate n 0) \<longleftrightarrow> k \<in> bytes_mask bs" for k
    by (cases "k div 8 < length bs") (auto simp: bytes_mask_mem nth_append)
  then show ?thesis by blast
qed

lemma take_mask_bytes: "take n (mask_bytes l m) = mask_bytes (min n l) m"
  by (simp add: mask_bytes_def take_map min_def)

lemma get_user_cpu_mask_bytes:
  assumes "length old = cpumask_size bits"
  shows "get_user_cpu_mask bits (mask_bytes (unat len) m) len old = Inr (m \<inter> {..<8 * min (unat len) (cpumask_size bits)})"
proof -
  have len: "length (mask_bytes l m) = l" for l by (simp add: mask_bytes_def)
  show ?thesis
  proof (cases "unat len < cpumask_size bits")
    case True
    then show ?thesis
      by (simp add: get_user_cpu_mask_def Let_def len take_mask_bytes bytes_mask_zeros bytes_mask_bytes)
  next
    case False
    then show ?thesis
      using assms by (auto simp: get_user_cpu_mask_def Let_def len take_mask_bytes bytes_mask_bytes min_def)
  qed
qed

section \<open>wait_task_inactive\<close>

text \<open>It returns, once the task is seen off its processor and its queue for good, or in another state.\<close>

lemma wait_task_inactive_result:
  assumes ret: "wait_task_inactive look st n = Some v"
  shows "v = 0 \<and> st \<noteq> 0 \<and> (\<exists>i \<ge> n. lk_state (look i) \<noteq> st) \<or>
    (\<exists>i \<ge> n. \<not> lk_running (look i) \<and> \<not> lk_on_rq (look i) \<and> (st = 0 \<or> lk_state (look i) = st) \<and>
       v = lk_nvcsw (look i) OR LONG_MIN)"
    (is "?P look st n v")
proof (rule wait_task_inactive.raw_induct [where P = ?P, OF _ ret])
  fix f look st n v
  assume IH: "\<And>look st n v. f look st n = Some v \<Longrightarrow> ?P look st n v"
    and eq: "(if lk_running (look n)
      then if st \<noteq> 0 \<and> lk_state (look n) \<noteq> st then Some 0 else f look st (n + 1)
      else let l = look (n + 1); ncsw = (if st = 0 \<or> lk_state l = st then lk_nvcsw l OR LONG_MIN else 0)
        in if ncsw = 0 then Some ncsw else if lk_running l then f look st (n + 2)
           else if lk_on_rq l then f look st (n + 2) else Some ncsw) = Some v"
  have later: "?P look st n v" if "?P look st (n + i) v" for i
  proof -
    have "n \<le> n + i" by simp
    then show ?thesis using that by (blast intro: le_trans)
  qed
  show "?P look st n v"
  proof (cases "lk_running (look n)")
    case True
    then show ?thesis using eq later [OF IH, of 1] by (auto split: if_splits)
  next
    case False
    let ?c = "lk_nvcsw (look (n + 1)) OR LONG_MIN"
    have "bit ?c 31" by (simp add: LONG_MIN_def bit_simps)
    then have c: "?c \<noteq> 0" by (metis bit_0_eq bot_fun_def bot_bool_def)
    consider "st \<noteq> 0" "lk_state (look (n + 1)) \<noteq> st" | "st = 0 \<or> lk_state (look (n + 1)) = st" "lk_running (look (n + 1)) \<or> lk_on_rq (look (n + 1))"
      | "st = 0 \<or> lk_state (look (n + 1)) = st" "\<not> lk_running (look (n + 1))" "\<not> lk_on_rq (look (n + 1))"
      by blast
    then show ?thesis
    proof cases
      case 1
      then have "v = 0" using eq False by simp
      then show ?thesis using 1 by (metis le_add1)
    next
      case 2
      then have "f look st (n + 2) = Some v" using eq False c by (auto simp: Let_def split: if_splits)
      then show ?thesis by (rule later [OF IH])
    next
      case 3
      then have "v = ?c" using eq False c by (auto simp: Let_def)
      then show ?thesis using 3 by (metis le_add1)
    qed
  qed
qed

lemma wait_task_inactive_returns:
  assumes "\<And>i. N \<le> i \<Longrightarrow> \<not> lk_running (look i) \<and> \<not> lk_on_rq (look i)"
  shows "\<exists>v. wait_task_inactive look st n = Some v"
proof (induction "N - n" arbitrary: n rule: less_induct)
  case less
  show ?case
  proof (cases "N \<le> n")
    case True
    then have "\<not> lk_running (look n)" "\<not> lk_running (look (n + 1))" "\<not> lk_on_rq (look (n + 1))"
      using assms [of n] assms [of "n + 1"] by simp_all
    then show ?thesis by (subst wait_task_inactive.simps) (simp add: Let_def)
  next
    case False
    then obtain v1 v2 where "wait_task_inactive look st (n + 1) = Some v1" "wait_task_inactive look st (n + 2) = Some v2"
      using less [of "n + 1"] less [of "n + 2"] False by fastforce
    then show ?thesis by (subst wait_task_inactive.simps) (simp only: Let_def split: if_split, blast)
  qed
qed

end
