(* ===== verification/Affinity_Wrr.thy ===== *)
theory Affinity_Wrr
  imports Affinity_Sys Wrr_Props
begin

text \<open>
  The WRR class on several processors, from its model for one: the tasks and the clock are shared, each
  processor has its run queue, and the operations of \<^verbatim>\<open>wrr.c\<close> run on the queue of one. With the
  stop threads, whose class is not in the repository, it is what \<open>Affinity\<close> asks of the classes.
  Its throttling is where taking a processor down fails.
\<close>

section \<open>Run queues that share their tasks\<close>

text \<open>The stop threads are the tasks \<open>3 * c + 1\<close>; \<open>wc_stop\<close> holds those on the queue of a processor.\<close>

record wrr_cpus =
  wc_shared :: "unit kernel"
  wc_rq :: "nat \<Rightarrow> rq"
  wc_stop :: "nat \<Rightarrow> tid set"

abbreviation stop_thread :: "tid \<Rightarrow> bool" where
  "stop_thread p \<equiv> p mod 3 = 1"

abbreviation wc_active :: "wrr_cpus \<Rightarrow> nat \<Rightarrow> tid list" where
  "wc_active x c \<equiv> active (wrr (wc_rq x c))"

definition wc_at :: "nat \<Rightarrow> wrr_cpus \<Rightarrow> unit kernel" where
  "wc_at c x = (wc_shared x)\<lparr>rq := wc_rq x c\<rparr>"

definition wc_on :: "nat \<Rightarrow> (unit kernel \<Rightarrow> unit kernel) \<Rightarrow> wrr_cpus \<Rightarrow> wrr_cpus" where
  "wc_on c f x = (let k = f (wc_at c x) in x\<lparr>wc_shared := k, wc_rq := (wc_rq x)(c := rq k)\<rparr>)"

definition wc_queued :: "nat \<Rightarrow> wrr_cpus \<Rightarrow> tid set" where
  "wc_queued c x = set (wc_active x c) \<union> wc_stop x c"

definition wc_ok :: "wrr_cpus \<Rightarrow> bool" where
  "wc_ok x \<longleftrightarrow> (\<forall>c. wrr_inv (wc_at c x) \<and> (\<forall>p \<in> set (wc_active x c). \<not> stop_thread p) \<and>
     (\<forall>p \<in> wc_stop x c. stop_thread p \<and> p < PID_MAX_LIMIT) \<and>
     nr_running (wc_rq x c) = wrr_nr_running (wrr (wc_rq x c)) + of_nat (card (wc_stop x c)))"

lemma wc_at_sel [simp]:
  "rq (wc_at c x) = wc_rq x c" "tasks (wc_at c x) = tasks (wc_shared x)" "xtime_nsec (wc_at c x) = xtime_nsec (wc_shared x)"
  by (simp_all add: wc_at_def)

lemma wc_on_sel [simp]:
  "wc_shared (wc_on c f x) = f (wc_at c x)" "wc_stop (wc_on c f x) = wc_stop x"
  "wc_rq (wc_on c f x) = (wc_rq x)(c := rq (f (wc_at c x)))"
  by (simp_all add: wc_on_def Let_def)

lemma wc_okD:
  assumes "wc_ok x"
  shows "wrr_inv (wc_at c x)" "p \<in> set (wc_active x c) \<Longrightarrow> \<not> stop_thread p" "p \<in> wc_stop x c \<Longrightarrow> stop_thread p"
    "p \<in> wc_stop x c \<Longrightarrow> p < PID_MAX_LIMIT" "finite (wc_stop x c)"
    "nr_running (wc_rq x c) = wrr_nr_running (wrr (wc_rq x c)) + of_nat (card (wc_stop x c))"
proof -
  show "finite (wc_stop x c)" by (rule finite_subset [of _ "{..<PID_MAX_LIMIT}"]) (use assms in \<open>auto simp: wc_ok_def\<close>)
qed (use assms in \<open>auto simp: wc_ok_def\<close>)

text \<open>An operation on one queue is seen by the other queues only in their own tasks.\<close>

lemma wrr_inv_other:
  assumes "wrr_inv k" and "wrr (rq k') = wrr (rq k)" and "\<And>p. wrr_task_ok (p_wrr (tasks k' p))"
    and "\<And>p. p \<in> set (active (wrr (rq k))) \<Longrightarrow> p_wrr (tasks k' p) = p_wrr (tasks k p)"
  shows "wrr_inv k'"
proof -
  have "(\<Sum>p\<leftarrow>active (wrr (rq k)). weight (p_wrr (tasks k' p))) = (\<Sum>p\<leftarrow>active (wrr (rq k)). weight (p_wrr (tasks k p)))"
    using assms(4) by (intro arg_cong [where f = sum_list] map_cong) auto
  then show ?thesis using wrr_invD [OF assms(1)] assms(2,3,4) by (intro wrr_invI) simp_all
qed

lemma wc_on_ok:
  assumes ok: "wc_ok x" and inv: "wrr_inv (f (wc_at c x))"
    and others: "\<And>d p. p \<in> set (wc_active x d) \<Longrightarrow> d \<noteq> c \<Longrightarrow> p_wrr (tasks (f (wc_at c x)) p) = p_wrr (tasks (wc_shared x) p)"
    and mine: "\<And>p. p \<in> set (active (wrr (rq (f (wc_at c x))))) \<Longrightarrow> \<not> stop_thread p"
    and nr: "nr_running (rq (f (wc_at c x))) = wrr_nr_running (wrr (rq (f (wc_at c x)))) + of_nat (card (wc_stop x c))"
  shows "wc_ok (wc_on c f x)"
proof -
  have "wrr_inv (wc_at d (wc_on c f x))" for d
  proof (cases "d = c")
    case True
    then have "wrr_inv (wc_at d (wc_on c f x)) = wrr_inv (f (wc_at c x))" by (intro wrr_inv_cong) simp_all
    then show ?thesis using inv by simp
  next
    case False
    show ?thesis by (rule wrr_inv_other [OF wc_okD(1) [OF ok, of d]]) (use False others wrr_invD(6) [OF inv] in auto)
  qed
  then show ?thesis using wc_okD(2-6) [OF ok] mine nr by (simp add: wc_ok_def)
qed

section \<open>The operations\<close>

definition wc_enqueue :: "nat \<Rightarrow> tid \<Rightarrow> wrr_cpus \<Rightarrow> wrr_cpus" where
  "wc_enqueue c p x =
     (if p < PID_MAX_LIMIT \<and> (\<forall>d. p \<notin> wc_queued d x)
      then if stop_thread p
           then x\<lparr>wc_stop := (wc_stop x)(c := insert p (wc_stop x c)), wc_rq := (wc_rq x)(c := rq (inc_nr_running (wc_at c x)))\<rparr>
           else wc_on c (enqueue_task_wrr plain_env p 0) x
      else x)"

definition wc_dequeue :: "nat \<Rightarrow> tid \<Rightarrow> wrr_cpus \<Rightarrow> wrr_cpus" where
  "wc_dequeue c p x =
     (if p \<in> wc_stop x c
      then x\<lparr>wc_stop := (wc_stop x)(c := wc_stop x c - {p}), wc_rq := (wc_rq x)(c := rq (dec_nr_running (wc_at c x)))\<rparr>
      else if p \<in> set (wc_active x c) then wc_on c (dequeue_task_wrr p 0) x else x)"

definition wc_put_prev :: "nat \<Rightarrow> tid \<Rightarrow> wrr_cpus \<Rightarrow> wrr_cpus" where
  "wc_put_prev c p x = (if p \<in> set (wc_active x c) then wc_on c (put_prev_task_wrr p) x else x)"

definition stop_found :: "nat \<Rightarrow> tid option \<Rightarrow> wrr_cpus \<Rightarrow> bool" where
  "stop_found c st x \<longleftrightarrow> (case st of Some t \<Rightarrow> t \<in> wc_stop x c | None \<Rightarrow> False)"

definition wc_picked :: "nat \<Rightarrow> tid option \<Rightarrow> wrr_cpus \<Rightarrow> tid" where
  "wc_picked c st x =
     (if stop_found c st x then the st
      else case fst (pick_next_task_wrr (wc_at c x)) of Some p \<Rightarrow> p | None \<Rightarrow> 3 * c)"

definition wc_after_pick :: "nat \<Rightarrow> tid option \<Rightarrow> wrr_cpus \<Rightarrow> wrr_cpus" where
  "wc_after_pick c st x = (if stop_found c st x then x else wc_on c (\<lambda>k. snd (pick_next_task_wrr k)) x)"

lemma wc_enqueue_ok:
  assumes "wc_ok x"
  shows "wc_ok (wc_enqueue c p x)"
proof (cases "p < PID_MAX_LIMIT \<and> (\<forall>d. p \<notin> wc_queued d x)")
  case True
  then have p: "p < PID_MAX_LIMIT" "\<And>d. p \<notin> set (wc_active x d)" "\<And>d. p \<notin> wc_stop x d" by (auto simp: wc_queued_def)
  show ?thesis
  proof (cases "stop_thread p")
    case stop: True
    have "wrr_inv (wc_at d (wc_enqueue c p x))" for d
      using wc_okD(1) [OF assms, of d] stop True by (subst wrr_inv_cong [of _ "wc_at d x"])
        (simp_all add: wc_enqueue_def inc_nr_running_def)
    then show ?thesis using True stop p wc_okD [OF assms]
      by (simp add: wc_ok_def [of "wc_enqueue c p x"]) (auto simp: wc_enqueue_def inc_nr_running_def)
  next
    case False
    let ?f = "enqueue_task_wrr plain_env p 0" and ?k = "wc_at c x"
    have q: "set (active (wrr (rq (?f ?k)))) = insert p (set (wc_active x c))"
      using wrr_queued_enqueue [of plain_env p 0 ?k] by (simp add: wrr_queued_def)
    have "wc_ok (wc_on c ?f x)"
    proof (rule wc_on_ok [OF assms])
      show "wrr_inv (?f ?k)" using p by (intro wrr_inv_enqueue wc_okD(1) [OF assms]) simp_all
      show "p_wrr (tasks (?f ?k) q) = p_wrr (tasks (wc_shared x) q)" if "q \<in> set (wc_active x d)" for q d
        using that p(2) [of d] by (auto simp: tasks_enqueue_task_wrr)
      show "\<not> stop_thread q" if "q \<in> set (active (wrr (rq (?f ?k))))" for q
        using that False wc_okD(2) [OF assms] unfolding q by auto
      show "nr_running (rq (?f ?k)) = wrr_nr_running (wrr (rq (?f ?k))) + of_nat (card (wc_stop x c))"
        using wc_okD(6) [OF assms, of c] by (simp add: rq_enqueue_task_wrr)
    qed
    then show ?thesis using True False by (simp add: wc_enqueue_def)
  qed
qed (use assms in \<open>auto simp: wc_enqueue_def\<close>)

lemma wc_dequeue_ok:
  assumes "wc_ok x"
  shows "wc_ok (wc_dequeue c p x)"
proof -
  consider "p \<in> wc_stop x c" | "p \<notin> wc_stop x c" "p \<in> set (wc_active x c)" | "p \<notin> wc_stop x c" "p \<notin> set (wc_active x c)" by blast
  then show ?thesis
  proof cases
    case 1
    have "wrr_inv (wc_at d (wc_dequeue c p x))" for d
      using wc_okD(1) [OF assms, of d] 1 by (subst wrr_inv_cong [of _ "wc_at d x"])
        (simp_all add: wc_dequeue_def dec_nr_running_def)
    moreover have "card (wc_stop x c) = Suc (card (wc_stop x c - {p}))" using card.remove [OF wc_okD(5) [OF assms] 1] .
    ultimately show ?thesis using 1 wc_okD [OF assms]
      by (simp add: wc_ok_def [of "wc_dequeue c p x"]) (auto simp: wc_dequeue_def dec_nr_running_def)
  next
    case 2
    let ?f = "dequeue_task_wrr p 0" and ?k = "wc_at c x"
    have "wc_ok (wc_on c ?f x)"
    proof (rule wc_on_ok [OF assms])
      show "wrr_inv (?f ?k)" using 2 by (intro wrr_inv_dequeue wc_okD(1) [OF assms]) simp
      show "\<not> stop_thread q" if "q \<in> set (active (wrr (rq (?f ?k))))" for q
        using that wc_okD(2) [OF assms] by (auto simp: rq_dequeue_task_wrr dest: notin_set_remove1)
      show "nr_running (rq (?f ?k)) = wrr_nr_running (wrr (rq (?f ?k))) + of_nat (card (wc_stop x c))"
        using wc_okD(6) [OF assms, of c] by (simp add: rq_dequeue_task_wrr)
    qed simp
    then show ?thesis using 2 by (simp add: wc_dequeue_def)
  qed (use assms in \<open>simp add: wc_dequeue_def\<close>)
qed

lemma wc_same_queue_ok:
  assumes "wc_ok x" and "wrr_inv (f (wc_at c x))" and "rq (f (wc_at c x)) = wc_rq x c"
    and "\<And>p. p_wrr (tasks (f (wc_at c x)) p) = p_wrr (tasks (wc_shared x) p)"
  shows "wc_ok (wc_on c f x)" "wc_queued d (wc_on c f x) = wc_queued d x"
proof -
  show "wc_ok (wc_on c f x)" by (rule wc_on_ok [OF assms(1)]) (use assms wc_okD(2,6) [OF assms(1)] in simp_all)
  show "wc_queued d (wc_on c f x) = wc_queued d x" using assms(3) by (simp add: wc_queued_def)
qed

lemma pick_frame:
  "rq (snd (pick_next_task_wrr k)) = rq k" "p_wrr (tasks (snd (pick_next_task_wrr k)) p) = p_wrr (tasks k p)"
  "xtime_nsec (snd (pick_next_task_wrr k)) = xtime_nsec k"
  by (simp_all add: pick_next_task_wrr_def Let_def set_exec_start_def BUG_def split: option.splits)

lemma wc_put_prev_ok:
  assumes "wc_ok x"
  shows "wc_ok (wc_put_prev c p x)" "wc_queued d (wc_put_prev c p x) = wc_queued d x"
  using wc_same_queue_ok [OF assms, of "put_prev_task_wrr p" c] wrr_inv_put_prev [OF wc_okD(1) [OF assms]]
  by (simp_all add: wc_put_prev_def assms put_prev_task_wrr_def)

lemma wc_after_pick_ok:
  assumes "wc_ok x"
  shows "wc_ok (wc_after_pick c st x)" "wc_queued d (wc_after_pick c st x) = wc_queued d x"
  using wc_same_queue_ok [OF assms, of "\<lambda>k. snd (pick_next_task_wrr k)" c] wrr_inv_pick [OF wc_okD(1) [OF assms]]
  by (simp_all add: wc_after_pick_def assms pick_frame)

text \<open>The time of day is what \<^verbatim>\<open>wrr_throttled()\<close> reads; no operation changes it.\<close>

lemma wc_clock:
  "xtime_nsec (wc_shared (wc_enqueue c p x)) = xtime_nsec (wc_shared x)"
  "xtime_nsec (wc_shared (wc_dequeue c p x)) = xtime_nsec (wc_shared x)"
  "xtime_nsec (wc_shared (wc_put_prev c p x)) = xtime_nsec (wc_shared x)"
  "xtime_nsec (wc_shared (wc_after_pick c st x)) = xtime_nsec (wc_shared x)"
  by (simp_all add: wc_enqueue_def wc_dequeue_def wc_put_prev_def wc_after_pick_def put_prev_task_wrr_def pick_frame)

section \<open>What the operations do to the queues\<close>

lemma wc_enqueue_queued:
  assumes "wc_ok x" and "p < PID_MAX_LIMIT" and "\<And>d. p \<notin> wc_queued d x"
  shows "wc_queued d (wc_enqueue c p x) = (if d = c then insert p (wc_queued c x) else wc_queued d x)"
  using assms wrr_queued_enqueue [of plain_env p 0 "wc_at c x"]
  by (auto simp: wc_enqueue_def wc_queued_def wrr_queued_def inc_nr_running_def)

lemma wc_dequeue_queued:
  assumes "wc_ok x" and "p \<in> wc_queued c x"
  shows "wc_queued d (wc_dequeue c p x) = (if d = c then wc_queued c x - {p} else wc_queued d x)"
proof -
  have "set (remove1 p (wc_active x c)) = set (wc_active x c) - {p}"
    using wrr_invD(1) [OF wc_okD(1) [OF assms(1), of c]] by (intro set_remove1_eq) simp
  moreover have "p \<in> wc_stop x c \<Longrightarrow> p \<notin> set (wc_active x c)" using wc_okD(2,3) [OF assms(1)] by blast
  ultimately show ?thesis
    using assms by (auto simp: wc_dequeue_def wc_queued_def rq_dequeue_task_wrr dec_nr_running_def)
qed

lemma wc_nr_running:
  assumes "wc_ok x"
  shows "finite (wc_queued c x)" "nr_running (wc_rq x c) = of_nat (card (wc_queued c x))"
proof -
  show "finite (wc_queued c x)" using wc_okD(5) [OF assms] by (simp add: wc_queued_def)
  have "set (wc_active x c) \<inter> wc_stop x c = {}" using wc_okD(2,3) [OF assms] by blast
  then have "card (wc_queued c x) = length (wc_active x c) + card (wc_stop x c)"
    using wrr_invD(1) [OF wc_okD(1) [OF assms, of c]] wc_okD(5) [OF assms]
    by (simp add: wc_queued_def card_Un_disjoint distinct_card)
  then show "nr_running (wc_rq x c) = of_nat (card (wc_queued c x))"
    using wc_okD(6) [OF assms, of c] wrr_invD(3) [OF wc_okD(1) [OF assms, of c]] by simp
qed

lemma wc_picked_mem:
  assumes "wc_ok x"
  shows "wc_picked c st x \<in> insert (3 * c) (wc_queued c x)"
  by (auto simp: wc_picked_def stop_found_def wc_queued_def pick_next_task_wrr_def pick_next_wrr_entity_def Let_def
      split: option.splits list.splits)

text \<open>Without the stop thread the first WRR task is found, unless the class is throttled.\<close>

lemma wc_picked_None:
  assumes "wc_ok x"
  shows "wc_picked c None x = (if wc_active x c = [] \<or> wrr_throttled (wc_shared x) then 3 * c else hd (wc_active x c))"
proof -
  have "wrr_throttled (wc_at c x) = wrr_throttled (wc_shared x)" by (simp add: wrr_throttled_def)
  then show ?thesis
    using wrr_nr_running_0_iff [OF wc_okD(1) [OF assms, of c]]
    by (auto simp: wc_picked_def stop_found_def pick_next_task_wrr_def pick_next_wrr_entity_def Let_def split: list.splits)
qed

section \<open>The class\<close>

definition wc_boot :: "u32 \<Rightarrow> wrr_cpus" where
  "wc_boot now =
     \<lparr>wc_shared = boot_kernel\<lparr>xtime_nsec := now, tasks := (\<lambda>_. INIT_TASK\<lparr>policy := SCHED_WRR, sched_class := Wrr_Class\<rparr>)\<rparr>,
      wc_rq = (\<lambda>_. boot_rq), wc_stop = (\<lambda>_. {})\<rparr>"

lemma wc_boot_ok: "wc_ok (wc_boot now)"
  by (simp add: wc_ok_def wrr_inv_def wrr_task_ok_def wc_boot_def boot_rq_def INIT_TASK_def)

typedef wrr_data = "{x. wc_ok x}" morphisms cpus_of wrr_data_of
  using wc_boot_ok by blast

setup_lifting type_definition_wrr_data

lift_definition wd_boot :: "u32 \<Rightarrow> wrr_data" is wc_boot by (rule wc_boot_ok)
lift_definition wd_queued :: "nat \<Rightarrow> wrr_data \<Rightarrow> tid set" is wc_queued .
lift_definition wd_enqueue :: "nat \<Rightarrow> tid \<Rightarrow> wrr_data \<Rightarrow> wrr_data" is wc_enqueue by (rule wc_enqueue_ok)
lift_definition wd_dequeue :: "nat \<Rightarrow> tid \<Rightarrow> wrr_data \<Rightarrow> wrr_data" is wc_dequeue by (rule wc_dequeue_ok)
lift_definition wd_put_prev :: "nat \<Rightarrow> tid \<Rightarrow> wrr_data \<Rightarrow> wrr_data" is wc_put_prev by (rule wc_put_prev_ok)
lift_definition wd_picked :: "nat \<Rightarrow> tid option \<Rightarrow> wrr_data \<Rightarrow> tid" is wc_picked .
lift_definition wd_after_pick :: "nat \<Rightarrow> tid option \<Rightarrow> wrr_data \<Rightarrow> wrr_data" is wc_after_pick by (rule wc_after_pick_ok)
lift_definition wd_nr_running :: "nat \<Rightarrow> wrr_data \<Rightarrow> ulong" is "\<lambda>c x. nr_running (wc_rq x c)" .
lift_definition wd_throttled :: "wrr_data \<Rightarrow> bool" is "\<lambda>x. wrr_throttled (wc_shared x)" .

text \<open>
  Two processors with caches of their own. \<^verbatim>\<open>wrr.c\<close> has no operation for a change of the mask, for
  a processor that comes or goes or for the hooks around scheduling, and its \<^verbatim>\<open>check_preempt_curr\<close>
  does nothing.
\<close>

definition wrr_aff :: "wrr_data aff_env" where
  "wrr_aff = \<lparr>ncpus = 2, possible_mask = {0, 1}, node_cpus = (\<lambda>c. {c}), llc_id = int, ttwu_queue_feat = True,
     idle_of = (\<lambda>c. 3 * c), stopper_of = (\<lambda>c. 3 * c + 1), fallback_mask = (\<lambda>p. None),
     cl_enqueue = wd_enqueue, cl_dequeue = wd_dequeue, cl_pick = (\<lambda>c st k. (wd_picked c st k, wd_after_pick c st k)),
     cl_put_prev = wd_put_prev, cl_preempt = (\<lambda>c p k. k), cl_set_allowed = (\<lambda>p m k. k),
     cl_rq_online = (\<lambda>c k. k), cl_rq_offline = (\<lambda>c k. k), cl_unthrottle = (\<lambda>c k. k),
     cl_nr_running = wd_nr_running, cl_select = (\<lambda>p f s. af_cpu (af_tasks s p)),
     cl_pull = (\<lambda>c p s. s), cl_post = (\<lambda>c s. s), cl_woken = (\<lambda>c p s. s)\<rparr>"

lemma wrr_aff_sel [simp]:
  "ncpus wrr_aff = 2" "possible_mask wrr_aff = {0, 1}" "idle_of wrr_aff c = 3 * c" "stopper_of wrr_aff c = 3 * c + 1"
  "cl_enqueue wrr_aff = wd_enqueue" "cl_dequeue wrr_aff = wd_dequeue" "cl_put_prev wrr_aff = wd_put_prev"
  "cl_pick wrr_aff c st k = (wd_picked c st k, wd_after_pick c st k)" "cl_preempt wrr_aff c p k = k"
  "cl_set_allowed wrr_aff p m k = k" "cl_rq_online wrr_aff c k = k" "cl_rq_offline wrr_aff c k = k"
  "cl_unthrottle wrr_aff c k = k" "cl_nr_running wrr_aff = wd_nr_running" "cl_select wrr_aff p f s = af_cpu (af_tasks s p)"
  "cl_pull wrr_aff c p s = s" "cl_post wrr_aff c s = s" "cl_woken wrr_aff c p s = s"
  by (simp_all add: wrr_aff_def)

text \<open>It keeps what \<open>Affinity\<close> relies on.\<close>

lemma wd_enqueue_queued:
  "p < PID_MAX_LIMIT \<Longrightarrow> \<forall>d. p \<notin> wd_queued d k \<Longrightarrow>
     wd_queued d (wd_enqueue c p k) = (if d = c then insert p (wd_queued c k) else wd_queued d k)"
  by transfer (simp add: wc_enqueue_queued)

lemma wd_dequeue_queued:
  "p \<in> wd_queued c k \<Longrightarrow> wd_queued d (wd_dequeue c p k) = (if d = c then wd_queued c k - {p} else wd_queued d k)"
  by transfer (simp add: wc_dequeue_queued)

lemma wd_picked_mem: "wd_picked c st k = 3 * c \<or> wd_picked c st k \<in> wd_queued c k"
  by transfer (use wc_picked_mem in auto)

lemma wd_put_prev_queued: "wd_queued d (wd_put_prev c p k) = wd_queued d k"
  by transfer (simp add: wc_put_prev_ok)

lemma wd_after_pick_queued: "wd_queued d (wd_after_pick c st k) = wd_queued d k"
  by transfer (simp add: wc_after_pick_ok)

lemma wd_finite: "finite (wd_queued c k)"
  by transfer (simp add: wc_nr_running)

lemma wd_nr_running: "wd_nr_running c k = of_nat (card (wd_queued c k))"
  by transfer (simp add: wc_nr_running)

lemmas wd_laws = wd_picked_mem wd_put_prev_queued wd_after_pick_queued wd_finite wd_nr_running

lemma wrr_classes: "classes_ok wrr_aff wd_queued"
  unfolding classes_ok_def keeps_queues_def balances_def
  by (simp add: wd_enqueue_queued wd_dequeue_queued wd_laws rebalanced_refl)

lemma wd_pick_stop:
  "3 * c + 1 \<in> wd_queued c k \<Longrightarrow> wd_picked c (Some (3 * c + 1)) k = 3 * c + 1"
  by transfer (auto simp: wc_queued_def wc_picked_def stop_found_def dest: wc_okD(2))

lemma wd_picked_None:
  assumes "\<not> wd_throttled k" and "p \<in> wd_queued c k" and "\<not> stop_thread p"
  shows "wd_picked c None k \<in> wd_queued c k"
  using assms by transfer (auto simp: wc_picked_None wc_queued_def dest: wc_okD(3))

lemma wd_picked_throttled: "wd_throttled k \<Longrightarrow> wd_picked c None k = 3 * c"
  by transfer (simp add: wc_picked_None)

lemma wrr_stop_first: "stop_first wrr_aff wd_queued"
  using wd_pick_stop by (simp add: stop_first_def PID_MAX_LIMIT_def)

lemma wrr_stop_hidden: "stop_hidden wrr_aff"
proof -
  have "wd_picked c None k \<noteq> 3 * c + 1" for c k
  proof (transfer fixing: c)
    fix x assume ok: "wc_ok x"
    have "\<not> stop_thread (hd (wc_active x c))" if "wc_active x c \<noteq> []" using that wc_okD(2) [OF ok] hd_in_set by blast
    then show "wc_picked c None x \<noteq> 3 * c + 1" by (auto simp: wc_picked_None [OF ok])
  qed
  then show ?thesis by (simp add: stop_hidden_def)
qed

lemma wd_clock_enqueue: "wd_throttled (wd_enqueue c p k) = wd_throttled k"
  by transfer (simp add: wrr_throttled_def wc_clock)

lemma wd_clock_dequeue: "wd_throttled (wd_dequeue c p k) = wd_throttled k"
  by transfer (simp add: wrr_throttled_def wc_clock)

lemma wd_clock_put_prev: "wd_throttled (wd_put_prev c p k) = wd_throttled k"
  by transfer (simp add: wrr_throttled_def wc_clock)

lemma wd_clock_pick: "wd_throttled (wd_after_pick c st k) = wd_throttled k"
  by transfer (simp add: wrr_throttled_def wc_clock)

lemmas wd_clock = wd_clock_enqueue wd_clock_dequeue wd_clock_put_prev wd_clock_pick

end
