(* ===== verification/Affinity_Claims.thy ===== *)
theory Affinity_Claims
  imports Affinity_Wrr
begin

text \<open>
  The properties of placing tasks on processors: along any interleaving every runnable task is
  where it may run unless the code has lost track of it, and a processor that goes down leaves no task behind
  when its loop ends. Lemmas show where the code fails: a change of the mask that meets a task on its way to
  another processor, and taking a processor down while WRR tasks are throttled.
\<close>

section \<open>Two processors\<close>

text \<open>
  Processor \<open>c\<close> has the idle task \<open>3 * c\<close> and the stop thread \<open>3 * c + 1\<close>; the others are WRR tasks. Task 2
  waits on processor 0. Task 5 sleeps, last seen on processor 1; or (\<open>down\<close>) processor 1 goes down while
  task 5 waits on it, which may run nowhere else. \<open>now\<close> is the time of day in nanoseconds.
\<close>

definition demo_data :: "u32 \<Rightarrow> bool \<Rightarrow> wrr_data" where
  "demo_data now down =
     (let k = wd_enqueue 0 2 (wd_boot now) in if down then wd_enqueue 1 5 (wd_enqueue 1 4 k) else k)"

lemma wd_boot_queued: "wd_queued c (wd_boot now) = {}"
  by transfer (simp add: wc_queued_def wc_boot_def boot_rq_def)

lemma demo_queued: "wd_queued c (demo_data now down) = (if c = 0 then {2} else if c = 1 \<and> down then {4, 5} else {})"
  by (auto simp: demo_data_def Let_def wd_enqueue_queued wd_boot_queued PID_MAX_LIMIT_def)

lemma demo_throttled: "wd_throttled (demo_data now down) \<longleftrightarrow> now mod 100 \<le> 71"
proof -
  have "wd_throttled (wd_boot now) \<longleftrightarrow> now mod 100 \<le> 71"
    by transfer (simp add: wc_boot_def wrr_throttled_def Let_def boot_kernel_def)
  then show ?thesis by (simp add: demo_data_def Let_def wd_clock)
qed

definition aff_demo :: "u32 \<Rightarrow> bool \<Rightarrow> wrr_data aff" where
  "aff_demo now down = \<lparr>
     af_tasks = (\<lambda>p. let m = (if p mod 3 = 1 then {p div 3} else if p = 5 \<and> down then {1} else {0, 1}) in
       \<lparr>af_state = (if p = 5 \<and> \<not> down then TASK_UNINTERRUPTIBLE else TASK_RUNNING), af_frozen = False, af_allowed = m,
        af_nr_allowed = mask_weight wrr_aff m, af_cpu = p div 3, af_on_rq = (p = 2 \<or> down \<and> (p = 4 \<or> p = 5)),
        af_on_cpu = (if down \<and> (p = 3 \<or> p = 4) then p = 4 else p mod 3 = 0), af_bound = (p mod 3 = 1), af_mm = True,
        af_wrr = (p mod 3 = 2), af_contributes = False, af_migrations = 0, af_nvcsw = 0\<rparr>),
     af_rqs = (\<lambda>c. \<lparr>aq_curr = (if down \<and> c = 1 then 4 else 3 * c), aq_stop = Some (3 * c + 1),
        aq_nr_unint = (if c = 1 \<and> \<not> down then 1 else 0), aq_load_active = 0, aq_load_update = 0,
        aq_span = Some {0, 1}, aq_online = True, wake_list = []\<rparr>),
     class_data = demo_data now down,
     online_mask = {0, 1}, active_mask = (if down then {0} else {0, 1}), rd_online = {0, 1},
     af_calc_load_tasks = 0, af_calc_load_update = 0, stop_works = [], af_ipis = [], notices = []\<rparr>"

lemma aff_demo_sel:
  "af_state (af_tasks (aff_demo now down) p) = (if p = 5 \<and> \<not> down then TASK_UNINTERRUPTIBLE else TASK_RUNNING)"
  "af_allowed (af_tasks (aff_demo now down) p) = (if p mod 3 = 1 then {p div 3} else if p = 5 \<and> down then {1} else {0, 1})"
  "af_nr_allowed (af_tasks (aff_demo now down) p) = mask_weight wrr_aff (af_allowed (af_tasks (aff_demo now down) p))"
  "af_cpu (af_tasks (aff_demo now down) p) = p div 3"
  "af_on_rq (af_tasks (aff_demo now down) p) \<longleftrightarrow> p = 2 \<or> down \<and> (p = 4 \<or> p = 5)"
  "af_on_cpu (af_tasks (aff_demo now down) p) \<longleftrightarrow> (if down \<and> (p = 3 \<or> p = 4) then p = 4 else p mod 3 = 0)"
  "af_bound (af_tasks (aff_demo now down) p) \<longleftrightarrow> p mod 3 = 1" "af_wrr (af_tasks (aff_demo now down) p) \<longleftrightarrow> p mod 3 = 2"
  "\<not> af_frozen (af_tasks (aff_demo now down) p)"
  "aq_curr (af_rqs (aff_demo now down) c) = (if down \<and> c = 1 then 4 else 3 * c)"
  "aq_nr_unint (af_rqs (aff_demo now down) c) = (if c = 1 \<and> \<not> down then 1 else 0)"
  "wake_list (af_rqs (aff_demo now down) c) = []" "stop_works (aff_demo now down) = []" "online_mask (aff_demo now down) = {0, 1}"
  "active_mask (aff_demo now down) = (if down then {0} else {0, 1})" "aq_stop (af_rqs (aff_demo now down) c) = Some (3 * c + 1)"
  "aq_span (af_rqs (aff_demo now down) c) = Some {0, 1}"
  "class_data (aff_demo now down) = demo_data now down"
  by (simp_all add: aff_demo_def Let_def)

lemma aff_demo_inv: "aff_inv wrr_aff wd_queued E (aff_demo now down)"
proof -
  let ?s = "aff_demo now down"
  note sel = aff_demo_sel
  have off: "\<not> in_transit {} ?s p" for p by (simp add: in_transit_def sel)
  have "linked wd_queued ?s" by (auto simp: linked_def demo_queued sel)
  moreover have "cpus_ok wrr_aff {} ?s" by (simp add: cpus_ok_def sel)
  moreover have "tasks_ok wrr_aff E {} ?s" by (auto simp: tasks_ok_def placed_def sel PID_MAX_LIMIT_def)
  moreover have "transit_ok E {} {} ?s" by (simp add: transit_ok_def off) (simp add: sel)
  moreover have "threads_fixed wrr_aff ?s"
  proof -
    have "3 * c \<noteq> 3 * d + 1" "(3 * c + 1) mod 3 = 1" "(3 * c + 1) div 3 = c" "3 * c \<noteq> 5" "3 * c \<noteq> 4" "3 * c \<noteq> 2" for c d :: nat
      by presburger+
    then show ?thesis by (simp add: threads_fixed_def inj_def sel)
  qed
  moreover have "running_ok wrr_aff ?s"
  proof -
    have "3 * c \<noteq> 4" "3 * c \<noteq> 5" "3 * c \<noteq> 2" for c :: nat by presburger+
    moreover have "p mod 3 = 0 \<longleftrightarrow> (\<exists>c. 3 * c = p)" for p :: nat by presburger
    ultimately show ?thesis by (auto simp: running_ok_def inj_def sel)
  qed
  moreover have "load_ok wrr_aff {} ?s"
  proof -
    have "sleeping_load {} ?s = (if down then {} else {5})"
      by (auto simp: sleeping_load_def off contributes_to_load_def sel PID_MAX_LIMIT_def TASK_UNINTERRUPTIBLE_def
          TASK_RUNNING_def)
    then show ?thesis by (simp add: load_ok_def cpu_sum_def sel upt_rec)
  qed
  moreover have "resting wrr_aff ?s" by (simp add: resting_def sel)
  ultimately show ?thesis by (simp add: aff_inv_def aff_inv_at_def)
qed

section \<open>Where the code fails\<close>

text \<open>
  A task on the list of tasks to be woken has its processor but is on no queue, so
  \<^verbatim>\<open>set_cpus_allowed_ptr()\<close>, which asks the stop thread only for queued tasks, stores the new mask
  and returns 0; when the list is taken, the task is queued on a processor it must not use, and no
  stop thread has work for it.
\<close>

lemma affinity_waking_race:
  "\<exists>s1 s2. try_to_wake_up_mp wrr_aff 1 5 TASK_NORMAL (aff_demo now False) = Some (True, s1) \<and>
     set_cpus_allowed_ptr wrr_aff 2 5 {1} s1 = (None, None, s2) \<and>
     (let s3 = scheduler_ipi wrr_aff 0 s2
      in af_on_rq (af_tasks s3 5) \<and> af_cpu (af_tasks s3 5) = 0 \<and> af_allowed (af_tasks s3 5) = {1} \<and> stop_works s3 = [])"
  by (simp add: try_to_wake_up_mp_def select_task_rq_def class_select_rq_def select_task_rq_wrr_def ttwu_queue_mp_def
      cpus_share_cache_def ttwu_queue_remote_def set_cpus_allowed_ptr_def first_cpu_def do_set_cpus_allowed_mp_def
      scheduler_ipi_def sched_ttwu_pending_def ttwu_do_activate_mp_def activate_task_mp_def ttwu_do_wakeup_mp_def
      set_task_cpu_mp_def aff_demo_def TASK_NORMAL_def TASK_INTERRUPTIBLE_def TASK_UNINTERRUPTIBLE_def TASK_WAKING_def
      Let_def upt_rec) (simp add: wrr_aff_def)

text \<open>
  \<open>K\<close> are states of the classes in which \<^verbatim>\<open>pick_next_task()\<close> finds nothing but the idle task while the
  queue of the processor is not empty. \<^verbatim>\<open>pick_next_task_wrr()\<close> does so in 72 of 100 nanoseconds of the
  clock, which stands still while all processors are stopped: the loop then never ends.
\<close>

lemma migrate_tasks_throttled_hangs:
  assumes stuck: "\<And>k. k \<in> K \<Longrightarrow> cl_nr_running e c k \<noteq> 1 \<and> fst (cl_pick e c None k) = idle_of e c"
    and stays: "\<And>k ms. k \<in> K \<Longrightarrow> fold (cl_set_allowed e (idle_of e c)) ms (cl_put_prev e c (idle_of e c) (snd (cl_pick e c None k))) \<in> K"
    and cpus: "cpus_ok e D s"
    and s: "class_data s \<in> K" "aq_stop (af_rqs s c) = None" "\<not> af_on_rq (af_tasks s (idle_of e c))" "weighed e (idle_of e c) s"
  shows "migrate_tasks_loop e c s = None"
proof -
  have "\<not> (c' = c \<and> e' = e \<and> cpus_ok e D s \<and> class_data s \<in> K \<and> aq_stop (af_rqs s c) = None \<and>
      \<not> af_on_rq (af_tasks s (idle_of e c)) \<and> weighed e (idle_of e c) s)" (is "\<not> ?P e' c' s")
    if "migrate_tasks_loop e' c' s = Some r" for e' c' s r
  proof (rule migrate_tasks_loop.raw_induct [where P = "\<lambda>e c s r. \<not> ?P e c s", OF _ that])
    fix f e' c' s r
    assume IH: "\<And>e' c' s r. f e' c' s = Some r \<Longrightarrow> \<not> ?P e' c' s"
      and eq: "(if cl_nr_running e' c' (class_data s) = 1 then Some (Some s)
        else let (p, k) = cl_pick e' c' (aq_stop (af_rqs s c')) (class_data s); s1 = s\<lparr>class_data := cl_put_prev e' c' p k\<rparr>
          in case select_fallback_rq e' c' p s1 of (None, s2) \<Rightarrow> Some None
             | (Some dest, s2) \<Rightarrow> f e' c' (snd (migrate_task_mp e' p c' dest s2))) = Some r"
    show "\<not> ?P e' c' s"
    proof
      assume P: "?P e' c' s"
      let ?i = "idle_of e c" and ?k = "class_data s"
      let ?s1 = "s\<lparr>class_data := cl_put_prev e c ?i (snd (cl_pick e c None ?k))\<rparr>"
      have "cpus_ok e D ?s1" "weighed e ?i ?s1" using P by (simp_all add: cpus_ok_def weighed_def)
      then obtain dest s2 where sel: "select_fallback_rq e c ?i ?s1 = (Some dest, s2)" "mask_changed e ?i ?s1 s2"
        using select_fallback_rq_ok unfolding settled_on_def by metis
      note M = mask_changedD [OF sel(2)]
      have off: "\<not> af_on_rq (af_tasks s2 ?i)" using M(6) P by auto
      then have same: "snd (migrate_task_mp e ?i c dest s2) = s2" by (simp add: migrate_task_mp_def)
      have "cl_pick e c None ?k = (?i, snd (cl_pick e c None ?k))" using stuck P by (metis prod.collapse)
      then have "f e c s2 = Some r" using eq P stuck sel(1) same by (auto simp: Let_def split: prod.splits)
      moreover have "class_data s2 \<in> K" using M(7) stays P by auto
      ultimately show False using IH [of e c s2 r] P M off by (auto simp: cpus_ok_def)
    qed
  qed
  then show ?thesis using cpus s by (metis not_Some_eq)
qed

text \<open>The WRR class: throttled, the processor never goes down; not throttled, every turn finds a task.\<close>

lemma wrr_cpu_down_hangs:
  assumes "now mod 100 \<le> 71"
  shows "migration_call wrr_aff Cpu_Dying 1 (online_mask_update (\<lambda>m. m - {1}) (aff_demo now True)) = None"
proof -
  let ?s = "aff_demo now True" and ?K = "{k. wd_throttled k \<and> wd_nr_running 1 k \<noteq> 1}"
  let ?s2 = "dying_start wrr_aff 1 (online_mask_update (\<lambda>m. m - {1}) ?s)"
  have inv: "aff_inv wrr_aff wd_queued {} ?s" by (rule aff_demo_inv)
  have c: "1 \<in> online_mask ?s" "1 \<notin> active_mask ?s" "aq_curr (af_rqs ?s 1) = stopper_of wrr_aff 1" "in_span 1 ?s"
    by (simp_all add: aff_demo_sel in_span_def)
  note start = dying_start_ok [OF wrr_classes inv c]
  note st = loop_start_stopping [OF wrr_classes start(2,3,4)]
  have at: "aff_inv_at wrr_aff wd_queued {} {} {1} (loop_start wrr_aff 1 ?s2)" using st by (simp add: stopping_def)
  have data: "class_data (loop_start wrr_aff 1 ?s2) = demo_data now True"
    by (simp add: loop_start_def dying_start_def sched_ttwu_pending_def set_rq_offline_mp_def aff_demo_sel Let_def)
  have "card {4, 5 :: nat} = 2" by simp
  then have "wd_nr_running 1 (demo_data now True) = 2" by (simp add: wd_nr_running demo_queued del: card_insert_disjoint)
  then have K: "class_data (loop_start wrr_aff 1 ?s2) \<in> ?K" unfolding data using assms by (simp add: demo_throttled)
  have idle: "\<not> af_on_rq (af_tasks (loop_start wrr_aff 1 ?s2) (idle_of wrr_aff 1))"
    using aff_invD(5) [OF at] unfolding threads_fixed_def by blast
  have fold: "fold (cl_set_allowed wrr_aff p) ms k = k" for p ms and k :: wrr_data by (induction ms) simp_all
  have "migrate_tasks_loop wrr_aff 1 (loop_start wrr_aff 1 ?s2) = None"
  proof (rule migrate_tasks_throttled_hangs [where K = ?K, OF _ _ aff_invD(2) [OF at] K _ idle weighed_inv [OF at]])
    show "cl_nr_running wrr_aff 1 k \<noteq> 1 \<and> fst (cl_pick wrr_aff 1 None k) = idle_of wrr_aff 1" if "k \<in> ?K" for k
      using that by (simp add: wd_picked_throttled)
    show "fold (cl_set_allowed wrr_aff (idle_of wrr_aff 1)) ms (cl_put_prev wrr_aff 1 (idle_of wrr_aff 1) (snd (cl_pick wrr_aff 1 None k))) \<in> ?K"
      if "k \<in> ?K" for k ms using that by (simp add: fold wd_clock wd_laws)
    show "aq_stop (af_rqs (loop_start wrr_aff 1 ?s2) 1) = None" using st by (simp only: stopping_def)
  qed
  then show ?thesis
    using start(1) by (simp add: migrate_dying_def migrate_tasks_def loop_start_def Let_def)
qed

lemma fallback_keeps_data:
  assumes "\<And>m k. cl_set_allowed e p m k = k"
  shows "class_data (snd (select_fallback_rq e c p s)) = class_data s"
proof -
  have set: "class_data (do_set_cpus_allowed_mp e p m x) = class_data x" for m x
    using assms by (simp add: do_set_cpus_allowed_mp_def)
  have failed: "class_data (snd (fallback_loop e p Try_Fail x)) = class_data x" for x
    by (simp add: fallback_loop.simps [of e p Try_Fail] split: option.split)
  have possible: "class_data (snd (fallback_loop e p Try_Possible x)) = class_data x" for x
    by (simp add: fallback_loop.simps [of e p Try_Possible] failed set split: option.split)
  have "class_data (snd (fallback_loop e p Try_Cpuset x)) = class_data x" for x
    by (simp add: fallback_loop.simps [of e p Try_Cpuset] possible set split: option.split)
  then show ?thesis
    by (auto simp: select_fallback_rq_def split: option.splits prod.splits) (metis snd_conv)+
qed

lemma wrr_turns_clock:
  "(migrate_turn wrr_aff c)\<^sup>*\<^sup>* s s' \<Longrightarrow> wd_throttled (class_data s') = wd_throttled (class_data s)"
proof (induction rule: rtranclp_induct)
  case (step y z)
  from step.hyps(2) have "wd_throttled (class_data z) = wd_throttled (class_data y)"
  proof (cases rule: migrate_turn.cases)
    case (1 p k dest s2)
    have "class_data s2 = wd_put_prev c p k"
      using fallback_keeps_data [of wrr_aff p c "y\<lparr>class_data := cl_put_prev wrr_aff c p k\<rparr>"] 1(4) by simp
    then have "wd_throttled (class_data s2) = wd_throttled (class_data y)" using 1(3) by (auto simp: wd_clock)
    then show ?thesis unfolding 1(1) by (simp add: migrate_task_mp_def set_task_cpu_mp_def wd_clock)
  qed
  then show ?case using step.IH by simp
qed simp

lemma wrr_turns_find:
  assumes s: "stopping wrr_aff wd_queued E c s" "\<not> wd_throttled (class_data s)" and turns: "(migrate_turn wrr_aff c)\<^sup>*\<^sup>* s s1"
    and p: "af_on_rq (af_tasks s1 p)" "af_cpu (af_tasks s1 p) = c" "\<forall>d. p \<noteq> stopper_of wrr_aff d"
  shows "fst (cl_pick wrr_aff c None (class_data s1)) \<noteq> idle_of wrr_aff c"
proof -
  have st: "stopping wrr_aff wd_queued E c s1" using migrate_turns [OF wrr_classes wrr_stop_hidden turns s(1)] by blast
  then have at: "aff_inv_at wrr_aff wd_queued E {} {c} s1" by (simp add: stopping_def)
  note mem = waiting_of [OF aff_invD(1) [OF at]]
  have "\<not> stop_thread p"
  proof
    assume "stop_thread p"
    then have "p = 3 * (p div 3) + 1" by presburger
    then show False using p(3) by (metis wrr_aff_sel(4))
  qed
  moreover have "p \<in> wd_queued c (class_data s1)" using p mem by simp
  moreover have "\<not> wd_throttled (class_data s1)" using wrr_turns_clock [OF turns] s(2) by simp
  ultimately have "wd_picked c None (class_data s1) \<in> wd_queued c (class_data s1)" by (intro wd_picked_None)
  moreover have "3 * c \<notin> wd_queued c (class_data s1)" using mem aff_invD(5) [OF at] by (simp add: threads_fixed_def)
  ultimately show ?thesis by auto
qed

section \<open>Properties\<close>

lemma nr_uninterruptible_exact:
  assumes "aff_inv e Q E s"
  shows "nr_uninterruptible_mp e s = of_nat (card (sleeping_load {} s))"
proof -
  let ?n = "card (sleeping_load {} s)"
  have "cpu_sum e (possible_mask e) (\<lambda>c. aq_nr_unint (af_rqs s c)) = of_nat ?n"
    using assms by (simp add: aff_inv_def aff_inv_at_def load_ok_def)
  moreover have "\<not> sint (of_nat ?n :: ulong) < 0"
  proof -
    have "sleeping_load {} s \<subseteq> {..<PID_MAX_LIMIT}" by (auto simp: sleeping_load_def)
    then have "?n \<le> PID_MAX_LIMIT" by (metis card_lessThan card_mono finite_lessThan)
    then have small: "?n < 2 ^ 31" by (simp add: PID_MAX_LIMIT_def)
    have "sint (of_nat ?n :: ulong) = signed_take_bit 31 (int ?n)" by transfer simp
    also have "\<dots> = int ?n" using small by (intro signed_take_bit_int_eq_self) simp_all
    finally show ?thesis by simp
  qed
  ultimately show ?thesis by (simp add: nr_uninterruptible_mp_def Let_def)
qed

lemma runnable_placed:
  assumes "aff_inv e Q E s" and "af_on_rq (af_tasks s p)" and "\<And>c. p \<noteq> stopper_of e c"
  shows "af_cpu (af_tasks s p) \<in> online_mask s \<and>
    (af_cpu (af_tasks s p) \<in> af_allowed (af_tasks s p) \<or> p \<in> E \<or>
     (\<exists>d. (p, af_cpu (af_tasks s p), d) \<in> set (stop_works s) \<and> d \<in> af_allowed (af_tasks s p) \<and> d \<in> active_mask s))"
  using assms by (auto simp: aff_inv_def aff_inv_at_def tasks_ok_def placed_def)

text \<open>
  C8. Along any interleaving of wake-ups, forks, schedules, changes of masks, work of stop threads,
  balancing and processors that come and go, every runnable task is queued on exactly the processor it
  belongs to, and that processor is online. The task may run there, or a stop thread has been asked to move
  it to an active processor where it may, or it is one of the tasks the code has lost track of: its mask was
  changed while it was on the list of another processor to be woken, or the processor it was to be moved to
  was taken down before that, and since then it has neither come to a processor of its mask nor slept. Each
  processor runs its idle task or one of its own queue; nr_uninterruptible() counts exactly the tasks that
  sleep uninterruptibly; and no wake-up meets the BUG() of select_fallback_rq(). The classes are relied upon
  only to keep their queues, as the WRR class does.
\<close>

theorem affinity_runs_safe:
  assumes "classes_ok e Q" and "stop_hidden e" and "aff_inv e Q {} s" and "(aff_run e Q)\<^sup>*\<^sup>* (s, {}) (s', E')"
  shows "(\<forall>p. af_on_rq (af_tasks s' p) \<and> (\<forall>c. p \<noteq> stopper_of e c) \<longrightarrow>
      af_cpu (af_tasks s' p) \<in> online_mask s' \<and>
      (af_cpu (af_tasks s' p) \<in> af_allowed (af_tasks s' p) \<or> p \<in> E' \<or>
       (\<exists>d. (p, af_cpu (af_tasks s' p), d) \<in> set (stop_works s') \<and> d \<in> af_allowed (af_tasks s' p) \<and> d \<in> active_mask s'))) \<and>
    (\<forall>c p. p \<in> Q c (class_data s') \<longleftrightarrow> af_on_rq (af_tasks s' p) \<and> af_cpu (af_tasks s' p) = c) \<and>
    (\<forall>c. aq_curr (af_rqs s' c) = idle_of e c \<or> aq_curr (af_rqs s' c) \<in> Q c (class_data s')) \<and>
    nr_uninterruptible_mp e s' = of_nat (card (sleeping_load {} s')) \<and>
    (\<forall>me p state. wakeable_mp e p state s' \<longrightarrow> try_to_wake_up_mp e me p state s' \<noteq> None)"
proof -
  have inv: "aff_inv e Q E' s'" using aff_runs_inv [OF assms(1,2,4)] assms(3) by simp
  have at: "aff_inv_at e Q E' {} {} s'" using inv by (simp add: aff_inv_def)
  have link: "p \<in> Q c (class_data s') \<longleftrightarrow> af_on_rq (af_tasks s' p) \<and> af_cpu (af_tasks s' p) = c" for c p
    by (rule waiting_of [OF aff_invD(1) [OF at]])
  have "aq_curr (af_rqs s' c) = idle_of e c \<or> aq_curr (af_rqs s' c) \<in> Q c (class_data s')" for c
    using inv aff_invD(6) [OF at] unfolding link aff_inv_def resting_def running_ok_def by blast
  moreover have "wakeable_mp e p state s' \<Longrightarrow> try_to_wake_up_mp e me p state s' \<noteq> None" for me p state
    using try_to_wake_up_ok [OF assms(1) at, of p state me] by auto
  ultimately show ?thesis using runnable_placed [OF inv] link nr_uninterruptible_exact [OF inv] by blast
qed

text \<open>In the race above, task 5 is queued where it must not run, and it is recorded as astray.\<close>

theorem affinity_runs_safe_witness:
  "\<exists>s' E'. (aff_run wrr_aff wd_queued)\<^sup>*\<^sup>* (aff_demo 80 False, {}) (s', E') \<and>
     af_on_rq (af_tasks s' 5) \<and> af_cpu (af_tasks s' 5) = 0 \<and> af_allowed (af_tasks s' 5) = {1} \<and> 0 \<in> online_mask s' \<and> 5 \<in> E'"
proof -
  let ?s = "aff_demo 80 False"
  obtain s1 s2 where race: "try_to_wake_up_mp wrr_aff 1 5 TASK_NORMAL ?s = Some (True, s1)"
      "set_cpus_allowed_ptr wrr_aff 2 5 {1} s1 = (None, None, s2)"
      "let s3 = scheduler_ipi wrr_aff 0 s2
       in af_on_rq (af_tasks s3 5) \<and> af_cpu (af_tasks s3 5) = 0 \<and> af_allowed (af_tasks s3 5) = {1} \<and> stop_works s3 = []"
    using affinity_waking_race by blast
  have five: "5 \<noteq> 3 * c + (1 :: nat)" "3 * c + 1 \<noteq> (5 :: nat)" for c by presburger+
  have "wakeable_mp wrr_aff 5 TASK_NORMAL ?s"
    using five by (simp add: wakeable_mp_def must_wait_def aff_demo_sel PID_MAX_LIMIT_def TASK_WAKING_def TASK_NORMAL_def
        TASK_INTERRUPTIBLE_def TASK_UNINTERRUPTIBLE_def)
  then have 1: "aff_step wrr_aff wd_queued ?s {} s1" using race(1) by (rule aff_step.Wake)
  obtain N where 2: "aff_step wrr_aff wd_queued s1 N (add_work None s2)"
    using aff_step.Allow [OF _ race(2)] by auto
  have 3: "aff_step wrr_aff wd_queued s2 {} (scheduler_ipi wrr_aff 0 s2)" by (rule aff_step.Ipi)
  let ?s3 = "scheduler_ipi wrr_aff 0 s2"
  obtain E1 where r1: "aff_run wrr_aff wd_queued (?s, {}) (s1, E1)" using aff_run.Step [OF 1] by blast
  obtain E2 where r2: "aff_run wrr_aff wd_queued (s1, E1) (s2, E2)" using aff_run.Step [OF 2] by (auto simp: add_work_def)
  obtain E' where r3: "aff_run wrr_aff wd_queued (s2, E2) (?s3, E')" using aff_run.Step [OF 3] by blast
  have run: "(aff_run wrr_aff wd_queued)\<^sup>*\<^sup>* (?s, {}) (?s3, E')"
    by (rule rtranclp.rtrancl_into_rtrancl [OF rtranclp.rtrancl_into_rtrancl [OF r_into_rtranclp [of "aff_run wrr_aff wd_queued", OF r1] r2] r3])
  have race3: "af_on_rq (af_tasks ?s3 5)" "af_cpu (af_tasks ?s3 5) = 0" "af_allowed (af_tasks ?s3 5) = {1}" "stop_works ?s3 = []"
    using race(3) by (simp_all add: Let_def)
  moreover have "af_on_rq (af_tasks ?s3 5) \<and> (\<forall>c. 5 \<noteq> stopper_of wrr_aff c)" using race3 five by simp
  ultimately have "0 \<in> online_mask ?s3 \<and> 5 \<in> E'"
    using affinity_runs_safe [OF wrr_classes wrr_stop_hidden aff_demo_inv run, THEN conjunct1, THEN spec, of 5] by simp
  then show ?thesis using run race3(1,2,3) by blast
qed

text \<open>
  C9. When the stop thread of a processor that is no longer active runs, migration_call() with CPU_DYING
  never meets a BUG(). If it returns, the stop thread is the only task left on the
  processor, every task that was runnable still is and waits on another processor that is online, where it may
  run or from where a stop thread will move it (or it had gone astray before), and the counters of the processor
  are empty without changing what nr_uninterruptible() reports. It returns unless at some turn of the loop of
  migrate_tasks() pick_next_task() finds nothing but the idle task although another task is left on the
  processor; with the WRR class, and only while it is throttled, that happens, and then it never returns.
\<close>

theorem cpu_down_moves_all:
  assumes ok: "classes_ok e Q" and hidden: "stop_hidden e" and inv: "aff_inv e Q E s"
    and c: "c \<in> online_mask s" "c \<notin> active_mask s" "aq_curr (af_rqs s c) = stopper_of e c" "in_span c s"
  shows "case migration_call e Cpu_Dying c (online_mask_update (\<lambda>m. m - {c}) s) of
      None \<Rightarrow> \<exists>s1 p. (migrate_turn e c)\<^sup>*\<^sup>* (loop_start e c (dying_start e c (online_mask_update (\<lambda>m. m - {c}) s))) s1 \<and>
        af_on_rq (af_tasks s1 p) \<and> af_cpu (af_tasks s1 p) = c \<and> (\<forall>d. p \<noteq> stopper_of e d) \<and>
        fst (cl_pick e c None (class_data s1)) = idle_of e c
    | Some None \<Rightarrow> False
    | Some (Some s') \<Rightarrow>
        cl_nr_running e c (class_data s') = 1 \<and> af_on_rq (af_tasks s' (stopper_of e c)) \<and>
        (\<forall>p. af_on_rq (af_tasks s p) \<and> (\<forall>d. p \<noteq> stopper_of e d) \<longrightarrow>
          af_on_rq (af_tasks s' p) \<and> af_cpu (af_tasks s' p) \<noteq> c \<and> af_cpu (af_tasks s' p) \<in> online_mask s' \<and>
          (af_cpu (af_tasks s' p) \<in> af_allowed (af_tasks s' p) \<or> p \<in> E \<or>
           (\<exists>d. (p, af_cpu (af_tasks s' p), d) \<in> set (stop_works s') \<and> d \<in> af_allowed (af_tasks s' p) \<and> d \<in> active_mask s'))) \<and>
        aq_nr_unint (af_rqs s' c) = 0 \<and> aq_load_active (af_rqs s' c) = 0 \<and>
        nr_uninterruptible_mp e s' = of_nat (card (sleeping_load {} s'))"
proof (cases "migration_call e Cpu_Dying c (online_mask_update (\<lambda>m. m - {c}) s)")
  case None
  then show ?thesis using cpu_dying_ends [OF ok hidden inv c None] by simp
next
  case (Some r)
  obtain s' where s': "r = Some s'" "aff_inv e Q E s'" "Q c (class_data s') = {stopper_of e c}"
      "aq_nr_unint (af_rqs s' c) = 0" "aq_load_active (af_rqs s' c) = 0"
      "\<And>p. af_on_rq (af_tasks s p) \<Longrightarrow> af_on_rq (af_tasks s' p)"
    using cpu_dying_ok [OF ok hidden inv c Some] by blast
  have at: "aff_inv_at e Q E {} {} s'" using s'(2) by (simp add: aff_inv_def)
  have link: "p \<in> Q d (class_data s') \<longleftrightarrow> af_on_rq (af_tasks s' p) \<and> af_cpu (af_tasks s' p) = d" for d p
    by (rule waiting_of [OF aff_invD(1) [OF at]])
  have "cl_nr_running e c (class_data s') = 1" using nr_running_one [OF ok at] s'(3) by simp
  moreover have "af_on_rq (af_tasks s' (stopper_of e c))" using link [of "stopper_of e c" c] s'(3) by simp
  moreover have "af_cpu (af_tasks s' p) \<noteq> c" if "af_on_rq (af_tasks s' p)" "p \<noteq> stopper_of e c" for p
    using link [of p c] s'(3) that by auto
  ultimately show ?thesis
    unfolding Some s'(1) option.case
    using s'(4,5,6) runnable_placed [OF s'(2)] nr_uninterruptible_exact [OF s'(2)] by blast
qed

theorem cpu_down_moves_all_witness:
  "\<exists>s'. migration_call wrr_aff Cpu_Dying 1 (online_mask_update (\<lambda>m. m - {1}) (aff_demo 80 True)) = Some (Some s') \<and>
     cl_nr_running wrr_aff 1 (class_data s') = 1 \<and> af_on_rq (af_tasks s' 5) \<and> af_cpu (af_tasks s' 5) \<noteq> 1"
proof -
  let ?s = "aff_demo 80 True"
  let ?s2 = "dying_start wrr_aff 1 (online_mask_update (\<lambda>m. m - {1}) ?s)"
  have c: "1 \<in> online_mask ?s" "1 \<notin> active_mask ?s" "aq_curr (af_rqs ?s 1) = stopper_of wrr_aff 1" "in_span 1 ?s"
    by (simp_all add: aff_demo_sel in_span_def)
  have inv: "aff_inv wrr_aff wd_queued {} ?s" by (rule aff_demo_inv)
  have five: "af_on_rq (af_tasks ?s 5)" "\<forall>d. 5 \<noteq> stopper_of wrr_aff d" by (simp add: aff_demo_sel) (simp, presburger)
  have data: "class_data (loop_start wrr_aff 1 ?s2) = demo_data 80 True"
    by (simp add: loop_start_def dying_start_def sched_ttwu_pending_def set_rq_offline_mp_def aff_demo_sel Let_def)
  have "\<not> wd_throttled (class_data (loop_start wrr_aff 1 ?s2))" unfolding data by (simp add: demo_throttled)
  note finds = wrr_turns_find [OF loop_start_stopping [OF wrr_classes dying_start_ok(2,3,4) [OF wrr_classes inv c]] this]
  note down = cpu_down_moves_all [OF wrr_classes wrr_stop_hidden inv c]
  show ?thesis
  proof (cases "migration_call wrr_aff Cpu_Dying 1 (online_mask_update (\<lambda>m. m - {1}) ?s)")
    case None
    then show ?thesis using down finds unfolding None option.case by blast
  next
    case (Some r)
    then show ?thesis using down five unfolding Some by (cases r) (simp_all only: option.case, blast)
  qed
qed

end
