(* ===== verification/Affinity_Sys_Claims.thy ===== *)
theory Affinity_Sys_Claims
  imports Affinity_Claims
begin

text \<open>
  The properties of the system calls about the mask of a task: the loop of
  \<^verbatim>\<open>sched_setaffinity()\<close> ends and settles a mask the cpuset allows, and the mask read back is
  the mask that was written.
\<close>

section \<open>The loop ends\<close>

lemma fits_when_fixed:
  assumes "\<And>i. N \<le> i \<Longrightarrow> cpuset_at a i = cpuset_at a N"
  shows "mask_fits a m (N + 1)"
  using assms [of "N + 1"] assms [of "N + 2"] by (simp add: mask_fits_def tried_mask_def)

lemma changeable_placed:
  assumes "changeable e Q p E s" and "af_on_rq (af_tasks s p)"
  shows "af_cpu (af_tasks s p) \<in> online_mask s" and "p \<notin> E \<Longrightarrow> af_cpu (af_tasks s p) \<in> af_allowed (af_tasks s p) \<or>
    (\<exists>d. (p, af_cpu (af_tasks s p), d) \<in> set (stop_works s) \<and> d \<in> af_allowed (af_tasks s p) \<inter> active_mask s)"
proof -
  have "aff_inv e Q E s" "p \<noteq> stopper_of e c" for c using assms(1) by (simp_all add: changeable_def)
  then show "af_cpu (af_tasks s p) \<in> online_mask s" and "p \<notin> E \<Longrightarrow> af_cpu (af_tasks s p) \<in> af_allowed (af_tasks s p) \<or>
      (\<exists>d. (p, af_cpu (af_tasks s p), d) \<in> set (stop_works s) \<and> d \<in> af_allowed (af_tasks s p) \<inter> active_mask s)"
    using runnable_placed [of e Q E s p] assms(2) by blast+
qed

text \<open>What the call refuses before it changes anything.\<close>

definition setaffinity_denied :: "aff_call \<Rightarrow> errno option" where
  "setaffinity_denied a =
     (if target a = None then Some ESRCH
      else if \<not> got_allowed a \<or> \<not> got_new a then Some ENOMEM
      else if \<not> same_owner a \<and> \<not> capable_nice a then Some EPERM
      else lsm_set a)"

lemma sched_setaffinity_denied:
  "setaffinity_denied a = Some err \<Longrightarrow> sched_setaffinity e peers a m s = Some (Some err, s)"
  by (auto simp: setaffinity_denied_def sched_setaffinity_def split: if_splits)

lemma sched_setaffinity_loop:
  "setaffinity_denied a = None \<Longrightarrow> target a = Some p \<Longrightarrow>
   sched_setaffinity e peers a m s = setaffinity_again e peers a p 0 (tried_mask a m 0) s"
  by (auto simp: setaffinity_denied_def sched_setaffinity_def tried_mask_def split: if_splits)

lemma sched_setaffinity_ok:
  assumes ok: "classes_ok e Q" and first: "stop_first e Q" and peers: "peers_ok e Q p peers"
    and a: "setaffinity_denied a = None" "target a = Some p" and s: "changeable e Q p E s"
    and fixed: "\<And>i. N \<le> i \<Longrightarrow> cpuset_at a i = cpuset_at a N"
  shows "\<exists>r k E'. sched_setaffinity e peers a m s = Some (r, pass_start e peers a m p s (Suc k)) \<and>
    changeable e Q p E' (pass_start e peers a m p s (Suc k)) \<and>
    (p \<in> E' \<longrightarrow> p \<in> E \<or> (\<exists>i \<le> k. on_the_way p (pass_start e peers a m p s i))) \<and>
    online_mask (pass_start e peers a m p s (Suc k)) = online_mask s \<and> k \<le> N + 1 \<and> (\<forall>i < k. \<not> mask_fits a m i) \<and>
    setaffinity_result a m p k s r (pass_start e peers a m p s (Suc k))"
  unfolding sched_setaffinity_loop [OF a]
  by (rule setaffinity_again_ok [OF ok first peers fits_when_fixed [OF fixed] s, where j = 0 and Ej = E]) (use s in simp_all)

lemma enough_bytes: "n \<le> 8 * unat len \<Longrightarrow> 8 * unat len < 2 ^ 32 \<Longrightarrow> \<not> len * 8 < (of_nat n :: u32)"
  by (simp add: word_less_nat_alt unat_word_ariths unat_of_nat take_bit_nat_eq_self mult.commute)

section \<open>Properties\<close>

text \<open>
  C39. Whatever the other processors do in the meantime (wake, schedule, balance, fork, change the masks of
  other tasks, queue and do work for any task), short of setting the mask of the same task and of processors
  that come and go, which the call holds off, sched_setaffinity() ends once the cpuset of the task stops
  changing. A call that is refused changes nothing. Otherwise it makes as many passes as the cpuset shrank under
  it; on success the task has the mask of the last pass, which lies within the cpuset read after it, and a
  runnable task waits on an online processor of that mask, or on another one from where a stop thread has been
  asked to move it, unless the code has lost track of it, before the call or because it was on its way to a
  processor when one of the passes set its mask; the only failure is EINVAL, which leaves the mask of the
  pass before.
\<close>

theorem sched_setaffinity_settles:
  assumes "classes_ok e Q" and "stop_first e Q" and "peers_ok e Q p peers" and "target a = Some p"
    and "changeable e Q p E s" and "\<forall>i \<ge> N. cpuset_at a i = cpuset_at a N"
  shows "\<exists>r s'. sched_setaffinity e peers a m s = Some (r, s') \<and>
    (case setaffinity_denied a of
       Some err \<Rightarrow> r = Some err \<and> s' = s
     | None \<Rightarrow> \<exists>k \<le> N + 1. (\<forall>i < k. \<not> mask_fits a m i) \<and> s' = pass_start e peers a m p s (Suc k) \<and>
         (if r = None
          then af_allowed (af_tasks s' p) = tried_mask a m k \<and> tried_mask a m k \<subseteq> cpuset_at a (k + 1) \<and>
               (af_on_rq (af_tasks s' p) \<longrightarrow> af_cpu (af_tasks s' p) \<in> online_mask s' \<and>
                 (af_cpu (af_tasks s' p) \<in> tried_mask a m k \<or>
                  (\<exists>d. (p, af_cpu (af_tasks s' p), d) \<in> set (stop_works s') \<and> d \<in> tried_mask a m k \<inter> active_mask s') \<or>
                  p \<in> E \<or> (\<exists>i \<le> k. on_the_way p (pass_start e peers a m p s i))))
          else r = Some EINVAL \<and>
               af_allowed (af_tasks s' p) = (if k = 0 then af_allowed (af_tasks s p) else tried_mask a m (k - 1))))"
proof (cases "setaffinity_denied a")
  case None
  obtain r k E' where R: "sched_setaffinity e peers a m s = Some (r, pass_start e peers a m p s (Suc k))"
      "changeable e Q p E' (pass_start e peers a m p s (Suc k))"
      "p \<in> E' \<longrightarrow> p \<in> E \<or> (\<exists>i \<le> k. on_the_way p (pass_start e peers a m p s i))" "k \<le> N + 1"
      "\<forall>i < k. \<not> mask_fits a m i" "setaffinity_result a m p k s r (pass_start e peers a m p s (Suc k))"
    using sched_setaffinity_ok [OF assms(1-3) None assms(4,5), of N m] assms(6) by metis
  define s' where "s' = pass_start e peers a m p s (Suc k)"
  note R' = R [folded s'_def]
  have where_it_waits: "af_cpu (af_tasks s' p) \<in> online_mask s' \<and> (af_cpu (af_tasks s' p) \<in> af_allowed (af_tasks s' p) \<or>
      (\<exists>d. (p, af_cpu (af_tasks s' p), d) \<in> set (stop_works s') \<and> d \<in> af_allowed (af_tasks s' p) \<inter> active_mask s') \<or>
      p \<in> E \<or> (\<exists>i \<le> k. on_the_way p (pass_start e peers a m p s i)))" if "af_on_rq (af_tasks s' p)"
    using changeable_placed [OF R'(2) that] R'(3) by blast
  have "if r = None
      then af_allowed (af_tasks s' p) = tried_mask a m k \<and> tried_mask a m k \<subseteq> cpuset_at a (k + 1)
      else r = Some EINVAL \<and>
           af_allowed (af_tasks s' p) = (if k = 0 then af_allowed (af_tasks s p) else tried_mask a m (k - 1))"
    using R'(6) by (auto simp: setaffinity_result_def mask_fits_def)
  then show ?thesis unfolding None option.case
    using R'(1,4,5) where_it_waits s'_def
    by (intro exI [of _ r] exI [of _ s'] conjI exI [of _ k]) (cases r; simp del: pass_start.simps)+
qed (simp add: sched_setaffinity_denied)

text \<open>
  Task 2 waits on processor 0 and is to run on processor 1 only, which the cpuset, read again after the
  first pass, no longer allows.
\<close>

definition demo_call :: aff_call where
  "demo_call = \<lparr>target = Some 2, caller = 2, got_allowed = True, got_new = True, same_owner = True, capable_nice = False,
     lsm_set = None, lsm_get = None, cpuset_at = (\<lambda>i. if i = 0 then {0, 1} else {0})\<rparr>"

lemma quiet_peers: "peers_ok e Q p (\<lambda>n s. s)"
  unfolding peers_ok_def by (meson last_in_set rtranclp.rtrancl_refl)

theorem sched_setaffinity_settles_witness:
  "\<exists>r s'. sched_setaffinity wrr_aff (\<lambda>n s. s) demo_call {1} (aff_demo 80 False) = Some (r, s') \<and>
     (r = None \<longrightarrow> af_allowed (af_tasks s' 2) = {0})"
proof -
  have call: "target demo_call = Some 2" "\<forall>i \<ge> 1. cpuset_at demo_call i = cpuset_at demo_call 1"
      "setaffinity_denied demo_call = None" "\<not> mask_fits demo_call {1} 0"
    by (simp_all add: setaffinity_denied_def mask_fits_def tried_mask_def demo_call_def)
  have "2 \<noteq> 3 * c + (1 :: nat)" for c by presburger
  then have "changeable wrr_aff wd_queued 2 {} (aff_demo 80 False)"
    using aff_demo_inv by (simp add: changeable_def has_stoppers_def aff_demo_sel)
  from sched_setaffinity_settles [OF wrr_classes wrr_stop_first quiet_peers call(1) this call(2), of "{1}"]
  obtain r s' k where R: "sched_setaffinity wrr_aff (\<lambda>n s. s) demo_call {1} (aff_demo 80 False) = Some (r, s')"
      "r = None \<longrightarrow> af_allowed (af_tasks s' 2) = tried_mask demo_call {1} k \<and> mask_fits demo_call {1} k"
    unfolding call(3) option.case mask_fits_def by metis
  have "af_allowed (af_tasks s' 2) = {0}" if "r = None"
  proof (cases "k = 0")
    case True
    then show ?thesis using R(2) that call(4) by blast
  qed (use R(2) that in \<open>simp add: tried_mask_def demo_call_def\<close>)
  then show ?thesis using R(1) by blast
qed

text \<open>
  C40. The mask read back is the mask written. When sched_setaffinity() of the bytes of a mask succeeds while
  the cpuset stays the same, sched_getaffinity() with a buffer that is large and aligned as it asks stores the
  bytes of exactly the processors of that mask that fit the length given, that the cpuset allows and that are
  online, and returns the smaller of its length and the size of a mask.
\<close>

theorem affinity_syscalls_roundtrip:
  assumes "classes_ok e Q" and "stop_first e Q" and "peers_ok e Q p peers" and "target a = Some p"
    and "changeable e Q p E s" and "lsm_get a = None" and fixed: "\<forall>i. cpuset_at a i = C"
    and bits: "ncpus e \<le> bits" "length old = cpumask_size bits"
    and len': "ncpus e \<le> 8 * unat len'" "8 * unat len' < 2 ^ 32" "len' AND 3 = 0"
    and set: "sys_sched_setaffinity e peers a bits (Some old) len (mask_bytes (unat len) m) s = Some (None, s')"
  shows "\<exists>bs. sys_sched_getaffinity e a bits True len' True s' = Inr bs \<and>
    length bs = min (unat len') (cpumask_size bits) \<and>
    bytes_mask bs = m \<inter> {..<8 * min (unat len) (cpumask_size bits)} \<inter> C \<inter> online_mask s"
proof -
  let ?M = "m \<inter> {..<8 * min (unat len) (cpumask_size bits)}"
  have call: "sched_setaffinity e peers a ?M s = Some (None, s')"
    using set by (simp add: sys_sched_setaffinity_def get_user_cpu_mask_bytes bits)
  then have denied: "setaffinity_denied a = None"
    using sched_setaffinity_denied [of a _ e peers ?M s] by (cases "setaffinity_denied a") auto
  obtain r k E' where R: "sched_setaffinity e peers a ?M s = Some (r, pass_start e peers a ?M p s (Suc k))"
      "changeable e Q p E' (pass_start e peers a ?M p s (Suc k))"
      "online_mask (pass_start e peers a ?M p s (Suc k)) = online_mask s" "\<forall>i < k. \<not> mask_fits a ?M i"
      "setaffinity_result a ?M p k s r (pass_start e peers a ?M p s (Suc k))"
    using sched_setaffinity_ok [OF assms(1-3) denied assms(4,5), of 0 ?M] fixed by metis
  have "r = None" "pass_start e peers a ?M p s (Suc k) = s'" using R(1) call by simp_all
  then have k: "\<forall>i < k. \<not> mask_fits a ?M i" "setaffinity_result a ?M p k s None s'" "changeable e Q p E' s'"
      "online_mask s' = online_mask s"
    using R(2-5) by simp_all
  have "mask_fits a ?M 0" using fixed by (simp add: mask_fits_def tried_mask_def)
  then have "k = 0" using k(1) by blast
  then have allowed: "af_allowed (af_tasks s' p) = ?M \<inter> C" using k(2) fixed by (simp add: setaffinity_result_def tried_mask_def)
  let ?X = "?M \<inter> C \<inter> online_mask s" and ?n = "min (unat len') (cpumask_size bits)"
  have "online_mask s \<subseteq> {..<ncpus e}"
    using k(3,4) unfolding changeable_def aff_inv_def aff_inv_at_def cpus_ok_def by blast
  moreover have "ncpus e \<le> 8 * ?n" using bits(1) len'(1) unfolding cpumask_size_def by simp
  ultimately have fits: "?X \<inter> {..<8 * ?n} = ?X" by fastforce
  have "\<not> len' * 8 < of_nat (ncpus e)" by (rule enough_bytes [OF len'(1,2)])
  then have "sys_sched_getaffinity e a bits True len' True s' = Inr (mask_bytes ?n ?X)"
    using len'(3) assms(4,6) allowed k(4) by (simp add: sys_sched_getaffinity_def sched_getaffinity_def take_mask_bytes)
  then show ?thesis using bytes_mask_bytes [of ?n ?X] fits by (simp add: mask_bytes_def)
qed

definition sleeper_call :: aff_call where
  "sleeper_call = demo_call\<lparr>target := Some 5, cpuset_at := (\<lambda>i. {0, 1})\<rparr>"

theorem affinity_syscalls_roundtrip_witness:
  "\<exists>s' bs. sys_sched_setaffinity wrr_aff (\<lambda>n s. s) sleeper_call 2 (Some [0, 0, 0, 0]) 1 (mask_bytes 1 {1, 3})
       (aff_demo 80 False) = Some (None, s') \<and>
     sys_sched_getaffinity wrr_aff sleeper_call 2 True 8 True s' = Inr bs \<and> length bs = 4 \<and> bytes_mask bs = {1}"
proof -
  have call: "target sleeper_call = Some 5" "setaffinity_denied sleeper_call = None" "lsm_get sleeper_call = None"
      "\<forall>i. cpuset_at sleeper_call i = {0, 1}"
    by (simp_all add: sleeper_call_def demo_call_def setaffinity_denied_def)
  let ?s = "aff_demo 80 False" and ?M = "{1, 3} \<inter> {..<8 * min (unat (1 :: u32)) (cpumask_size 2)} :: cpumask"
  have M: "?M = {1, 3}" by (auto simp: cpumask_size_def)
  have "fst (set_cpus_allowed_wait wrr_aff (\<lambda>n s. s) 0 c 5 {1} ?s) = None" for c
    by (simp add: set_cpus_allowed_wait_def set_cpus_allowed_ptr_def Let_def aff_demo_sel
        first_cpu_def upt_rec)
  then obtain s' where "set_cpus_allowed_wait wrr_aff (\<lambda>n s. s) 0 (caller sleeper_call) 5 {1} ?s = (None, s')"
    by (metis prod.collapse)
  then have "sched_setaffinity wrr_aff (\<lambda>n s. s) sleeper_call {1, 3} ?s = Some (None, s')"
    using call by (simp add: sched_setaffinity_loop [OF call(2,1)] tried_mask_def) (subst setaffinity_again.simps, simp)
  then have set: "sys_sched_setaffinity wrr_aff (\<lambda>n s. s) sleeper_call 2 (Some [0, 0, 0, 0]) 1
      (mask_bytes (unat (1 :: u32)) {1, 3}) ?s = Some (None, s')"
    using get_user_cpu_mask_bytes [of "[0, 0, 0, 0]" 2 1 "{1, 3}"] M
    by (simp add: sys_sched_setaffinity_def) (simp add: cpumask_size_def)
  have "changeable wrr_aff wd_queued 5 {} ?s"
  proof -
    have "5 \<noteq> 3 * c + (1 :: nat)" for c by presburger
    then show ?thesis using aff_demo_inv by (simp add: changeable_def has_stoppers_def aff_demo_sel)
  qed
  then have "\<exists>bs. sys_sched_getaffinity wrr_aff sleeper_call 2 True 8 True s' = Inr bs \<and>
      length bs = min (unat (8 :: u32)) (cpumask_size 2) \<and> bytes_mask bs = ?M \<inter> {0, 1} \<inter> online_mask ?s"
    by (intro affinity_syscalls_roundtrip [OF wrr_classes wrr_stop_first quiet_peers call(1) _ call(3,4) _ _ _ _ _ set])
      (simp_all add: cpumask_size_def)
  then show ?thesis using set unfolding M by (auto simp: cpumask_size_def aff_demo_sel)
qed

end
