(* ===== verification/Spec2Isabelle.thy ===== *)
theory Spec2Isabelle
  imports Wrr_Claims Rt_Claims Load_Props Task_Claims Rt_Admission_Claims Completion_Claims Cputime_Claims Preempt_Claims
    Boot_Claims Utils_Claims Rt_Balance_Claims Cfs_Bandwidth_Claims Context_Switch_Claims Rt_Smp_Claims
    Affinity_Sys_Claims
begin

text \<open>
  A verification library for a Linux scheduler with a weighted round-robin class.

  \<^bold>\<open>The program.\<close> The repository patches the scheduler of Linux 3.4.67 for Android. Its new part
  is the scheduling class WRR (\<^verbatim>\<open>patch/kernel/sched/wrr.c\<close>), which runs its tasks in turn and gives
  each a slice proportional to a weight; the patch also changes the files it is built into, which the
  repository holds in full: the core scheduler \<^verbatim>\<open>core.c\<close>, the real-time class \<^verbatim>\<open>rt.c\<close> and their
  headers \<^verbatim>\<open>sched.h\<close>, \<^verbatim>\<open>linux/sched.h\<close> and \<^verbatim>\<open>linux/init_task.h\<close>. Two command line tools under
  \<^verbatim>\<open>utils\<close> set and show the policy of a task. The core keeps one run queue per processor and calls
  the class of a task through the function pointers of \<^verbatim>\<open>struct sched_class\<close>; the classes are asked
  in the order stop, real time, WRR, fair, idle. The build is the configured one
  (\<^verbatim>\<open>goldfish_armv7_defconfig\<close>): one processor, 32-bit, group scheduling, tickless, preemptible.
  Three components, pushing and pulling of real-time tasks, the balancing of run time, and CPU affinity with
  processor hotplug, model code of the build for several processors.

  \<^bold>\<open>The state.\<close> \<^verbatim>\<open>Sched_Prelude\<close> has the machine integers, the kernel lists and the collections of
  facts. \<^verbatim>\<open>Kernel_State\<close> has one record per structure with the fields the modelled code uses, and
  \<open>'f kernel\<close>, the whole of the state: the run queue, all tasks, the group tree, clocks, limits and
  statistics. The component \<open>'f\<close> is the state of the classes whose source is not in the repository
  (fair, idle, stop); their operations are the record \<open>'f sched_class_ops\<close> in the environment \<open>'f env\<close>,
  with the security hooks. A call of other code that changes nothing modelled is recorded in the
  log \<open>calls\<close>. Pointers are names: a task is a number, a group the path from it to the root. Fallible
  operations return an option, where \<open>None\<close> is a \<^verbatim>\<open>BUG()\<close>, a null pointer or a loop that does not
  end; a property that an operation is safe says that it returns \<open>Some\<close>.

  \<^bold>\<open>The theories.\<close>
  \<^item> \<^verbatim>\<open>Wrr\<close>: \<^verbatim>\<open>wrr.c\<close>, one definition per function. \<^verbatim>\<open>Wrr_Inv\<close>, \<^verbatim>\<open>Wrr_Props\<close>: the invariant of the
    queue, its counters and its sum of weights; ticks, rotation and fairness. \<^verbatim>\<open>Wrr_Claims\<close>: the
    properties of the class.
  \<^item> \<^verbatim>\<open>Rt\<close>: \<^verbatim>\<open>rt.c\<close> with its hierarchy of run queues, bandwidth and throttling. \<^verbatim>\<open>Rt_Inv\<close>, \<^verbatim>\<open>Rt_Tree\<close>,
    \<^verbatim>\<open>Rt_Props\<close>, \<^verbatim>\<open>Rt_Class\<close>, \<^verbatim>\<open>Rt_Claims\<close>: every priority array is correct, an entity of a group is
    queued exactly when the group has work and is not throttled, the highest priority is picked,
    throttling is enforced and ends.
  \<^item> \<^verbatim>\<open>Class_Contract\<close>: the locale \<open>queue_class\<close>, what taking a task off a queue and putting it back
    guarantees, interpreted on both classes.
  \<^item> \<^verbatim>\<open>Load_Avg\<close>, \<^verbatim>\<open>Load_Props\<close>: the load averages of \<^verbatim>\<open>core.c\<close> in fixed-point arithmetic, with the
    accounting of tickless idle time.
  \<^item> \<^verbatim>\<open>Core\<close>: priorities, run queue, wake-up, fork, tick, \<^verbatim>\<open>__schedule()\<close> and \<^verbatim>\<open>schedule()\<close>. \<^verbatim>\<open>Core_Class\<close>:
    the locale \<open>class_contract\<close> over \<open>sched_class_ops\<close>, what the core may expect of a class,
    interpreted on the WRR and the real-time class. \<^verbatim>\<open>Core_Inv\<close>, \<^verbatim>\<open>Core_Steps\<close>, \<^verbatim>\<open>Core_Run\<close>, \<^verbatim>\<open>Core_Loop\<close>,
    \<^verbatim>\<open>Core_Fork\<close>, \<^verbatim>\<open>Core_Claims\<close>: the invariant of the whole scheduler along any sequence of
    operations, for all outside classes that satisfy the contract; the main loop ends.
  \<^item> \<^verbatim>\<open>Setsched\<close>, \<^verbatim>\<open>Setsched_Props\<close>, \<^verbatim>\<open>Setsched_Claims\<close>: nice values, priority inheritance and the
    system calls that set and read policies, with the locale \<open>class_params\<close> for what a class leaves
    alone. \<^verbatim>\<open>Task_Claims\<close>: waking, forking and the weight tables, from the view of one task.
  \<^item> \<^verbatim>\<open>Rt_Admission\<close>, \<^verbatim>\<open>Rt_Admission_Props\<close>, \<^verbatim>\<open>Rt_Admission_Claims\<close>: \<^verbatim>\<open>walk_tg_tree()\<close> and the check that
    the run time promised to groups can be served. \<^verbatim>\<open>Cfs_Bandwidth\<close>, \<^verbatim>\<open>Cfs_Bandwidth_Claims\<close>: the same
    walk for the limits of fair groups.
  \<^item> \<^verbatim>\<open>Completion\<close>, \<^verbatim>\<open>Completion_Claims\<close>: wait queues, completions and \<^verbatim>\<open>sleep_on()\<close>, split where a
    thread sleeps, and their refinement of a counting semaphore along every interleaving.
  \<^item> \<^verbatim>\<open>Cputime\<close>, \<^verbatim>\<open>Cputime_Claims\<close>: tick accounting and the accounting groups.
  \<^item> \<^verbatim>\<open>Preempt\<close>, \<^verbatim>\<open>Preempt_Claims\<close>: the preemption count and the points where a task gives way.
  \<^item> \<^verbatim>\<open>Context_Switch\<close>, \<^verbatim>\<open>Context_Switch_Claims\<close>: the change from one task to the next and the
    references on address spaces and tasks; the statistics of \<^verbatim>\<open>core.c\<close>.
  \<^item> \<^verbatim>\<open>Boot\<close>, \<^verbatim>\<open>Boot_Claims\<close>: \<^verbatim>\<open>sched_init()\<close>; the invariants hold from boot on.
  \<^item> \<^verbatim>\<open>Rt_Balance\<close>, \<^verbatim>\<open>Rt_Balance_Claims\<close>: the processors of the SMP build lending each other run
    time: what they hold together is what it should be, but for what enabling a processor twice creates.
  \<^item> \<^verbatim>\<open>Rt_Push\<close>: pushing and pulling real-time tasks in the SMP build, with the other processors acting
    whenever a lock is given up. \<^verbatim>\<open>Rt_Push_Inv\<close>, \<^verbatim>\<open>Rt_Push_Steps\<close>, \<^verbatim>\<open>Rt_Pull_Steps\<close>, \<^verbatim>\<open>Rt_Smp\<close>,
    \<^verbatim>\<open>Rt_Smp_Claims\<close>: the queues of all processors stay correct, no \<^verbatim>\<open>BUG_ON()\<close> is reached, pushing
    ends and pulling takes what should run here.
  \<^item> \<^verbatim>\<open>Affinity\<close>, \<^verbatim>\<open>Affinity_Calls\<close>: where a task may run in the SMP build: its mask, waking it on another
    processor, moving it by the stop threads, \<^verbatim>\<open>sched_setaffinity()\<close> and \<^verbatim>\<open>sched_getaffinity()\<close>, taking
    processors up and down. The classes are a parameter with the laws \<open>classes_ok\<close>, \<open>stop_hidden\<close> and
    \<open>stop_first\<close>; \<^verbatim>\<open>Affinity_Wrr\<close> builds the parameter from the operations of \<^verbatim>\<open>Wrr\<close>, one queue for each
    processor, and proves the laws. \<^verbatim>\<open>Affinity_Run\<close>: the steps of the processors, and the set of tasks that the
    code leads astray. \<^verbatim>\<open>Affinity_Inv\<close>, \<^verbatim>\<open>Affinity_Steps\<close>, \<^verbatim>\<open>Affinity_Ops\<close>, \<^verbatim>\<open>Affinity_Down\<close>, \<^verbatim>\<open>Affinity_Sys\<close>,
    \<^verbatim>\<open>Affinity_Claims\<close>, \<^verbatim>\<open>Affinity_Sys_Claims\<close>: every other runnable task is where it may run or about to be
    moved there, a processor that goes down without hanging leaves no task behind (with the WRR class throttled
    it can hang), and \<^verbatim>\<open>sched_setaffinity()\<close> ends.
  \<^item> \<^verbatim>\<open>Utils\<close>, \<^verbatim>\<open>Utils_Claims\<close>: the tools \<^verbatim>\<open>chshed\<close> and \<^verbatim>\<open>lshed\<close> on the modelled system calls.

  \<^bold>\<open>Bounds and loops.\<close> Integers have the width they have in C and wrap. Where a theorem needs that a
  counter does not wrap, the bound comes from the system (fewer than \<open>PID_MAX_LIMIT\<close> tasks, \<open>GROUP_MAX\<close>
  groups, which a 32-bit address space holds) or is a hypothesis. Loops over a structure are structural
  recursions over it; the walk of the class list has five steps, one for each class. The loops
  that might not end, \<open>schedule_loop\<close>, \<open>preempt_schedule_loop\<close>, \<open>pick_rt_descend\<close>, \<open>walk_loop\<close>,
  \<open>wait_loop\<close>, \<open>push_rt_retry\<close>, \<open>push_rt_tasks\<close>, \<open>migrate_tasks_loop\<close>, \<open>setaffinity_again\<close> and \<open>wait_task_inactive\<close>,
  are \<^theory_text>\<open>partial_function (option)\<close>; \<open>schedule_returns\<close>, \<open>pick_next_task_rt_highest\<close>, \<open>walk_tg_tree_traverses\<close>,
  \<open>push_rt_tasks_settle\<close>, \<open>sched_setaffinity_settles\<close> and \<open>wait_task_inactive_returns\<close> show that
  they return, and \<open>cpu_down_moves_all\<close> shows the only case in which \<open>migrate_tasks_loop\<close> does not. No fuel is used.

  \<^bold>\<open>Not modelled.\<close> The fair, idle and stop classes, the mutexes of priority inheritance, work queues,
  timers, security modules and process creation are not in the repository; they are parameters or
  steps of the environment. Of the files that are: locks and interrupt flags (every operation runs under
  its run queue lock, and an interleaving is a sequence of operations); load balancing and the construction of
  scheduling domains, which the configured build does not compile; tracing, debug output and sysctl tables, which have no effect on the scheduler; the
  high-resolution tick; the accounting variants that are not compiled; and \<^verbatim>\<open>proctest\<close>, a benchmark.
\<close>

end
